(* ===== verification/OS_Prelude.thy ===== *)
theory OS_Prelude
  imports Main "HOL-Library.Word" "HOL-Library.Signed_Division"
begin

text \<open>
  Shared vocabulary of the development: the C integer types as words, the errno constants the
  sources return (as negative integers, the way the kernel returns them), the faults that stand
  for undefined behaviour of the C code, a result type that keeps faults apart from ordinary
  error returns, and the generic lemmas on lists, maps and results that the components use.
\<close>

unbundle bit_operations_syntax

named_theorems kres_simps \<open>unfolding rules for fault-or-value computations\<close>
named_theorems inv_intros \<open>operations keep the invariant of their component\<close>

subsection \<open>C types\<close>

type_synonym s32 = "32 word"
type_synonym u32 = "32 word"
type_synonym u64 = "64 word"
type_synonym u8 = "8 word"
type_synonym addr = nat

subsection \<open>errno values\<close>

definition EPERM :: int where "EPERM = 1"
definition ENOENT :: int where "ENOENT = 2"
definition EINTR :: int where "EINTR = 4"
definition EIO :: int where "EIO = 5"
definition E2BIG :: int where "E2BIG = 7"
definition EBADF :: int where "EBADF = 9"
definition EAGAIN :: int where "EAGAIN = 11"
definition ENOMEM :: int where "ENOMEM = 12"
definition EACCES :: int where "EACCES = 13"
definition EFAULT :: int where "EFAULT = 14"
definition EEXIST :: int where "EEXIST = 17"
definition ENODEV :: int where "ENODEV = 19"
definition EINVAL :: int where "EINVAL = 22"
definition ENFILE :: int where "ENFILE = 23"
definition ENOSPC :: int where "ENOSPC = 28"
definition EROFS :: int where "EROFS = 30"
definition ERANGE :: int where "ERANGE = 34"
definition ENOSYS :: int where "ENOSYS = 38"
definition ENODATA :: int where "ENODATA = 61"
definition ENOTSOCK :: int where "ENOTSOCK = 88"
definition EMSGSIZE :: int where "EMSGSIZE = 90"
definition EOPNOTSUPP :: int where "EOPNOTSUPP = 95"
definition EAFNOSUPPORT :: int where "EAFNOSUPPORT = 97"
definition ECONNABORTED :: int where "ECONNABORTED = 103"
definition EIOCBQUEUED :: int where "EIOCBQUEUED = 529"
definition EFSCORRUPTED :: int where "EFSCORRUPTED = 117"

lemmas errno_defs = EPERM_def ENOENT_def EINTR_def EIO_def E2BIG_def EAGAIN_def ENOMEM_def
  EACCES_def EFAULT_def EEXIST_def ENODEV_def EINVAL_def ENFILE_def ENOSPC_def EROFS_def
  ERANGE_def ENOSYS_def ENODATA_def EOPNOTSUPP_def EAFNOSUPPORT_def EFSCORRUPTED_def
  EBADF_def ENOTSOCK_def EMSGSIZE_def ECONNABORTED_def EIOCBQUEUED_def

subsection \<open>Faults: what the C code must never do\<close>

text \<open>
  A fault is undefined behaviour or a stuck machine, not an error the code reports: an array
  index outside its array, a dereference of freed or never allocated memory, a NULL dereference,
  a spinlock taken twice by the same context, a write past the end of a buffer, a \<^verbatim>\<open>BUG_ON\<close>
  that triggers.
\<close>

datatype fault =
    IndexOutOfBounds int
  | UseAfterFree addr
  | NullDereference
  | Deadlock
  | BufferOverflow
  | BugOn

type_synonym 'a kres = "fault + 'a"

definition kbind :: "'e + 'a \<Rightarrow> ('a \<Rightarrow> 'e + 'b) \<Rightarrow> 'e + 'b" where
  "kbind m f = (case m of Inl e \<Rightarrow> Inl e | Inr x \<Rightarrow> f x)"

lemma kbind_simps [simp, kres_simps]:
  "kbind (Inl e) f = Inl e" "kbind (Inr x) f = f x"
  by (simp_all add: kbind_def)

lemma kbind_Inr_iff: "kbind m f = Inr y \<longleftrightarrow> (\<exists>x. m = Inr x \<and> f x = Inr y)"
  by (cases m) auto

lemma kbind_InrE [elim!]:
  assumes "kbind m f = Inr y"
  obtains x where "m = Inr x" and "f x = Inr y"
  using assms by (auto simp: kbind_Inr_iff)

lemma kbind_cong [fundef_cong]:
  "m = m' \<Longrightarrow> (\<And>x. m' = Inr x \<Longrightarrow> f x = g x) \<Longrightarrow> kbind m f = kbind m' g"
  by (cases m') auto

subsection \<open>Lists indexed by the hash of a key\<close>

lemma nth_update_same [simp]: "i < length xs \<Longrightarrow> xs[i := v] ! i = v"
  by simp

lemma concat_update_mset_insert:
  "i < length xs \<Longrightarrow> set (concat (xs[i := a # (xs ! i)])) = insert a (set (concat xs))"
  by (induction xs arbitrary: i) (auto split: nat.splits)

lemma set_concat_conv: "x \<in> set (concat xs) \<longleftrightarrow> (\<exists>i < length xs. x \<in> set (xs ! i))"
proof -
  have "x \<in> set (concat xs) \<longleftrightarrow> (\<exists>ys \<in> set xs. x \<in> set ys)" by simp
  then show ?thesis by (metis in_set_conv_nth)
qed

text \<open>A loop that stores the same value in the slots \<open>0\<close> to \<open>n - 1\<close>.\<close>

lemma fold_list_update_upt:
  "n \<le> length xs \<Longrightarrow> fold (\<lambda>i ys. ys[i := v]) [0..<n] xs = replicate n v @ drop n xs"
proof (induction n)
  case (Suc n)
  then have "fold (\<lambda>i ys. ys[i := v]) [0..<Suc n] xs = (replicate n v @ drop n xs)[n := v]" by simp
  also have "drop n xs = xs ! n # drop (Suc n) xs" using Suc.prems by (simp add: Cons_nth_drop_Suc)
  finally show ?case by (simp add: list_update_append replicate_append_same)
qed simp

lemma nth_fold_list_update:
  "i < length xs \<Longrightarrow> fold (\<lambda>i ys. ys[i := v]) is xs ! i = (if i \<in> set is then v else xs ! i)"
  by (induction "is" arbitrary: xs) (auto simp: nth_list_update)

lemma length_fold_list_update [simp]: "length (fold (\<lambda>i ys. ys[i := v]) is xs) = length xs"
  by (induction "is" arbitrary: xs) auto

subsection \<open>Machine words\<close>

lemma ucast_add_64_32: "(ucast (a + b) :: 32 word) = ucast a + ucast b" for a b :: "64 word"
proof -
  have "unat (ucast (a + b) :: 32 word) = unat (ucast a + ucast b :: 32 word)"
    by (simp add: unat_word_ariths unsigned_ucast_eq take_bit_eq_mod mod_mod_cancel mod_simps)
  then show ?thesis by (simp add: word_unat_eq_iff)
qed

lemma unat_ucast_sum_list:
  "unat (ucast (sum_list ws) :: 32 word) = sum_list (map unat (ws :: 64 word list)) mod 2 ^ 32"
proof (induction ws)
  case (Cons w ws)
  have "unat (ucast (sum_list (w # ws)) :: 32 word) = unat (ucast w + ucast (sum_list ws) :: 32 word)"
    by (simp add: ucast_add_64_32)
  also have "\<dots> = (unat w + sum_list (map unat ws)) mod 2 ^ 32"
    using Cons.IH by (simp add: unat_word_ariths unsigned_ucast_eq take_bit_eq_mod mod_simps)
  finally show ?case by simp
qed simp

lemma uint_of_sint: "0 \<le> sint w \<Longrightarrow> uint w = sint w" for w :: "32 word"
  using sint_less [of w] by (simp add: uint_sint take_bit_int_eq_self)

subsection \<open>Runs and invariants\<close>

text \<open>
  The contract of a component that moves by steps: an initial condition, a step relation and an
  invariant that holds initially and is kept by every step. The states a run reaches are given
  once here, and every component's state machine is an instance.
\<close>

inductive run_of :: "('s \<Rightarrow> 's \<Rightarrow> bool) \<Rightarrow> 's \<Rightarrow> 's \<Rightarrow> bool" for step where
  run_refl [intro!]: "run_of step s s"
| run_step: "run_of step s t \<Longrightarrow> step t u \<Longrightarrow> run_of step s u"

lemma run_of_trans: "run_of step s t \<Longrightarrow> run_of step t u \<Longrightarrow> run_of step s u"
  by (rotate_tac, induction rule: run_of.induct) (auto intro: run_step)

locale transition_system =
  fixes init :: "'s \<Rightarrow> bool"
    and step :: "'s \<Rightarrow> 's \<Rightarrow> bool"
    and inv :: "'s \<Rightarrow> bool"
  assumes init_inv: "init s \<Longrightarrow> inv s"
    and step_inv: "inv s \<Longrightarrow> step s t \<Longrightarrow> inv t"
begin

lemma run_inv: "run_of step s t \<Longrightarrow> inv s \<Longrightarrow> inv t"
  by (induction rule: run_of.induct) (auto intro: step_inv)

lemma reachable_inv: "init s \<Longrightarrow> run_of step s t \<Longrightarrow> inv t"
  by (blast intro: run_inv init_inv)

end

end
