(* ===== verification/KV_Store.thy ===== *)
theory KV_Store
  imports OS_Prelude
begin

text \<open>
  The per-process key-value store: \<^verbatim>\<open>kernel/kv_store.c\<close>, \<^verbatim>\<open>include/linux/kv_store.h\<close>, the
  \<^verbatim>\<open>kv_data\<close> field of \<^verbatim>\<open>struct task_struct\<close> (\<^verbatim>\<open>include/linux/sched.h\<close>), and what
  \<^verbatim>\<open>copy_process\<close>, \<^verbatim>\<open>do_exit\<close> and \<^verbatim>\<open>de_thread\<close> do to it.

  A bucket is the sequence of addresses of the \<^verbatim>\<open>kv_pair\<close> nodes chained from its
  \<^verbatim>\<open>hlist_head\<close>; the nodes themselves live in an explicit heap, so that copied list heads
  alias the same nodes and a freed node is an address without an entry. \<^verbatim>\<open>kmalloc\<close> is a
  parameter: it yields the address and the (uninitialised) contents of a block, or nothing.
\<close>

subsection \<open>Data\<close>

record kv_pair =
  key :: s32
  val :: s32

type_synonym kv_heap = "addr \<Rightarrow> kv_pair option"
type_synonym kmalloc_fn = "kv_heap \<Rightarrow> (addr \<times> kv_pair) option"

record task_struct =
  pid :: int
  tgid :: int
  group_leader :: nat
  kv_store :: "addr list list"
  kv_locks :: "bool list"

record kernel =
  tasks :: "nat \<Rightarrow> task_struct option"
  kv_mem :: kv_heap

definition KV_BUCKETS :: nat where "KV_BUCKETS = 1024"

text \<open>C's \<open>%\<close> truncates towards zero, as \<^const>\<open>signed_modulo\<close> does.\<close>

definition kv_hash :: "s32 \<Rightarrow> int" where
  "kv_hash k = sint k smod 1024"

subsection \<open>Locating a bucket\<close>

definition get_task :: "kernel \<Rightarrow> nat \<Rightarrow> task_struct kres" where
  "get_task s t = (case tasks s t of None \<Rightarrow> Inl (UseAfterFree t) | Some ts \<Rightarrow> Inr ts)"

definition get_process_task :: "kernel \<Rightarrow> nat \<Rightarrow> nat kres" where
  "get_process_task s cur = kbind (get_task s cur) (\<lambda>ts. Inr (group_leader ts))"

definition array_index :: "int \<Rightarrow> nat \<Rightarrow> nat kres" where
  "array_index i n = (if 0 \<le> i \<and> i < int n then Inr (nat i) else Inl (IndexOutOfBounds i))"

definition get_hash_bucket :: "kernel \<Rightarrow> nat \<Rightarrow> s32 \<Rightarrow> (nat \<times> nat) kres" where
  "get_hash_bucket s cur k =
     kbind (get_process_task s cur) (\<lambda>l.
     kbind (array_index (kv_hash k) KV_BUCKETS) (\<lambda>i. Inr (l, i)))"

definition get_bucket_lock :: "kernel \<Rightarrow> nat \<Rightarrow> s32 \<Rightarrow> (nat \<times> nat) kres" where
  "get_bucket_lock s cur k =
     kbind (get_process_task s cur) (\<lambda>l.
     kbind (array_index (kv_hash k) KV_BUCKETS) (\<lambda>i. Inr (l, i)))"

subsection \<open>Locks and list heads\<close>

definition set_task :: "nat \<Rightarrow> task_struct \<Rightarrow> kernel \<Rightarrow> kernel" where
  "set_task t ts s = s\<lparr>tasks := (tasks s)(t \<mapsto> ts)\<rparr>"

definition spin_lock :: "nat \<times> nat \<Rightarrow> kernel \<Rightarrow> kernel kres" where
  "spin_lock l s = kbind (get_task s (fst l)) (\<lambda>ts.
     if kv_locks ts ! snd l then Inl Deadlock
     else Inr (set_task (fst l) (ts\<lparr>kv_locks := (kv_locks ts)[snd l := True]\<rparr>) s))"

definition spin_unlock :: "nat \<times> nat \<Rightarrow> kernel \<Rightarrow> kernel kres" where
  "spin_unlock l s = kbind (get_task s (fst l)) (\<lambda>ts.
     Inr (set_task (fst l) (ts\<lparr>kv_locks := (kv_locks ts)[snd l := False]\<rparr>) s))"

definition bucket_nodes :: "nat \<times> nat \<Rightarrow> kernel \<Rightarrow> addr list kres" where
  "bucket_nodes b s = kbind (get_task s (fst b)) (\<lambda>ts. Inr (kv_store ts ! snd b))"

definition hlist_add_head :: "addr \<Rightarrow> nat \<times> nat \<Rightarrow> kernel \<Rightarrow> kernel kres" where
  "hlist_add_head a b s = kbind (get_task s (fst b)) (\<lambda>ts.
     Inr (set_task (fst b)
       (ts\<lparr>kv_store := (kv_store ts)[snd b := a # (kv_store ts ! snd b)]\<rparr>) s))"

text \<open>The search loop of \<^verbatim>\<open>write_kv\<close> and \<^verbatim>\<open>read_kv\<close>: stop at the first node with the key.\<close>

fun hlist_find :: "kv_heap \<Rightarrow> s32 \<Rightarrow> addr list \<Rightarrow> addr option kres" where
  "hlist_find h k [] = Inr None"
| "hlist_find h k (a # as) =
     (case h a of
        None \<Rightarrow> Inl (UseAfterFree a)
      | Some kv \<Rightarrow> if key kv = k then Inr (Some a) else hlist_find h k as)"

subsection \<open>The operations\<close>

definition kv_set_value :: "addr \<Rightarrow> s32 \<Rightarrow> kernel \<Rightarrow> kernel kres" where
  "kv_set_value a v s = (case kv_mem s a of
      None \<Rightarrow> Inl (UseAfterFree a)
    | Some kv \<Rightarrow> Inr (s\<lparr>kv_mem := (kv_mem s)(a \<mapsto> kv\<lparr>val := v\<rparr>)\<rparr>))"

definition kfree :: "addr \<Rightarrow> kernel \<Rightarrow> kernel kres" where
  "kfree a s = (case kv_mem s a of
      None \<Rightarrow> Inl (UseAfterFree a)
    | Some _ \<Rightarrow> Inr (s\<lparr>kv_mem := (kv_mem s)(a := None)\<rparr>))"

definition write_kv :: "kmalloc_fn \<Rightarrow> nat \<Rightarrow> s32 \<Rightarrow> s32 \<Rightarrow> kernel \<Rightarrow> (int \<times> kernel) kres" where
  "write_kv kmalloc cur k v s =
     kbind (get_hash_bucket s cur k) (\<lambda>bucket.
     kbind (get_bucket_lock s cur k) (\<lambda>lock.
     case kmalloc (kv_mem s) of
       None \<Rightarrow> Inr (- ENOMEM, s)
     | Some (new_kv, junk) \<Rightarrow>
         let s = s\<lparr>kv_mem := (kv_mem s)(new_kv \<mapsto> junk)\<rparr> in
         kbind (spin_lock lock s) (\<lambda>s.
         kbind (bucket_nodes bucket s) (\<lambda>nodes.
         kbind (hlist_find (kv_mem s) k nodes) (\<lambda>found.
         case found of
           Some a \<Rightarrow>
             kbind (kv_set_value a v s) (\<lambda>s.
             kbind (spin_unlock lock s) (\<lambda>s.
             kbind (kfree new_kv s) (\<lambda>s. Inr (0, s))))
         | None \<Rightarrow>
             let s = s\<lparr>kv_mem := (kv_mem s)(new_kv \<mapsto> junk\<lparr>key := k, val := v\<rparr>)\<rparr> in
             kbind (hlist_add_head new_kv bucket s) (\<lambda>s.
             kbind (spin_unlock lock s) (\<lambda>s. Inr (0, s))))))))"

definition read_kv :: "nat \<Rightarrow> s32 \<Rightarrow> kernel \<Rightarrow> (int \<times> kernel) kres" where
  "read_kv cur k s =
     kbind (get_hash_bucket s cur k) (\<lambda>bucket.
     kbind (get_bucket_lock s cur k) (\<lambda>lock.
     kbind (spin_lock lock s) (\<lambda>s.
     kbind (bucket_nodes bucket s) (\<lambda>nodes.
     kbind (hlist_find (kv_mem s) k nodes) (\<lambda>found.
     kbind (case found of
              None \<Rightarrow> Inr (- ENOENT)
            | Some a \<Rightarrow> (case kv_mem s a of None \<Rightarrow> Inl (UseAfterFree a) | Some kv \<Rightarrow> Inr (sint (val kv))))
       (\<lambda>value. kbind (spin_unlock lock s) (\<lambda>s. Inr (value, s))))))))"

definition sys_write_kv :: "kmalloc_fn \<Rightarrow> nat \<Rightarrow> s32 \<Rightarrow> s32 \<Rightarrow> kernel \<Rightarrow> (int \<times> kernel) kres" where
  "sys_write_kv kmalloc cur k v s = write_kv kmalloc cur k v s"

definition sys_read_kv :: "nat \<Rightarrow> s32 \<Rightarrow> kernel \<Rightarrow> (int \<times> kernel) kres" where
  "sys_read_kv cur k s = read_kv cur k s"

text \<open>\<^verbatim>\<open>kv_store_init\<close>: the loop over the 1024 list heads and locks; only for a group leader.\<close>

definition kv_init_slot :: "nat \<Rightarrow> task_struct \<Rightarrow> task_struct" where
  "kv_init_slot i ts = ts\<lparr>kv_store := (kv_store ts)[i := []], kv_locks := (kv_locks ts)[i := False]\<rparr>"

definition kv_store_init :: "task_struct \<Rightarrow> task_struct" where
  "kv_store_init ts =
     (if pid ts \<noteq> tgid ts then ts else fold kv_init_slot [0..<KV_BUCKETS] ts)"

text \<open>\<^verbatim>\<open>kv_store_exit\<close>: unlink and free every node of every bucket; only for a group leader.\<close>

fun kv_free_nodes :: "addr list \<Rightarrow> nat \<times> nat \<Rightarrow> kernel \<Rightarrow> kernel kres" where
  "kv_free_nodes [] b s = Inr s"
| "kv_free_nodes (a # as) b s =
     (case kv_mem s a of
        None \<Rightarrow> Inl (UseAfterFree a)
      | Some _ \<Rightarrow>
          kbind (get_task s (fst b)) (\<lambda>ts.
          kbind (kfree a (set_task (fst b) (ts\<lparr>kv_store := (kv_store ts)[snd b := as]\<rparr>) s))
            (kv_free_nodes as b)))"

fun kv_exit_loop :: "nat list \<Rightarrow> nat \<Rightarrow> kernel \<Rightarrow> kernel kres" where
  "kv_exit_loop [] t s = Inr s"
| "kv_exit_loop (i # is) t s =
     kbind (spin_lock (t, i) s) (\<lambda>s.
     kbind (bucket_nodes (t, i) s) (\<lambda>nodes.
     kbind (kv_free_nodes nodes (t, i) s) (\<lambda>s.
     kbind (spin_unlock (t, i) s) (kv_exit_loop is t))))"

definition kv_store_exit :: "nat \<Rightarrow> kernel \<Rightarrow> kernel kres" where
  "kv_store_exit t s = kbind (get_task s t) (\<lambda>ts.
     if pid ts \<noteq> tgid ts then Inr s else kv_exit_loop [0..<KV_BUCKETS] t s)"

subsection \<open>Process life cycle\<close>

text \<open>
  What \<^verbatim>\<open>copy_process\<close> does to \<^verbatim>\<open>kv_data\<close>: \<^verbatim>\<open>dup_task_struct\<close> copies the whole
  \<^verbatim>\<open>task_struct\<close>, list heads included; then the identity is set and \<^verbatim>\<open>kv_store_init\<close> runs.
\<close>

definition copy_process_kv :: "nat \<Rightarrow> nat \<Rightarrow> int \<Rightarrow> bool \<Rightarrow> kernel \<Rightarrow> kernel kres" where
  "copy_process_kv cur p pid_nr clone_thread s = kbind (get_task s cur) (\<lambda>ts.
     let t = ts\<lparr>pid := pid_nr\<rparr>;
         t = (if clone_thread
              then t\<lparr>group_leader := group_leader ts, tgid := tgid ts\<rparr>
              else t\<lparr>group_leader := p, tgid := pid_nr\<rparr>)
     in Inr (set_task p (kv_store_init t) s))"

text \<open>\<^verbatim>\<open>do_exit\<close> calls \<^verbatim>\<open>kv_store_exit\<close> before anything else; the task stays as a zombie.\<close>

definition do_exit_kv :: "nat \<Rightarrow> kernel \<Rightarrow> kernel kres" where
  "do_exit_kv t s = kv_store_exit t s"

text \<open>
  \<^verbatim>\<open>de_thread\<close> on a thread that is not the leader, once the old leader is a zombie: the two
  exchange their process ids, the thread becomes the leader of the group, and the old leader's
  \<^verbatim>\<open>task_struct\<close> is released.
\<close>

definition de_thread_kv :: "nat \<Rightarrow> kernel \<Rightarrow> kernel kres" where
  "de_thread_kv tsk s = kbind (get_task s tsk) (\<lambda>ts.
     if group_leader ts = tsk then Inr s
     else kbind (get_task s (group_leader ts)) (\<lambda>leader.
       let l = group_leader ts;
           s = set_task tsk (ts\<lparr>pid := pid leader, group_leader := tsk\<rparr>) s;
           s = set_task l (leader\<lparr>pid := pid ts, group_leader := tsk\<rparr>) s
       in Inr (s\<lparr>tasks := (tasks s)(l := None)\<rparr>)))"

subsection \<open>Well-formed states and their abstraction\<close>

text \<open>
  A bucket is well formed when all its nodes are allocated, every key in it hashes to the
  bucket's index, and no key occurs twice.
\<close>

definition kv_bucket_ok :: "kv_heap \<Rightarrow> nat \<Rightarrow> addr list \<Rightarrow> bool" where
  "kv_bucket_ok h i as \<longleftrightarrow>
     (\<forall>a \<in> set as. \<exists>kv. h a = Some kv \<and> kv_hash (key kv) = int i) \<and>
     distinct (map (\<lambda>a. key (the (h a))) as)"

definition kv_nodes :: "task_struct \<Rightarrow> addr set" where
  "kv_nodes ts = set (concat (kv_store ts))"

definition kv_leader_ok :: "kv_heap \<Rightarrow> task_struct \<Rightarrow> bool" where
  "kv_leader_ok h ts \<longleftrightarrow>
     length (kv_store ts) = KV_BUCKETS \<and> kv_locks ts = replicate KV_BUCKETS False \<and>
     (\<forall>i < KV_BUCKETS. kv_bucket_ok h i (kv_store ts ! i))"

definition is_leader :: "kernel \<Rightarrow> nat \<Rightarrow> task_struct \<Rightarrow> bool" where
  "is_leader s l ts \<longleftrightarrow> tasks s l = Some ts \<and> group_leader ts = l"

text \<open>
  The invariant between system calls: every thread's group leader exists and is a leader, a task
  is a leader exactly when its pid is its tgid, every leader's store is well formed and unlocked,
  distinct leaders own distinct nodes, and the allocated nodes are exactly the linked ones.
\<close>

definition kv_task_ok :: "kernel \<Rightarrow> nat \<Rightarrow> task_struct \<Rightarrow> bool" where
  "kv_task_ok s t ts \<longleftrightarrow>
     length (kv_store ts) = KV_BUCKETS \<and> length (kv_locks ts) = KV_BUCKETS \<and>
     (\<exists>l. is_leader s (group_leader ts) l) \<and> (pid ts = tgid ts \<longleftrightarrow> group_leader ts = t)"

definition kv_inv :: "kernel \<Rightarrow> bool" where
  "kv_inv s \<longleftrightarrow>
     (\<forall>t ts. tasks s t = Some ts \<longrightarrow> kv_task_ok s t ts) \<and>
     (\<forall>l ts. is_leader s l ts \<longrightarrow> kv_leader_ok (kv_mem s) ts) \<and>
     (\<forall>l ts l' ts'. is_leader s l ts \<longrightarrow> is_leader s l' ts' \<longrightarrow> l \<noteq> l' \<longrightarrow>
        kv_nodes ts \<inter> kv_nodes ts' = {}) \<and>
     (\<forall>a. kv_mem s a \<noteq> None \<longleftrightarrow> (\<exists>l ts. is_leader s l ts \<and> a \<in> kv_nodes ts))"

lemma kv_invI:
  assumes "\<And>t ts. tasks s t = Some ts \<Longrightarrow> kv_task_ok s t ts"
    and "\<And>l ts. is_leader s l ts \<Longrightarrow> kv_leader_ok (kv_mem s) ts"
    and "\<And>l ts l' ts'. is_leader s l ts \<Longrightarrow> is_leader s l' ts' \<Longrightarrow> l \<noteq> l' \<Longrightarrow> kv_nodes ts \<inter> kv_nodes ts' = {}"
    and "\<And>a. kv_mem s a \<noteq> None \<longleftrightarrow> (\<exists>l ts. is_leader s l ts \<and> a \<in> kv_nodes ts)"
  shows "kv_inv s"
  unfolding kv_inv_def using assms by simp

text \<open>The abstract store of a process: a finite map from keys to values.\<close>

definition kv_node_of :: "kv_heap \<Rightarrow> s32 \<Rightarrow> addr list \<Rightarrow> addr option" where
  "kv_node_of h k as = find (\<lambda>a. key (the (h a)) = k) as"

definition kv_abs :: "kernel \<Rightarrow> nat \<Rightarrow> s32 \<Rightarrow> s32 option" where
  "kv_abs s l k = (case tasks s l of
      None \<Rightarrow> None
    | Some ts \<Rightarrow> map_option (\<lambda>a. val (the (kv_mem s a)))
                   (kv_node_of (kv_mem s) k (kv_store ts ! nat (kv_hash k))))"

text \<open>The leader a system call of task \<open>cur\<close> works on.\<close>

definition kv_leader :: "kernel \<Rightarrow> nat \<Rightarrow> nat" where
  "kv_leader s cur = (case tasks s cur of None \<Rightarrow> cur | Some ts \<Rightarrow> group_leader ts)"

definition kv_key_ok :: "s32 \<Rightarrow> bool" where
  "kv_key_ok k \<longleftrightarrow> 0 \<le> sint k \<or> 1024 dvd sint k"

lemmas kv_access_defs = get_task_def get_process_task_def get_hash_bucket_def get_bucket_lock_def
  spin_lock_def spin_unlock_def bucket_nodes_def hlist_add_head_def set_task_def

subsection \<open>Which keys have a bucket\<close>

lemma smod_1024: "(x::int) smod 1024 = (if 0 \<le> x then x mod 1024 else - ((- x) mod 1024))"
proof -
  consider "x = 0" | "0 < x" | "x < 0" by linarith
  then show ?thesis
    by cases (simp_all add: signed_modulo_int_def signed_divide_int_def minus_div_mult_eq_mod [symmetric])
qed

lemma kv_hash_range: "- 1024 < kv_hash k" "kv_hash k < 1024"
proof -
  have "0 \<le> x mod 1024 \<and> x mod 1024 < 1024" for x :: int by simp
  from this [of "sint k"] this [of "- sint k"]
  show "- 1024 < kv_hash k" "kv_hash k < 1024" by (auto simp: kv_hash_def smod_1024)
qed

lemma kv_hash_nonneg_iff: "0 \<le> kv_hash k \<longleftrightarrow> kv_key_ok k"
proof (cases "0 \<le> sint k")
  case False
  have "0 \<le> (- sint k) mod 1024" by simp
  then have "0 \<le> - ((- sint k) mod 1024) \<longleftrightarrow> (- sint k) mod 1024 = 0" by linarith
  also have "\<dots> \<longleftrightarrow> 1024 dvd sint k" by (simp add: dvd_eq_mod_eq_0 [symmetric])
  finally show ?thesis using False by (simp add: smod_1024 kv_hash_def kv_key_ok_def)
qed (simp add: smod_1024 kv_hash_def kv_key_ok_def)

lemma array_index_kv:
  "array_index (kv_hash k) KV_BUCKETS =
     (if kv_key_ok k then Inr (nat (kv_hash k)) else Inl (IndexOutOfBounds (kv_hash k)))"
  using kv_hash_range [of k] kv_hash_nonneg_iff [of k]
  by (auto simp: array_index_def KV_BUCKETS_def)

lemma kv_bucket_index: "kv_key_ok k \<Longrightarrow> nat (kv_hash k) < KV_BUCKETS"
  using kv_hash_range [of k] kv_hash_nonneg_iff [of k] by (simp add: KV_BUCKETS_def)

subsection \<open>Evaluating the operations on a well-formed state\<close>

lemma kv_bucket_ok_live: "kv_bucket_ok h i as \<Longrightarrow> a \<in> set as \<Longrightarrow> \<exists>kv. h a = Some kv"
  by (auto simp: kv_bucket_ok_def)

lemma hlist_find_live:
  "\<forall>a \<in> set as. h a \<noteq> None \<Longrightarrow> hlist_find h k as = Inr (kv_node_of h k as)"
  by (induction as) (auto simp: kv_node_of_def)

lemma kv_node_of_SomeD: "kv_node_of h k as = Some a \<Longrightarrow> a \<in> set as \<and> key (the (h a)) = k"
  by (auto simp: kv_node_of_def find_Some_iff)

lemma kv_node_of_cong:
  "\<forall>a \<in> set as. key (the (h' a)) = key (the (h a)) \<Longrightarrow> kv_node_of h' k as = kv_node_of h k as"
  by (induction as) (auto simp: kv_node_of_def)

lemma kv_bucket_ok_cong:
  assumes "kv_bucket_ok h i as" and "\<forall>a \<in> set as. map_option key (h' a) = map_option key (h a)"
  shows "kv_bucket_ok h' i as"
proof -
  have live: "\<exists>kv kv'. h a = Some kv \<and> h' a = Some kv' \<and> key kv' = key kv \<and> kv_hash (key kv) = int i"
    if "a \<in> set as" for a
    using assms that by (fastforce simp: kv_bucket_ok_def map_option_eq_Some)
  then have m: "map (\<lambda>a. key (the (h' a))) as = map (\<lambda>a. key (the (h a))) as"
    by fastforce
  have "\<forall>a \<in> set as. \<exists>kv. h' a = Some kv \<and> kv_hash (key kv) = int i"
    using live by fastforce
  moreover have "distinct (map (\<lambda>a. key (the (h' a))) as)"
    using assms(1) unfolding m kv_bucket_ok_def by blast
  ultimately show ?thesis
    unfolding kv_bucket_ok_def by blast
qed

lemma kv_inv_task_ok: "kv_inv s \<Longrightarrow> tasks s t = Some ts \<Longrightarrow> kv_task_ok s t ts"
  unfolding kv_inv_def by blast

lemma kv_inv_leader: "kv_inv s \<Longrightarrow> is_leader s l ts \<Longrightarrow> kv_leader_ok (kv_mem s) ts"
  unfolding kv_inv_def by blast

lemma kv_inv_current:
  assumes "kv_inv s" and "tasks s cur = Some c"
  obtains ts where "tasks s (group_leader c) = Some ts" "is_leader s (group_leader c) ts"
    "kv_leader_ok (kv_mem s) ts"
  using kv_inv_task_ok [OF assms] kv_inv_leader [OF assms(1)]
  by (auto simp: kv_task_ok_def is_leader_def)

lemma kv_inv_alloc:
  "kv_inv s \<Longrightarrow> kv_mem s a \<noteq> None \<longleftrightarrow> (\<exists>l ts. is_leader s l ts \<and> a \<in> kv_nodes ts)"
  unfolding kv_inv_def by blast

lemma kv_leader_okD:
  assumes "kv_leader_ok h ts" and "i < KV_BUCKETS"
  shows "kv_bucket_ok h i (kv_store ts ! i)" and "\<not> kv_locks ts ! i"
    and "i < length (kv_store ts)" and "i < length (kv_locks ts)"
    and "\<forall>a \<in> set (kv_store ts ! i). h a \<noteq> None"
  using assms by (auto simp: kv_leader_ok_def kv_bucket_ok_def)

lemma kv_nodes_nth: "i < length (kv_store ts) \<Longrightarrow> a \<in> set (kv_store ts ! i) \<Longrightarrow> a \<in> kv_nodes ts"
  by (auto simp: kv_nodes_def set_concat_conv)

lemma unlock_lock [simp]: "i < length xs \<Longrightarrow> \<not> xs ! i \<Longrightarrow> xs[i := False] = xs"
  by (metis list_update_id)

text \<open>The state \<^verbatim>\<open>write_kv\<close> leaves when the key is present, and when it is absent.\<close>

definition kv_overwrite :: "addr \<Rightarrow> s32 \<Rightarrow> kernel \<Rightarrow> kernel" where
  "kv_overwrite a v s = s\<lparr>kv_mem := (kv_mem s)(a \<mapsto> (the (kv_mem s a))\<lparr>val := v\<rparr>)\<rparr>"

definition kv_insert :: "nat \<Rightarrow> task_struct \<Rightarrow> nat \<Rightarrow> addr \<Rightarrow> kv_pair \<Rightarrow> kernel \<Rightarrow> kernel" where
  "kv_insert l ts i a kv s =
     set_task l (ts\<lparr>kv_store := (kv_store ts)[i := a # (kv_store ts ! i)]\<rparr>)
       (s\<lparr>kv_mem := (kv_mem s)(a \<mapsto> kv)\<rparr>)"

lemma write_kv_eval:
  assumes cur: "tasks s cur = Some c" "group_leader c = l"
    and lead: "tasks s l = Some ts" "kv_leader_ok (kv_mem s) ts"
    and k: "kv_key_ok k"
    and alloc: "kmalloc (kv_mem s) = Some (a, junk)" "kv_mem s a = None"
  shows "write_kv kmalloc cur k v s =
    (case kv_node_of (kv_mem s) k (kv_store ts ! nat (kv_hash k)) of
       Some b \<Rightarrow> Inr (0, kv_overwrite b v s)
     | None \<Rightarrow> Inr (0, kv_insert l ts (nat (kv_hash k)) a (junk\<lparr>key := k, val := v\<rparr>) s))"
proof -
  let ?i = "nat (kv_hash k)" and ?h = "(kv_mem s)(a \<mapsto> junk)"
  note i = kv_bucket_index [OF k]
  note ok = kv_leader_okD [OF lead(2) i]
  have na: "a \<notin> set (kv_store ts ! ?i)" using ok(5) alloc(2) by auto
  have live: "\<forall>b \<in> set (kv_store ts ! ?i). ?h b \<noteq> None" using ok(5) by auto
  have find: "hlist_find ?h k (kv_store ts ! ?i) = Inr (kv_node_of (kv_mem s) k (kv_store ts ! ?i))"
  proof -
    have "\<forall>b \<in> set (kv_store ts ! ?i). key (the (?h b)) = key (the (kv_mem s b))"
      using na by auto
    from kv_node_of_cong [OF this, of k] show ?thesis
      by (simp only: hlist_find_live [OF live])
  qed
  have upd: "(tasks s)(l \<mapsto> ts) = tasks s" using lead(1) by (simp add: fun_upd_idem)
  have unl: "(kv_locks ts)[?i := False] = kv_locks ts" using ok(2,4) by simp
  show ?thesis
  proof (cases "kv_node_of (kv_mem s) k (kv_store ts ! ?i)")
    case None
    then show ?thesis
      using cur lead(1) k alloc(1) find ok(2,3,4)
      by (simp add: write_kv_def kv_access_defs array_index_kv kv_insert_def unl Let_def)
  next
    case (Some b)
    then have b: "b \<in> set (kv_store ts ! ?i)" by (simp add: kv_node_of_SomeD)
    with na have ba: "b \<noteq> a" by auto
    from b ok(5) obtain kv where kv: "kv_mem s b = Some kv" by auto
    have del: "(kv_mem s)(a := None) = kv_mem s" using alloc(2) by (simp add: fun_upd_idem)
    have mem: "((kv_mem s)(a \<mapsto> junk, b \<mapsto> x))(a := None) = (kv_mem s)(b \<mapsto> x)" for x
      using ba del by (simp add: fun_upd_twist)
    show ?thesis
      using cur lead(1) k alloc(1) find ok(2,3,4) Some kv ba
      by (simp add: write_kv_def kv_access_defs array_index_kv kv_overwrite_def kv_set_value_def
          kfree_def unl upd mem Let_def)
  qed
qed

lemma read_kv_eval:
  assumes cur: "tasks s cur = Some c" "group_leader c = l"
    and lead: "tasks s l = Some ts" "kv_leader_ok (kv_mem s) ts"
    and k: "kv_key_ok k"
  shows "read_kv cur k s =
    Inr (case kv_abs s l k of None \<Rightarrow> - ENOENT | Some v \<Rightarrow> sint v, s)"
proof -
  let ?i = "nat (kv_hash k)"
  note i = kv_bucket_index [OF k]
  note ok = kv_leader_okD [OF lead(2) i]
  have find: "hlist_find (kv_mem s) k (kv_store ts ! ?i) = Inr (kv_node_of (kv_mem s) k (kv_store ts ! ?i))"
    using hlist_find_live [OF ok(5), of k] .
  have upd: "(tasks s)(l \<mapsto> ts) = tasks s" using lead(1) by (simp add: fun_upd_idem)
  have unl: "(kv_locks ts)[?i := False] = kv_locks ts" using ok(2,4) by simp
  show ?thesis
  proof (cases "kv_node_of (kv_mem s) k (kv_store ts ! ?i)")
    case None
    then show ?thesis
      using cur lead(1) k find ok(2,3,4)
      by (simp add: read_kv_def kv_access_defs array_index_kv kv_abs_def unl upd)
  next
    case (Some b)
    then have "b \<in> set (kv_store ts ! ?i)" by (simp add: kv_node_of_SomeD)
    with ok(5) obtain kv where "kv_mem s b = Some kv" by auto
    with Some show ?thesis
      using cur lead(1) k find ok(2,3,4)
      by (simp add: read_kv_def kv_access_defs array_index_kv kv_abs_def unl upd)
  qed
qed

subsection \<open>The invariant and the abstract map under a write\<close>

lemma is_leader_mem [simp]: "is_leader (s\<lparr>kv_mem := m\<rparr>) = is_leader s"
  by (simp add: is_leader_def fun_eq_iff)

lemma is_leader_unique: "is_leader s l ts \<Longrightarrow> is_leader s l ts' \<Longrightarrow> ts = ts'"
  by (simp add: is_leader_def)

lemma kv_leader_ok_cong:
  assumes "kv_leader_ok h ts" and "\<And>a. a \<in> kv_nodes ts \<Longrightarrow> map_option key (h' a) = map_option key (h a)"
  shows "kv_leader_ok h' ts"
  using assms kv_nodes_nth kv_bucket_ok_cong unfolding kv_leader_ok_def by (metis (no_types, lifting))

lemma kv_inv_disjoint:
  "kv_inv s \<Longrightarrow> is_leader s l ts \<Longrightarrow> is_leader s l' ts' \<Longrightarrow> l \<noteq> l' \<Longrightarrow> kv_nodes ts \<inter> kv_nodes ts' = {}"
  unfolding kv_inv_def by blast

lemma kv_inv_overwrite:
  assumes "kv_inv s" and "kv_mem s b \<noteq> None"
  shows "kv_inv (kv_overwrite b v s)"
proof -
  have keys: "map_option key (kv_mem (kv_overwrite b v s) a) = map_option key (kv_mem s a)" for a
    using assms(2) by (auto simp: kv_overwrite_def)
  have "kv_leader_ok (kv_mem (kv_overwrite b v s)) ts" if "is_leader s l ts" for l ts
    using kv_leader_ok_cong kv_inv_leader [OF assms(1) that] keys by blast
  moreover have "kv_task_ok (kv_overwrite b v s) = kv_task_ok s"
    by (simp add: kv_task_ok_def kv_overwrite_def fun_eq_iff)
  moreover have "kv_mem (kv_overwrite b v s) a \<noteq> None \<longleftrightarrow> kv_mem s a \<noteq> None" for a
    using assms(2) by (auto simp: kv_overwrite_def)
  ultimately show ?thesis
    using assms(1) unfolding kv_inv_def kv_overwrite_def by simp
qed

lemma kv_nodes_insert:
  "i < length (kv_store ts) \<Longrightarrow>
   kv_nodes (ts\<lparr>kv_store := (kv_store ts)[i := a # (kv_store ts ! i)]\<rparr>) = insert a (kv_nodes ts)"
  using concat_update_mset_insert [of i "kv_store ts" a] by (simp add: kv_nodes_def del: set_concat)

lemma is_leader_insert:
  assumes "is_leader s l ts"
  shows "is_leader (kv_insert l ts i a kv s) l' ts' \<longleftrightarrow>
    (if l' = l then ts' = ts\<lparr>kv_store := (kv_store ts)[i := a # (kv_store ts ! i)]\<rparr>
     else is_leader s l' ts')"
  using assms by (auto simp: is_leader_def kv_insert_def set_task_def)

lemma kv_bucket_ok_Cons:
  assumes "kv_bucket_ok h i as" and "h a = None" and "kv_hash (key kv) = int i"
    and "kv_node_of h (key kv) as = None"
  shows "kv_bucket_ok (h(a \<mapsto> kv)) i (a # as)"
proof -
  have live: "\<forall>b \<in> set as. h b \<noteq> None" using assms(1) by (auto simp: kv_bucket_ok_def)
  then have na: "a \<notin> set as" using assms(2) by auto
  then have "kv_bucket_ok (h(a \<mapsto> kv)) i as"
    using kv_bucket_ok_cong [OF assms(1), of "h(a \<mapsto> kv)"] by auto
  moreover have "\<forall>b \<in> set as. key (the (h b)) \<noteq> key kv"
    using assms(4) by (auto simp: kv_node_of_def find_None_iff)
  ultimately show ?thesis
    using na assms(3) unfolding kv_bucket_ok_def by (auto simp: image_iff)
qed

lemma kv_leader_ok_insert:
  assumes ok: "kv_leader_ok h ts" and a: "h a = None" and k: "kv_key_ok (key kv)"
    and none: "kv_node_of h (key kv) (kv_store ts ! nat (kv_hash (key kv))) = None"
  shows "kv_leader_ok (h(a \<mapsto> kv))
    (ts\<lparr>kv_store := (kv_store ts)[nat (kv_hash (key kv)) := a # (kv_store ts ! nat (kv_hash (key kv)))]\<rparr>)"
proof -
  let ?i = "nat (kv_hash (key kv))"
  note i = kv_bucket_index [OF k]
  have hash: "kv_hash (key kv) = int ?i" using k kv_hash_nonneg_iff by simp
  have "kv_bucket_ok (h(a \<mapsto> kv)) j ((kv_store ts)[?i := a # (kv_store ts ! ?i)] ! j)"
    if j: "j < KV_BUCKETS" for j
  proof (cases "j = ?i")
    case True
    then show ?thesis
      using kv_bucket_ok_Cons [OF kv_leader_okD(1) [OF ok i] a hash none] kv_leader_okD(3) [OF ok i]
      by simp
  next
    case False
    have "\<forall>b \<in> set (kv_store ts ! j). map_option key ((h(a \<mapsto> kv)) b) = map_option key (h b)"
      using kv_leader_okD(5) [OF ok j] a by auto
    then show ?thesis
      using kv_bucket_ok_cong [OF kv_leader_okD(1) [OF ok j]] False by simp
  qed
  then show ?thesis using ok by (simp add: kv_leader_ok_def)
qed

text \<open>The leaders of the new state own the old nodes and the new one.\<close>

lemma kv_owned_insert:
  assumes l: "is_leader s l ts"
    and nodes: "kv_nodes (ts\<lparr>kv_store := (kv_store ts)[i := a # (kv_store ts ! i)]\<rparr>) = insert a (kv_nodes ts)"
  shows "(\<exists>l' ts'. is_leader (kv_insert l ts i a kv s) l' ts' \<and> b \<in> kv_nodes ts') \<longleftrightarrow>
    b = a \<or> (\<exists>l' ts'. is_leader s l' ts' \<and> b \<in> kv_nodes ts')"
proof -
  note lead = is_leader_insert [OF l, of i a kv]
  have "b = a \<or> (\<exists>ts'. is_leader s l' ts' \<and> b \<in> kv_nodes ts')"
    if "is_leader (kv_insert l ts i a kv s) l' x" "b \<in> kv_nodes x" for l' x
    using that nodes l by (auto simp: lead split: if_splits)
  moreover have "\<exists>ts'. is_leader (kv_insert l ts i a kv s) l' ts' \<and> b \<in> kv_nodes ts'"
    if x: "is_leader s l' x" "b \<in> kv_nodes x" for l' x
  proof (cases "l' = l")
    case True
    with x(1) have "x = ts" using is_leader_unique l by blast
    with True x(2) show ?thesis using nodes by (auto simp: lead)
  qed (use x in \<open>auto simp: lead\<close>)
  moreover have "\<exists>l' ts'. is_leader (kv_insert l ts i a kv s) l' ts' \<and> a \<in> kv_nodes ts'"
    using nodes by (auto simp: lead)
  ultimately show ?thesis by blast
qed

lemma kv_inv_insert:
  assumes inv: "kv_inv s" and l: "is_leader s l ts" and a: "kv_mem s a = None"
    and k: "kv_key_ok (key kv)"
    and none: "kv_node_of (kv_mem s) (key kv) (kv_store ts ! nat (kv_hash (key kv))) = None"
  shows "kv_inv (kv_insert l ts (nat (kv_hash (key kv))) a kv s)" (is "kv_inv ?s'")
proof (rule kv_invI)
  let ?i = "nat (kv_hash (key kv))"
  let ?ts = "ts\<lparr>kv_store := (kv_store ts)[?i := a # (kv_store ts ! ?i)]\<rparr>"
  note ok = kv_inv_leader [OF inv l] and lead = is_leader_insert [OF l, of ?i a kv]
  have nodes: "kv_nodes ?ts = insert a (kv_nodes ts)"
    by (rule kv_nodes_insert [OF kv_leader_okD(3) [OF ok kv_bucket_index [OF k]]])
  have fresh: "a \<notin> kv_nodes ts'" if "is_leader s l' ts'" for l' ts'
    using kv_inv_alloc [OF inv, of a] a that by blast
  have mem: "kv_mem ?s' = (kv_mem s)(a \<mapsto> kv)" by (simp add: kv_insert_def set_task_def)
  have tk: "tasks ?s' = (tasks s)(l \<mapsto> ?ts)" by (simp add: kv_insert_def set_task_def)
  show "kv_leader_ok (kv_mem ?s') ts'" if t: "is_leader ?s' l' ts'" for l' ts'
  proof (cases "l' = l")
    case True
    with t show ?thesis using kv_leader_ok_insert [OF ok a k none] by (simp add: lead mem)
  next
    case False
    with t have l': "is_leader s l' ts'" by (simp add: lead)
    show ?thesis
      by (rule kv_leader_ok_cong [OF kv_inv_leader [OF inv l']]) (use fresh [OF l'] in \<open>auto simp: mem\<close>)
  qed
  show "kv_nodes x \<inter> kv_nodes y = {}" if "is_leader ?s' p x" "is_leader ?s' q y" "p \<noteq> q" for p q x y
    using that kv_inv_disjoint [OF inv] fresh l nodes by (auto simp: lead split: if_splits)
  show "kv_mem ?s' b \<noteq> None \<longleftrightarrow> (\<exists>l' ts'. is_leader ?s' l' ts' \<and> b \<in> kv_nodes ts')" for b
    unfolding kv_owned_insert [OF l nodes] mem using kv_inv_alloc [OF inv, of b] by auto
  show "kv_task_ok ?s' t u" if "tasks ?s' t = Some u" for t u
  proof (cases "t = l")
    case True
    have "tasks s l = Some ts" using l by (simp add: is_leader_def)
    with True that kv_inv_task_ok [OF inv this] show ?thesis
      using l lead by (auto simp: kv_task_ok_def is_leader_def tk)
  next
    case False
    with that have "kv_task_ok s t u" using kv_inv_task_ok [OF inv] by (simp add: tk)
    then show ?thesis using lead unfolding kv_task_ok_def by metis
  qed
qed

lemma kv_bucket_lt: "nat (kv_hash k) < KV_BUCKETS"
  using kv_hash_range [of k] by (simp add: KV_BUCKETS_def)

lemma kv_node_of_owned:
  assumes "kv_leader_ok h ts" and "kv_node_of h k (kv_store ts ! nat (kv_hash k)) = Some b"
  shows "b \<in> kv_nodes ts" and "key (the (h b)) = k" and "h b \<noteq> None"
  using kv_node_of_SomeD [OF assms(2)] kv_leader_okD [OF assms(1) kv_bucket_lt, of k] kv_nodes_nth
  by blast+

lemma kv_abs_leader:
  "is_leader s l ts \<Longrightarrow> kv_abs s l k =
     map_option (\<lambda>a. val (the (kv_mem s a))) (kv_node_of (kv_mem s) k (kv_store ts ! nat (kv_hash k)))"
  by (simp add: kv_abs_def is_leader_def)

lemma kv_abs_overwrite:
  assumes inv: "kv_inv s" and l: "is_leader s l ts" and l': "is_leader s l' ts'"
    and b: "kv_node_of (kv_mem s) k (kv_store ts ! nat (kv_hash k)) = Some b"
  shows "kv_abs (kv_overwrite b v s) l' = (if l' = l then (kv_abs s l)(k \<mapsto> v) else kv_abs s l')"
proof (rule ext)
  fix k'
  let ?h = "kv_mem s" and ?h' = "kv_mem (kv_overwrite b v s)"
  note own = kv_node_of_owned [OF kv_inv_leader [OF inv l] b]
  have node: "kv_node_of ?h' k' (kv_store ts' ! nat (kv_hash k')) = kv_node_of ?h k' (kv_store ts' ! nat (kv_hash k'))"
    by (rule kv_node_of_cong) (simp add: kv_overwrite_def)
  have L: "is_leader (kv_overwrite b v s) l' ts'" using l' by (simp add: kv_overwrite_def)
  have new: "kv_abs (kv_overwrite b v s) l' k' =
      map_option (\<lambda>a. if a = b then v else val (the (?h a))) (kv_node_of ?h k' (kv_store ts' ! nat (kv_hash k')))"
    unfolding kv_abs_leader [OF L] node
    by (rule arg_cong [where f = "\<lambda>f. map_option f _"]) (simp add: kv_overwrite_def fun_eq_iff)
  show "kv_abs (kv_overwrite b v s) l' k' = (if l' = l then (kv_abs s l)(k \<mapsto> v) else kv_abs s l') k'"
  proof (cases "kv_node_of ?h k' (kv_store ts' ! nat (kv_hash k'))")
    case None
    have "\<not> (l' = l \<and> k' = k)"
    proof
      assume eq: "l' = l \<and> k' = k"
      then have "ts' = ts" using l l' is_leader_unique by blast
      with eq None b show False by simp
    qed
    with None show ?thesis using kv_abs_leader [OF l', of k']
      by (auto simp: new)
  next
    case (Some a)
    note own' = kv_node_of_owned [OF kv_inv_leader [OF inv l'] Some]
    have "a = b" if eq: "l' = l" "k' = k"
    proof -
      have "ts' = ts" using eq l l' is_leader_unique by blast
      with eq Some b show ?thesis by simp
    qed
    moreover have "l' = l \<and> k' = k" if eq: "a = b"
    proof -
      have "l' = l" using kv_inv_disjoint [OF inv l l'] own(1) own'(1) eq by blast
      with own(2) own'(2) eq show ?thesis by simp
    qed
    ultimately have "a = b \<longleftrightarrow> l' = l \<and> k' = k" by blast
    with Some show ?thesis using kv_abs_leader [OF l', of k']
      by (auto simp: new)
  qed
qed

lemma kv_abs_insert:
  assumes inv: "kv_inv s" and l: "is_leader s l ts" and l': "is_leader s l' ts'"
    and a: "kv_mem s a = None" and k: "kv_key_ok (key kv)"
  shows "kv_abs (kv_insert l ts (nat (kv_hash (key kv))) a kv s) l' =
    (if l' = l then (kv_abs s l)(key kv \<mapsto> val kv) else kv_abs s l')"
proof (rule ext)
  fix k'
  let ?i = "nat (kv_hash (key kv))" and ?j = "nat (kv_hash k')" and ?h = "kv_mem s"
  let ?s' = "kv_insert l ts ?i a kv s"
  have mem: "kv_mem ?s' = ?h(a \<mapsto> kv)" by (simp add: kv_insert_def set_task_def)
  have na: "a \<notin> set (kv_store ts' ! ?j)"
    using kv_leader_okD(5) [OF kv_inv_leader [OF inv l'] kv_bucket_lt [of k']] a by auto
  then have node: "kv_node_of (?h(a \<mapsto> kv)) k' (kv_store ts' ! ?j) = kv_node_of ?h k' (kv_store ts' ! ?j)"
    by (intro kv_node_of_cong) auto
  have val: "map_option (\<lambda>b. val (the ((?h(a \<mapsto> kv)) b))) (kv_node_of ?h k' (kv_store ts' ! ?j)) =
      map_option (\<lambda>b. val (the (?h b))) (kv_node_of ?h k' (kv_store ts' ! ?j))"
    using na by (cases "kv_node_of ?h k' (kv_store ts' ! ?j)") (auto dest: kv_node_of_SomeD)
  show "kv_abs ?s' l' k' = (if l' = l then (kv_abs s l)(key kv \<mapsto> val kv) else kv_abs s l') k'"
  proof (cases "l' = l")
    case False
    then have "is_leader ?s' l' ts'" using l' by (simp add: is_leader_insert [OF l])
    from False show ?thesis
      using val unfolding kv_abs_leader [OF l'] kv_abs_leader [OF \<open>is_leader ?s' l' ts'\<close>] mem node
      by (simp add: kv_abs_leader [OF l'])
  next
    case True
    then have ts: "ts' = ts" using l l' is_leader_unique by blast
    let ?ts = "ts\<lparr>kv_store := (kv_store ts)[?i := a # (kv_store ts ! ?i)]\<rparr>"
    have L: "is_leader ?s' l ?ts" by (simp add: is_leader_insert [OF l])
    have i: "?i < length (kv_store ts)"
      by (rule kv_leader_okD(3) [OF kv_inv_leader [OF inv l] kv_bucket_lt])
    have "kv_abs ?s' l k' = (if k' = key kv then Some (val kv) else kv_abs s l k')"
    proof (cases "?j = ?i")
      case j: True
      then show ?thesis
        using node val i unfolding kv_abs_leader [OF L] kv_abs_leader [OF l] mem ts
        by (auto simp: kv_node_of_def)
    next
      case j: False
      then show ?thesis
        using node val unfolding kv_abs_leader [OF L] kv_abs_leader [OF l] mem ts by auto
    qed
    then show ?thesis using True by simp
  qed
qed

subsection \<open>What the system calls promise\<close>

text \<open>\<^verbatim>\<open>kmalloc\<close> returns NULL or a block that is not allocated yet.\<close>

definition kmalloc_fresh :: "kmalloc_fn \<Rightarrow> bool" where
  "kmalloc_fresh kmalloc \<longleftrightarrow> (\<forall>h a junk. kmalloc h = Some (a, junk) \<longrightarrow> h a = None)"

lemma write_kv_spec:
  assumes inv: "kv_inv s" and cur: "tasks s cur = Some c" and k: "kv_key_ok k" and fresh: "kmalloc_fresh kmalloc"
  shows "(kmalloc (kv_mem s) = None \<and> write_kv kmalloc cur k v s = Inr (- ENOMEM, s)) \<or>
    (\<exists>s'. write_kv kmalloc cur k v s = Inr (0, s') \<and> kv_inv s' \<and>
       (\<forall>l ts. is_leader s l ts \<longrightarrow>
          kv_abs s' l = (if l = group_leader c then (kv_abs s l)(k \<mapsto> v) else kv_abs s l)) \<and>
       (\<forall>t. map_option group_leader (tasks s' t) = map_option group_leader (tasks s t)))"
proof -
  from kv_inv_current [OF inv cur] obtain ts where ts: "tasks s (group_leader c) = Some ts"
    and l: "is_leader s (group_leader c) ts" and ok: "kv_leader_ok (kv_mem s) ts" .
  show ?thesis
  proof (cases "kmalloc (kv_mem s)")
    case None
    then show ?thesis using cur k
      by (simp add: write_kv_def kv_access_defs array_index_kv)
  next
    case (Some p)
    obtain a junk where p: "p = (a, junk)" by (cases p)
    with Some fresh have a: "kv_mem s a = None" by (auto simp: kmalloc_fresh_def)
    note ev = write_kv_eval [where kmalloc = kmalloc and v = v, OF cur refl ts ok k Some [unfolded p] a]
    show ?thesis
    proof (cases "kv_node_of (kv_mem s) k (kv_store ts ! nat (kv_hash k))")
      case None
      let ?kv = "junk\<lparr>key := k, val := v\<rparr>"
      have "kv_inv (kv_insert (group_leader c) ts (nat (kv_hash k)) a ?kv s)"
        using kv_inv_insert [OF inv l a, of ?kv] k None by simp
      with ev None kv_abs_insert [OF inv l _ a, of _ _ ?kv] k l ts show ?thesis
        by (auto simp: kv_insert_def set_task_def)
    next
      case (Some b)
      from kv_node_of_owned(3) [OF ok Some] have "kv_inv (kv_overwrite b v s)"
        by (rule kv_inv_overwrite [OF inv])
      with ev Some kv_abs_overwrite [OF inv l _ Some] show ?thesis
        by (auto simp: kv_overwrite_def)
    qed
  qed
qed

lemma read_kv_spec:
  assumes inv: "kv_inv s" and cur: "tasks s cur = Some c" and k: "kv_key_ok k"
  shows "read_kv cur k s =
    Inr (case kv_abs s (group_leader c) k of None \<Rightarrow> - ENOENT | Some v \<Rightarrow> sint v, s)"
proof -
  from kv_inv_current [OF inv cur] obtain ts where "tasks s (group_leader c) = Some ts"
    "kv_leader_ok (kv_mem s) ts" .
  with cur k show ?thesis by (auto intro: read_kv_eval)
qed

lemma kv_bad_key_faults:
  assumes "\<not> kv_key_ok k" and "tasks s cur = Some c"
  shows "write_kv kmalloc cur k v s = Inl (IndexOutOfBounds (kv_hash k))"
    and "read_kv cur k s = Inl (IndexOutOfBounds (kv_hash k))"
  using assms by (simp_all add: write_kv_def read_kv_def kv_access_defs array_index_kv)

end
