(* ===== verification/KV_Process.thy ===== *)
theory KV_Process
  imports KV_Store
begin

text \<open>
  The key-value store over the life of processes: what fork, clone, exit and exec of a thread do
  to it, and the contract the two system calls offer to a program, as a locale that the kernel
  model implements.
\<close>

subsection \<open>Initialisation and fork\<close>

lemma fold_kv_init_slot:
  "fold kv_init_slot is ts = ts\<lparr>kv_store := fold (\<lambda>i xs. xs[i := []]) is (kv_store ts),
                               kv_locks := fold (\<lambda>i xs. xs[i := False]) is (kv_locks ts)\<rparr>"
  by (induction "is" arbitrary: ts) (simp_all add: kv_init_slot_def)

lemma kv_store_init_leader:
  assumes "pid ts = tgid ts" "length (kv_store ts) = KV_BUCKETS" "length (kv_locks ts) = KV_BUCKETS"
  shows "kv_store_init ts =
    ts\<lparr>kv_store := replicate KV_BUCKETS [], kv_locks := replicate KV_BUCKETS False\<rparr>"
  using assms by (simp add: kv_store_init_def fold_kv_init_slot fold_list_update_upt)

lemma kv_store_init_thread: "pid ts \<noteq> tgid ts \<Longrightarrow> kv_store_init ts = ts"
  by (simp add: kv_store_init_def)

lemma kv_nodes_empty: "kv_store ts = replicate n [] \<Longrightarrow> kv_nodes ts = {}"
  by (simp add: kv_nodes_def)

lemma kv_leader_ok_empty:
  "kv_store ts = replicate KV_BUCKETS [] \<Longrightarrow> kv_locks ts = replicate KV_BUCKETS False \<Longrightarrow> kv_leader_ok h ts"
  by (simp add: kv_leader_ok_def kv_bucket_ok_def)

lemma kv_abs_empty:
  "tasks s l = Some ts \<Longrightarrow> kv_store ts = replicate KV_BUCKETS [] \<Longrightarrow> kv_abs s l = Map.empty"
  using kv_bucket_lt by (auto simp: kv_abs_def kv_node_of_def fun_eq_iff)

lemma kv_fresh_not_leader:
  "kv_inv s \<Longrightarrow> tasks s p = None \<Longrightarrow> tasks s t = Some ts \<Longrightarrow> group_leader ts \<noteq> p"
  using kv_inv_task_ok [of s t ts] by (auto simp: kv_task_ok_def is_leader_def)

text \<open>Adding a task whose store is empty or, for a thread, not a leader's keeps the invariant.\<close>

lemma kv_inv_add_task:
  assumes inv: "kv_inv s" and p: "tasks s p = None"
    and new: "kv_task_ok (set_task p ts s) p ts"
    and lead: "group_leader ts = p \<Longrightarrow>
      kv_store ts = replicate KV_BUCKETS [] \<and> kv_locks ts = replicate KV_BUCKETS False"
  shows "kv_inv (set_task p ts s)"
proof (rule kv_invI)
  let ?s' = "set_task p ts s"
  have tk: "tasks ?s' = (tasks s)(p \<mapsto> ts)" and mem: "kv_mem ?s' = kv_mem s"
    by (simp_all add: set_task_def)
  have old: "is_leader ?s' l x \<longleftrightarrow> is_leader s l x" if "l \<noteq> p" for l x
    using that by (simp add: is_leader_def tk)
  have notp: "\<not> is_leader s p x" for x using p by (simp add: is_leader_def)
  have nodes_p: "kv_nodes x = {}" if "is_leader ?s' p x" for x
    using that lead kv_nodes_empty by (auto simp: is_leader_def tk)
  show "kv_leader_ok (kv_mem ?s') x" if "is_leader ?s' l x" for l x
    using that old kv_inv_leader [OF inv] lead kv_leader_ok_empty
    by (cases "l = p") (auto simp: is_leader_def tk mem)
  show "kv_nodes x \<inter> kv_nodes y = {}" if "is_leader ?s' l x" "is_leader ?s' m y" "l \<noteq> m" for l m x y
    using that nodes_p old kv_inv_disjoint [OF inv] by (cases "l = p"; cases "m = p") auto
  show "kv_mem ?s' a \<noteq> None \<longleftrightarrow> (\<exists>l x. is_leader ?s' l x \<and> a \<in> kv_nodes x)" for a
    unfolding mem kv_inv_alloc [OF inv] using old notp nodes_p by (metis empty_iff)
  show "kv_task_ok ?s' t x" if "tasks ?s' t = Some x" for t x
  proof (cases "t = p")
    case True
    with that new show ?thesis by (simp add: tk)
  next
    case False
    with that have t: "tasks s t = Some x" by (simp add: tk)
    from kv_inv_task_ok [OF inv t] kv_fresh_not_leader [OF inv p t] old show ?thesis
      by (simp add: kv_task_ok_def)
  qed
qed

lemma kv_abs_other_task: "l \<noteq> p \<Longrightarrow> kv_abs (set_task p ts s) l = kv_abs s l"
  by (rule ext) (simp add: kv_abs_def set_task_def split: option.split)

lemma copy_process_spec:
  assumes inv: "kv_inv s" and cur: "tasks s cur = Some c" and p: "tasks s p = None"
    and nr: "thread \<Longrightarrow> n \<noteq> tgid c"
  shows "\<exists>s'. copy_process_kv cur p n thread s = Inr s' \<and> kv_inv s' \<and>
    (\<forall>l. l \<noteq> p \<longrightarrow> kv_abs s' l = kv_abs s l) \<and>
    kv_leader s' p = (if thread then group_leader c else p) \<and>
    (\<not> thread \<longrightarrow> kv_abs s' p = Map.empty)"
proof -
  note c = kv_inv_task_ok [OF inv cur, unfolded kv_task_ok_def]
  show ?thesis
  proof (cases thread)
    case True
    let ?t = "c\<lparr>pid := n, group_leader := group_leader c, tgid := tgid c\<rparr>"
    have ini: "kv_store_init ?t = ?t" using nr True by (intro kv_store_init_thread) auto
    have "kv_task_ok (set_task p ?t s) p ?t"
      using c nr True kv_fresh_not_leader [OF inv p cur] by (auto simp: kv_task_ok_def is_leader_def set_task_def)
    then have "kv_inv (set_task p ?t s)"
      using kv_fresh_not_leader [OF inv p cur] by (intro kv_inv_add_task [OF inv p]) auto
    moreover have "kv_leader (set_task p ?t s) p = group_leader c"
      by (simp add: kv_leader_def set_task_def)
    ultimately show ?thesis using True cur ini kv_abs_other_task [of _ p ?t s]
      by (auto simp: copy_process_kv_def get_task_def)
  next
    case False
    let ?t = "c\<lparr>pid := n, group_leader := p, tgid := n\<rparr>"
    let ?t' = "?t\<lparr>kv_store := replicate KV_BUCKETS [], kv_locks := replicate KV_BUCKETS False\<rparr>"
    have ini: "kv_store_init ?t = ?t'" using c by (subst kv_store_init_leader) auto
    have "kv_inv (set_task p ?t' s)"
      by (rule kv_inv_add_task [OF inv p]) (auto simp: kv_task_ok_def is_leader_def set_task_def)
    moreover have "kv_abs (set_task p ?t' s) p = Map.empty"
      by (rule kv_abs_empty) (auto simp: set_task_def)
    moreover have "kv_leader (set_task p ?t' s) p = p"
      by (simp add: kv_leader_def set_task_def)
    ultimately show ?thesis using False cur ini kv_abs_other_task [of _ p ?t' s]
      by (auto simp: copy_process_kv_def get_task_def)
  qed
qed

subsection \<open>Exit\<close>

lemma kv_free_nodes_eval:
  assumes "tasks s t = Some ts" "kv_store ts ! i = nodes" "i < length (kv_store ts)"
    and "distinct nodes" "\<forall>a \<in> set nodes. kv_mem s a \<noteq> None"
  shows "kv_free_nodes nodes (t, i) s =
    Inr (s\<lparr>tasks := (tasks s)(t \<mapsto> ts\<lparr>kv_store := (kv_store ts)[i := []]\<rparr>),
           kv_mem := kv_mem s |` (- set nodes)\<rparr>)"
  using assms
proof (induction nodes arbitrary: s ts)
  case Nil
  then have "(tasks s)(t \<mapsto> ts\<lparr>kv_store := (kv_store ts)[i := []]\<rparr>) = tasks s"
    by (metis fun_upd_idem list_update_id task_struct.surjective task_struct.update_convs(4))
  then show ?case by simp
next
  case (Cons a as)
  let ?ts = "ts\<lparr>kv_store := (kv_store ts)[i := as]\<rparr>"
  let ?s = "s\<lparr>tasks := (tasks s)(t \<mapsto> ?ts), kv_mem := (kv_mem s)(a := None)\<rparr>"
  obtain kv where kv: "kv_mem s a = Some kv" using Cons.prems(5) by auto
  have "kv_free_nodes as (t, i) ?s =
      Inr (?s\<lparr>tasks := (tasks ?s)(t \<mapsto> ?ts\<lparr>kv_store := (kv_store ?ts)[i := []]\<rparr>),
              kv_mem := kv_mem ?s |` (- set as)\<rparr>)"
    by (rule Cons.IH) (use Cons.prems in \<open>auto simp: restrict_map_def\<close>)
  moreover have "(kv_mem s)(a := None) |` (- set as) = kv_mem s |` (- set (a # as))"
    by (auto simp: restrict_map_def fun_eq_iff)
  ultimately show ?case
    using Cons.prems(1) kv by (simp add: get_task_def kfree_def set_task_def) (simp add: fun_upd_def)
qed

text \<open>One round of the loop of \<^verbatim>\<open>kv_store_exit\<close>, and the whole loop.\<close>

definition kv_drop_bucket :: "nat \<Rightarrow> task_struct \<Rightarrow> nat \<Rightarrow> kernel \<Rightarrow> kernel" where
  "kv_drop_bucket t ts i s = s\<lparr>tasks := (tasks s)(t \<mapsto> ts\<lparr>kv_store := (kv_store ts)[i := []]\<rparr>),
                               kv_mem := kv_mem s |` (- set (kv_store ts ! i))\<rparr>"

lemma kv_exit_round:
  assumes t: "tasks s t = Some ts" and lk: "kv_locks ts = replicate KV_BUCKETS False"
    and len: "length (kv_store ts) = KV_BUCKETS" and i: "i < KV_BUCKETS"
    and ok: "distinct (kv_store ts ! i)" "\<forall>a \<in> set (kv_store ts ! i). kv_mem s a \<noteq> None"
  shows "kv_exit_loop (i # is) t s = kv_exit_loop is t (kv_drop_bucket t ts i s)"
proof -
  let ?nodes = "kv_store ts ! i" and ?lts = "ts\<lparr>kv_locks := (kv_locks ts)[i := True]\<rparr>"
  let ?locked = "s\<lparr>tasks := (tasks s)(t \<mapsto> ?lts)\<rparr>"
  let ?freed = "?locked\<lparr>tasks := (tasks ?locked)(t \<mapsto> ?lts\<lparr>kv_store := (kv_store ?lts)[i := []]\<rparr>),
      kv_mem := kv_mem ?locked |` (- set ?nodes)\<rparr>"
  have lock: "spin_lock (t, i) s = Inr ?locked"
    using t lk i by (simp add: spin_lock_def get_task_def set_task_def)
  have free: "kv_free_nodes ?nodes (t, i) ?locked = Inr ?freed"
    by (rule kv_free_nodes_eval) (use len i ok in auto)
  have "?lts\<lparr>kv_store := X, kv_locks := (kv_locks ?lts)[i := False]\<rparr> = ts\<lparr>kv_store := X\<rparr>" for X
    using lk i by (cases ts) simp
  then have "spin_unlock (t, i) ?freed = Inr (kv_drop_bucket t ts i s)"
    by (cases s) (simp add: spin_unlock_def get_task_def set_task_def kv_drop_bucket_def)
  with lock free show ?thesis
    by (simp add: bucket_nodes_def get_task_def)
qed

lemma kv_exit_loop_eval:
  assumes "tasks s t = Some ts" "kv_locks ts = replicate KV_BUCKETS False"
    and "length (kv_store ts) = KV_BUCKETS" "set is \<subseteq> {..<KV_BUCKETS}" "distinct is"
    and "\<And>i. i \<in> set is \<Longrightarrow> distinct (kv_store ts ! i)"
    and "\<And>i a. i \<in> set is \<Longrightarrow> a \<in> set (kv_store ts ! i) \<Longrightarrow> kv_mem s a \<noteq> None"
    and "\<And>i j. i \<in> set is \<Longrightarrow> j \<in> set is \<Longrightarrow> i \<noteq> j \<Longrightarrow> set (kv_store ts ! i) \<inter> set (kv_store ts ! j) = {}"
  shows "kv_exit_loop is t s =
    Inr (s\<lparr>tasks := (tasks s)(t \<mapsto> ts\<lparr>kv_store := fold (\<lambda>i xs. xs[i := []]) is (kv_store ts)\<rparr>),
           kv_mem := kv_mem s |` (- (\<Union>i \<in> set is. set (kv_store ts ! i)))\<rparr>)"
  using assms
proof (induction "is" arbitrary: s ts)
  case Nil
  then show ?case by (simp add: fun_upd_idem)
next
  case (Cons i "is")
  let ?ts = "ts\<lparr>kv_store := (kv_store ts)[i := []]\<rparr>" and ?s = "kv_drop_bucket t ts i s"
  have same: "kv_store ?ts ! j = kv_store ts ! j" if "j \<in> set is" for j
    using that Cons.prems(5) by (cases "j = i") auto
  have "kv_exit_loop (i # is) t s = kv_exit_loop is t ?s"
    by (rule kv_exit_round) (use Cons.prems in auto)
  also have "\<dots> = Inr (?s\<lparr>tasks := (tasks ?s)(t \<mapsto> ?ts\<lparr>kv_store := fold (\<lambda>i xs. xs[i := []]) is (kv_store ?ts)\<rparr>),
              kv_mem := kv_mem ?s |` (- (\<Union>j \<in> set is. set (kv_store ?ts ! j)))\<rparr>)"
  proof (rule Cons.IH)
    show "kv_mem ?s a \<noteq> None" if "j \<in> set is" "a \<in> set (kv_store ?ts ! j)" for j a
    proof -
      have "j \<noteq> i" using that(1) Cons.prems(5) by auto
      with that same show ?thesis using Cons.prems(7) [of j a] Cons.prems(8) [of i j]
        by (auto simp: restrict_map_def kv_drop_bucket_def)
    qed
    show "distinct (kv_store ?ts ! j)" if "j \<in> set is" for j
      using that same Cons.prems(6) by simp
    show "set (kv_store ?ts ! j) \<inter> set (kv_store ?ts ! k) = {}"
      if "j \<in> set is" "k \<in> set is" "j \<noteq> k" for j k
      using that same Cons.prems(8) [of j k] by simp
  qed (use Cons.prems in \<open>auto simp: kv_drop_bucket_def\<close>)
  also have "(\<Union>j \<in> set is. set (kv_store ?ts ! j)) = (\<Union>j \<in> set is. set (kv_store ts ! j))"
    using same by simp
  also have "?s\<lparr>tasks := (tasks ?s)(t \<mapsto> ?ts\<lparr>kv_store := fold (\<lambda>i xs. xs[i := []]) is (kv_store ?ts)\<rparr>),
      kv_mem := kv_mem ?s |` (- (\<Union>j \<in> set is. set (kv_store ts ! j)))\<rparr> =
    s\<lparr>tasks := (tasks s)(t \<mapsto> ts\<lparr>kv_store := fold (\<lambda>i xs. xs[i := []]) (i # is) (kv_store ts)\<rparr>),
      kv_mem := kv_mem s |` (- (\<Union>j \<in> set (i # is). set (kv_store ts ! j)))\<rparr>"
    by (cases s) (simp add: kv_drop_bucket_def)
  finally show ?case .
qed

lemma kv_bucket_ok_distinct: "kv_bucket_ok h i as \<Longrightarrow> distinct as"
  by (auto simp: kv_bucket_ok_def distinct_map)

lemma kv_buckets_disjoint:
  "kv_bucket_ok h i as \<Longrightarrow> kv_bucket_ok h j bs \<Longrightarrow> i \<noteq> j \<Longrightarrow> set as \<inter> set bs = {}"
  by (fastforce simp: kv_bucket_ok_def)

text \<open>The state after a leader's exit: its buckets are empty, its nodes are freed.\<close>

definition kv_exited :: "nat \<Rightarrow> task_struct \<Rightarrow> kernel \<Rightarrow> kernel" where
  "kv_exited l ts s = s\<lparr>tasks := (tasks s)(l \<mapsto> ts\<lparr>kv_store := replicate KV_BUCKETS []\<rparr>),
                        kv_mem := kv_mem s |` (- kv_nodes ts)\<rparr>"

lemma kv_store_exit_leader:
  assumes inv: "kv_inv s" and l: "is_leader s l ts"
  shows "kv_store_exit l s = Inr (kv_exited l ts s)"
proof -
  have t: "tasks s l = Some ts" and "group_leader ts = l" using l by (simp_all add: is_leader_def)
  then have pid: "pid ts = tgid ts" using kv_inv_task_ok [OF inv t] by (simp add: kv_task_ok_def)
  note ok = kv_inv_leader [OF inv l, unfolded kv_leader_ok_def]
  have "kv_exit_loop [0..<KV_BUCKETS] l s =
    Inr (s\<lparr>tasks := (tasks s)(l \<mapsto> ts\<lparr>kv_store := fold (\<lambda>i xs. xs[i := []]) [0..<KV_BUCKETS] (kv_store ts)\<rparr>),
           kv_mem := kv_mem s |` (- (\<Union>i \<in> set [0..<KV_BUCKETS]. set (kv_store ts ! i)))\<rparr>)"
  proof (rule kv_exit_loop_eval [OF t])
    show "distinct (kv_store ts ! i)" if "i \<in> set [0..<KV_BUCKETS]" for i
      using ok that kv_bucket_ok_distinct by auto
    show "kv_mem s a \<noteq> None" if "i \<in> set [0..<KV_BUCKETS]" "a \<in> set (kv_store ts ! i)" for i a
      using kv_leader_okD(5) [OF kv_inv_leader [OF inv l], of i] that by auto
    show "set (kv_store ts ! i) \<inter> set (kv_store ts ! j) = {}"
      if "i \<in> set [0..<KV_BUCKETS]" "j \<in> set [0..<KV_BUCKETS]" "i \<noteq> j" for i j
      using ok that kv_buckets_disjoint [of "kv_mem s" i "kv_store ts ! i" j "kv_store ts ! j"] by simp
  qed (use ok in auto)
  moreover have "(\<Union>i \<in> set [0..<KV_BUCKETS]. set (kv_store ts ! i)) = kv_nodes ts"
    using ok by (auto simp: kv_nodes_def set_concat_conv Bex_def simp del: set_concat)
  moreover have "fold (\<lambda>i xs. xs[i := []]) [0..<KV_BUCKETS] (kv_store ts) = replicate KV_BUCKETS []"
    using ok by (simp add: fold_list_update_upt)
  ultimately have "kv_exit_loop [0..<KV_BUCKETS] l s = Inr (kv_exited l ts s)"
    by (simp only: kv_exited_def)
  then show ?thesis using pid t by (simp add: kv_store_exit_def get_task_def)
qed

lemma kv_store_exit_thread:
  "kv_inv s \<Longrightarrow> tasks s t = Some ts \<Longrightarrow> group_leader ts \<noteq> t \<Longrightarrow> kv_store_exit t s = Inr s"
  using kv_inv_task_ok [of s t ts] by (simp add: kv_store_exit_def get_task_def kv_task_ok_def)

lemma kv_inv_exited:
  assumes inv: "kv_inv s" and l: "is_leader s l ts"
  shows "kv_inv (kv_exited l ts s)" (is "kv_inv ?s'")
proof (rule kv_invI)
  let ?ts = "ts\<lparr>kv_store := replicate KV_BUCKETS []\<rparr>"
  have tk: "tasks ?s' = (tasks s)(l \<mapsto> ?ts)" and mem: "kv_mem ?s' = kv_mem s |` (- kv_nodes ts)"
    by (simp_all add: kv_exited_def)
  have lead: "is_leader ?s' m x \<longleftrightarrow> (if m = l then x = ?ts else is_leader s m x)" for m x
    using l by (auto simp: is_leader_def tk)
  have nodes: "kv_nodes ?ts = {}" by (rule kv_nodes_empty) simp
  show "kv_leader_ok (kv_mem ?s') x" if m: "is_leader ?s' m x" for m x
  proof (cases "m = l")
    case True
    with m have x: "x = ?ts" by (simp add: lead)
    show ?thesis unfolding x
      by (rule kv_leader_ok_empty) (use kv_inv_leader [OF inv l] in \<open>auto simp: kv_leader_ok_def\<close>)
  next
    case False
    with m have x: "is_leader s m x" by (simp add: lead)
    show ?thesis
      by (rule kv_leader_ok_cong [OF kv_inv_leader [OF inv x]])
        (use kv_inv_disjoint [OF inv l x] False in \<open>auto simp: mem restrict_map_def\<close>)
  qed
  show "kv_nodes x \<inter> kv_nodes y = {}" if "is_leader ?s' m x" "is_leader ?s' n y" "m \<noteq> n" for m n x y
    using that kv_inv_disjoint [OF inv] nodes by (auto simp: lead split: if_splits)
  show "kv_mem ?s' a \<noteq> None \<longleftrightarrow> (\<exists>m x. is_leader ?s' m x \<and> a \<in> kv_nodes x)" for a
  proof -
    have "(\<exists>m x. is_leader ?s' m x \<and> a \<in> kv_nodes x) \<longleftrightarrow> (\<exists>m x. m \<noteq> l \<and> is_leader s m x \<and> a \<in> kv_nodes x)"
      using nodes by (auto simp: lead)
    also have "\<dots> \<longleftrightarrow> a \<notin> kv_nodes ts \<and> (\<exists>m x. is_leader s m x \<and> a \<in> kv_nodes x)"
    proof -
      have "a \<notin> kv_nodes ts" if "m \<noteq> l" "is_leader s m x" "a \<in> kv_nodes x" for m x
        using kv_inv_disjoint [OF inv l that(2)] that by auto
      moreover have "m \<noteq> l" if "is_leader s m x" "a \<in> kv_nodes x" "a \<notin> kv_nodes ts" for m x
        using that is_leader_unique [OF l] by auto
      ultimately show ?thesis by blast
    qed
    finally show ?thesis using kv_inv_alloc [OF inv, of a] by (auto simp: mem restrict_map_def)
  qed
  show "kv_task_ok ?s' t x" if t: "tasks ?s' t = Some x" for t x
  proof (cases "t = l")
    case True
    moreover have "kv_task_ok s l ts" using kv_inv_task_ok [OF inv] l by (simp add: is_leader_def)
    ultimately show ?thesis using t l by (auto simp: kv_task_ok_def lead tk is_leader_def)
  next
    case False
    with t have "kv_task_ok s t x" using kv_inv_task_ok [OF inv] by (simp add: tk)
    then show ?thesis unfolding kv_task_ok_def using lead by metis
  qed
qed

lemma kv_abs_exited:
  assumes "kv_inv s" "is_leader s l ts" "is_leader s m x"
  shows "kv_abs (kv_exited l ts s) m = (if m = l then Map.empty else kv_abs s m)"
proof (cases "m = l")
  case True
  then show ?thesis using kv_abs_empty [of "kv_exited l ts s" l] by (simp add: kv_exited_def)
next
  case False
  have eq: "kv_mem (kv_exited l ts s) a = kv_mem s a" if "a \<in> kv_nodes x" for a
    using kv_inv_disjoint [OF assms False [symmetric]] that by (auto simp: kv_exited_def restrict_map_def)
  have bucket: "set (kv_store x ! nat (kv_hash k)) \<subseteq> kv_nodes x" for k
    using kv_leader_okD(3) [OF kv_inv_leader [OF assms(1,3)] kv_bucket_lt, of k] kv_nodes_nth by blast
  have L: "is_leader (kv_exited l ts s) m x" using assms(3) False by (simp add: is_leader_def kv_exited_def)
  have "kv_abs (kv_exited l ts s) m k = kv_abs s m k" for k
  proof -
    have "kv_node_of (kv_mem (kv_exited l ts s)) k (kv_store x ! nat (kv_hash k)) =
        kv_node_of (kv_mem s) k (kv_store x ! nat (kv_hash k))"
      using bucket eq by (intro kv_node_of_cong) (metis subsetD)
    then show ?thesis
      unfolding kv_abs_leader [OF L] kv_abs_leader [OF assms(3)]
      using bucket [of k] eq by (intro option.map_cong) (auto dest: kv_node_of_SomeD)
  qed
  with False show ?thesis by (simp add: fun_eq_iff)
qed

subsection \<open>Exec of a thread that is not the leader\<close>

text \<open>
  A thread created with \<^verbatim>\<open>CLONE_THREAD\<close> keeps the copy of its creator's list heads that
  \<^verbatim>\<open>dup_task_struct\<close> made. It is not used as long as the creator's leader serves the group; after
  the leader has exited and the thread took over the group in \<^verbatim>\<open>de_thread\<close>, it is.
\<close>

definition exec_in_thread :: "nat \<Rightarrow> nat \<Rightarrow> int \<Rightarrow> kernel \<Rightarrow> kernel kres" where
  "exec_in_thread l p n s =
     kbind (copy_process_kv l p n True s) (\<lambda>s.
     kbind (do_exit_kv l s) (de_thread_kv p))"

lemma hlist_find_freed:
  "as \<noteq> [] \<Longrightarrow> \<forall>a \<in> set as. h a = None \<Longrightarrow> hlist_find h k as = Inl (UseAfterFree (hd as))"
  by (cases as) auto

lemma kv_abs_Some_key_ok:
  assumes "kv_inv s" "is_leader s l ts" "kv_abs s l k = Some v"
  shows "kv_key_ok k" and "kv_store ts ! nat (kv_hash k) \<noteq> []"
proof -
  from assms(3) obtain a where a: "kv_node_of (kv_mem s) k (kv_store ts ! nat (kv_hash k)) = Some a"
    by (auto simp: kv_abs_leader [OF assms(2)])
  then have "a \<in> set (kv_store ts ! nat (kv_hash k))" and key: "key (the (kv_mem s a)) = k"
    by (auto dest: kv_node_of_SomeD)
  moreover note kv_leader_okD(1) [OF kv_inv_leader [OF assms(1,2)] kv_bucket_lt [of k]]
  ultimately obtain kv where "kv_mem s a = Some kv" "kv_hash (key kv) = int (nat (kv_hash k))"
    unfolding kv_bucket_ok_def by blast
  with key have "kv_hash k = int (nat (kv_hash k))" by simp
  then show "kv_key_ok k" using kv_hash_nonneg_iff [of k] by linarith
  show "kv_store ts ! nat (kv_hash k) \<noteq> []" using a by (auto simp: kv_node_of_def)
qed

lemma exec_in_thread_read_faults:
  assumes inv: "kv_inv s" and l: "is_leader s l ts" and p: "tasks s p = None" and n: "n \<noteq> tgid ts"
    and v: "kv_abs s l k = Some v"
  shows "\<exists>s' a. exec_in_thread l p n s = Inr s' \<and> read_kv p k s' = Inl (UseAfterFree a)"
proof -
  have t: "tasks s l = Some ts" and gl: "group_leader ts = l" using l by (simp_all add: is_leader_def)
  let ?p = "ts\<lparr>pid := n\<rparr>"
  let ?s1 = "set_task p ?p s"
  have pl: "p \<noteq> l" using p t by auto
  from copy_process_spec [OF inv t p, of True n] n
  obtain s1 where s1: "copy_process_kv l p n True s = Inr s1" and inv1: "kv_inv s1" by auto
  have s1': "s1 = ?s1"
    using s1 t n by (simp add: copy_process_kv_def get_task_def kv_store_init_thread Let_def gl)
  have l1: "is_leader s1 l ts" using l pl by (simp add: s1' is_leader_def set_task_def)
  define s2 where "s2 = kv_exited l ts s1"
  have ex: "do_exit_kv l s1 = Inr s2"
    by (simp add: do_exit_kv_def kv_store_exit_leader [OF inv1 l1] s2_def)
  have tk2: "tasks s2 p = Some ?p" "tasks s2 l = Some (ts\<lparr>kv_store := replicate KV_BUCKETS []\<rparr>)"
    using pl by (simp_all add: s2_def s1' kv_exited_def set_task_def)
  let ?q = "?p\<lparr>pid := pid ts, group_leader := p\<rparr>"
  obtain s3 where s3: "de_thread_kv p s2 = Inr s3" "tasks s3 p = Some ?q" "kv_mem s3 = kv_mem s2"
    using tk2 pl gl by (auto simp: de_thread_kv_def get_task_def set_task_def)
  note ok = kv_leader_okD [OF kv_inv_leader [OF inv l] kv_bucket_lt [of k]]
  have "\<forall>a \<in> set (kv_store ts ! nat (kv_hash k)). kv_mem s3 a = None"
    using kv_nodes_nth [OF ok(3)] by (auto simp: s3(3) s2_def kv_exited_def restrict_map_def)
  with kv_abs_Some_key_ok [OF inv l v] have
    "hlist_find (kv_mem s3) k (kv_store ts ! nat (kv_hash k)) = Inl (UseAfterFree (hd (kv_store ts ! nat (kv_hash k))))"
    by (intro hlist_find_freed) auto
  then have "read_kv p k s3 = Inl (UseAfterFree (hd (kv_store ts ! nat (kv_hash k))))"
    using s3(2) kv_abs_Some_key_ok(1) [OF inv l v] ok(2)
    by (simp add: read_kv_def kv_access_defs array_index_kv)
  with s1 ex s3(1) show ?thesis by (auto simp: exec_in_thread_def)
qed

subsection \<open>The contract a program sees\<close>

text \<open>
  A store of integers under integer keys, offered to a calling task by two operations that may
  refuse a write for lack of memory: the contract, and what any program built from the two
  operations can rely on.
\<close>

locale kv_service =
  fixes ok :: "'c \<Rightarrow> 's \<Rightarrow> bool"
    and key_ok :: "'k \<Rightarrow> bool"
    and mem_ok :: "'m \<Rightarrow> bool"
    and contents :: "'c \<Rightarrow> 's \<Rightarrow> 'k \<Rightarrow> 'v option"
    and wr :: "'m \<Rightarrow> 'c \<Rightarrow> 'k \<Rightarrow> 'v \<Rightarrow> 's \<Rightarrow> (int \<times> 's) kres"
    and rd :: "'c \<Rightarrow> 'k \<Rightarrow> 's \<Rightarrow> (int \<times> 's) kres"
    and as_long :: "'v \<Rightarrow> int"
  assumes wr_law: "ok c s \<Longrightarrow> key_ok k \<Longrightarrow> mem_ok m \<Longrightarrow>
      wr m c k v s = Inr (- ENOMEM, s) \<or>
      (\<exists>s'. wr m c k v s = Inr (0, s') \<and> ok c s' \<and> contents c s' = (contents c s)(k \<mapsto> v))"
    and rd_law: "ok c s \<Longrightarrow> key_ok k \<Longrightarrow>
      rd c k s = Inr (case contents c s k of None \<Rightarrow> - ENOENT | Some v \<Rightarrow> as_long v, s)"
begin

text \<open>A batch of writes, as the test programs issue them: the results and the final state.\<close>

primrec wr_batch :: "'m \<Rightarrow> 'c \<Rightarrow> ('k \<times> 'v) list \<Rightarrow> 's \<Rightarrow> (int list \<times> 's) kres" where
  "wr_batch m c [] s = Inr ([], s)"
| "wr_batch m c (kv # kvs) s =
     kbind (wr m c (fst kv) (snd kv) s) (\<lambda>(r, s).
     kbind (wr_batch m c kvs s) (\<lambda>(rs, s). Inr (r # rs, s)))"

definition stored :: "('k \<times> 'v) list \<Rightarrow> int list \<Rightarrow> ('k \<times> 'v) list" where
  "stored kvs rs = map fst (filter (\<lambda>p. snd p = 0) (zip kvs rs))"

lemma stored_simps [simp]:
  "stored [] rs = []"
  "stored (kv # kvs) (r # rs) = (if r = 0 then kv # stored kvs rs else stored kvs rs)"
  by (simp_all add: stored_def)

lemma wr_batch_contents:
  assumes "ok c s" "mem_ok m" "\<forall>kv \<in> set kvs. key_ok (fst kv)"
  shows "\<exists>rs s'. wr_batch m c kvs s = Inr (rs, s') \<and> ok c s' \<and> length rs = length kvs \<and>
    contents c s' = contents c s ++ map_of (rev (stored kvs rs))"
  using assms
proof (induction kvs arbitrary: s)
  case Nil
  then show ?case by auto
next
  case (Cons kv kvs)
  obtain k v where kv: "kv = (k, v)" by (cases kv)
  with Cons.prems have k: "key_ok k" by auto
  from wr_law [OF Cons.prems(1) k Cons.prems(2), of v] consider
      (full) "wr m c k v s = Inr (- ENOMEM, s)"
    | (succ) s1 where "wr m c k v s = Inr (0, s1)" "ok c s1" "contents c s1 = (contents c s)(k \<mapsto> v)"
    by blast
  then show ?case
  proof cases
    case full
    from Cons.IH [OF Cons.prems(1,2)] Cons.prems(3) obtain rs s' where
      ih: "wr_batch m c kvs s = Inr (rs, s')" "ok c s'" "length rs = length kvs"
      "contents c s' = contents c s ++ map_of (rev (stored kvs rs))" by auto
    then show ?thesis using full kv by (simp add: ENOMEM_def)
  next
    case succ
    from Cons.IH [OF succ(2) Cons.prems(2)] Cons.prems(3) obtain rs s' where
      ih: "wr_batch m c kvs s1 = Inr (rs, s')" "ok c s'" "length rs = length kvs"
      "contents c s' = contents c s1 ++ map_of (rev (stored kvs rs))" by auto
    then show ?thesis using succ kv by simp
  qed
qed

text \<open>Reading back after a batch: the last stored value of the key, or what was there before.\<close>

lemma rd_after_batch:
  assumes "ok c s" "mem_ok m" "\<forall>kv \<in> set kvs. key_ok (fst kv)" "key_ok k"
    and "wr_batch m c kvs s = Inr (rs, s')"
  shows "rd c k s' = Inr (case (contents c s ++ map_of (rev (stored kvs rs))) k of
      None \<Rightarrow> - ENOENT | Some v \<Rightarrow> as_long v, s')"
proof -
  from wr_batch_contents [OF assms(1-3)] assms(5)
  have "ok c s'" and "contents c s' = contents c s ++ map_of (rev (stored kvs rs))" by auto
  with rd_law [OF this(1) assms(4)] show ?thesis by simp
qed

end

definition kv_task_live :: "nat \<Rightarrow> kernel \<Rightarrow> bool" where
  "kv_task_live cur s \<longleftrightarrow> kv_inv s \<and> tasks s cur \<noteq> None"

definition kv_contents :: "nat \<Rightarrow> kernel \<Rightarrow> s32 \<Rightarrow> s32 option" where
  "kv_contents cur s = kv_abs s (kv_leader s cur)"

interpretation kv: kv_service kv_task_live kv_key_ok kmalloc_fresh kv_contents sys_write_kv sys_read_kv sint
proof unfold_locales
  fix cur s k m and v :: s32
  assume live: "kv_task_live cur s" and k: "kv_key_ok k" and m: "kmalloc_fresh m"
  then obtain c where c: "tasks s cur = Some c" and inv: "kv_inv s" by (auto simp: kv_task_live_def)
  from kv_inv_current [OF inv c] obtain ts where l: "is_leader s (group_leader c) ts" .
  from write_kv_spec [OF inv c k m, of v]
  show "sys_write_kv m cur k v s = Inr (- ENOMEM, s) \<or>
      (\<exists>s'. sys_write_kv m cur k v s = Inr (0, s') \<and> kv_task_live cur s' \<and>
        kv_contents cur s' = (kv_contents cur s)(k \<mapsto> v))"
  proof (elim disjE exE conjE)
    fix s' assume "write_kv m cur k v s = Inr (0, s')" "kv_inv s'"
      and abs: "\<forall>l ts. is_leader s l ts \<longrightarrow>
          kv_abs s' l = (if l = group_leader c then (kv_abs s l)(k \<mapsto> v) else kv_abs s l)"
      and gl: "\<forall>t. map_option group_leader (tasks s' t) = map_option group_leader (tasks s t)"
    moreover from gl [rule_format, of cur] c have "kv_leader s' cur = group_leader c" "tasks s' cur \<noteq> None"
      by (auto simp: kv_leader_def)
    ultimately show ?thesis
      using l c by (auto simp: sys_write_kv_def kv_task_live_def kv_contents_def kv_leader_def)
  qed (simp add: sys_write_kv_def)
next
  fix cur s k
  assume "kv_task_live cur s" and "kv_key_ok k"
  then show "sys_read_kv cur k s =
      Inr (case kv_contents cur s k of None \<Rightarrow> - ENOENT | Some v \<Rightarrow> sint v, s)"
    by (auto simp: kv_task_live_def sys_read_kv_def kv_contents_def kv_leader_def read_kv_spec)
qed

subsection \<open>Properties\<close>

text \<open>
  C1. \<^verbatim>\<open>write_kv\<close> on a key that has a bucket either reports \<open>-ENOMEM\<close> and leaves the kernel
  unchanged, or returns 0 in a well-formed state in which the calling process's map has the new
  value under the key and every other process's map is as before.
\<close>

theorem write_kv_refines:
  assumes "kv_inv s" "tasks s cur = Some c" "kv_key_ok k" "kmalloc_fresh kmalloc"
  shows "(kmalloc (kv_mem s) = None \<and> write_kv kmalloc cur k v s = Inr (- ENOMEM, s)) \<or>
    (\<exists>s'. write_kv kmalloc cur k v s = Inr (0, s') \<and> kv_inv s' \<and>
       (\<forall>l ts. is_leader s l ts \<longrightarrow>
          kv_abs s' l = (if l = group_leader c then (kv_abs s l)(k \<mapsto> v) else kv_abs s l)))"
  using write_kv_spec [OF assms, of v] by blast

text \<open>
  C2. Reading back after any batch of writes: a program that issues \<^verbatim>\<open>write_kv\<close> for a list of
  pairs and then \<^verbatim>\<open>read_kv\<close> gets the last value whose write returned 0, or what the key held
  before the batch, or \<open>-ENOENT\<close>.
\<close>

theorem read_after_writes:
  assumes "kv_task_live cur s" "kmalloc_fresh m" "\<forall>kv \<in> set kvs. kv_key_ok (fst kv)" "kv_key_ok k"
    and "kv.wr_batch m cur kvs s = Inr (rs, s')"
  shows "sys_read_kv cur k s' = Inr (case (kv_contents cur s ++ map_of (rev (kv.stored kvs rs))) k of
      None \<Rightarrow> - ENOENT | Some v \<Rightarrow> sint v, s')"
  using assms by (rule kv.rd_after_batch)

text \<open>
  C8. The system calls index the bucket array out of bounds exactly for negative keys that are
  not multiples of 1024: for such a key both fault, with the negative index; for every other key neither
  faults, whatever the allocator answers.
\<close>

theorem kv_key_bounds:
  assumes "kv_inv s" "tasks s cur = Some c" "kmalloc_fresh kmalloc"
  shows "(\<not> (0 \<le> sint k \<or> 1024 dvd sint k) \<longrightarrow>
      read_kv cur k s = Inl (IndexOutOfBounds (kv_hash k)) \<and>
      write_kv kmalloc cur k v s = Inl (IndexOutOfBounds (kv_hash k)) \<and> kv_hash k < 0) \<and>
    (0 \<le> sint k \<or> 1024 dvd sint k \<longrightarrow> (\<exists>r. read_kv cur k s = Inr (r, s)) \<and> (\<exists>r s'. write_kv kmalloc cur k v s = Inr (r, s')))"
proof (cases "kv_key_ok k")
  case True
  then have "\<exists>r s'. write_kv kmalloc cur k v s = Inr (r, s')" using write_kv_spec [OF assms(1,2) _ assms(3), of k v] by blast
  then show ?thesis using True read_kv_spec [OF assms(1,2) True] unfolding kv_key_ok_def by auto
next
  case False
  then show ?thesis using kv_bad_key_faults [of k s cur c] assms(2) kv_hash_nonneg_iff [of k]
    by (auto simp: kv_key_ok_def [symmetric])
qed

text \<open>
  \<^verbatim>\<open>read_kv\<close> cannot tell a missing key from a stored error code: it returns \<open>-ENOENT\<close> exactly
  when the key is absent or the value stored under it is \<open>-2\<close>.
\<close>

lemma read_kv_enoent_ambiguous:
  assumes "kv_inv s" "tasks s cur = Some c" "kv_key_ok k"
  shows "read_kv cur k s = Inr (- ENOENT, s) \<longleftrightarrow>
    kv_abs s (group_leader c) k = None \<or> kv_abs s (group_leader c) k = Some (- 2)"
proof -
  have "sint v = - 2 \<longleftrightarrow> v = (- 2 :: s32)" for v
    using signed_word_eqI [of v "- 2"] by auto
  then show ?thesis
    by (auto simp: read_kv_spec [OF assms] ENOENT_def split: option.splits)
qed

text \<open>
  C7. \<^verbatim>\<open>copy_process\<close> keeps the invariant and every existing process's map; a new process starts
  with an empty store of its own, a new thread works on the store of its group leader.
\<close>

theorem fork_isolates_thread_shares:
  assumes "kv_inv s" "tasks s cur = Some c" "tasks s p = None" "thread \<longrightarrow> n \<noteq> tgid c"
  shows "\<exists>s'. copy_process_kv cur p n thread s = Inr s' \<and> kv_inv s' \<and>
    (\<forall>l. l \<noteq> p \<longrightarrow> kv_abs s' l = kv_abs s l) \<and>
    kv_leader s' p = (if thread then group_leader c else p) \<and>
    (\<not> thread \<longrightarrow> kv_abs s' p = Map.empty)"
  using assms by (intro copy_process_spec) auto

text \<open>
  C6. \<^verbatim>\<open>do_exit\<close> of a group leader frees exactly the nodes it owns, without a double free, leaves
  it an empty store and every other process's map unchanged; \<^verbatim>\<open>do_exit\<close> of any other thread does
  not touch the store.
\<close>

theorem exit_frees_own_nodes:
  assumes "kv_inv s" "tasks s t = Some ts"
  shows "\<exists>s'. do_exit_kv t s = Inr s' \<and> kv_inv s' \<and>
    (if group_leader ts = t
     then kv_mem s' = kv_mem s |` (- kv_nodes ts) \<and> kv_abs s' t = Map.empty \<and>
       (\<forall>l x. is_leader s l x \<and> l \<noteq> t \<longrightarrow> kv_abs s' l = kv_abs s l)
     else s' = s)"
proof (cases "group_leader ts = t")
  case True
  then have l: "is_leader s t ts" using assms(2) by (simp add: is_leader_def)
  from True show ?thesis
    using kv_store_exit_leader [OF assms(1) l] kv_inv_exited [OF assms(1) l]
      kv_abs_exited [OF assms(1) l] l
    by (auto simp: do_exit_kv_def kv_exited_def)
next
  case False
  with kv_store_exit_thread [OF assms] assms(1) show ?thesis by (simp add: do_exit_kv_def)
qed

text \<open>
  C9. A use after free: when a process has stored a value, creates a thread, its leader exits and
  the thread then execs (taking over the thread group), a read of that key through the new leader
  dereferences a freed node, because the thread's copied list heads were never initialised.
\<close>

theorem exec_in_thread_use_after_free:
  assumes "kv_inv s" "is_leader s l ts" "tasks s p = None" "n \<noteq> tgid ts" "kv_abs s l k = Some v"
  shows "\<exists>s' a. exec_in_thread l p n s = Inr s' \<and> read_kv p k s' = Inl (UseAfterFree a)"
  using assms by (rule exec_in_thread_read_faults)

subsection \<open>Instances\<close>

definition kv_boot_task :: task_struct where
  "kv_boot_task = \<lparr>pid = 10, tgid = 10, group_leader = 10,
     kv_store = replicate KV_BUCKETS [], kv_locks = replicate KV_BUCKETS False\<rparr>"

definition kv_boot :: kernel where
  "kv_boot = \<lparr>tasks = [10 \<mapsto> kv_boot_task], kv_mem = Map.empty\<rparr>"

definition kv_alloc0 :: kmalloc_fn where
  "kv_alloc0 h = (if h 0 = None then Some (0, \<lparr>key = 0, val = 0\<rparr>) else None)"

lemma kv_boot_leader: "is_leader kv_boot l ts \<longleftrightarrow> l = 10 \<and> ts = kv_boot_task"
  by (auto simp: is_leader_def kv_boot_def kv_boot_task_def)

lemma kv_boot_inv: "kv_inv kv_boot"
proof (rule kv_invI)
  show "kv_task_ok kv_boot t ts" if "tasks kv_boot t = Some ts" for t ts
    using that by (auto simp: kv_task_ok_def kv_boot_leader) (auto simp: kv_boot_def kv_boot_task_def split: if_splits)
  show "kv_leader_ok (kv_mem kv_boot) ts" if "is_leader kv_boot l ts" for l ts
    using that by (auto simp: kv_boot_leader kv_boot_task_def intro!: kv_leader_ok_empty)
  show "kv_mem kv_boot a \<noteq> None \<longleftrightarrow> (\<exists>l ts. is_leader kv_boot l ts \<and> a \<in> kv_nodes ts)" for a
    using kv_nodes_empty [of kv_boot_task KV_BUCKETS]
    by (simp add: kv_boot_leader) (simp add: kv_boot_def kv_boot_task_def)
qed (simp add: kv_boot_leader)

lemma kv_alloc0_fresh: "kmalloc_fresh kv_alloc0"
  by (auto simp: kmalloc_fresh_def kv_alloc0_def split: if_splits)

lemma kv_boot_task: "tasks kv_boot 10 = Some kv_boot_task" "group_leader kv_boot_task = 10"
  "tgid kv_boot_task = 10" "tasks kv_boot 20 = None" "kv_mem kv_boot = Map.empty"
  by (simp_all add: kv_boot_def kv_boot_task_def)

lemma kv_key5: "kv_key_ok 5"
  by (simp add: kv_key_ok_def)

text \<open>The state after one write, with the value 7 under key 5.\<close>

lemma kv_written:
  obtains s ts where "write_kv kv_alloc0 10 5 7 kv_boot = Inr (0, s)" "kv_inv s" "is_leader s 10 ts"
    "tgid ts = 10" "tasks s 20 = None" "kv_abs s 10 5 = Some 7"
proof -
  from write_kv_spec [OF kv_boot_inv kv_boot_task(1) kv_key5 kv_alloc0_fresh, of 7]
  obtain s where s: "write_kv kv_alloc0 10 5 7 kv_boot = Inr (0, s)" and inv: "kv_inv s"
    and abs: "kv_abs s 10 = (kv_abs kv_boot 10)(5 \<mapsto> 7)"
    and gl: "\<forall>t. map_option group_leader (tasks s t) = map_option group_leader (tasks kv_boot t)"
    by (auto simp: kv_alloc0_def kv_boot_leader kv_boot_task)
  have ev: "write_kv kv_alloc0 10 5 7 kv_boot =
      Inr (0, kv_insert 10 kv_boot_task 5 0 \<lparr>key = 5, val = 7\<rparr> kv_boot)"
    using write_kv_eval [of kv_boot 10 kv_boot_task 10 kv_boot_task 5 kv_alloc0 0 "\<lparr>key = 0, val = 0\<rparr>" 7]
      kv_inv_leader [OF kv_boot_inv] kv_boot_leader kv_boot_task kv_key5
    by (simp add: kv_alloc0_def kv_boot_def kv_hash_def smod_1024 kv_node_of_def kv_boot_task_def KV_BUCKETS_def)
  then have "tasks s 10 = Some (kv_boot_task\<lparr>kv_store := (kv_store kv_boot_task)[5 := 0 # (kv_store kv_boot_task ! 5)]\<rparr>)"
    using s by (auto simp: kv_insert_def set_task_def)
  then have "is_leader s 10 (kv_boot_task\<lparr>kv_store := (kv_store kv_boot_task)[5 := 0 # (kv_store kv_boot_task ! 5)]\<rparr>)"
    by (simp add: is_leader_def kv_boot_task)
  moreover have "tasks s 20 = None" using gl [rule_format, of 20] kv_boot_task by simp
  moreover have "kv_abs s 10 5 = Some 7" using abs by simp
  ultimately show thesis using that [OF s inv] kv_boot_task by simp
qed

lemma write_kv_refines_witness:
  "\<exists>s'. write_kv kv_alloc0 10 5 7 kv_boot = Inr (0, s') \<and> kv_inv s' \<and> kv_abs s' 10 5 = Some 7"
  using write_kv_refines [OF kv_boot_inv kv_boot_task(1) kv_key5 kv_alloc0_fresh, of 7]
  by (auto simp: kv_alloc0_def kv_boot_leader kv_boot_task)

lemma read_after_writes_witness:
  "\<exists>s'. kv.wr_batch kv_alloc0 10 [(5, 7)] kv_boot = Inr ([0], s') \<and> sys_read_kv 10 5 s' = Inr (7, s')"
proof -
  obtain s where s: "write_kv kv_alloc0 10 5 7 kv_boot = Inr (0, s)" by (rule kv_written)
  have live: "kv_task_live 10 kv_boot" using kv_boot_inv kv_boot_task by (simp add: kv_task_live_def)
  have b: "kv.wr_batch kv_alloc0 10 [(5, 7)] kv_boot = Inr ([0], s)" using s by (simp add: sys_write_kv_def)
  from read_after_writes [OF live kv_alloc0_fresh _ kv_key5 b] kv_key5 b show ?thesis by auto
qed

lemma kv_key_bounds_witness:
  "read_kv 10 (- 5) kv_boot = Inl (IndexOutOfBounds (- 5)) \<and> write_kv kv_alloc0 10 (- 5) 7 kv_boot = Inl (IndexOutOfBounds (- 5)) \<and>
   (\<exists>r. read_kv 10 (- 1024) kv_boot = Inr (r, kv_boot)) \<and> (\<exists>r s'. write_kv kv_alloc0 10 (- 1024) 7 kv_boot = Inr (r, s'))"
proof -
  have "kv_hash (- 5) = - 5" by (simp add: kv_hash_def smod_1024)
  with kv_key_bounds [OF kv_boot_inv kv_boot_task(1) kv_alloc0_fresh, of "- 5" 7]
    kv_key_bounds [OF kv_boot_inv kv_boot_task(1) kv_alloc0_fresh, of "- 1024" 7] show ?thesis by auto
qed

lemma read_kv_enoent_ambiguous_witness: "read_kv 10 5 kv_boot = Inr (- ENOENT, kv_boot)"
proof -
  have "kv_abs kv_boot 10 = Map.empty"
    by (rule kv_abs_empty [OF kv_boot_task(1)]) (simp add: kv_boot_task_def)
  with read_kv_enoent_ambiguous [OF kv_boot_inv kv_boot_task(1) kv_key5] kv_boot_task(2)
  show ?thesis by simp
qed

lemma fork_isolates_thread_shares_witness:
  "(\<exists>s'. copy_process_kv 10 20 20 False kv_boot = Inr s' \<and> kv_inv s' \<and> kv_abs s' 20 = Map.empty) \<and>
   (\<exists>s'. copy_process_kv 10 20 20 True kv_boot = Inr s' \<and> kv_leader s' 20 = 10)"
  using fork_isolates_thread_shares [OF kv_boot_inv kv_boot_task(1,4), of False 20]
    fork_isolates_thread_shares [OF kv_boot_inv kv_boot_task(1,4), of True 20]
  by (auto simp: kv_boot_task)

lemma exit_frees_own_nodes_witness:
  "\<exists>s'. do_exit_kv 10 kv_boot = Inr s' \<and> kv_inv s' \<and> kv_abs s' 10 = Map.empty"
  using exit_frees_own_nodes [OF kv_boot_inv kv_boot_task(1)] by (auto simp: kv_boot_task)

lemma exec_in_thread_use_after_free_witness:
  "\<exists>s s' a. write_kv kv_alloc0 10 5 7 kv_boot = Inr (0, s) \<and> exec_in_thread 10 20 20 s = Inr s' \<and>
     read_kv 20 5 s' = Inl (UseAfterFree a)"
proof -
  obtain s ts where s: "write_kv kv_alloc0 10 5 7 kv_boot = Inr (0, s)" "kv_inv s" "is_leader s 10 ts"
    "tgid ts = 10" "tasks s 20 = None" "kv_abs s 10 5 = Some 7" by (rule kv_written)
  have "20 \<noteq> tgid ts" using s(4) by simp
  from exec_in_thread_use_after_free [OF s(2,3,5) this s(6)] s(1) show ?thesis by blast
qed

end
