(* ===== verification/KV_Concurrent.thy ===== *)
theory KV_Concurrent
  imports KV_Process
begin

text \<open>
  The two system calls of \<^verbatim>\<open>kernel/kv_store.c\<close> interleaved: any number of threads of one process
  run \<^verbatim>\<open>write_kv\<close> and \<^verbatim>\<open>read_kv\<close> at once, one shared step at a time. A step is a spinlock
  operation, one iteration of the search loop (one node of the chain), the update or insertion,
  or the return; the per-bucket spinlock is the only synchronisation. At this level a bucket is
  the sequence of its key-value pairs, as the sequential theory justifies. Calls are on keys that hash into the table.
  Shown: mutual exclusion, linearizability of the history of an execution, and absence of deadlock.
\<close>

datatype kv_op = Write s32 s32 | Read s32

fun op_key :: "kv_op \<Rightarrow> s32" where
  "op_key (Write k v) = k"
| "op_key (Read k) = k"

definition op_bucket :: "kv_op \<Rightarrow> nat" where
  "op_bucket op = nat (kv_hash (op_key op))"

datatype kv_pc =
    Idle
  | Locking kv_op
  | Searching kv_op "(s32 \<times> s32) list"
  | Searched kv_op "s32 option"
  | Unlocking kv_op int
  | Returned kv_op int

record kv_sys =
  holder :: "nat \<Rightarrow> nat option"
  chain :: "nat \<Rightarrow> (s32 \<times> s32) list"
  pcs :: "nat \<Rightarrow> kv_pc"

definition kv_sys_init :: "kv_sys \<Rightarrow> bool" where
  "kv_sys_init s \<longleftrightarrow> holder s = (\<lambda>_. None) \<and> chain s = (\<lambda>_. []) \<and> pcs s = (\<lambda>_. Idle)"

text \<open>The chain after the node the search stopped at, the first with the key, got the new value.\<close>

fun chain_set :: "s32 \<Rightarrow> s32 \<Rightarrow> (s32 \<times> s32) list \<Rightarrow> (s32 \<times> s32) list" where
  "chain_set k v [] = []"
| "chain_set k v ((k', v') # xs) = (if k' = k then (k', v) # xs else (k', v') # chain_set k v xs)"

definition read_result :: "s32 option \<Rightarrow> int" where
  "read_result r = (case r of None \<Rightarrow> - ENOENT | Some v \<Rightarrow> sint v)"

inductive kv_step :: "nat \<Rightarrow> kv_sys \<Rightarrow> kv_sys \<Rightarrow> bool" for t where
  call: "pcs s t = Idle \<Longrightarrow> kv_key_ok (op_key op) \<Longrightarrow>
     kv_step t s (s\<lparr>pcs := (pcs s)(t := Locking op)\<rparr>)"
| no_memory: "pcs s t = Idle \<Longrightarrow>
     kv_step t s (s\<lparr>pcs := (pcs s)(t := Returned (Write k v) (- ENOMEM))\<rparr>)"
| lock: "pcs s t = Locking op \<Longrightarrow> holder s (op_bucket op) = None \<Longrightarrow>
     kv_step t s (s\<lparr>holder := (holder s)(op_bucket op \<mapsto> t),
                    pcs := (pcs s)(t := Searching op (chain s (op_bucket op)))\<rparr>)"
| hit: "pcs s t = Searching op ((k, v) # rest) \<Longrightarrow> k = op_key op \<Longrightarrow>
     kv_step t s (s\<lparr>pcs := (pcs s)(t := Searched op (Some v))\<rparr>)"
| miss: "pcs s t = Searching op ((k, v) # rest) \<Longrightarrow> k \<noteq> op_key op \<Longrightarrow>
     kv_step t s (s\<lparr>pcs := (pcs s)(t := Searching op rest)\<rparr>)"
| chain_end: "pcs s t = Searching op [] \<Longrightarrow>
     kv_step t s (s\<lparr>pcs := (pcs s)(t := Searched op None)\<rparr>)"
| update: "pcs s t = Searched (Write k v) (Some old) \<Longrightarrow> b = op_bucket (Write k v) \<Longrightarrow>
     kv_step t s (s\<lparr>chain := (chain s)(b := chain_set k v (chain s b)),
                    pcs := (pcs s)(t := Unlocking (Write k v) 0)\<rparr>)"
| insert: "pcs s t = Searched (Write k v) None \<Longrightarrow> b = op_bucket (Write k v) \<Longrightarrow>
     kv_step t s (s\<lparr>chain := (chain s)(b := (k, v) # chain s b),
                    pcs := (pcs s)(t := Unlocking (Write k v) 0)\<rparr>)"
| fetch: "pcs s t = Searched (Read k) r \<Longrightarrow>
     kv_step t s (s\<lparr>pcs := (pcs s)(t := Unlocking (Read k) (read_result r))\<rparr>)"
| unlock: "pcs s t = Unlocking op r \<Longrightarrow>
     kv_step t s (s\<lparr>holder := (holder s)(op_bucket op := None),
                    pcs := (pcs s)(t := Returned op r)\<rparr>)"
| return: "pcs s t = Returned op r \<Longrightarrow> kv_step t s (s\<lparr>pcs := (pcs s)(t := Idle)\<rparr>)"

subsection \<open>The invariant\<close>

fun in_cs :: "kv_pc \<Rightarrow> kv_op option" where
  "in_cs (Searching op _) = Some op"
| "in_cs (Searched op _) = Some op"
| "in_cs (Unlocking op _) = Some op"
| "in_cs _ = None"

fun search_ok :: "(nat \<Rightarrow> (s32 \<times> s32) list) \<Rightarrow> kv_pc \<Rightarrow> bool" where
  "search_ok ch (Searching op rest) \<longleftrightarrow>
     (\<exists>pre. ch (op_bucket op) = pre @ rest \<and> op_key op \<notin> fst ` set pre)"
| "search_ok ch (Searched op r) \<longleftrightarrow> r = map_of (ch (op_bucket op)) (op_key op)"
| "search_ok ch _ \<longleftrightarrow> True"

definition kv_sys_inv :: "kv_sys \<Rightarrow> bool" where
  "kv_sys_inv s \<longleftrightarrow>
     (\<forall>t op. in_cs (pcs s t) = Some op \<longrightarrow> holder s (op_bucket op) = Some t) \<and>
     (\<forall>b t. holder s b = Some t \<longrightarrow> (\<exists>op. in_cs (pcs s t) = Some op \<and> op_bucket op = b)) \<and>
     (\<forall>b. distinct (map fst (chain s b))) \<and>
     (\<forall>t. search_ok (chain s) (pcs s t))"

definition kv_view :: "kv_sys \<Rightarrow> s32 \<Rightarrow> s32 option" where
  "kv_view s k = map_of (chain s (nat (kv_hash k))) k"

lemma chain_set_keys [simp]: "map fst (chain_set k v xs) = map fst xs"
  by (induction k v xs rule: chain_set.induct) auto

lemma map_of_chain_set:
  "map_of (chain_set k v xs) k' =
     (if k' = k then map_option (\<lambda>_. v) (map_of xs k) else map_of xs k')"
  by (induction k v xs rule: chain_set.induct) auto

lemma map_of_skip: "k \<notin> fst ` set pre \<Longrightarrow> map_of (pre @ rest) k = map_of rest k"
  by (simp add: map_of_eq_None_iff map_add_Some_iff map_add_dom_app_simps(3) dom_map_of_conv_image_fst)

text \<open>Another thread's search only depends on chains it holds the lock of.\<close>

lemma search_ok_other:
  assumes "search_ok ch pc" and "\<And>op. in_cs pc = Some op \<Longrightarrow> op_bucket op \<noteq> b"
  shows "search_ok (ch(b := xs)) pc"
  using assms by (cases pc) auto

lemma kv_sys_invI:
  assumes "\<And>t op. in_cs (pcs s t) = Some op \<Longrightarrow> holder s (op_bucket op) = Some t"
    and "\<And>b t. holder s b = Some t \<Longrightarrow> \<exists>op. in_cs (pcs s t) = Some op \<and> op_bucket op = b"
    and "\<And>b. distinct (map fst (chain s b))"
    and "\<And>t. search_ok (chain s) (pcs s t)"
  shows "kv_sys_inv s"
  unfolding kv_sys_inv_def using assms by blast

lemma kv_sys_invD:
  assumes "kv_sys_inv s"
  shows "in_cs (pcs s t) = Some op \<Longrightarrow> holder s (op_bucket op) = Some t"
    and "holder s b = Some t \<Longrightarrow> \<exists>op. in_cs (pcs s t) = Some op \<and> op_bucket op = b"
    and "distinct (map fst (chain s b))"
    and "search_ok (chain s) (pcs s t)"
  using assms unfolding kv_sys_inv_def by blast+

lemma kv_sys_inv_init: "kv_sys_init s \<Longrightarrow> kv_sys_inv s"
  by (auto simp: kv_sys_init_def kv_sys_inv_def)

text \<open>A step of \<open>t\<close> that changes only its program counter, within or outside its critical section.\<close>

lemma kv_sys_inv_pc:
  assumes inv: "kv_sys_inv s" and cs: "in_cs pc = in_cs (pcs s t)" and ok: "search_ok (chain s) pc"
  shows "kv_sys_inv (s\<lparr>pcs := (pcs s)(t := pc)\<rparr>)"
proof (rule kv_sys_invI)
  show "search_ok (chain (s\<lparr>pcs := (pcs s)(t := pc)\<rparr>)) (pcs (s\<lparr>pcs := (pcs s)(t := pc)\<rparr>) u)" for u
    using ok kv_sys_invD(4) [OF inv] by simp
qed (use kv_sys_invD [OF inv] cs in \<open>auto split: if_splits\<close>)

lemma kv_sys_inv_chain:
  assumes inv: "kv_sys_inv s" and t: "in_cs (pcs s t) = Some op" and d: "distinct (map fst xs)"
  shows "kv_sys_inv (s\<lparr>chain := (chain s)(op_bucket op := xs), pcs := (pcs s)(t := Unlocking op r)\<rparr>)"
proof (rule kv_sys_invI)
  let ?s = "s\<lparr>chain := (chain s)(op_bucket op := xs), pcs := (pcs s)(t := Unlocking op r)\<rparr>"
  show "search_ok (chain ?s) (pcs ?s u)" for u
  proof (cases "u = t")
    case False
    have "op_bucket op' \<noteq> op_bucket op" if "in_cs (pcs s u) = Some op'" for op'
      using kv_sys_invD(1) [OF inv that] kv_sys_invD(1) [OF inv t] False by auto
    then show ?thesis using False search_ok_other [OF kv_sys_invD(4) [OF inv]] by simp
  qed simp
  show "in_cs (pcs ?s u) = Some op' \<Longrightarrow> holder ?s (op_bucket op') = Some u" for u op'
    using kv_sys_invD(1) [OF inv] t by (auto split: if_splits)
  show "holder ?s b = Some u \<Longrightarrow> \<exists>op. in_cs (pcs ?s u) = Some op \<and> op_bucket op = b" for u b
    using kv_sys_invD(2) [OF inv] t by (fastforce split: if_splits)
qed (use d kv_sys_invD(3) [OF inv] in auto)

lemma kv_step_inv:
  assumes "kv_sys_inv s" and "kv_step t s s'"
  shows "kv_sys_inv s'"
  using assms(2,1)
proof (induction rule: kv_step.induct)
  case (lock s op)
  let ?s = "s\<lparr>holder := (holder s)(op_bucket op \<mapsto> t), pcs := (pcs s)(t := Searching op (chain s (op_bucket op)))\<rparr>"
  note inv = kv_sys_invD [OF lock.prems]
  show ?case
  proof (rule kv_sys_invI)
    show "in_cs (pcs ?s u) = Some op' \<Longrightarrow> holder ?s (op_bucket op') = Some u" for u op'
      using inv(1) [of u op'] lock.hyps by (auto split: if_splits)
    show "holder ?s b = Some u \<Longrightarrow> \<exists>op. in_cs (pcs ?s u) = Some op \<and> op_bucket op = b" for u b
      using inv(2) [of b u] lock.hyps by (auto split: if_splits)
    show "search_ok (chain ?s) (pcs ?s u)" for u
      using inv(4) [of u] by auto
  qed (use inv(3) in auto)
next
  case (unlock s op r)
  let ?s = "s\<lparr>holder := (holder s)(op_bucket op := None), pcs := (pcs s)(t := Returned op r)\<rparr>"
  note inv = kv_sys_invD [OF unlock.prems]
  have t: "holder s (op_bucket op) = Some t" using inv(1) [of t op] unlock.hyps by simp
  show ?case
  proof (rule kv_sys_invI)
    show "in_cs (pcs ?s u) = Some op' \<Longrightarrow> holder ?s (op_bucket op') = Some u" for u op'
      using inv(1) [of u op'] t by (auto split: if_splits)
    show "holder ?s b = Some u \<Longrightarrow> \<exists>op. in_cs (pcs ?s u) = Some op \<and> op_bucket op = b" for u b
      using inv(2) [of b u] unlock.hyps by (auto split: if_splits)
    show "search_ok (chain ?s) (pcs ?s u)" for u
      using inv(4) [of u] by auto
  qed (use inv(3) in auto)
next
  case (hit s op k v rest)
  have "search_ok (chain s) (pcs s t)" by (rule kv_sys_invD(4) [OF hit.prems])
  with hit obtain pre where "chain s (op_bucket op) = pre @ (op_key op, v) # rest" "op_key op \<notin> fst ` set pre"
    by auto
  then have "map_of (chain s (op_bucket op)) (op_key op) = Some v"
    using map_of_skip [of "op_key op" pre "(op_key op, v) # rest"] by simp
  then show ?case using hit by (intro kv_sys_inv_pc) auto
next
  case (miss s op k v rest)
  have "search_ok (chain s) (pcs s t)" by (rule kv_sys_invD(4) [OF miss.prems])
  then obtain pre where "chain s (op_bucket op) = (pre @ [(k, v)]) @ rest" "op_key op \<notin> fst ` set (pre @ [(k, v)])"
    using miss by auto
  then have "search_ok (chain s) (Searching op rest)" unfolding search_ok.simps by blast
  then show ?case using miss by (intro kv_sys_inv_pc) auto
next
  case (chain_end s op)
  have "search_ok (chain s) (pcs s t)" by (rule kv_sys_invD(4) [OF chain_end.prems])
  then show ?case using chain_end by (intro kv_sys_inv_pc) (auto simp: map_of_eq_None_iff [symmetric])
next
  case (update s k v old b)
  then show ?case
    using kv_sys_inv_chain [of s t "Write k v" "chain_set k v (chain s b)" 0] kv_sys_invD(3) by simp
next
  case (insert s k v b)
  have "search_ok (chain s) (pcs s t)" by (rule kv_sys_invD(4) [OF insert.prems])
  with insert have "distinct (map fst ((k, v) # chain s b))"
    using kv_sys_invD(3) [OF insert.prems, of b] by (auto simp: map_of_eq_None_iff [symmetric])
  with insert show ?case
    using kv_sys_inv_chain [of s t "Write k v" "(k, v) # chain s b" 0] by simp
qed (auto intro!: kv_sys_inv_pc)

interpretation kvc: transition_system kv_sys_init "\<lambda>s s'. \<exists>t. kv_step t s s'" kv_sys_inv
  by unfold_locales (auto intro: kv_sys_inv_init kv_step_inv)

subsection \<open>Consequences\<close>

lemma kv_view_set:
  "b = op_bucket (Write k v) \<Longrightarrow> map_of xs = (map_of (chain s b))(k \<mapsto> v) \<Longrightarrow>
   kv_view (s\<lparr>chain := (chain s)(b := xs), pcs := pc\<rparr>) = (kv_view s)(k \<mapsto> v)"
  by (auto simp: kv_view_def op_bucket_def fun_eq_iff)

lemma map_of_chain_set_present:
  "map_of xs k = Some old \<Longrightarrow> map_of (chain_set k v xs) = (map_of xs)(k \<mapsto> v)"
  by (auto simp: map_of_chain_set fun_eq_iff)

lemma kv_pc_can_move:
  assumes "in_cs (pcs s t) = Some op"
  shows "\<exists>s'. kv_step t s s'"
proof (cases "pcs s t")
  case (Searching op rest)
  then show ?thesis
    by (cases rest) (auto intro: kv_step.chain_end kv_step.hit kv_step.miss)
next
  case (Searched op r)
  then show ?thesis
    by (cases op; cases r) (auto intro: kv_step.update kv_step.insert kv_step.fetch)
next
  case (Unlocking op r)
  then show ?thesis by (auto intro: kv_step.unlock)
qed (use assms in auto)

text \<open>
  C4. In every state reachable from the empty store by any interleaving of threads, two threads
  inside the critical section of the same bucket are the same thread, and no bucket holds a key
  twice.
\<close>

theorem kv_mutual_exclusion:
  assumes "kv_sys_init s0" and "run_of (\<lambda>s s'. \<exists>t. kv_step t s s') s0 s"
  shows "(\<forall>t u op op'. in_cs (pcs s t) = Some op \<and> in_cs (pcs s u) = Some op' \<and>
      op_bucket op = op_bucket op' \<longrightarrow> t = u) \<and> (\<forall>b. distinct (map fst (chain s b)))"
proof -
  from assms have inv: "kv_sys_inv s" by (rule kvc.reachable_inv)
  show ?thesis using kv_sys_invD(1,3) [OF inv] by (metis option.inject)
qed

subsection \<open>Linearisability\<close>

text \<open>
  The sequential specification: a map, on which an operation acts at once. A run is observed through the events of
  its threads: a call, the moment an operation takes effect with its result, and the return. Events are read off the
  program counter alone.
\<close>

fun spec_op :: "kv_op \<Rightarrow> (s32 \<Rightarrow> s32 option) \<Rightarrow> int \<times> (s32 \<Rightarrow> s32 option)" where
  "spec_op (Write k v) m = (0, m(k \<mapsto> v))"
| "spec_op (Read k) m = (read_result (m k), m)"

datatype kv_event = Call kv_op | Commit kv_op int | Ret kv_op int

fun pc_events :: "kv_pc \<Rightarrow> kv_pc \<Rightarrow> kv_event list" where
  "pc_events Idle (Locking op) = [Call op]"
| "pc_events Idle (Returned op r) = [Call op]"
| "pc_events (Searched op _) (Unlocking op' r) = [Commit op' r]"
| "pc_events (Returned op r) Idle = [Ret op r]"
| "pc_events _ _ = []"

inductive kv_exec :: "kv_sys \<Rightarrow> (nat \<times> kv_event) list \<Rightarrow> kv_sys \<Rightarrow> bool" for s0 where
  start: "kv_exec s0 [] s0"
| step: "kv_exec s0 h s \<Longrightarrow> kv_step t s s' \<Longrightarrow> kv_exec s0 (h @ map (Pair t) (pc_events (pcs s t) (pcs s' t))) s'"

text \<open>The operations in the order in which they take effect are a run of the specification from \<open>m\<close> to \<open>m'\<close>.\<close>

fun spec_run :: "(s32 \<Rightarrow> s32 option) \<Rightarrow> (nat \<times> kv_event) list \<Rightarrow> (s32 \<Rightarrow> s32 option) option" where
  "spec_run m [] = Some m"
| "spec_run m ((t, Commit op r) # h) = (if fst (spec_op op m) = r then spec_run (snd (spec_op op m)) h else None)"
| "spec_run m (_ # h) = spec_run m h"

text \<open>
  What one thread does: it calls, the operation takes effect once, and it returns with the result it took effect
  with. A write without memory returns \<open>-ENOMEM\<close> and takes no effect.
\<close>

datatype kv_stage = Out | Pending kv_op | Done kv_op int

fun stage_step :: "kv_event \<Rightarrow> kv_stage option \<Rightarrow> kv_stage option" where
  "stage_step (Call op) (Some Out) = Some (Pending op)"
| "stage_step (Commit op r) (Some (Pending op')) = (if op = op' then Some (Done op r) else None)"
| "stage_step (Ret op r) (Some (Done op' r')) = (if op = op' \<and> r = r' then Some Out else None)"
| "stage_step (Ret op r) (Some (Pending op')) = (if op = op' \<and> r = - ENOMEM \<and> (\<exists>k v. op = Write k v) then Some Out else None)"
| "stage_step _ _ = None"

definition events_of :: "nat \<Rightarrow> (nat \<times> kv_event) list \<Rightarrow> kv_event list" where
  "events_of t h = map snd (filter (\<lambda>e. fst e = t) h)"

definition stage_of :: "nat \<Rightarrow> (nat \<times> kv_event) list \<Rightarrow> kv_stage option" where
  "stage_of t h = fold stage_step (events_of t h) (Some Out)"

fun pc_stage :: "kv_pc \<Rightarrow> kv_stage \<Rightarrow> bool" where
  "pc_stage Idle st = (st = Out)"
| "pc_stage (Locking op) st = (st = Pending op)"
| "pc_stage (Searching op _) st = (st = Pending op)"
| "pc_stage (Searched op _) st = (st = Pending op)"
| "pc_stage (Unlocking op r) st = (st = Done op r)"
| "pc_stage (Returned op r) st = (st = Done op r \<or> st = Pending op \<and> r = - ENOMEM \<and> (\<exists>k v. op = Write k v))"

lemma spec_run_append: "spec_run m (h @ h') = (case spec_run m h of None \<Rightarrow> None | Some m' \<Rightarrow> spec_run m' h')"
  by (induction m h rule: spec_run.induct) auto

lemma stage_of_append: "stage_of u (h @ map (Pair t) es) = (if u = t then fold stage_step es (stage_of u h) else stage_of u h)"
  by (auto simp: stage_of_def events_of_def filter_map comp_def)

text \<open>A step and its event agree with the specification and with the thread's stage.\<close>

lemma step_effect:
  assumes "kv_sys_inv s" and "kv_step t s s'"
  shows "spec_run (kv_view s) (map (Pair t) (pc_events (pcs s t) (pcs s' t))) = Some (kv_view s')"
proof -
  have found: "r = map_of (chain s (op_bucket op)) (op_key op)" if "pcs s t = Searched op r" for op r
    using kv_sys_invD(4) [OF assms(1), of t] that by simp
  show ?thesis
    using assms(2)
  proof cases
    case (update k v old b)
    with found [of "Write k v" "Some old"] have "map_of (chain s b) k = Some old" by simp
    then have "kv_view s' = (kv_view s)(k \<mapsto> v)"
      unfolding update(1) by (intro kv_view_set [OF update(3)] map_of_chain_set_present)
    then show ?thesis using update by auto
  next
    case (insert k v b)
    have "kv_view s' = (kv_view s)(k \<mapsto> v)"
      unfolding insert(1) by (rule kv_view_set [OF insert(3)]) simp
    then show ?thesis using insert by auto
  next
    case (fetch k r)
    with found [of "Read k" r] show ?thesis
      by (auto simp: kv_view_def op_bucket_def fun_eq_iff)
  qed (auto simp: kv_view_def fun_eq_iff)
qed

lemma step_stage:
  assumes "kv_step t s s'" and "pc_stage (pcs s t) st"
  shows "\<exists>st'. fold stage_step (pc_events (pcs s t) (pcs s' t)) (Some st) = Some st' \<and> pc_stage (pcs s' t) st'"
  using assms by (cases rule: kv_step.cases) auto

lemma step_others: "kv_step t s s' \<Longrightarrow> u \<noteq> t \<Longrightarrow> pcs s' u = pcs s u"
  by (cases rule: kv_step.cases) auto

lemma exec_run: "kv_exec s0 h s \<Longrightarrow> run_of (\<lambda>s s'. \<exists>t. kv_step t s s') s0 s"
  by (induction rule: kv_exec.induct) (auto intro: run_step)

lemma exec_stage: "kv_exec s0 h s \<Longrightarrow> kv_sys_init s0 \<Longrightarrow> \<exists>st. stage_of u h = Some st \<and> pc_stage (pcs s u) st"
proof (induction rule: kv_exec.induct)
  case start
  then show ?case by (simp add: stage_of_def events_of_def kv_sys_init_def)
next
  case (step h s t s')
  then obtain st where st: "stage_of u h = Some st" "pc_stage (pcs s u) st" by blast
  then show ?case using step_stage [OF step.hyps(2), of st] step_others [OF step.hyps(2), of u]
    by (cases "u = t") (simp_all add: stage_of_append)
qed

lemma exec_spec: "kv_exec s0 h s \<Longrightarrow> kv_sys_init s0 \<Longrightarrow> spec_run Map.empty h = Some (kv_view s)"
proof (induction rule: kv_exec.induct)
  case start
  then show ?case by (auto simp: kv_view_def kv_sys_init_def fun_eq_iff)
next
  case (step h s t s')
  have "kv_sys_inv s" by (rule kvc.reachable_inv [OF step.prems exec_run [OF step.hyps(1)]])
  then show ?case using step step_effect by (simp add: spec_run_append)
qed

text \<open>
  C3. The concurrent store is linearisable. In every execution from the empty store, with any interleaving of any number
  of threads: the operations, taken in the order in which they take effect, with the results they return, are a run of
  the sequential map from the empty map to the contents of the store; and every thread calls, takes effect exactly once
  between the call and the return, and returns the result it took effect with, the only exception being a write that
  returns \<open>-ENOMEM\<close> without effect.
\<close>

theorem kv_linearizable:
  assumes "kv_sys_init s0" and "kv_exec s0 h s"
  shows "spec_run Map.empty h = Some (kv_view s) \<and> (\<forall>t. stage_of t h \<noteq> None)"
  using exec_spec [OF assms(2,1)] exec_stage [OF assms(2,1)] by fastforce

text \<open>
  C5. The store cannot deadlock: in every reachable state in which some thread is inside a call,
  a thread that is inside a call can move.
\<close>

theorem kv_no_deadlock:
  assumes "kv_sys_init s0" and "run_of (\<lambda>s s'. \<exists>t. kv_step t s s') s0 s" and "pcs s t \<noteq> Idle"
  shows "\<exists>u s'. pcs s u \<noteq> Idle \<and> kv_step u s s'"
proof -
  from assms(1,2) have inv: "kv_sys_inv s" by (rule kvc.reachable_inv)
  show ?thesis
  proof (cases "pcs s t")
    case (Locking op)
    show ?thesis
    proof (cases "holder s (op_bucket op)")
      case None
      with kv_step.lock [OF Locking] assms(3) show ?thesis by blast
    next
      case (Some u)
      then obtain op' where u: "in_cs (pcs s u) = Some op'" using kv_sys_invD(2) [OF inv] by blast
      then have "pcs s u \<noteq> Idle" by auto
      with kv_pc_can_move [OF u] show ?thesis by blast
    qed
  next
    case (Returned op r)
    with kv_step.return [OF this] assms(3) show ?thesis by blast
  qed (use assms(3) kv_pc_can_move [of s t] in \<open>fastforce+\<close>)
qed

subsection \<open>Instances\<close>

definition kv_sys0 :: kv_sys where
  "kv_sys0 = \<lparr>holder = (\<lambda>_. None), chain = (\<lambda>_. []), pcs = (\<lambda>_. Idle)\<rparr>"

definition kv_sys1 :: kv_sys where
  "kv_sys1 = kv_sys0\<lparr>pcs := (pcs kv_sys0)(0 := Locking (Read 5))\<rparr>"

lemma kv_sys0_init: "kv_sys_init kv_sys0"
  by (simp add: kv_sys_init_def kv_sys0_def)

lemma kv_sys1_step: "kv_step 0 kv_sys0 kv_sys1"
  unfolding kv_sys1_def by (rule kv_step.call) (simp_all add: kv_sys0_def kv_key_ok_def)

lemma kv_sys1_run: "run_of (\<lambda>s s'. \<exists>t. kv_step t s s') kv_sys0 kv_sys1"
  by (rule run_step [OF run_refl]) (blast intro: kv_sys1_step)

lemma kv_mutual_exclusion_witness: "\<forall>b. distinct (map fst (chain kv_sys1 b))"
  using kv_mutual_exclusion [OF kv_sys0_init kv_sys1_run] by blast

lemma kv_write7_exec:
  "\<exists>s. kv_exec kv_sys0 [(0, Call (Write 5 7)), (0, Commit (Write 5 7) 0)] s \<and> kv_view s 5 = Some 7"
proof -
  define pc where "pc p = ((\<lambda>_. Idle) :: nat \<Rightarrow> kv_pc)(0 := p)" for p
  define s1 where "s1 = \<lparr>holder = (\<lambda>_. None), chain = (\<lambda>_. []), pcs = pc (Locking (Write 5 7))\<rparr>"
  define s2 where "s2 = \<lparr>holder = [5 \<mapsto> 0], chain = (\<lambda>_. []), pcs = pc (Searching (Write 5 7) [])\<rparr>"
  define s3 where "s3 = \<lparr>holder = [5 \<mapsto> 0], chain = (\<lambda>_. []), pcs = pc (Searched (Write 5 7) None)\<rparr>"
  define s4 where "s4 = \<lparr>holder = [5 \<mapsto> 0], chain = (\<lambda>_. [])(5 := [(5, 7)]), pcs = pc (Unlocking (Write 5 7) 0)\<rparr>"
  have h: "kv_hash 5 = 5" by (simp add: kv_hash_def smod_1024)
  then have b: "op_bucket (Write 5 7) = 5" by (simp add: op_bucket_def)
  have pc0: "pc p 0 = p" "(pc p)(0 := q) = pc q" for p q by (simp_all add: pc_def)
  have 1: "kv_step 0 kv_sys0 s1"
    using kv_step.call [of kv_sys0 0 "Write 5 7"] by (simp add: kv_sys0_def s1_def pc_def kv_key_ok_def)
  have 2: "kv_step 0 s1 s2" using kv_step.lock [of s1 0 "Write 5 7"] by (simp add: s1_def s2_def b pc0)
  have 3: "kv_step 0 s2 s3" using kv_step.chain_end [of s2 0 "Write 5 7"] by (simp add: s2_def s3_def pc0)
  have "kv_step 0 s3 (s3\<lparr>chain := (chain s3)(5 := (5, 7) # chain s3 5), pcs := (pcs s3)(0 := Unlocking (Write 5 7) 0)\<rparr>)"
    by (rule kv_step.insert) (simp_all add: s3_def b pc0)
  moreover have "s3\<lparr>chain := (chain s3)(5 := (5, 7) # chain s3 5), pcs := (pcs s3)(0 := Unlocking (Write 5 7) 0)\<rparr> = s4"
    by (simp add: s3_def s4_def pc0)
  ultimately have 4: "kv_step 0 s3 s4" by simp
  have p: "pcs kv_sys0 0 = Idle" "pcs s1 0 = Locking (Write 5 7)" "pcs s2 0 = Searching (Write 5 7) []" "pcs s3 0 = Searched (Write 5 7) None"
      "pcs s4 0 = Unlocking (Write 5 7) 0"
    by (simp_all add: kv_sys0_def s1_def s2_def s3_def s4_def pc0)
  have "kv_exec kv_sys0 [(0, Call (Write 5 7)), (0, Commit (Write 5 7) 0)] s4"
    using kv_exec.step [OF kv_exec.step [OF kv_exec.step [OF kv_exec.step [OF kv_exec.start 1] 2] 3] 4] unfolding p by simp
  moreover have "kv_view s4 5 = Some 7" using h by (simp add: kv_view_def s4_def)
  ultimately show ?thesis by blast
qed

lemma kv_linearizable_witness:
  "\<exists>s. kv_exec kv_sys0 [(0, Call (Write 5 7)), (0, Commit (Write 5 7) 0)] s \<and> kv_view s = [5 \<mapsto> 7]"
proof -
  obtain s where s: "kv_exec kv_sys0 [(0, Call (Write 5 7)), (0, Commit (Write 5 7) 0)] s" using kv_write7_exec by blast
  from kv_linearizable [OF kv_sys0_init s] have "kv_view s = [5 \<mapsto> 7]" by simp
  with s show ?thesis by blast
qed

lemma kv_no_deadlock_witness: "\<exists>u s'. pcs kv_sys1 u \<noteq> Idle \<and> kv_step u kv_sys1 s'"
  by (rule kv_no_deadlock [OF kv_sys0_init kv_sys1_run, of 0]) (simp add: kv_sys1_def)

end
