(* ===== verification/Socket_Fairness.thy ===== *)
theory Socket_Fairness
  imports OS_Prelude
begin

text \<open>
  Per-thread socket accounting: \<^verbatim>\<open>net/core/socket_fairness.c\<close> and its header. The statistics
  records are nodes of an address-indexed heap chained in \<^verbatim>\<open>socket_fairness_mgr.threads\<close>;
  \<^verbatim>\<open>atomic_t\<close> counters are 32-bit words that wrap, and the limits are compared as unsigned, as
  C converts them. \<^verbatim>\<open>kmalloc\<close> and \<^verbatim>\<open>jiffies\<close> are parameters.

  A pointer returned by \<^verbatim>\<open>get_thread_socket_stats\<close> is NULL, a node, or the list head itself seen
  as a node: the cursor of \<^verbatim>\<open>list_for_each_entry\<close> after the loop ran to its end. Reads and writes
  through that last pointer land on the manager's own fields: counted from the list head, which is
  the first member of a record, \<^verbatim>\<open>tid\<close> overlays \<^verbatim>\<open>max_sockets_per_thread\<close>, \<^verbatim>\<open>active_sockets\<close> overlays
  \<^verbatim>\<open>max_pending_per_thread\<close>, \<^verbatim>\<open>total_bytes_sent\<close> overlays \<^verbatim>\<open>throttle_threshold\<close>, and the
  counters from \<^verbatim>\<open>pending_requests\<close> on lie behind the manager.
\<close>

subsection \<open>Data\<close>

record thread_socket_stats =
  tid :: s32
  active_sockets :: s32
  total_bytes_sent :: s32
  total_bytes_received :: s32
  pending_requests :: s32
  throttled_count :: s32
  last_throttled :: u64

type_synonym stats_heap = "addr \<Rightarrow> thread_socket_stats option"
type_synonym stats_alloc = "stats_heap \<Rightarrow> addr option"

record socket_fairness_manager =
  threads :: "addr list"
  stats_mem :: stats_heap
  max_sockets_per_thread :: u32
  max_pending_per_thread :: u32
  throttle_threshold :: u32
  fairness_enabled :: bool
  is_initialized :: bool

datatype stats_ptr = NULL | Node addr | Head

text \<open>The zeroed manager before \<^verbatim>\<open>socket_fairness_init\<close> ran.\<close>

definition fairness_bss :: socket_fairness_manager where
  "fairness_bss = \<lparr>threads = [], stats_mem = Map.empty, max_sockets_per_thread = 0,
     max_pending_per_thread = 0, throttle_threshold = 0, fairness_enabled = False,
     is_initialized = False\<rparr>"

definition socket_fairness_init :: "socket_fairness_manager \<Rightarrow> socket_fairness_manager" where
  "socket_fairness_init m =
     (if is_initialized m then m
      else m\<lparr>threads := [], max_sockets_per_thread := 10, max_pending_per_thread := 5,
             throttle_threshold := 1000, fairness_enabled := True, is_initialized := True\<rparr>)"

fun fairness_free :: "addr list \<Rightarrow> socket_fairness_manager \<Rightarrow> socket_fairness_manager kres" where
  "fairness_free [] m = Inr m"
| "fairness_free (a # as) m =
     (case stats_mem m a of
        None \<Rightarrow> Inl (UseAfterFree a)
      | Some _ \<Rightarrow> fairness_free as (m\<lparr>threads := as, stats_mem := (stats_mem m)(a := None)\<rparr>))"

definition socket_fairness_exit :: "socket_fairness_manager \<Rightarrow> socket_fairness_manager kres" where
  "socket_fairness_exit m = fairness_free (threads m) m"

subsection \<open>Finding or creating a record\<close>

fun find_stats :: "stats_heap \<Rightarrow> s32 \<Rightarrow> addr list \<Rightarrow> addr option kres" where
  "find_stats h t [] = Inr None"
| "find_stats h t (a # as) =
     (case h a of
        None \<Rightarrow> Inl (UseAfterFree a)
      | Some st \<Rightarrow> if tid st = t then Inr (Some a) else find_stats h t as)"

definition new_stats :: "s32 \<Rightarrow> thread_socket_stats" where
  "new_stats t = \<lparr>tid = t, active_sockets = 0, total_bytes_sent = 0, total_bytes_received = 0,
     pending_requests = 0, throttled_count = 0, last_throttled = 0\<rparr>"

definition get_thread_socket_stats ::
    "stats_alloc \<Rightarrow> s32 \<Rightarrow> bool \<Rightarrow> socket_fairness_manager \<Rightarrow>
     (stats_ptr \<times> socket_fairness_manager) kres" where
  "get_thread_socket_stats kmalloc t create m =
     (let m = (if \<not> is_initialized m then socket_fairness_init m else m) in
      kbind (find_stats (stats_mem m) t (threads m)) (\<lambda>found.
      case found of
        Some a \<Rightarrow> Inr (Node a, m)
      | None \<Rightarrow>
          if create then
            (case kmalloc (stats_mem m) of
               None \<Rightarrow> Inr (NULL, m)
             | Some a \<Rightarrow> Inr (Node a, m\<lparr>threads := a # threads m,
                                        stats_mem := (stats_mem m)(a \<mapsto> new_stats t)\<rparr>))
          else Inr (Head, m)))"

subsection \<open>Field access through a pointer\<close>

definition read_active :: "stats_ptr \<Rightarrow> socket_fairness_manager \<Rightarrow> s32 kres" where
  "read_active p m = (case p of
      NULL \<Rightarrow> Inl NullDereference
    | Node a \<Rightarrow> (case stats_mem m a of None \<Rightarrow> Inl (UseAfterFree a) | Some st \<Rightarrow> Inr (active_sockets st))
    | Head \<Rightarrow> Inr (max_pending_per_thread m))"

definition write_active :: "stats_ptr \<Rightarrow> s32 \<Rightarrow> socket_fairness_manager \<Rightarrow> socket_fairness_manager kres" where
  "write_active p v m = (case p of
      NULL \<Rightarrow> Inl NullDereference
    | Node a \<Rightarrow> (case stats_mem m a of None \<Rightarrow> Inl (UseAfterFree a)
        | Some st \<Rightarrow> Inr (m\<lparr>stats_mem := (stats_mem m)(a \<mapsto> st\<lparr>active_sockets := v\<rparr>)\<rparr>))
    | Head \<Rightarrow> Inr (m\<lparr>max_pending_per_thread := v\<rparr>))"

text \<open>Fields past the end of the manager when the pointer is the list head.\<close>

definition read_stats :: "(thread_socket_stats \<Rightarrow> 'a) \<Rightarrow> stats_ptr \<Rightarrow> socket_fairness_manager \<Rightarrow> 'a kres" where
  "read_stats f p m = (case p of
      NULL \<Rightarrow> Inl NullDereference
    | Node a \<Rightarrow> (case stats_mem m a of None \<Rightarrow> Inl (UseAfterFree a) | Some st \<Rightarrow> Inr (f st))
    | Head \<Rightarrow> Inl BufferOverflow)"

definition upd_stats :: "(thread_socket_stats \<Rightarrow> thread_socket_stats) \<Rightarrow> stats_ptr \<Rightarrow>
    socket_fairness_manager \<Rightarrow> socket_fairness_manager kres" where
  "upd_stats f p m = (case p of
      NULL \<Rightarrow> Inl NullDereference
    | Node a \<Rightarrow> (case stats_mem m a of None \<Rightarrow> Inl (UseAfterFree a)
        | Some st \<Rightarrow> Inr (m\<lparr>stats_mem := (stats_mem m)(a \<mapsto> f st)\<rparr>))
    | Head \<Rightarrow> Inl BufferOverflow)"

subsection \<open>The operations\<close>

definition check_socket_allocation_allowed ::
    "stats_alloc \<Rightarrow> u64 \<Rightarrow> s32 \<Rightarrow> socket_fairness_manager \<Rightarrow> (bool \<times> socket_fairness_manager) kres" where
  "check_socket_allocation_allowed kmalloc jiffies t m =
     (if \<not> fairness_enabled m then Inr (True, m)
      else kbind (get_thread_socket_stats kmalloc t True m) (\<lambda>(stats, m).
        if stats = NULL then Inr (True, m)
        else kbind (read_active stats m) (\<lambda>active.
             kbind (read_stats pending_requests stats m) (\<lambda>pending.
             if max_sockets_per_thread m \<le> active \<or> max_pending_per_thread m \<le> pending
             then kbind (upd_stats (\<lambda>st. st\<lparr>throttled_count := throttled_count st + 1,
                                            last_throttled := jiffies\<rparr>) stats m)
                    (\<lambda>m. Inr (False, m))
             else Inr (True, m)))))"

definition should_throttle_transmission ::
    "stats_alloc \<Rightarrow> s32 \<Rightarrow> socket_fairness_manager \<Rightarrow> (bool \<times> socket_fairness_manager) kres" where
  "should_throttle_transmission kmalloc t m =
     (if \<not> fairness_enabled m then Inr (False, m)
      else kbind (get_thread_socket_stats kmalloc t False m) (\<lambda>(stats, m).
        if stats = NULL then Inr (False, m)
        else kbind (read_active stats m) (\<lambda>active.
             if max_sockets_per_thread m < active
             then kbind (upd_stats (\<lambda>st. st\<lparr>throttled_count := throttled_count st + 1\<rparr>) stats m)
                    (\<lambda>m. Inr (True, m))
             else Inr (False, m))))"

definition update_socket_traffic ::
    "stats_alloc \<Rightarrow> s32 \<Rightarrow> u64 \<Rightarrow> u64 \<Rightarrow> socket_fairness_manager \<Rightarrow> socket_fairness_manager kres" where
  "update_socket_traffic kmalloc t sent received m =
     kbind (get_thread_socket_stats kmalloc t True m) (\<lambda>(stats, m).
       if stats = NULL then Inr m
       else kbind (upd_stats (\<lambda>st. st\<lparr>total_bytes_sent := total_bytes_sent st + ucast sent\<rparr>) stats m)
              (upd_stats (\<lambda>st. st\<lparr>total_bytes_received := total_bytes_received st + ucast received\<rparr>) stats))"

definition register_socket_for_thread ::
    "stats_alloc \<Rightarrow> s32 \<Rightarrow> socket_fairness_manager \<Rightarrow> socket_fairness_manager kres" where
  "register_socket_for_thread kmalloc t m =
     kbind (get_thread_socket_stats kmalloc t True m) (\<lambda>(stats, m).
       if stats = NULL then Inr m
       else kbind (read_active stats m) (\<lambda>active. write_active stats (active + 1) m))"

definition unregister_socket_for_thread ::
    "stats_alloc \<Rightarrow> s32 \<Rightarrow> socket_fairness_manager \<Rightarrow> socket_fairness_manager kres" where
  "unregister_socket_for_thread kmalloc t m =
     kbind (get_thread_socket_stats kmalloc t False m) (\<lambda>(stats, m).
       if stats = NULL then Inr m
       else kbind (read_active stats m) (\<lambda>active.
            if 0 <s active then write_active stats (active - 1) m else Inr m))"

text \<open>The lines \<^verbatim>\<open>/proc/socket_fairness\<close> shows, one record per tracked thread.\<close>

definition show_stats :: "thread_socket_stats \<Rightarrow> (string \<times> int) list" where
  "show_stats st =
     [(''Thread PID'', sint (tid st)), (''Active Sockets'', sint (active_sockets st)),
      (''Pending Requests'', sint (pending_requests st)), (''Total Bytes Sent'', sint (total_bytes_sent st)),
      (''Total Bytes Received'', sint (total_bytes_received st)),
      (''Throttled Count'', sint (throttled_count st)), (''Last Throttled'', uint (last_throttled st))]"

fun show_nodes :: "stats_heap \<Rightarrow> addr list \<Rightarrow> (string \<times> int) list kres" where
  "show_nodes h [] = Inr []"
| "show_nodes h (a # as) =
     (case h a of
        None \<Rightarrow> Inl (UseAfterFree a)
      | Some st \<Rightarrow> kbind (show_nodes h as) (\<lambda>out. Inr (show_stats st @ out)))"

definition socket_fairness_proc_show :: "socket_fairness_manager \<Rightarrow> (string \<times> int) list kres" where
  "socket_fairness_proc_show m = show_nodes (stats_mem m) (threads m)"

text \<open>Module entry and exit; whether \<^verbatim>\<open>proc_create\<close> succeeded is an input.\<close>

definition socket_fairness_module_init :: "bool \<Rightarrow> socket_fairness_manager \<Rightarrow> int \<times> socket_fairness_manager" where
  "socket_fairness_module_init proc_entry m =
     (if \<not> proc_entry then (- ENOMEM, m) else (0, socket_fairness_init m))"

definition socket_fairness_module_exit :: "socket_fairness_manager \<Rightarrow> socket_fairness_manager kres" where
  "socket_fairness_module_exit m = socket_fairness_exit m"

subsection \<open>Well-formed managers and what they record\<close>

definition fair_inv :: "socket_fairness_manager \<Rightarrow> bool" where
  "fair_inv m \<longleftrightarrow>
     (\<forall>a. a \<in> set (threads m) \<longleftrightarrow> stats_mem m a \<noteq> None) \<and>
     distinct (map (\<lambda>a. tid (the (stats_mem m a))) (threads m)) \<and>
     (\<not> is_initialized m \<longrightarrow> threads m = [] \<and> \<not> fairness_enabled m)"

definition node_of :: "stats_heap \<Rightarrow> s32 \<Rightarrow> addr list \<Rightarrow> addr option" where
  "node_of h t as = find (\<lambda>a. tid (the (h a)) = t) as"

text \<open>The record of a thread, if it is tracked.\<close>

definition stats_of :: "socket_fairness_manager \<Rightarrow> s32 \<Rightarrow> thread_socket_stats option" where
  "stats_of m t = map_option (\<lambda>a. the (stats_mem m a)) (node_of (stats_mem m) t (threads m))"

definition alloc_fresh :: "stats_alloc \<Rightarrow> bool" where
  "alloc_fresh kmalloc \<longleftrightarrow> (\<forall>h a. kmalloc h = Some a \<longrightarrow> h a = None)"

lemma find_stats_live:
  "\<forall>a \<in> set as. h a \<noteq> None \<Longrightarrow> find_stats h t as = Inr (node_of h t as)"
  by (induction as) (auto simp: node_of_def)

lemma find_stats_inv: "fair_inv m \<Longrightarrow> find_stats (stats_mem m) t (threads m) = Inr (node_of (stats_mem m) t (threads m))"
  by (rule find_stats_live) (auto simp: fair_inv_def)

lemma node_of_Some:
  "node_of h t as = Some a \<Longrightarrow> a \<in> set as \<and> tid (the (h a)) = t"
  by (auto simp: node_of_def find_Some_iff)

lemma stats_of_Some:
  assumes "fair_inv m" and "stats_of m t = Some st"
  obtains a where "node_of (stats_mem m) t (threads m) = Some a" "a \<in> set (threads m)"
    "stats_mem m a = Some st" "tid st = t"
proof -
  from assms(2) obtain a where a: "node_of (stats_mem m) t (threads m) = Some a" "the (stats_mem m a) = st"
    by (auto simp: stats_of_def)
  with node_of_Some [OF a(1)] assms(1) that show thesis by (auto simp: fair_inv_def)
qed

lemma stats_of_None: "stats_of m t = None \<longleftrightarrow> node_of (stats_mem m) t (threads m) = None"
  by (simp add: stats_of_def)

lemma node_of_None: "node_of h t as = None \<longleftrightarrow> (\<forall>a \<in> set as. tid (the (h a)) \<noteq> t)"
  by (auto simp: node_of_def find_None_iff)

lemma get_stats_tracked:
  assumes "fair_inv m" "is_initialized m" "stats_of m t = Some st"
  obtains a where "get_thread_socket_stats kmalloc t c m = Inr (Node a, m)" "stats_mem m a = Some st"
    "a \<in> set (threads m)" "tid st = t"
proof -
  from assms(1,3) obtain a where "node_of (stats_mem m) t (threads m) = Some a" "a \<in> set (threads m)"
    "stats_mem m a = Some st" "tid st = t" by (rule stats_of_Some)
  with assms(2) find_stats_inv [OF assms(1), of t] show thesis
    using that by (simp add: get_thread_socket_stats_def)
qed

lemma get_stats_untracked:
  assumes "fair_inv m" "is_initialized m" "stats_of m t = None"
  shows "get_thread_socket_stats kmalloc t False m = Inr (Head, m)"
  using assms find_stats_inv [OF assms(1), of t] by (simp add: get_thread_socket_stats_def stats_of_None)

subsection \<open>Updating and adding a record\<close>

lemma node_of_upd:
  "tid st' = tid (the (h a)) \<Longrightarrow> node_of (h(a \<mapsto> st')) t as = node_of h t as"
  by (induction as) (auto simp: node_of_def)

lemma fair_inv_upd:
  assumes "fair_inv m" "stats_mem m a = Some st" "tid st' = tid st"
  shows "fair_inv (m\<lparr>stats_mem := (stats_mem m)(a \<mapsto> st')\<rparr>)"
proof -
  have "map (\<lambda>b. tid (the (((stats_mem m)(a \<mapsto> st')) b))) (threads m) =
      map (\<lambda>b. tid (the (stats_mem m b))) (threads m)"
    using assms(2,3) by auto
  then show ?thesis using assms(1,2) unfolding fair_inv_def
    by (auto simp del: map_eq_conv)
qed

lemma stats_of_upd:
  assumes inv: "fair_inv m" and st: "stats_of m t = Some st" "stats_mem m a = Some st"
    and a: "a \<in> set (threads m)" and tid: "tid st' = tid st"
  shows "stats_of (m\<lparr>stats_mem := (stats_mem m)(a \<mapsto> st')\<rparr>) = (stats_of m)(t \<mapsto> st')"
proof (rule ext)
  fix u
  let ?h = "stats_mem m"
  have node: "node_of (?h(a \<mapsto> st')) u (threads m) = node_of ?h u (threads m)"
    using st(2) tid by (intro node_of_upd) simp
  have t: "tid st = t" using inv st(1) by (rule stats_of_Some)
  have inj: "b = a" if "b \<in> set (threads m)" "tid (the (?h b)) = t" for b
  proof -
    have "inj_on (\<lambda>a. tid (the (?h a))) (set (threads m))"
      using inv by (simp add: fair_inv_def distinct_map)
    from inj_onD [OF this _ that(1) a] that(2) t st(2) show ?thesis by simp
  qed
  show "stats_of (m\<lparr>stats_mem := ?h(a \<mapsto> st')\<rparr>) u = ((stats_of m)(t \<mapsto> st')) u"
  proof (cases "node_of ?h u (threads m)")
    case None
    then have "u \<noteq> t" using st(1) by (auto simp: stats_of_def)
    with None show ?thesis using node by (simp add: stats_of_def)
  next
    case (Some b)
    from node_of_Some [OF Some] have b: "b \<in> set (threads m)" "tid (the (?h b)) = u" by auto
    show ?thesis
    proof (cases "u = t")
      case True
      with inj b have "b = a" by simp
      with True Some node show ?thesis by (simp add: stats_of_def)
    next
      case False
      with b st(2) t have "b \<noteq> a" by auto
      with False Some node show ?thesis by (simp add: stats_of_def)
    qed
  qed
qed

definition add_stats :: "addr \<Rightarrow> s32 \<Rightarrow> socket_fairness_manager \<Rightarrow> socket_fairness_manager" where
  "add_stats a t m = m\<lparr>threads := a # threads m, stats_mem := (stats_mem m)(a \<mapsto> new_stats t)\<rparr>"

lemma add_stats:
  assumes inv: "fair_inv m" and ini: "is_initialized m" and a: "stats_mem m a = None" and t: "stats_of m t = None"
  shows "fair_inv (add_stats a t m)" and "stats_of (add_stats a t m) = (stats_of m)(t \<mapsto> new_stats t)"
proof -
  have na: "a \<notin> set (threads m)" using inv a by (auto simp: fair_inv_def)
  have eq: "map (\<lambda>b. tid (the (((stats_mem m)(a \<mapsto> new_stats t)) b))) (threads m) =
      map (\<lambda>b. tid (the (stats_mem m b))) (threads m)" using na by auto
  have "t \<notin> set (map (\<lambda>b. tid (the (stats_mem m b))) (threads m))"
    using t by (auto simp: stats_of_None node_of_None)
  then have "distinct (map (\<lambda>b. tid (the (((stats_mem m)(a \<mapsto> new_stats t)) b))) (a # threads m))"
    using inv eq by (simp add: fair_inv_def new_stats_def del: map_eq_conv set_map)
  then show "fair_inv (add_stats a t m)"
    using inv ini by (auto simp: fair_inv_def add_stats_def)
  have node: "node_of ((stats_mem m)(a \<mapsto> new_stats t)) u (threads m) = node_of (stats_mem m) u (threads m)" for u
    using na by (auto simp: node_of_def intro!: find_cong)
  have val: "map_option (\<lambda>b. the (((stats_mem m)(a \<mapsto> new_stats t)) b)) (node_of (stats_mem m) u (threads m)) =
      map_option (\<lambda>b. the (stats_mem m b)) (node_of (stats_mem m) u (threads m))" for u
    using na by (intro option.map_cong) (auto dest: node_of_Some)
  show "stats_of (add_stats a t m) = (stats_of m)(t \<mapsto> new_stats t)"
  proof (rule ext)
    fix u
    show "stats_of (add_stats a t m) u = ((stats_of m)(t \<mapsto> new_stats t)) u"
      using node [of u] val [of u]
      by (auto simp: stats_of_def add_stats_def node_of_def new_stats_def)
  qed
qed

lemma get_stats_create:
  assumes "fair_inv m" "is_initialized m" "stats_of m t = None"
  shows "get_thread_socket_stats kmalloc t True m =
    (case kmalloc (stats_mem m) of None \<Rightarrow> Inr (NULL, m) | Some a \<Rightarrow> Inr (Node a, add_stats a t m))"
  using assms find_stats_inv [OF assms(1), of t]
  by (simp add: get_thread_socket_stats_def stats_of_None add_stats_def split: option.split)

text \<open>Initialisation on first use.\<close>

lemma socket_fairness_init_inv: "fair_inv m \<Longrightarrow> fair_inv (socket_fairness_init m)"
  by (auto simp: fair_inv_def socket_fairness_init_def)

lemma stats_of_init: "fair_inv m \<Longrightarrow> stats_of (socket_fairness_init m) = stats_of m"
  by (auto simp: fair_inv_def socket_fairness_init_def stats_of_def fun_eq_iff)

lemma init_initialized: "is_initialized (socket_fairness_init m)"
  by (simp add: socket_fairness_init_def)

lemma get_stats_init:
  "get_thread_socket_stats kmalloc t c m = get_thread_socket_stats kmalloc t c (socket_fairness_init m)"
  by (simp add: get_thread_socket_stats_def socket_fairness_init_def)

subsection \<open>The operations on a tracked thread\<close>

lemma register_tracked:
  assumes inv: "fair_inv m" "is_initialized m" and st: "stats_of m t = Some st"
  obtains m' where "register_socket_for_thread kmalloc t m = Inr m'" "fair_inv m'" "is_initialized m'"
    "stats_of m' = (stats_of m)(t \<mapsto> st\<lparr>active_sockets := active_sockets st + 1\<rparr>)"
    "max_pending_per_thread m' = max_pending_per_thread m" "max_sockets_per_thread m' = max_sockets_per_thread m"
    "fairness_enabled m' = fairness_enabled m"
proof -
  from get_stats_tracked [OF inv st] obtain a where a: "get_thread_socket_stats kmalloc t True m = Inr (Node a, m)"
    "stats_mem m a = Some st" "a \<in> set (threads m)" .
  show thesis
    by (rule that [of "m\<lparr>stats_mem := (stats_mem m)(a \<mapsto> st\<lparr>active_sockets := active_sockets st + 1\<rparr>)\<rparr>"])
      (use a inv fair_inv_upd [OF inv(1) a(2)] stats_of_upd [OF inv(1) st a(2,3)] in
        \<open>simp_all add: register_socket_for_thread_def read_active_def write_active_def\<close>)
qed

lemma unregister_tracked:
  assumes inv: "fair_inv m" "is_initialized m" and st: "stats_of m t = Some st" and pos: "0 <s active_sockets st"
  obtains m' where "unregister_socket_for_thread kmalloc t m = Inr m'" "fair_inv m'" "is_initialized m'"
    "stats_of m' = (stats_of m)(t \<mapsto> st\<lparr>active_sockets := active_sockets st - 1\<rparr>)"
    "max_pending_per_thread m' = max_pending_per_thread m" "max_sockets_per_thread m' = max_sockets_per_thread m"
    "fairness_enabled m' = fairness_enabled m"
proof -
  from get_stats_tracked [OF inv st] obtain a where a: "get_thread_socket_stats kmalloc t False m = Inr (Node a, m)"
    "stats_mem m a = Some st" "a \<in> set (threads m)" .
  show thesis
    by (rule that [of "m\<lparr>stats_mem := (stats_mem m)(a \<mapsto> st\<lparr>active_sockets := active_sockets st - 1\<rparr>)\<rparr>"])
      (use a inv pos fair_inv_upd [OF inv(1) a(2)] stats_of_upd [OF inv(1) st a(2,3)] in
        \<open>simp_all add: unregister_socket_for_thread_def read_active_def write_active_def\<close>)
qed

lemma unregister_untracked:
  assumes "fair_inv m" "is_initialized m" "stats_of m t = None"
  shows "unregister_socket_for_thread kmalloc t m =
    Inr (if 0 <s max_pending_per_thread m then m\<lparr>max_pending_per_thread := max_pending_per_thread m - 1\<rparr> else m)"
  using get_stats_untracked [OF assms]
  by (simp add: unregister_socket_for_thread_def read_active_def write_active_def)

text \<open>A thread is refused when its record is at a limit; the refusal is counted.\<close>

definition at_limit :: "socket_fairness_manager \<Rightarrow> thread_socket_stats \<Rightarrow> bool" where
  "at_limit m st \<longleftrightarrow> unat (max_sockets_per_thread m) \<le> unat (active_sockets st) \<or>
     unat (max_pending_per_thread m) \<le> unat (pending_requests st)"

definition throttled :: "u64 \<Rightarrow> thread_socket_stats \<Rightarrow> thread_socket_stats" where
  "throttled now st = st\<lparr>throttled_count := throttled_count st + 1, last_throttled := now\<rparr>"

lemma check_node:
  assumes "fairness_enabled m" "get_thread_socket_stats kmalloc t True m = Inr (Node a, m')"
    and "stats_mem m' a = Some st"
  shows "check_socket_allocation_allowed kmalloc now t m =
    (if at_limit m' st then Inr (False, m'\<lparr>stats_mem := (stats_mem m')(a \<mapsto> throttled now st)\<rparr>)
     else Inr (True, m'))"
  using assms
  by (simp add: check_socket_allocation_allowed_def read_active_def read_stats_def upd_stats_def
      at_limit_def throttled_def word_le_nat_alt)

lemma check_tracked:
  assumes inv: "fair_inv m" "is_initialized m" "fairness_enabled m" and st: "stats_of m t = Some st"
  obtains m' where "check_socket_allocation_allowed kmalloc now t m = Inr (\<not> at_limit m st, m')"
    "fair_inv m'" "is_initialized m'"
    "stats_of m' = (if at_limit m st then (stats_of m)(t \<mapsto> throttled now st) else stats_of m)"
proof -
  from get_stats_tracked [OF inv(1,2) st] obtain a where a: "get_thread_socket_stats kmalloc t True m = Inr (Node a, m)"
    "stats_mem m a = Some st" "a \<in> set (threads m)" .
  note ev = check_node [OF inv(3) a(1,2), of now]
  show thesis
  proof (cases "at_limit m st")
    case True
    show thesis
      by (rule that [of "m\<lparr>stats_mem := (stats_mem m)(a \<mapsto> throttled now st)\<rparr>"])
        (use True ev inv fair_inv_upd [OF inv(1) a(2)] stats_of_upd [OF inv(1) st a(2,3)] in
          \<open>simp_all add: throttled_def\<close>)
  next
    case False
    show thesis by (rule that [of m]) (use False ev inv in simp_all)
  qed
qed

text \<open>A thread that is not tracked yet gets a fresh record and is judged by it.\<close>

lemma check_untracked:
  assumes inv: "fair_inv m" "is_initialized m" "fairness_enabled m" and t: "stats_of m t = None"
    and a: "kmalloc (stats_mem m) = Some a" "stats_mem m a = None"
  obtains m' where "check_socket_allocation_allowed kmalloc now t m = Inr (\<not> at_limit m (new_stats t), m')" "fair_inv m'"
proof -
  have g: "get_thread_socket_stats kmalloc t True m = Inr (Node a, add_stats a t m)"
    using get_stats_create [OF inv(1,2) t, of kmalloc] a(1) by simp
  have s: "stats_mem (add_stats a t m) a = Some (new_stats t)" by (simp add: add_stats_def)
  have lim: "at_limit (add_stats a t m) = at_limit m" by (simp add: at_limit_def add_stats_def fun_eq_iff)
  note ev = check_node [OF inv(3) g s, of now, unfolded lim]
  note inv' = add_stats(1) [OF inv(1,2) a(2) t]
  show thesis
    using that ev inv' fair_inv_upd [OF inv' s, of "throttled now (new_stats t)"]
    by (cases "at_limit m (new_stats t)") (auto simp: throttled_def)
qed

subsection \<open>The contract net/socket.c relies on\<close>

text \<open>
  Opening and closing sockets on tracked threads keeps an exact count of open sockets per thread,
  as long as no thread closes more than it opened and no count reaches the width of the counter.
\<close>

locale socket_accounting =
  fixes ok :: "'m \<Rightarrow> bool"
    and count :: "'m \<Rightarrow> 't \<Rightarrow> int option"
    and cap :: int
    and reg :: "'t \<Rightarrow> 'm \<Rightarrow> 'm kres"
    and unreg :: "'t \<Rightarrow> 'm \<Rightarrow> 'm kres"
  assumes reg_law: "ok m \<Longrightarrow> count m t = Some n \<Longrightarrow> n + 1 < cap \<Longrightarrow>
      \<exists>m'. reg t m = Inr m' \<and> ok m' \<and> count m' = (count m)(t \<mapsto> n + 1)"
    and unreg_law: "ok m \<Longrightarrow> count m t = Some n \<Longrightarrow> 0 < n \<Longrightarrow>
      \<exists>m'. unreg t m = Inr m' \<and> ok m' \<and> count m' = (count m)(t \<mapsto> n - 1)"
begin

primrec run_sockets :: "(bool \<times> 't) list \<Rightarrow> 'm \<Rightarrow> 'm kres" where
  "run_sockets [] m = Inr m"
| "run_sockets (e # es) m =
     kbind (if fst e then reg (snd e) m else unreg (snd e) m) (run_sockets es)"

primrec opened :: "'t \<Rightarrow> (bool \<times> 't) list \<Rightarrow> int" where
  "opened t [] = 0"
| "opened t (e # es) = (if snd e = t then (if fst e then 1 else - 1) else 0) + opened t es"

definition legal :: "('t \<Rightarrow> int option) \<Rightarrow> (bool \<times> 't) list \<Rightarrow> bool" where
  "legal c es \<longleftrightarrow> (\<forall>e \<in> set es. c (snd e) \<noteq> None) \<and>
     (\<forall>i \<le> length es. \<forall>t n. c t = Some n \<longrightarrow> 0 \<le> n + opened t (take i es) \<and> n + opened t (take i es) < cap)"

lemma legal_Cons:
  assumes "legal c ((b, t) # es)" and "c t = Some n"
  shows "if b then n + 1 < cap else 0 < n" and "legal (c(t \<mapsto> if b then n + 1 else n - 1)) es"
proof -
  let ?d = "if b then 1 else - 1 :: int"
  have step: "0 \<le> n' + opened u (take (Suc i) ((b, t) # es)) \<and> n' + opened u (take (Suc i) ((b, t) # es)) < cap"
    if "i \<le> length es" "c u = Some n'" for i u n'
    using assms(1) that unfolding legal_def by (metis Suc_le_mono length_Cons)
  from step [of 0 t n] assms(2) show "if b then n + 1 < cap else 0 < n" by auto
  have "0 \<le> n' + opened u (take i es) \<and> n' + opened u (take i es) < cap"
    if "i \<le> length es" "(c(t \<mapsto> n + ?d)) u = Some n'" for i u n'
  proof (cases "u = t")
    case True
    with that step [of i t n] assms(2) show ?thesis by auto
  next
    case False
    with that step [of i u n'] show ?thesis by auto
  qed
  moreover have "\<forall>e \<in> set es. (c(t \<mapsto> n + ?d)) (snd e) \<noteq> None"
    using assms(1) by (auto simp: legal_def)
  ultimately have "legal (c(t \<mapsto> n + ?d)) es" unfolding legal_def by blast
  then show "legal (c(t \<mapsto> if b then n + 1 else n - 1)) es" by (cases b) simp_all
qed

lemma run_sockets_count:
  assumes "ok m" and "legal (count m) es"
  shows "\<exists>m'. run_sockets es m = Inr m' \<and> ok m' \<and>
    (\<forall>t. count m' t = map_option (\<lambda>n. n + opened t es) (count m t))"
  using assms
proof (induction es arbitrary: m)
  case Nil
  then show ?case by (auto simp: option.map_ident)
next
  case (Cons e es)
  obtain b t where e: "e = (b, t)" by (cases e)
  from Cons.prems(2) obtain n where n: "count m t = Some n" by (auto simp: legal_def e)
  note leg = legal_Cons [OF Cons.prems(2) [unfolded e] n]
  obtain m1 where m1: "(if b then reg t m else unreg t m) = Inr m1" "ok m1"
    "count m1 = (count m)(t \<mapsto> if b then n + 1 else n - 1)"
    using reg_law [OF Cons.prems(1) n] unreg_law [OF Cons.prems(1) n] leg(1) by (cases b) auto
  have "legal (count m1) es" using leg(2) m1(3) by simp
  from Cons.IH [OF m1(2) this] obtain m' where "run_sockets es m1 = Inr m'" "ok m'"
    "\<forall>u. count m' u = map_option (\<lambda>n. n + opened u es) (count m1 u)" by blast
  with m1 n e show ?case by (auto simp: option.map_comp comp_def add.assoc)
qed

end

definition fair_ready :: "socket_fairness_manager \<Rightarrow> bool" where
  "fair_ready m \<longleftrightarrow> fair_inv m \<and> is_initialized m"

definition active_count :: "socket_fairness_manager \<Rightarrow> s32 \<Rightarrow> int option" where
  "active_count m t = map_option (\<lambda>st. sint (active_sockets st)) (stats_of m t)"

lemma sint_incr: "sint w + 1 < 2 ^ 31 \<Longrightarrow> sint (w + 1 :: s32) = sint w + 1"
  using sint_greater_eq [of w] by (simp add: sint_word_ariths signed_take_bit_int_eq_self)

lemma sint_decr: "0 < sint w \<Longrightarrow> sint (w - 1 :: s32) = sint w - 1"
  using sint_less [of w] by (simp add: sint_word_ariths signed_take_bit_int_eq_self)

interpretation fair: socket_accounting fair_ready active_count "2 ^ 31"
    "register_socket_for_thread kmalloc" "unregister_socket_for_thread kmalloc" for kmalloc
proof unfold_locales
  fix m t n
  assume ok: "fair_ready m" and "active_count m t = Some n" and n: "n + 1 < 2 ^ 31"
  then obtain st where st: "stats_of m t = Some st" "sint (active_sockets st) = n"
    by (auto simp: active_count_def)
  from ok have "fair_inv m" "is_initialized m" by (simp_all add: fair_ready_def)
  from register_tracked [OF this st(1)] obtain m' where "register_socket_for_thread kmalloc t m = Inr m'"
    "fair_inv m'" "is_initialized m'"
    "stats_of m' = (stats_of m)(t \<mapsto> st\<lparr>active_sockets := active_sockets st + 1\<rparr>)" .
  then show "\<exists>m'. register_socket_for_thread kmalloc t m = Inr m' \<and> fair_ready m' \<and>
      active_count m' = (active_count m)(t \<mapsto> n + 1)"
    using st(2) n by (auto simp: fair_ready_def active_count_def fun_eq_iff sint_incr)
next
  fix m t n
  assume ok: "fair_ready m" and "active_count m t = Some n" and n: "0 < (n::int)"
  then obtain st where st: "stats_of m t = Some st" "sint (active_sockets st) = n"
    by (auto simp: active_count_def)
  from ok have "fair_inv m" "is_initialized m" by (simp_all add: fair_ready_def)
  moreover have "0 <s active_sockets st" using st(2) n by (simp add: word_sless_alt)
  ultimately obtain m' where "unregister_socket_for_thread kmalloc t m = Inr m'"
    "fair_inv m'" "is_initialized m'"
    "stats_of m' = (stats_of m)(t \<mapsto> st\<lparr>active_sockets := active_sockets st - 1\<rparr>)"
    by (rule unregister_tracked [OF _ _ st(1)])
  then show "\<exists>m'. unregister_socket_for_thread kmalloc t m = Inr m' \<and> fair_ready m' \<and>
      active_count m' = (active_count m)(t \<mapsto> n - 1)"
    using st(2) n by (auto simp: fair_ready_def active_count_def fun_eq_iff sint_decr)
qed

subsection \<open>Traffic counters\<close>

lemma traffic_tracked:
  assumes inv: "fair_inv m" "is_initialized m" and st: "stats_of m t = Some st"
  obtains m' where "update_socket_traffic kmalloc t sent received m = Inr m'" "fair_inv m'" "is_initialized m'"
    "stats_of m' = (stats_of m)(t \<mapsto> st\<lparr>total_bytes_sent := total_bytes_sent st + ucast sent,
                                        total_bytes_received := total_bytes_received st + ucast received\<rparr>)"
proof -
  from get_stats_tracked [OF inv st] obtain a where a: "get_thread_socket_stats kmalloc t True m = Inr (Node a, m)"
    "stats_mem m a = Some st" "a \<in> set (threads m)" .
  let ?st = "st\<lparr>total_bytes_sent := total_bytes_sent st + ucast sent,
                total_bytes_received := total_bytes_received st + ucast received\<rparr>"
  show thesis
    by (rule that [of "m\<lparr>stats_mem := (stats_mem m)(a \<mapsto> ?st)\<rparr>"])
      (use a inv fair_inv_upd [OF inv(1) a(2), of ?st] stats_of_upd [OF inv(1) st a(2,3), of ?st] in
        \<open>simp_all add: update_socket_traffic_def upd_stats_def\<close>)
qed

text \<open>A sequence of transfers of one thread.\<close>

primrec run_traffic :: "stats_alloc \<Rightarrow> s32 \<Rightarrow> (u64 \<times> u64) list \<Rightarrow> socket_fairness_manager \<Rightarrow>
    socket_fairness_manager kres" where
  "run_traffic kmalloc t [] m = Inr m"
| "run_traffic kmalloc t (x # xs) m =
     kbind (update_socket_traffic kmalloc t (fst x) (snd x) m) (run_traffic kmalloc t xs)"

lemma run_traffic_total:
  assumes "fair_inv m" "is_initialized m" "stats_of m t = Some st"
  shows "\<exists>m'. run_traffic kmalloc t xs m = Inr m' \<and> fair_inv m' \<and> is_initialized m' \<and>
    stats_of m' = (stats_of m)(t \<mapsto>
      st\<lparr>total_bytes_sent := total_bytes_sent st + ucast (sum_list (map fst xs)),
         total_bytes_received := total_bytes_received st + ucast (sum_list (map snd xs))\<rparr>)"
  using assms
proof (induction xs arbitrary: m st)
  case Nil
  then show ?case by (auto simp: fun_upd_idem)
next
  case (Cons x xs)
  let ?st = "st\<lparr>total_bytes_sent := total_bytes_sent st + ucast (fst x),
                total_bytes_received := total_bytes_received st + ucast (snd x)\<rparr>"
  from traffic_tracked [OF Cons.prems] obtain m1 where m1:
    "update_socket_traffic kmalloc t (fst x) (snd x) m = Inr m1" "fair_inv m1" "is_initialized m1"
    "stats_of m1 = (stats_of m)(t \<mapsto> ?st)" .
  then have "stats_of m1 t = Some ?st" by simp
  from Cons.IH [OF m1(2,3) this] obtain m' where "run_traffic kmalloc t xs m1 = Inr m'" "fair_inv m'" "is_initialized m'"
    "stats_of m' = (stats_of m1)(t \<mapsto>
      ?st\<lparr>total_bytes_sent := total_bytes_sent ?st + ucast (sum_list (map fst xs)),
          total_bytes_received := total_bytes_received ?st + ucast (sum_list (map snd xs))\<rparr>)" by blast
  then show ?case using m1 by (auto simp: add.assoc ucast_add_64_32)
qed

subsection \<open>Closing sockets on untracked threads\<close>

primrec close_all :: "stats_alloc \<Rightarrow> s32 list \<Rightarrow> socket_fairness_manager \<Rightarrow> socket_fairness_manager kres" where
  "close_all kmalloc [] m = Inr m"
| "close_all kmalloc (t # ts) m = kbind (unregister_socket_for_thread kmalloc t m) (close_all kmalloc ts)"

lemma close_all_untracked:
  assumes "fair_inv m" "is_initialized m" "\<forall>t \<in> set ts. stats_of m t = None"
    and "unat (max_pending_per_thread m) = length ts" "length ts < 2 ^ 31"
  shows "close_all kmalloc ts m = Inr (m\<lparr>max_pending_per_thread := 0\<rparr>)"
  using assms
proof (induction ts arbitrary: m)
  case Nil
  then have "max_pending_per_thread m = 0" by (simp add: unat_eq_0)
  then show ?case by simp
next
  case (Cons t ts)
  let ?p = "max_pending_per_thread m"
  let ?m = "m\<lparr>max_pending_per_thread := ?p - 1\<rparr>"
  have "sint ?p = int (length (t # ts))"
    using Cons.prems(4,5) by (simp add: sint_uint uint_nat signed_take_bit_int_eq_self)
  then have pos: "0 <s ?p" by (simp add: word_sless_alt)
  have "?p \<noteq> 0" using Cons.prems(4) by auto
  then have "unat (?p - 1) = length ts" using Cons.prems(4) by (simp add: unat_minus_one)
  moreover have "stats_of ?m = stats_of m" by (simp add: stats_of_def fun_eq_iff)
  moreover have "fair_inv ?m" using Cons.prems(1) by (simp add: fair_inv_def)
  ultimately have "close_all kmalloc ts ?m = Inr (?m\<lparr>max_pending_per_thread := 0\<rparr>)"
    using Cons.prems by (intro Cons.IH) auto
  then show ?case using unregister_untracked [of m t] Cons.prems pos by simp
qed

lemma pending_zero_refuses:
  assumes "fair_inv m" "is_initialized m" "fairness_enabled m" "max_pending_per_thread m = 0"
    and "alloc_fresh kmalloc" "kmalloc (stats_mem m) \<noteq> None"
  shows "\<exists>m'. check_socket_allocation_allowed kmalloc now t m = Inr (False, m')"
proof (cases "stats_of m t")
  case None
  from assms(5,6) obtain a where a: "kmalloc (stats_mem m) = Some a" "stats_mem m a = None"
    by (auto simp: alloc_fresh_def)
  have "at_limit m (new_stats t)" using assms(4) by (simp add: at_limit_def)
  with check_untracked [where kmalloc = kmalloc and now = now, OF assms(1-3) None a] show ?thesis by metis
next
  case (Some st)
  have "at_limit m st" using assms(4) by (simp add: at_limit_def)
  with check_tracked [OF assms(1-3) Some] show ?thesis by metis
qed

subsection \<open>Every operation keeps the manager well formed\<close>

definition fair_ok :: "socket_fairness_manager \<Rightarrow> bool" where
  "fair_ok m \<longleftrightarrow> fair_inv m \<and>
     (is_initialized m \<longrightarrow> max_sockets_per_thread m = 10 \<and> unat (max_pending_per_thread m) \<le> 5)"

lemma fair_ok_init: "fair_ok m \<Longrightarrow> fair_ok (socket_fairness_init m)"
  using socket_fairness_init_inv [of m] by (auto simp: fair_ok_def socket_fairness_init_def)

text \<open>What a call of \<^verbatim>\<open>get_thread_socket_stats\<close> yields.\<close>

lemma get_stats_ok:
  assumes "fair_ok m" "alloc_fresh kmalloc"
  obtains p m' where "get_thread_socket_stats kmalloc t c m = Inr (p, m')" "fair_ok m'" "is_initialized m'"
    "p = NULL \<Longrightarrow> c" "p = Head \<Longrightarrow> \<not> c" "\<And>a. p = Node a \<Longrightarrow> \<exists>st. stats_mem m' a = Some st"
proof -
  let ?m = "socket_fairness_init m"
  have ok: "fair_ok ?m" by (rule fair_ok_init [OF assms(1)])
  then have inv: "fair_inv ?m" "is_initialized ?m" by (simp_all add: fair_ok_def init_initialized)
  note eq = get_stats_init [of kmalloc t c m]
  show thesis
  proof (cases "stats_of ?m t")
    case (Some st)
    from get_stats_tracked [OF inv Some, of kmalloc c] obtain a where
      "get_thread_socket_stats kmalloc t c ?m = Inr (Node a, ?m)" "stats_mem ?m a = Some st" .
    with that [of "Node a" ?m] eq ok inv show thesis by simp
  next
    case None
    show thesis
    proof (cases c)
      case False
      with that [of Head ?m] get_stats_untracked [OF inv None] eq ok inv show thesis by simp
    next
      case True
      show thesis
      proof (cases "kmalloc (stats_mem ?m)")
        case no_mem: None
        with that [of NULL ?m] get_stats_create [OF inv None, of kmalloc] eq ok inv True show thesis by simp
      next
        case (Some a)
        with assms(2) have a: "stats_mem ?m a = None" by (auto simp: alloc_fresh_def)
        have "fair_ok (add_stats a t ?m)"
          using ok inv add_stats(1) [OF inv a None] by (simp add: fair_ok_def add_stats_def)
        with that [of "Node a" "add_stats a t ?m"] get_stats_create [OF inv None, of kmalloc] eq True Some inv
        show thesis by (simp add: add_stats_def)
      qed
    qed
  qed
qed

lemma fair_ok_upd:
  "fair_ok m \<Longrightarrow> stats_mem m a = Some st \<Longrightarrow> tid st' = tid st \<Longrightarrow>
   fair_ok (m\<lparr>stats_mem := (stats_mem m)(a \<mapsto> st')\<rparr>)"
  using fair_inv_upd [of m a st st'] by (simp add: fair_ok_def)

datatype fair_op =
    Register s32
  | Unregister s32
  | CheckAllowed u64 s32
  | Throttle s32
  | Traffic s32 u64 u64

fun fair_exec :: "stats_alloc \<Rightarrow> fair_op \<Rightarrow> socket_fairness_manager \<Rightarrow> socket_fairness_manager kres" where
  "fair_exec kmalloc (Register t) m = register_socket_for_thread kmalloc t m"
| "fair_exec kmalloc (Unregister t) m = unregister_socket_for_thread kmalloc t m"
| "fair_exec kmalloc (CheckAllowed now t) m =
     kbind (check_socket_allocation_allowed kmalloc now t m) (\<lambda>(r, m). Inr m)"
| "fair_exec kmalloc (Throttle t) m = kbind (should_throttle_transmission kmalloc t m) (\<lambda>(r, m). Inr m)"
| "fair_exec kmalloc (Traffic t s r) m = update_socket_traffic kmalloc t s r m"

primrec fair_run :: "stats_alloc \<Rightarrow> fair_op list \<Rightarrow> socket_fairness_manager \<Rightarrow> socket_fairness_manager kres" where
  "fair_run kmalloc [] m = Inr m"
| "fair_run kmalloc (x # xs) m = kbind (fair_exec kmalloc x m) (fair_run kmalloc xs)"

lemma create_ops_ok:
  assumes "fair_ok m" "alloc_fresh kmalloc"
  shows "\<exists>m'. register_socket_for_thread kmalloc t m = Inr m' \<and> fair_ok m'"
    and "\<exists>m'. update_socket_traffic kmalloc t x y m = Inr m' \<and> fair_ok m'"
    and "\<exists>r m'. check_socket_allocation_allowed kmalloc now t m = Inr (r, m') \<and> fair_ok m'"
proof -
  obtain p m' where g: "get_thread_socket_stats kmalloc t True m = Inr (p, m')" and ok: "fair_ok m'"
    and p: "p \<noteq> Head" and node: "\<And>a. p = Node a \<Longrightarrow> \<exists>st. stats_mem m' a = Some st"
    using get_stats_ok [OF assms, of t True] by metis
  show "\<exists>m'. register_socket_for_thread kmalloc t m = Inr m' \<and> fair_ok m'"
    using g ok p node
    by (cases p) (auto simp: register_socket_for_thread_def read_active_def write_active_def intro!: fair_ok_upd)
  show "\<exists>m'. update_socket_traffic kmalloc t x y m = Inr m' \<and> fair_ok m'"
    using g ok p node
    by (cases p) (auto simp: update_socket_traffic_def upd_stats_def intro!: fair_ok_upd)
  show "\<exists>r m'. check_socket_allocation_allowed kmalloc now t m = Inr (r, m') \<and> fair_ok m'"
  proof (cases "fairness_enabled m")
    case False
    then show ?thesis using assms(1) by (auto simp: check_socket_allocation_allowed_def)
  next
    case True
    show ?thesis
    proof (cases p)
      case (Node a)
      from node [OF Node] obtain st where "stats_mem m' a = Some st" ..
      with check_node [OF True g [unfolded Node] this, of now] fair_ok_upd [OF ok this, of "throttled now st"] ok
      show ?thesis by (auto simp: throttled_def)
    qed (use True g ok p in \<open>auto simp: check_socket_allocation_allowed_def\<close>)
  qed
qed

lemma lookup_ops_ok:
  assumes "fair_ok m" "alloc_fresh kmalloc"
  shows "\<exists>m'. unregister_socket_for_thread kmalloc t m = Inr m' \<and> fair_ok m'"
    and "\<exists>r m'. should_throttle_transmission kmalloc t m = Inr (r, m') \<and> fair_ok m'"
proof -
  obtain p m' where g: "get_thread_socket_stats kmalloc t False m = Inr (p, m')" and ok: "fair_ok m'"
    and ini: "is_initialized m'" and p: "p \<noteq> NULL" and node: "\<And>a. p = Node a \<Longrightarrow> \<exists>st. stats_mem m' a = Some st"
    using get_stats_ok [OF assms, of t False] by metis
  have lim: "max_sockets_per_thread m' = 10" "unat (max_pending_per_thread m') \<le> 5"
    using ok ini by (simp_all add: fair_ok_def)
  have dec: "unat (max_pending_per_thread m' - 1) \<le> 5" if "max_pending_per_thread m' \<noteq> 0"
    using that lim(2) by (simp add: unat_minus_one)
  show "\<exists>m'. unregister_socket_for_thread kmalloc t m = Inr m' \<and> fair_ok m'"
  proof (cases p)
    case Head
    have "0 <s max_pending_per_thread m' \<Longrightarrow> max_pending_per_thread m' \<noteq> 0" by auto
    with Head g ok ini lim dec show ?thesis
      by (auto simp: unregister_socket_for_thread_def read_active_def write_active_def fair_ok_def fair_inv_def)
  qed (use g ok p node in \<open>auto simp: unregister_socket_for_thread_def read_active_def write_active_def intro!: fair_ok_upd\<close>)
  have nlt: "\<not> 10 < max_pending_per_thread m'" using lim(2) by (simp add: word_less_nat_alt)
  show "\<exists>r m'. should_throttle_transmission kmalloc t m = Inr (r, m') \<and> fair_ok m'"
    using g ok p node lim nlt assms(1)
    by (cases "fairness_enabled m"; cases p)
      (auto simp: should_throttle_transmission_def read_active_def upd_stats_def intro!: fair_ok_upd)
qed

lemma fair_exec_ok:
  assumes "fair_ok m" "alloc_fresh kmalloc"
  shows "\<exists>m'. fair_exec kmalloc x m = Inr m' \<and> fair_ok m'"
proof (cases x)
  case (CheckAllowed now t)
  with create_ops_ok(3) [OF assms, of now t] show ?thesis by auto
next
  case (Throttle t)
  with lookup_ops_ok(2) [OF assms, of t] show ?thesis by auto
qed (use create_ops_ok [OF assms] lookup_ops_ok [OF assms] in simp_all)

lemma fair_run_ok:
  "fair_ok m \<Longrightarrow> alloc_fresh kmalloc \<Longrightarrow> \<exists>m'. fair_run kmalloc xs m = Inr m' \<and> fair_ok m'"
proof (induction xs arbitrary: m)
  case (Cons x xs)
  from fair_exec_ok [OF Cons.prems, of x] obtain m1 where "fair_exec kmalloc x m = Inr m1" "fair_ok m1" by blast
  with Cons.IH [of m1] Cons.prems(2) show ?case by simp
qed simp

lemma fair_ok_bss: "fair_ok fairness_bss"
  by (simp add: fair_ok_def fair_inv_def fairness_bss_def)

lemma fairness_free_all:
  assumes "distinct as" "\<forall>a \<in> set as. stats_mem m a \<noteq> None"
  shows "\<exists>m'. fairness_free as m = Inr m' \<and> stats_mem m' = stats_mem m |` (- set as) \<and>
    (as \<noteq> [] \<longrightarrow> threads m' = [])"
  using assms
proof (induction as arbitrary: m)
  case Nil
  then show ?case by simp
next
  case (Cons a as)
  let ?m = "m\<lparr>threads := as, stats_mem := (stats_mem m)(a := None)\<rparr>"
  have "\<exists>m'. fairness_free as ?m = Inr m' \<and> stats_mem m' = stats_mem ?m |` (- set as) \<and>
      (as \<noteq> [] \<longrightarrow> threads m' = [])"
    by (rule Cons.IH) (use Cons.prems in auto)
  then obtain m' where m': "fairness_free as ?m = Inr m'" "stats_mem m' = stats_mem ?m |` (- set as)"
    "as \<noteq> [] \<longrightarrow> threads m' = []" by blast
  have "(stats_mem m)(a := None) |` (- set as) = stats_mem m |` (- set (a # as))"
    by (auto simp: restrict_map_def fun_eq_iff)
  moreover have "as = [] \<Longrightarrow> threads m' = []" using m'(1) by auto
  ultimately show ?case using m' Cons.prems(2) by (auto split: option.splits)
qed

subsection \<open>Properties\<close>

text \<open>
  C11. No operation of the accounting faults: from the zeroed manager, every sequence of register,
  unregister, allocation check, throttle check and traffic update runs to its end, with every
  listed record allocated and every allocated record listed once per thread, the socket limit at
  10 once initialised and the pending limit never above 5.
\<close>

theorem fairness_memory_safe:
  assumes "alloc_fresh kmalloc"
  shows "\<exists>m. fair_run kmalloc xs fairness_bss = Inr m \<and> fair_inv m \<and>
    (\<not> is_initialized m \<or> max_sockets_per_thread m = 10 \<and> unat (max_pending_per_thread m) \<le> 5)"
  using fair_run_ok [OF fair_ok_bss assms, of xs] by (auto simp: fair_ok_def)

text \<open>
  C10. Exact accounting: for threads that are tracked, any sequence of socket openings and closings
  in which no thread closes more than it has open leaves each thread's \<^verbatim>\<open>active_sockets\<close> at its
  old value plus its openings minus its closings, and touches no other thread's count.
\<close>

theorem open_close_accounting:
  assumes "fair_inv m" "is_initialized m" "fair.legal (active_count m) es"
  shows "\<exists>m'. fair.run_sockets kmalloc es m = Inr m' \<and> fair_inv m' \<and>
    (\<forall>t. active_count m' t = map_option (\<lambda>n. n + fair.opened t es) (active_count m t))"
  using fair.run_sockets_count [of m es kmalloc] assms by (auto simp: fair_ready_def)

text \<open>
  The allocation check refuses a tracked thread exactly when its open sockets have reached
  \<^verbatim>\<open>max_sockets_per_thread\<close> or its pending requests \<^verbatim>\<open>max_pending_per_thread\<close>, compared as
  unsigned; a refusal increments the thread's \<^verbatim>\<open>throttled_count\<close> and stamps the time, and no
  other record changes.
\<close>

lemma allocation_check:
  assumes "fair_inv m" "is_initialized m" "fairness_enabled m" "stats_of m t = Some st"
  shows "\<exists>m'. check_socket_allocation_allowed kmalloc now t m = Inr (\<not> at_limit m st, m') \<and> fair_inv m' \<and>
    stats_of m' = (if at_limit m st then (stats_of m)(t \<mapsto> throttled now st) else stats_of m)"
  using check_tracked [OF assms] by metis

text \<open>
  C12. Closing sockets on threads the manager does not track overwrites the manager's own limit:
  after as many such closings as \<^verbatim>\<open>max_pending_per_thread\<close>, that limit is 0 and every thread,
  tracked or not, is refused from then on.
\<close>

theorem untracked_closes_block_all:
  assumes "fair_inv m" "is_initialized m" "fairness_enabled m" "alloc_fresh kmalloc"
    and "kmalloc (stats_mem m) \<noteq> None" "\<forall>t \<in> set ts. stats_of m t = None"
    and "unat (max_pending_per_thread m) = length ts" "length ts < 2 ^ 31"
  shows "\<exists>m'. close_all kmalloc ts m = Inr m' \<and> max_pending_per_thread m' = 0 \<and>
    (\<forall>t now. \<exists>m''. check_socket_allocation_allowed kmalloc now t m' = Inr (False, m''))"
proof -
  let ?m = "m\<lparr>max_pending_per_thread := 0\<rparr>"
  have "fair_inv ?m" using assms(1) by (simp add: fair_inv_def)
  then have "\<exists>m''. check_socket_allocation_allowed kmalloc now t ?m = Inr (False, m'')" for t now
    using assms by (intro pending_zero_refuses) auto
  with close_all_untracked [OF assms(1,2,6,7,8), of kmalloc] show ?thesis by auto
qed

text \<open>
  The byte counters of a tracked thread that starts at zero hold the true totals modulo
  \<open>2 ^ 32\<close> after any sequence of transfers.
\<close>

lemma traffic_totals:
  assumes "fair_inv m" "is_initialized m" "stats_of m t = Some (new_stats t)"
  shows "\<exists>m' st. run_traffic kmalloc t xs m = Inr m' \<and> stats_of m' t = Some st \<and>
    unat (total_bytes_sent st) = sum_list (map (\<lambda>x. unat (fst x)) xs) mod 2 ^ 32 \<and>
    unat (total_bytes_received st) = sum_list (map (\<lambda>x. unat (snd x)) xs) mod 2 ^ 32"
  using run_traffic_total [OF assms, of kmalloc xs] unat_ucast_sum_list [of "map fst xs"]
    unat_ucast_sum_list [of "map snd xs"]
  by (auto simp: new_stats_def comp_def)

text \<open>
  Unloading the module frees every record of a well-formed manager, each exactly once.
\<close>

lemma module_exit_frees_all:
  assumes "fair_inv m"
  shows "\<exists>m'. socket_fairness_module_exit m = Inr m' \<and> stats_mem m' = Map.empty \<and> threads m' = []"
proof -
  have d: "distinct (threads m)" and l: "\<forall>a \<in> set (threads m). stats_mem m a \<noteq> None"
    and o: "\<And>a. a \<notin> set (threads m) \<Longrightarrow> stats_mem m a = None"
    using assms by (auto simp: fair_inv_def distinct_map)
  from fairness_free_all [OF d l] obtain m' where m': "fairness_free (threads m) m = Inr m'"
    "stats_mem m' = stats_mem m |` (- set (threads m))" "threads m \<noteq> [] \<longrightarrow> threads m' = []" by blast
  have "threads m = [] \<Longrightarrow> threads m' = []" using m'(1) by auto
  moreover have "stats_mem m |` (- set (threads m)) = Map.empty"
    using o by (auto simp: restrict_map_def fun_eq_iff)
  ultimately show ?thesis using m' by (auto simp: socket_fairness_module_exit_def socket_fairness_exit_def)
qed

subsection \<open>Instances\<close>

definition stats_alloc7 :: stats_alloc where
  "stats_alloc7 h = (if h 7 = None then Some 7 else if h 8 = None then Some 8 else None)"

definition fair_two :: socket_fairness_manager where
  "fair_two = add_stats 7 100 (socket_fairness_init fairness_bss)"

lemma stats_alloc7_fresh: "alloc_fresh stats_alloc7"
  by (auto simp: alloc_fresh_def stats_alloc7_def split: if_splits)

lemma fair_two:
  "fair_inv fair_two" "is_initialized fair_two" "fairness_enabled fair_two"
  "stats_of fair_two 100 = Some (new_stats 100)" "stats_of fair_two 1 = None"
  "stats_alloc7 (stats_mem fair_two) \<noteq> None" "max_pending_per_thread fair_two = 5"
  by (auto simp: fair_two_def add_stats_def socket_fairness_init_def fairness_bss_def fair_inv_def
      stats_of_def node_of_def new_stats_def stats_alloc7_def)

lemma fairness_memory_safe_witness:
  "\<exists>m. fair_run stats_alloc7 [Register 3, Throttle 4, Unregister 4, CheckAllowed 9 3] fairness_bss = Inr m \<and> fair_inv m"
  using fairness_memory_safe [OF stats_alloc7_fresh, of "[Register 3, Throttle 4, Unregister 4, CheckAllowed 9 3]"] by blast

lemma open_close_accounting_witness:
  "\<exists>m'. fair.run_sockets stats_alloc7 [(True, 100), (True, 100), (False, 100)] fair_two = Inr m' \<and>
     active_count m' 100 = Some 1"
proof -
  have c: "active_count fair_two 100 = Some 0" using fair_two(4) by (simp add: active_count_def new_stats_def)
  have none: "active_count fair_two t = Some n \<Longrightarrow> t = 100 \<and> n = 0" for t n
    by (auto simp: active_count_def fair_two_def add_stats_def socket_fairness_init_def fairness_bss_def
        stats_of_def node_of_def new_stats_def split: if_splits)
  have "fair.legal (active_count fair_two) [(True, 100), (True, 100), (False, 100)]"
    unfolding fair.legal_def
  proof (intro conjI allI impI)
    fix i t n
    assume i: "i \<le> length [(True, 100 :: s32), (True, 100), (False, 100)]" and n: "active_count fair_two t = Some n"
    from i have "i = 0 \<or> i = 1 \<or> i = 2 \<or> i = 3" by auto
    with none [OF n] show "0 \<le> n + fair.opened t (take i [(True, 100), (True, 100), (False, 100)])"
      and "n + fair.opened t (take i [(True, 100), (True, 100), (False, 100)]) < 2 ^ 31"
      by (auto simp: take_Cons')
  qed (use c in auto)
  from open_close_accounting [OF fair_two(1,2) this, of stats_alloc7] c show ?thesis by auto
qed

lemma allocation_check_witness:
  "\<exists>m'. check_socket_allocation_allowed stats_alloc7 55 100 fair_two = Inr (True, m')"
proof -
  have "\<not> at_limit fair_two (new_stats 100)"
    by (simp add: at_limit_def new_stats_def fair_two_def add_stats_def socket_fairness_init_def fairness_bss_def)
  with allocation_check [OF fair_two(1-4), of stats_alloc7 55] show ?thesis by auto
qed

lemma untracked_closes_block_all_witness:
  "\<exists>m' m''. close_all stats_alloc7 [1, 1, 1, 1, 1] fair_two = Inr m' \<and>
     check_socket_allocation_allowed stats_alloc7 0 100 m' = Inr (False, m'')"
  using untracked_closes_block_all [OF fair_two(1-3) stats_alloc7_fresh fair_two(6), of "[1, 1, 1, 1, 1]"]
    fair_two(5,7) by auto

lemma traffic_totals_witness:
  "\<exists>m' st. run_traffic stats_alloc7 100 [(4294967295, 2), (3, 5)] fair_two = Inr m' \<and> stats_of m' 100 = Some st \<and>
     unat (total_bytes_sent st) = 2 \<and> unat (total_bytes_received st) = 7"
  using traffic_totals [OF fair_two(1,2,4), of stats_alloc7 "[(4294967295, 2), (3, 5)]"] by simp

lemma module_exit_frees_all_witness:
  "\<exists>m'. socket_fairness_module_exit fair_two = Inr m' \<and> stats_mem m' = Map.empty"
  using module_exit_frees_all [OF fair_two(1)] by blast

end
