(* ===== verification/Net_Socket.thy ===== *)
theory Net_Socket
  imports Socket_Fairness
begin

text \<open>
  The socket layer, \<^verbatim>\<open>net/socket.c\<close>: allocation, creation, release and binding to files and
  descriptors, socketpair, accept, and the transfer paths that call the fairness manager.

  The state has the live sockfs inodes with the socket each embeds, the open files, the
  descriptor table of the process, the reference counts of the protocol modules, the fairness
  manager and the milliseconds slept. What the layer calls but does not contain is a field of
  \<^verbatim>\<open>net_env\<close>: the security hooks, the protocol families and their \<^verbatim>\<open>proto_ops\<close>, the inode, file
  and descriptor allocators. Leading underscores of C names are written \<^verbatim>\<open>u_\<close>.
\<close>

named_theorems net_simps \<open>unfolding rules for steps on the socket state\<close>

subsection \<open>Data\<close>

datatype socket_state = SS_FREE | SS_UNCONNECTED | SS_CONNECTING | SS_CONNECTED | SS_DISCONNECTING

record sock =
  sk_priority :: u32
  sk_uid :: u32

text \<open>\<^verbatim>\<open>ops\<close> is the owner module of the socket's \<^verbatim>\<open>proto_ops\<close>.\<close>

record socket =
  sock_state :: socket_state
  sock_type :: s32
  ops :: "nat option"
  sk :: "sock option"
  sock_file :: "addr option"
  fasync_list :: "nat list"
  wq_nospace :: bool
  wq_waitdata :: bool

record kfile =
  f_op_socket :: bool
  private_data :: addr
  f_flags :: u32

datatype fd_slot = Reserved | Installed addr

record net_state =
  socks :: "addr \<Rightarrow> socket option"
  files :: "addr \<Rightarrow> kfile option"
  fds :: "int \<Rightarrow> fd_slot option"
  mods :: "nat \<Rightarrow> int"
  mgr :: socket_fairness_manager
  slept :: nat

record msghdr =
  msg_name :: "addr option"
  msg_namelen :: int
  msg_left :: u64
  msg_flags :: u32

type_synonym 'a net = "net_state \<Rightarrow> ('a \<times> net_state) kres"

record net_env =
  kmalloc_stats :: stats_alloc
  jiffies_now :: u64
  new_inode_pseudo :: "(addr \<Rightarrow> socket option) \<Rightarrow> addr option"
  alloc_file_pseudo :: "(addr \<Rightarrow> kfile option) \<Rightarrow> int + addr"
  get_unused_fd_flags :: "(int \<Rightarrow> fd_slot option) \<Rightarrow> int"
  try_module_get :: "nat \<Rightarrow> (nat \<Rightarrow> int) \<Rightarrow> bool"
  net_families :: "int \<Rightarrow> nat option"
  pf_create :: "int \<Rightarrow> addr \<Rightarrow> s32 \<Rightarrow> bool \<Rightarrow> int \<times> nat option \<times> sock option"
  security_socket_create :: "int \<Rightarrow> int \<Rightarrow> s32 \<Rightarrow> bool \<Rightarrow> int"
  security_socket_post_create :: "addr \<Rightarrow> int"
  security_socket_socketpair :: "addr \<Rightarrow> addr \<Rightarrow> int"
  ops_socketpair :: "addr \<Rightarrow> addr \<Rightarrow> int"
  security_socket_accept :: "addr \<Rightarrow> addr \<Rightarrow> int"
  ops_accept :: "addr \<Rightarrow> addr \<Rightarrow> u32 \<Rightarrow> int \<times> sock option"
  ops_getname :: "addr \<Rightarrow> int \<Rightarrow> int \<times> u8 list"
  audit_sockaddr :: "int \<Rightarrow> int"
  security_socket_sendmsg :: "addr \<Rightarrow> msghdr \<Rightarrow> int"
  ops_sendmsg :: "addr \<Rightarrow> msghdr \<Rightarrow> int \<times> msghdr"
  security_socket_recvmsg :: "addr \<Rightarrow> msghdr \<Rightarrow> u32 \<Rightarrow> int"
  ops_recvmsg :: "addr \<Rightarrow> msghdr \<Rightarrow> u32 \<Rightarrow> int \<times> msghdr"

text \<open>Sequencing of state-changing steps that may fault.\<close>

definition nret :: "'a \<Rightarrow> 'a net" where
  "nret x s = Inr (x, s)"

definition nbind :: "'a net \<Rightarrow> ('a \<Rightarrow> 'b net) \<Rightarrow> 'b net" where
  "nbind f g s = kbind (f s) (\<lambda>(x, s'). g x s')"

definition nfault :: "fault \<Rightarrow> 'a net" where
  "nfault e s = Inl e"

definition nmod :: "(net_state \<Rightarrow> net_state) \<Rightarrow> unit net" where
  "nmod f s = Inr ((), f s)"

definition get_sock :: "addr \<Rightarrow> socket net" where
  "get_sock a s = (case socks s a of None \<Rightarrow> Inl (UseAfterFree a) | Some k \<Rightarrow> Inr (k, s))"

definition set_sock :: "addr \<Rightarrow> socket \<Rightarrow> unit net" where
  "set_sock a k s = Inr ((), s\<lparr>socks := (socks s)(a \<mapsto> k)\<rparr>)"

text \<open>Calls into the fairness manager, with and without a result.\<close>

definition on_mgr :: "(socket_fairness_manager \<Rightarrow> ('a \<times> socket_fairness_manager) kres) \<Rightarrow> 'a net" where
  "on_mgr f s = kbind (f (mgr s)) (\<lambda>(x, m). Inr (x, s\<lparr>mgr := m\<rparr>))"

definition on_mgr0 :: "(socket_fairness_manager \<Rightarrow> socket_fairness_manager kres) \<Rightarrow> unit net" where
  "on_mgr0 f s = kbind (f (mgr s)) (\<lambda>m. Inr ((), s\<lparr>mgr := m\<rparr>))"

definition module_get :: "nat \<Rightarrow> unit net" where
  "module_get o' = nmod (\<lambda>s. s\<lparr>mods := (mods s)(o' := mods s o' + 1)\<rparr>)"

definition module_put :: "nat \<Rightarrow> unit net" where
  "module_put o' = nmod (\<lambda>s. s\<lparr>mods := (mods s)(o' := mods s o' - 1)\<rparr>)"

subsection \<open>Allocation and release\<close>

definition sock_alloc_inode :: socket where
  "sock_alloc_inode = \<lparr>sock_state = SS_UNCONNECTED, sock_type = 0, ops = None, sk = None,
     sock_file = None, fasync_list = [], wq_nospace = False, wq_waitdata = False\<rparr>"

definition sock_alloc :: "net_env \<Rightarrow> addr option net" where
  "sock_alloc E s =
     (case new_inode_pseudo E (socks s) of
        None \<Rightarrow> Inr (None, s)
      | Some a \<Rightarrow> Inr (Some a, s\<lparr>socks := (socks s)(a \<mapsto> sock_alloc_inode)\<rparr>))"

definition iput_sock :: "addr \<Rightarrow> unit net" where
  "iput_sock a = nmod (\<lambda>s. s\<lparr>socks := (socks s)(a := None)\<rparr>)"

definition u_sock_release :: "net_env \<Rightarrow> s32 \<Rightarrow> addr \<Rightarrow> unit net" where
  "u_sock_release E pid a =
     nbind (nbind (get_sock a) (\<lambda>k.
       case ops k of
         None \<Rightarrow> nret ()
       | Some owner \<Rightarrow> nbind (set_sock a (k\<lparr>sk := None, ops := None\<rparr>)) (\<lambda>_. module_put owner))) (\<lambda>_.
     nbind (get_sock a) (\<lambda>k.
       if sock_file k = None then iput_sock a
       else nbind (set_sock a (k\<lparr>sock_file := None\<rparr>)) (\<lambda>_.
            on_mgr0 (unregister_socket_for_thread (kmalloc_stats E) pid))))"

definition sock_release :: "net_env \<Rightarrow> s32 \<Rightarrow> addr \<Rightarrow> unit net" where
  "sock_release E pid a = u_sock_release E pid a"

definition sock_close :: "net_env \<Rightarrow> s32 \<Rightarrow> addr \<Rightarrow> int net" where
  "sock_close E pid a = nbind (u_sock_release E pid a) (\<lambda>_. nret 0)"

text \<open>
  Dropping the last reference of a file: the VFS calls the file's \<^verbatim>\<open>release\<close> operation, which is
  \<^verbatim>\<open>sock_close\<close> for a socket file, then frees the inode and the file.
\<close>

definition fput_last :: "net_env \<Rightarrow> s32 \<Rightarrow> addr \<Rightarrow> unit net" where
  "fput_last E pid f s =
     (case files s f of
        None \<Rightarrow> Inl (UseAfterFree f)
      | Some fl \<Rightarrow>
          if f_op_socket fl then
            nbind (sock_close E pid (private_data fl)) (\<lambda>_.
            nbind (iput_sock (private_data fl)) (\<lambda>_.
            nmod (\<lambda>s. s\<lparr>files := (files s)(f := None)\<rparr>))) s
          else Inr ((), s\<lparr>files := (files s)(f := None)\<rparr>))"

subsection \<open>Creation\<close>

definition NPROTO :: int where "NPROTO = 46"
definition SOCK_MAX :: int where "SOCK_MAX = 11"
definition PF_INET :: int where "PF_INET = 2"
definition PF_PACKET :: int where "PF_PACKET = 17"
definition SOCK_PACKET :: int where "SOCK_PACKET = 10"

text \<open>The \<^verbatim>\<open>goto\<close> targets of \<^verbatim>\<open>__sock_create\<close>.\<close>

definition out_sock_release :: "net_env \<Rightarrow> s32 \<Rightarrow> addr \<Rightarrow> int \<Rightarrow> (int + addr) net" where
  "out_sock_release E pid a err = nbind (sock_release E pid a) (\<lambda>_. nret (Inl err))"

definition out_module_put :: "net_env \<Rightarrow> s32 \<Rightarrow> addr \<Rightarrow> nat \<Rightarrow> int \<Rightarrow> (int + addr) net" where
  "out_module_put E pid a pf err =
     nbind (get_sock a) (\<lambda>k.
     nbind (set_sock a (k\<lparr>ops := None\<rparr>)) (\<lambda>_.
     nbind (module_put pf) (\<lambda>_. out_sock_release E pid a err)))"

definition sock_create_family :: "net_env \<Rightarrow> s32 \<Rightarrow> addr \<Rightarrow> int \<Rightarrow> s32 \<Rightarrow> bool \<Rightarrow> nat \<Rightarrow> (int + addr) net" where
  "sock_create_family E pid a family protocol kern pf =
     nbind (module_get pf) (\<lambda>_.
     nbind (get_sock a) (\<lambda>k.
     let (err, new_ops, new_sk) = pf_create E family a protocol kern in
     nbind (set_sock a (k\<lparr>ops := new_ops, sk := new_sk\<rparr>)) (\<lambda>_.
     if err < 0 then
       nbind (set_sock a (k\<lparr>ops := new_ops, sk := None\<rparr>)) (\<lambda>_. out_module_put E pid a pf err)
     else case new_ops of
       None \<Rightarrow> nfault NullDereference
     | Some owner \<Rightarrow> (\<lambda>s.
         if \<not> try_module_get E owner (mods s) then out_module_put E pid a pf (- EAFNOSUPPORT) s
         else nbind (module_get owner) (\<lambda>_.
              nbind (module_put pf) (\<lambda>_.
              let err = security_socket_post_create E a in
              if err \<noteq> 0 then out_sock_release E pid a err else nret (Inr a))) s))))"

text \<open>The obsolete pair (PF_INET, SOCK_PACKET) means the packet family.\<close>

definition create_family :: "int \<Rightarrow> int \<Rightarrow> int" where
  "create_family family type = (if family = PF_INET \<and> type = SOCK_PACKET then PF_PACKET else family)"

definition u_sock_create :: "net_env \<Rightarrow> s32 \<Rightarrow> int \<Rightarrow> int \<Rightarrow> s32 \<Rightarrow> bool \<Rightarrow> (int + addr) net" where
  "u_sock_create E pid family type protocol kern =
     (if family < 0 \<or> NPROTO \<le> family then nret (Inl (- EAFNOSUPPORT))
      else if type < 0 \<or> SOCK_MAX \<le> type then nret (Inl (- EINVAL))
      else
        let family = create_family family type;
            err = security_socket_create E family type protocol kern in
        if err \<noteq> 0 then nret (Inl err)
        else nbind (sock_alloc E) (\<lambda>sock.
          case sock of
            None \<Rightarrow> nret (Inl (- ENFILE))
          | Some a \<Rightarrow>
              nbind (get_sock a) (\<lambda>k.
              nbind (set_sock a (k\<lparr>sock_type := word_of_int type\<rparr>)) (\<lambda>_.
              nbind (on_mgr0 (register_socket_for_thread (kmalloc_stats E) pid)) (\<lambda>_.
              (\<lambda>s. case net_families E family of
                 None \<Rightarrow> out_sock_release E pid a (- EAFNOSUPPORT) s
               | Some pf \<Rightarrow>
                   if \<not> try_module_get E pf (mods s) then out_sock_release E pid a (- EAFNOSUPPORT) s
                   else sock_create_family E pid a family protocol kern pf s))))))"

definition sock_create :: "net_env \<Rightarrow> s32 \<Rightarrow> int \<Rightarrow> int \<Rightarrow> s32 \<Rightarrow> (int + addr) net" where
  "sock_create E pid family type protocol = u_sock_create E pid family type protocol False"

definition sock_create_kern :: "net_env \<Rightarrow> s32 \<Rightarrow> int \<Rightarrow> int \<Rightarrow> s32 \<Rightarrow> (int + addr) net" where
  "sock_create_kern E pid family type protocol = u_sock_create E pid family type protocol True"

text \<open>
  The callers of \<^verbatim>\<open>sock_create\<close> test its result for a negative value; on any other failure value
  they would go on with a socket pointer that was never set.
\<close>

definition create_failed :: "int \<Rightarrow> 'a net \<Rightarrow> 'a net" where
  "create_failed err k = (if err < 0 then k else nfault NullDereference)"

subsection \<open>Files and descriptors\<close>

definition O_NONBLOCK :: u32 where "O_NONBLOCK = 0x800"
definition O_CLOEXEC :: u32 where "O_CLOEXEC = 0x80000"
definition O_RDWR :: u32 where "O_RDWR = 2"
definition SOCK_TYPE_MASK :: u32 where "SOCK_TYPE_MASK = 0xf"

definition sock_alloc_file :: "net_env \<Rightarrow> s32 \<Rightarrow> addr \<Rightarrow> u32 \<Rightarrow> (int + addr) net" where
  "sock_alloc_file E pid a flags s =
     (case alloc_file_pseudo E (files s) of
        Inl err \<Rightarrow> nbind (sock_release E pid a) (\<lambda>_. nret (Inl err)) s
      | Inr f \<Rightarrow>
          nbind (get_sock a) (\<lambda>k.
          nbind (set_sock a (k\<lparr>sock_file := Some f\<rparr>)) (\<lambda>_.
          nbind (nmod (\<lambda>s. s\<lparr>files := (files s)(f \<mapsto>
              \<lparr>f_op_socket = True, private_data = a, f_flags = O_RDWR OR (flags AND O_NONBLOCK)\<rparr>)\<rparr>)) (\<lambda>_.
          nret (Inr f)))) s)"

definition put_unused_fd :: "int \<Rightarrow> unit net" where
  "put_unused_fd fd = nmod (\<lambda>s. s\<lparr>fds := (fds s)(fd := None)\<rparr>)"

definition fd_install :: "int \<Rightarrow> addr \<Rightarrow> unit net" where
  "fd_install fd f = nmod (\<lambda>s. s\<lparr>fds := (fds s)(fd \<mapsto> Installed f)\<rparr>)"

text \<open>A descriptor number is reserved when the allocator returns one.\<close>

definition reserve_fd :: "net_env \<Rightarrow> int net" where
  "reserve_fd E s =
     (let fd = get_unused_fd_flags E (fds s) in
      if fd < 0 then Inr (fd, s) else Inr (fd, s\<lparr>fds := (fds s)(fd \<mapsto> Reserved)\<rparr>))"

definition sock_map_fd :: "net_env \<Rightarrow> s32 \<Rightarrow> addr \<Rightarrow> u32 \<Rightarrow> int net" where
  "sock_map_fd E pid a flags =
     nbind (reserve_fd E) (\<lambda>fd.
     if fd < 0 then nbind (sock_release E pid a) (\<lambda>_. nret fd)
     else nbind (sock_alloc_file E pid a flags) (\<lambda>newfile.
       case newfile of
         Inr f \<Rightarrow> nbind (fd_install fd f) (\<lambda>_. nret fd)
       | Inl err \<Rightarrow> nbind (put_unused_fd fd) (\<lambda>_. nret err)))"

definition u_sys_socket :: "net_env \<Rightarrow> s32 \<Rightarrow> int \<Rightarrow> u32 \<Rightarrow> s32 \<Rightarrow> int net" where
  "u_sys_socket E pid family type protocol =
     (let flags = type AND NOT SOCK_TYPE_MASK in
      if flags AND NOT (O_CLOEXEC OR O_NONBLOCK) \<noteq> 0 then nret (- EINVAL)
      else nbind (sock_create E pid family (sint (type AND SOCK_TYPE_MASK)) protocol) (\<lambda>res.
        case res of
          Inl err \<Rightarrow> create_failed err (nret err)
        | Inr a \<Rightarrow> sock_map_fd E pid a (flags AND (O_CLOEXEC OR O_NONBLOCK))))"

text \<open>Closing a descriptor that holds the last reference of its file.\<close>

definition close_fd :: "net_env \<Rightarrow> s32 \<Rightarrow> int \<Rightarrow> int net" where
  "close_fd E pid fd s =
     (case fds s fd of
        Some (Installed f) \<Rightarrow> nbind (put_unused_fd fd) (\<lambda>_. nbind (fput_last E pid f) (\<lambda>_. nret 0)) s
      | _ \<Rightarrow> Inr (- EBADF, s))"

definition sock_from_file :: "kfile \<Rightarrow> addr option" where
  "sock_from_file fl = (if f_op_socket fl then Some (private_data fl) else None)"

definition fget :: "net_state \<Rightarrow> int \<Rightarrow> kfile option" where
  "fget s fd = (case fds s fd of Some (Installed f) \<Rightarrow> files s f | _ \<Rightarrow> None)"

definition sockfd_lookup :: "net_state \<Rightarrow> int \<Rightarrow> int + addr" where
  "sockfd_lookup s fd =
     (case fget s fd of
        None \<Rightarrow> Inl (- EBADF)
      | Some fl \<Rightarrow> (case sock_from_file fl of None \<Rightarrow> Inl (- ENOTSOCK) | Some a \<Rightarrow> Inr a))"

definition sockfd_lookup_light :: "net_state \<Rightarrow> int \<Rightarrow> int + addr" where
  "sockfd_lookup_light s fd =
     (case fget s fd of
        Some fl \<Rightarrow> (case sock_from_file fl of Some a \<Rightarrow> Inr a | None \<Rightarrow> Inl (- ENOTSOCK))
      | None \<Rightarrow> Inl (- EBADF))"

subsection \<open>socketpair\<close>

text \<open>The \<^verbatim>\<open>out\<close> label, and the failures that release both sockets first.\<close>

definition socketpair_out :: "int \<Rightarrow> int \<Rightarrow> int \<Rightarrow> int net" where
  "socketpair_out fd1 fd2 err =
     nbind (put_unused_fd fd2) (\<lambda>_. nbind (put_unused_fd fd1) (\<lambda>_. nret err))"

definition socketpair_release :: "net_env \<Rightarrow> s32 \<Rightarrow> int \<Rightarrow> int \<Rightarrow> addr \<Rightarrow> addr \<Rightarrow> int \<Rightarrow> int net" where
  "socketpair_release E pid fd1 fd2 a1 a2 err =
     nbind (sock_release E pid a2) (\<lambda>_. nbind (sock_release E pid a1) (\<lambda>_. socketpair_out fd1 fd2 err))"

definition socketpair_files :: "net_env \<Rightarrow> s32 \<Rightarrow> int \<Rightarrow> int \<Rightarrow> addr \<Rightarrow> addr \<Rightarrow> u32 \<Rightarrow> int net" where
  "socketpair_files E pid fd1 fd2 a1 a2 flags =
     nbind (sock_alloc_file E pid a1 flags) (\<lambda>newfile1.
     case newfile1 of
       Inl err \<Rightarrow> nbind (sock_release E pid a2) (\<lambda>_. socketpair_out fd1 fd2 err)
     | Inr f1 \<Rightarrow>
         nbind (sock_alloc_file E pid a2 flags) (\<lambda>newfile2.
         case newfile2 of
           Inl err \<Rightarrow> nbind (fput_last E pid f1) (\<lambda>_. socketpair_out fd1 fd2 err)
         | Inr f2 \<Rightarrow> nbind (fd_install fd1 f1) (\<lambda>_. nbind (fd_install fd2 f2) (\<lambda>_. nret 0))))"

text \<open>Both descriptors are reserved and known to the user.\<close>

definition socketpair_create :: "net_env \<Rightarrow> s32 \<Rightarrow> int \<Rightarrow> int \<Rightarrow> s32 \<Rightarrow> int \<Rightarrow> int \<Rightarrow> u32 \<Rightarrow> int net" where
  "socketpair_create E pid family type protocol fd1 fd2 flags =
     nbind (sock_create E pid family type protocol) (\<lambda>res1.
        case res1 of
          Inl err \<Rightarrow> create_failed err (socketpair_out fd1 fd2 err)
        | Inr a1 \<Rightarrow> nbind (sock_create E pid family type protocol) (\<lambda>res2.
            case res2 of
              Inl err \<Rightarrow> create_failed err
                (nbind (sock_release E pid a1) (\<lambda>_. socketpair_out fd1 fd2 err))
            | Inr a2 \<Rightarrow>
                if security_socket_socketpair E a1 a2 \<noteq> 0
                then socketpair_release E pid fd1 fd2 a1 a2 (security_socket_socketpair E a1 a2)
                else if ops_socketpair E a1 a2 < 0
                then socketpair_release E pid fd1 fd2 a1 a2 (ops_socketpair E a1 a2)
                else socketpair_files E pid fd1 fd2 a1 a2 flags))"

definition u_sys_socketpair ::
    "net_env \<Rightarrow> s32 \<Rightarrow> int \<Rightarrow> u32 \<Rightarrow> s32 \<Rightarrow> (nat \<Rightarrow> int \<Rightarrow> int) \<Rightarrow> int net" where
  "u_sys_socketpair E pid family type protocol put_user =
     (let flags = type AND NOT SOCK_TYPE_MASK; type = sint (type AND SOCK_TYPE_MASK) in
      if flags AND NOT (O_CLOEXEC OR O_NONBLOCK) \<noteq> 0 then nret (- EINVAL)
      else nbind (reserve_fd E) (\<lambda>fd1.
      if fd1 < 0 then nret fd1
      else nbind (reserve_fd E) (\<lambda>fd2.
      if fd2 < 0 then nbind (put_unused_fd fd1) (\<lambda>_. nret fd2)
      else if put_user 0 fd1 \<noteq> 0 then socketpair_out fd1 fd2 (put_user 0 fd1)
      else if put_user 1 fd2 \<noteq> 0 then socketpair_out fd1 fd2 (put_user 1 fd2)
      else socketpair_create E pid family type protocol fd1 fd2 flags)))"

subsection \<open>Socket addresses across the user boundary\<close>

definition SOCKADDR_STORAGE :: int where "SOCKADDR_STORAGE = 128"

text \<open>
  User memory behind an address argument: what copying \<^verbatim>\<open>n\<close> bytes from it gives, or the failure of
  the copy. The result has the bytes the kernel buffer received.
\<close>

definition move_addr_to_kernel :: "net_env \<Rightarrow> (nat \<Rightarrow> u8 list option) \<Rightarrow> int \<Rightarrow> int \<times> u8 list" where
  "move_addr_to_kernel E copy_from_user ulen =
     (if ulen < 0 \<or> SOCKADDR_STORAGE < ulen then (- EINVAL, [])
      else if ulen = 0 then (0, [])
      else case copy_from_user (nat ulen) of
        None \<Rightarrow> (- EFAULT, [])
      | Some bs \<Rightarrow> (audit_sockaddr E ulen, bs))"

text \<open>
  The user's buffer and length field: what \<^verbatim>\<open>get_user\<close> of the length yields, whether the copy of
  the address works and what \<^verbatim>\<open>__put_user\<close> of the length returns.
\<close>

record user_name =
  un_get_len :: "int + int"
  un_copy_ok :: bool
  un_put_len :: int

text \<open>The result, the bytes written to the user's buffer and the length stored.\<close>

definition move_addr_to_user ::
    "net_env \<Rightarrow> u8 list \<Rightarrow> int \<Rightarrow> user_name \<Rightarrow> (int \<times> u8 list \<times> int option) kres" where
  "move_addr_to_user E kaddr klen u =
     (if klen < 0 \<or> SOCKADDR_STORAGE < klen then Inl BugOn
      else case un_get_len u of
        Inl err \<Rightarrow> Inr (err, [], None)
      | Inr ulen \<Rightarrow>
          let len = (if klen < ulen then klen else ulen) in
          if len < 0 then Inr (- EINVAL, [], None)
          else if len \<noteq> 0 \<and> audit_sockaddr E klen \<noteq> 0 then Inr (- ENOMEM, [], None)
          else if len \<noteq> 0 \<and> \<not> un_copy_ok u then Inr (- EFAULT, [], None)
          else Inr (un_put_len u, take (nat len) kaddr, Some klen))"

subsection \<open>accept\<close>

definition accept_out_fd :: "net_env \<Rightarrow> s32 \<Rightarrow> addr \<Rightarrow> int \<Rightarrow> (int + addr) net" where
  "accept_out_fd E pid f err = nbind (fput_last E pid f) (\<lambda>_. nret (Inl err))"

definition accept_peer_name ::
    "net_env \<Rightarrow> s32 \<Rightarrow> addr \<Rightarrow> addr \<Rightarrow> user_name option \<Rightarrow> (int + addr) net" where
  "accept_peer_name E pid newsock f upeer =
     (case upeer of
        None \<Rightarrow> nret (Inr f)
      | Some u \<Rightarrow>
          let (len, address) = ops_getname E newsock 2 in
          if len < 0 then accept_out_fd E pid f (- ECONNABORTED)
          else (case move_addr_to_user E address len u of
              Inl e \<Rightarrow> nfault e
            | Inr (err, _) \<Rightarrow> if err < 0 then accept_out_fd E pid f err else nret (Inr f)))"

definition do_accept :: "net_env \<Rightarrow> s32 \<Rightarrow> kfile \<Rightarrow> u32 \<Rightarrow> user_name option \<Rightarrow> u32 \<Rightarrow> (int + addr) net" where
  "do_accept E pid fl file_flags upeer flags =
     (case sock_from_file fl of
        None \<Rightarrow> nret (Inl (- ENOTSOCK))
      | Some sock \<Rightarrow>
          nbind (sock_alloc E) (\<lambda>res.
          case res of
            None \<Rightarrow> nret (Inl (- ENFILE))
          | Some newsock \<Rightarrow>
              nbind (get_sock sock) (\<lambda>k.
              nbind (get_sock newsock) (\<lambda>nk.
              nbind (set_sock newsock (nk\<lparr>sock_type := sock_type k, ops := ops k\<rparr>)) (\<lambda>_.
              case ops k of
                None \<Rightarrow> nfault NullDereference
              | Some owner \<Rightarrow>
                  nbind (module_get owner) (\<lambda>_.
                  if sk k = None then nfault NullDereference
                  else nbind (sock_alloc_file E pid newsock flags) (\<lambda>newfile.
                  case newfile of
                    Inl err \<Rightarrow> nret (Inl err)
                  | Inr f \<Rightarrow>
                      if security_socket_accept E sock newsock \<noteq> 0
                      then accept_out_fd E pid f (security_socket_accept E sock newsock)
                      else let (err, new_sk) = ops_accept E sock newsock (f_flags fl OR file_flags) in
                        if err < 0 then accept_out_fd E pid f err
                        else nbind (get_sock newsock) (\<lambda>nk.
                             nbind (set_sock newsock (nk\<lparr>sk := new_sk\<rparr>)) (\<lambda>_.
                             accept_peer_name E pid newsock f upeer)))))))))"

definition u_sys_accept4_file :: "net_env \<Rightarrow> s32 \<Rightarrow> kfile \<Rightarrow> u32 \<Rightarrow> user_name option \<Rightarrow> u32 \<Rightarrow> int net" where
  "u_sys_accept4_file E pid fl file_flags upeer flags =
     (if flags AND NOT (O_CLOEXEC OR O_NONBLOCK) \<noteq> 0 then nret (- EINVAL)
      else nbind (reserve_fd E) (\<lambda>newfd.
        if newfd < 0 then nret newfd
        else nbind (do_accept E pid fl file_flags upeer flags) (\<lambda>newfile.
          case newfile of
            Inl err \<Rightarrow> nbind (put_unused_fd newfd) (\<lambda>_. nret err)
          | Inr f \<Rightarrow> nbind (fd_install newfd f) (\<lambda>_. nret newfd))))"

definition u_sys_accept4 :: "net_env \<Rightarrow> s32 \<Rightarrow> int \<Rightarrow> user_name option \<Rightarrow> u32 \<Rightarrow> int net" where
  "u_sys_accept4 E pid fd upeer flags s =
     (case fget s fd of
        None \<Rightarrow> Inr (- EBADF, s)
      | Some fl \<Rightarrow> u_sys_accept4_file E pid fl 0 upeer flags s)"

subsection \<open>Sending and receiving\<close>

definition sock_sendmsg_nosec :: "net_env \<Rightarrow> addr \<Rightarrow> msghdr \<Rightarrow> (int \<times> msghdr) net" where
  "sock_sendmsg_nosec E a msg =
     nbind (get_sock a) (\<lambda>k.
       if ops k = None then nfault NullDereference
       else if fst (ops_sendmsg E a msg) = - EIOCBQUEUED then nfault BugOn
       else nret (ops_sendmsg E a msg))"

definition throttle_sock :: "addr \<Rightarrow> unit net" where
  "throttle_sock a =
     nbind (get_sock a) (\<lambda>k.
     nbind (case sk k of
        None \<Rightarrow> nret ()
      | Some c \<Rightarrow> set_sock a (k\<lparr>sk := Some (c\<lparr>sk_priority := 0\<rparr>)\<rparr>)) (\<lambda>_.
     nmod (\<lambda>s. s\<lparr>slept := slept s + 100\<rparr>)))"

definition u_sock_sendmsg :: "net_env \<Rightarrow> s32 \<Rightarrow> addr \<Rightarrow> msghdr \<Rightarrow> (int \<times> msghdr) net" where
  "u_sock_sendmsg E pid a msg =
     nbind (on_mgr (should_throttle_transmission (kmalloc_stats E) pid)) (\<lambda>throttle.
     nbind (if throttle then throttle_sock a else nret ()) (\<lambda>_.
     if security_socket_sendmsg E a msg \<noteq> 0 then nret (security_socket_sendmsg E a msg, msg)
     else nbind (sock_sendmsg_nosec E a msg) (\<lambda>(ret, msg').
       nbind (if 0 \<le> ret \<and> msg_left msg \<noteq> 0
              then on_mgr0 (update_socket_traffic (kmalloc_stats E) pid (msg_left msg) 0)
              else nret ()) (\<lambda>_. nret (ret, msg')))))"

text \<open>
  \<^verbatim>\<open>sock_sendmsg\<close> gives the protocol a copy of the address on its own stack (at \<^verbatim>\<open>local\<close>) and
  restores the caller's address and length afterwards.
\<close>

definition sock_sendmsg :: "net_env \<Rightarrow> s32 \<Rightarrow> addr \<Rightarrow> addr \<Rightarrow> msghdr \<Rightarrow> (int \<times> msghdr) net" where
  "sock_sendmsg E pid local a msg =
     (if msg_name msg \<noteq> None \<and> (msg_namelen msg < 0 \<or> SOCKADDR_STORAGE < msg_namelen msg)
      then nfault BufferOverflow
      else nbind (u_sock_sendmsg E pid a
                   (if msg_name msg \<noteq> None then msg\<lparr>msg_name := Some local\<rparr> else msg)) (\<lambda>(ret, msg').
           nret (ret, msg'\<lparr>msg_name := msg_name msg, msg_namelen := msg_namelen msg\<rparr>)))"

definition sock_recvmsg_nosec :: "net_env \<Rightarrow> addr \<Rightarrow> msghdr \<Rightarrow> u32 \<Rightarrow> (int \<times> msghdr) net" where
  "sock_recvmsg_nosec E a msg flags =
     nbind (get_sock a) (\<lambda>k.
       if ops k = None then nfault NullDereference else nret (ops_recvmsg E a msg flags))"

definition sock_recvmsg :: "net_env \<Rightarrow> s32 \<Rightarrow> addr \<Rightarrow> msghdr \<Rightarrow> u32 \<Rightarrow> (int \<times> msghdr) net" where
  "sock_recvmsg E pid a msg flags =
     nbind (on_mgr (check_socket_allocation_allowed (kmalloc_stats E) (jiffies_now E) pid)) (\<lambda>allowed.
     if \<not> allowed then nret (- EAGAIN, msg)
     else if security_socket_recvmsg E a msg flags \<noteq> 0 then nret (security_socket_recvmsg E a msg flags, msg)
     else nbind (sock_recvmsg_nosec E a msg flags) (\<lambda>(ret, msg').
       nbind (if 0 < ret then on_mgr0 (update_socket_traffic (kmalloc_stats E) pid 0 (word_of_int ret))
              else nret ()) (\<lambda>_. nret (ret, msg'))))"

subsection \<open>Environments and well-formed states\<close>

lemma nret_app [net_simps]: "nret x s = Inr (x, s)"
  by (simp add: nret_def)

lemma nbind_app [net_simps]: "nbind f g s = kbind (f s) (\<lambda>(x, s'). g x s')"
  by (simp add: nbind_def)

lemma nmod_app [net_simps]: "nmod f s = Inr ((), f s)"
  by (simp add: nmod_def)

lemma nfault_app [net_simps]: "nfault e s = Inl e"
  by (simp add: nfault_def)

lemma get_sock_app [net_simps]: "socks s a = Some k \<Longrightarrow> get_sock a s = Inr (k, s)"
  by (simp add: get_sock_def)

lemma set_sock_app [net_simps]: "set_sock a k s = Inr ((), s\<lparr>socks := (socks s)(a \<mapsto> k)\<rparr>)"
  by (simp add: set_sock_def)

lemma on_mgr_app [net_simps]: "on_mgr f s = kbind (f (mgr s)) (\<lambda>(x, m). Inr (x, s\<lparr>mgr := m\<rparr>))"
  by (simp add: on_mgr_def)

lemma on_mgr0_app [net_simps]: "f (mgr s) = Inr m \<Longrightarrow> on_mgr0 f s = Inr ((), s\<lparr>mgr := m\<rparr>)"
  by (simp add: on_mgr0_def)

lemmas net_step_defs = module_get_def module_put_def iput_sock_def put_unused_fd_def fd_install_def

text \<open>
  What the allocators, the hooks and the protocol families promise: fresh inodes, files and
  descriptors, negative error codes, a family whose \<^verbatim>\<open>create\<close> succeeded has set \<^verbatim>\<open>ops\<close>.
\<close>

definition env_ok :: "net_env \<Rightarrow> bool" where
  "env_ok E \<longleftrightarrow> alloc_fresh (kmalloc_stats E) \<and>
     (\<forall>m a. new_inode_pseudo E m = Some a \<longrightarrow> m a = None) \<and>
     (\<forall>m f. alloc_file_pseudo E m = Inr f \<longrightarrow> m f = None) \<and>
     (\<forall>m e. alloc_file_pseudo E m = Inl e \<longrightarrow> e < 0) \<and>
     (\<forall>t. 0 \<le> get_unused_fd_flags E t \<longrightarrow> t (get_unused_fd_flags E t) = None) \<and>
     (\<forall>f t p k. security_socket_create E f t p k \<le> 0) \<and>
     (\<forall>a. security_socket_post_create E a \<le> 0) \<and>
     (\<forall>f a p k e o' c. pf_create E f a p k = (e, o', c) \<longrightarrow> 0 \<le> e \<longrightarrow> o' \<noteq> None)"

lemma env_okD:
  assumes "env_ok E"
  shows "alloc_fresh (kmalloc_stats E)"
    and "new_inode_pseudo E m = Some a \<Longrightarrow> m a = None"
    and "alloc_file_pseudo E m' = Inr f \<Longrightarrow> m' f = None"
    and "alloc_file_pseudo E m' = Inl e \<Longrightarrow> e < 0"
    and "0 \<le> get_unused_fd_flags E t \<Longrightarrow> t (get_unused_fd_flags E t) = None"
    and "security_socket_create E fam ty p k \<le> 0"
    and "security_socket_post_create E b \<le> 0"
    and "pf_create E fam b p k = (err, o', c) \<Longrightarrow> 0 \<le> err \<Longrightarrow> o' \<noteq> None"
  using assms unfolding env_ok_def by blast+

lemma register_ok:
  assumes "env_ok E" "fair_ok m"
  obtains m' where "register_socket_for_thread (kmalloc_stats E) pid m = Inr m'" "fair_ok m'"
  using create_ops_ok(1) [OF assms(2) env_okD(1) [OF assms(1)]] by blast

lemma unregister_ok:
  assumes "env_ok E" "fair_ok m"
  obtains m' where "unregister_socket_for_thread (kmalloc_stats E) pid m = Inr m'" "fair_ok m'"
  using lookup_ops_ok(1) [OF assms(2) env_okD(1) [OF assms(1)]] by blast

subsection \<open>Releasing\<close>

lemma release_no_file:
  assumes "socks s a = Some k" "sock_file k = None"
  shows "u_sock_release E pid a s = Inr ((), s\<lparr>socks := (socks s)(a := None),
    mods := (case ops k of None \<Rightarrow> mods s | Some o' \<Rightarrow> (mods s)(o' := mods s o' - 1))\<rparr>)"
  using assms by (cases "ops k") (simp_all add: u_sock_release_def net_simps net_step_defs)

lemma release_with_file:
  assumes "socks s a = Some k" "sock_file k = Some f" "unregister_socket_for_thread (kmalloc_stats E) pid (mgr s) = Inr m"
  shows "u_sock_release E pid a s = Inr ((), s\<lparr>
    socks := (socks s)(a \<mapsto> (case ops k of None \<Rightarrow> k | Some o' \<Rightarrow> k\<lparr>sk := None, ops := None\<rparr>)\<lparr>sock_file := None\<rparr>),
    mods := (case ops k of None \<Rightarrow> mods s | Some o' \<Rightarrow> (mods s)(o' := mods s o' - 1)), mgr := m\<rparr>)"
  using assms by (cases "ops k") (simp_all add: u_sock_release_def net_simps net_step_defs)

lemma fput_last_socket:
  assumes "files s f = Some fl" "f_op_socket fl" "socks s (private_data fl) = Some k" "sock_file k = Some f'"
    and "unregister_socket_for_thread (kmalloc_stats E) pid (mgr s) = Inr m"
  shows "fput_last E pid f s = Inr ((), s\<lparr>socks := (socks s)(private_data fl := None), files := (files s)(f := None),
    mods := (case ops k of None \<Rightarrow> mods s | Some o' \<Rightarrow> (mods s)(o' := mods s o' - 1)), mgr := m\<rparr>)"
  using assms release_with_file [OF assms(3,4,5)]
  by (simp add: fput_last_def sock_close_def net_simps net_step_defs)

subsection \<open>Creating\<close>

text \<open>Failures after the socket was allocated give back the inode and the module references.\<close>

lemma out_sock_release_app:
  "socks s a = Some k \<Longrightarrow> sock_file k = None \<Longrightarrow> ops k = None \<Longrightarrow>
   out_sock_release E pid a err s = Inr (Inl err, s\<lparr>socks := (socks s)(a := None)\<rparr>)"
  by (simp add: out_sock_release_def sock_release_def net_simps release_no_file)

lemma out_module_put_app:
  "socks s a = Some k \<Longrightarrow> sock_file k = None \<Longrightarrow>
   out_module_put E pid a pf err s = Inr (Inl err, s\<lparr>socks := (socks s)(a := None), mods := (mods s)(pf := mods s pf - 1)\<rparr>)"
  by (simp add: out_module_put_def net_simps net_step_defs out_sock_release_app)

text \<open>The state after a successful creation.\<close>

definition with_socket :: "addr \<Rightarrow> socket \<Rightarrow> nat \<Rightarrow> net_state \<Rightarrow> net_state" where
  "with_socket a k owner s = s\<lparr>socks := (socks s)(a \<mapsto> k), mods := (mods s)(owner := mods s owner + 1)\<rparr>"

lemma sock_create_family_app:
  assumes E: "env_ok E" and a: "socks s a = Some k" "sock_file k = None"
  obtains (fail) err where "err < 0"
      "sock_create_family E pid a family protocol kern pf s = Inr (Inl err, s\<lparr>socks := (socks s)(a := None)\<rparr>)"
  | (ok) o' c where "sock_create_family E pid a family protocol kern pf s =
      Inr (Inr a, with_socket a (k\<lparr>ops := Some o', sk := c\<rparr>) o' s)"
proof -
  obtain err new_ops new_sk where c: "pf_create E family a protocol kern = (err, new_ops, new_sk)"
    by (cases "pf_create E family a protocol kern") auto
  note defs = sock_create_family_def net_simps net_step_defs c
  show thesis
  proof (cases "err < 0")
    case True
    show thesis by (rule fail [OF True]) (use True a in \<open>simp add: defs out_module_put_app\<close>)
  next
    case False
    with env_okD(8) [OF E c] obtain o' where o: "new_ops = Some o'" by auto
    let ?s = "s\<lparr>mods := (mods s)(pf := mods s pf + 1), socks := (socks s)(a \<mapsto> k\<lparr>ops := Some o', sk := new_sk\<rparr>)\<rparr>"
    show thesis
    proof (cases "try_module_get E o' (mods ?s)")
      case busy: False
      show thesis
        by (rule fail [of "- EAFNOSUPPORT"])
          (use False busy a in \<open>simp_all add: defs o out_module_put_app errno_defs\<close>)
    next
      case got: True
      show thesis
      proof (cases "security_socket_post_create E a = 0")
        case True
        have "sock_create_family E pid a family protocol kern pf s =
            Inr (Inr a, with_socket a (k\<lparr>ops := Some o', sk := new_sk\<rparr>) o' s)"
          using False got True a by (cases s) (auto simp add: defs o with_socket_def fun_eq_iff)
        then show thesis by (rule ok)
      next
        case hook: False
        have neg: "security_socket_post_create E a < 0" using env_okD(7) [OF E, of a] hook by simp
        have "sock_create_family E pid a family protocol kern pf s =
            Inr (Inl (security_socket_post_create E a), s\<lparr>socks := (socks s)(a := None)\<rparr>)"
          using False got hook a
          by (cases s) (auto simp add: defs o out_sock_release_def sock_release_def release_no_file fun_eq_iff)
        then show thesis by (rule fail [OF neg])
      qed
    qed
  qed
qed

text \<open>
  The arguments are valid, the security hook agrees and an inode is available: the thread is
  charged and the protocol family is looked up.
\<close>

definition create_ready :: "net_env \<Rightarrow> net_state \<Rightarrow> int \<Rightarrow> int \<Rightarrow> s32 \<Rightarrow> bool \<Rightarrow> addr \<Rightarrow> bool" where
  "create_ready E s family type protocol kern a \<longleftrightarrow> 0 \<le> family \<and> family < NPROTO \<and> 0 \<le> type \<and> type < SOCK_MAX \<and>
     security_socket_create E (create_family family type) type protocol kern = 0 \<and> new_inode_pseudo E (socks s) = Some a"

definition charged :: "addr \<Rightarrow> int \<Rightarrow> socket_fairness_manager \<Rightarrow> net_state \<Rightarrow> net_state" where
  "charged a type m s = s\<lparr>socks := (socks s)(a \<mapsto> sock_alloc_inode\<lparr>sock_type := word_of_int type\<rparr>), mgr := m\<rparr>"

lemma charged_undo:
  "socks s a = None \<Longrightarrow> (charged a type m s)\<lparr>socks := (socks (charged a type m s))(a := None)\<rparr> = s\<lparr>mgr := m\<rparr>"
  by (cases s) (auto simp: charged_def fun_eq_iff)

lemma charged_sock:
  "socks (charged a type m s) a = Some (sock_alloc_inode\<lparr>sock_type := word_of_int type\<rparr>)" "mods (charged a type m s) = mods s"
  by (simp_all add: charged_def)

lemma sock_alloc_inode_simps [simp]: "sock_file sock_alloc_inode = None" "ops sock_alloc_inode = None"
  by (simp_all add: sock_alloc_inode_def)

lemma u_sock_create_ready:
  assumes "create_ready E s family type protocol kern a"
    and m: "register_socket_for_thread (kmalloc_stats E) pid (mgr s) = Inr m" and a: "socks s a = None"
  shows "u_sock_create E pid family type protocol kern s =
    (case net_families E (create_family family type) of
       None \<Rightarrow> Inr (Inl (- EAFNOSUPPORT), s\<lparr>mgr := m\<rparr>)
     | Some pf \<Rightarrow> if \<not> try_module_get E pf (mods s) then Inr (Inl (- EAFNOSUPPORT), s\<lparr>mgr := m\<rparr>)
        else sock_create_family E pid a (create_family family type) protocol kern pf (charged a type m s))"
proof -
  have "out_sock_release E pid a (- EAFNOSUPPORT) (charged a type m s) = Inr (Inl (- EAFNOSUPPORT), s\<lparr>mgr := m\<rparr>)"
    using out_sock_release_app [OF charged_sock(1)] charged_undo [OF a] by simp
  moreover have "u_sock_create E pid family type protocol kern s =
    (case net_families E (create_family family type) of
       None \<Rightarrow> out_sock_release E pid a (- EAFNOSUPPORT) (charged a type m s)
     | Some pf \<Rightarrow> if \<not> try_module_get E pf (mods s) then out_sock_release E pid a (- EAFNOSUPPORT) (charged a type m s)
        else sock_create_family E pid a (create_family family type) protocol kern pf (charged a type m s))"
    using assms
    by (cases "net_families E (create_family family type)")
      (simp_all add: create_ready_def u_sock_create_def charged_def Let_def sock_alloc_def nbind_app get_sock_app set_sock_app on_mgr0_app)
  ultimately show ?thesis by (cases "net_families E (create_family family type)") simp_all
qed

lemma u_sock_create_refused:
  assumes E: "env_ok E" and "\<And>a. \<not> create_ready E s family type protocol kern a"
  shows "\<exists>err < 0. u_sock_create E pid family type protocol kern s = Inr (Inl err, s)"
proof -
  let ?sec = "security_socket_create E (create_family family type) type protocol kern"
  have "?sec \<noteq> 0 \<Longrightarrow> ?sec < 0" using env_okD(6) [OF E, of "create_family family type" type protocol kern] by linarith
  moreover have "new_inode_pseudo E (socks s) = None \<or> \<not> (0 \<le> family \<and> family < NPROTO \<and> 0 \<le> type \<and> type < SOCK_MAX \<and> ?sec = 0)"
    using assms(2) by (auto simp: create_ready_def)
  ultimately show ?thesis
    by (auto simp: u_sock_create_def net_simps Let_def sock_alloc_def errno_defs)
qed

text \<open>
  Every outcome of \<^verbatim>\<open>__sock_create\<close>: refused before the thread is charged, failed after it, or a
  new socket that is charged and holds one reference of its protocol module.
\<close>

lemma u_sock_create_cases:
  assumes E: "env_ok E" and m: "register_socket_for_thread (kmalloc_stats E) pid (mgr s) = Inr m"
  obtains (refused) err where "err < 0" "u_sock_create E pid family type protocol kern s = Inr (Inl err, s)"
  | (failed) err where "err < 0" "u_sock_create E pid family type protocol kern s = Inr (Inl err, s\<lparr>mgr := m\<rparr>)"
  | (created) a k o' where "u_sock_create E pid family type protocol kern s =
        Inr (Inr a, with_socket a k o' (s\<lparr>mgr := m\<rparr>))"
      "socks s a = None" "sock_file k = None" "ops k = Some o'" "sock_type k = word_of_int type"
proof (cases "\<exists>a. create_ready E s family type protocol kern a")
  case False
  with u_sock_create_refused [OF E] refused show thesis by blast
next
  case True
  then obtain a where rdy: "create_ready E s family type protocol kern a" by blast
  then have fresh: "socks s a = None" using env_okD(2) [OF E] by (simp add: create_ready_def)
  note run = u_sock_create_ready [OF rdy m fresh]
  let ?fam = "create_family family type"
  let ?k = "sock_alloc_inode\<lparr>sock_type := word_of_int type\<rparr>"
  show thesis
  proof (cases "\<exists>pf. net_families E ?fam = Some pf \<and> try_module_get E pf (mods s)")
    case False
    then have "u_sock_create E pid family type protocol kern s = Inr (Inl (- EAFNOSUPPORT), s\<lparr>mgr := m\<rparr>)"
      using run by (auto split: option.split)
    then show thesis by (intro failed [of "- EAFNOSUPPORT"]) (simp_all add: errno_defs)
  next
    case True
    then obtain pf where pf: "net_families E ?fam = Some pf" "try_module_get E pf (mods s)" by blast
    have k: "sock_file ?k = None" by simp
    have c: "socks (charged a type m s) a = Some ?k" by (rule charged_sock(1))
    show thesis
    proof (cases rule: sock_create_family_app [OF E c k, of pid ?fam protocol kern pf])
      case (1 err)
      with run pf charged_undo [OF fresh, of type m] show thesis by (intro failed [of err]) simp_all
    next
      case (2 o' c)
      have "with_socket a (?k\<lparr>ops := Some o', sk := c\<rparr>) o' (charged a type m s) =
          with_socket a (?k\<lparr>ops := Some o', sk := c\<rparr>) o' (s\<lparr>mgr := m\<rparr>)"
        by (simp add: with_socket_def charged_def)
      with 2 run pf fresh k show thesis
        by (intro created [of a "?k\<lparr>ops := Some o', sk := c\<rparr>" o']) simp_all
    qed
  qed
qed

text \<open>Binding a new socket to a file and a descriptor.\<close>

definition with_fd :: "int \<Rightarrow> addr \<Rightarrow> kfile \<Rightarrow> addr \<Rightarrow> socket \<Rightarrow> net_state \<Rightarrow> net_state" where
  "with_fd fd f fl a k s = s\<lparr>fds := (fds s)(fd \<mapsto> Installed f), files := (files s)(f \<mapsto> fl),
     socks := (socks s)(a \<mapsto> k\<lparr>sock_file := Some f\<rparr>)\<rparr>"

lemma sock_map_fd_cases:
  assumes E: "env_ok E" and a: "socks s a = None" and k: "sock_file k = None" "ops k = Some o'"
  obtains (failed) err where "err < 0" "sock_map_fd E pid a flags (with_socket a k o' s) = Inr (err, s)"
  | (mapped) fd f fl where "0 \<le> fd" "fds s fd = None" "files s f = None" "f_op_socket fl" "private_data fl = a"
      "sock_map_fd E pid a flags (with_socket a k o' s) = Inr (fd, with_fd fd f fl a k (with_socket a k o' s))"
proof -
  let ?t = "with_socket a k o' s"
  let ?fd = "get_unused_fd_flags E (fds s)"
  have ta: "socks ?t a = Some k" by (simp add: with_socket_def)
  have undo: "?t\<lparr>socks := (socks ?t)(a := None), mods := (mods ?t)(o' := mods ?t o' - 1)\<rparr> = s"
    using a by (cases s) (auto simp: with_socket_def fun_eq_iff)
  have fds: "fds ?t = fds s" "files ?t = files s" by (simp_all add: with_socket_def)
  show thesis
  proof (cases "?fd < 0")
    case True
    show thesis
      by (rule failed [OF True])
        (use True release_no_file [OF ta k(1), of E pid] undo k(2) in
          \<open>simp add: sock_map_fd_def reserve_fd_def nbind_app nret_app Let_def fds sock_release_def\<close>)
  next
    case fd: False
    then have free: "fds s ?fd = None" using env_okD(5) [OF E, of "fds s"] by simp
    let ?u = "?t\<lparr>fds := (fds s)(?fd \<mapsto> Reserved)\<rparr>"
    have ua: "socks ?u a = Some k" using ta by simp
    have run: "sock_map_fd E pid a flags ?t = nbind (sock_alloc_file E pid a flags) (\<lambda>newfile.
       case newfile of Inr f \<Rightarrow> nbind (fd_install ?fd f) (\<lambda>_. nret ?fd)
       | Inl err \<Rightarrow> nbind (put_unused_fd ?fd) (\<lambda>_. nret err)) ?u"
      using fd fds by (simp add: sock_map_fd_def reserve_fd_def nbind_app Let_def)
    show thesis
    proof (cases "alloc_file_pseudo E (files s)")
      case (Inl err)
      have "err < 0" by (rule env_okD(4) [OF E Inl])
      have "sock_map_fd E pid a flags ?t = Inr (err, ?u\<lparr>socks := (socks ?u)(a := None),
           mods := (mods ?u)(o' := mods ?u o' - 1), fds := (fds ?u)(?fd := None)\<rparr>)"
        using Inl release_no_file [OF ua k(1), of E pid] k(2) fds
        by (simp add: run nbind_app nret_app sock_alloc_file_def sock_release_def put_unused_fd_def nmod_app)
      also have "?u\<lparr>socks := (socks ?u)(a := None), mods := (mods ?u)(o' := mods ?u o' - 1), fds := (fds ?u)(?fd := None)\<rparr> = s"
        using undo free a by (cases s) (auto simp: with_socket_def fun_eq_iff)
      finally show thesis by (rule failed [OF \<open>err < 0\<close>])
    next
      case (Inr f)
      let ?fl = "\<lparr>f_op_socket = True, private_data = a, f_flags = O_RDWR OR (flags AND O_NONBLOCK)\<rparr>"
      have "sock_map_fd E pid a flags ?t = Inr (?fd, with_fd ?fd f ?fl a k ?t)"
        using Inr ua fds
        by (simp add: run net_simps sock_alloc_file_def fd_install_def with_fd_def)
      then show thesis
        using fd free env_okD(3) [OF E Inr] by (intro mapped [of ?fd f ?fl]) simp_all
    qed
  qed
qed

lemma u_sys_socket_cases:
  assumes E: "env_ok E" and m: "register_socket_for_thread (kmalloc_stats E) pid (mgr s) = Inr m"
  obtains (refused) err where "err < 0" "u_sys_socket E pid family type protocol s = Inr (err, s)"
  | (failed) err where "err < 0" "u_sys_socket E pid family type protocol s = Inr (err, s\<lparr>mgr := m\<rparr>)"
  | (opened) fd f fl a k o' where "0 \<le> fd" "fds s fd = None" "files s f = None" "socks s a = None"
      "f_op_socket fl" "private_data fl = a" "sock_file k = None" "ops k = Some o'"
      "u_sys_socket E pid family type protocol s = Inr (fd, with_fd fd f fl a k (with_socket a k o' (s\<lparr>mgr := m\<rparr>)))"
proof (cases "(type AND NOT SOCK_TYPE_MASK) AND NOT (O_CLOEXEC OR O_NONBLOCK) = 0")
  case False
  then show thesis by (intro refused [of "- EINVAL"]) (simp_all add: u_sys_socket_def Let_def nret_app errno_defs)
next
  case flags: True
  let ?ty = "sint (type AND SOCK_TYPE_MASK)"
  let ?fl = "(type AND NOT SOCK_TYPE_MASK) AND (O_CLOEXEC OR O_NONBLOCK)"
  note run = u_sys_socket_def [of E pid family type protocol, unfolded Let_def]
  show thesis
  proof (cases rule: u_sock_create_cases [OF E m, of family ?ty protocol False])
    case (1 err)
    with flags show thesis
      by (intro refused [of err]) (simp_all add: run sock_create_def nbind_app nret_app create_failed_def)
  next
    case (2 err)
    with flags show thesis
      by (intro failed [of err]) (simp_all add: run sock_create_def nbind_app nret_app create_failed_def)
  next
    case (3 a k o')
    have run': "u_sys_socket E pid family type protocol s =
        sock_map_fd E pid a ?fl (with_socket a k o' (s\<lparr>mgr := m\<rparr>))"
      using 3(1) flags by (simp add: run sock_create_def nbind_app)
    have a: "socks (s\<lparr>mgr := m\<rparr>) a = None" using 3(2) by simp
    show thesis
    proof (cases rule: sock_map_fd_cases [OF E a 3(3,4), of pid ?fl])
      case (1 err)
      with run' show thesis by (intro failed [of err]) simp_all
    next
      case (2 fd f fl)
      with run' 3 show thesis by (intro opened [of fd f a fl k o']) simp_all
    qed
  qed
qed

subsection \<open>The open sockets of a thread\<close>

text \<open>The thread is tracked and has \<^verbatim>\<open>n\<close> open sockets on its account.\<close>

definition tracked :: "net_state \<Rightarrow> s32 \<Rightarrow> int \<Rightarrow> bool" where
  "tracked s pid n \<longleftrightarrow> fair_ready (mgr s) \<and> active_count (mgr s) pid = Some n"

lemma tracked_register:
  assumes "tracked s pid n" "n + 1 < 2 ^ 31"
  obtains m where "register_socket_for_thread kmalloc pid (mgr s) = Inr m" "fair_ready m"
    "active_count m = (active_count (mgr s))(pid \<mapsto> n + 1)"
  using fair.reg_law [of "mgr s" pid n kmalloc] assms by (auto simp: tracked_def)

lemma tracked_unregister:
  assumes "fair_ready m" "active_count m pid = Some n" "0 < n"
  obtains m' where "unregister_socket_for_thread kmalloc pid m = Inr m'" "fair_ready m'"
    "active_count m' = (active_count m)(pid \<mapsto> n - 1)"
  using fair.unreg_law [of m pid n kmalloc] assms by auto

lemma register_frame:
  assumes "fair_ready m" "active_count m pid = Some n" "register_socket_for_thread kmalloc pid m = Inr m'"
  shows "max_sockets_per_thread m' = max_sockets_per_thread m" "fairness_enabled m' = fairness_enabled m"
proof -
  obtain st where "stats_of m pid = Some st" using assms(2) by (auto simp: active_count_def)
  from register_tracked [OF _ _ this, of kmalloc] assms(1,3)
  show "max_sockets_per_thread m' = max_sockets_per_thread m" "fairness_enabled m' = fairness_enabled m"
    by (auto simp: fair_ready_def)
qed

lemma recv_refused:
  assumes "tracked s pid n" "fairness_enabled (mgr s)" "uint (max_sockets_per_thread (mgr s)) \<le> n"
  shows "\<exists>s'. sock_recvmsg E pid a msg flags s = Inr ((- EAGAIN, msg), s')"
proof -
  from assms(1) obtain st where st: "stats_of (mgr s) pid = Some st" "sint (active_sockets st) = n"
    by (auto simp: tracked_def active_count_def)
  have "0 \<le> n" using assms(3) uint_ge_0 [of "max_sockets_per_thread (mgr s)"] by linarith
  with st(2) have "uint (active_sockets st) = n" using uint_of_sint [of "active_sockets st"] by simp
  with assms(3) have lim: "at_limit (mgr s) st"
    by (simp add: at_limit_def word_le_def flip: word_le_nat_alt)
  from check_tracked [OF _ _ assms(2) st(1), of "kmalloc_stats E" "jiffies_now E"] assms(1) lim
  obtain m where "check_socket_allocation_allowed (kmalloc_stats E) (jiffies_now E) pid (mgr s) = Inr (False, m)"
    by (auto simp: tracked_def fair_ready_def)
  then show ?thesis by (simp add: sock_recvmsg_def nbind_app on_mgr_app nret_app)
qed

text \<open>Creation attempts for a family nobody registered.\<close>

primrec socket_calls :: "net_env \<Rightarrow> s32 \<Rightarrow> int \<Rightarrow> u32 \<Rightarrow> s32 \<Rightarrow> nat \<Rightarrow> int list net" where
  "socket_calls E pid family type protocol 0 = nret []"
| "socket_calls E pid family type protocol (Suc n) =
     nbind (u_sys_socket E pid family type protocol) (\<lambda>r.
     nbind (socket_calls E pid family type protocol n) (\<lambda>rs. nret (r # rs)))"

lemma socket_call_unsupported:
  assumes E: "env_ok E" and rdy: "create_ready E s family (sint (type AND SOCK_TYPE_MASK)) protocol False a"
    and flags: "(type AND NOT SOCK_TYPE_MASK) AND NOT (O_CLOEXEC OR O_NONBLOCK) = 0"
    and pf: "net_families E (create_family family (sint (type AND SOCK_TYPE_MASK))) = None"
    and m: "register_socket_for_thread (kmalloc_stats E) pid (mgr s) = Inr m"
  shows "u_sys_socket E pid family type protocol s = Inr (- EAFNOSUPPORT, s\<lparr>mgr := m\<rparr>)"
proof -
  have "socks s a = None" using rdy env_okD(2) [OF E] by (simp add: create_ready_def)
  from u_sock_create_ready [OF rdy m this] pf flags show ?thesis
    by (simp add: u_sys_socket_def Let_def sock_create_def nbind_app nret_app create_failed_def errno_defs)
qed

lemma socket_calls_unsupported:
  assumes E: "env_ok E" and "create_ready E s family (sint (type AND SOCK_TYPE_MASK)) protocol False a"
    and flags: "(type AND NOT SOCK_TYPE_MASK) AND NOT (O_CLOEXEC OR O_NONBLOCK) = 0"
    and pf: "net_families E (create_family family (sint (type AND SOCK_TYPE_MASK))) = None"
    and "tracked s pid c" "c + int n < 2 ^ 31"
  shows "\<exists>m. socket_calls E pid family type protocol n s = Inr (replicate n (- EAFNOSUPPORT), s\<lparr>mgr := m\<rparr>) \<and>
    tracked (s\<lparr>mgr := m\<rparr>) pid (c + int n) \<and> fairness_enabled m = fairness_enabled (mgr s) \<and>
    max_sockets_per_thread m = max_sockets_per_thread (mgr s)"
  using assms(2,5,6)
proof (induction n arbitrary: s c)
  case 0
  have "s\<lparr>mgr := mgr s\<rparr> = s" by (cases s) simp
  with 0 show ?case by (intro exI [of _ "mgr s"]) (simp add: nret_app)
next
  case (Suc n)
  from tracked_register [OF Suc.prems(2), of "kmalloc_stats E"] Suc.prems(3) obtain m where m:
    "register_socket_for_thread (kmalloc_stats E) pid (mgr s) = Inr m" "fair_ready m"
    "active_count m = (active_count (mgr s))(pid \<mapsto> c + 1)" by auto
  let ?t = "s\<lparr>mgr := m\<rparr>"
  have rdy: "create_ready E ?t family (sint (type AND SOCK_TYPE_MASK)) protocol False a"
    using Suc.prems(1) by (simp add: create_ready_def)
  have tr: "tracked ?t pid (c + 1)" using m by (simp add: tracked_def)
  from Suc.IH [OF rdy tr] Suc.prems(3) obtain m' where m':
    "socket_calls E pid family type protocol n ?t = Inr (replicate n (- EAFNOSUPPORT), ?t\<lparr>mgr := m'\<rparr>)"
    "tracked (?t\<lparr>mgr := m'\<rparr>) pid (c + 1 + int n)" "fairness_enabled m' = fairness_enabled m"
    "max_sockets_per_thread m' = max_sockets_per_thread m" by auto
  have "fair_ready (mgr s)" "active_count (mgr s) pid = Some c" using Suc.prems(2) by (simp_all add: tracked_def)
  note frame = register_frame [OF this m(1)]
  have "socket_calls E pid family type protocol (Suc n) s = Inr (replicate (Suc n) (- EAFNOSUPPORT), s\<lparr>mgr := m'\<rparr>)"
    using socket_call_unsupported [OF E Suc.prems(1) flags pf m(1)] m'(1) by (simp add: nbind_app nret_app)
  with m'(2-) frame show ?case by (auto simp: algebra_simps)
qed

text \<open>Closing the descriptor of a socket that was just opened.\<close>

lemma close_opened:
  assumes u: "unregister_socket_for_thread (kmalloc_stats E) pid (mgr s) = Inr m"
    and fresh: "fds s fd = None" "files s f = None" "socks s a = None"
    and fl: "f_op_socket fl" "private_data fl = a" and k: "ops k = Some o'"
  shows "close_fd E pid fd (with_fd fd f fl a k (with_socket a k o' s)) = Inr (0, s\<lparr>mgr := m\<rparr>)"
proof -
  let ?t = "with_fd fd f fl a k (with_socket a k o' s)"
  let ?u = "?t\<lparr>fds := (fds ?t)(fd := None)\<rparr>"
  have u': "unregister_socket_for_thread (kmalloc_stats E) pid (mgr ?u) = Inr m"
    using u by (simp add: with_fd_def with_socket_def)
  have f: "files ?u f = Some fl" "socks ?u (private_data fl) = Some (k\<lparr>sock_file := Some f\<rparr>)"
    using fl by (simp_all add: with_fd_def with_socket_def)
  have "close_fd E pid fd ?t = kbind (fput_last E pid f ?u) (\<lambda>(x, s). Inr (0, s))"
    by (simp add: close_fd_def net_simps put_unused_fd_def with_fd_def)
  also have "\<dots> = Inr (0, s\<lparr>mgr := m\<rparr>)"
    using fput_last_socket [OF f(1) fl(1) f(2) _ u'] fl fresh k
    by (cases s) (auto simp: with_fd_def with_socket_def fun_eq_iff)
  finally show ?thesis .
qed

subsection \<open>Accepting\<close>

text \<open>
  A listening socket behind a descriptor: its file is a socket file and the socket has protocol
  operations and a protocol socket. Peer names a protocol reports fit a socket address.
\<close>

definition listening :: "net_state \<Rightarrow> kfile \<Rightarrow> addr \<Rightarrow> socket \<Rightarrow> nat \<Rightarrow> bool" where
  "listening s fl sock k o' \<longleftrightarrow> f_op_socket fl \<and> private_data fl = sock \<and> socks s sock = Some k \<and>
     ops k = Some o' \<and> sk k \<noteq> None"

definition names_fit :: "net_env \<Rightarrow> bool" where
  "names_fit E \<longleftrightarrow> (\<forall>a peer len bs. ops_getname E a peer = (len, bs) \<longrightarrow> len \<le> SOCKADDR_STORAGE)"

text \<open>The state once the accepted socket has its file: one more socket, file and module reference.\<close>

definition with_accepted :: "addr \<Rightarrow> kfile \<Rightarrow> addr \<Rightarrow> socket \<Rightarrow> nat \<Rightarrow> net_state \<Rightarrow> net_state" where
  "with_accepted f fl a k o' s = s\<lparr>mods := (mods s)(o' := mods s o' + 1),
     socks := (socks s)(a \<mapsto> k\<lparr>sock_file := Some f\<rparr>), files := (files s)(f \<mapsto> fl)\<rparr>"

lemma accept_out_fd_app:
  assumes "unregister_socket_for_thread (kmalloc_stats E) pid (mgr s) = Inr m"
    and "files s f = None" "socks s a = None" "f_op_socket fl" "private_data fl = a" "ops k = Some o'"
  shows "accept_out_fd E pid f err (with_accepted f fl a k o' s) = Inr (Inl err, s\<lparr>mgr := m\<rparr>)"
proof -
  let ?t = "with_accepted f fl a k o' s"
  have t: "files ?t f = Some fl" "socks ?t (private_data fl) = Some (k\<lparr>sock_file := Some f\<rparr>)"
    "unregister_socket_for_thread (kmalloc_stats E) pid (mgr ?t) = Inr m"
    using assms by (simp_all add: with_accepted_def)
  show ?thesis
    using fput_last_socket [OF t(1) assms(4) t(2) _ t(3)] assms
    by (cases s) (auto simp: accept_out_fd_def nbind_app nret_app with_accepted_def fun_eq_iff)
qed

lemma move_addr_to_user_total:
  "0 \<le> klen \<Longrightarrow> klen \<le> SOCKADDR_STORAGE \<Longrightarrow> \<exists>r. move_addr_to_user E kaddr klen u = Inr r"
  by (cases "un_get_len u") (simp_all add: move_addr_to_user_def Let_def)

lemma accept_peer_name_cases:
  assumes u: "unregister_socket_for_thread (kmalloc_stats E) pid (mgr s) = Inr m" and E: "names_fit E"
    and "files s f = None" "socks s a = None" "f_op_socket fl" "private_data fl = a" "ops k = Some o'"
  obtains (ok) "accept_peer_name E pid a f upeer (with_accepted f fl a k o' s) = Inr (Inr f, with_accepted f fl a k o' s)"
  | (failed) err where "err < 0" "accept_peer_name E pid a f upeer (with_accepted f fl a k o' s) = Inr (Inl err, s\<lparr>mgr := m\<rparr>)"
proof (cases upeer)
  case None
  then show thesis by (intro ok) (simp add: accept_peer_name_def nret_app)
next
  case (Some u)
  obtain len bs where g: "ops_getname E a 2 = (len, bs)" by (cases "ops_getname E a 2")
  with E have len: "len \<le> SOCKADDR_STORAGE" by (auto simp: names_fit_def)
  note undo = accept_out_fd_app [OF assms(1,3-7)]
  show thesis
  proof (cases "len < 0")
    case True
    then show thesis
      by (intro failed [of "- ECONNABORTED"]) (simp_all add: accept_peer_name_def Some g undo errno_defs)
  next
    case False
    with move_addr_to_user_total [of len E bs u] len obtain err x where mv: "move_addr_to_user E bs len u = Inr (err, x)"
      by auto
    show thesis
    proof (cases "err < 0")
      case True
      then show thesis by (intro failed [of err]) (use False mv in \<open>simp_all add: accept_peer_name_def Some g undo\<close>)
    next
      case ge: False
      show thesis by (rule ok) (use False ge mv in \<open>simp add: accept_peer_name_def Some g nret_app\<close>)
    qed
  qed
qed

text \<open>Up to the point where the accepted socket has its file.\<close>

definition accepted_socket :: "socket \<Rightarrow> socket" where
  "accepted_socket k = sock_alloc_inode\<lparr>sock_type := sock_type k, ops := ops k\<rparr>"

lemma do_accept_alloc:
  assumes L: "listening s fl sock k o'" and a: "new_inode_pseudo E (socks s) = Some a" "socks s a = None"
  shows "do_accept E pid fl ff upeer flags s =
    (case alloc_file_pseudo E (files s) of
       Inl err \<Rightarrow> Inr (Inl err, s)
     | Inr f \<Rightarrow>
        (let t = with_accepted f \<lparr>f_op_socket = True, private_data = a, f_flags = O_RDWR OR (flags AND O_NONBLOCK)\<rparr>
                 a (accepted_socket k) o' s in
         if security_socket_accept E sock a \<noteq> 0 then accept_out_fd E pid f (security_socket_accept E sock a) t
         else let (err, new_sk) = ops_accept E sock a (f_flags fl OR ff) in
           if err < 0 then accept_out_fd E pid f err t
           else accept_peer_name E pid a f upeer
             (with_accepted f \<lparr>f_op_socket = True, private_data = a, f_flags = O_RDWR OR (flags AND O_NONBLOCK)\<rparr>
                a ((accepted_socket k)\<lparr>sk := new_sk\<rparr>) o' s)))"
proof -
  have ne: "a \<noteq> sock" using L a(2) by (auto simp: listening_def)
  obtain c where c: "sk k = Some c" using L by (auto simp: listening_def)
  let ?s0 = "s\<lparr>socks := (socks s)(a \<mapsto> sock_alloc_inode)\<rparr>"
  let ?s1 = "s\<lparr>socks := (socks s)(a \<mapsto> accepted_socket k), mods := (mods s)(o' := mods s o' + 1)\<rparr>"
  have g: "get_sock sock ?s0 = Inr (k, ?s0)" "get_sock a ?s0 = Inr (sock_alloc_inode, ?s0)"
    using L ne by (simp_all add: get_sock_def listening_def)
  have s1a: "socks ?s1 a = Some (accepted_socket k)" by simp
  have acc: "sock_file (accepted_socket k) = None" "ops (accepted_socket k) = Some o'"
    using L by (simp_all add: accepted_socket_def listening_def)
  have undo: "?s1\<lparr>socks := (socks ?s1)(a := None), mods := (mods ?s1)(o' := mods ?s1 o' - 1)\<rparr> = s"
    using a(2) by (cases s) (auto simp: fun_eq_iff)
  have rel: "sock_release E pid a ?s1 = Inr ((), s)"
    using release_no_file [OF s1a acc(1), of E pid] acc(2) undo by (simp add: sock_release_def)
  have run: "do_accept E pid fl ff upeer flags s = nbind (sock_alloc_file E pid a flags) (\<lambda>newfile.
      case newfile of
        Inl err \<Rightarrow> nret (Inl err)
      | Inr f \<Rightarrow>
          if security_socket_accept E sock a \<noteq> 0 then accept_out_fd E pid f (security_socket_accept E sock a)
          else let (err, new_sk) = ops_accept E sock a (f_flags fl OR ff) in
            if err < 0 then accept_out_fd E pid f err
            else nbind (get_sock a) (\<lambda>nk. nbind (set_sock a (nk\<lparr>sk := new_sk\<rparr>)) (\<lambda>_. accept_peer_name E pid a f upeer))) ?s1"
    using L a g c
    by (simp add: do_accept_def sock_from_file_def listening_def sock_alloc_def nbind_app set_sock_app
        module_get_def nmod_app accepted_socket_def)
  show ?thesis
  proof (cases "alloc_file_pseudo E (files s)")
    case (Inl err)
    then show ?thesis using rel by (simp add: run nbind_app nret_app sock_alloc_file_def)
  next
    case (Inr f)
    have swap: "t\<lparr>files := x, socks := y\<rparr> = t\<lparr>socks := y, files := x\<rparr>"
      "n\<lparr>sock_file := v, sk := w\<rparr> = n\<lparr>sk := w, sock_file := v\<rparr>" for t :: net_state and n :: socket and x y v w
      by simp_all
    show ?thesis
      using s1a Inr
      by (simp add: swap run nbind_app nret_app sock_alloc_file_def get_sock_app set_sock_app nmod_app with_accepted_def
          Let_def split: prod.split)
  qed
qed

text \<open>The allocations \<^verbatim>\<open>do_accept\<close> makes before it asks the protocol: the new socket and its file.\<close>

definition new_file_ready :: "net_env \<Rightarrow> net_state \<Rightarrow> bool" where
  "new_file_ready E s = (new_inode_pseudo E (socks s) \<noteq> None \<and> (\<exists>f. alloc_file_pseudo E (files s) = Inr f))"

lemma do_accept_cases:
  assumes E: "env_ok E" "names_fit E" and hook: "\<And>a b. security_socket_accept E a b \<le> 0"
    and L: "listening s fl sock k o'" and u: "unregister_socket_for_thread (kmalloc_stats E) pid (mgr s) = Inr m"
  obtains (refused) err where "err < 0" "do_accept E pid fl ff upeer flags s = Inr (Inl err, s)" "\<not> new_file_ready E s"
  | (aborted) err where "err < 0" "do_accept E pid fl ff upeer flags s = Inr (Inl err, s\<lparr>mgr := m\<rparr>)" "new_file_ready E s"
  | (accepted) f nfl a nk where "do_accept E pid fl ff upeer flags s = Inr (Inr f, with_accepted f nfl a nk o' s)"
      "files s f = None" "socks s a = None" "f_op_socket nfl" "private_data nfl = a" "ops nk = Some o'" "new_file_ready E s"
proof (cases "new_inode_pseudo E (socks s)")
  case None
  with L show thesis
    by (intro refused [of "- ENFILE"])
      (simp_all add: new_file_ready_def do_accept_def sock_from_file_def listening_def sock_alloc_def nbind_app nret_app errno_defs)
next
  case (Some a)
  note a = this env_okD(2) [OF E(1) Some]
  note run = do_accept_alloc [OF L a, of pid ff upeer flags]
  show thesis
  proof (cases "alloc_file_pseudo E (files s)")
    case (Inl err)
    with run env_okD(4) [OF E(1) Inl] show thesis by (intro refused [of err]) (simp_all add: new_file_ready_def)
  next
    case (Inr f)
    note f = env_okD(3) [OF E(1) Inr]
    have ready: "new_file_ready E s" using Some Inr by (simp add: new_file_ready_def)
    let ?fl = "\<lparr>f_op_socket = True, private_data = a, f_flags = O_RDWR OR (flags AND O_NONBLOCK)\<rparr>"
    have o: "ops (accepted_socket k) = Some o'" using L by (simp add: accepted_socket_def listening_def)
    have undo: "accept_out_fd E pid f err (with_accepted f ?fl a (accepted_socket k) o' s) = Inr (Inl err, s\<lparr>mgr := m\<rparr>)" for err
      by (rule accept_out_fd_app [OF u f a(2)]) (simp_all add: o)
    obtain err new_sk where acc: "ops_accept E sock a (f_flags fl OR ff) = (err, new_sk)"
      by (cases "ops_accept E sock a (f_flags fl OR ff)")
    consider (hook) "security_socket_accept E sock a \<noteq> 0" | (proto) "security_socket_accept E sock a = 0" "err < 0"
      | (ok) "security_socket_accept E sock a = 0" "0 \<le> err" by linarith
    then show thesis
    proof cases
      case hook
      with assms(3) [of sock a] run Inr undo ready show thesis
        by (intro aborted [of "security_socket_accept E sock a"]) (simp_all add: Let_def)
    next
      case proto
      with run Inr undo acc ready show thesis by (intro aborted [of err]) (simp_all add: Let_def)
    next
      case ok
      let ?nk = "(accepted_socket k)\<lparr>sk := new_sk\<rparr>"
      have run': "do_accept E pid fl ff upeer flags s = accept_peer_name E pid a f upeer (with_accepted f ?fl a ?nk o' s)"
        using run Inr ok acc by (simp add: Let_def)
      have nk: "ops ?nk = Some o'" "f_op_socket ?fl" "private_data ?fl = a" using o by simp_all
      show thesis
      proof (cases rule: accept_peer_name_cases [OF u E(2) f a(2) nk(2,3,1), of upeer])
        case 1
        with run' f a nk ready show thesis by (intro accepted [of f ?fl a ?nk]) simp_all
      next
        case (2 err)
        with run' ready show thesis by (intro aborted [of err]) simp_all
      qed
    qed
  qed
qed

subsection \<open>Socket pairs\<close>

lemma release_with_socket:
  "socks s a = None \<Longrightarrow> sock_file k = None \<Longrightarrow> ops k = Some o' \<Longrightarrow>
   sock_release E pid a (with_socket a k o' s) = Inr ((), s)"
  using release_no_file [of "with_socket a k o' s" a k E pid]
  by (cases s) (auto simp: with_socket_def sock_release_def fun_eq_iff)

lemma with_socket_swap:
  "a \<noteq> b \<Longrightarrow> with_socket a k o1 (with_socket b l o2 s) = with_socket b l o2 (with_socket a k o1 s)"
  by (cases s) (auto simp: with_socket_def fun_eq_iff)

lemma with_socket_sel [simp]:
  "fds (with_socket a k o' s) = fds s" "files (with_socket a k o' s) = files s" "mgr (with_socket a k o' s) = mgr s"
  "socks (with_socket a k o' s) = (socks s)(a \<mapsto> k)"
  by (simp_all add: with_socket_def)

text \<open>A socket that has been bound to a file.\<close>

definition bound_file :: "addr \<Rightarrow> u32 \<Rightarrow> kfile" where
  "bound_file a flags = \<lparr>f_op_socket = True, private_data = a, f_flags = O_RDWR OR (flags AND O_NONBLOCK)\<rparr>"

definition with_file :: "addr \<Rightarrow> u32 \<Rightarrow> addr \<Rightarrow> socket \<Rightarrow> net_state \<Rightarrow> net_state" where
  "with_file f flags a k s = s\<lparr>socks := (socks s)(a \<mapsto> k\<lparr>sock_file := Some f\<rparr>), files := (files s)(f \<mapsto> bound_file a flags)\<rparr>"

lemma sock_alloc_file_app:
  assumes "socks s a = Some k"
  shows "sock_alloc_file E pid a flags s = (case alloc_file_pseudo E (files s) of
     Inl err \<Rightarrow> kbind (sock_release E pid a s) (\<lambda>(x, s). Inr (Inl err, s))
   | Inr f \<Rightarrow> Inr (Inr f, with_file f flags a k s))"
  using assms
  by (cases "alloc_file_pseudo E (files s)")
    (simp_all add: sock_alloc_file_def nbind_app nret_app get_sock_app set_sock_app nmod_app with_file_def bound_file_def)

lemma fput_with_file:
  assumes "socks s a = None" "files s f = None" "ops k = Some o'"
    and "unregister_socket_for_thread (kmalloc_stats E) pid (mgr s) = Inr m"
  shows "fput_last E pid f (with_file f flags a k (with_socket a k o' s)) = Inr ((), s\<lparr>mgr := m\<rparr>)"
proof -
  let ?t = "with_file f flags a k (with_socket a k o' s)"
  have t: "files ?t f = Some (bound_file a flags)" "f_op_socket (bound_file a flags)"
    "socks ?t (private_data (bound_file a flags)) = Some (k\<lparr>sock_file := Some f\<rparr>)"
    "unregister_socket_for_thread (kmalloc_stats E) pid (mgr ?t) = Inr m"
    using assms by (simp_all add: with_file_def bound_file_def)
  show ?thesis
    using fput_last_socket [OF t(1-3) _ t(4)] assms
    by (cases s) (auto simp: with_file_def with_socket_def bound_file_def fun_eq_iff)
qed

text \<open>
  The second half of \<^verbatim>\<open>socketpair\<close>: two fresh sockets are bound to files and descriptors, or both
  are gone again.
\<close>

lemma socketpair_files_cases:
  assumes E: "env_ok E" and s: "fair_ok (mgr s)" and ab: "a1 \<noteq> a2" "socks s a1 = None" "socks s a2 = None"
    and k: "sock_file k1 = None" "ops k1 = Some o1" "sock_file k2 = None" "ops k2 = Some o2"
    and fd: "fds s fd1 = Some Reserved" "fds s fd2 = Some Reserved"
  shows "\<exists>r t. socketpair_files E pid fd1 fd2 a1 a2 flags (with_socket a2 k2 o2 (with_socket a1 k1 o1 s)) = Inr (r, t) \<and>
    (if r < 0 then \<exists>m. t = s\<lparr>mgr := m, fds := (fds s)(fd2 := None, fd1 := None)\<rparr> \<and> fair_ok m
     else r = 0 \<and> mgr t = mgr s \<and> (\<exists>f1 f2. f1 \<noteq> f2 \<and> fds t = (fds s)(fd1 \<mapsto> Installed f1, fd2 \<mapsto> Installed f2) \<and>
       files t = (files s)(f1 \<mapsto> bound_file a1 flags, f2 \<mapsto> bound_file a2 flags)))"
proof -
  let ?t = "with_socket a2 k2 o2 (with_socket a1 k1 o1 s)"
  have ta: "socks ?t a1 = Some k1" "socks ?t a2 = Some k2" using ab by simp_all
  have rel1: "sock_release E pid a1 ?t = Inr ((), with_socket a2 k2 o2 s)"
    using release_with_socket [of "with_socket a2 k2 o2 s" a1 k1 o1 E pid] with_socket_swap [OF ab(1), of k1 o1 k2 o2 s] ab k
    by simp
  have rel2: "sock_release E pid a2 (with_socket a2 k2 o2 u) = Inr ((), u)" if "socks u a2 = None" for u
    by (rule release_with_socket [OF that k(3,4)])
  note defs = socketpair_files_def nbind_app nret_app socketpair_out_def put_unused_fd_def fd_install_def nmod_app
  have same: "s\<lparr>mgr := mgr s\<rparr> = s" by (cases s) simp
  show ?thesis
  proof (cases "alloc_file_pseudo E (files s)")
    case (Inl err)
    have "socketpair_files E pid fd1 fd2 a1 a2 flags ?t = Inr (err, s\<lparr>fds := (fds s)(fd2 := None, fd1 := None)\<rparr>)"
      using Inl rel1 rel2 [OF ab(3)] by (simp add: defs sock_alloc_file_app [OF ta(1)])
    with env_okD(4) [OF E Inl] s same show ?thesis
      by (intro exI [of _ err] exI) (auto intro!: exI [of _ "mgr s"])
  next
    case (Inr f1)
    note f1 = env_okD(3) [OF E Inr]
    let ?u = "with_file f1 flags a1 k1 ?t"
    have ua: "socks ?u a2 = Some k2" using ab by (simp add: with_file_def)
    show ?thesis
    proof (cases "alloc_file_pseudo E (files ?u)")
      case no2: (Inl err)
      from unregister_ok [OF E s] obtain m where m:
        "unregister_socket_for_thread (kmalloc_stats E) pid (mgr s) = Inr m" "fair_ok m" .
      have u: "?u = with_socket a2 k2 o2 (with_file f1 flags a1 k1 (with_socket a1 k1 o1 s))"
        using ab by (cases s) (auto simp: with_file_def with_socket_def fun_eq_iff)
      have "socks (with_file f1 flags a1 k1 (with_socket a1 k1 o1 s)) a2 = None"
        using ab by (simp add: with_file_def)
      note r2 = rel2 [OF this]
      have no2': "alloc_file_pseudo E (files (with_file f1 flags a1 k1 (with_socket a1 k1 o1 s))) = Inl err"
        using no2 by (simp add: with_file_def)
      have "socketpair_files E pid fd1 fd2 a1 a2 flags ?t = Inr (err, s\<lparr>mgr := m, fds := (fds s)(fd2 := None, fd1 := None)\<rparr>)"
        using Inr no2 no2' r2 fput_with_file [OF ab(2) f1 k(2) m(1)] ua
        by (simp add: defs sock_alloc_file_app [OF ta(1)] sock_alloc_file_app [OF ua [unfolded u]] u)
      with env_okD(4) [OF E no2] m(2) show ?thesis by (intro exI [of _ err] exI) auto
    next
      case yes: (Inr f2)
      have "f2 \<noteq> f1" using env_okD(3) [OF E yes] by (auto simp: with_file_def)
      let ?v = "(with_file f2 flags a2 k2 ?u)\<lparr>fds := (fds s)(fd1 \<mapsto> Installed f1, fd2 \<mapsto> Installed f2)\<rparr>"
      have run: "socketpair_files E pid fd1 fd2 a1 a2 flags ?t = Inr (0, ?v)"
        using Inr yes by (simp add: defs sock_alloc_file_app [OF ta(1)] sock_alloc_file_app [OF ua]) (simp add: with_file_def)
      have "\<exists>f1 f2. f1 \<noteq> f2 \<and> fds ?v = (fds s)(fd1 \<mapsto> Installed f1, fd2 \<mapsto> Installed f2) \<and>
          files ?v = (files s)(f1 \<mapsto> bound_file a1 flags, f2 \<mapsto> bound_file a2 flags)"
        using \<open>f2 \<noteq> f1\<close> by (intro exI [of _ f1] exI [of _ f2]) (simp add: with_file_def)
      moreover have "mgr ?v = mgr s" by (simp add: with_file_def)
      ultimately show ?thesis unfolding run by (intro exI [of _ 0] exI [of _ ?v]) simp
    qed
  qed
qed

lemma reserve_fd_app:
  assumes "env_ok E"
  obtains (none) fd where "fd < 0" "reserve_fd E s = Inr (fd, s)"
  | (some) fd where "0 \<le> fd" "fds s fd = None" "reserve_fd E s = Inr (fd, s\<lparr>fds := (fds s)(fd \<mapsto> Reserved)\<rparr>)"
proof (cases "get_unused_fd_flags E (fds s) < 0")
  case True
  then show thesis by (rule none) (simp add: reserve_fd_def Let_def True)
next
  case False
  then show thesis
    by (intro some [of "get_unused_fd_flags E (fds s)"]) (simp_all add: reserve_fd_def Let_def env_okD(5) [OF assms])
qed

lemma socketpair_create_cases:
  assumes E: "env_ok E" and hook: "\<And>a b. security_socket_socketpair E a b \<le> 0" and s: "fair_ok (mgr s)"
    and fd: "fds s fd1 = Some Reserved" "fds s fd2 = Some Reserved"
  shows "\<exists>r t. socketpair_create E pid family type protocol fd1 fd2 flags s = Inr (r, t) \<and> fair_ok (mgr t) \<and>
    (if r < 0 then t = s\<lparr>mgr := mgr t, fds := (fds s)(fd2 := None, fd1 := None)\<rparr>
     else r = 0 \<and> (\<exists>f1 f2 a1 a2. f1 \<noteq> f2 \<and> fds t = (fds s)(fd1 \<mapsto> Installed f1, fd2 \<mapsto> Installed f2) \<and>
       files t = (files s)(f1 \<mapsto> bound_file a1 flags, f2 \<mapsto> bound_file a2 flags)))"
    (is "\<exists>r t. ?R r t \<and> _ \<and> ?P r t")
proof -
  note defs = socketpair_create_def nbind_app nret_app socketpair_out_def put_unused_fd_def nmod_app create_failed_def
    sock_create_def
  from register_ok [OF E s] obtain m1 where m1: "register_socket_for_thread (kmalloc_stats E) pid (mgr s) = Inr m1" "fair_ok m1" .
  from register_ok [OF E m1(2)] obtain m2 where m2: "register_socket_for_thread (kmalloc_stats E) pid m1 = Inr m2" "fair_ok m2" .
  let ?out = "\<lambda>m. s\<lparr>mgr := m, fds := (fds s)(fd2 := None, fd1 := None)\<rparr>"
  have fin: "\<exists>r t. ?R r t \<and> fair_ok (mgr t) \<and> ?P r t"
    if "socketpair_create E pid family type protocol fd1 fd2 flags s = Inr (err, ?out m)" "err < 0" "fair_ok m" for err m
    using that by (intro exI [of _ err] exI [of _ "?out m"]) simp
  have same: "s\<lparr>mgr := mgr s\<rparr> = s" by (cases s) simp
  show ?thesis
  proof (cases rule: u_sock_create_cases [OF E m1(1), of family type protocol False])
    case (1 err)
    with same show ?thesis by (intro fin [of err "mgr s"]) (simp_all add: defs s)
  next
    case (2 err)
    then show ?thesis by (intro fin [of err m1]) (simp_all add: defs m1)
  next
    case first: (3 a1 k1 o1)
    let ?u = "with_socket a1 k1 o1 (s\<lparr>mgr := m1\<rparr>)"
    have m2': "register_socket_for_thread (kmalloc_stats E) pid (mgr ?u) = Inr m2" using m2 by simp
    have upd: "?u\<lparr>mgr := m2\<rparr> = with_socket a1 k1 o1 (s\<lparr>mgr := m2\<rparr>)" by (cases s) (simp add: with_socket_def)
    have rel: "sock_release E pid a1 (with_socket a1 k1 o1 (s\<lparr>mgr := m\<rparr>)) = Inr ((), s\<lparr>mgr := m\<rparr>)" for m
      using first by (intro release_with_socket) simp_all
    show ?thesis
    proof (cases rule: u_sock_create_cases [OF E m2', of family type protocol False])
      case (1 err)
      with first rel show ?thesis by (intro fin [of err m1]) (simp_all add: defs m1)
    next
      case (2 err)
      with first rel upd show ?thesis by (intro fin [of err m2]) (simp_all add: defs m2)
    next
      case second: (3 a2 k2 o2)
      have ab: "a1 \<noteq> a2" "socks (s\<lparr>mgr := m2\<rparr>) a1 = None" "socks (s\<lparr>mgr := m2\<rparr>) a2 = None"
        using first second by (auto split: if_splits)
      have rel2: "sock_release E pid a2 (with_socket a2 k2 o2 (with_socket a1 k1 o1 (s\<lparr>mgr := m2\<rparr>))) =
          Inr ((), with_socket a1 k1 o1 (s\<lparr>mgr := m2\<rparr>))"
        using ab second by (intro release_with_socket) simp_all
      consider (hook) "security_socket_socketpair E a1 a2 \<noteq> 0" | (proto) "security_socket_socketpair E a1 a2 = 0" "ops_socketpair E a1 a2 < 0"
        | (ok) "security_socket_socketpair E a1 a2 = 0" "\<not> ops_socketpair E a1 a2 < 0" by blast
      then show ?thesis
      proof cases
        case hook
        with assms(2) [of a1 a2] first second rel rel2 upd show ?thesis
          by (intro fin [of "security_socket_socketpair E a1 a2" m2]) (simp_all add: defs m2 socketpair_release_def)
      next
        case proto
        with first second rel rel2 upd show ?thesis
          by (intro fin [of "ops_socketpair E a1 a2" m2]) (simp_all add: defs m2 socketpair_release_def)
      next
        case ok
        have run: "socketpair_create E pid family type protocol fd1 fd2 flags s =
            socketpair_files E pid fd1 fd2 a1 a2 flags (with_socket a2 k2 o2 (with_socket a1 k1 o1 (s\<lparr>mgr := m2\<rparr>)))"
          using ok first second upd by (simp add: defs)
        from socketpair_files_cases [OF E _ ab first(3,4) second(3,4), of fd1 fd2 pid flags] fd m2(2)
        obtain r t where rt: "socketpair_create E pid family type protocol fd1 fd2 flags s = Inr (r, t)"
          "if r < 0 then \<exists>m. t = s\<lparr>mgr := m, fds := (fds s)(fd2 := None, fd1 := None)\<rparr> \<and> fair_ok m
           else r = 0 \<and> mgr t = m2 \<and> (\<exists>f1 f2. f1 \<noteq> f2 \<and> fds t = (fds s)(fd1 \<mapsto> Installed f1, fd2 \<mapsto> Installed f2) \<and>
             files t = (files s)(f1 \<mapsto> bound_file a1 flags, f2 \<mapsto> bound_file a2 flags))"
          unfolding run by (simp cong: if_cong) blast
        then show ?thesis
          by (intro exI [of _ r] exI [of _ t]) (cases "r < 0"; use m2(2) in auto)
      qed
    qed
  qed
qed

subsection \<open>Sending\<close>

definition throttle_stats :: "bool \<Rightarrow> thread_socket_stats \<Rightarrow> thread_socket_stats" where
  "throttle_stats thr st = (if thr then st\<lparr>throttled_count := throttled_count st + 1\<rparr> else st)"

lemma throttle_tracked:
  assumes inv: "fair_inv m" "is_initialized m" "fairness_enabled m" and st: "stats_of m t = Some st"
  shows "\<exists>m'. should_throttle_transmission kmalloc t m = Inr (max_sockets_per_thread m < active_sockets st, m') \<and>
    fair_inv m' \<and> is_initialized m' \<and>
    stats_of m' = (stats_of m)(t \<mapsto> throttle_stats (max_sockets_per_thread m < active_sockets st) st)"
proof -
  from get_stats_tracked [OF inv(1,2) st, of kmalloc False] obtain a where a:
    "get_thread_socket_stats kmalloc t False m = Inr (Node a, m)" "stats_mem m a = Some st" "a \<in> set (threads m)" .
  let ?st = "st\<lparr>throttled_count := throttled_count st + 1\<rparr>"
  show ?thesis
  proof (cases "max_sockets_per_thread m < active_sockets st")
    case True
    then show ?thesis
      using a inv fair_inv_upd [OF inv(1) a(2), of ?st] stats_of_upd [OF inv(1) st a(2,3), of ?st]
      by (simp add: should_throttle_transmission_def read_active_def upd_stats_def throttle_stats_def)
  next
    case False
    have "(stats_of m)(t \<mapsto> st) = stats_of m" using st by (simp add: fun_upd_idem)
    with False show ?thesis
      using a inv by (simp add: should_throttle_transmission_def read_active_def throttle_stats_def)
  qed
qed

text \<open>What throttling does to the socket.\<close>

definition lower_priority :: "bool \<Rightarrow> socket \<Rightarrow> socket" where
  "lower_priority thr k = (if thr then k\<lparr>sk := map_option (\<lambda>c. c\<lparr>sk_priority := 0\<rparr>) (sk k)\<rparr> else k)"

lemma throttle_sock_app:
  "socks s a = Some k \<Longrightarrow> (if thr then throttle_sock a else nret ()) s =
     Inr ((), s\<lparr>socks := (socks s)(a \<mapsto> lower_priority thr k), slept := slept s + (if thr then 100 else 0)\<rparr>)"
  by (cases "sk k"; cases s)
    (auto simp: throttle_sock_def nbind_app nret_app get_sock_def set_sock_app nmod_app lower_priority_def fun_upd_idem)

lemma u_sock_sendmsg_app:
  assumes inv: "fair_inv (mgr s)" "is_initialized (mgr s)" "fairness_enabled (mgr s)"
    and st: "stats_of (mgr s) pid = Some st" and k: "socks s a = Some k" "ops k = Some o'"
    and hook: "security_socket_sendmsg E a msg = 0" and ret: "ops_sendmsg E a msg = (ret, msg')" "0 \<le> ret"
    and left: "msg_left msg \<noteq> 0"
  shows "\<exists>s'. u_sock_sendmsg E pid a msg s = Inr ((ret, msg'), s') \<and>
    (let thr = max_sockets_per_thread (mgr s) < active_sockets st in
     socks s' = (socks s)(a \<mapsto> lower_priority thr k) \<and> slept s' = slept s + (if thr then 100 else 0) \<and>
     stats_of (mgr s') = (stats_of (mgr s))(pid \<mapsto> (throttle_stats thr st)\<lparr>total_bytes_sent := total_bytes_sent st + ucast (msg_left msg)\<rparr>))"
proof -
  let ?thr = "max_sockets_per_thread (mgr s) < active_sockets st"
  from throttle_tracked [OF inv st, of "kmalloc_stats E"] obtain m1 where m1:
    "should_throttle_transmission (kmalloc_stats E) pid (mgr s) = Inr (?thr, m1)" "fair_inv m1" "is_initialized m1"
    "stats_of m1 = (stats_of (mgr s))(pid \<mapsto> throttle_stats ?thr st)" by blast
  from m1(4) have st1: "stats_of m1 pid = Some (throttle_stats ?thr st)" by simp
  from traffic_tracked [OF m1(2,3) st1, of "kmalloc_stats E" "msg_left msg" 0] obtain m2 where m2:
    "update_socket_traffic (kmalloc_stats E) pid (msg_left msg) 0 m1 = Inr m2"
    "stats_of m2 = (stats_of m1)(pid \<mapsto> (throttle_stats ?thr st)\<lparr>
        total_bytes_sent := total_bytes_sent (throttle_stats ?thr st) + ucast (msg_left msg),
        total_bytes_received := total_bytes_received (throttle_stats ?thr st) + ucast (0 :: u64)\<rparr>)" .
  have tot: "total_bytes_sent (throttle_stats ?thr st) = total_bytes_sent st" by (simp add: throttle_stats_def)
  let ?t = "s\<lparr>mgr := m1, socks := (socks s)(a \<mapsto> lower_priority ?thr k), slept := slept s + (if ?thr then 100 else 0)\<rparr>"
  have ops: "ops (lower_priority ?thr k) = Some o'" using k(2) by (simp add: lower_priority_def)
  have q: "ret \<noteq> - EIOCBQUEUED" using ret(2) by (simp add: errno_defs)
  have thr: "(if ?thr then throttle_sock a else nret ()) (s\<lparr>mgr := m1\<rparr>) = Inr ((), ?t)"
    using throttle_sock_app [of "s\<lparr>mgr := m1\<rparr>" a k ?thr] k(1) by simp
  have "u_sock_sendmsg E pid a msg s = Inr ((ret, msg'), ?t\<lparr>mgr := m2\<rparr>)"
    using m1(1) thr hook ret left ops q m2(1)
    by (simp add: u_sock_sendmsg_def nbind_app on_mgr_app sock_sendmsg_nosec_def get_sock_def nret_app on_mgr0_def)
  then show ?thesis
    using m2(2) m1(4) by (intro exI [of _ "?t\<lparr>mgr := m2\<rparr>"]) (simp add: Let_def tot)
qed

subsection \<open>Properties\<close>

text \<open>
  C13. Opening a socket and closing its descriptor is neutral: descriptor table, files, sockets,
  module references and sleep time are as before, and so is every thread's count of open sockets,
  whatever the protocol and the allocators answered.
\<close>

theorem socket_close_roundtrip:
  assumes "env_ok E" "tracked s pid n" "0 \<le> n" "n + 1 < 2 ^ 31"
    and "u_sys_socket E pid family type protocol s = Inr (fd, s')" "0 \<le> fd"
  shows "\<exists>s''. close_fd E pid fd s' = Inr (0, s'') \<and> s'' = s\<lparr>mgr := mgr s''\<rparr> \<and>
    active_count (mgr s'') = active_count (mgr s)"
proof -
  from tracked_register [OF assms(2,4)] obtain m where m:
    "register_socket_for_thread (kmalloc_stats E) pid (mgr s) = Inr m" "fair_ready m"
    "active_count m = (active_count (mgr s))(pid \<mapsto> n + 1)" .
  from m(3) have "active_count m pid = Some (n + 1)" by simp
  from tracked_unregister [OF m(2) this] assms(3) obtain m' where m':
    "unregister_socket_for_thread (kmalloc_stats E) pid m = Inr m'"
    "active_count m' = (active_count m)(pid \<mapsto> n)" by auto
  have cnt: "active_count m' = active_count (mgr s)"
    using m m' assms(2) by (simp add: tracked_def fun_upd_idem)
  show ?thesis
  proof (cases rule: u_sys_socket_cases [OF assms(1) m(1), of family type protocol])
    case (3 fd' f fl a k o')
    have "close_fd E pid fd s' = Inr (0, s\<lparr>mgr := m, mgr := m'\<rparr>)"
      using close_opened [of E pid "s\<lparr>mgr := m\<rparr>" m' fd' f a fl k o'] 3 m'(1) assms(5) by simp
    with cnt show ?thesis by simp
  qed (use assms(5,6) in auto)
qed

text \<open>
  C14. Every failure of \<^verbatim>\<open>socket()\<close> gives back all it took except the charge: the descriptor
  table, the files, the sockets and the module references are unchanged, and the manager is
  unchanged or has charged the thread for one socket. A success adds one descriptor, one file,
  one socket and one module reference, all fresh, and one charge.
\<close>

theorem socket_no_leak:
  assumes "env_ok E" "fair_ok (mgr s)"
  shows "\<exists>fd s' m. u_sys_socket E pid family type protocol s = Inr (fd, s') \<and>
    register_socket_for_thread (kmalloc_stats E) pid (mgr s) = Inr m \<and>
    (if fd < 0 then s' = s \<or> s' = s\<lparr>mgr := m\<rparr>
     else \<exists>f fl a k o'. s' = with_fd fd f fl a k (with_socket a k o' (s\<lparr>mgr := m\<rparr>)) \<and>
       fds s fd = None \<and> files s f = None \<and> socks s a = None \<and> private_data fl = a \<and> ops k = Some o')"
proof -
  from register_ok [OF assms] obtain m where m:
    "register_socket_for_thread (kmalloc_stats E) pid (mgr s) = Inr m" .
  show ?thesis
    by (cases rule: u_sys_socket_cases [OF assms(1) m, of family type protocol])
      (use m in \<open>force+\<close>)
qed

text \<open>
  C15. Failed creations are charged for ever: \<^verbatim>\<open>n\<close> calls for a family that is not registered all
  return \<^verbatim>\<open>-EAFNOSUPPORT\<close> and change nothing but the thread's count, which grows by \<^verbatim>\<open>n\<close>; once it
  reaches the limit every receive of that thread, on any socket, is refused with \<^verbatim>\<open>-EAGAIN\<close>.
\<close>

theorem failed_sockets_starve_thread:
  assumes "env_ok E" "create_ready E s family (sint (type AND SOCK_TYPE_MASK)) protocol False a"
    and "(type AND NOT SOCK_TYPE_MASK) AND NOT (O_CLOEXEC OR O_NONBLOCK) = 0"
    and "net_families E (create_family family (sint (type AND SOCK_TYPE_MASK))) = None"
    and "tracked s pid c" "fairness_enabled (mgr s)" "c + int n < 2 ^ 31"
    and "uint (max_sockets_per_thread (mgr s)) \<le> c + int n"
  shows "\<exists>s'. socket_calls E pid family type protocol n s = Inr (replicate n (- EAFNOSUPPORT), s') \<and>
    s' = s\<lparr>mgr := mgr s'\<rparr> \<and> active_count (mgr s') pid = Some (c + int n) \<and>
    (\<forall>b msg flags. \<exists>s''. sock_recvmsg E pid b msg flags s' = Inr ((- EAGAIN, msg), s''))"
proof -
  from socket_calls_unsupported [OF assms(1-5,7)] obtain m where m:
    "socket_calls E pid family type protocol n s = Inr (replicate n (- EAFNOSUPPORT), s\<lparr>mgr := m\<rparr>)"
    "tracked (s\<lparr>mgr := m\<rparr>) pid (c + int n)" "fairness_enabled m = fairness_enabled (mgr s)"
    "max_sockets_per_thread m = max_sockets_per_thread (mgr s)" by blast
  with recv_refused [OF m(2)] assms(6,8) show ?thesis by (simp add: tracked_def)
qed

text \<open>The accept gets as far as building the file: its flags are known, and the descriptor, the socket and the file can be had.\<close>

definition accept_builds_file :: "net_env \<Rightarrow> u32 \<Rightarrow> net_state \<Rightarrow> bool" where
  "accept_builds_file E flags s =
     (flags AND NOT (O_CLOEXEC OR O_NONBLOCK) = 0 \<and> 0 \<le> get_unused_fd_flags E (fds s) \<and> new_file_ready E s)"

text \<open>
  C16. \<^verbatim>\<open>accept\<close> does not charge the thread but closing the accepted socket gives a charge back:
  a thread with \<^verbatim>\<open>n > 0\<close> open sockets has the same count after a successful accept and \<^verbatim>\<open>n - 1\<close>
  after closing the new descriptor, with everything else as before; an accept that fails has lowered the count
  to \<^verbatim>\<open>n - 1\<close> if it got as far as building the file of the new socket, and not changed it otherwise.
\<close>

theorem accept_unbalanced:
  assumes "env_ok E" "names_fit E" "\<forall>a b. security_socket_accept E a b \<le> 0"
    and "fget s lfd = Some fl" "listening s fl sock k o'" "tracked s pid n" "0 < n"
  shows "\<exists>r s'. u_sys_accept4 E pid lfd upeer flags s = Inr (r, s') \<and>
    (if r < 0 then s' = s\<lparr>mgr := mgr s'\<rparr> \<and> active_count (mgr s') pid = Some (if accept_builds_file E flags s then n - 1 else n)
     else accept_builds_file E flags s \<and> mgr s' = mgr s \<and> (\<exists>s''. close_fd E pid r s' = Inr (0, s'') \<and> s'' = s\<lparr>mgr := mgr s''\<rparr> \<and>
       active_count (mgr s'') pid = Some (n - 1)))"
proof (cases "flags AND NOT (O_CLOEXEC OR O_NONBLOCK) = 0")
  case False
  then show ?thesis
    using assms(4,6) by (simp add: u_sys_accept4_def u_sys_accept4_file_def nret_app errno_defs tracked_def accept_builds_file_def)
next
  case fl: True
  note defs = u_sys_accept4_def u_sys_accept4_file_def nbind_app nret_app put_unused_fd_def nmod_app fd_install_def
  from assms(6) have rdy: "fair_ready (mgr s)" "active_count (mgr s) pid = Some n" by (simp_all add: tracked_def)
  from tracked_unregister [OF this assms(7)] obtain m where m:
    "unregister_socket_for_thread (kmalloc_stats E) pid (mgr s) = Inr m"
    "active_count m = (active_count (mgr s))(pid \<mapsto> n - 1)" by blast
  show ?thesis
  proof (cases rule: reserve_fd_app [OF assms(1), of s])
    case (1 fd)
    then have "\<not> accept_builds_file E flags s" by (auto simp: accept_builds_file_def reserve_fd_def Let_def split: if_splits)
    with 1 assms(4) fl rdy show ?thesis by (intro exI [of _ fd] exI [of _ s]) (simp add: defs)
  next
    case fd: (2 fd)
    then have built: "accept_builds_file E flags s = new_file_ready E s"
      using fl by (auto simp: accept_builds_file_def reserve_fd_def Let_def split: if_splits)
    have nr: "new_file_ready E (s\<lparr>fds := x\<rparr>) = new_file_ready E s" for x by (simp add: new_file_ready_def)
    let ?t = "s\<lparr>fds := (fds s)(fd \<mapsto> Reserved)\<rparr>"
    have L: "listening ?t fl sock k o'" using assms(5) by (simp add: listening_def)
    have u: "unregister_socket_for_thread (kmalloc_stats E) pid (mgr ?t) = Inr m" using m by simp
    have undo: "?t\<lparr>fds := (fds ?t)(fd := None)\<rparr> = s" using fd(2) by (cases s) (auto simp: fun_eq_iff)
    show ?thesis
    proof (cases rule: do_accept_cases [OF assms(1,2) _ L u, of 0 upeer flags])
      case 1
      then show ?case using assms(3) by blast
    next
      case (2 err)
      with fd fl assms(4) undo rdy built nr show ?thesis by (intro exI [of _ err] exI [of _ s]) (simp add: defs)
    next
      case (3 err)
      have "?t\<lparr>mgr := m, fds := (fds ?t)(fd := None)\<rparr> = s\<lparr>mgr := m\<rparr>" using fd(2) by (cases s) (auto simp: fun_eq_iff)
      with 3 fd fl assms(4) m built nr show ?thesis by (intro exI [of _ err] exI [of _ "s\<lparr>mgr := m\<rparr>"]) (simp add: defs)
    next
      case (4 f nfl a nk)
      let ?nk = "nk\<lparr>sock_file := None\<rparr>"
      have st: "(with_accepted f nfl a nk o' ?t)\<lparr>fds := (fds s)(fd \<mapsto> Installed f)\<rparr> =
          with_fd fd f nfl a ?nk (with_socket a ?nk o' s)"
        by (cases s) (simp add: with_accepted_def with_fd_def with_socket_def)
      have "u_sys_accept4 E pid lfd upeer flags s = Inr (fd, with_fd fd f nfl a ?nk (with_socket a ?nk o' s))"
        using 4(1) fd fl assms(4) st by (simp add: defs) (simp add: with_accepted_def)
      moreover have "close_fd E pid fd (with_fd fd f nfl a ?nk (with_socket a ?nk o' s)) = Inr (0, s\<lparr>mgr := m\<rparr>)"
        by (rule close_opened [OF m(1)]) (use fd 4 in simp_all)
      ultimately show ?thesis using fd(1) m(2) 4 built nr by (simp add: with_fd_def)
    qed
  qed
qed

text \<open>
  \<^verbatim>\<open>socketpair()\<close> is all or nothing: a negative result leaves the descriptors, files, sockets
  and module references as they were, and a success installs two distinct files for two sockets
  in the two descriptors that were free.
\<close>

lemma socketpair_no_leak:
  assumes "env_ok E" "\<forall>a b. security_socket_socketpair E a b \<le> 0" "\<forall>i fd. put_user i fd \<le> 0" "fair_ok (mgr s)"
  shows "\<exists>r s'. u_sys_socketpair E pid family type protocol put_user s = Inr (r, s') \<and> fair_ok (mgr s') \<and>
    (if r < 0 then s' = s\<lparr>mgr := mgr s'\<rparr>
     else \<exists>fd1 fd2 f1 f2 a1 a2. fd1 \<noteq> fd2 \<and> f1 \<noteq> f2 \<and> fds s fd1 = None \<and> fds s fd2 = None \<and>
       fds s' = (fds s)(fd1 \<mapsto> Installed f1, fd2 \<mapsto> Installed f2) \<and>
       files s' = (files s)(f1 \<mapsto> bound_file a1 (type AND NOT SOCK_TYPE_MASK), f2 \<mapsto> bound_file a2 (type AND NOT SOCK_TYPE_MASK)))"
    (is "\<exists>r s'. ?R r s' \<and> _ \<and> ?P r s'")
proof (cases "(type AND NOT SOCK_TYPE_MASK) AND NOT (O_CLOEXEC OR O_NONBLOCK) = 0")
  case False
  then show ?thesis using assms(4) by (simp add: u_sys_socketpair_def Let_def nret_app errno_defs)
next
  case fl: True
  note defs = u_sys_socketpair_def Let_def nbind_app nret_app put_unused_fd_def nmod_app socketpair_out_def
  have same: "s = s\<lparr>mgr := mgr s\<rparr>" by (cases s) simp
  have fin: ?thesis if "u_sys_socketpair E pid family type protocol put_user s = Inr (r, s)" "r < 0" for r
    using that same assms(4) by (intro exI [of _ r] exI [of _ s]) simp
  show ?thesis
  proof (cases rule: reserve_fd_app [OF assms(1), of s])
    case (1 fd)
    with fl show ?thesis by (intro fin [of fd]) (simp_all add: defs)
  next
    case fd1: (2 fd1)
    let ?t = "s\<lparr>fds := (fds s)(fd1 \<mapsto> Reserved)\<rparr>"
    show ?thesis
    proof (cases rule: reserve_fd_app [OF assms(1), of ?t])
      case (1 fd)
      have "?t\<lparr>fds := (fds ?t)(fd1 := None)\<rparr> = s" using fd1(2) by (cases s) (auto simp: fun_eq_iff)
      with 1 fd1 fl show ?thesis by (intro fin [of fd]) (simp_all add: defs)
    next
      case fd2: (2 fd2)
      let ?u = "?t\<lparr>fds := (fds ?t)(fd2 \<mapsto> Reserved)\<rparr>"
      have ne: "fd1 \<noteq> fd2" "fds s fd2 = None" using fd2(2) by (auto split: if_splits)
      have undo: "s\<lparr>mgr := m, fds := (fds ?u)(fd2 := None, fd1 := None)\<rparr> = s\<lparr>mgr := m\<rparr>" for m
        using fd1(2) ne by (cases s) (auto simp: fun_eq_iff)
      consider (p0) "put_user 0 fd1 \<noteq> 0" | (p1) "put_user 0 fd1 = 0" "put_user 1 fd2 \<noteq> 0"
        | (ok) "put_user 0 fd1 = 0" "put_user 1 fd2 = 0" by blast
      then show ?thesis
      proof cases
        case p0
        with assms(3) [rule_format, of 0 fd1] fd1 fd2 fl undo [of "mgr s"] same
        show ?thesis by (intro fin [of "put_user 0 fd1"]) (simp_all add: defs)
      next
        case p1
        with assms(3) [rule_format, of 1 fd2] fd1 fd2 fl undo [of "mgr s"] same
        show ?thesis by (intro fin [of "put_user 1 fd2"]) (simp_all add: defs)
      next
        case ok
        have run: "u_sys_socketpair E pid family type protocol put_user s =
            socketpair_create E pid family (sint (type AND SOCK_TYPE_MASK)) protocol fd1 fd2 (type AND NOT SOCK_TYPE_MASK) ?u"
          using ok fd1 fd2 fl by (simp add: defs)
        have u: "fds ?u fd1 = Some Reserved" "fds ?u fd2 = Some Reserved" "fair_ok (mgr ?u)" using assms(4) ne by simp_all
        note c = socketpair_create_cases [OF assms(1) assms(2) [rule_format] u(3,1,2), of pid family
          "sint (type AND SOCK_TYPE_MASK)" protocol "type AND NOT SOCK_TYPE_MASK", folded run]
        then obtain r t where rt: "?R r t" "fair_ok (mgr t)" and
          rest: "if r < 0 then t = ?u\<lparr>mgr := mgr t, fds := (fds ?u)(fd2 := None, fd1 := None)\<rparr>
             else r = 0 \<and> (\<exists>f1 f2 a1 a2. f1 \<noteq> f2 \<and> fds t = (fds ?u)(fd1 \<mapsto> Installed f1, fd2 \<mapsto> Installed f2) \<and>
               files t = (files ?u)(f1 \<mapsto> bound_file a1 (type AND NOT SOCK_TYPE_MASK), f2 \<mapsto> bound_file a2 (type AND NOT SOCK_TYPE_MASK)))"
          by blast
        have "?P r t"
        proof (cases "r < 0")
          case True
          with rest undo [of "mgr t"] show ?thesis by simp
        next
          case False
          have "(fds ?u)(fd1 \<mapsto> Installed f1, fd2 \<mapsto> Installed f2) = (fds s)(fd1 \<mapsto> Installed f1, fd2 \<mapsto> Installed f2)" for f1 f2
            by (auto simp: fun_eq_iff)
          with False rest fd1(2) ne show ?thesis by simp blast
        qed
        with rt show ?thesis by blast
      qed
    qed
  qed
qed

text \<open>
  Sending through a socket whose protocol accepts the message: the result is the protocol's,
  the caller's address and length are restored, a thread over its socket limit is throttled (lowest
  priority, 100 ms of sleep, one more in its throttle counter), and the bytes charged to the thread
  are those the message asked to send, not those the protocol reports as sent.
\<close>

lemma send_counts_request:
  assumes "fair_inv (mgr s)" "is_initialized (mgr s)" "fairness_enabled (mgr s)" "stats_of (mgr s) pid = Some st"
    and "socks s a = Some k" "ops k = Some o'" "msg_name msg = Some name" "0 \<le> msg_namelen msg" "msg_namelen msg \<le> SOCKADDR_STORAGE"
    and "security_socket_sendmsg E a (msg\<lparr>msg_name := Some local\<rparr>) = 0"
    and "ops_sendmsg E a (msg\<lparr>msg_name := Some local\<rparr>) = (ret, msg')" "0 \<le> ret" "msg_left msg \<noteq> 0"
    and "thr = (max_sockets_per_thread (mgr s) < active_sockets st)"
  shows "\<exists>s' msg''. sock_sendmsg E pid local a msg s = Inr ((ret, msg''), s') \<and>
    msg_name msg'' = Some name \<and> msg_namelen msg'' = msg_namelen msg \<and>
    socks s' = (socks s)(a \<mapsto> lower_priority thr k) \<and> slept s' = slept s + (if thr then 100 else 0) \<and>
    stats_of (mgr s') = (stats_of (mgr s))(pid \<mapsto> (throttle_stats thr st)\<lparr>total_bytes_sent := total_bytes_sent st + ucast (msg_left msg)\<rparr>)"
proof -
  have "msg_left (msg\<lparr>msg_name := Some local\<rparr>) \<noteq> 0" using assms(13) by simp
  from u_sock_sendmsg_app [OF assms(1-6,10-12) this] assms(7-9,14) show ?thesis
    by (auto simp: sock_sendmsg_def nbind_app nret_app Let_def)
qed

subsection \<open>Instances\<close>

text \<open>
  A small environment: two inodes, two files and two descriptors, one registered family whose
  protocol accepts everything.
\<close>

definition demo_env :: net_env where
  "demo_env = \<lparr>kmalloc_stats = stats_alloc7, jiffies_now = 900,
     new_inode_pseudo = (\<lambda>m. if m 50 = None then Some 50 else if m 51 = None then Some 51 else None),
     alloc_file_pseudo = (\<lambda>m. if m 60 = None then Inr 60 else if m 61 = None then Inr 61 else Inl (- ENFILE)),
     get_unused_fd_flags = (\<lambda>t. if t 3 = None then 3 else if t 4 = None then 4 else - 24),
     try_module_get = (\<lambda>o' r. True), net_families = (\<lambda>f. if f = 2 then Some 9 else None),
     pf_create = (\<lambda>f a p k. (0, Some 9, Some \<lparr>sk_priority = 6, sk_uid = 0\<rparr>)),
     security_socket_create = (\<lambda>f t p k. 0), security_socket_post_create = (\<lambda>a. 0),
     security_socket_socketpair = (\<lambda>a b. 0), ops_socketpair = (\<lambda>a b. 0),
     security_socket_accept = (\<lambda>a b. 0), ops_accept = (\<lambda>a b fl. (0, Some \<lparr>sk_priority = 6, sk_uid = 0\<rparr>)),
     ops_getname = (\<lambda>a p. (16, [])), audit_sockaddr = (\<lambda>n. 0),
     security_socket_sendmsg = (\<lambda>a m. 0), ops_sendmsg = (\<lambda>a m. (5, m\<lparr>msg_namelen := 0\<rparr>)),
     security_socket_recvmsg = (\<lambda>a m fl. 0), ops_recvmsg = (\<lambda>a m fl. (5, m))\<rparr>"

lemma demo_env_ok: "env_ok demo_env"
  unfolding env_ok_def
  by (intro conjI) (auto simp: demo_env_def stats_alloc7_fresh errno_defs split: if_splits)

text \<open>A manager that tracks thread 100 with twelve open sockets, and an idle socket layer.\<close>

definition busy_stats :: thread_socket_stats where
  "busy_stats = (new_stats 100)\<lparr>active_sockets := 12\<rparr>"

definition busy_mgr :: socket_fairness_manager where
  "busy_mgr = fair_two\<lparr>stats_mem := (stats_mem fair_two)(7 \<mapsto> busy_stats)\<rparr>"

definition demo_net :: net_state where
  "demo_net = \<lparr>socks = [40 \<mapsto> sock_alloc_inode\<lparr>ops := Some 9, sk := Some \<lparr>sk_priority = 6, sk_uid = 0\<rparr>, sock_file := Some 41\<rparr>],
     files = [41 \<mapsto> \<lparr>f_op_socket = True, private_data = 40, f_flags = 2\<rparr>], fds = [20 \<mapsto> Installed 41],
     mods = (\<lambda>o'. 1), mgr = busy_mgr, slept = 0\<rparr>"

definition demo_msg :: msghdr where
  "demo_msg = \<lparr>msg_name = Some 80, msg_namelen = 16, msg_left = 1000, msg_flags = 0\<rparr>"

lemma busy_mgr:
  "fair_inv busy_mgr" "is_initialized busy_mgr" "fairness_enabled busy_mgr" "stats_of busy_mgr 100 = Some busy_stats"
  "max_sockets_per_thread busy_mgr = 10" "fair_ok busy_mgr"
proof -
  have n: "stats_mem fair_two 7 = Some (new_stats 100)" "7 \<in> set (threads fair_two)"
    by (simp_all add: fair_two_def add_stats_def)
  have t: "tid busy_stats = tid (new_stats 100)" by (simp add: busy_stats_def)
  show inv: "fair_inv busy_mgr" using fair_inv_upd [OF fair_two(1) n(1) t] by (simp add: busy_mgr_def)
  show "stats_of busy_mgr 100 = Some busy_stats"
    using stats_of_upd [OF fair_two(1,4) n t] by (simp add: busy_mgr_def)
  show "is_initialized busy_mgr" "fairness_enabled busy_mgr" using fair_two by (simp_all add: busy_mgr_def)
  show "max_sockets_per_thread busy_mgr = 10"
    by (simp add: busy_mgr_def fair_two_def add_stats_def socket_fairness_init_def fairness_bss_def)
  then show "fair_ok busy_mgr"
    using inv fair_two(7) by (simp add: fair_ok_def busy_mgr_def)
qed

lemma demo_tracked: "tracked demo_net 100 12"
  using busy_mgr by (simp add: tracked_def demo_net_def fair_ready_def active_count_def busy_stats_def)

lemma demo_flags:
  "(2 :: u32) AND NOT SOCK_TYPE_MASK = 0" "(2 :: u32) AND SOCK_TYPE_MASK = 2"
  by (simp_all add: SOCK_TYPE_MASK_def)

lemma demo_socket: "\<exists>s'. u_sys_socket demo_env 100 2 2 0 demo_net = Inr (3, s')"
proof -
  have p: "12 + 1 < (2 ^ 31 :: int)" by simp
  from tracked_register [OF demo_tracked p] obtain m where m:
    "register_socket_for_thread (kmalloc_stats demo_env) 100 (mgr demo_net) = Inr m" .
  then show ?thesis
    by (simp add: u_sys_socket_def Let_def demo_flags sock_create_def u_sock_create_def demo_env_def demo_net_def
        NPROTO_def SOCK_MAX_def create_family_def PF_INET_def SOCK_PACKET_def nbind_app nret_app sock_alloc_def
        get_sock_def set_sock_def on_mgr0_def sock_create_family_def net_step_defs nmod_app sock_map_fd_def
        reserve_fd_def sock_alloc_file_def errno_defs)
qed

lemma socket_close_roundtrip_witness:
  "\<exists>s' s''. u_sys_socket demo_env 100 2 2 0 demo_net = Inr (3, s') \<and> close_fd demo_env 100 3 s' = Inr (0, s'') \<and>
     active_count (mgr s'') = active_count (mgr demo_net)"
proof -
  from demo_socket obtain s' where s': "u_sys_socket demo_env 100 2 2 0 demo_net = Inr (3, s')" ..
  with socket_close_roundtrip [OF demo_env_ok demo_tracked _ _ s'] show ?thesis by auto
qed

lemma socket_no_leak_witness:
  "\<exists>fd s' m. u_sys_socket demo_env 100 2 2 0 demo_net = Inr (fd, s') \<and>
     register_socket_for_thread stats_alloc7 100 (mgr demo_net) = Inr m"
  using socket_no_leak [OF demo_env_ok, of demo_net 100 2 2 0] busy_mgr(6) by (auto simp: demo_net_def demo_env_def)

lemma failed_sockets_starve_thread_witness:
  "\<exists>s' s''. socket_calls demo_env 100 5 2 0 3 demo_net = Inr (replicate 3 (- EAFNOSUPPORT), s') \<and>
     active_count (mgr s') 100 = Some 15 \<and> sock_recvmsg demo_env 100 40 demo_msg 0 s' = Inr ((- EAGAIN, demo_msg), s'')"
proof -
  have r: "create_ready demo_env demo_net 5 (sint ((2 :: u32) AND SOCK_TYPE_MASK)) 0 False 50"
    by (simp add: create_ready_def demo_flags demo_env_def demo_net_def NPROTO_def SOCK_MAX_def)
  have p: "net_families demo_env (create_family 5 (sint ((2 :: u32) AND SOCK_TYPE_MASK))) = None"
    by (simp add: demo_flags demo_env_def create_family_def PF_INET_def)
  have e: "fairness_enabled (mgr demo_net)" "uint (max_sockets_per_thread (mgr demo_net)) \<le> 12 + int 3"
    using busy_mgr by (simp_all add: demo_net_def)
  from failed_sockets_starve_thread [OF demo_env_ok r _ p demo_tracked e(1) _ e(2)] demo_flags
  show ?thesis by auto
qed

lemma accept_unbalanced_witness:
  "\<exists>r s'. u_sys_accept4 demo_env 100 20 None 0 demo_net = Inr (r, s') \<and>
    (if r < 0 then s' = demo_net\<lparr>mgr := mgr s'\<rparr> \<and> active_count (mgr s') 100 = Some (if accept_builds_file demo_env 0 demo_net then 12 - 1 else 12)
     else accept_builds_file demo_env 0 demo_net \<and> mgr s' = mgr demo_net \<and> (\<exists>s''. close_fd demo_env 100 r s' = Inr (0, s'') \<and>
       s'' = demo_net\<lparr>mgr := mgr s''\<rparr> \<and> active_count (mgr s'') 100 = Some (12 - 1)))"
proof -
  have f: "fget demo_net 20 = Some \<lparr>f_op_socket = True, private_data = 40, f_flags = 2\<rparr>"
    by (simp add: fget_def demo_net_def)
  have l: "listening demo_net \<lparr>f_op_socket = True, private_data = 40, f_flags = 2\<rparr> 40
      (sock_alloc_inode\<lparr>ops := Some 9, sk := Some \<lparr>sk_priority = 6, sk_uid = 0\<rparr>, sock_file := Some 41\<rparr>) 9"
    by (simp add: listening_def demo_net_def)
  have n: "names_fit demo_env" "\<forall>a b. security_socket_accept demo_env a b \<le> 0"
    by (simp_all add: names_fit_def demo_env_def SOCKADDR_STORAGE_def)
  show ?thesis by (rule accept_unbalanced [OF demo_env_ok n f l demo_tracked]) simp
qed

lemma socketpair_no_leak_witness:
  "\<exists>r s'. u_sys_socketpair demo_env 100 5 2 0 (\<lambda>i fd. 0) demo_net = Inr (r, s') \<and> fair_ok (mgr s')"
  using socketpair_no_leak [OF demo_env_ok, of "\<lambda>i fd. 0" demo_net 100 5 2 0] busy_mgr(6)
  by (auto simp: demo_net_def demo_env_def)

lemma send_counts_request_witness:
  "\<exists>s' msg''. sock_sendmsg demo_env 100 70 40 demo_msg demo_net = Inr ((5, msg''), s') \<and>
     msg_name msg'' = Some 80 \<and> msg_namelen msg'' = 16 \<and> slept s' = 100 \<and>
     total_bytes_sent (the (stats_of (mgr s') 100)) = 1000"
proof -
  let ?k = "sock_alloc_inode\<lparr>ops := Some 9, sk := Some \<lparr>sk_priority = 6, sk_uid = 0\<rparr>, sock_file := Some 41\<rparr>"
  have k: "socks demo_net 40 = Some ?k" "ops ?k = Some 9" by (simp_all add: demo_net_def)
  have m: "fair_inv (mgr demo_net)" "is_initialized (mgr demo_net)" "fairness_enabled (mgr demo_net)"
    "stats_of (mgr demo_net) 100 = Some busy_stats" using busy_mgr by (simp_all add: demo_net_def)
  have thr: "max_sockets_per_thread (mgr demo_net) < active_sockets busy_stats"
    using busy_mgr(5) by (simp add: demo_net_def busy_stats_def)
  have g: "msg_name demo_msg = Some 80" "0 \<le> msg_namelen demo_msg" "msg_namelen demo_msg \<le> SOCKADDR_STORAGE"
    "security_socket_sendmsg demo_env 40 (demo_msg\<lparr>msg_name := Some 70\<rparr>) = 0"
    "ops_sendmsg demo_env 40 (demo_msg\<lparr>msg_name := Some 70\<rparr>) = (5, demo_msg\<lparr>msg_name := Some 70, msg_namelen := 0\<rparr>)"
    "msg_left demo_msg \<noteq> 0" by (simp_all add: demo_msg_def demo_env_def SOCKADDR_STORAGE_def)
  from send_counts_request [OF m k g(1-5) _ g(6), of True] thr
  obtain s' msg'' where "sock_sendmsg demo_env 100 70 40 demo_msg demo_net = Inr ((5, msg''), s')"
    "msg_name msg'' = Some 80" "msg_namelen msg'' = msg_namelen demo_msg" "slept s' = slept demo_net + 100"
    "stats_of (mgr s') = (stats_of (mgr demo_net))(100 \<mapsto> (throttle_stats True busy_stats)\<lparr>total_bytes_sent :=
       total_bytes_sent busy_stats + ucast (msg_left demo_msg)\<rparr>)" by auto
  then show ?thesis
    by (simp add: demo_msg_def demo_net_def busy_stats_def new_stats_def)
qed

end
