(* ===== verification/Net_Calls.thy ===== *)
theory Net_Calls
  imports Net_Socket
begin

text \<open>
  The remaining system calls of \<^verbatim>\<open>net/socket.c\<close>: bind, listen, connect, getsockname, getpeername,
  sendto, recvfrom, setsockopt, getsockopt and shutdown, with the socket file operations around
  them (extended attributes, attributes, asynchronous notification).

  A call returns its result together with what it passed on: the protocol operations it invoked,
  in order, or the bytes it stored in user memory. The security hooks and the protocol operations
  answer through \<^verbatim>\<open>call_env\<close>.
\<close>

subsection \<open>Calls into the protocol\<close>

datatype proto_call =
    Bind addr "u8 list" int
  | Listen addr s32
  | Connect addr "u8 list" int u32
  | GetName addr int
  | SetSockOpt addr int int int
  | SockSetSockOpt addr int int int
  | GetSockOpt addr int int
  | SockGetSockOpt addr int int
  | Shutdown addr int

record sk_info =
  sk_protocol :: int
  sk_type :: int
  sk_family :: int

record call_env =
  net :: net_env
  sec_call :: "proto_call \<Rightarrow> int"
  ops_call :: "proto_call \<Rightarrow> int"
  somaxconn :: u32
  recv_name :: "addr \<Rightarrow> u8 list"
  import_single_range :: "bool \<Rightarrow> u64 \<Rightarrow> int + u64"
  sk_fields :: "addr \<Rightarrow> sk_info"
  mptcp_enabled :: bool
  compat_syscall :: bool
  bpf_setsockopt :: "addr \<Rightarrow> int \<Rightarrow> int \<Rightarrow> int \<Rightarrow> int \<times> int \<times> int \<times> int"
  bpf_getsockopt :: "addr \<Rightarrow> int \<Rightarrow> int \<Rightarrow> int \<Rightarrow> int"
  has_setsockopt :: "addr \<Rightarrow> bool"
  has_getsockopt :: "addr \<Rightarrow> bool"

type_synonym call_res = "(int \<times> proto_call list) kres"

text \<open>An indirect call through \<^verbatim>\<open>sock->ops\<close>, and one guarded by its security hook.\<close>

definition call_proto :: "call_env \<Rightarrow> net_state \<Rightarrow> addr \<Rightarrow> proto_call \<Rightarrow> call_res" where
  "call_proto E s a c =
     (case socks s a of
        None \<Rightarrow> Inl (UseAfterFree a)
      | Some k \<Rightarrow> if ops k = None then Inl NullDereference else Inr (ops_call E c, [c]))"

definition hooked :: "call_env \<Rightarrow> net_state \<Rightarrow> addr \<Rightarrow> proto_call \<Rightarrow> call_res" where
  "hooked E s a c = (if sec_call E c \<noteq> 0 then Inr (sec_call E c, []) else call_proto E s a c)"

subsection \<open>bind, listen, connect, shutdown\<close>

definition u_sys_bind :: "call_env \<Rightarrow> net_state \<Rightarrow> int \<Rightarrow> (nat \<Rightarrow> u8 list option) \<Rightarrow> int \<Rightarrow> call_res" where
  "u_sys_bind E s fd umyaddr addrlen =
     (case sockfd_lookup_light s fd of
        Inl err \<Rightarrow> Inr (err, [])
      | Inr a \<Rightarrow>
          let (err, address) = move_addr_to_kernel (net E) umyaddr addrlen in
          if err \<noteq> 0 then Inr (err, []) else hooked E s a (Bind a address addrlen))"

definition u_sys_listen :: "call_env \<Rightarrow> net_state \<Rightarrow> int \<Rightarrow> s32 \<Rightarrow> call_res" where
  "u_sys_listen E s fd backlog =
     (case sockfd_lookup_light s fd of
        Inl err \<Rightarrow> Inr (err, [])
      | Inr a \<Rightarrow>
          (case socks s a of
             None \<Rightarrow> Inl (UseAfterFree a)
           | Some k \<Rightarrow>
               if sk k = None then Inl NullDereference
               else hooked E s a (Listen a (if somaxconn E < backlog then somaxconn E else backlog))))"

definition u_sys_connect_file :: "call_env \<Rightarrow> net_state \<Rightarrow> kfile \<Rightarrow> u8 list \<Rightarrow> int \<Rightarrow> u32 \<Rightarrow> call_res" where
  "u_sys_connect_file E s fl address addrlen file_flags =
     (case sock_from_file fl of
        None \<Rightarrow> Inr (- ENOTSOCK, [])
      | Some a \<Rightarrow> hooked E s a (Connect a address addrlen (f_flags fl OR file_flags)))"

definition u_sys_connect :: "call_env \<Rightarrow> net_state \<Rightarrow> int \<Rightarrow> (nat \<Rightarrow> u8 list option) \<Rightarrow> int \<Rightarrow> call_res" where
  "u_sys_connect E s fd uservaddr addrlen =
     (case fget s fd of
        None \<Rightarrow> Inr (- EBADF, [])
      | Some fl \<Rightarrow>
          let (ret, address) = move_addr_to_kernel (net E) uservaddr addrlen in
          if ret \<noteq> 0 then Inr (ret, []) else u_sys_connect_file E s fl address addrlen 0)"

definition u_sys_shutdown_sock :: "call_env \<Rightarrow> net_state \<Rightarrow> addr \<Rightarrow> int \<Rightarrow> call_res" where
  "u_sys_shutdown_sock E s a how = hooked E s a (Shutdown a how)"

definition u_sys_shutdown :: "call_env \<Rightarrow> net_state \<Rightarrow> int \<Rightarrow> int \<Rightarrow> call_res" where
  "u_sys_shutdown E s fd how =
     (case sockfd_lookup_light s fd of
        Inl err \<Rightarrow> Inr (err, [])
      | Inr a \<Rightarrow> u_sys_shutdown_sock E s a how)"

subsection \<open>Names\<close>

text \<open>The result, the bytes stored in the user's buffer and the length stored.\<close>

type_synonym name_res = "(int \<times> u8 list \<times> int option) kres"

definition name_of_socket :: "call_env \<Rightarrow> net_state \<Rightarrow> addr \<Rightarrow> int \<Rightarrow> user_name \<Rightarrow> name_res" where
  "name_of_socket E s a peer u =
     (if sec_call E (GetName a peer) \<noteq> 0 then Inr (sec_call E (GetName a peer), [], None)
      else case socks s a of
        None \<Rightarrow> Inl (UseAfterFree a)
      | Some k \<Rightarrow>
          if ops k = None then Inl NullDereference
          else let (err, address) = ops_getname (net E) a peer in
            if err < 0 then Inr (err, [], None) else move_addr_to_user (net E) address err u)"

definition u_sys_getsockname :: "call_env \<Rightarrow> net_state \<Rightarrow> int \<Rightarrow> user_name \<Rightarrow> name_res" where
  "u_sys_getsockname E s fd u =
     (case sockfd_lookup_light s fd of
        Inl err \<Rightarrow> Inr (err, [], None)
      | Inr a \<Rightarrow> name_of_socket E s a 0 u)"

definition u_sys_getpeername :: "call_env \<Rightarrow> net_state \<Rightarrow> int \<Rightarrow> user_name \<Rightarrow> name_res" where
  "u_sys_getpeername E s fd u =
     (case sockfd_lookup_light s fd of
        Inl err \<Rightarrow> Inr (err, [], None)
      | Inr a \<Rightarrow> name_of_socket E s a 1 u)"

subsection \<open>sendto and recvfrom\<close>

definition MSG_DONTWAIT :: u32 where "MSG_DONTWAIT = 0x40"

text \<open>\<^verbatim>\<open>sock->file->f_flags & O_NONBLOCK\<close> of the file behind the descriptor.\<close>

definition dontwait :: "net_state \<Rightarrow> int \<Rightarrow> u32 \<Rightarrow> u32" where
  "dontwait s fd flags =
     (case fget s fd of
        Some fl \<Rightarrow> if f_flags fl AND O_NONBLOCK \<noteq> 0 then flags OR MSG_DONTWAIT else flags
      | None \<Rightarrow> flags)"

definition u_sys_sendto ::
    "call_env \<Rightarrow> s32 \<Rightarrow> int \<Rightarrow> u64 \<Rightarrow> u32 \<Rightarrow> (addr \<times> (nat \<Rightarrow> u8 list option)) option \<Rightarrow> int \<Rightarrow> int net" where
  "u_sys_sendto E pid fd len flags uaddr addr_len s =
     (case import_single_range E True len of
        Inl err \<Rightarrow> Inr (err, s)
      | Inr count \<Rightarrow>
          (case sockfd_lookup_light s fd of
             Inl err \<Rightarrow> Inr (err, s)
           | Inr a \<Rightarrow>
               let err = (case uaddr of None \<Rightarrow> 0 | Some (_, copy) \<Rightarrow> fst (move_addr_to_kernel (net E) copy addr_len));
                   msg = \<lparr>msg_name = map_option fst uaddr,
                          msg_namelen = (if uaddr = None then 0 else addr_len),
                          msg_left = count, msg_flags = dontwait s fd flags\<rparr> in
               if err < 0 then Inr (err, s)
               else nbind (u_sock_sendmsg (net E) pid a msg) (\<lambda>(ret, _). nret ret) s))"

definition u_sys_recvfrom ::
    "call_env \<Rightarrow> s32 \<Rightarrow> int \<Rightarrow> u64 \<Rightarrow> u32 \<Rightarrow> (addr \<times> user_name) option \<Rightarrow> (int \<times> u8 list) net" where
  "u_sys_recvfrom E pid fd len flags uaddr s =
     (case import_single_range E False len of
        Inl err \<Rightarrow> Inr ((err, []), s)
      | Inr count \<Rightarrow>
          (case sockfd_lookup_light s fd of
             Inl err \<Rightarrow> Inr ((err, []), s)
           | Inr a \<Rightarrow>
               let msg = \<lparr>msg_name = map_option fst uaddr, msg_namelen = 0, msg_left = count, msg_flags = 0\<rparr> in
               nbind (sock_recvmsg (net E) pid a msg (dontwait s fd flags)) (\<lambda>(err, msg').
                 if err < 0 then nret (err, [])
                 else case uaddr of
                   None \<Rightarrow> nret (err, [])
                 | Some (_, u) \<Rightarrow>
                     (case move_addr_to_user (net E) (recv_name E a) (msg_namelen msg') u of
                        Inl e \<Rightarrow> nfault e
                      | Inr (err2, bs, _) \<Rightarrow> nret (if err2 < 0 then err2 else err, bs))) s))"

subsection \<open>Socket options\<close>

definition SOL_SOCKET :: int where "SOL_SOCKET = 1"
definition IPPROTO_MPTCP :: int where "IPPROTO_MPTCP = 262"
definition SOCK_STREAM :: int where "SOCK_STREAM = 1"
definition AF_INET6 :: int where "AF_INET6 = 10"

definition sock_use_custom_sol_socket :: "call_env \<Rightarrow> addr \<Rightarrow> bool" where
  "sock_use_custom_sol_socket E a \<longleftrightarrow>
     mptcp_enabled E \<and> sk_protocol (sk_fields E a) = IPPROTO_MPTCP \<and> sk_type (sk_fields E a) = SOCK_STREAM \<and>
     (sk_family (sk_fields E a) = PF_INET \<or> sk_family (sk_fields E a) = AF_INET6)"

definition u_sys_setsockopt :: "call_env \<Rightarrow> net_state \<Rightarrow> int \<Rightarrow> int \<Rightarrow> int \<Rightarrow> int \<Rightarrow> call_res" where
  "u_sys_setsockopt E s fd level optname optlen =
     (if optlen < 0 then Inr (- EINVAL, [])
      else case sockfd_lookup_light s fd of
        Inl err \<Rightarrow> Inr (err, [])
      | Inr a \<Rightarrow>
          if sec_call E (SetSockOpt a level optname optlen) \<noteq> 0
          then Inr (sec_call E (SetSockOpt a level optname optlen), [])
          else let (err, level, optname, optlen) =
              (if compat_syscall E then (0, level, optname, optlen) else bpf_setsockopt E a level optname optlen) in
            if err < 0 then Inr (err, [])
            else if 0 < err then Inr (0, [])
            else if level = SOL_SOCKET \<and> \<not> sock_use_custom_sol_socket E a
            then Inr (ops_call E (SockSetSockOpt a level optname optlen), [SockSetSockOpt a level optname optlen])
            else if \<not> has_setsockopt E a then Inr (- EOPNOTSUPP, [])
            else call_proto E s a (SetSockOpt a level optname optlen))"

definition u_sys_getsockopt :: "call_env \<Rightarrow> net_state \<Rightarrow> int \<Rightarrow> int \<Rightarrow> int \<Rightarrow> call_res" where
  "u_sys_getsockopt E s fd level optname =
     (case sockfd_lookup_light s fd of
        Inl err \<Rightarrow> Inr (err, [])
      | Inr a \<Rightarrow>
          if sec_call E (GetSockOpt a level optname) \<noteq> 0 then Inr (sec_call E (GetSockOpt a level optname), [])
          else kbind (if level = SOL_SOCKET
                      then Inr (ops_call E (SockGetSockOpt a level optname), [SockGetSockOpt a level optname])
                      else if \<not> has_getsockopt E a then Inr (- EOPNOTSUPP, [])
                      else call_proto E s a (GetSockOpt a level optname)) (\<lambda>(err, cs).
               Inr (if compat_syscall E then err else bpf_getsockopt E a level optname err, cs)))"

subsection \<open>File operations of a socket\<close>

definition XATTR_NAME_SOCKPROTONAME :: string where "XATTR_NAME_SOCKPROTONAME = ''system.sockprotoname''"

text \<open>
  \<^verbatim>\<open>security_list\<close> is what the security module stores in a buffer of the given size and returns. The
  result has the bytes stored behind it; \<^verbatim>\<open>None\<close> as a size is the query with a NULL buffer.
\<close>

definition sockfs_listxattr :: "(nat option \<Rightarrow> int) \<Rightarrow> nat option \<Rightarrow> int \<times> string" where
  "sockfs_listxattr security_list buffer =
     (let len = security_list buffer in
      if len < 0 then (len, '''')
      else case buffer of
        None \<Rightarrow> (len + int (length XATTR_NAME_SOCKPROTONAME) + 1, '''')
      | Some sz \<Rightarrow>
          if int sz < len then (- ERANGE, '''')
          else let used = len + int (length XATTR_NAME_SOCKPROTONAME) + 1 in
            if int sz < used then (- ERANGE, '''')
            else (used, XATTR_NAME_SOCKPROTONAME @ [CHR 0x00]))"

definition sockfs_setattr :: "addr \<Rightarrow> int \<Rightarrow> u32 option \<Rightarrow> int net" where
  "sockfs_setattr a simple_setattr ia_uid =
     (if simple_setattr \<noteq> 0 then nret simple_setattr
      else case ia_uid of
        None \<Rightarrow> nret 0
      | Some uid \<Rightarrow>
          nbind (get_sock a) (\<lambda>k.
            case sk k of
              None \<Rightarrow> nret (- ENOENT)
            | Some c \<Rightarrow> nbind (set_sock a (k\<lparr>sk := Some (c\<lparr>sk_uid := uid\<rparr>)\<rparr>)) (\<lambda>_. nret 0)))"

definition SKBTX_HW_TSTAMP :: u8 where "SKBTX_HW_TSTAMP = 1"
definition SKBTX_SW_TSTAMP :: u8 where "SKBTX_SW_TSTAMP = 2"
definition SKBTX_SCHED_TSTAMP :: u8 where "SKBTX_SCHED_TSTAMP = 0x40"

definition u_sock_tx_timestamp :: "16 word \<Rightarrow> u8 \<Rightarrow> u8" where
  "u_sock_tx_timestamp tsflags tx_flags =
     (let flags = tx_flags;
          flags = (if tsflags AND 1 \<noteq> 0 then flags OR SKBTX_HW_TSTAMP else flags);
          flags = (if tsflags AND 2 \<noteq> 0 then flags OR SKBTX_SW_TSTAMP else flags) in
      if tsflags AND 0x100 \<noteq> 0 then flags OR SKBTX_SCHED_TSTAMP else flags)"

datatype wake_how = SOCK_WAKE_IO | SOCK_WAKE_WAITD | SOCK_WAKE_SPACE | SOCK_WAKE_URG
datatype wake_signal = SIGIO | SIGURG

text \<open>The result, the signal sent to the waiters and the wait queue left behind.\<close>

definition sock_wake_async :: "socket \<Rightarrow> wake_how \<Rightarrow> int \<times> wake_signal option \<times> socket" where
  "sock_wake_async k how =
     (if fasync_list k = [] then (- 1, None, k)
      else case how of
        SOCK_WAKE_WAITD \<Rightarrow> if wq_waitdata k then (0, None, k) else (0, Some SIGIO, k)
      | SOCK_WAKE_SPACE \<Rightarrow>
          if \<not> wq_nospace k then (0, None, k) else (0, Some SIGIO, k\<lparr>wq_nospace := False\<rparr>)
      | SOCK_WAKE_IO \<Rightarrow> (0, Some SIGIO, k)
      | SOCK_WAKE_URG \<Rightarrow> (0, Some SIGURG, k))"

subsection \<open>Calls need a socket\<close>

text \<open>A descriptor without a file, or with a file that is not a socket.\<close>

definition fd_error :: "net_state \<Rightarrow> int \<Rightarrow> int option" where
  "fd_error s fd = (case fget s fd of
      None \<Rightarrow> Some (- EBADF)
    | Some fl \<Rightarrow> if f_op_socket fl then None else Some (- ENOTSOCK))"

lemma lookup_light_error: "fd_error s fd = Some e \<Longrightarrow> sockfd_lookup_light s fd = Inl e"
  by (auto simp: fd_error_def sockfd_lookup_light_def sock_from_file_def split: option.splits if_splits)

lemma lookup_light_ok: "sockfd_lookup_light s fd = Inr a \<longleftrightarrow> (\<exists>fl. fget s fd = Some fl \<and> f_op_socket fl \<and> private_data fl = a)"
  by (auto simp: sockfd_lookup_light_def sock_from_file_def split: option.splits if_splits)

lemma lookup_agree: "sockfd_lookup s fd = sockfd_lookup_light s fd"
  by (auto simp: sockfd_lookup_def sockfd_lookup_light_def split: option.splits)

text \<open>
  A call on a descriptor that is no socket fails with \<^verbatim>\<open>-EBADF\<close> or \<^verbatim>\<open>-ENOTSOCK\<close>, invokes no
  protocol operation, writes nothing to user memory and leaves the socket layer as it was.
\<close>

lemma calls_need_socket:
  assumes "fd_error s fd = Some e" "import_single_range E True len = Inr n" "import_single_range E False len = Inr n'"
  shows "u_sys_bind E s fd ua alen = Inr (e, []) \<and> u_sys_listen E s fd bl = Inr (e, []) \<and>
    u_sys_shutdown E s fd how = Inr (e, []) \<and> u_sys_getsockname E s fd un = Inr (e, [], None) \<and>
    u_sys_getpeername E s fd un = Inr (e, [], None) \<and> u_sys_getsockopt E s fd lvl nm = Inr (e, []) \<and>
    u_sys_setsockopt E s fd lvl nm (int olen) = Inr (e, []) \<and>
    u_sys_sendto E pid fd len fl to tolen s = Inr (e, s) \<and> u_sys_recvfrom E pid fd len fl from' s = Inr ((e, []), s)"
  using assms(2,3) lookup_light_error [OF assms(1)]
  by (simp add: u_sys_bind_def u_sys_listen_def u_sys_shutdown_def u_sys_getsockname_def u_sys_getpeername_def
      u_sys_getsockopt_def u_sys_setsockopt_def u_sys_sendto_def u_sys_recvfrom_def)

subsection \<open>Addresses fit their buffers\<close>

text \<open>The address of a protocol call is in range and as long as it claims.\<close>

definition address_fits :: "(nat \<Rightarrow> u8 list option) \<Rightarrow> proto_call \<Rightarrow> bool" where
  "address_fits copy c = (case c of
      Bind a bs n \<Rightarrow> 0 \<le> n \<and> n \<le> SOCKADDR_STORAGE \<and> (0 < n \<longrightarrow> copy (nat n) = Some bs)
    | Connect a bs n fl \<Rightarrow> 0 \<le> n \<and> n \<le> SOCKADDR_STORAGE \<and> (0 < n \<longrightarrow> copy (nat n) = Some bs)
    | _ \<Rightarrow> True)"

lemma move_addr_to_kernel_ok:
  "move_addr_to_kernel E copy n = (0, bs) \<Longrightarrow>
   0 \<le> n \<and> n \<le> SOCKADDR_STORAGE \<and> (0 < n \<longrightarrow> copy (nat n) = Some bs)"
  by (auto simp: move_addr_to_kernel_def errno_defs split: if_splits option.splits)

lemma hooked_calls: "hooked E s a c = Inr (r, cs) \<Longrightarrow> d \<in> set cs \<Longrightarrow> d = c"
  by (auto simp: hooked_def call_proto_def split: if_splits option.splits)

lemma bind_fits: "u_sys_bind E s fd copy n = Inr (r, cs) \<Longrightarrow> c \<in> set cs \<Longrightarrow> address_fits copy c"
  by (auto simp: u_sys_bind_def address_fits_def split: sum.splits prod.splits if_splits
      dest!: hooked_calls dest: move_addr_to_kernel_ok)

lemma connect_fits: "u_sys_connect E s fd copy n = Inr (r, cs) \<Longrightarrow> c \<in> set cs \<Longrightarrow> address_fits copy c"
  by (auto simp: u_sys_connect_def u_sys_connect_file_def address_fits_def
      split: option.splits prod.splits if_splits dest!: hooked_calls dest: move_addr_to_kernel_ok)

text \<open>Bytes stored through a user name fit the buffer the user announced.\<close>

definition name_fits :: "user_name \<Rightarrow> u8 list \<Rightarrow> bool" where
  "name_fits u bs \<longleftrightarrow> bs = [] \<or>
     (\<exists>n. un_get_len u = Inr n \<and> int (length bs) \<le> n \<and> int (length bs) \<le> SOCKADDR_STORAGE \<and> un_copy_ok u)"

lemma move_addr_to_user_fits: "move_addr_to_user E kaddr klen u = Inr (r, bs, st) \<Longrightarrow> name_fits u bs"
  by (auto simp: move_addr_to_user_def name_fits_def Let_def split: if_splits sum.splits)

lemma name_of_socket_fits: "name_of_socket E s a peer u = Inr (r, bs, st) \<Longrightarrow> name_fits u bs"
  by (auto simp: name_of_socket_def name_fits_def [of u "[]"] dest!: move_addr_to_user_fits
      split: if_splits option.splits prod.splits)

lemma recvfrom_fits:
  "u_sys_recvfrom E pid fd len flags (Some (a, u)) s = Inr ((r, bs), s') \<Longrightarrow> name_fits u bs"
  by (auto simp: u_sys_recvfrom_def name_fits_def [of u "[]"] Let_def nbind_app nret_app nfault_app
      dest!: move_addr_to_user_fits split: if_splits sum.splits prod.splits)

text \<open>
  Socket addresses never overrun a buffer: what bind and connect hand to the protocol has a
  length between 0 and 128 and exactly the user's bytes, a listen backlog is at most \<^verbatim>\<open>somaxconn\<close>
  even when it is negative, and the bytes getsockname, getpeername and recvfrom store through a
  user's name argument fit the length the user gave.
\<close>

lemma socket_address_bounds:
  assumes "u_sys_bind E s fd copy n = Inr (r1, cs1)" "u_sys_connect E s fd copy n = Inr (r2, cs2)"
    and "u_sys_listen E s fd bl = Inr (r3, cs3)" "u_sys_getsockname E s fd u = Inr (r4, bs4, st4)"
    and "u_sys_getpeername E s fd u = Inr (r5, bs5, st5)"
    and "u_sys_recvfrom E pid fd len flags (Some (p, u)) s = Inr ((r6, bs6), s')"
  shows "(\<forall>c \<in> set (cs1 @ cs2). address_fits copy c) \<and> (\<forall>a b. Listen a b \<in> set cs3 \<longrightarrow> b \<le> somaxconn E) \<and>
    name_fits u bs4 \<and> name_fits u bs5 \<and> name_fits u bs6"
proof (intro conjI)
  show "\<forall>c \<in> set (cs1 @ cs2). address_fits copy c" using bind_fits [OF assms(1)] connect_fits [OF assms(2)] by auto
  show "\<forall>a b. Listen a b \<in> set cs3 \<longrightarrow> b \<le> somaxconn E"
    using assms(3) by (auto simp: u_sys_listen_def dest!: hooked_calls split: sum.splits option.splits if_splits)
  show "name_fits u bs4" "name_fits u bs5"
    using assms(4,5) by (auto simp: u_sys_getsockname_def u_sys_getpeername_def name_fits_def [of u "[]"]
        dest!: name_of_socket_fits split: sum.splits)
  show "name_fits u bs6" by (rule recvfrom_fits [OF assms(6)])
qed

subsection \<open>Instances\<close>

definition demo_calls :: call_env where
  "demo_calls = \<lparr>net = demo_env, sec_call = (\<lambda>c. 0), ops_call = (\<lambda>c. 0), somaxconn = 4096, recv_name = (\<lambda>a. []),
     import_single_range = (\<lambda>w n. Inr n), sk_fields = (\<lambda>a. \<lparr>sk_protocol = 6, sk_type = 1, sk_family = 2\<rparr>),
     mptcp_enabled = False, compat_syscall = False, bpf_setsockopt = (\<lambda>a l n k. (0, l, n, k)),
     bpf_getsockopt = (\<lambda>a l n e. e), has_setsockopt = (\<lambda>a. True), has_getsockopt = (\<lambda>a. True)\<rparr>"

lemma calls_need_socket_witness:
  "u_sys_bind demo_calls demo_net 30 (\<lambda>n. None) 16 = Inr (- EBADF, []) \<and>
   u_sys_sendto demo_calls 100 30 8 0 None 0 demo_net = Inr (- EBADF, demo_net)"
proof -
  have e: "fd_error demo_net 30 = Some (- EBADF)" by (simp add: fd_error_def fget_def demo_net_def)
  have i: "import_single_range demo_calls True 8 = Inr 8" "import_single_range demo_calls False 8 = Inr 8"
    by (simp_all add: demo_calls_def)
  from calls_need_socket [OF e i] show ?thesis by blast
qed

text \<open>A user buffer of 16 bytes on the listening socket of the instance.\<close>

definition demo_name :: user_name where
  "demo_name = \<lparr>un_get_len = Inr 16, un_copy_ok = True, un_put_len = 0\<rparr>"

lemma demo_lookup: "fget demo_net 20 = Some \<lparr>f_op_socket = True, private_data = 40, f_flags = 2\<rparr>"
  "sockfd_lookup_light demo_net 20 = Inr 40"
  by (simp_all add: fget_def demo_net_def sockfd_lookup_light_def sock_from_file_def)

lemma demo_sock: "\<exists>k. socks demo_net 40 = Some k \<and> ops k = Some 9 \<and> sk k \<noteq> None"
  by (simp add: demo_net_def)

lemma socket_address_bounds_witness:
  "\<exists>r cs s' bs. u_sys_listen demo_calls demo_net 20 (- 1) = Inr (r, cs) \<and> Listen 40 4096 \<in> set cs \<and>
     u_sys_recvfrom demo_calls 100 20 64 0 (Some (80, demo_name)) demo_net = Inr ((- EAGAIN, bs), s') \<and> name_fits demo_name bs"
proof -
  obtain k where k: "socks demo_net 40 = Some k" "ops k = Some 9" "sk k \<noteq> None" using demo_sock by blast
  let ?copy = "\<lambda>n. Some (replicate n 0) :: u8 list option"
  have b: "u_sys_bind demo_calls demo_net 20 ?copy 16 = Inr (0, [Bind 40 (replicate 16 0) 16])"
    using k by (simp add: u_sys_bind_def demo_lookup move_addr_to_kernel_def SOCKADDR_STORAGE_def hooked_def call_proto_def
        demo_calls_def demo_env_def)
  have c: "u_sys_connect demo_calls demo_net 20 ?copy 16 = Inr (0, [Connect 40 (replicate 16 0) 16 2])"
    using k by (simp add: u_sys_connect_def demo_lookup move_addr_to_kernel_def SOCKADDR_STORAGE_def hooked_def call_proto_def
        demo_calls_def demo_env_def u_sys_connect_file_def sock_from_file_def)
  have l: "u_sys_listen demo_calls demo_net 20 (- 1) = Inr (0, [Listen 40 4096])"
    using k by (simp add: u_sys_listen_def demo_lookup hooked_def call_proto_def demo_calls_def)
  have g: "u_sys_getsockname demo_calls demo_net 20 demo_name = Inr (0, [], Some 16)"
    "u_sys_getpeername demo_calls demo_net 20 demo_name = Inr (0, [], Some 16)"
    using k by (simp_all add: u_sys_getsockname_def u_sys_getpeername_def demo_lookup name_of_socket_def demo_calls_def
        demo_env_def move_addr_to_user_def SOCKADDR_STORAGE_def demo_name_def)
  have m: "fairness_enabled (mgr demo_net)" "uint (max_sockets_per_thread (mgr demo_net)) \<le> 12"
    using busy_mgr by (simp_all add: demo_net_def)
  let ?msg = "\<lparr>msg_name = Some 80, msg_namelen = 0, msg_left = 64, msg_flags = 0\<rparr>"
  from recv_refused [OF demo_tracked m] obtain s' where
    r: "sock_recvmsg demo_env 100 40 ?msg 0 demo_net = Inr ((- EAGAIN, ?msg), s')" by blast
  have f: "u_sys_recvfrom demo_calls 100 20 64 0 (Some (80, demo_name)) demo_net = Inr ((- EAGAIN, []), s')"
    using r by (simp add: u_sys_recvfrom_def demo_calls_def demo_lookup dontwait_def O_NONBLOCK_def nbind_app nret_app errno_defs)
  from socket_address_bounds [OF b c l g f] l f show ?thesis by auto
qed

end
