(* ===== verification/VDSO_Task.thy ===== *)
theory VDSO_Task
  imports OS_Prelude
begin

text \<open>
  Reading the task structure without a system call: the kernel side in
  \<^verbatim>\<open>arch/x86/entry/vdso/vma.c\<close> (the vtask pages and the mapping of vtask, vvar and vdso text), the
  user side in \<^verbatim>\<open>vdso-access.c\<close>, and \<^verbatim>\<open>vdso_get_task_info.c\<close>.

  Physical memory is byte-addressed through the linear map, so a kernel address is the number of
  its page frame times the page size plus the offset in the page. The metadata page and the array
  of the vtask pages are one global pair; what a process sees are the page-table entries of its
  own mapping, which are filled from the array when a page is first touched. Where the fields of
  \<^verbatim>\<open>task_struct\<close> lie is fixed by the compiler and is a parameter. User addresses are integers:
  they lie below 2 to the 47, where the C arithmetic on them does not wrap.
\<close>

subsection \<open>Data\<close>

definition PAGE_SIZE :: nat where "PAGE_SIZE = 4096"
definition VTASK_MAGIC :: u64 where "VTASK_MAGIC = 0x5441534B"

record vtask_metadata =
  magic :: u64
  task_offset :: u64
  task_struct_addr :: u64
  meta_pid :: u32
  timestamp :: u64

text \<open>Offsets of the fields of a task structure and its size.\<close>

record task_layout =
  ts_size :: nat
  off_pid :: nat
  off_tgid :: nat
  off_comm :: nat

type_synonym phys_mem = "nat \<Rightarrow> u8"

text \<open>
  \<^verbatim>\<open>ptes mm i\<close> is the frame that slot \<^verbatim>\<open>i\<close> of the vtask mapping of \<^verbatim>\<open>mm\<close> points to, once touched.
\<close>

record vtask_state =
  vtask_meta :: "vtask_metadata option"
  vtask_pages :: "nat option list"
  ptes :: "nat \<Rightarrow> nat \<Rightarrow> nat option"

definition vtask_bss :: vtask_state where
  "vtask_bss = \<lparr>vtask_meta = None, vtask_pages = replicate 6 None, ptes = (\<lambda>mm i. None)\<rparr>"

subsection \<open>The kernel side: publishing a task\<close>

text \<open>\<^verbatim>\<open>zeroed_page\<close> is the frame \<^verbatim>\<open>get_zeroed_page\<close> returned, if any; -114514 is stored in an unsigned field.\<close>

definition init_vtask :: "nat option \<Rightarrow> vtask_state \<Rightarrow> int \<times> vtask_state" where
  "init_vtask zeroed_page s =
     (case zeroed_page of
        None \<Rightarrow> (- ENOMEM, s\<lparr>vtask_meta := None\<rparr>)
      | Some pfn \<Rightarrow>
          (0, s\<lparr>vtask_meta := Some \<lparr>magic = VTASK_MAGIC, task_offset = 0, task_struct_addr = 0,
                                     meta_pid = word_of_int (- 114514), timestamp = 0\<rparr>,
               vtask_pages := Some pfn # replicate 5 None\<rparr>))"

fun set_task_pages :: "nat \<Rightarrow> nat \<Rightarrow> nat \<Rightarrow> nat option list \<Rightarrow> nat option list" where
  "set_task_pages start_page i 0 pages = pages"
| "set_task_pages start_page i (Suc n) pages =
     set_task_pages start_page (Suc i) n (pages[i + 1 := Some (start_page + i)])"

text \<open>\<^verbatim>\<open>task\<close> is the address and the pid of the task, or NULL.\<close>

definition update_vtask_page :: "(nat \<times> u32) option \<Rightarrow> u64 \<Rightarrow> vtask_state \<Rightarrow> vtask_state" where
  "update_vtask_page task jiffies s =
     (case (task, vtask_meta s, vtask_pages s ! 0) of
        (Some (task_addr, pid), Some meta, Some _) \<Rightarrow>
          let start_page = task_addr div PAGE_SIZE in
          s\<lparr>vtask_meta := Some (meta\<lparr>task_offset := of_nat (task_addr mod PAGE_SIZE),
                                    task_struct_addr := of_nat task_addr,
                                    meta_pid := pid, timestamp := jiffies\<rparr>),
            vtask_pages := set_task_pages start_page 0 5 (vtask_pages s)\<rparr>
      | _ \<Rightarrow> s)"

text \<open>The callers: a new process with an address space, a successful exec.\<close>

definition copy_process_vtask :: "(nat \<times> u32) \<Rightarrow> bool \<Rightarrow> u64 \<Rightarrow> vtask_state \<Rightarrow> vtask_state" where
  "copy_process_vtask p has_mm jiffies s = (if has_mm then update_vtask_page (Some p) jiffies s else s)"

definition exec_binprm_vtask :: "(nat \<times> u32) \<Rightarrow> int \<Rightarrow> u64 \<Rightarrow> vtask_state \<Rightarrow> vtask_state" where
  "exec_binprm_vtask current ret jiffies s = (if ret = 0 then update_vtask_page (Some current) jiffies s else s)"

subsection \<open>The user side: reading through the mapping\<close>

text \<open>
  A user access to slot \<^verbatim>\<open>i\<close>: the entry is filled from the array on the first touch and kept. A
  slot without a page kills the process; slots from 6 on are not part of the mapping.
\<close>

definition vtask_fault :: "nat \<Rightarrow> nat \<Rightarrow> vtask_state \<Rightarrow> (nat \<times> vtask_state) kres" where
  "vtask_fault mm i s =
     (if 6 \<le> i then Inl (IndexOutOfBounds (int i))
      else case ptes s mm i of
        Some pfn \<Rightarrow> Inr (pfn, s)
      | None \<Rightarrow>
          (case vtask_pages s ! i of
             None \<Rightarrow> Inl NullDereference
           | Some pfn \<Rightarrow> Inr (pfn, s\<lparr>ptes := (ptes s)(mm := (ptes s mm)(i \<mapsto> pfn))\<rparr>)))"

text \<open>A byte at an offset from the base of the mapping.\<close>

definition user_byte :: "phys_mem \<Rightarrow> nat \<Rightarrow> nat \<Rightarrow> vtask_state \<Rightarrow> (u8 \<times> vtask_state) kres" where
  "user_byte mem mm u s =
     kbind (vtask_fault mm (u div PAGE_SIZE) s) (\<lambda>(pfn, s). Inr (mem (pfn * PAGE_SIZE + u mod PAGE_SIZE), s))"

fun user_bytes :: "phys_mem \<Rightarrow> nat \<Rightarrow> nat \<Rightarrow> nat \<Rightarrow> vtask_state \<Rightarrow> (u8 list \<times> vtask_state) kres" where
  "user_bytes mem mm u 0 s = Inr ([], s)"
| "user_bytes mem mm u (Suc n) s =
     kbind (user_byte mem mm u s) (\<lambda>(b, s). kbind (user_bytes mem mm (u + 1) n s) (\<lambda>(bs, s). Inr (b # bs, s)))"

definition le_int :: "u8 list \<Rightarrow> s32" where
  "le_int bs = foldr (\<lambda>b w. ucast b + 256 * w) bs 0"

definition user_int :: "phys_mem \<Rightarrow> nat \<Rightarrow> nat \<Rightarrow> vtask_state \<Rightarrow> (s32 \<times> vtask_state) kres" where
  "user_int mem mm u s = kbind (user_bytes mem mm u 4 s) (\<lambda>(bs, s). Inr (le_int bs, s))"

text \<open>Where the vdso code finds the base of the mapping, given the address of \<^verbatim>\<open>_vdso_data\<close>.\<close>

definition vdso_get_vtask_base :: "int \<Rightarrow> int" where
  "vdso_get_vtask_base vdso_data = vdso_data - 6 * 4096 - 8 * 16"

text \<open>The metadata, live in slot 0.\<close>

definition vdso_get_vtask_metadata :: "nat \<Rightarrow> vtask_state \<Rightarrow> (vtask_metadata option \<times> vtask_state) kres" where
  "vdso_get_vtask_metadata mm s = kbind (vtask_fault mm 0 s) (\<lambda>(_, s). Inr (vtask_meta s, s))"

text \<open>The offset of the task structure from the base, or NULL. \<^verbatim>\<open>meta->pid <= 0\<close> compares an unsigned field.\<close>

definition vdso_get_task_struct :: "nat \<Rightarrow> vtask_state \<Rightarrow> (nat option \<times> vtask_state) kres" where
  "vdso_get_task_struct mm s =
     kbind (vdso_get_vtask_metadata mm s) (\<lambda>(meta, s).
       case meta of
         None \<Rightarrow> Inr (None, s)
       | Some meta \<Rightarrow>
           if magic meta \<noteq> VTASK_MAGIC then Inr (None, s)
           else if meta_pid meta \<le> 0 then Inr (None, s)
           else Inr (Some (PAGE_SIZE + unat (task_offset meta)), s))"

definition vdso_get_task_pid :: "task_layout \<Rightarrow> phys_mem \<Rightarrow> nat \<Rightarrow> vtask_state \<Rightarrow> (s32 \<times> vtask_state) kres" where
  "vdso_get_task_pid L mem mm s =
     kbind (vdso_get_task_struct mm s) (\<lambda>(task, s).
       case task of None \<Rightarrow> Inr (- 1, s) | Some t \<Rightarrow> user_int mem mm (t + off_pid L) s)"

definition vdso_get_task_tgid :: "task_layout \<Rightarrow> phys_mem \<Rightarrow> nat \<Rightarrow> vtask_state \<Rightarrow> (s32 \<times> vtask_state) kres" where
  "vdso_get_task_tgid L mem mm s =
     kbind (vdso_get_task_struct mm s) (\<lambda>(task, s).
       case task of None \<Rightarrow> Inr (- 1, s) | Some t \<Rightarrow> user_int mem mm (t + off_tgid L) s)"

definition TASK_COMM_LEN :: nat where "TASK_COMM_LEN = 16"

text \<open>
  The copy loop of \<^verbatim>\<open>__vdso_get_task_comm\<close>: \<^verbatim>\<open>u\<close> is the offset of the name from the base, \<^verbatim>\<open>buf\<close> the
  caller's buffer. The store of the terminator ends it.
\<close>

definition store_byte :: "u8 list \<Rightarrow> nat \<Rightarrow> u8 \<Rightarrow> u8 list kres" where
  "store_byte buf i b = (if i < length buf then Inr (buf[i := b]) else Inl BufferOverflow)"

function copy_comm :: "phys_mem \<Rightarrow> nat \<Rightarrow> nat \<Rightarrow> nat \<Rightarrow> nat \<Rightarrow> u8 list \<Rightarrow> vtask_state \<Rightarrow> (u8 list \<times> vtask_state) kres" where
  "copy_comm mem mm u size' i buf s =
     (if i < size' - 1 \<and> i < TASK_COMM_LEN - 1 then
        kbind (user_byte mem mm (u + i) s) (\<lambda>r.
          if fst r \<noteq> 0 then kbind (store_byte buf i (fst r)) (\<lambda>buf. copy_comm mem mm u size' (i + 1) buf (snd r))
          else kbind (store_byte buf i 0) (\<lambda>buf. Inr (buf, snd r)))
      else kbind (store_byte buf i 0) (\<lambda>buf. Inr (buf, s)))"
  by pat_completeness auto
termination by (relation "measure (\<lambda>(mem, mm, u, size', i, buf, s). size' - i)") auto

declare copy_comm.simps [simp del]

definition vdso_get_task_comm ::
    "task_layout \<Rightarrow> phys_mem \<Rightarrow> nat \<Rightarrow> u8 list option \<Rightarrow> int \<Rightarrow> vtask_state \<Rightarrow> (u8 list option \<times> vtask_state) kres" where
  "vdso_get_task_comm L mem mm buf size' s =
     (case buf of
        None \<Rightarrow> Inr (None, s)
      | Some buf \<Rightarrow>
          if size' \<le> 0 then Inr (None, s)
          else kbind (vdso_get_task_struct mm s) (\<lambda>(task, s).
            case task of
              None \<Rightarrow> Inr (None, s)
            | Some t \<Rightarrow>
                kbind (copy_comm mem mm (t + off_comm L) (nat size') 0 buf s) (\<lambda>(buf, s). Inr (Some buf, s))))"

definition vdso_check_task_mapping :: "nat \<Rightarrow> vtask_state \<Rightarrow> (int \<times> vtask_state) kres" where
  "vdso_check_task_mapping mm s =
     kbind (vdso_get_vtask_metadata mm s) (\<lambda>(meta, s).
       Inr (case meta of None \<Rightarrow> 0 | Some meta \<Rightarrow> if magic meta \<noteq> VTASK_MAGIC then 0 else 1, s))"

definition vdso_get_task_struct_addr :: "nat \<Rightarrow> vtask_state \<Rightarrow> (u64 \<times> vtask_state) kres" where
  "vdso_get_task_struct_addr mm s =
     kbind (vdso_get_vtask_metadata mm s) (\<lambda>(meta, s).
       Inr (case meta of None \<Rightarrow> 0 | Some meta \<Rightarrow> if magic meta \<noteq> VTASK_MAGIC then 0 else task_struct_addr meta, s))"

definition vdso_get_task_timestamp :: "nat \<Rightarrow> vtask_state \<Rightarrow> (u64 \<times> vtask_state) kres" where
  "vdso_get_task_timestamp mm s =
     kbind (vdso_get_vtask_metadata mm s) (\<lambda>(meta, s).
       Inr (case meta of None \<Rightarrow> 0 | Some meta \<Rightarrow> if magic meta \<noteq> VTASK_MAGIC then 0 else timestamp meta, s))"

subsection \<open>The mapping of vtask, vvar and text\<close>

datatype special_mapping = Vtask_mapping | Vvar_mapping | Vdso_mapping

record vma =
  vm_start :: int
  vm_end :: int
  vm_special :: "special_mapping option"

record vdso_image =
  image_id :: nat
  image_size :: int
  sym_vvar_start :: int
  sym_vvar_page :: int
  sym_pvclock_page :: int
  sym_hvclock_page :: int
  sym_timens_page :: int
  sym_int80_landing_pad :: int
  sym_vdso32_sigreturn_landing_pad :: int
  sym_vdso32_rt_sigreturn_landing_pad :: int

record mm_struct =
  vmas :: "vma list"
  start_stack :: int
  context_vdso :: int
  context_vdso_image :: "vdso_image option"
  context_vtask_base :: int

text \<open>Removing an address range keeps what lies before and after it.\<close>

definition munmap_vma :: "int \<Rightarrow> int \<Rightarrow> vma \<Rightarrow> vma list" where
  "munmap_vma a e v =
     (if vm_start v < a then [v\<lparr>vm_end := min (vm_end v) a\<rparr>] else []) @
     (if e < vm_end v then [v\<lparr>vm_start := max (vm_start v) e\<rparr>] else [])"

definition do_munmap :: "int \<Rightarrow> int \<Rightarrow> mm_struct \<Rightarrow> mm_struct" where
  "do_munmap a len mm = mm\<lparr>vmas := concat (map (munmap_vma a (a + len)) (vmas mm))\<rparr>"

text \<open>
  \<^verbatim>\<open>install\<close> is the verdict of \<^verbatim>\<open>_install_special_mapping\<close> on an area: 0, or the error for which it
  leaves the address space alone.
\<close>

type_synonym install_fn = "mm_struct \<Rightarrow> int \<Rightarrow> int \<Rightarrow> special_mapping \<Rightarrow> int"

definition install_special_mapping :: "install_fn \<Rightarrow> int \<Rightarrow> int \<Rightarrow> special_mapping \<Rightarrow> mm_struct \<Rightarrow> int \<times> mm_struct" where
  "install_special_mapping install a len m mm =
     (if install mm a len m < 0 then (install mm a len m, mm)
      else (0, mm\<lparr>vmas := \<lparr>vm_start = a, vm_end = a + len, vm_special = Some m\<rparr> # vmas mm\<rparr>))"

definition VTASK_SIZE :: int where "VTASK_SIZE = 6 * int PAGE_SIZE"

definition map_vdso ::
    "install_fn \<Rightarrow> bool \<Rightarrow> (nat \<times> u32) \<Rightarrow> u64 \<Rightarrow> vdso_image \<Rightarrow> int \<Rightarrow> mm_struct \<times> vtask_state \<Rightarrow> int \<times> mm_struct \<times> vtask_state" where
  "map_vdso install killed current jiffies img addr st =
     (if killed then (- EINTR, st)
      else
        let (mm, vt) = st; vtask_addr = addr; vvar_addr = vtask_addr + VTASK_SIZE;
            text_start = vvar_addr - sym_vvar_start img;
            vt = update_vtask_page (Some current) jiffies vt;
            (e1, mm1) = install_special_mapping install vtask_addr VTASK_SIZE Vtask_mapping mm in
        if e1 < 0 then (e1, mm1, vt)
        else
          let (e2, mm2) = install_special_mapping install text_start (image_size img) Vdso_mapping mm1 in
          if e2 < 0 then (e2, do_munmap vtask_addr VTASK_SIZE mm2, vt)
          else
            let (e3, mm3) = install_special_mapping install vvar_addr (- sym_vvar_start img) Vvar_mapping mm2 in
            if e3 < 0 then (e3, do_munmap vtask_addr (VTASK_SIZE + image_size img) mm3, vt)
            else (0, mm3\<lparr>context_vdso := text_start, context_vdso_image := Some img,
                         context_vtask_base := vtask_addr\<rparr>, vt))"

definition PMD_SIZE :: int where "PMD_SIZE = 2097152"
definition DEFAULT_MAP_WINDOW :: int where "DEFAULT_MAP_WINDOW = 140737488351232"

definition PAGE_ALIGN :: "int \<Rightarrow> int" where
  "PAGE_ALIGN a = (a + 4095) div 4096 * 4096"

text \<open>\<^verbatim>\<open>random\<close> is \<^verbatim>\<open>get_random_int()\<close>; \<^verbatim>\<open>align_vdso_addr\<close> is a parameter. \<^verbatim>\<open>len\<close> and \<^verbatim>\<open>offset\<close> have 32 bits.\<close>

definition vdso_addr :: "(int \<Rightarrow> int) \<Rightarrow> int \<Rightarrow> int \<Rightarrow> int \<Rightarrow> int" where
  "vdso_addr align_vdso_addr random start len =
     (let len = (len + VTASK_SIZE) mod 2 ^ 32;
          start = PAGE_ALIGN start;
          end_pmd = (start + len + PMD_SIZE - 1) div PMD_SIZE * PMD_SIZE;
          end_addr = (if DEFAULT_MAP_WINDOW \<le> end_pmd then DEFAULT_MAP_WINDOW else end_pmd) - len;
          addr = (if start < end_addr
                  then start + (random mod ((end_addr - start) div 4096 + 1) * 4096) mod 2 ^ 32
                  else start) in
      align_vdso_addr addr)"

definition map_vdso_randomized ::
    "install_fn \<Rightarrow> bool \<Rightarrow> (int \<Rightarrow> int) \<Rightarrow> int \<Rightarrow> (nat \<times> u32) \<Rightarrow> u64 \<Rightarrow> vdso_image \<Rightarrow> mm_struct \<times> vtask_state \<Rightarrow>
     int \<times> mm_struct \<times> vtask_state" where
  "map_vdso_randomized install killed align random current jiffies img st =
     map_vdso install killed current jiffies img
       (vdso_addr align random (start_stack (fst st)) (image_size img - sym_vvar_start img)) st"

definition map_vdso_once ::
    "install_fn \<Rightarrow> bool \<Rightarrow> (nat \<times> u32) \<Rightarrow> u64 \<Rightarrow> vdso_image \<Rightarrow> int \<Rightarrow> mm_struct \<times> vtask_state \<Rightarrow> int \<times> mm_struct \<times> vtask_state" where
  "map_vdso_once install killed current jiffies img addr st =
     (if list_ex (\<lambda>v. vm_special v = Some Vdso_mapping \<or> vm_special v = Some Vvar_mapping) (vmas (fst st))
      then (- EEXIST, st)
      else map_vdso install killed current jiffies img addr st)"

definition arch_setup_additional_pages ::
    "bool \<Rightarrow> install_fn \<Rightarrow> bool \<Rightarrow> (int \<Rightarrow> int) \<Rightarrow> int \<Rightarrow> (nat \<times> u32) \<Rightarrow> u64 \<Rightarrow> vdso_image \<Rightarrow> mm_struct \<times> vtask_state \<Rightarrow>
     int \<times> mm_struct \<times> vtask_state" where
  "arch_setup_additional_pages vdso64_enabled install killed align random current jiffies vdso_image_64 st =
     (if \<not> vdso64_enabled then (0, st)
      else map_vdso_randomized install killed align random current jiffies vdso_image_64
             (fst st, update_vtask_page (Some current) jiffies (snd st)))"

definition load_vdso32 ::
    "int \<Rightarrow> install_fn \<Rightarrow> bool \<Rightarrow> (nat \<times> u32) \<Rightarrow> u64 \<Rightarrow> vdso_image \<Rightarrow> mm_struct \<times> vtask_state \<Rightarrow> int \<times> mm_struct \<times> vtask_state" where
  "load_vdso32 vdso32_enabled install killed current jiffies vdso_image_32 st =
     (if vdso32_enabled \<noteq> 1 then (0, st) else map_vdso install killed current jiffies vdso_image_32 0 st)"

subsection \<open>Page faults on the special mappings\<close>

datatype vm_fault = VM_FAULT_SIGBUS | VM_FAULT_PAGE int | VM_FAULT_INSERT "(int \<times> int) list" int

definition vdso_fault :: "vdso_image option \<Rightarrow> int \<Rightarrow> vm_fault" where
  "vdso_fault img pgoff =
     (case img of
        None \<Rightarrow> VM_FAULT_SIGBUS
      | Some img \<Rightarrow> if image_size img \<le> pgoff * 4096 then VM_FAULT_SIGBUS else VM_FAULT_PAGE (pgoff * 4096))"

text \<open>
  The vvar fault inserts page frames: \<^verbatim>\<open>ins\<close> is the verdict of \<^verbatim>\<open>vmf_insert_pfn\<close> on an address and
  a frame, \<^verbatim>\<open>timens\<close> the page of the task's time namespace, \<^verbatim>\<open>pvclock\<close> and \<^verbatim>\<open>hvclock\<close> the frames of the
  clock pages when the clock is in use. The result lists the insertions that were tried.
\<close>

definition vvar_fault ::
    "(int \<Rightarrow> int \<Rightarrow> int) \<Rightarrow> int \<Rightarrow> int option \<Rightarrow> int option \<Rightarrow> int option \<Rightarrow> vdso_image option \<Rightarrow> int \<Rightarrow> int \<Rightarrow> vm_fault" where
  "vvar_fault ins vvar_pfn timens pvclock hvclock img pgoff address =
     (case img of
        None \<Rightarrow> VM_FAULT_SIGBUS
      | Some img \<Rightarrow>
          let sym_offset = pgoff * 4096 + sym_vvar_start img in
          if sym_offset = 0 then VM_FAULT_SIGBUS
          else if sym_offset = sym_vvar_page img then
            (case timens of
               None \<Rightarrow> VM_FAULT_INSERT [(address, vvar_pfn)] (ins address vvar_pfn)
             | Some tp \<Rightarrow>
                 let addr = address + (sym_timens_page img - sym_offset); err = ins addr vvar_pfn in
                 if err < 0 then VM_FAULT_INSERT [(addr, vvar_pfn)] err
                 else VM_FAULT_INSERT [(addr, vvar_pfn), (address, tp)] (ins address tp))
          else if sym_offset = sym_pvclock_page img then
            (case pvclock of None \<Rightarrow> VM_FAULT_SIGBUS | Some p \<Rightarrow> VM_FAULT_INSERT [(address, p)] (ins address p))
          else if sym_offset = sym_hvclock_page img then
            (case hvclock of None \<Rightarrow> VM_FAULT_SIGBUS | Some p \<Rightarrow> VM_FAULT_INSERT [(address, p)] (ins address p))
          else if sym_offset = sym_timens_page img then
            (case timens of
               None \<Rightarrow> VM_FAULT_SIGBUS
             | Some _ \<Rightarrow> VM_FAULT_INSERT [(address, vvar_pfn)] (ins address vvar_pfn))
          else VM_FAULT_SIGBUS)"

text \<open>Moving the vdso, and the 32-bit landing pads.\<close>

definition vdso_fix_landing :: "bool \<Rightarrow> vdso_image \<Rightarrow> nat \<Rightarrow> int \<Rightarrow> int \<Rightarrow> int \<Rightarrow> int" where
  "vdso_fix_landing ia32 img image32 old_vdso new_start ip =
     (if ia32 \<and> image_id img = image32 \<and> ip = sym_int80_landing_pad img + old_vdso
      then new_start + sym_int80_landing_pad img else ip)"

definition vdso_mremap :: "bool \<Rightarrow> nat \<Rightarrow> int \<Rightarrow> int \<Rightarrow> mm_struct \<Rightarrow> int \<times> int \<times> mm_struct" where
  "vdso_mremap ia32 image32 new_start ip mm =
     (0, case context_vdso_image mm of
           None \<Rightarrow> ip
         | Some img \<Rightarrow> vdso_fix_landing ia32 img image32 (context_vdso mm) new_start ip,
      mm\<lparr>context_vdso := new_start\<rparr>)"

definition arch_syscall_is_vdso_sigreturn :: "bool \<Rightarrow> nat \<Rightarrow> int \<Rightarrow> mm_struct \<Rightarrow> bool" where
  "arch_syscall_is_vdso_sigreturn ia32 image32 ip mm =
     (case context_vdso_image mm of
        None \<Rightarrow> False
      | Some img \<Rightarrow> ia32 \<and> image_id img = image32 \<and>
          (ip = context_vdso mm + sym_vdso32_sigreturn_landing_pad img \<or>
           ip = context_vdso mm + sym_vdso32_rt_sigreturn_landing_pad img))"

subsection \<open>The task information call\<close>

record task_struct_info =
  ti_pid :: s32
  ti_ptr :: u64
  ti_state :: u32
  ti_prio :: s32
  ti_ppid :: s32
  ti_comm :: "u8 list"

record task_view =
  tv_addr :: u64
  tv_pid :: s32
  tv_state :: u32
  tv_prio :: s32
  tv_parent :: "s32 option"
  tv_comm :: "u8 list"

text \<open>The result and what was copied to the user's structure.\<close>

definition vdso_get_task_info :: "task_view \<Rightarrow> bool \<Rightarrow> bool \<Rightarrow> int \<times> task_struct_info option" where
  "vdso_get_task_info task info_null copy_fails =
     (if info_null then (- EINVAL, None)
      else
        let local_info = \<lparr>ti_pid = tv_pid task, ti_ptr = tv_addr task, ti_state = tv_state task, ti_prio = tv_prio task,
                          ti_ppid = (case tv_parent task of Some p \<Rightarrow> p | None \<Rightarrow> 0), ti_comm = take 16 (tv_comm task)\<rparr> in
        if copy_fails then (- EFAULT, None) else (0, Some local_info))"

subsection \<open>What a mapping shows\<close>

text \<open>
  Slots 1 to 5 of the mapping show the frames from \<^verbatim>\<open>start\<close> on, whether they have been touched or
  will be filled from the array.
\<close>

definition shows_frames :: "nat \<Rightarrow> nat \<Rightarrow> vtask_state \<Rightarrow> bool" where
  "shows_frames mm start s \<longleftrightarrow> length (vtask_pages s) = 6 \<and>
     (\<forall>i < 5. ptes s mm (i + 1) = Some (start + i) \<or>
        ptes s mm (i + 1) = None \<and> vtask_pages s ! (i + 1) = Some (start + i))"

definition meta_mapped :: "nat \<Rightarrow> vtask_state \<Rightarrow> bool" where
  "meta_mapped mm s \<longleftrightarrow> ptes s mm 0 \<noteq> None \<or> vtask_pages s ! 0 \<noteq> None"

lemma vtask_fault_shows:
  assumes "shows_frames mm start s" "0 < i" "i < 6"
  shows "\<exists>s'. vtask_fault mm i s = Inr (start + (i - 1), s') \<and> shows_frames mm start s' \<and> vtask_meta s' = vtask_meta s"
proof -
  obtain j where j: "i = j + 1" "j < 5" using assms(2,3) by (cases i) auto
  then have "ptes s mm i = Some (start + j) \<or> ptes s mm i = None \<and> vtask_pages s ! i = Some (start + j)"
    using assms(1) by (simp add: shows_frames_def)
  then show ?thesis
  proof
    assume "ptes s mm i = Some (start + j)"
    with assms j show ?thesis by (simp add: vtask_fault_def)
  next
    assume "ptes s mm i = None \<and> vtask_pages s ! i = Some (start + j)"
    with assms j show ?thesis by (auto simp: vtask_fault_def shows_frames_def)
  qed
qed

lemma user_byte_shows:
  assumes "shows_frames mm start s" "PAGE_SIZE \<le> u" "u < 6 * PAGE_SIZE"
  shows "\<exists>s'. user_byte mem mm u s = Inr (mem (start * PAGE_SIZE + (u - PAGE_SIZE)), s') \<and>
    shows_frames mm start s' \<and> vtask_meta s' = vtask_meta s"
proof -
  have i: "0 < u div PAGE_SIZE" "u div PAGE_SIZE < 6"
    using assms(2,3) by (auto simp: PAGE_SIZE_def div_greater_zero_iff less_mult_imp_div_less)
  have "(start + (u div PAGE_SIZE - 1)) * PAGE_SIZE + u mod PAGE_SIZE = start * PAGE_SIZE + (u - PAGE_SIZE)"
  proof -
    have "(u div PAGE_SIZE - 1) * PAGE_SIZE + u mod PAGE_SIZE = u - PAGE_SIZE"
      using i(1) div_mult_mod_eq [of u PAGE_SIZE] by (simp add: diff_mult_distrib)
    then show ?thesis by (simp add: add_mult_distrib)
  qed
  with vtask_fault_shows [OF assms(1) i] show ?thesis by (auto simp: user_byte_def)
qed

lemma user_bytes_shows:
  assumes "shows_frames mm start s" "PAGE_SIZE \<le> u" "u + n \<le> 6 * PAGE_SIZE"
  shows "\<exists>s'. user_bytes mem mm u n s = Inr (map (\<lambda>i. mem (start * PAGE_SIZE + (u - PAGE_SIZE) + i)) [0..<n], s') \<and>
    shows_frames mm start s' \<and> vtask_meta s' = vtask_meta s"
  using assms
proof (induction n arbitrary: u s)
  case (Suc n)
  from user_byte_shows [of mm start s u mem] Suc.prems obtain s1 where s1:
    "user_byte mem mm u s = Inr (mem (start * PAGE_SIZE + (u - PAGE_SIZE)), s1)" "shows_frames mm start s1"
    "vtask_meta s1 = vtask_meta s" by auto
  from Suc.IH [of s1 "u + 1"] s1 Suc.prems obtain s2 where s2:
    "user_bytes mem mm (u + 1) n s1 = Inr (map (\<lambda>i. mem (start * PAGE_SIZE + (u + 1 - PAGE_SIZE) + i)) [0..<n], s2)"
    "shows_frames mm start s2" "vtask_meta s2 = vtask_meta s" by auto
  have "map (\<lambda>i. mem (start * PAGE_SIZE + (u + 1 - PAGE_SIZE) + i)) [0..<n] =
      map (\<lambda>i. mem (start * PAGE_SIZE + (u - PAGE_SIZE) + i)) (map Suc [0..<n])"
    using Suc.prems(2) by (simp add: Suc_diff_le)
  with s1 s2 show ?case by (simp add: map_Suc_upt upt_conv_Cons del: upt_Suc map_map)
qed simp

lemma vtask_fault_meta:
  assumes "shows_frames mm start s" "meta_mapped mm s"
  shows "\<exists>pfn s'. vtask_fault mm 0 s = Inr (pfn, s') \<and> shows_frames mm start s' \<and> vtask_meta s' = vtask_meta s"
proof (cases "ptes s mm 0")
  case (Some pfn)
  with assms(1) show ?thesis by (simp add: vtask_fault_def)
next
  case None
  then obtain pfn where "vtask_pages s ! 0 = Some pfn" using assms(2) by (auto simp: meta_mapped_def)
  with None assms(1) show ?thesis by (simp add: vtask_fault_def shows_frames_def)
qed

text \<open>The int stored at a kernel address.\<close>

definition kernel_int :: "phys_mem \<Rightarrow> nat \<Rightarrow> s32" where
  "kernel_int mem a = le_int (map (\<lambda>i. mem (a + i)) [0..<4])"

text \<open>
  A process whose mapping shows the frames from \<^verbatim>\<open>start\<close> and whose metadata has offset \<^verbatim>\<open>off\<close> finds
  the field at offset \<^verbatim>\<open>f\<close> of the structure at \<^verbatim>\<open>start\<close> pages plus \<^verbatim>\<open>off\<close>.
\<close>

lemma get_task_struct_shows:
  assumes "shows_frames mm start s" "meta_mapped mm s" "vtask_meta s = Some meta" "magic meta = VTASK_MAGIC" "meta_pid meta \<noteq> 0"
  shows "\<exists>s'. vdso_get_task_struct mm s = Inr (Some (PAGE_SIZE + unat (task_offset meta)), s') \<and> shows_frames mm start s'"
proof -
  obtain pfn s1 where f: "vtask_fault mm 0 s = Inr (pfn, s1)" "shows_frames mm start s1" "vtask_meta s1 = vtask_meta s"
    using vtask_fault_meta [OF assms(1,2)] by blast
  have "\<not> meta_pid meta \<le> 0" using assms(5) by (simp add: word_le_0_iff)
  with f assms(3,4) show ?thesis
    by (simp add: vdso_get_task_struct_def vdso_get_vtask_metadata_def)
qed

lemma get_pid_shows:
  assumes "shows_frames mm start s" "meta_mapped mm s" "vtask_meta s = Some meta" "magic meta = VTASK_MAGIC" "meta_pid meta \<noteq> 0"
    and "unat (task_offset meta) + off_pid L + 4 \<le> 5 * PAGE_SIZE"
  shows "\<exists>s'. vdso_get_task_pid L mem mm s =
    Inr (kernel_int mem (start * PAGE_SIZE + unat (task_offset meta) + off_pid L), s')"
proof -
  from get_task_struct_shows [OF assms(1-5)] obtain s1 where s1:
    "vdso_get_task_struct mm s = Inr (Some (PAGE_SIZE + unat (task_offset meta)), s1)" "shows_frames mm start s1" by blast
  from user_bytes_shows [OF s1(2), of "PAGE_SIZE + unat (task_offset meta) + off_pid L" 4 mem] assms(6) s1(1)
  show ?thesis by (auto simp: vdso_get_task_pid_def user_int_def kernel_int_def add.assoc)
qed

lemma get_tgid_shows:
  assumes "shows_frames mm start s" "meta_mapped mm s" "vtask_meta s = Some meta" "magic meta = VTASK_MAGIC" "meta_pid meta \<noteq> 0"
    and "unat (task_offset meta) + off_tgid L + 4 \<le> 5 * PAGE_SIZE"
  shows "\<exists>s'. vdso_get_task_tgid L mem mm s =
    Inr (kernel_int mem (start * PAGE_SIZE + unat (task_offset meta) + off_tgid L), s')"
proof -
  from get_task_struct_shows [OF assms(1-5)] obtain s1 where s1:
    "vdso_get_task_struct mm s = Inr (Some (PAGE_SIZE + unat (task_offset meta)), s1)" "shows_frames mm start s1" by blast
  from user_bytes_shows [OF s1(2), of "PAGE_SIZE + unat (task_offset meta) + off_tgid L" 4 mem] assms(6) s1(1)
  show ?thesis by (auto simp: vdso_get_task_tgid_def user_int_def kernel_int_def add.assoc)
qed

text \<open>The name of a task: its bytes up to the first NUL, at most 15 of them.\<close>

definition task_name :: "phys_mem \<Rightarrow> nat \<Rightarrow> nat \<Rightarrow> nat \<Rightarrow> u8 list" where
  "task_name mem a size' i = takeWhile (\<lambda>b. b \<noteq> 0) (map (\<lambda>k. mem (a + k)) [i..<min (size' - 1) 15])"

lemma copy_comm_shows:
  assumes "shows_frames mm start s" "PAGE_SIZE \<le> u" "u + TASK_COMM_LEN \<le> 6 * PAGE_SIZE"
    and "0 < size'" "size' \<le> length buf" "i \<le> min (size' - 1) 15"
  shows "\<exists>s'. copy_comm mem mm u size' i buf s = Inr (take i buf @ task_name mem (start * PAGE_SIZE + (u - PAGE_SIZE)) size' i @
    [0] @ drop (i + length (task_name mem (start * PAGE_SIZE + (u - PAGE_SIZE)) size' i) + 1) buf, s')"
  using assms
proof (induction mem mm u size' i buf s rule: copy_comm.induct)
  case (1 mem mm u size' i buf s)
  let ?a = "start * PAGE_SIZE + (u - PAGE_SIZE)"
  have len: "i < length buf" using 1(5-7) by linarith
  have end_store: "buf[i := 0] = take i buf @ [0] @ drop (i + 1) buf" using len by (simp add: upd_conv_take_nth_drop)
  show ?case
  proof (cases "i < size' - 1 \<and> i < 15")
    case False
    then have "min (size' - 1) 15 \<le> i" by auto
    then have "task_name mem ?a size' i = []" by (simp add: task_name_def)
    with False len end_store show ?thesis
      by (auto simp: copy_comm.simps [of mem mm u size' i buf s] store_byte_def TASK_COMM_LEN_def)
  next
    case True
    then have lim: "i < size' - 1 \<and> i < TASK_COMM_LEN - 1" by (simp add: TASK_COMM_LEN_def)
    have rng: "PAGE_SIZE \<le> u + i" "u + i < 6 * PAGE_SIZE" using 1(3,4) True by (simp_all add: TASK_COMM_LEN_def)
    have eq: "start * PAGE_SIZE + (u + i - PAGE_SIZE) = ?a + i" using 1(3) by simp
    from user_byte_shows [OF 1(2) rng, of mem, unfolded eq] obtain s1 where s1:
      "user_byte mem mm (u + i) s = Inr (mem (?a + i), s1)" "shows_frames mm start s1" by blast
    have upt: "[i..<min (size' - 1) 15] = i # [Suc i..<min (size' - 1) 15]" using True by (simp add: upt_conv_Cons)
    show ?thesis
    proof (cases "mem (?a + i) = 0")
      case zero: True
      have "task_name mem ?a size' i = []" using zero upt by (simp add: task_name_def)
      with lim len end_store s1 zero show ?thesis
        by (simp add: copy_comm.simps [of mem mm u size' i buf s] store_byte_def)
    next
      case nz: False
      let ?b = "buf[i := mem (?a + i)]"
      have tn: "task_name mem ?a size' i = mem (?a + i) # task_name mem ?a size' (i + 1)"
        using nz upt by (simp add: task_name_def)
      have "\<exists>s'. copy_comm mem mm u size' (i + 1) ?b s1 = Inr (take (i + 1) ?b @ task_name mem ?a size' (i + 1) @
          [0] @ drop (i + 1 + length (task_name mem ?a size' (i + 1)) + 1) ?b, s')"
        using 1(1) [OF lim s1(1)] nz len s1(2) 1(3-7) True by (simp add: store_byte_def)
      moreover have "take (i + 1) ?b = take i buf @ [mem (?a + i)]" using len by (simp add: take_Suc_conv_app_nth)
      ultimately show ?thesis
        using lim len s1 nz by (simp add: copy_comm.simps [of mem mm u size' i buf s] store_byte_def tn)
    qed
  qed
qed

text \<open>The state after a task was published.\<close>

definition vtask_ready :: "vtask_state \<Rightarrow> bool" where
  "vtask_ready s \<longleftrightarrow> length (vtask_pages s) = 6 \<and> vtask_pages s ! 0 \<noteq> None \<and>
     (\<exists>meta. vtask_meta s = Some meta \<and> magic meta = VTASK_MAGIC)"

lemma set_task_pages_5:
  assumes "length pages = 6"
  shows "length (set_task_pages p 0 5 pages) = 6" "set_task_pages p 0 5 pages ! 0 = pages ! 0"
    "i < 5 \<Longrightarrow> set_task_pages p 0 5 pages ! (i + 1) = Some (p + i)"
proof -
  obtain a b c d e f where "pages = [a, b, c, d, e, f]"
    using assms by (auto simp: length_Suc_conv numeral_eq_Suc)
  moreover have "i < 5 \<Longrightarrow> i = 0 \<or> i = 1 \<or> i = 2 \<or> i = 3 \<or> i = 4" by linarith
  ultimately show "length (set_task_pages p 0 5 pages) = 6" "set_task_pages p 0 5 pages ! 0 = pages ! 0"
    "i < 5 \<Longrightarrow> set_task_pages p 0 5 pages ! (i + 1) = Some (p + i)"
    by (auto simp: numeral_eq_Suc)
qed

lemma published:
  assumes "vtask_ready s" "a < 2 ^ 64"
  shows "vtask_ready (update_vtask_page (Some (a, pid)) j s)"
    "\<exists>meta. vtask_meta (update_vtask_page (Some (a, pid)) j s) = Some meta \<and> magic meta = VTASK_MAGIC \<and>
       meta_pid meta = pid \<and> unat (task_offset meta) = a mod PAGE_SIZE \<and> unat (task_struct_addr meta) = a \<and> timestamp meta = j"
    "ptes (update_vtask_page (Some (a, pid)) j s) = ptes s"
    "i < 5 \<Longrightarrow> vtask_pages (update_vtask_page (Some (a, pid)) j s) ! (i + 1) = Some (a div PAGE_SIZE + i)"
proof -
  from assms(1) obtain meta f where m: "vtask_meta s = Some meta" "magic meta = VTASK_MAGIC" "vtask_pages s ! 0 = Some f"
    "length (vtask_pages s) = 6" by (auto simp: vtask_ready_def)
  have off: "unat (of_nat (a mod PAGE_SIZE) :: u64) = a mod PAGE_SIZE" "unat (of_nat a :: u64) = a"
    using assms(2) by (auto simp: unat_of_nat PAGE_SIZE_def)
  show "vtask_ready (update_vtask_page (Some (a, pid)) j s)"
    "\<exists>meta. vtask_meta (update_vtask_page (Some (a, pid)) j s) = Some meta \<and> magic meta = VTASK_MAGIC \<and>
       meta_pid meta = pid \<and> unat (task_offset meta) = a mod PAGE_SIZE \<and> unat (task_struct_addr meta) = a \<and> timestamp meta = j"
    "ptes (update_vtask_page (Some (a, pid)) j s) = ptes s"
    "i < 5 \<Longrightarrow> vtask_pages (update_vtask_page (Some (a, pid)) j s) ! (i + 1) = Some (a div PAGE_SIZE + i)"
    using m off set_task_pages_5 [OF m(4)] by (simp_all add: update_vtask_page_def Let_def vtask_ready_def)
qed

lemma get_comm_shows:
  assumes "shows_frames mm start s" "meta_mapped mm s" "vtask_meta s = Some meta" "magic meta = VTASK_MAGIC" "meta_pid meta \<noteq> 0"
    and "unat (task_offset meta) + off_comm L + TASK_COMM_LEN \<le> 5 * PAGE_SIZE" "0 < n" "n \<le> length buf"
  shows "\<exists>s'. vdso_get_task_comm L mem mm (Some buf) (int n) s =
    Inr (Some (let name = task_name mem (start * PAGE_SIZE + unat (task_offset meta) + off_comm L) n 0 in
               name @ [0] @ drop (length name + 1) buf), s')"
proof -
  from get_task_struct_shows [OF assms(1-5)] obtain s1 where s1:
    "vdso_get_task_struct mm s = Inr (Some (PAGE_SIZE + unat (task_offset meta)), s1)" "shows_frames mm start s1" by blast
  let ?u = "PAGE_SIZE + unat (task_offset meta) + off_comm L"
  have "\<exists>s'. copy_comm mem mm ?u n 0 buf s1 = Inr (take 0 buf @ task_name mem (start * PAGE_SIZE + (?u - PAGE_SIZE)) n 0 @
    [0] @ drop (0 + length (task_name mem (start * PAGE_SIZE + (?u - PAGE_SIZE)) n 0) + 1) buf, s')"
    by (rule copy_comm_shows [OF s1(2)]) (use assms(6-8) in simp_all)
  with s1(1) assms(7) show ?thesis by (auto simp: vdso_get_task_comm_def Let_def add.assoc)
qed

lemma fresh_shows_published:
  assumes "vtask_ready s" "a < 2 ^ 64" "\<forall>i < 5. ptes s mm (i + 1) = None"
  shows "shows_frames mm (a div PAGE_SIZE) (update_vtask_page (Some (a, pid)) j s)"
    "meta_mapped mm (update_vtask_page (Some (a, pid)) j s)"
  using published(1,3,4) [OF assms(1,2), where pid = pid and j = j] assms(3) by (auto simp: shows_frames_def vtask_ready_def meta_mapped_def)

subsection \<open>Where the areas lie\<close>

text \<open>The address is inside a special mapping of the given kind.\<close>

definition in_area :: "special_mapping \<Rightarrow> int \<Rightarrow> mm_struct \<Rightarrow> bool" where
  "in_area m x mm \<longleftrightarrow> list_ex (\<lambda>v. vm_special v = Some m \<and> vm_start v \<le> x \<and> x < vm_end v) (vmas mm)"

lemma in_area_munmap:
  "in_area m x (do_munmap a len mm) \<longleftrightarrow> in_area m x mm \<and> \<not> (a \<le> x \<and> x < a + len)"
  if "0 \<le> len"
proof -
  have one: "(\<exists>w \<in> set (munmap_vma a (a + len) v). vm_special w = Some m \<and> vm_start w \<le> x \<and> x < vm_end w) \<longleftrightarrow>
      (vm_special v = Some m \<and> vm_start v \<le> x \<and> x < vm_end v) \<and> \<not> (a \<le> x \<and> x < a + len)" for v
    using that by (auto simp: munmap_vma_def)
  show ?thesis
    by (simp add: in_area_def do_munmap_def list_ex_iff) (use one in blast)
qed

text \<open>An image as the build produces it: its vvar area is below the text and starts with the vvar page.\<close>

definition image_ok :: "vdso_image \<Rightarrow> bool" where
  "image_ok img \<longleftrightarrow> 0 < image_size img \<and> sym_vvar_start img < 0 \<and> sym_vvar_page img = sym_vvar_start img"

text \<open>The address of \<^verbatim>\<open>_vdso_data\<close> in a process whose text is mapped at an address: 128 bytes into the vvar page.\<close>

definition arch_get_vdso_data :: "vdso_image \<Rightarrow> int \<Rightarrow> int" where
  "arch_get_vdso_data img text_start = text_start + sym_vvar_page img + 128"

subsection \<open>Properties\<close>

text \<open>
  C17. A process that reads its task through the vdso gets the task published last: after
  \<^verbatim>\<open>update_vtask_page\<close> for the structure at \<^verbatim>\<open>a\<close>, every process whose mapping has not touched the
  task pages yet reads exactly the pid, the tgid and the name stored in that structure, provided
  these fields lie within the five pages that are mapped; the name is cut at the caller's size, at
  15 bytes and at its NUL, is terminated, and the rest of the buffer is untouched.
\<close>

theorem vdso_reads_published_task:
  assumes "vtask_ready s" "a < 2 ^ 64" "pid \<noteq> 0" "\<forall>i < 5. ptes s mm (i + 1) = None"
    and "a mod PAGE_SIZE + off_pid L + 4 \<le> 5 * PAGE_SIZE" "a mod PAGE_SIZE + off_tgid L + 4 \<le> 5 * PAGE_SIZE"
    and "a mod PAGE_SIZE + off_comm L + 16 \<le> 5 * PAGE_SIZE" "0 < n" "n \<le> length buf"
    and "s' = update_vtask_page (Some (a, pid)) jiffies s" "name = task_name mem (a + off_comm L) n 0"
  shows "\<exists>s1 s2 s3. vdso_get_task_pid L mem mm s' = Inr (kernel_int mem (a + off_pid L), s1) \<and>
    vdso_get_task_tgid L mem mm s' = Inr (kernel_int mem (a + off_tgid L), s2) \<and>
    vdso_get_task_comm L mem mm (Some buf) (int n) s' = Inr (Some (name @ [0] @ drop (length name + 1) buf), s3)"
proof -
  from published(2) [OF assms(1,2), of pid jiffies] assms(10) obtain meta where meta: "vtask_meta s' = Some meta" "magic meta = VTASK_MAGIC"
    "meta_pid meta = pid" "unat (task_offset meta) = a mod PAGE_SIZE" by blast
  note sh = fresh_shows_published [OF assms(1,2,4), of pid jiffies, folded assms(10)]
  have nz: "meta_pid meta \<noteq> 0" using meta(3) assms(3) by simp
  have a: "a div PAGE_SIZE * PAGE_SIZE + a mod PAGE_SIZE = a" by simp
  note base = sh meta(1,2) nz
  show ?thesis
    using get_pid_shows [OF base, of L mem] get_tgid_shows [OF base, of L mem] get_comm_shows [OF base, of L n buf mem]
      assms(5-9,11) meta(4) a by (simp add: Let_def TASK_COMM_LEN_def)
qed

text \<open>
  C18. The metadata is one page for all processes: once a process has touched its task pages, the
  publication of another task changes the offset it reads with but not its pages, so it reports
  the int at the new task's page offset in the old task's pages.
\<close>

theorem vdso_mixes_tasks:
  assumes "vtask_ready s" "a < 2 ^ 64" "b < 2 ^ 64" "pid \<noteq> 0"
    and "\<forall>i < 5. ptes s mm (i + 1) = Some (a div PAGE_SIZE + i)" "ptes s mm 0 \<noteq> None"
    and "b mod PAGE_SIZE + off_pid L + 4 \<le> 5 * PAGE_SIZE"
  shows "\<exists>s'. vdso_get_task_pid L mem mm (update_vtask_page (Some (b, pid)) jiffies s) =
    Inr (kernel_int mem (a div PAGE_SIZE * PAGE_SIZE + b mod PAGE_SIZE + off_pid L), s')"
proof -
  let ?s = "update_vtask_page (Some (b, pid)) jiffies s"
  from published(2) [OF assms(1,3), of pid jiffies] obtain meta where meta: "vtask_meta ?s = Some meta" "magic meta = VTASK_MAGIC"
    "meta_pid meta = pid" "unat (task_offset meta) = b mod PAGE_SIZE" by blast
  have "shows_frames mm (a div PAGE_SIZE) ?s" "meta_mapped mm ?s"
    using published(1,3) [OF assms(1,3), of pid jiffies] assms(5,6) by (auto simp: shows_frames_def vtask_ready_def meta_mapped_def)
  from get_pid_shows [OF this meta(1,2), of L mem] meta(3,4) assms(4,7) show ?thesis by simp
qed

text \<open>
  Before any task was published the pid test does not help: \<^verbatim>\<open>init_vtask\<close> stores -114514 in an
  unsigned field, \<^verbatim>\<open>meta->pid <= 0\<close> is false, the mapping is reported as valid, and reading the pid
  touches a page that is not there instead of returning -1.
\<close>

lemma vdso_unpublished_faults:
  assumes "off_pid L < 5 * PAGE_SIZE"
  shows "\<exists>s s'. init_vtask (Some pfn) vtask_bss = (0, s) \<and> vdso_check_task_mapping mm s = Inr (1, s') \<and>
    vdso_get_task_pid L mem mm s = Inl NullDereference"
proof -
  let ?u = "PAGE_SIZE + off_pid L"
  obtain i where i: "?u div PAGE_SIZE = i" "i = 1 \<or> i = 2 \<or> i = 3 \<or> i = 4 \<or> i = 5"
  proof -
    have "1 \<le> ?u div PAGE_SIZE" "?u div PAGE_SIZE < 6" using assms by (simp_all add: PAGE_SIZE_def less_mult_imp_div_less)
    then have "?u div PAGE_SIZE \<in> {1, 2, 3, 4, 5}" by auto
    with that show thesis by blast
  qed
  define s where "s = snd (init_vtask (Some pfn) vtask_bss)"
  have s: "init_vtask (Some pfn) vtask_bss = (0, s)" by (simp add: s_def init_vtask_def)
  let ?t = "s\<lparr>ptes := (ptes s)(mm := (ptes s mm)(0 \<mapsto> pfn))\<rparr>"
  have f0: "vtask_fault mm 0 s = Inr (pfn, ?t)" by (simp add: s_def init_vtask_def vtask_bss_def vtask_fault_def)
  have fi: "vtask_fault mm i ?t = Inl NullDereference"
    using i(2) by (auto simp: s_def init_vtask_def vtask_bss_def vtask_fault_def nth_Cons')
  have m: "vtask_meta ?t = Some \<lparr>magic = VTASK_MAGIC, task_offset = 0, task_struct_addr = 0, meta_pid = word_of_int (- 114514), timestamp = 0\<rparr>"
    by (simp add: s_def init_vtask_def)
  have "vdso_get_task_struct mm s = Inr (Some PAGE_SIZE, ?t)"
    using f0 m by (simp add: vdso_get_task_struct_def vdso_get_vtask_metadata_def)
  moreover have "vdso_check_task_mapping mm s = Inr (1, ?t)"
    using f0 m by (simp add: vdso_check_task_mapping_def vdso_get_vtask_metadata_def)
  moreover have "user_int mem mm ?u ?t = Inl NullDereference"
    using fi i(1) by (simp add: user_int_def numeral_eq_Suc user_byte_def)
  ultimately show ?thesis using s by (simp add: vdso_get_task_pid_def)
qed

text \<open>
  A successful \<^verbatim>\<open>map_vdso\<close> adds exactly three areas, one after the other: six pages of vtask at
  the chosen address, the vvar pages, the text; and the base the vdso code computes from the
  address of its data is the base of the vtask area that was mapped.
\<close>

lemma map_vdso_layout:
  assumes "image_ok img" "map_vdso install False cur j img addr (mm, vt) = (0, mm', vt')"
    and "text = addr + VTASK_SIZE - sym_vvar_start img"
  shows "(\<forall>x. in_area Vtask_mapping x mm' \<longleftrightarrow> in_area Vtask_mapping x mm \<or> addr \<le> x \<and> x < addr + VTASK_SIZE) \<and>
    (\<forall>x. in_area Vvar_mapping x mm' \<longleftrightarrow> in_area Vvar_mapping x mm \<or> addr + VTASK_SIZE \<le> x \<and> x < text) \<and>
    (\<forall>x. in_area Vdso_mapping x mm' \<longleftrightarrow> in_area Vdso_mapping x mm \<or> text \<le> x \<and> x < text + image_size img) \<and>
    vdso_get_vtask_base (arch_get_vdso_data img (context_vdso mm')) = addr \<and> context_vtask_base mm' = addr \<and>
    context_vdso_image mm' = Some img \<and> vt' = update_vtask_page (Some cur) j vt"
  using assms
  by (auto simp: map_vdso_def Let_def install_special_mapping_def in_area_def image_ok_def vdso_get_vtask_base_def
      arch_get_vdso_data_def VTASK_SIZE_def PAGE_SIZE_def split: if_splits)

text \<open>
  The clean-up of \<^verbatim>\<open>map_vdso\<close> misses the text: when the third mapping, of vvar, fails, the range
  it unmaps starts at the vtask area and ends before the end of the text, so the last pages of the
  text, as many as vvar has or all of it, stay mapped although the call reports the error; a
  failure of the second mapping leaves nothing behind.
\<close>

lemma map_vdso_failure_leaves_text:
  assumes "image_ok img" "\<forall>m x. \<not> in_area m x mm" "text = addr + VTASK_SIZE - sym_vvar_start img"
    and "\<forall>m. 0 \<le> install m addr VTASK_SIZE Vtask_mapping" "\<forall>m. 0 \<le> install m text (image_size img) Vdso_mapping"
    and "\<forall>m. install m (addr + VTASK_SIZE) (- sym_vvar_start img) Vvar_mapping = err" "err < 0"
  shows "\<exists>mm' vt'. map_vdso install False cur j img addr (mm, vt) = (err, mm', vt') \<and>
    (\<forall>m x. in_area m x mm' \<longleftrightarrow> m = Vdso_mapping \<and> max text (addr + VTASK_SIZE + image_size img) \<le> x \<and> x < text + image_size img) \<and>
    in_area Vdso_mapping (text + image_size img - 1) mm'"
proof -
  let ?mm1 = "mm\<lparr>vmas := \<lparr>vm_start = addr, vm_end = addr + VTASK_SIZE, vm_special = Some Vtask_mapping\<rparr> # vmas mm\<rparr>"
  let ?mm2 = "?mm1\<lparr>vmas := \<lparr>vm_start = text, vm_end = text + image_size img, vm_special = Some Vdso_mapping\<rparr> # vmas ?mm1\<rparr>"
  let ?mm' = "do_munmap addr (VTASK_SIZE + image_size img) ?mm2"
  have run: "map_vdso install False cur j img addr (mm, vt) = (err, ?mm', update_vtask_page (Some cur) j vt)"
    using assms(4-7) [rule_format] unfolding assms(3)
    by (simp add: map_vdso_def Let_def install_special_mapping_def linorder_not_less [symmetric])
  have two: "in_area m x ?mm2 \<longleftrightarrow> m = Vtask_mapping \<and> addr \<le> x \<and> x < addr + VTASK_SIZE \<or>
      m = Vdso_mapping \<and> text \<le> x \<and> x < text + image_size img" for m x
    using assms(2) by (auto simp: in_area_def list_ex_iff)
  have "0 \<le> VTASK_SIZE + image_size img" using assms(1) by (simp add: image_ok_def VTASK_SIZE_def)
  then have "in_area m x ?mm' \<longleftrightarrow> m = Vdso_mapping \<and> max text (addr + VTASK_SIZE + image_size img) \<le> x \<and> x < text + image_size img" for m x
    using two [of m x] assms(1,3) by (auto simp: in_area_munmap image_ok_def VTASK_SIZE_def)
  moreover have "max text (addr + VTASK_SIZE + image_size img) \<le> text + image_size img - 1"
    using assms(1,3) by (auto simp: image_ok_def)
  ultimately show ?thesis using run by auto
qed

subsection \<open>Instances\<close>

definition vt_init :: vtask_state where
  "vt_init = snd (init_vtask (Some 900) vtask_bss)"

definition demo_layout :: task_layout where
  "demo_layout = \<lparr>ts_size = 9792, off_pid = 1256, off_tgid = 1260, off_comm = 1896\<rparr>"

text \<open>A task at address 5000 with pid 0x0201, tgid 7 and the name ``ab''.\<close>

definition demo_mem :: phys_mem where
  "demo_mem a = (if a = 6256 then 1 else if a = 6257 then 2 else if a = 6260 then 7 else if a = 6896 then 97
     else if a = 6897 then 98 else 0)"

definition demo_image :: vdso_image where
  "demo_image = \<lparr>image_id = 64, image_size = 8192, sym_vvar_start = - 16384, sym_vvar_page = - 16384, sym_pvclock_page = - 12288,
     sym_hvclock_page = - 8192, sym_timens_page = - 4096, sym_int80_landing_pad = 0, sym_vdso32_sigreturn_landing_pad = 0,
     sym_vdso32_rt_sigreturn_landing_pad = 0\<rparr>"

definition demo_mm :: mm_struct where
  "demo_mm = \<lparr>vmas = [], start_stack = 140000000000000, context_vdso = 0, context_vdso_image = None, context_vtask_base = 0\<rparr>"

lemma vt_init_ready: "vtask_ready vt_init" "ptes vt_init mm i = None"
  by (simp_all add: vt_init_def init_vtask_def vtask_bss_def vtask_ready_def)

lemma demo_image_ok: "image_ok demo_image"
  by (simp add: demo_image_def image_ok_def)

lemma vdso_reads_published_task_witness:
  "\<exists>s1 s2 s3. vdso_get_task_pid demo_layout demo_mem 3 (update_vtask_page (Some (5000, 513)) 77 vt_init) = Inr (513, s1) \<and>
     vdso_get_task_tgid demo_layout demo_mem 3 (update_vtask_page (Some (5000, 513)) 77 vt_init) = Inr (7, s2) \<and>
     vdso_get_task_comm demo_layout demo_mem 3 (Some (replicate 16 9)) 16 (update_vtask_page (Some (5000, 513)) 77 vt_init) =
       Inr (Some ([97, 98, 0] @ replicate 13 9), s3)"
proof -
  have p: "kernel_int demo_mem (5000 + off_pid demo_layout) = 513" "kernel_int demo_mem (5000 + off_tgid demo_layout) = 7"
    by (simp_all add: kernel_int_def demo_layout_def le_int_def demo_mem_def upt_rec)
  have n: "task_name demo_mem (5000 + off_comm demo_layout) 16 0 = [97, 98]"
    by (simp add: task_name_def demo_layout_def demo_mem_def upt_rec)
  have sz: "5000 < (2 ^ 64 :: nat)" "(513 :: u32) \<noteq> 0" "\<forall>i < 5. ptes vt_init 3 (i + 1) = None"
    "5000 mod PAGE_SIZE + off_pid demo_layout + 4 \<le> 5 * PAGE_SIZE" "5000 mod PAGE_SIZE + off_tgid demo_layout + 4 \<le> 5 * PAGE_SIZE"
    "5000 mod PAGE_SIZE + off_comm demo_layout + 16 \<le> 5 * PAGE_SIZE" "(0::nat) < 16" "16 \<le> length (replicate 16 (9::u8))"
    using vt_init_ready(2) by (simp_all add: PAGE_SIZE_def demo_layout_def)
  have d: "[97, 98] @ [0] @ drop (length [97, 98 :: u8] + 1) (replicate 16 (9 :: u8)) = [97, 98, 0] @ replicate 13 9" by simp
  from vdso_reads_published_task [OF vt_init_ready(1) sz refl n [symmetric], of 77]
  show ?thesis unfolding p d by simp
qed

lemma vdso_mixes_tasks_witness:
  "\<exists>s'. vdso_get_task_pid demo_layout demo_mem 3
     (update_vtask_page (Some (9096, 4)) 78 (vt_init\<lparr>ptes := (\<lambda>mm i. if i = 0 then Some 900 else Some i)\<rparr>)) =
     Inr (kernel_int demo_mem (4096 + 904 + off_pid demo_layout), s')"
proof -
  let ?s = "vt_init\<lparr>ptes := (\<lambda>mm i. if i = 0 then Some 900 else Some i)\<rparr>"
  have r: "vtask_ready ?s" using vt_init_ready(1) by (simp add: vtask_ready_def)
  have h: "5000 < (2 ^ 64 :: nat)" "9096 < (2 ^ 64 :: nat)" "(4 :: u32) \<noteq> 0" "\<forall>i < 5. ptes ?s 3 (i + 1) = Some (5000 div PAGE_SIZE + i)"
    "ptes ?s 3 0 \<noteq> None" "9096 mod PAGE_SIZE + off_pid demo_layout + 4 \<le> 5 * PAGE_SIZE"
    by (simp_all add: PAGE_SIZE_def demo_layout_def)
  have a: "5000 div PAGE_SIZE * PAGE_SIZE + 9096 mod PAGE_SIZE = 4096 + 904" by (simp add: PAGE_SIZE_def)
  from vdso_mixes_tasks [OF r h, of demo_mem 78] show ?thesis unfolding a .
qed

lemma vdso_unpublished_faults_witness:
  "\<exists>s s'. init_vtask (Some 900) vtask_bss = (0, s) \<and> vdso_check_task_mapping 3 s = Inr (1, s') \<and>
    vdso_get_task_pid demo_layout demo_mem 3 s = Inl NullDereference"
  by (rule vdso_unpublished_faults) (simp add: demo_layout_def PAGE_SIZE_def)

lemma map_vdso_layout_witness:
  "\<exists>mm' vt'. map_vdso (\<lambda>m a l k. 0) False (5000, 513) 77 demo_image 1048576 (demo_mm, vt_init) = (0, mm', vt') \<and>
     in_area Vvar_mapping 1073152 mm' \<and> vdso_get_vtask_base (arch_get_vdso_data demo_image (context_vdso mm')) = 1048576"
proof -
  obtain mm' vt' where m: "map_vdso (\<lambda>m a l k. 0) False (5000, 513) 77 demo_image 1048576 (demo_mm, vt_init) = (0, mm', vt')"
    by (simp add: map_vdso_def install_special_mapping_def Let_def)
  from map_vdso_layout [OF demo_image_ok m refl] m show ?thesis
    by (auto simp: VTASK_SIZE_def PAGE_SIZE_def demo_image_def)
qed

lemma map_vdso_failure_leaves_text_witness:
  "\<exists>mm' vt'. map_vdso (\<lambda>m a l k. if k = Vvar_mapping then - 12 else 0) False (5000, 513) 77 demo_image 1048576 (demo_mm, vt_init) =
     (- 12, mm', vt') \<and> in_area Vdso_mapping 1097727 mm'"
proof -
  let ?ins = "\<lambda>m a l k. if k = Vvar_mapping then - 12 else 0 :: int"
  have e: "\<forall>m x. \<not> in_area m x demo_mm" by (simp add: in_area_def demo_mm_def)
  have i: "\<forall>m. 0 \<le> ?ins m 1048576 VTASK_SIZE Vtask_mapping"
    "\<forall>m. 0 \<le> ?ins m (1048576 + VTASK_SIZE - sym_vvar_start demo_image) (image_size demo_image) Vdso_mapping"
    "\<forall>m. ?ins m (1048576 + VTASK_SIZE) (- sym_vvar_start demo_image) Vvar_mapping = - 12" "(- 12 :: int) < 0" by simp_all
  from map_vdso_failure_leaves_text [where install = ?ins and cur = "(5000, 513)" and j = 77 and vt = vt_init
      and addr = 1048576, OF demo_image_ok e refl i]
  show ?thesis by (auto simp: VTASK_SIZE_def PAGE_SIZE_def demo_image_def)
qed

end
