(* ===== verification/ACPI_Tables.thy ===== *)
theory ACPI_Tables
  imports OS_Prelude
begin

text \<open>
  The UEFI application of \<^verbatim>\<open>MyPkg\<close>: walking the ACPI tables from the configuration table
  (\<^verbatim>\<open>PrintAllACPITables.c\<close>), replacing or anonymising the tables with a signature and fixing their
  checksums (\<^verbatim>\<open>ChangeACPITables.c\<close>), and the entry point \<^verbatim>\<open>My.c\<close>.

  Memory is byte-addressed; the tables are read through the packed layouts of the ACPI
  specification: a header has its signature at 0, its length at 4, its checksum at 9 and its OEM id
  at 10 to 15, and is 36 bytes long. \<^verbatim>\<open>CalculateCheckSum8\<close> of the EDK2 library is a parameter.
\<close>

subsection \<open>Memory and table fields\<close>

type_synonym mem = "nat \<Rightarrow> u8"

definition peek :: "mem \<Rightarrow> nat \<Rightarrow> nat \<Rightarrow> u8 list" where
  "peek m a n = map (\<lambda>i. m (a + i)) [0..<n]"

definition poke :: "mem \<Rightarrow> nat \<Rightarrow> u8 list \<Rightarrow> mem" where
  "poke m a bs = (\<lambda>x. if a \<le> x \<and> x < a + length bs then bs ! (x - a) else m x)"

definition le_nat :: "u8 list \<Rightarrow> nat" where
  "le_nat bs = foldr (\<lambda>b n. unat b + 256 * n) bs 0"

definition tbl_signature :: "mem \<Rightarrow> nat \<Rightarrow> nat" where "tbl_signature m t = le_nat (peek m t 4)"
definition tbl_length :: "mem \<Rightarrow> nat \<Rightarrow> nat" where "tbl_length m t = le_nat (peek m (t + 4) 4)"
definition tbl_checksum :: "mem \<Rightarrow> nat \<Rightarrow> u8" where "tbl_checksum m t = m (t + 9)"
definition tbl_oemid :: "mem \<Rightarrow> nat \<Rightarrow> u8 list" where "tbl_oemid m t = peek m (t + 10) 6"

definition HEADER_SIZE :: nat where "HEADER_SIZE = 36"
definition FADT_SIGNATURE :: nat where "FADT_SIGNATURE = 0x50434146"

definition root_xsdt :: "mem \<Rightarrow> nat \<Rightarrow> nat" where "root_xsdt m r = le_nat (peek m (r + 24) 8)"
definition fadt_firmware_ctrl :: "mem \<Rightarrow> nat \<Rightarrow> nat" where "fadt_firmware_ctrl m t = le_nat (peek m (t + 36) 4)"
definition fadt_dsdt :: "mem \<Rightarrow> nat \<Rightarrow> nat" where "fadt_dsdt m t = le_nat (peek m (t + 40) 4)"

text \<open>The number of entries is computed in 64 bits and wraps when the length is below the header size.\<close>

definition entry_count :: "mem \<Rightarrow> nat \<Rightarrow> nat" where
  "entry_count m x = (tbl_length m x + 2 ^ 64 - HEADER_SIZE) mod 2 ^ 64 div 8"

definition entry_ptr :: "mem \<Rightarrow> nat \<Rightarrow> nat \<Rightarrow> nat" where
  "entry_ptr m x j = le_nat (peek m (x + HEADER_SIZE + 8 * j) 8)"

subsection \<open>Printing\<close>

datatype acpi_line = Root_line nat nat "u8 list" "u8 list" u8 | Table_line string nat nat "u8 list" "u8 list" u8 | Checksum_line u8

definition print_root :: "mem \<Rightarrow> nat \<Rightarrow> acpi_line" where
  "print_root m r = Root_line r (le_nat (peek m (r + 20) 4)) (peek m r 8) (peek m (r + 9) 6) (m (r + 8))"

definition print_table :: "string \<Rightarrow> mem \<Rightarrow> nat \<Rightarrow> acpi_line" where
  "print_table name m t = Table_line name t (tbl_length m t) (peek m t 4) (tbl_oemid m t) (tbl_checksum m t)"

definition print_entry :: "mem \<Rightarrow> nat \<Rightarrow> acpi_line list" where
  "print_entry m t = print_table ''Table'' m t #
     (if tbl_signature m t = FADT_SIGNATURE
      then [print_table ''DSDT'' m (fadt_dsdt m t), print_table ''FACS'' m (fadt_firmware_ctrl m t)] else [])"

fun print_entries :: "mem \<Rightarrow> nat \<Rightarrow> nat \<Rightarrow> nat \<Rightarrow> acpi_line list" where
  "print_entries m x j 0 = []"
| "print_entries m x j (Suc n) = print_entry m (entry_ptr m x j) @ print_entries m x (Suc j) n"

text \<open>A configuration table entry: whether its GUID is one of the two ACPI ones, and its vendor table.\<close>

type_synonym config_table = "(bool \<times> nat) list"

fun print_config :: "mem \<Rightarrow> config_table \<Rightarrow> acpi_line list" where
  "print_config m [] = []"
| "print_config m ((acpi, r) # cs) =
     (if acpi then print_root m r # print_table ''XSDT'' m (root_xsdt m r) #
        print_entries m (root_xsdt m r) 0 (entry_count m (root_xsdt m r)) else []) @ print_config m cs"

definition PrintAllACPITables :: "mem \<Rightarrow> config_table \<Rightarrow> int \<times> acpi_line list" where
  "PrintAllACPITables m cs = (0, print_config m cs)"

subsection \<open>Changing\<close>

type_synonym checksum_fn = "u8 list \<Rightarrow> u8"

definition UpdateAcpiChecksum :: "checksum_fn \<Rightarrow> nat \<Rightarrow> mem \<Rightarrow> mem" where
  "UpdateAcpiChecksum CalculateCheckSum8 t m =
     (let m = m(t + 9 := 0) in m(t + 9 := CalculateCheckSum8 (peek m t (tbl_length m t))))"

definition change_table :: "checksum_fn \<Rightarrow> nat \<Rightarrow> nat option \<Rightarrow> nat \<Rightarrow> mem \<Rightarrow> mem" where
  "change_table ck sig new t m =
     (if tbl_signature m t = sig then
        UpdateAcpiChecksum ck t
          (case new of
             None \<Rightarrow> poke m (t + 10) (replicate 6 0)
           | Some nt \<Rightarrow> poke m t (peek m nt (tbl_length m nt)))
      else m)"

text \<open>Before a listed table is changed the checksum of the \<^verbatim>\<open>XSDT\<close> at \<^verbatim>\<open>x\<close>, not that of the table, is printed.\<close>

definition change_entry :: "checksum_fn \<Rightarrow> nat \<Rightarrow> nat option \<Rightarrow> nat \<Rightarrow> nat \<Rightarrow> mem \<Rightarrow> acpi_line list \<times> mem" where
  "change_entry ck sig new x t m =
     (let line0 = (if tbl_signature m t = sig then [Checksum_line (tbl_checksum m x)] else []);
          m1 = change_table ck sig new t m; line = print_table ''Table'' m1 t in
      if tbl_signature m1 t = FADT_SIGNATURE then
        let dsdt = fadt_dsdt m1 t; m2 = change_table ck sig new dsdt m1;
            line2 = print_table ''DSDT'' m2 dsdt;
            facs = fadt_firmware_ctrl m2 t; m3 = change_table ck sig new facs m2;
            line3 = print_table ''FACS'' m3 facs in
        (line0 @ [line, line2, line3], m3)
      else (line0 @ [line], m1))"

fun change_entries :: "checksum_fn \<Rightarrow> nat \<Rightarrow> nat option \<Rightarrow> nat \<Rightarrow> nat \<Rightarrow> nat \<Rightarrow> mem \<Rightarrow> acpi_line list \<times> mem" where
  "change_entries ck sig new x j 0 m = ([], m)"
| "change_entries ck sig new x j (Suc n) m =
     (let (out, m1) = change_entry ck sig new x (entry_ptr m x j) m;
          (outs, m2) = change_entries ck sig new x (Suc j) n m1 in (out @ outs, m2))"

definition change_root :: "checksum_fn \<Rightarrow> nat \<Rightarrow> nat option \<Rightarrow> nat \<Rightarrow> mem \<Rightarrow> acpi_line list \<times> mem" where
  "change_root ck sig new r m =
     (let x = root_xsdt m r; m1 = change_table ck sig new x m;
          (outs, m2) = change_entries ck sig new x 0 (entry_count m1 x) m1 in
      (print_root m r # print_table ''XSDT'' m1 x # outs, m2))"

fun ChangeACPITable :: "checksum_fn \<Rightarrow> nat \<Rightarrow> nat option \<Rightarrow> config_table \<Rightarrow> mem \<Rightarrow> acpi_line list \<times> mem" where
  "ChangeACPITable ck sig new [] m = ([], m)"
| "ChangeACPITable ck sig new ((acpi, r) # cs) m =
     (if acpi then
        let (out, m1) = change_root ck sig new r m; (outs, m2) = ChangeACPITable ck sig new cs m1 in (out @ outs, m2)
      else ChangeACPITable ck sig new cs m)"

definition UefiMain :: "checksum_fn \<Rightarrow> config_table \<Rightarrow> mem \<Rightarrow> int \<times> acpi_line list \<times> mem" where
  "UefiMain ck cs m =
     (let (_, printed) = PrintAllACPITables m cs; (out, m') = ChangeACPITable ck 1413763908 None cs m in
      (0, printed @ out, m'))"

subsection \<open>One table\<close>

text \<open>What EDK2 documents of \<^verbatim>\<open>CalculateCheckSum8\<close>: added to the sum of the bytes it gives zero.\<close>

definition twos_complement :: "checksum_fn \<Rightarrow> bool" where
  "twos_complement ck \<longleftrightarrow> (\<forall>bs. sum_list bs + ck bs = 0)"

definition checksum_ok :: "mem \<Rightarrow> nat \<Rightarrow> bool" where
  "checksum_ok m t \<longleftrightarrow> sum_list (peek m t (tbl_length m t)) = 0"

lemma peek_cong: "(\<And>i. i < n \<Longrightarrow> m (a + i) = m' (a + i)) \<Longrightarrow> peek m a n = peek m' a n"
  by (simp add: peek_def)

lemma length_peek [simp]: "length (peek m a n) = n"
  by (simp add: peek_def)

lemma nth_peek [simp]: "i < n \<Longrightarrow> peek m a n ! i = m (a + i)"
  by (simp add: peek_def)

lemma peek_upd: "i < n \<Longrightarrow> peek (m(a + i := b)) a n = (peek m a n)[i := b]"
  by (auto simp: list_eq_iff_nth_eq nth_list_update)

lemma peek_upd_out: "x < a \<or> a + n \<le> x \<Longrightarrow> peek (m(x := b)) a n = peek m a n"
  by (rule peek_cong) auto

lemma sum_list_update_zero:
  "i < length xs \<Longrightarrow> xs ! i = 0 \<Longrightarrow> sum_list (xs[i := b]) = sum_list xs + (b :: u8)"
proof (induction xs arbitrary: i)
  case (Cons x xs)
  then show ?case by (cases i) (simp_all add: add.assoc)
qed simp

lemma tbl_length_upd: "tbl_length (m(t + 9 := b)) t = tbl_length m t"
  unfolding tbl_length_def by (subst peek_upd_out) auto

lemma UpdateAcpiChecksum_ok:
  assumes "twos_complement ck" "9 < tbl_length m t"
  shows "checksum_ok (UpdateAcpiChecksum ck t m) t"
proof -
  let ?m = "m(t + 9 := 0)" and ?n = "tbl_length m t"
  let ?c = "ck (peek ?m t ?n)"
  have "sum_list (peek (?m(t + 9 := ?c)) t ?n) = sum_list (peek ?m t ?n) + ?c"
    using assms(2) by (subst peek_upd) (simp_all add: sum_list_update_zero)
  moreover have "UpdateAcpiChecksum ck t m = ?m(t + 9 := ?c)"
    by (simp add: UpdateAcpiChecksum_def Let_def tbl_length_upd)
  moreover have "tbl_length (?m(t + 9 := ?c)) t = ?n" by (simp only: tbl_length_upd)
  ultimately show ?thesis using assms(1) by (simp add: checksum_ok_def twos_complement_def)
qed

text \<open>Anonymising a table touches its checksum and its OEM id only.\<close>

definition touched :: "nat \<Rightarrow> nat set" where "touched t = {t + 9..<t + 16}"

lemma change_table_frame: "x \<notin> touched t \<Longrightarrow> change_table ck sig None t m x = m x"
  by (auto simp: change_table_def UpdateAcpiChecksum_def Let_def poke_def touched_def)

lemma change_table_other: "tbl_signature m t \<noteq> sig \<Longrightarrow> change_table ck sig new t m = m"
  by (simp add: change_table_def)

definition anonymous :: "mem \<Rightarrow> nat \<Rightarrow> bool" where
  "anonymous m t \<longleftrightarrow> tbl_oemid m t = replicate 6 0 \<and> checksum_ok m t"

lemma tbl_oemid_zero: "(\<And>i. i < 6 \<Longrightarrow> m (t + 10 + i) = 0) \<Longrightarrow> tbl_oemid m t = replicate 6 0"
  by (auto simp: tbl_oemid_def list_eq_iff_nth_eq)

lemma change_table_anonymous:
  assumes "twos_complement ck" "tbl_signature m t = sig" "9 < tbl_length m t"
  shows "anonymous (change_table ck sig None t m) t"
proof -
  let ?p = "poke m (t + 10) (replicate 6 0)"
  have len: "tbl_length ?p t = tbl_length m t"
    unfolding tbl_length_def by (intro arg_cong [of _ _ le_nat] peek_cong) (auto simp: poke_def)
  have "checksum_ok (UpdateAcpiChecksum ck t ?p) t"
    by (rule UpdateAcpiChecksum_ok [OF assms(1)]) (simp add: len assms(3))
  moreover have "tbl_oemid (UpdateAcpiChecksum ck t ?p) t = replicate 6 0"
    by (rule tbl_oemid_zero) (auto simp: UpdateAcpiChecksum_def Let_def poke_def)
  ultimately show ?thesis using assms(2) by (simp add: anonymous_def change_table_def)
qed

subsection \<open>The walk\<close>

text \<open>The headers a walk visits, and the bytes it decides by.\<close>

definition visit_entry :: "mem \<Rightarrow> nat \<Rightarrow> nat list" where
  "visit_entry m t = t # (if tbl_signature m t = FADT_SIGNATURE then [fadt_dsdt m t, fadt_firmware_ctrl m t] else [])"

definition visit_root :: "mem \<Rightarrow> nat \<Rightarrow> nat list" where
  "visit_root m r = root_xsdt m r #
     concat (map (\<lambda>j. visit_entry m (entry_ptr m (root_xsdt m r) j)) [0..<entry_count m (root_xsdt m r)])"

definition visits :: "mem \<Rightarrow> config_table \<Rightarrow> nat list" where
  "visits m cs = concat (map (\<lambda>(acpi, r). if acpi then visit_root m r else []) cs)"

definition reads_root :: "mem \<Rightarrow> nat \<Rightarrow> nat set" where
  "reads_root m r = {r + 24..<r + 32} \<union>
     (\<Union>j < entry_count m (root_xsdt m r). {root_xsdt m r + HEADER_SIZE + 8 * j..<root_xsdt m r + HEADER_SIZE + 8 * j + 8} \<union>
        {entry_ptr m (root_xsdt m r) j + 36..<entry_ptr m (root_xsdt m r) j + 44}) \<union>
     (\<Union>h \<in> set (visit_root m r). {h..<h + 8})"

definition reads :: "mem \<Rightarrow> config_table \<Rightarrow> nat set" where
  "reads m cs = (\<Union>(acpi, r) \<in> set cs. if acpi then reads_root m r else {})"

definition agree :: "nat set \<Rightarrow> mem \<Rightarrow> mem \<Rightarrow> bool" where
  "agree R m m' \<longleftrightarrow> (\<forall>a \<in> R. m a = m' a)"

lemma agree_peek: "agree R m m' \<Longrightarrow> {a..<a + n} \<subseteq> R \<Longrightarrow> peek m' a n = peek m a n"
  by (intro peek_cong) (auto simp: agree_def subset_iff)

text \<open>Headers with the signature are disjoint from the bytes the walk decides by.\<close>

definition walk_sep :: "nat \<Rightarrow> mem \<Rightarrow> nat set \<Rightarrow> nat set \<Rightarrow> bool" where
  "walk_sep sig m0 V R \<longleftrightarrow> (\<forall>h \<in> V. {h..<h + 8} \<subseteq> R \<and> (tbl_signature m0 h = sig \<longrightarrow> touched h \<inter> R = {}))"

lemma agree_header:
  assumes "agree R m0 m" "{h..<h + 8} \<subseteq> R"
  shows "tbl_signature m h = tbl_signature m0 h" "tbl_length m h = tbl_length m0 h"
proof -
  have "{h..<h + 4} \<subseteq> R" "{h + 4..<h + 4 + 4} \<subseteq> R" using assms(2) by auto
  then show "tbl_signature m h = tbl_signature m0 h" "tbl_length m h = tbl_length m0 h"
    using agree_peek [OF assms(1)] by (simp_all add: tbl_signature_def tbl_length_def)
qed

lemma agree_change:
  assumes "walk_sep sig m0 V R" "agree R m0 m" "h \<in> V"
  shows "agree R m0 (change_table ck sig None h m)"
proof (cases "tbl_signature m0 h = sig")
  case True
  with assms have "touched h \<inter> R = {}" by (simp add: walk_sep_def)
  then have "a \<in> R \<Longrightarrow> change_table ck sig None h m a = m a" for a by (intro change_table_frame) auto
  then show ?thesis using assms(2) by (simp add: agree_def)
next
  case False
  with assms agree_header(1) [OF assms(2)] show ?thesis by (simp add: walk_sep_def change_table_other)
qed

lemma agree_fold:
  "walk_sep sig m0 V R \<Longrightarrow> set hs \<subseteq> V \<Longrightarrow> agree R m0 m \<Longrightarrow> agree R m0 (fold (change_table ck sig None) hs m)"
  by (induction hs arbitrary: m) (auto intro: agree_change)

lemma change_entry_fold:
  assumes sep: "walk_sep sig m0 V R" and m: "agree R m0 m" and V: "set (visit_entry m0 t) \<subseteq> V" and R: "{t + 36..<t + 44} \<subseteq> R"
  shows "snd (change_entry ck sig None x t m) = fold (change_table ck sig None) (visit_entry m0 t) m"
proof -
  let ?P = "change_table ck sig None"
  have t: "t \<in> V" using V by (simp add: visit_entry_def)
  note m1 = agree_change [OF sep m t, of ck]
  have R': "{t..<t + 8} \<subseteq> R" using sep t by (simp add: walk_sep_def)
  have sg: "tbl_signature (?P t m) t = tbl_signature m0 t" by (rule agree_header(1) [OF m1 R'])
  have sub: "{t + 40..<t + 40 + 4} \<subseteq> R" "{t + 36..<t + 36 + 4} \<subseteq> R" using R by auto
  have d: "fadt_dsdt (?P t m) t = fadt_dsdt m0 t" using agree_peek [OF m1 sub(1)] by (simp add: fadt_dsdt_def)
  show ?thesis
  proof (cases "tbl_signature m0 t = FADT_SIGNATURE")
    case True
    then have "fadt_dsdt m0 t \<in> V" using V by (simp add: visit_entry_def)
    note m2 = agree_change [OF sep m1 this, of ck]
    have "fadt_firmware_ctrl (?P (fadt_dsdt m0 t) (?P t m)) t = fadt_firmware_ctrl m0 t"
      using agree_peek [OF m2 sub(2)] by (simp add: fadt_firmware_ctrl_def)
    with True sg d show ?thesis by (simp add: change_entry_def visit_entry_def Let_def)
  next
    case False
    with sg show ?thesis by (simp add: change_entry_def visit_entry_def Let_def)
  qed
qed

lemma change_entries_fold:
  assumes sep: "walk_sep sig m0 V R"
    and "agree R m0 m" "\<forall>k. j \<le> k \<and> k < j + n \<longrightarrow> set (visit_entry m0 (entry_ptr m0 x k)) \<subseteq> V \<and>
      {x + HEADER_SIZE + 8 * k..<x + HEADER_SIZE + 8 * k + 8} \<subseteq> R \<and> {entry_ptr m0 x k + 36..<entry_ptr m0 x k + 44} \<subseteq> R"
  shows "snd (change_entries ck sig None x j n m) =
    fold (change_table ck sig None) (concat (map (\<lambda>k. visit_entry m0 (entry_ptr m0 x k)) [j..<j + n])) m"
  using assms(2,3)
proof (induction n arbitrary: j m)
  case (Suc n)
  let ?P = "change_table ck sig None"
  have j: "set (visit_entry m0 (entry_ptr m0 x j)) \<subseteq> V" "{x + HEADER_SIZE + 8 * j..<x + HEADER_SIZE + 8 * j + 8} \<subseteq> R"
    "{entry_ptr m0 x j + 36..<entry_ptr m0 x j + 44} \<subseteq> R" using Suc.prems(2) by auto
  have e: "entry_ptr m x j = entry_ptr m0 x j" using agree_peek [OF Suc.prems(1) j(2)] by (simp add: entry_ptr_def)
  have one: "snd (change_entry ck sig None x (entry_ptr m x j) m) = fold ?P (visit_entry m0 (entry_ptr m0 x j)) m"
    unfolding e by (rule change_entry_fold [OF sep Suc.prems(1) j(1,3)])
  note m1 = agree_fold [OF sep j(1) Suc.prems(1), of ck]
  have "snd (change_entries ck sig None x (Suc j) n (fold ?P (visit_entry m0 (entry_ptr m0 x j)) m)) =
      fold ?P (concat (map (\<lambda>k. visit_entry m0 (entry_ptr m0 x k)) [Suc j..<Suc j + n])) (fold ?P (visit_entry m0 (entry_ptr m0 x j)) m)"
    by (rule Suc.IH [OF m1]) (use Suc.prems(2) in auto)
  moreover have "[j..<j + Suc n] = j # [Suc j..<Suc j + n]" by (simp add: upt_conv_Cons)
  ultimately show ?case using one by (simp add: split_beta Let_def)
qed simp

lemma change_root_fold:
  assumes sep: "walk_sep sig m0 V R" and m: "agree R m0 m" and V: "set (visit_root m0 r) \<subseteq> V" and R: "reads_root m0 r \<subseteq> R"
  shows "snd (change_root ck sig None r m) = fold (change_table ck sig None) (visit_root m0 r) m"
proof -
  let ?P = "change_table ck sig None" and ?x = "root_xsdt m0 r"
  have "{r + 24..<r + 24 + 8} \<subseteq> R" using R by (auto simp: reads_root_def)
  then have x: "root_xsdt m r = ?x" using agree_peek [OF m] by (simp add: root_xsdt_def)
  have xV: "?x \<in> V" using V by (simp add: visit_root_def)
  note m1 = agree_change [OF sep m xV, of ck]
  have "{?x..<?x + 8} \<subseteq> R" using sep xV by (simp add: walk_sep_def)
  then have n: "entry_count (?P ?x m) ?x = entry_count m0 ?x" using agree_header(2) [OF m1] by (simp add: entry_count_def)
  have "snd (change_entries ck sig None ?x 0 (entry_count m0 ?x) (?P ?x m)) =
      fold ?P (concat (map (\<lambda>k. visit_entry m0 (entry_ptr m0 ?x k)) [0..<0 + entry_count m0 ?x])) (?P ?x m)"
    by (rule change_entries_fold [OF sep m1]) (use V R in \<open>simp add: visit_root_def reads_root_def UN_subset_iff\<close>)
  with x n show ?thesis by (simp add: change_root_def Let_def split_beta visit_root_def)
qed

lemma ChangeACPITable_fold:
  assumes sep: "walk_sep sig m0 V R" and "agree R m0 m" "set (visits m0 cs) \<subseteq> V" "reads m0 cs \<subseteq> R"
  shows "snd (ChangeACPITable ck sig None cs m) = fold (change_table ck sig None) (visits m0 cs) m"
  using assms(2-4)
proof (induction cs arbitrary: m)
  case Nil
  then show ?case by (simp add: visits_def)
next
  case (Cons c cs)
  obtain acpi r where c: "c = (acpi, r)" by (cases c)
  show ?case
  proof (cases acpi)
    case True
    have V: "set (visit_root m0 r) \<subseteq> V" "set (visits m0 cs) \<subseteq> V" and R: "reads_root m0 r \<subseteq> R" "reads m0 cs \<subseteq> R"
      using Cons.prems(2,3) True c by (auto simp: visits_def reads_def)
    note root = change_root_fold [OF sep Cons.prems(1) V(1) R(1), of ck]
    note m1 = agree_fold [OF sep V(1) Cons.prems(1), of ck]
    from Cons.IH [OF m1 V(2) R(2)] root True c show ?thesis by (simp add: split_beta Let_def visits_def)
  next
    case False
    with Cons c show ?thesis by (simp add: visits_def reads_def)
  qed
qed

text \<open>Headers with the signature do not share bytes with each other's tables.\<close>

definition tables_sep :: "nat \<Rightarrow> mem \<Rightarrow> nat list \<Rightarrow> bool" where
  "tables_sep sig m hs \<longleftrightarrow> (\<forall>h \<in> set hs. \<forall>h' \<in> set hs. tbl_signature m h = sig \<and> tbl_signature m h' = sig \<and> h \<noteq> h' \<longrightarrow>
     touched h' \<inter> {h..<h + max 16 (tbl_length m h)} = {})"

lemma anonymous_frame:
  assumes "anonymous m h" "\<And>x. h \<le> x \<Longrightarrow> x < h + max 16 (tbl_length m h) \<Longrightarrow> m' x = m x"
  shows "anonymous m' h"
proof -
  have l: "tbl_length m' h = tbl_length m h" unfolding tbl_length_def
    by (intro arg_cong [of _ _ le_nat] peek_cong) (use assms(2) in auto)
  have "peek m' h (tbl_length m h) = peek m h (tbl_length m h)" by (rule peek_cong) (use assms(2) in auto)
  moreover have "tbl_oemid m' h = tbl_oemid m h" unfolding tbl_oemid_def by (rule peek_cong) (use assms(2) in auto)
  ultimately show ?thesis using assms(1) l by (simp add: anonymous_def checksum_ok_def)
qed

lemma fold_anonymous:
  assumes sep: "walk_sep sig m0 V R" and ts: "tables_sep sig m0 hs0" and ck: "twos_complement ck"
    and "set hs \<subseteq> set hs0" "set hs \<subseteq> V" "agree R m0 m" "h \<in> set hs0" "h \<in> V" "tbl_signature m0 h = sig" "9 < tbl_length m0 h"
    and "h \<in> set hs \<or> anonymous m h"
  shows "anonymous (fold (change_table ck sig None) hs m) h"
  using assms(4-6,11)
proof (induction hs arbitrary: m)
  case (Cons k hs)
  let ?m = "change_table ck sig None k m"
  have kV: "k \<in> V" "{k..<k + 8} \<subseteq> R" "{h..<h + 8} \<subseteq> R" using Cons.prems(2) sep assms(8) by (auto simp: walk_sep_def)
  note hd = agree_header [OF Cons.prems(3) kV(3)]
  have "h \<in> set hs \<or> anonymous ?m h"
  proof (cases "k = h")
    case True
    then have "anonymous ?m h" using change_table_anonymous [OF ck, of m h sig] hd assms(9,10) by simp
    then show ?thesis by simp
  next
    case False
    with Cons.prems(4) consider "h \<in> set hs" | "anonymous m h" by auto
    then show ?thesis
    proof cases
      case 2
      have "anonymous ?m h"
      proof (cases "tbl_signature m0 k = sig")
        case True
        have "touched k \<inter> {h..<h + max 16 (tbl_length m0 h)} = {}"
          using ts True False Cons.prems(1) assms(7,9) by (simp add: tables_sep_def)
        then have "change_table ck sig None k m x = m x" if "h \<le> x" "x < h + max 16 (tbl_length m h)" for x
          using that hd(2) by (intro change_table_frame) auto
        with 2 show ?thesis by (rule anonymous_frame)
      next
        case False
        with agree_header(1) [OF Cons.prems(3) kV(2)] 2 show ?thesis by (simp add: change_table_other)
      qed
      then show ?thesis by simp
    qed simp
  qed
  moreover have "agree R m0 ?m" by (rule agree_change [OF sep Cons.prems(3) kV(1)])
  ultimately show ?case using Cons.IH [of ?m] Cons.prems by simp
qed (use assms in simp)

lemma fold_frame:
  "\<forall>h \<in> set hs. x \<notin> touched h \<or> (\<forall>m. agree R m0 m \<longrightarrow> tbl_signature m h \<noteq> sig) \<Longrightarrow> walk_sep sig m0 V R \<Longrightarrow> set hs \<subseteq> V \<Longrightarrow>
   agree R m0 m \<Longrightarrow> fold (change_table ck sig None) hs m x = m x"
proof (induction hs arbitrary: m)
  case (Cons k hs)
  have "change_table ck sig None k m x = m x"
    using Cons.prems(1,4) change_table_frame [of x k] by (cases "x \<in> touched k") (auto simp: change_table_other)
  moreover have "agree R m0 (change_table ck sig None k m)" using Cons.prems by (intro agree_change) auto
  ultimately show ?case using Cons.IH Cons.prems by auto
qed simp

subsection \<open>Properties\<close>

text \<open>
  C19. Anonymising: when the tables do not overlap the bytes the walk decides by or each other,
  \<^verbatim>\<open>ChangeACPITable\<close> without a new table leaves every table with the signature that the walk reaches
  (the XSDT, its entries, the DSDT and FACS of the FADT) with an OEM id of zeros and with bytes
  that add up to zero, and changes no byte of memory outside their checksum and OEM id fields.
\<close>

theorem ChangeACPITable_anonymises:
  assumes "twos_complement ck" "walk_sep sig m (set (visits m cs)) (reads m cs)" "tables_sep sig m (visits m cs)"
    and "\<forall>h \<in> set (visits m cs). tbl_signature m h = sig \<longrightarrow> 9 < tbl_length m h"
    and "ChangeACPITable ck sig None cs m = (out, m')"
  shows "(\<forall>h \<in> set (visits m cs). tbl_signature m h = sig \<longrightarrow> anonymous m' h) \<and>
    (\<forall>x. (\<forall>h \<in> set (visits m cs). tbl_signature m h = sig \<longrightarrow> x \<notin> touched h) \<longrightarrow> m' x = m x)"
proof -
  let ?V = "set (visits m cs)" and ?R = "reads m cs"
  have refl: "agree ?R m m" by (simp add: agree_def)
  have m': "m' = fold (change_table ck sig None) (visits m cs) m"
    using ChangeACPITable_fold [OF assms(2) refl subset_refl subset_refl, of ck] assms(5) by simp
  have "anonymous m' h" if "h \<in> ?V" "tbl_signature m h = sig" for h
    unfolding m' using assms(4) that by (intro fold_anonymous [OF assms(2,3,1) _ _ refl]) auto
  moreover have "m' x = m x" if "\<forall>h \<in> ?V. tbl_signature m h = sig \<longrightarrow> x \<notin> touched h" for x
  proof -
    have "tbl_signature n h = tbl_signature m h" if "h \<in> ?V" "agree ?R m n" for h n
      using agree_header(1) [OF that(2)] assms(2) that(1) by (simp add: walk_sep_def)
    with that have "\<forall>h \<in> ?V. x \<notin> touched h \<or> (\<forall>n. agree ?R m n \<longrightarrow> tbl_signature n h \<noteq> sig)" by metis
    from fold_frame [OF this assms(2) _ refl] show ?thesis unfolding m' by simp
  qed
  ultimately show ?thesis by blast
qed

text \<open>
  Replacing: a table with the signature becomes the new table, byte by byte, but for its
  checksum, which makes its bytes add up to zero; the copy takes the length of the new table, so
  when the new table is longer the bytes behind the old one are overwritten too, and nothing else.
\<close>

lemma change_table_replaces:
  assumes "twos_complement ck" "tbl_signature m t = sig" "9 < tbl_length m nt" "m' = change_table ck sig (Some nt) t m"
  shows "checksum_ok m' t \<and> tbl_length m' t = tbl_length m nt \<and>
    (\<forall>i < tbl_length m nt. i \<noteq> 9 \<longrightarrow> m' (t + i) = m (nt + i)) \<and>
    (\<forall>x. x < t \<or> t + tbl_length m nt \<le> x \<longrightarrow> m' x = m x)"
proof -
  let ?p = "poke m t (peek m nt (tbl_length m nt))"
  have p: "?p (t + i) = m (nt + i)" if "i < tbl_length m nt" for i using that by (simp add: poke_def)
  have "peek ?p (t + 4) 4 = peek m (nt + 4) 4"
    using p assms(3) by (auto simp: list_eq_iff_nth_eq add.assoc)
  then have len: "tbl_length ?p t = tbl_length m nt" by (simp add: tbl_length_def)
  have m': "m' = UpdateAcpiChecksum ck t ?p" using assms(2,4) by (simp add: change_table_def)
  have "checksum_ok m' t" unfolding m' by (rule UpdateAcpiChecksum_ok [OF assms(1)]) (simp add: len assms(3))
  moreover have "tbl_length m' t = tbl_length m nt"
    unfolding m' UpdateAcpiChecksum_def Let_def by (simp only: tbl_length_upd len)
  moreover have "m' x = ?p x" if "x \<noteq> t + 9" for x using that by (simp add: m' UpdateAcpiChecksum_def Let_def)
  ultimately show ?thesis using p assms(3) by (auto simp: poke_def)
qed

subsection \<open>Instances\<close>

text \<open>
  A memory with a root pointer at 1000, an XSDT of two entries at 2000, a FADT at 3000 that names a
  DSDT at 4000 and a FACS at 5000, and a second table at 6000.
\<close>

definition le_bytes :: "nat \<Rightarrow> nat \<Rightarrow> u8 list" where
  "le_bytes n v = map (\<lambda>i. of_nat (v div 256 ^ i)) [0..<n]"

definition acpi_mem :: mem where
  "acpi_mem =
     poke (poke (poke (poke (poke (poke (poke (poke (poke (poke (\<lambda>x. 7)
       1024 (le_bytes 8 2000)) 2004 (le_bytes 4 52)) 2036 (le_bytes 8 3000)) 2044 (le_bytes 8 6000))
       3000 (le_bytes 4 FADT_SIGNATURE)) 3036 (le_bytes 4 5000)) 3040 (le_bytes 4 4000))
       4000 (le_bytes 4 1413763908)) 4004 (le_bytes 4 40)) 6000 (le_bytes 4 99)"

definition neg_sum :: checksum_fn where "neg_sum bs = - sum_list bs"

lemma neg_sum_ok: "twos_complement neg_sum"
  by (simp add: twos_complement_def neg_sum_def)

lemma peek_poke: "peek (poke m a bs) a (length bs) = bs"
  by (simp add: list_eq_iff_nth_eq poke_def)

lemma peek_poke_disjoint: "b + n \<le> a \<or> a + length bs \<le> b \<Longrightarrow> peek (poke m a bs) b n = peek m b n"
  by (intro peek_cong) (auto simp: poke_def)

lemma length_le_bytes [simp]: "length (le_bytes n v) = n"
  by (simp add: le_bytes_def)

lemma peek_poke_le: "peek (poke m a (le_bytes n v)) a n = le_bytes n v"
  using peek_poke [of m a "le_bytes n v"] by simp

lemma acpi_fields:
  "root_xsdt acpi_mem 1000 = 2000" "tbl_length acpi_mem 2000 = 52" "entry_ptr acpi_mem 2000 0 = 3000"
  "entry_ptr acpi_mem 2000 (Suc 0) = 6000" "tbl_signature acpi_mem 3000 = FADT_SIGNATURE" "fadt_dsdt acpi_mem 3000 = 4000"
  "fadt_firmware_ctrl acpi_mem 3000 = 5000" "tbl_signature acpi_mem 6000 = 99" "tbl_signature acpi_mem 4000 = 1413763908"
  "tbl_length acpi_mem 4000 = 40" "tbl_signature acpi_mem 2000 = 117901063" "tbl_signature acpi_mem 5000 = 117901063"
  by (simp_all add: root_xsdt_def tbl_length_def entry_ptr_def tbl_signature_def fadt_dsdt_def fadt_firmware_ctrl_def acpi_mem_def
      HEADER_SIZE_def FADT_SIGNATURE_def peek_poke_disjoint peek_poke_le le_nat_def)
   (simp_all add: le_bytes_def peek_def upt_rec)

lemma acpi_visits:
  "entry_count acpi_mem 2000 = 2" "visits acpi_mem [(True, 1000)] = [2000, 3000, 4000, 5000, 6000]"
proof -
  show n: "entry_count acpi_mem 2000 = 2" by (simp add: entry_count_def acpi_fields HEADER_SIZE_def)
  have "[0..<2] = [0, Suc 0]" by (simp add: upt_rec)
  then show "visits acpi_mem [(True, 1000)] = [2000, 3000, 4000, 5000, 6000]"
    by (simp add: visits_def visit_root_def acpi_fields n visit_entry_def FADT_SIGNATURE_def)
qed

lemma acpi_reads: "reads acpi_mem [(True, 1000)] \<inter> {4009..<4016} = {}"
proof -
  have v: "visit_root acpi_mem 1000 = [2000, 3000, 4000, 5000, 6000]" using acpi_visits(2) by (simp add: visits_def)
  have two: "{..<2} = {0, Suc 0}" by auto
  show ?thesis
    by (simp add: reads_def reads_root_def v acpi_fields acpi_visits(1) HEADER_SIZE_def two Int_Un_distrib2)
qed

lemma ChangeACPITable_anonymises_witness:
  "\<exists>out m'. ChangeACPITable neg_sum 1413763908 None [(True, 1000)] acpi_mem = (out, m') \<and> anonymous m' 4000"
proof -
  let ?cs = "[(True, 1000)]"
  obtain out m' where r: "ChangeACPITable neg_sum 1413763908 None ?cs acpi_mem = (out, m')" by fastforce
  have "reads acpi_mem ?cs = reads_root acpi_mem 1000" by (simp add: reads_def)
  moreover have "set (visits acpi_mem ?cs) = set (visit_root acpi_mem 1000)" by (simp add: visits_def)
  ultimately have hd: "\<forall>h \<in> set (visits acpi_mem ?cs). {h..<h + 8} \<subseteq> reads acpi_mem ?cs" by (auto simp: reads_root_def)
  have w: "walk_sep 1413763908 acpi_mem (set (visits acpi_mem ?cs)) (reads acpi_mem ?cs)"
    using hd acpi_reads by (auto simp: walk_sep_def acpi_visits acpi_fields FADT_SIGNATURE_def touched_def)
  have t: "tables_sep 1413763908 acpi_mem (visits acpi_mem ?cs)"
    by (auto simp: tables_sep_def acpi_visits acpi_fields FADT_SIGNATURE_def)
  have l: "\<forall>h \<in> set (visits acpi_mem ?cs). tbl_signature acpi_mem h = 1413763908 \<longrightarrow> 9 < tbl_length acpi_mem h"
    by (simp add: acpi_visits acpi_fields FADT_SIGNATURE_def)
  from ChangeACPITable_anonymises [OF neg_sum_ok w t l r] r show ?thesis by (auto simp: acpi_visits acpi_fields)
qed

lemma change_table_replaces_witness:
  "checksum_ok (change_table neg_sum 99 (Some 4000) 6000 acpi_mem) 6000 \<and>
   tbl_length (change_table neg_sum 99 (Some 4000) 6000 acpi_mem) 6000 = 40"
  using change_table_replaces [OF neg_sum_ok acpi_fields(8), of 4000] by (simp add: acpi_fields)

end
