(* ===== verification/Runtime_Info.thy ===== *)
theory Runtime_Info
  imports OS_Prelude
begin

text \<open>
  Passing a string from firmware to the kernel: the DXE driver
  \<^verbatim>\<open>MyPkg/RuntimeInfoDxe/RuntimeInfoDxe.c\<close> stores it in two EFI variables, the kernel module
  \<^verbatim>\<open>drivers/firmware/efi/my_runtime_info.c\<close> reads one of them into a 256-byte buffer and shows it in
  sysfs. The variable services and the memory and object allocators are parameters; buffers are
  lists of characters with an explicit NUL.
\<close>

subsection \<open>Firmware\<close>

datatype efi_status = EFI_SUCCESS | EFI_BUFFER_TOO_SMALL | EFI_OUT_OF_RESOURCES | EFI_NOT_FOUND | EFI_OTHER nat
  | EFI_WARNING nat

text \<open>The macro \<^verbatim>\<open>EFI_ERROR\<close> of EDK2 tests the top bit of a status, which warnings do not have.\<close>

definition EFI_ERROR :: "efi_status \<Rightarrow> bool" where
  "EFI_ERROR status = (case status of EFI_SUCCESS \<Rightarrow> False | EFI_WARNING n \<Rightarrow> False | _ \<Rightarrow> True)"

datatype efi_guid = EFI_GLOBAL_VARIABLE_GUID | MY_GUID

type_synonym efi_vars = "string \<times> efi_guid \<Rightarrow> string option"

definition NUL :: char where "NUL = CHR 0x00"

definition INFO_MSG :: string where "INFO_MSG = ''Hardware Info from Runtime Protocol''"

text \<open>The status, the contents of the caller's buffer and the size stored back.\<close>

definition MyGetInfoImpl :: "string \<Rightarrow> nat \<Rightarrow> (efi_status \<times> string \<times> nat) kres" where
  "MyGetInfoImpl Buffer BufferSize =
     (let Len = length INFO_MSG + 1 in
      if BufferSize < Len then Inr (EFI_BUFFER_TOO_SMALL, Buffer, Len)
      else if length Buffer < Len then Inl BufferOverflow
      else Inr (EFI_SUCCESS, INFO_MSG @ [NUL] @ drop Len Buffer, Len))"

text \<open>
  \<^verbatim>\<open>SetVariable\<close> answers with a status and stores the data unless the status is an error. \<^verbatim>\<open>pool\<close> says whether the
  runtime pool allocation worked, \<^verbatim>\<open>install\<close> is the status of the protocol installation.
\<close>

definition set_variable :: "(string \<Rightarrow> efi_guid \<Rightarrow> efi_status) \<Rightarrow> string \<Rightarrow> efi_guid \<Rightarrow> string \<Rightarrow> efi_vars \<Rightarrow> efi_vars" where
  "set_variable verdict name guid data vars =
     (if EFI_ERROR (verdict name guid) then vars else vars((name, guid) \<mapsto> data))"

definition RuntimeInfoEntryPoint ::
    "bool \<Rightarrow> efi_status \<Rightarrow> (string \<Rightarrow> efi_guid \<Rightarrow> efi_status) \<Rightarrow> efi_vars \<Rightarrow> efi_status \<times> efi_vars" where
  "RuntimeInfoEntryPoint pool install verdict vars =
     (if \<not> pool then (EFI_OUT_OF_RESOURCES, vars)
      else
        let Info = INFO_MSG @ [NUL] in
        if EFI_ERROR install then (install, vars)
        else
          let vars = set_variable verdict ''MyTestInfo'' EFI_GLOBAL_VARIABLE_GUID Info vars;
              vars = set_variable verdict ''MyRuntimeInfo'' MY_GUID Info vars in
          (EFI_SUCCESS, vars))"

subsection \<open>Kernel module\<close>

definition INFO_BUF_SIZE :: nat where "INFO_BUF_SIZE = 256"

text \<open>
  \<^verbatim>\<open>efi.get_variable\<close>: for a name, a GUID and the room in the buffer, the status, the size stored back
  and the bytes written.
\<close>

type_synonym get_variable = "string \<Rightarrow> efi_guid \<Rightarrow> nat \<Rightarrow> efi_status \<times> nat \<times> string"

definition write_front :: "string \<Rightarrow> string \<Rightarrow> string kres" where
  "write_front bs buf = (if length buf < length bs then Inl BufferOverflow else Inr (bs @ drop (length bs) buf))"

definition terminate_at :: "nat \<Rightarrow> string \<Rightarrow> string kres" where
  "terminate_at n buf = (if n < length buf then Inr (buf[n := NUL]) else Inl (IndexOutOfBounds (int n)))"

definition call_runtime_protocol :: "get_variable option \<Rightarrow> string \<Rightarrow> (int \<times> string) kres" where
  "call_runtime_protocol get_variable info_buf =
     (case get_variable of
        None \<Rightarrow> Inr (- ENOSYS, info_buf)
      | Some gv \<Rightarrow>
          let (status, n, bs) = gv ''MyTestInfo'' EFI_GLOBAL_VARIABLE_GUID (INFO_BUF_SIZE - 1) in
          kbind (write_front bs info_buf) (\<lambda>info_buf.
          if status = EFI_SUCCESS then kbind (terminate_at n info_buf) (\<lambda>info_buf. Inr (0, info_buf))
          else
            let (status, n, bs) = gv ''MyRuntimeInfo'' MY_GUID (INFO_BUF_SIZE - 1) in
            kbind (write_front bs info_buf) (\<lambda>info_buf.
            if status \<noteq> EFI_SUCCESS then Inr (- ENODEV, info_buf)
            else kbind (terminate_at n info_buf) (\<lambda>info_buf. Inr (0, info_buf)))))"

record runtime_module =
  info_buf :: string
  runtime_kobj :: bool
  info_file :: bool

definition FAILED_MSG :: string where "FAILED_MSG = ''Failed to get EFI variable''"

definition my_runtime_info_init ::
    "bool \<Rightarrow> get_variable option \<Rightarrow> bool \<Rightarrow> bool \<Rightarrow> runtime_module \<Rightarrow> (int \<times> runtime_module) kres" where
  "my_runtime_info_init efi_enabled get_variable kobject_ok create_file_ok s =
     (if \<not> efi_enabled then Inr (- ENODEV, s)
      else kbind (call_runtime_protocol get_variable (info_buf s)) (\<lambda>(ret, buf).
        kbind (if ret \<noteq> 0 then write_front (FAILED_MSG @ [NUL]) buf else Inr buf) (\<lambda>buf.
        let s = s\<lparr>info_buf := buf\<rparr> in
        if \<not> kobject_ok then Inr (- ENOMEM, s)
        else if \<not> create_file_ok then Inr (- EFAULT, s)
        else Inr (0, s\<lparr>runtime_kobj := True, info_file := True\<rparr>))))"

definition my_runtime_info_exit :: "runtime_module \<Rightarrow> runtime_module" where
  "my_runtime_info_exit s = (if runtime_kobj s then s\<lparr>info_file := False, runtime_kobj := False\<rparr> else s)"

definition c_string :: "string \<Rightarrow> string" where
  "c_string buf = takeWhile (\<lambda>c. c \<noteq> NUL) buf"

definition info_show :: "runtime_module \<Rightarrow> string" where
  "info_show s = c_string (info_buf s) @ [CHR 0x0A]"

text \<open>The module as loaded: a zeroed buffer.\<close>

definition module_bss :: runtime_module where
  "module_bss = \<lparr>info_buf = replicate INFO_BUF_SIZE NUL, runtime_kobj = False, info_file = False\<rparr>"

subsection \<open>Reading a variable\<close>

text \<open>
  What the UEFI specification promises of \<^verbatim>\<open>GetVariable\<close>: on success the size stored back is the
  number of bytes written and does not exceed the room; otherwise nothing is written.
\<close>

definition get_variable_ok :: "get_variable \<Rightarrow> bool" where
  "get_variable_ok gv \<longleftrightarrow> (\<forall>name guid room. case gv name guid room of (status, n, bs) \<Rightarrow>
     if status = EFI_SUCCESS then n = length bs \<and> n \<le> room else bs = '''')"

text \<open>The service over a variable store.\<close>

definition read_vars :: "efi_vars \<Rightarrow> get_variable" where
  "read_vars vars name guid room =
     (case vars (name, guid) of
        None \<Rightarrow> (EFI_NOT_FOUND, 0, '''')
      | Some bs \<Rightarrow> if room < length bs then (EFI_BUFFER_TOO_SMALL, length bs, '''') else (EFI_SUCCESS, length bs, bs))"

lemma read_vars_ok: "get_variable_ok (read_vars vars)"
  by (auto simp: get_variable_ok_def read_vars_def split: option.splits)

lemma get_variable_cases:
  assumes "get_variable_ok gv"
  obtains (ok) n bs where "gv name guid room = (EFI_SUCCESS, n, bs)" "n = length bs" "n \<le> room"
  | (failed) st n where "gv name guid room = (st, n, '''')" "st \<noteq> EFI_SUCCESS"
proof -
  obtain st n bs where g: "gv name guid room = (st, n, bs)" by (cases "gv name guid room") auto
  have "case gv name guid room of (status, n, bs) \<Rightarrow> if status = EFI_SUCCESS then n = length bs \<and> n \<le> room else bs = ''''"
    using assms [unfolded get_variable_ok_def, THEN spec [of _ name], THEN spec [of _ guid], THEN spec [of _ room]] .
  then have "if st = EFI_SUCCESS then n = length bs \<and> n \<le> room else bs = ''''" using g by simp
  with g ok failed show thesis by (cases "st = EFI_SUCCESS") simp_all
qed

text \<open>The buffer keeps its size and holds the NUL-terminated contents.\<close>

lemma write_terminate:
  assumes "length buf = INFO_BUF_SIZE" "length bs \<le> INFO_BUF_SIZE - 1"
  shows "kbind (write_front bs buf) (terminate_at (length bs)) = Inr (bs @ NUL # drop (length bs + 1) buf)"
  using assms
  by (auto simp: write_front_def terminate_at_def INFO_BUF_SIZE_def list_update_append simp flip: Cons_nth_drop_Suc)

lemma c_string_prefix: "c_string (bs @ NUL # rest) = c_string bs"
  by (simp add: c_string_def takeWhile_tail)

lemma call_ok_first:
  assumes "gv ''MyTestInfo'' EFI_GLOBAL_VARIABLE_GUID (INFO_BUF_SIZE - 1) = (EFI_SUCCESS, length bs, bs)"
    and "length buf = INFO_BUF_SIZE" "length bs \<le> INFO_BUF_SIZE - 1"
  shows "call_runtime_protocol (Some gv) buf = Inr (0, bs @ NUL # drop (length bs + 1) buf)"
proof -
  from write_terminate [OF assms(2,3)] obtain b where "write_front bs buf = Inr b"
    "terminate_at (length bs) b = Inr (bs @ NUL # drop (length bs + 1) buf)" by auto
  with assms(1) show ?thesis by (simp add: call_runtime_protocol_def)
qed

lemma call_ok_second:
  assumes "gv ''MyTestInfo'' EFI_GLOBAL_VARIABLE_GUID (INFO_BUF_SIZE - 1) = (st, n, '''')" "st \<noteq> EFI_SUCCESS"
    and "gv ''MyRuntimeInfo'' MY_GUID (INFO_BUF_SIZE - 1) = (EFI_SUCCESS, length bs, bs)"
    and "length buf = INFO_BUF_SIZE" "length bs \<le> INFO_BUF_SIZE - 1"
  shows "call_runtime_protocol (Some gv) buf = Inr (0, bs @ NUL # drop (length bs + 1) buf)"
proof -
  from write_terminate [OF assms(4,5)] obtain b where "write_front bs buf = Inr b"
    "terminate_at (length bs) b = Inr (bs @ NUL # drop (length bs + 1) buf)" by auto
  with assms(1-3) show ?thesis by (simp add: call_runtime_protocol_def write_front_def)
qed

lemma call_failed:
  assumes "gv ''MyTestInfo'' EFI_GLOBAL_VARIABLE_GUID (INFO_BUF_SIZE - 1) = (st, n, '''')" "st \<noteq> EFI_SUCCESS"
    and "gv ''MyRuntimeInfo'' MY_GUID (INFO_BUF_SIZE - 1) = (st', n', '''')" "st' \<noteq> EFI_SUCCESS"
  shows "call_runtime_protocol (Some gv) buf = Inr (- ENODEV, buf)"
  using assms by (simp add: call_runtime_protocol_def write_front_def)

subsection \<open>Properties\<close>

text \<open>
  C20. From firmware to sysfs: when the driver ran and the kernel module then starts on the
  variables it left, the file shows the driver's message if at least one of the two variables
  could be stored (and nobody else had stored under these names), and the failure text otherwise.
\<close>

theorem runtime_info_roundtrip:
  assumes "RuntimeInfoEntryPoint True install verdict vars = (EFI_SUCCESS, vars')" "\<not> EFI_ERROR install"
    and "vars (''MyTestInfo'', EFI_GLOBAL_VARIABLE_GUID) = None" "vars (''MyRuntimeInfo'', MY_GUID) = None"
  shows "\<exists>s. my_runtime_info_init True (Some (read_vars vars')) True True module_bss = Inr (0, s) \<and>
    info_show s = (if \<not> EFI_ERROR (verdict ''MyTestInfo'' EFI_GLOBAL_VARIABLE_GUID) \<or> \<not> EFI_ERROR (verdict ''MyRuntimeInfo'' MY_GUID)
                   then INFO_MSG else FAILED_MSG) @ [CHR 0x0A]"
proof -
  let ?t = "\<not> EFI_ERROR (verdict ''MyTestInfo'' EFI_GLOBAL_VARIABLE_GUID)"
  let ?r = "\<not> EFI_ERROR (verdict ''MyRuntimeInfo'' MY_GUID)"
  let ?msg = "INFO_MSG @ [NUL]"
  have vt: "vars' (''MyTestInfo'', EFI_GLOBAL_VARIABLE_GUID) = (if ?t then Some ?msg else None)"
    and vr: "vars' (''MyRuntimeInfo'', MY_GUID) = (if ?r then Some ?msg else None)"
    using assms by (auto simp: RuntimeInfoEntryPoint_def set_variable_def Let_def)
  have len: "length ?msg \<le> INFO_BUF_SIZE - 1" "length (info_buf module_bss) = INFO_BUF_SIZE"
    by (simp_all add: INFO_MSG_def INFO_BUF_SIZE_def module_bss_def)
  have str: "c_string ?msg = INFO_MSG" "c_string FAILED_MSG = FAILED_MSG"
    by (simp_all add: INFO_MSG_def FAILED_MSG_def c_string_def NUL_def)
  note init = my_runtime_info_init_def Let_def info_show_def
  consider (test) ?t | (run) "\<not> ?t" ?r | (none) "\<not> ?t" "\<not> ?r" by blast
  then show ?thesis
  proof cases
    case test
    then have "read_vars vars' ''MyTestInfo'' EFI_GLOBAL_VARIABLE_GUID (INFO_BUF_SIZE - 1) = (EFI_SUCCESS, length ?msg, ?msg)"
      using vt len(1) by (simp add: read_vars_def)
    from call_ok_first [where gv = "read_vars vars'", OF this len(2,1)] test str(1) show ?thesis by (simp add: init c_string_prefix)
  next
    case run
    then have "read_vars vars' ''MyTestInfo'' EFI_GLOBAL_VARIABLE_GUID (INFO_BUF_SIZE - 1) = (EFI_NOT_FOUND, 0, '''')"
      "read_vars vars' ''MyRuntimeInfo'' MY_GUID (INFO_BUF_SIZE - 1) = (EFI_SUCCESS, length ?msg, ?msg)"
      using vt vr len(1) by (simp_all add: read_vars_def)
    from call_ok_second [where gv = "read_vars vars'", OF this(1) _ this(2) len(2,1)] run str(1) show ?thesis by (simp add: init c_string_prefix)
  next
    case none
    then have "read_vars vars' ''MyTestInfo'' EFI_GLOBAL_VARIABLE_GUID (INFO_BUF_SIZE - 1) = (EFI_NOT_FOUND, 0, '''')"
      "read_vars vars' ''MyRuntimeInfo'' MY_GUID (INFO_BUF_SIZE - 1) = (EFI_NOT_FOUND, 0, '''')"
      using vt vr by (simp_all add: read_vars_def)
    note call = call_failed [where gv = "read_vars vars'", OF this(1) _ this(2)]
    have "length (FAILED_MSG @ [NUL]) \<le> INFO_BUF_SIZE" by (simp add: FAILED_MSG_def INFO_BUF_SIZE_def)
    then have "write_front (FAILED_MSG @ [NUL]) (info_buf module_bss) = Inr (FAILED_MSG @ NUL # drop (length FAILED_MSG + 1) (info_buf module_bss))"
      using len(2) by (simp add: write_front_def)
    with call none str(2) show ?thesis by (simp add: init c_string_prefix errno_defs)
  qed
qed

text \<open>
  The 256-byte buffer of the module is never overrun and always terminated: whatever the
  firmware answers within the contract of \<^verbatim>\<open>GetVariable\<close>, initialisation does not fault, the buffer
  keeps its size, and the text shown is at most 255 characters and a newline.
\<close>

lemma runtime_info_buffer_bounds:
  assumes "get_variable_ok gv" "length (info_buf s) = INFO_BUF_SIZE"
  shows "\<exists>r s'. my_runtime_info_init True (Some gv) k f s = Inr (r, s') \<and> length (info_buf s') = INFO_BUF_SIZE \<and>
    NUL \<in> set (info_buf s') \<and> length (info_show s') \<le> INFO_BUF_SIZE"
proof -
  have call: "\<exists>r buf. call_runtime_protocol (Some gv) (info_buf s) = Inr (r, buf) \<and> length buf = INFO_BUF_SIZE \<and> (r = 0 \<longrightarrow> NUL \<in> set buf)"
  proof (cases rule: get_variable_cases [OF assms(1), of "''MyTestInfo''" EFI_GLOBAL_VARIABLE_GUID "INFO_BUF_SIZE - 1"])
    case (1 n bs)
    with call_ok_first [of gv bs "info_buf s"] assms(2) show ?thesis by (auto simp: INFO_BUF_SIZE_def)
  next
    case a: (2 st n)
    show ?thesis
    proof (cases rule: get_variable_cases [OF assms(1), of "''MyRuntimeInfo''" MY_GUID "INFO_BUF_SIZE - 1"])
      case (1 n bs)
      with call_ok_second [where gv = gv, OF a, of bs "info_buf s"] assms(2) show ?thesis by (auto simp: INFO_BUF_SIZE_def)
    next
      case (2 st' n')
      with call_failed [where gv = gv, OF a] assms(2) show ?thesis by (auto simp: errno_defs)
    qed
  qed
  then obtain r buf where c: "call_runtime_protocol (Some gv) (info_buf s) = Inr (r, buf)" "length buf = INFO_BUF_SIZE"
    "r = 0 \<longrightarrow> NUL \<in> set buf" by blast
  let ?buf = "if r \<noteq> 0 then (FAILED_MSG @ [NUL]) @ drop (length FAILED_MSG + 1) buf else buf"
  have fit: "length (FAILED_MSG @ [NUL]) \<le> INFO_BUF_SIZE" by (simp add: FAILED_MSG_def INFO_BUF_SIZE_def)
  have b: "length ?buf = INFO_BUF_SIZE" "NUL \<in> set ?buf" using c(2,3) fit by auto
  have "length (c_string xs) < length xs" if "NUL \<in> set xs" for xs
    using that by (induction xs) (auto simp: c_string_def)
  with b have sh: "length (c_string ?buf) + 1 \<le> INFO_BUF_SIZE" by fastforce
  have "(if r \<noteq> 0 then write_front (FAILED_MSG @ [NUL]) buf else Inr buf) = Inr ?buf"
    using c(2) fit by (simp add: write_front_def)
  then show ?thesis
    using c(1) b sh by (auto simp: my_runtime_info_init_def Let_def info_show_def)
qed

subsection \<open>Instances\<close>

lemma runtime_info_roundtrip_witness:
  "\<exists>vars' s. RuntimeInfoEntryPoint True EFI_SUCCESS (\<lambda>n g. if g = MY_GUID then EFI_SUCCESS else EFI_OTHER 3) (\<lambda>x. None) =
       (EFI_SUCCESS, vars') \<and>
     my_runtime_info_init True (Some (read_vars vars')) True True module_bss = Inr (0, s) \<and> info_show s = INFO_MSG @ [CHR 0x0A]"
proof -
  let ?v = "\<lambda>n g. if g = MY_GUID then EFI_SUCCESS else EFI_OTHER 3"
  obtain vars' where v: "RuntimeInfoEntryPoint True EFI_SUCCESS ?v (\<lambda>x. None) = (EFI_SUCCESS, vars')"
    by (simp add: RuntimeInfoEntryPoint_def Let_def EFI_ERROR_def)
  from runtime_info_roundtrip [OF v] v show ?thesis by (auto simp: EFI_ERROR_def)
qed

lemma runtime_info_buffer_bounds_witness:
  "\<exists>r s'. my_runtime_info_init True (Some (read_vars (\<lambda>x. Some (replicate 300 CHR ''a'')))) True True module_bss = Inr (r, s') \<and>
     length (info_buf s') = 256"
  using runtime_info_buffer_bounds [OF read_vars_ok, of module_bss "\<lambda>x. Some (replicate 300 CHR ''a'')" True True] by (auto simp: module_bss_def INFO_BUF_SIZE_def)

end
