(* ===== verification/User_Programs.thy ===== *)
theory User_Programs
  imports KV_Process
begin

text \<open>
  The user-space programs of the repository: \<^verbatim>\<open>Memory/Task1/impl.c\<close> (remapping memory, writing a
  file through a mapping), \<^verbatim>\<open>FS/Task1/read.c\<close> (extended attributes), \<^verbatim>\<open>Net/Task1/server.c\<close> (one
  connection of the server), \<^verbatim>\<open>Net/Task2/nccl_wrapper.c\<close> and \<^verbatim>\<open>Syscall/kv_call/kv_lua_binding.c\<close>.
  What the C library, the CUDA and NCCL libraries and Lua answer is a parameter of each program.
\<close>

subsection \<open>Memory/Task1: mmap_remap\<close>

text \<open>Mapped memory: the regions of the process by their address.\<close>

type_synonym regions = "addr \<Rightarrow> u8 list option"

definition memcpy_region :: "regions \<Rightarrow> addr \<Rightarrow> addr \<Rightarrow> nat \<Rightarrow> regions kres" where
  "memcpy_region mem dst src n =
     (case (mem dst, mem src) of
        (Some d, Some s) \<Rightarrow> if length s < n \<or> length d < n then Inl BufferOverflow
          else Inr (mem(dst \<mapsto> take n s @ drop n d))
      | _ \<Rightarrow> Inl NullDereference)"

text \<open>\<^verbatim>\<open>mmap\<close> chooses an address for a size, or fails; the new region is zeroed.\<close>

definition mmap_remap :: "(regions \<Rightarrow> nat \<Rightarrow> addr option) \<Rightarrow> addr option \<Rightarrow> nat \<Rightarrow> regions \<Rightarrow> (addr option \<times> regions) kres" where
  "mmap_remap mmap addr n mem =
     (case mmap mem n of
        None \<Rightarrow> Inr (None, mem)
      | Some new_addr \<Rightarrow>
          let mem = mem(new_addr \<mapsto> replicate n 0) in
          (case addr of
             None \<Rightarrow> Inr (Some new_addr, mem)
           | Some a \<Rightarrow> kbind (memcpy_region mem new_addr a n) (\<lambda>mem. Inr (Some new_addr, mem))))"

subsection \<open>Memory/Task1: file_mmap_write\<close>

record os_calls =
  open_ok :: bool
  fstat_ok :: bool
  ftruncate_ok :: bool
  mmap_ok :: bool
  msync_ok :: bool
  munmap_ok :: bool

text \<open>The files by name, and how many descriptors the process has open.\<close>

record fs_state =
  file_data :: "string \<Rightarrow> u8 list option"
  open_fds :: nat

definition ftruncate_data :: "nat \<Rightarrow> u8 list \<Rightarrow> u8 list" where
  "ftruncate_data n d = take n d @ replicate (n - length d) 0"

text \<open>\<^verbatim>\<open>mmap\<close> refuses a length of zero; the mapping covers \<^verbatim>\<open>tot_size\<close> bytes of the file.\<close>

definition file_mmap_write :: "os_calls \<Rightarrow> string \<Rightarrow> u64 \<Rightarrow> u8 list \<Rightarrow> fs_state \<Rightarrow> (int \<times> fs_state) kres" where
  "file_mmap_write os filename offset content s =
     (let content_len = length content; tot_size = offset + of_nat content_len in
      if \<not> open_ok os then Inr (- 1, s)
      else
        let old = (case file_data s filename of Some d \<Rightarrow> d | None \<Rightarrow> []);
            s = s\<lparr>file_data := (file_data s)(filename \<mapsto> old), open_fds := open_fds s + 1\<rparr>;
            closed = (\<lambda>s. s\<lparr>open_fds := open_fds s - 1\<rparr>) in
        if \<not> fstat_ok os then Inr (- 1, closed s)
        else if of_nat (length old) < tot_size \<and> \<not> ftruncate_ok os then Inr (- 1, closed s)
        else
          let data = (if of_nat (length old) < tot_size then ftruncate_data (unat tot_size) old else old);
              s = s\<lparr>file_data := (file_data s)(filename \<mapsto> data)\<rparr> in
          if \<not> mmap_ok os \<or> tot_size = 0 then Inr (- 1, closed s)
          else if content_len \<noteq> 0 \<and> unat tot_size < unat offset + content_len then Inl BufferOverflow
          else
            let data = take (unat offset) data @ content @ drop (unat offset + content_len) data;
                s = s\<lparr>file_data := (file_data s)(filename \<mapsto> data)\<rparr> in
            if \<not> msync_ok os then Inr (- 1, closed s)
            else if \<not> munmap_ok os then Inr (- 1, closed s)
            else Inr (0, closed s))"

subsection \<open>FS/Task1: reading an attribute\<close>

text \<open>
  \<^verbatim>\<open>getxattr\<close> stores at most the size of the buffer and returns the length, or -1. The buffer is 256
  bytes and the terminator is stored behind the value.
\<close>

definition getxattr_buf :: "u8 list option \<Rightarrow> nat \<Rightarrow> int \<times> u8 list" where
  "getxattr_buf value' sz =
     (case value' of
        None \<Rightarrow> (- 1, [])
      | Some v \<Rightarrow> if sz < length v then (- 1, []) else (int (length v), v))"

datatype tool_out = Perror string | Got "u8 list" | Set_ok

definition get_file_xattr :: "u8 list option \<Rightarrow> tool_out kres" where
  "get_file_xattr value' =
     (let (len, bs) = getxattr_buf value' 256 in
      if len = - 1 then Inr (Perror ''getxattr failed'')
      else if 256 \<le> len then Inl (IndexOutOfBounds len)
      else Inr (Got (takeWhile (\<lambda>b. b \<noteq> 0) (take (nat len) bs))))"

definition set_file_xattr :: "(u8 list \<Rightarrow> int) \<Rightarrow> u8 list \<Rightarrow> tool_out" where
  "set_file_xattr setxattr value' =
     (if setxattr (takeWhile (\<lambda>b. b \<noteq> 0) value') = - 1 then Perror ''setxattr failed'' else Set_ok)"

subsection \<open>Net/Task1: one connection of the server\<close>

datatype server_act = Print_received "u8 list" | Send_ack | Print_disconnected | Perror_recv | Sleep2 | Close_client

text \<open>\<^verbatim>\<open>recv\<close> into a buffer of 1024 bytes returns -1, 0 or the bytes received.\<close>

definition serve_client :: "(int \<times> u8 list) \<Rightarrow> server_act list kres" where
  "serve_client r =
     (let (bytes_received, bs) = r in
      if 0 < bytes_received then
        (if 1024 \<le> bytes_received then Inl (IndexOutOfBounds bytes_received)
         else Inr [Print_received (takeWhile (\<lambda>b. b \<noteq> 0) (take (nat bytes_received) bs)), Send_ack, Sleep2, Close_client])
      else if bytes_received = 0 then Inr [Print_disconnected, Sleep2, Close_client]
      else Inr [Perror_recv, Sleep2, Close_client])"

subsection \<open>Net/Task2: collective operations\<close>

datatype nccl_result = NcclSuccess | NcclUnhandledCudaError | NcclOther nat
datatype cuda_op = StreamCreate | Broadcast nat nat | AllReduce nat | StreamSync | StreamDestroy

text \<open>The verdicts of the CUDA calls and the result of the collective operation; the calls made.\<close>

definition nccl_broadcast_data :: "bool \<Rightarrow> bool \<Rightarrow> bool \<Rightarrow> nccl_result \<Rightarrow> nat \<Rightarrow> nat \<Rightarrow> nccl_result \<times> cuda_op list" where
  "nccl_broadcast_data create_ok sync_ok destroy_ok result count root =
     (if \<not> create_ok then (NcclUnhandledCudaError, [StreamCreate])
      else if \<not> sync_ok then (NcclUnhandledCudaError, [StreamCreate, Broadcast count root, StreamSync, StreamDestroy])
      else if \<not> destroy_ok then (NcclUnhandledCudaError, [StreamCreate, Broadcast count root, StreamSync, StreamDestroy])
      else (result, [StreamCreate, Broadcast count root, StreamSync, StreamDestroy]))"

definition nccl_allreduce_data :: "bool \<Rightarrow> bool \<Rightarrow> bool \<Rightarrow> nccl_result \<Rightarrow> nat \<Rightarrow> nccl_result \<times> cuda_op list" where
  "nccl_allreduce_data create_ok sync_ok destroy_ok result count =
     (if \<not> create_ok then (NcclUnhandledCudaError, [StreamCreate])
      else if \<not> sync_ok then (NcclUnhandledCudaError, [StreamCreate, AllReduce count, StreamSync, StreamDestroy])
      else if \<not> destroy_ok then (NcclUnhandledCudaError, [StreamCreate, AllReduce count, StreamSync, StreamDestroy])
      else (result, [StreamCreate, AllReduce count, StreamSync, StreamDestroy]))"

subsection \<open>Syscall: the Lua binding\<close>

text \<open>A Lua integer has 64 bits; the binding stores it in an int. A long that is returned becomes a Lua integer.\<close>

definition lua_write_kv :: "kmalloc_fn \<Rightarrow> nat \<Rightarrow> u64 \<Rightarrow> u64 \<Rightarrow> kernel \<Rightarrow> (u64 \<times> kernel) kres" where
  "lua_write_kv kmalloc cur lkey value' s =
     kbind (sys_write_kv kmalloc cur (ucast lkey) (ucast value') s) (\<lambda>(result, s). Inr (word_of_int result, s))"

definition lua_read_kv :: "nat \<Rightarrow> u64 \<Rightarrow> kernel \<Rightarrow> (u64 \<times> kernel) kres" where
  "lua_read_kv cur lkey s = kbind (sys_read_kv cur (ucast lkey) s) (\<lambda>(result, s). Inr (word_of_int result, s))"

subsection \<open>What the programs do\<close>

lemma nccl_stream_destroyed:
  "snd (nccl_broadcast_data c s d r n k) = [StreamCreate] \<or>
   last (snd (nccl_broadcast_data c s d r n k)) = StreamDestroy \<and> count_list (snd (nccl_broadcast_data c s d r n k)) StreamDestroy = 1"
  "snd (nccl_allreduce_data c s d r n) = [StreamCreate] \<or>
   last (snd (nccl_allreduce_data c s d r n)) = StreamDestroy \<and> count_list (snd (nccl_allreduce_data c s d r n)) StreamDestroy = 1"
  by (simp_all add: nccl_broadcast_data_def nccl_allreduce_data_def)

lemma mmap_remap_copies:
  assumes "mmap mem n = Some a'" "mem a' = None" "mem a = Some d" "n \<le> length d"
  shows "mmap_remap mmap (Some a) n mem = Inr (Some a', mem(a' \<mapsto> take n d))"
  using assms by (auto simp: mmap_remap_def memcpy_region_def Let_def)

text \<open>Keys of Lua that agree in their low 32 bits are one key of the store.\<close>

lemma lua_key_alias: "ucast k = (ucast k' :: s32) \<Longrightarrow> lua_read_kv cur k s = lua_read_kv cur k' s"
  by (simp add: lua_read_kv_def)

lemma nth_ftruncate_data:
  "i < n \<Longrightarrow> length d < n \<Longrightarrow> ftruncate_data n d ! i = (if i < length d then d ! i else 0)"
  by (simp add: ftruncate_data_def nth_append)

lemma length_ftruncate_data: "length d < n \<Longrightarrow> length (ftruncate_data n d) = n"
  by (simp add: ftruncate_data_def)

lemma unat_tot_size:
  "unat offset + n < 2 ^ 64 \<Longrightarrow> unat (offset + of_nat n :: u64) = unat offset + n"
  by (simp add: unat_word_ariths unat_of_nat)

lemma of_nat_less_u64: "n < 2 ^ 64 \<Longrightarrow> of_nat n < (w :: u64) \<longleftrightarrow> n < unat w"
  by (simp add: word_less_nat_alt unat_of_nat)

subsection \<open>Properties\<close>

text \<open>
  C21. Writing through a mapping: when the system calls succeed and the end of the write fits in a
  \<^verbatim>\<open>size_t\<close>, the call returns 0 and the file is as long as before or up to the end of the write, holds
  the content at the offset, keeps its other bytes and has zeros in a gap; other files and the number
  of open descriptors are unchanged.
\<close>

theorem file_mmap_write_content:
  assumes "os = \<lparr>open_ok = True, fstat_ok = True, ftruncate_ok = True, mmap_ok = True, msync_ok = True, munmap_ok = True\<rparr>"
    and "unat offset + length content < 2 ^ 64" "0 < unat offset + length content"
    and "old = (case file_data s name of Some d \<Rightarrow> d | None \<Rightarrow> [])" "length old < 2 ^ 64"
  shows "\<exists>s' d. file_mmap_write os name offset content s = Inr (0, s') \<and> open_fds s' = open_fds s \<and>
    (\<forall>g. g \<noteq> name \<longrightarrow> file_data s' g = file_data s g) \<and> file_data s' name = Some d \<and>
    length d = max (length old) (unat offset + length content) \<and>
    (\<forall>i < length content. d ! (unat offset + i) = content ! i) \<and>
    (\<forall>i < length d. i < unat offset \<or> unat offset + length content \<le> i \<longrightarrow> d ! i = (if i < length old then old ! i else 0))"
proof -
  let ?o = "unat offset" and ?n = "length content"
  let ?tot = "offset + of_nat ?n :: u64"
  have tot: "unat ?tot = ?o + ?n" by (rule unat_tot_size [OF assms(2)])
  have nz: "?tot \<noteq> 0" using tot assms(3) by (auto simp flip: unat_eq_0)
  have lt: "of_nat (length old) < ?tot \<longleftrightarrow> length old < ?o + ?n" using of_nat_less_u64 [OF assms(5)] tot by simp
  define data where "data = (if length old < ?o + ?n then ftruncate_data (?o + ?n) old else old)"
  define d where "d = take ?o data @ content @ drop (?o + ?n) data"
  have len: "length data = max (length old) (?o + ?n)" by (auto simp: data_def length_ftruncate_data)
  have ld: "length d = max (length old) (?o + ?n)" by (auto simp: d_def len)
  have nth_data: "data ! i = (if i < length old then old ! i else 0)" if "i < length data" for i
    using that len by (auto simp: data_def nth_ftruncate_data)
  have in_content: "d ! (?o + i) = content ! i" if "i < ?n" for i
    using that len by (simp add: d_def nth_append)
  have rest: "d ! i = (if i < length old then old ! i else 0)" if "i < length d" "i < ?o \<or> ?o + ?n \<le> i" for i
  proof -
    have "d ! i = data ! i" using that len ld by (auto simp: d_def nth_append)
    then show ?thesis using nth_data [of i] that(1) len ld by simp
  qed
  have "file_mmap_write os name offset content s = Inr (0, s\<lparr>file_data := (file_data s)(name \<mapsto> d)\<rparr>)"
    using nz lt tot by (simp add: file_mmap_write_def Let_def assms(1) assms(4) [symmetric] d_def data_def)
  with ld in_content rest show ?thesis by auto
qed

text \<open>
  Every failure of the file write closes the descriptor and returns -1, and no other file is
  touched; but when offset and length add up to more than a \<^verbatim>\<open>size_t\<close> holds, the size wraps, the
  mapping is too small and the copy writes outside it.
\<close>

lemma file_mmap_write_errors:
  assumes "r = file_mmap_write os name offset content s"
  shows "(\<forall>c s'. r = Inr (c, s') \<longrightarrow> open_fds s' = open_fds s \<and> (c = 0 \<or> c = - 1) \<and>
      (c = 0 \<longrightarrow> open_ok os \<and> fstat_ok os \<and> mmap_ok os \<and> msync_ok os \<and> munmap_ok os) \<and>
      (\<forall>g. g \<noteq> name \<longrightarrow> file_data s' g = file_data s g)) \<and>
    (open_ok os \<and> fstat_ok os \<and> ftruncate_ok os \<and> mmap_ok os \<and> 2 ^ 64 < unat offset + length content \<and> length content < 2 ^ 64 \<longrightarrow>
      r = Inl BufferOverflow)"
proof (intro conjI)
  show "\<forall>c s'. r = Inr (c, s') \<longrightarrow> open_fds s' = open_fds s \<and> (c = 0 \<or> c = - 1) \<and>
      (c = 0 \<longrightarrow> open_ok os \<and> fstat_ok os \<and> mmap_ok os \<and> msync_ok os \<and> munmap_ok os) \<and>
      (\<forall>g. g \<noteq> name \<longrightarrow> file_data s' g = file_data s g)"
    unfolding assms file_mmap_write_def Let_def by (auto split: if_splits)
  show "open_ok os \<and> fstat_ok os \<and> ftruncate_ok os \<and> mmap_ok os \<and> 2 ^ 64 < unat offset + length content \<and> length content < 2 ^ 64 \<longrightarrow>
      r = Inl BufferOverflow"
  proof
    assume a: "open_ok os \<and> fstat_ok os \<and> ftruncate_ok os \<and> mmap_ok os \<and> 2 ^ 64 < unat offset + length content \<and> length content < 2 ^ 64"
    let ?tot = "offset + of_nat (length content) :: u64"
    have lo: "unat offset < 2 ^ 64" using unsigned_less [where 'a = nat, of offset] by simp
    have "unat ?tot = (unat offset + length content) mod 2 ^ 64" using a by (simp add: unat_word_ariths unat_of_nat)
    also have "\<dots> = unat offset + length content - 2 ^ 64" using a lo by (auto simp: mod_if)
    finally have tot: "unat ?tot = unat offset + length content - 2 ^ 64" .
    then have "?tot \<noteq> 0" "unat ?tot < unat offset + length content" "content \<noteq> []" using a lo by (auto simp flip: unat_eq_0)
    then show "r = Inl BufferOverflow" using a unfolding assms file_mmap_write_def Let_def by simp
  qed
qed

text \<open>
  The programs that terminate what they read store the terminator one byte behind a full
  buffer: reading an attribute faults exactly when its value has 256 bytes, and the server exactly
  when it receives 1024; otherwise the attribute is printed up to its first NUL.
\<close>

lemma terminator_overruns:
  assumes "n \<le> 1024"
  shows "(get_file_xattr (Some v) = Inl (IndexOutOfBounds 256) \<longleftrightarrow> length v = 256) \<and>
    (length v < 256 \<longrightarrow> get_file_xattr (Some v) = Inr (Got (takeWhile (\<lambda>b. b \<noteq> 0) v))) \<and>
    (256 < length v \<longrightarrow> get_file_xattr (Some v) = Inr (Perror ''getxattr failed'')) \<and>
    ((\<exists>e. serve_client (n, bs) = Inl e) \<longleftrightarrow> n = 1024)"
  using assms by (auto simp: get_file_xattr_def getxattr_buf_def serve_client_def Let_def)

subsection \<open>Instances\<close>

definition all_ok :: os_calls where
  "all_ok = \<lparr>open_ok = True, fstat_ok = True, ftruncate_ok = True, mmap_ok = True, msync_ok = True, munmap_ok = True\<rparr>"

lemma file_mmap_write_content_witness:
  "\<exists>s' d. file_mmap_write all_ok ''f'' 5 [1, 2] \<lparr>file_data = [''f'' \<mapsto> [9, 9, 9]], open_fds = 3\<rparr> = Inr (0, s') \<and>
     file_data s' ''f'' = Some d \<and> length d = 7 \<and> d ! 3 = 0 \<and> open_fds s' = 3"
proof -
  let ?s = "\<lparr>file_data = [''f'' \<mapsto> [9, 9, 9 :: u8]], open_fds = 3\<rparr>"
  have h: "unat (5 :: u64) + length [1, 2 :: u8] < 2 ^ 64" "0 < unat (5 :: u64) + length [1, 2 :: u8]"
    "[9, 9, 9] = (case file_data ?s ''f'' of Some d \<Rightarrow> d | None \<Rightarrow> [])" "length [9, 9, 9 :: u8] < 2 ^ 64" by simp_all
  from file_mmap_write_content [OF all_ok_def h] obtain s' d where
    "file_mmap_write all_ok ''f'' 5 [1, 2] ?s = Inr (0, s')" "open_fds s' = open_fds ?s" "file_data s' ''f'' = Some d"
    "length d = max (length [9, 9, 9 :: u8]) (unat (5 :: u64) + length [1, 2 :: u8])"
    "\<forall>i < length d. i < unat (5 :: u64) \<or> unat (5 :: u64) + length [1, 2 :: u8] \<le> i \<longrightarrow>
       d ! i = (if i < length [9, 9, 9 :: u8] then [9, 9, 9] ! i else 0)" by blast
  then show ?thesis by simp
qed

lemma file_mmap_write_errors_witness:
  "file_mmap_write all_ok ''f'' 18446744073709551614 [1, 2, 3] \<lparr>file_data = Map.empty, open_fds = 0\<rparr> = Inl BufferOverflow"
proof -
  have "2 ^ 64 < unat (18446744073709551614 :: u64) + length [1, 2, 3 :: u8]" by simp
  then show ?thesis
    using file_mmap_write_errors [OF refl, of all_ok "''f''" "18446744073709551614" "[1, 2, 3]" "\<lparr>file_data = Map.empty, open_fds = 0\<rparr>"]
    by (simp add: all_ok_def)
qed

lemma terminator_overruns_witness:
  "get_file_xattr (Some (replicate 256 65)) = Inl (IndexOutOfBounds 256) \<and> (\<exists>e. serve_client (1024, []) = Inl e)"
  using terminator_overruns [of 1024 "replicate 256 65" "[]"] by simp

end
