(* ===== verification/Ramfs_Fsync.thy ===== *)
theory Ramfs_Fsync
  imports OS_Prelude
begin

text \<open>
  \<^verbatim>\<open>fs/ramfs/file-mmu.c\<close>: \<^verbatim>\<open>fsync\<close> of a ramfs file copies the file to a backup directory by running
  \<^verbatim>\<open>mkdir\<close> and \<^verbatim>\<open>cp\<close> in user space. The state has the kernel buffers that are allocated and the user
  programs that were run, in order; the allocator, \<^verbatim>\<open>d_path\<close> and the exit of a user program are
  parameters.
\<close>

record umh_call =
  umh_path :: string
  umh_argv :: "string list"
  umh_envp :: "string list"

record fsync_state =
  buffers :: "addr set"
  ran :: "umh_call list"

definition BACKUP_DIR :: string where "BACKUP_DIR = ''/var/backup/ramfs''"

definition umh_env :: "string list" where
  "umh_env = [''HOME=/'', ''PATH=/sbin:/bin:/usr/sbin:/usr/bin'']"

definition mkdir_call :: umh_call where
  "mkdir_call = \<lparr>umh_path = ''/bin/mkdir'', umh_argv = [''/bin/mkdir'', ''-p'', BACKUP_DIR], umh_envp = umh_env\<rparr>"

definition cp_call :: "string \<Rightarrow> umh_call" where
  "cp_call path = \<lparr>umh_path = ''/bin/cp'', umh_argv = [''/bin/cp'', ''-f'', path, BACKUP_DIR], umh_envp = umh_env\<rparr>"

definition call_usermodehelper :: "(umh_call list \<Rightarrow> umh_call \<Rightarrow> int) \<Rightarrow> umh_call \<Rightarrow> fsync_state \<Rightarrow> int \<times> fsync_state" where
  "call_usermodehelper umh c s = (umh (ran s) c, s\<lparr>ran := ran s @ [c]\<rparr>)"

definition ramfs_backup_fsync ::
    "(addr set \<Rightarrow> addr option) \<Rightarrow> (umh_call list \<Rightarrow> umh_call \<Rightarrow> int) \<Rightarrow> int + string \<Rightarrow> fsync_state \<Rightarrow> int \<times> fsync_state" where
  "ramfs_backup_fsync kmalloc umh d_path s =
     (case kmalloc (buffers s) of
        None \<Rightarrow> (- ENOMEM, s)
      | Some src_path \<Rightarrow>
          let s = s\<lparr>buffers := insert src_path (buffers s)\<rparr>;
              kfree = (\<lambda>s. s\<lparr>buffers := buffers s - {src_path}\<rparr>) in
          (case d_path of
             Inl ret \<Rightarrow> (ret, kfree s)
           | Inr path_ptr \<Rightarrow>
               let (ret, s) = call_usermodehelper umh mkdir_call s in
               if ret \<noteq> 0 then (ret, kfree s)
               else let (ret, s) = call_usermodehelper umh (cp_call path_ptr) s in (ret, kfree s)))"

text \<open>
  C22. \<^verbatim>\<open>fsync\<close> reports success exactly when the path was found and both programs exited with 0; it
  runs \<^verbatim>\<open>mkdir\<close> and then, only if that worked, \<^verbatim>\<open>cp\<close> of this file, and on every path it frees the buffer
  it allocated and no other.
\<close>

theorem ramfs_fsync_result:
  assumes "kmalloc (buffers s) = Some b" "b \<notin> buffers s" "\<forall>e. d_path = Inl e \<longrightarrow> e \<noteq> 0"
    and "ramfs_backup_fsync kmalloc umh d_path s = (r, s')"
  shows "buffers s' = buffers s \<and>
    (r = 0 \<longleftrightarrow> (\<exists>p. d_path = Inr p \<and> umh (ran s) mkdir_call = 0 \<and> umh (ran s @ [mkdir_call]) (cp_call p) = 0)) \<and>
    ran s' = ran s @ (case d_path of
       Inl _ \<Rightarrow> []
     | Inr p \<Rightarrow> if umh (ran s) mkdir_call \<noteq> 0 then [mkdir_call] else [mkdir_call, cp_call p])"
  using assms
  by (cases d_path) (auto simp: ramfs_backup_fsync_def call_usermodehelper_def Let_def split: if_splits)

lemma ramfs_fsync_result_witness:
  "\<exists>s'. ramfs_backup_fsync (\<lambda>B. Some 7) (\<lambda>cs c. if umh_path c = ''/bin/cp'' then 256 else 0) (Inr ''/mnt/a'')
     \<lparr>buffers = {3}, ran = []\<rparr> = (256, s') \<and> buffers s' = {3} \<and> ran s' = [mkdir_call, cp_call ''/mnt/a'']"
proof -
  let ?s = "\<lparr>buffers = {3}, ran = []\<rparr>"
  let ?u = "\<lambda>cs c. if umh_path c = ''/bin/cp'' then 256 else 0 :: int"
  obtain r s' where r: "ramfs_backup_fsync (\<lambda>B. Some 7) ?u (Inr ''/mnt/a'') ?s = (r, s')" by fastforce
  have u: "?u [] mkdir_call = 0" "?u [mkdir_call] (cp_call ''/mnt/a'') = 256"
    by (simp_all add: mkdir_call_def cp_call_def)
  from r have "r = 256"
    by (simp add: ramfs_backup_fsync_def call_usermodehelper_def Let_def mkdir_call_def cp_call_def split: prod.splits)
  with ramfs_fsync_result [OF _ _ _ r, of 7] r u show ?thesis by simp
qed

end
