(* ===== verification/C_Numbers.thy ===== *)
theory C_Numbers
  imports OS_Prelude
begin

text \<open>
  Numbers in text, as the C library reads and prints them: \<^verbatim>\<open>strtoul\<close> and \<^verbatim>\<open>strtol\<close> of the user programs
  with their sign, base prefix, saturation and end pointer, the digits of \<^verbatim>\<open>%d\<close> and \<^verbatim>\<open>%u\<close>, and the round
  trip between the two. A string has no NUL; the end pointer is the part that was not read.
\<close>

subsection \<open>Characters\<close>

definition isspace :: "char \<Rightarrow> bool" where
  "isspace c = (let n = of_char c :: nat in n = 32 \<or> (9 \<le> n \<and> n \<le> 13))"

text \<open>The value of a digit: \<^verbatim>\<open>0-9\<close>, then letters of either case from 10 on.\<close>

definition digit_val :: "char \<Rightarrow> nat option" where
  "digit_val c = (let n = of_char c :: nat in
     if 48 \<le> n \<and> n \<le> 57 then Some (n - 48)
     else if 97 \<le> n \<and> n \<le> 122 then Some (n - 87)
     else if 65 \<le> n \<and> n \<le> 90 then Some (n - 55)
     else None)"

definition is_digit_of :: "nat \<Rightarrow> char \<Rightarrow> bool" where
  "is_digit_of base c = (case digit_val c of None \<Rightarrow> False | Some d \<Rightarrow> d < base)"

fun digits_value :: "nat \<Rightarrow> nat \<Rightarrow> string \<Rightarrow> nat" where
  "digits_value base acc [] = acc"
| "digits_value base acc (c # cs) =
     (case digit_val c of None \<Rightarrow> acc | Some d \<Rightarrow> digits_value base (acc * base + d) cs)"

subsection \<open>Reading\<close>

definition skip_spaces :: "string \<Rightarrow> string" where
  "skip_spaces s = dropWhile isspace s"

definition strip_sign :: "string \<Rightarrow> bool \<times> string" where
  "strip_sign s = (case s of
       c # cs \<Rightarrow> if c = CHR ''-'' then (True, cs) else if c = CHR ''+'' then (False, cs) else (False, s)
     | [] \<Rightarrow> (False, s))"

text \<open>\<^verbatim>\<open>0x\<close> counts as a prefix only when a hexadecimal digit follows.\<close>

definition has_hex_prefix :: "string \<Rightarrow> bool" where
  "has_hex_prefix s = (case s of
       z # x # d # _ \<Rightarrow> z = CHR ''0'' \<and> (x = CHR ''x'' \<or> x = CHR ''X'') \<and> is_digit_of 16 d
     | _ \<Rightarrow> False)"

definition strip_base :: "nat \<Rightarrow> string \<Rightarrow> nat \<times> string" where
  "strip_base base s =
     (if (base = 0 \<or> base = 16) \<and> has_hex_prefix s then (16, drop 2 s)
      else if base = 0 then (if s \<noteq> [] \<and> hd s = CHR ''0'' then 8 else 10, s)
      else (base, s))"

text \<open>Sign, magnitude and rest; \<open>None\<close> when there is no digit, where the end pointer is the string itself.\<close>

definition strto_parse :: "nat \<Rightarrow> string \<Rightarrow> (bool \<times> nat \<times> string) option" where
  "strto_parse base s =
     (let (neg, s1) = strip_sign (skip_spaces s);
          (b, s2) = strip_base base s1;
          ds = takeWhile (is_digit_of b) s2 in
      if ds = [] then None else Some (neg, digits_value b 0 ds, drop (length ds) s2))"

record 'a strto_result =
  strto_val :: 'a
  strto_end :: string
  strto_erange :: bool
  strto_none :: bool

definition ULONG_MAX :: nat where "ULONG_MAX = 2 ^ 64 - 1"

definition strtoul :: "nat \<Rightarrow> string \<Rightarrow> u64 strto_result" where
  "strtoul base s = (case strto_parse base s of
       None \<Rightarrow> \<lparr>strto_val = 0, strto_end = s, strto_erange = False, strto_none = True\<rparr>
     | Some (neg, v, rest) \<Rightarrow>
         \<lparr>strto_val = (if ULONG_MAX < v then of_nat ULONG_MAX else if neg then - of_nat v else of_nat v),
          strto_end = rest, strto_erange = (ULONG_MAX < v), strto_none = False\<rparr>)"

definition strtol :: "nat \<Rightarrow> string \<Rightarrow> int strto_result" where
  "strtol base s = (case strto_parse base s of
       None \<Rightarrow> \<lparr>strto_val = 0, strto_end = s, strto_erange = False, strto_none = True\<rparr>
     | Some (neg, v, rest) \<Rightarrow>
         let i = (if neg then - int v else int v) in
         \<lparr>strto_val = (if i < - (2 ^ 63) then - (2 ^ 63) else if 2 ^ 63 - 1 < i then 2 ^ 63 - 1 else i),
          strto_end = rest, strto_erange = (i < - (2 ^ 63) \<or> 2 ^ 63 - 1 < i), strto_none = False\<rparr>)"

subsection \<open>Printing\<close>

definition digit_char :: "nat \<Rightarrow> char" where
  "digit_char d = char_of (48 + d)"

fun print_nat :: "nat \<Rightarrow> string" where
  "print_nat n = (if n < 10 then [digit_char n] else print_nat (n div 10) @ [digit_char (n mod 10)])"

declare print_nat.simps [simp del]

definition print_int :: "int \<Rightarrow> string" where
  "print_int i = (if i < 0 then CHR ''-'' # print_nat (nat (- i)) else print_nat (nat i))"

lemma of_char_digit_char: "d < 10 \<Longrightarrow> of_char (digit_char d) = 48 + d"
  by (simp add: digit_char_def of_char_of)

lemma digit_val_digit_char [simp]: "d < 10 \<Longrightarrow> digit_val (digit_char d) = Some d"
  by (simp add: digit_val_def of_char_digit_char Let_def)

lemma is_digit_of_digit_char [simp]: "d < 10 \<Longrightarrow> is_digit_of 10 (digit_char d)"
  by (simp add: is_digit_of_def)

lemma print_nat_digits: "c \<in> set (print_nat n) \<Longrightarrow> is_digit_of 10 c"
proof (induction n rule: print_nat.induct)
  case (1 n)
  show ?case
  proof (cases "n < 10")
    case True
    with 1(2) show ?thesis by (simp add: print_nat.simps [of n])
  next
    case False
    with 1 show ?thesis by (auto simp: print_nat.simps [of n])
  qed
qed

lemma print_nat_not_Nil [simp]: "print_nat n \<noteq> []"
  by (subst print_nat.simps) simp

lemma digits_value_append:
  assumes "\<And>c. c \<in> set cs \<Longrightarrow> is_digit_of 10 c"
  shows "digits_value b acc (cs @ ds) = digits_value b (digits_value b acc cs) ds"
  using assms
proof (induction cs arbitrary: acc)
  case (Cons c cs)
  then obtain d where "digit_val c = Some d" by (fastforce simp: is_digit_of_def split: option.splits)
  with Cons show ?case by simp
qed simp

lemma digits_value_print: "digits_value 10 0 (print_nat n) = n"
proof (induction n rule: print_nat.induct)
  case (1 n)
  show ?case
  proof (cases "n < 10")
    case False
    with 1 have "digits_value 10 0 (print_nat n) = digits_value 10 (n div 10) [digit_char (n mod 10)]"
      by (simp add: print_nat.simps [of n] digits_value_append print_nat_digits)
    then show ?thesis by simp
  qed (simp add: print_nat.simps [of n])
qed

text \<open>What a printed number starts with: neither a space nor a sign.\<close>

lemma digit_not_special: "is_digit_of 10 c \<Longrightarrow> \<not> isspace c \<and> c \<noteq> CHR ''-'' \<and> c \<noteq> CHR ''+''"
  by (auto simp: is_digit_of_def digit_val_def isspace_def Let_def split: if_splits)

lemma takeWhile_digits:
  assumes "\<And>c. c \<in> set ds \<Longrightarrow> P c" "rest = [] \<or> \<not> P (hd rest)"
  shows "takeWhile P (ds @ rest) = ds"
  using assms by (cases rest) (simp_all add: takeWhile_append2)

lemma strto_parse_print:
  assumes "rest = [] \<or> \<not> is_digit_of 10 (hd rest)"
  shows "strto_parse 10 (print_nat n @ rest) = Some (False, n, rest)"
proof -
  obtain c cs where p: "print_nat n = c # cs" by (cases "print_nat n") auto
  have c: "is_digit_of 10 c" using print_nat_digits [of c n] p by simp
  have t: "takeWhile (is_digit_of 10) (print_nat n @ rest) = print_nat n"
    using print_nat_digits assms by (rule takeWhile_digits)
  have "skip_spaces (print_nat n @ rest) = print_nat n @ rest"
    using digit_not_special [OF c] p by (simp add: skip_spaces_def)
  moreover have "strip_sign (print_nat n @ rest) = (False, print_nat n @ rest)"
    using digit_not_special [OF c] p by (simp add: strip_sign_def)
  ultimately show ?thesis by (simp add: strto_parse_def strip_base_def t digits_value_print)
qed

lemma strtoul_print:
  assumes "n < 2 ^ 64" "rest = [] \<or> \<not> is_digit_of 10 (hd rest)"
  shows "strtoul 10 (print_nat n @ rest) =
    \<lparr>strto_val = of_nat n, strto_end = rest, strto_erange = False, strto_none = False\<rparr>"
  using assms(1) strto_parse_print [OF assms(2), of n] by (simp add: strtoul_def ULONG_MAX_def)

lemma strtoul_Nil: "strtoul 10 [] = \<lparr>strto_val = 0, strto_end = [], strto_erange = False, strto_none = True\<rparr>"
  by (simp add: strtoul_def strto_parse_def skip_spaces_def strip_sign_def strip_base_def)

lemma print_nat_leading: "0 < n \<Longrightarrow> hd (print_nat n) \<noteq> CHR ''0''"
proof (induction n rule: print_nat.induct)
  case (1 n)
  show ?case
  proof (cases "n < 10")
    case True
    then have "digit_val (hd (print_nat n)) = Some n" by (simp add: print_nat.simps [of n])
    then show ?thesis using 1(2) by (auto simp: digit_val_def)
  next
    case False
    with 1 show ?thesis by (simp add: print_nat.simps [of n])
  qed
qed

lemma length_print_nat: "n < 10 ^ k \<Longrightarrow> 0 < k \<Longrightarrow> length (print_nat n) \<le> k"
proof (induction k arbitrary: n)
  case (Suc k)
  show ?case
  proof (cases "n < 10")
    case False
    then have "0 < k" using Suc.prems by (cases k) auto
    moreover have "n div 10 < 10 ^ k" using Suc.prems by (simp add: div_less_iff_less_mult mult.commute)
    ultimately show ?thesis using Suc.IH [of "n div 10"] False by (simp add: print_nat.simps [of n])
  qed (simp add: print_nat.simps [of n])
qed simp

end
