(* ===== verification/Tcpdump.thy ===== *)
theory Tcpdump
  imports C_Numbers
begin

text \<open>
  \<^verbatim>\<open>Net/Task1/tcpdump/tcpdump.c\<close>: the length filter \<^verbatim>\<open>-g min-max\<close> that the repository adds, from the option
  to the three packet handlers, with the rotation of output files, the numbering of their names and the
  numeric options around it. The globals that options set are the record \<^verbatim>\<open>td_opts\<close>, those the handlers
  change the record \<^verbatim>\<open>td_state\<close>; what goes to files and to the terminal is a log. libpcap, the clock and
  \<^verbatim>\<open>strftime\<close> are parameters. \<^verbatim>\<open>error\<close> and \<^verbatim>\<open>exit_tcpdump\<close> end the program, which is the left side of a sum. The counters that are
  \<^verbatim>\<open>int\<close> in C are unbounded here: \<^verbatim>\<open>infodelay\<close> is raised at most once per skipped packet, and \<^verbatim>\<open>--skip\<close> is at most
  \<^verbatim>\<open>INT_MAX\<close>; the file counters are raised once per file.
\<close>

subsection \<open>Packets, output and state\<close>

record packet =
  pkt_len :: u32
  pkt_data :: "u8 list"

datatype td_event =
    Passed_filter u32
  | Dumped string packet
  | Flushed
  | Pretty packet u32
  | Info_line u32
  | Got_line u32
  | Closed string
  | Compressed string
  | Opened string

record td_opts =
  filter_by_length :: bool
  min_length :: u32
  max_length :: u32
  packets_to_skip :: u32
  count_mode :: bool
  Cflag :: int
  Gflag :: int
  Wflag :: int
  WflagChars :: int
  Uflag :: bool
  zflag :: bool
  pretty :: bool
  WFileName :: string

record td_env =
  ftell :: "packet list \<Rightarrow> int"
  strftime :: "int \<Rightarrow> string \<Rightarrow> string"
  dump_open :: "string \<Rightarrow> bool"
  malloc_ok :: bool

record td_state =
  packets_captured :: u32
  infodelay :: int
  infoprint :: int
  Cflag_count :: int
  Gflag_count :: int
  Gflag_time :: int
  cur_file :: string
  written :: "packet list"
  td_log :: "td_event list"

datatype td_stop = Exit_error string | Exit_success "td_event list" | Unterminated_name

definition emit :: "td_event \<Rightarrow> td_state \<Rightarrow> td_state" where
  "emit e s = s\<lparr>td_log := td_log s @ [e]\<rparr>"

subsection \<open>The option \<^verbatim>\<open>-g\<close>\<close>

definition is_length_in_range :: "u32 \<Rightarrow> u32 \<Rightarrow> u32 \<Rightarrow> bool" where
  "is_length_in_range len mn mx = (mn \<le> len \<and> len \<le> mx)"

text \<open>The text up to the first dash and behind it; the results of \<^verbatim>\<open>strtoul\<close> are cut to 32 bits.\<close>

definition option_g :: "string \<Rightarrow> td_opts \<Rightarrow> td_stop + td_opts" where
  "option_g optarg opts =
     (let opts = opts\<lparr>filter_by_length := True\<rparr>;
          before = takeWhile (\<lambda>c. c \<noteq> CHR ''-'') optarg in
      if length before = length optarg
      then Inl (Exit_error ''invalid packet length range format (min-max expected)'')
      else
        let after = drop (length before + 1) optarg;
            lo = strtoul 10 before;
            opts = opts\<lparr>min_length := ucast (strto_val lo)\<rparr> in
        if strto_end lo \<noteq> [] then Inl (Exit_error ''invalid minimum packet length'')
        else
          let hi = strtoul 10 after;
              opts = opts\<lparr>max_length := ucast (strto_val hi)\<rparr> in
          if strto_end hi \<noteq> [] then Inl (Exit_error ''invalid maximum packet length'')
          else if max_length opts < min_length opts
          then Inl (Exit_error ''minimum packet length cannot be greater than maximum'')
          else Inr opts)"

subsection \<open>File names\<close>

text \<open>The loop counts the decimal digits of \<open>x - 1\<close>.\<close>

fun digit_count :: "nat \<Rightarrow> nat" where
  "digit_count x = (if x = 0 then 0 else 1 + digit_count (x div 10))"

declare digit_count.simps [simp del]

definition getWflagChars :: "int \<Rightarrow> int" where
  "getWflagChars x = int (digit_count (nat (x - 1)))"

definition PATH_MAX :: nat where "PATH_MAX = 4096"

text \<open>\<^verbatim>\<open>%0*d\<close>: at least so many characters, filled with zeros.\<close>

definition print_padded :: "int \<Rightarrow> int \<Rightarrow> string" where
  "print_padded width i =
     (if i < 0 then CHR ''-'' # replicate (nat width - length (print_nat (nat (- i))) - 1) CHR ''0'' @ print_nat (nat (- i))
      else replicate (nat width - length (print_nat (nat i))) CHR ''0'' @ print_nat (nat i))"

text \<open>
  \<^verbatim>\<open>strncpy(filename, orig_name, PATH_MAX)\<close> leaves a name of \<^verbatim>\<open>PATH_MAX\<close> or more characters without its
  terminator, and the copy behind it reads on.
\<close>

definition MakeFilename :: "td_env \<Rightarrow> td_opts \<Rightarrow> int \<Rightarrow> string \<Rightarrow> int \<Rightarrow> int \<Rightarrow> td_stop + string" where
  "MakeFilename env opts gtime orig_name cnt max_chars =
     (if \<not> malloc_ok env then Inl (Exit_error ''MakeFilename: malloc'')
      else if orig_name = [] then Inl (Exit_error ''an empty string is not a valid file name'')
      else
        kbind (if Gflag opts \<noteq> 0
               then (let f = strftime env gtime orig_name in
                     if f = [] \<or> PATH_MAX \<le> length f then Inl (Exit_error ''MakeFilename: strftime'') else Inr f)
               else if PATH_MAX \<le> length orig_name then Inl Unterminated_name else Inr orig_name) (\<lambda>filename.
        if cnt = 0 \<and> max_chars = 0 then Inr filename
        else
          let name = filename @ print_padded max_chars cnt in
          if PATH_MAX < length name then Inl (Exit_error ''too many output files or filename is too long'')
          else Inr name))"

subsection \<open>Output files\<close>

definition close_old_dump_file :: "td_opts \<Rightarrow> td_state \<Rightarrow> td_state" where
  "close_old_dump_file opts s =
     (let s = emit (Closed (cur_file s)) s in if zflag opts then emit (Compressed (cur_file s)) s else s)"

definition open_new_dump_file :: "td_env \<Rightarrow> string \<Rightarrow> td_state \<Rightarrow> td_stop + td_state" where
  "open_new_dump_file env name s =
     (if dump_open env name then Inr (emit (Opened name) (s\<lparr>cur_file := name, written := []\<rparr>))
      else Inl (Exit_error ''pcap_dump_open''))"

text \<open>\<^verbatim>\<open>info\<close>: one entry of the log stands for the statistics, or for the error of \<^verbatim>\<open>pcap_stats\<close>.\<close>

definition td_info :: "td_state \<Rightarrow> td_state" where
  "td_info s = emit (Info_line (packets_captured s)) (s\<lparr>infoprint := 0\<rparr>)"

definition rotate_by_time :: "td_env \<Rightarrow> td_opts \<Rightarrow> int \<Rightarrow> td_state \<Rightarrow> td_stop + td_state" where
  "rotate_by_time env opts t s =
     (if Gflag opts = 0 then Inr s
      else if t = - 1 then Inl (Exit_error ''dump_packet_and_trunc: can't get current_time'')
      else if t - Gflag_time s < Gflag opts then Inr s
      else
        let s = s\<lparr>Gflag_time := t, Gflag_count := Gflag_count s + 1\<rparr>;
            s = close_old_dump_file opts s in
        if Cflag opts = 0 \<and> 0 < Wflag opts \<and> Wflag opts \<le> Gflag_count s
        then Inl (Exit_success (td_log (td_info s)))
        else if \<not> malloc_ok env then Inl (Exit_error ''dump_packet_and_trunc: malloc'')
        else
          let s = s\<lparr>Cflag_count := 0\<rparr> in
          kbind (MakeFilename env opts (Gflag_time s) (WFileName opts) 0 (if Cflag opts \<noteq> 0 then WflagChars opts else 0))
            (\<lambda>name. open_new_dump_file env name s))"

definition rotate_by_size :: "td_env \<Rightarrow> td_opts \<Rightarrow> td_state \<Rightarrow> td_stop + td_state" where
  "rotate_by_size env opts s =
     (if Cflag opts = 0 then Inr s
      else
        let sz = ftell env (written s) in
        if sz = - 1 then Inl (Exit_error ''ftell fails on output file'')
        else if sz \<le> Cflag opts then Inr s
        else
          let s = close_old_dump_file opts s;
              s = s\<lparr>Cflag_count := Cflag_count s + 1\<rparr>;
              s = (if 0 < Wflag opts \<and> Wflag opts \<le> Cflag_count s then s\<lparr>Cflag_count := 0\<rparr> else s) in
          if \<not> malloc_ok env then Inl (Exit_error ''dump_packet_and_trunc: malloc'')
          else
            kbind (MakeFilename env opts (Gflag_time s) (WFileName opts) (Cflag_count s) (WflagChars opts))
              (\<lambda>name. open_new_dump_file env name s))"

subsection \<open>The packet handlers\<close>

text \<open>The common beginning: counting and the filter; \<open>None\<close> when the packet is skipped by its length.\<close>

definition count_packet :: "td_state \<Rightarrow> td_state" where
  "count_packet s = s\<lparr>packets_captured := packets_captured s + 1, infodelay := infodelay s + 1\<rparr>"

definition length_filter :: "td_opts \<Rightarrow> packet \<Rightarrow> td_state \<Rightarrow> bool \<times> td_state" where
  "length_filter opts h s =
     (if filter_by_length opts then
        (if pkt_len h < min_length opts \<or> max_length opts < pkt_len h
         then (False, s\<lparr>infodelay := infodelay s - 1\<rparr>)
         else (True, emit (Passed_filter (pkt_len h)) s))
      else (True, s))"

definition finish_packet :: "td_state \<Rightarrow> td_state" where
  "finish_packet s =
     (let s = s\<lparr>infodelay := infodelay s - 1\<rparr> in if infoprint s \<noteq> 0 then td_info s else s)"

definition write_packet :: "td_opts \<Rightarrow> packet \<Rightarrow> td_state \<Rightarrow> td_state" where
  "write_packet opts h s =
     (let s = emit (Dumped (cur_file s) h) (s\<lparr>written := written s @ [h]\<rparr>);
          s = (if Uflag opts then emit Flushed s else s);
          s = (if pretty opts then emit (Pretty h (packets_captured s)) s else s) in
      finish_packet s)"

definition dump_packet :: "td_opts \<Rightarrow> packet \<Rightarrow> td_state \<Rightarrow> td_state" where
  "dump_packet opts h s =
     (let (pass, s) = length_filter opts h (count_packet s) in
      if \<not> pass then s
      else if packets_captured s \<le> packets_to_skip opts then s
      else write_packet opts h s)"

definition dump_packet_and_trunc :: "td_env \<Rightarrow> td_opts \<Rightarrow> int \<Rightarrow> packet \<Rightarrow> td_state \<Rightarrow> td_stop + td_state" where
  "dump_packet_and_trunc env opts t h s =
     (let (pass, s) = length_filter opts h (count_packet s) in
      if \<not> pass then Inr s
      else if packets_captured s \<le> packets_to_skip opts then Inr s
      else
        kbind (rotate_by_time env opts t s) (\<lambda>s.
        kbind (rotate_by_size env opts s) (\<lambda>s.
        Inr (write_packet opts h s))))"

definition print_packet :: "td_opts \<Rightarrow> packet \<Rightarrow> td_state \<Rightarrow> td_state" where
  "print_packet opts h s =
     (let (pass, s) = length_filter opts h (count_packet s) in
      if \<not> pass then s
      else
        finish_packet
          (if \<not> count_mode opts \<and> packets_to_skip opts < packets_captured s
           then emit (Pretty h (packets_captured s)) s else s))"

definition requestinfo :: "td_state \<Rightarrow> td_state" where
  "requestinfo s = (if infodelay s \<noteq> 0 then s\<lparr>infoprint := infoprint s + 1\<rparr> else td_info s)"

subsection \<open>Numeric options\<close>

definition parse_int :: "string \<Rightarrow> bool \<Rightarrow> int \<Rightarrow> int \<Rightarrow> nat \<Rightarrow> td_stop + (int \<times> string)" where
  "parse_int s want_end minval maxval base =
     (let r = strtol base s in
      if strto_none r \<or> (\<not> want_end \<and> strto_end r \<noteq> []) then Inl (Exit_error ''not a valid number'')
      else if strto_erange r \<or> strto_val r < minval \<or> maxval < strto_val r then Inl (Exit_error ''out of range'')
      else Inr (strto_val r, strto_end r))"

definition parse_u_int :: "string \<Rightarrow> bool \<Rightarrow> u32 \<Rightarrow> u32 \<Rightarrow> nat \<Rightarrow> td_stop + (u32 \<times> string)" where
  "parse_u_int s want_end minval maxval base =
     (if s \<noteq> [] \<and> hd s = CHR ''-'' then Inl (Exit_error ''not a valid unsigned number'')
      else
        let r = strtoul base s in
        if strto_none r \<or> (\<not> want_end \<and> strto_end r \<noteq> []) then Inl (Exit_error ''not a valid unsigned number'')
        else if strto_erange r \<or> strto_val r < ucast minval \<or> ucast maxval < strto_val r then Inl (Exit_error ''out of range'')
        else Inr (ucast (strto_val r), strto_end r))"

text \<open>The number of an interface, behind the scheme and authority of a URL; -1 when it is no number.\<close>

definition device_path :: "string \<Rightarrow> string" where
  "device_path device =
     (case dropWhile (\<lambda>c. c \<noteq> CHR '':'') device of
        [] \<Rightarrow> device
      | _ # p \<Rightarrow>
          if take 2 p = ''//'' then
            (case dropWhile (\<lambda>c. c \<noteq> CHR ''/'') (drop 2 p) of [] \<Rightarrow> device | _ # rest \<Rightarrow> rest)
          else device)"

definition parse_interface_number :: "string \<Rightarrow> td_stop + int" where
  "parse_interface_number device =
     (let device = device_path device; r = strtol 10 device in
      if \<not> strto_none r \<and> strto_end r = [] then
        (if strto_val r \<le> 0 then Inl (Exit_error ''Invalid adapter index'') else Inr (strto_val r))
      else Inr (- 1))"

subsection \<open>Command line and filter files\<close>

text \<open>\<^verbatim>\<open>copy_argv\<close>: the arguments with spaces between them; \<open>None\<close> for none at all.\<close>

fun join_argv :: "string list \<Rightarrow> string" where
  "join_argv [] = []"
| "join_argv [a] = a"
| "join_argv (a # b # as) = a @ CHR '' '' # join_argv (b # as)"

definition copy_argv :: "string list \<Rightarrow> string option" where
  "copy_argv argv = (if argv = [] then None else Some (join_argv argv))"

text \<open>\<^verbatim>\<open>read_infile\<close>: the loop that turns comments into spaces; a comment ends before its newline.\<close>

fun blank_comments :: "bool \<Rightarrow> string \<Rightarrow> string" where
  "blank_comments inside [] = []"
| "blank_comments inside (c # cs) =
     (if c = CHR ''\<newline>'' then c # blank_comments False cs
      else if inside \<or> c = CHR ''#'' then CHR '' '' # blank_comments True cs
      else c # blank_comments False cs)"

subsection \<open>What the filter lets through\<close>

definition passes :: "td_opts \<Rightarrow> packet \<Rightarrow> bool" where
  "passes opts h \<longleftrightarrow> \<not> filter_by_length opts \<or> is_length_in_range (pkt_len h) (min_length opts) (max_length opts)"

definition dumped :: "td_event list \<Rightarrow> packet list" where
  "dumped es = concat (map (\<lambda>e. case e of Dumped f h \<Rightarrow> [h] | _ \<Rightarrow> []) es)"

definition prettied :: "td_event list \<Rightarrow> packet list" where
  "prettied es = concat (map (\<lambda>e. case e of Pretty h n \<Rightarrow> [h] | _ \<Rightarrow> []) es)"

lemma dumped_simps [simp]:
  "dumped [] = []" "dumped (es @ fs) = dumped es @ dumped fs"
  "dumped (e # es) = (case e of Dumped f h \<Rightarrow> [h] | _ \<Rightarrow> []) @ dumped es"
  by (simp_all add: dumped_def)

lemma prettied_simps [simp]:
  "prettied [] = []" "prettied (es @ fs) = prettied es @ prettied fs"
  "prettied (e # es) = (case e of Pretty h n \<Rightarrow> [h] | _ \<Rightarrow> []) @ prettied es"
  by (simp_all add: prettied_def)

lemma length_filter_eq:
  "length_filter opts h s =
     (if passes opts h then (True, if filter_by_length opts then emit (Passed_filter (pkt_len h)) s else s)
      else (False, s\<lparr>infodelay := infodelay s - 1\<rparr>))"
  by (auto simp: length_filter_def passes_def is_length_in_range_def)

lemma write_packet_effect [simp]:
  "packets_captured (write_packet opts h s) = packets_captured s"
  "infodelay (write_packet opts h s) = infodelay s - 1"
  "dumped (td_log (write_packet opts h s)) = dumped (td_log s) @ [h]"
  by (simp_all add: write_packet_def finish_packet_def emit_def td_info_def Let_def)

text \<open>The packets numbered from \<open>n\<close> that are long enough, short enough and behind the skipped ones.\<close>

definition selected :: "td_opts \<Rightarrow> nat \<Rightarrow> packet list \<Rightarrow> packet list" where
  "selected opts n ps =
     map snd (filter (\<lambda>(i, h). unat (packets_to_skip opts) < i \<and> passes opts h) (enumerate n ps))"

lemma selected_simps [simp]:
  "selected opts n [] = []"
  "selected opts n (h # ps) =
     (if unat (packets_to_skip opts) < n \<and> passes opts h then [h] else []) @ selected opts (Suc n) ps"
  by (simp_all add: selected_def)

lemma unat_captured: "Suc (unat (w :: u32)) < 2 ^ 32 \<Longrightarrow> unat (w + 1) = Suc (unat w)"
  by (simp add: unat_word_ariths)

lemma dump_packet_step:
  assumes "Suc (unat (packets_captured s)) < 2 ^ 32"
  shows "unat (packets_captured (dump_packet opts h s)) = Suc (unat (packets_captured s))"
    and "dumped (td_log (dump_packet opts h s)) = dumped (td_log s) @
      (if unat (packets_to_skip opts) < Suc (unat (packets_captured s)) \<and> passes opts h then [h] else [])"
    and "infodelay (dump_packet opts h s) = infodelay s +
      (if Suc (unat (packets_captured s)) \<le> unat (packets_to_skip opts) \<and> passes opts h then 1 else 0)"
  using unat_captured [OF assms]
  by (auto simp: dump_packet_def length_filter_eq count_packet_def emit_def word_le_nat_alt not_le)

text \<open>The second handler dumps the same packets, whatever files it opens in between.\<close>

definition dump_frame :: "td_state \<Rightarrow> td_state \<Rightarrow> bool" where
  "dump_frame s s' \<longleftrightarrow> packets_captured s' = packets_captured s \<and> infodelay s' = infodelay s \<and>
     infoprint s' = infoprint s \<and> dumped (td_log s') = dumped (td_log s)"

lemma open_new_frame: "open_new_dump_file env name s = Inr s' \<Longrightarrow> dump_frame s s'"
  by (auto simp: open_new_dump_file_def emit_def dump_frame_def split: if_splits)

lemma rotate_by_time_frame: "rotate_by_time env opts t s = Inr s' \<Longrightarrow> dump_frame s s'"
  by (auto simp: rotate_by_time_def Let_def split: if_splits dest!: open_new_frame)
     (auto simp: dump_frame_def close_old_dump_file_def emit_def Let_def)

lemma rotate_by_size_frame: "rotate_by_size env opts s = Inr s' \<Longrightarrow> dump_frame s s'"
  by (auto simp: rotate_by_size_def Let_def split: if_splits dest!: open_new_frame)
     (auto simp: dump_frame_def close_old_dump_file_def emit_def Let_def)

lemma write_packet_frame:
  assumes "dump_frame s s'"
  shows "packets_captured (write_packet opts h s') = packets_captured (write_packet opts h s)"
    "infodelay (write_packet opts h s') = infodelay (write_packet opts h s)"
    "dumped (td_log (write_packet opts h s')) = dumped (td_log (write_packet opts h s))"
  using assms by (simp_all add: dump_frame_def)

lemma dump_trunc_step:
  assumes "dump_packet_and_trunc env opts t h s = Inr s'"
  shows "packets_captured s' = packets_captured (dump_packet opts h s)"
    "infodelay s' = infodelay (dump_packet opts h s)"
    "dumped (td_log s') = dumped (td_log (dump_packet opts h s))"
proof -
  obtain pass s1 where l: "length_filter opts h (count_packet s) = (pass, s1)" by fastforce
  have "packets_captured s' = packets_captured (dump_packet opts h s) \<and> infodelay s' = infodelay (dump_packet opts h s) \<and>
    dumped (td_log s') = dumped (td_log (dump_packet opts h s))"
  proof (cases "pass \<and> \<not> packets_captured s1 \<le> packets_to_skip opts")
    case True
    then obtain s2 s3 where r: "rotate_by_time env opts t s1 = Inr s2" "rotate_by_size env opts s2 = Inr s3"
      "s' = write_packet opts h s3"
      using assms l by (auto simp: dump_packet_and_trunc_def)
    have "dump_frame s1 s3"
      using rotate_by_time_frame [OF r(1)] rotate_by_size_frame [OF r(2)] by (simp add: dump_frame_def)
    with True l r(3) write_packet_frame show ?thesis by (simp add: dump_packet_def)
  next
    case False
    with assms l show ?thesis by (auto simp: dump_packet_and_trunc_def dump_packet_def split: if_splits)
  qed
  then show "packets_captured s' = packets_captured (dump_packet opts h s)"
    "infodelay s' = infodelay (dump_packet opts h s)"
    "dumped (td_log s') = dumped (td_log (dump_packet opts h s))" by blast+
qed

fun run_trunc :: "td_env \<Rightarrow> td_opts \<Rightarrow> (int \<times> packet) list \<Rightarrow> td_state \<Rightarrow> td_stop + td_state" where
  "run_trunc env opts [] s = Inr s"
| "run_trunc env opts ((t, h) # ps) s = kbind (dump_packet_and_trunc env opts t h s) (run_trunc env opts ps)"

lemma fold_dump_packet:
  assumes "unat (packets_captured s) + length ps < 2 ^ 32"
  shows "dumped (td_log (fold (dump_packet opts) ps s)) = dumped (td_log s) @
      selected opts (Suc (unat (packets_captured s))) ps"
  using assms
proof (induction ps arbitrary: s)
  case (Cons h ps)
  then have c: "Suc (unat (packets_captured s)) < 2 ^ 32" by simp
  note step = dump_packet_step [OF c, of opts h]
  show ?case using Cons.IH [of "dump_packet opts h s"] Cons.prems step by simp
qed simp

lemma run_trunc_dump:
  assumes "unat (packets_captured s) + length ps < 2 ^ 32" "run_trunc env opts ps s = Inr s'"
  shows "dumped (td_log s') = dumped (td_log s) @ selected opts (Suc (unat (packets_captured s))) (map snd ps)"
  using assms
proof (induction ps arbitrary: s)
  case (Cons p ps)
  obtain t h where p: "p = (t, h)" by fastforce
  obtain s1 where s1: "dump_packet_and_trunc env opts t h s = Inr s1" "run_trunc env opts ps s1 = Inr s'"
    using Cons.prems(2) p by auto
  have c: "Suc (unat (packets_captured s)) < 2 ^ 32" using Cons.prems(1) by simp
  note step = dump_packet_step [OF c, of opts h] dump_trunc_step [OF s1(1)]
  show ?case using Cons.IH [OF _ s1(2)] Cons.prems(1) step p by simp
qed simp

lemma fold_infodelay:
  assumes "unat (packets_captured s) + length ps < 2 ^ 32"
  shows "infodelay (fold (dump_packet opts) ps s) = infodelay s +
    int (length (filter (passes opts) (take (unat (packets_to_skip opts) - unat (packets_captured s)) ps)))"
  using assms
proof (induction ps arbitrary: s)
  case (Cons h ps)
  then have c: "Suc (unat (packets_captured s)) < 2 ^ 32" by simp
  note step = dump_packet_step [OF c, of opts h]
  show ?case
  proof (cases "Suc (unat (packets_captured s)) \<le> unat (packets_to_skip opts)")
    case True
    then have "unat (packets_to_skip opts) - unat (packets_captured s) =
        Suc (unat (packets_to_skip opts) - Suc (unat (packets_captured s)))" by simp
    then show ?thesis using Cons.IH [of "dump_packet opts h s"] Cons.prems step True by simp
  next
    case False
    then show ?thesis using Cons.IH [of "dump_packet opts h s"] Cons.prems step by simp
  qed
qed simp

text \<open>
  C27. Both handlers that write files write, in order, exactly the packets whose length lies between the two
  bounds, both included, and whose number is above the skip count; rotating the files loses and repeats
  none of them. The packets before the skip count that pass the filter leave \<^verbatim>\<open>infodelay\<close> raised for good,
  so that a request for statistics is no longer answered at once.
\<close>

theorem length_filter_exact:
  assumes "length ps < 2 ^ 32" "packets_captured s = 0" "td_log s = []"
  shows "dumped (td_log (fold (dump_packet opts) (map snd ps) s)) = selected opts 1 (map snd ps) \<and>
    (\<forall>s'. run_trunc env opts ps s = Inr s' \<longrightarrow> dumped (td_log s') = selected opts 1 (map snd ps)) \<and>
    infodelay (fold (dump_packet opts) (map snd ps) s) = infodelay s +
      int (length (filter (passes opts) (take (unat (packets_to_skip opts)) (map snd ps))))"
proof -
  have n: "unat (packets_captured s) + length (map snd ps) < 2 ^ 32" using assms by simp
  show ?thesis
    using fold_dump_packet [OF n, of opts] fold_infodelay [OF n, of opts] run_trunc_dump [of s ps env opts] assms by simp
qed

definition td_opts0 :: td_opts where
  "td_opts0 = \<lparr>filter_by_length = True, min_length = 10, max_length = 20, packets_to_skip = 1, count_mode = False,
     Cflag = 0, Gflag = 0, Wflag = 0, WflagChars = 0, Uflag = False, zflag = False, pretty = False, WFileName = ''f''\<rparr>"

definition td_state0 :: td_state where
  "td_state0 = \<lparr>packets_captured = 0, infodelay = 0, infoprint = 0, Cflag_count = 0, Gflag_count = 0, Gflag_time = 0,
     cur_file = ''f'', written = [], td_log = []\<rparr>"

definition td_env0 :: td_env where
  "td_env0 = \<lparr>ftell = (\<lambda>ps. int (length ps)), strftime = (\<lambda>t f. f), dump_open = (\<lambda>f. True), malloc_ok = True\<rparr>"

definition pkt :: "u32 \<Rightarrow> packet" where "pkt n = \<lparr>pkt_len = n, pkt_data = []\<rparr>"

lemma length_filter_exact_witness:
  "dumped (td_log (fold (dump_packet td_opts0) (map snd [(0, pkt 10), (0, pkt 9), (0, pkt 20)]) td_state0)) = [pkt 20] \<and>
   infodelay (fold (dump_packet td_opts0) (map snd [(0, pkt 10), (0, pkt 9), (0, pkt 20)]) td_state0) = 1"
  using length_filter_exact [of "[(0, pkt 10), (0, pkt 9), (0, pkt 20)]" td_state0 td_opts0]
  by (simp add: td_state0_def td_opts0_def selected_def passes_def is_length_in_range_def pkt_def)

subsection \<open>The option round trip\<close>

lemma dash_not_digit: "\<not> is_digit_of 10 CHR ''-''"
  by (simp add: is_digit_of_def digit_val_def)

lemma takeWhile_dash: "takeWhile (\<lambda>c. c \<noteq> CHR ''-'') (print_nat a @ CHR ''-'' # rest) = print_nat a"
proof -
  have "c \<noteq> CHR ''-''" if "c \<in> set (print_nat a)" for c
    using print_nat_digits [OF that] dash_not_digit by blast
  then show ?thesis by (simp add: takeWhile_append2)
qed

text \<open>
  The option argument \<open>a-b\<close>, two numbers in decimal, sets the range to \<open>a\<close> and \<open>b\<close> and is refused exactly
  when \<open>b\<close> is smaller, as long as both fit 32 bits. A larger number is not refused but cut to its low 32
  bits, and the comparison is between what is left.
\<close>

lemma option_g_range:
  assumes "a < 2 ^ 64" "b < 2 ^ 64"
  shows "option_g (print_nat a @ CHR ''-'' # print_nat b) opts =
    (if b mod 2 ^ 32 < a mod 2 ^ 32 then Inl (Exit_error ''minimum packet length cannot be greater than maximum'')
     else Inr (opts\<lparr>filter_by_length := True, min_length := of_nat a, max_length := of_nat b\<rparr>))"
proof -
  let ?s = "print_nat a @ CHR ''-'' # print_nat b"
  have w: "takeWhile (\<lambda>c. c \<noteq> CHR ''-'') ?s = print_nat a" by (rule takeWhile_dash)
  have a: "strtoul 10 (print_nat a) = \<lparr>strto_val = of_nat a, strto_end = [], strto_erange = False, strto_none = False\<rparr>"
    using strtoul_print [OF assms(1), of "[]"] by simp
  have b: "strtoul 10 (print_nat b) = \<lparr>strto_val = of_nat b, strto_end = [], strto_erange = False, strto_none = False\<rparr>"
    using strtoul_print [OF assms(2), of "[]"] by simp
  have cut: "(ucast (of_nat n :: u64) :: u32) = of_nat n" for n
    by (rule bit_word_eqI) (simp add: bit_ucast_iff bit_of_nat_iff)
  have less: "(of_nat m :: u32) < of_nat n \<longleftrightarrow> m mod 2 ^ 32 < n mod 2 ^ 32" for m n
    by (simp add: word_less_nat_alt unat_of_nat)
  show ?thesis
    by (simp add: option_g_def w a b cut less)
qed

lemma option_g_range_witness:
  "option_g ''10-1000'' td_opts0 = Inr (td_opts0\<lparr>filter_by_length := True, min_length := 10, max_length := 1000\<rparr>)"
proof -
  have p: "print_nat 10 = ''10''" "print_nat 1000 = ''1000''"
    by (simp_all add: print_nat.simps digit_char_def char_of_eq_iff take_bit_eq_mod)
  from option_g_range [of 10 1000 td_opts0] show ?thesis by (simp add: p)
qed

subsection \<open>The ring of output files\<close>

lemma digit_count_pos: "0 < n \<Longrightarrow> digit_count n = length (print_nat n)"
proof (induction n rule: digit_count.induct)
  case (1 n)
  show ?case
  proof (cases "n < 10")
    case True
    then show ?thesis using 1 by (simp add: digit_count.simps [of n] digit_count.simps [of 0] print_nat.simps [of n])
  next
    case False
    then have "0 < n div 10" by simp
    with 1 False show ?thesis by (simp add: digit_count.simps [of n] print_nat.simps [of n])
  qed
qed

lemma print_nat_length_mono: "m \<le> n \<Longrightarrow> length (print_nat m) \<le> length (print_nat n)"
proof (induction n arbitrary: m rule: print_nat.induct)
  case (1 n)
  show ?case
  proof (cases "m < 10")
    case True
    then show ?thesis by (simp add: print_nat.simps [of m] print_nat.simps [of n])
  next
    case False
    with 1(1) [of "m div 10"] 1(2) show ?thesis
      by (simp add: print_nat.simps [of m] print_nat.simps [of n] div_le_mono)
  qed
qed

lemma digits_value_zeros: "digits_value 10 0 (replicate k CHR ''0'' @ cs) = digits_value 10 0 cs"
  by (induction k) (simp_all add: digit_val_def)

lemma padded_value: "0 \<le> i \<Longrightarrow> digits_value 10 0 (print_padded w i) = nat i"
  by (simp add: print_padded_def digits_value_zeros digits_value_print)

lemma padded_inj: "0 \<le> i \<Longrightarrow> 0 \<le> j \<Longrightarrow> print_padded w i = print_padded w j \<Longrightarrow> i = j"
  by (metis padded_value nat_eq_iff2)

lemma padded_length:
  assumes "1 < W" "0 \<le> i" "i < W"
  shows "int (length (print_padded (getWflagChars W) i)) = getWflagChars W"
proof -
  have "getWflagChars W = int (length (print_nat (nat (W - 1))))"
    using assms(1) by (simp add: getWflagChars_def digit_count_pos)
  moreover have "length (print_nat (nat i)) \<le> length (print_nat (nat (W - 1)))"
    using assms by (intro print_nat_length_mono) simp
  ultimately show ?thesis using assms(2) by (simp add: print_padded_def)
qed

definition opened :: "td_event list \<Rightarrow> string set" where
  "opened es = {f. Opened f \<in> set es}"

definition ring_names :: "td_opts \<Rightarrow> string set" where
  "ring_names opts = (\<lambda>i. WFileName opts @ print_padded (WflagChars opts) i) ` {0..<Wflag opts}"

definition ring_ok :: "td_opts \<Rightarrow> td_state \<Rightarrow> bool" where
  "ring_ok opts s \<longleftrightarrow> 0 \<le> Cflag_count s \<and> Cflag_count s < Wflag opts \<and> opened (td_log s) \<subseteq> ring_names opts"

lemma opened_emit: "opened (td_log (emit e s)) = opened (td_log s) \<union> (case e of Opened f \<Rightarrow> {f} | _ \<Rightarrow> {})"
  by (auto simp: opened_def emit_def split: td_event.splits)

lemma emit_counts [simp]: "Cflag_count (emit e s) = Cflag_count s"
  by (simp add: emit_def)

lemma ring_ok_emit: "ring_ok opts s \<Longrightarrow> (\<And>f. e \<noteq> Opened f) \<Longrightarrow> ring_ok opts (emit e s)"
  by (auto simp: ring_ok_def opened_emit split: td_event.splits)

lemma MakeFilename_plain:
  assumes "Gflag opts = 0" "MakeFilename env opts t (WFileName opts) i w = Inr name" "w \<noteq> 0"
  shows "name = WFileName opts @ print_padded w i"
  using assms by (auto simp: MakeFilename_def Let_def split: if_splits)

lemma rotate_by_size_ring:
  assumes g: "Gflag opts = 0" and W: "1 < Wflag opts" "WflagChars opts = getWflagChars (Wflag opts)"
    and ring: "ring_ok opts s" and r: "rotate_by_size env opts s = Inr s'"
  shows "ring_ok opts s'"
proof (cases "Cflag opts = 0 \<or> ftell env (written s) \<le> Cflag opts")
  case True
  with r ring show ?thesis by (auto simp: rotate_by_size_def Let_def split: if_splits)
next
  case False
  define i where "i = (if Wflag opts \<le> Cflag_count s + 1 then 0 else Cflag_count s + 1)"
  have i: "0 \<le> i" "i < Wflag opts" using ring W by (auto simp: i_def ring_ok_def)
  have chars: "WflagChars opts \<noteq> 0"
    using W digit_count_pos [of "nat (Wflag opts - 1)"] by (simp add: getWflagChars_def)
  define c where "c = close_old_dump_file opts s"
  have c: "Cflag_count c = Cflag_count s" "opened (td_log c) = opened (td_log s)" "Gflag_time c = Gflag_time s"
    by (auto simp: c_def close_old_dump_file_def Let_def opened_emit emit_def opened_def)
  define u where "u = (if 0 < Wflag opts \<and> Wflag opts \<le> Cflag_count c + 1
      then c\<lparr>Cflag_count := Cflag_count c + 1, Cflag_count := 0\<rparr> else c\<lparr>Cflag_count := Cflag_count c + 1\<rparr>)"
  have u: "Cflag_count u = i" "opened (td_log u) = opened (td_log s)"
    using W c by (auto simp: u_def i_def)
  from r False obtain name where n: "MakeFilename env opts (Gflag_time u) (WFileName opts) i (WflagChars opts) = Inr name"
    "open_new_dump_file env name u = Inr s'"
    using W(1) c by (auto simp: rotate_by_size_def Let_def u_def i_def simp flip: c_def split: if_splits)
  have "name \<in> ring_names opts"
    using MakeFilename_plain [OF g n(1) chars] i by (auto simp: ring_names_def)
  moreover have "s' = emit (Opened name) (u\<lparr>cur_file := name, written := []\<rparr>)"
    using n(2) by (auto simp: open_new_dump_file_def split: if_splits)
  ultimately show ?thesis using u i ring by (auto simp: ring_ok_def opened_emit)
qed

lemma dump_trunc_ring:
  assumes "Gflag opts = 0" "1 < Wflag opts" "WflagChars opts = getWflagChars (Wflag opts)" "ring_ok opts s"
    and r: "dump_packet_and_trunc env opts t h s = Inr s'"
  shows "ring_ok opts s'"
proof -
  obtain pass s1 where l: "length_filter opts h (count_packet s) = (pass, s1)" by fastforce
  have s1: "ring_ok opts s1"
    using l assms(4) by (auto simp: length_filter_eq ring_ok_def opened_emit count_packet_def split: if_splits)
  show ?thesis
  proof (cases "pass \<and> \<not> packets_captured s1 \<le> packets_to_skip opts")
    case True
    then obtain s3 where r3: "rotate_by_size env opts s1 = Inr s3" "s' = write_packet opts h s3"
      using r l assms(1) by (auto simp: dump_packet_and_trunc_def rotate_by_time_def)
    have "ring_ok opts s3" using rotate_by_size_ring [OF assms(1-3) s1 r3(1)] .
    then show ?thesis
      by (auto simp: r3(2) write_packet_def finish_packet_def td_info_def ring_ok_def opened_emit Let_def)
  next
    case False
    with r l s1 show ?thesis by (auto simp: dump_packet_and_trunc_def split: if_splits)
  qed
qed

text \<open>
  With \<^verbatim>\<open>-C\<close> and \<^verbatim>\<open>-W n\<close> the output goes round a ring of \<open>n\<close> files: the counter stays below \<open>n\<close>, every file
  that is opened has one of \<open>n\<close> names, and the names are pairwise different and equally long, because the
  width of the number is that of \<open>n - 1\<close>.
\<close>

lemma rotation_ring:
  assumes "Gflag opts = 0" "1 < Wflag opts" "WflagChars opts = getWflagChars (Wflag opts)"
    and "Cflag_count s = 0" "td_log s = []" "run_trunc env opts ps s = Inr s'"
  shows "Cflag_count s' \<in> {0..<Wflag opts} \<and> opened (td_log s') \<subseteq> ring_names opts \<and>
    card (ring_names opts) = nat (Wflag opts) \<and>
    (\<forall>f \<in> ring_names opts. int (length f) = int (length (WFileName opts)) + WflagChars opts)"
proof -
  have "ring_ok opts s" using assms(2,4,5) by (simp add: ring_ok_def opened_def)
  then have "ring_ok opts s'"
    using assms(6)
  proof (induction ps arbitrary: s)
    case (Cons p ps)
    obtain t h where p: "p = (t, h)" by fastforce
    with Cons.prems(2) obtain u where u: "dump_packet_and_trunc env opts t h s = Inr u" "run_trunc env opts ps u = Inr s'"
      by auto
    from Cons.IH [OF dump_trunc_ring [OF assms(1-3) Cons.prems(1) u(1)] u(2)] show ?case .
  qed simp
  moreover have "inj_on (\<lambda>i. WFileName opts @ print_padded (WflagChars opts) i) {0..<Wflag opts}"
    using padded_inj by (auto simp: inj_on_def)
  then have "card (ring_names opts) = nat (Wflag opts)" by (simp add: ring_names_def card_image)
  moreover have "int (length f) = int (length (WFileName opts)) + WflagChars opts" if "f \<in> ring_names opts" for f
    using that padded_length [OF assms(2)] assms(3) by (auto simp: ring_names_def)
  ultimately show ?thesis by (auto simp: ring_ok_def)
qed

definition td_opts1 :: td_opts where
  "td_opts1 = td_opts0\<lparr>packets_to_skip := 0, Cflag := 1, Wflag := 2, WflagChars := 1\<rparr>"

lemma rotation_ring_witness:
  "\<exists>s'. run_trunc td_env0 td_opts1 (replicate 3 (0, pkt 10)) td_state0 = Inr s' \<and> Cflag_count s' = 1 \<and>
     opened (td_log s') \<subseteq> ring_names td_opts1"
proof -
  have e: "\<exists>s'. run_trunc td_env0 td_opts1 (replicate 3 (0, pkt 10)) td_state0 = Inr s' \<and> Cflag_count s' = 1"
    by (simp add: numeral_3_eq_3 td_env0_def td_opts1_def td_opts0_def td_state0_def pkt_def dump_packet_and_trunc_def
        length_filter_def count_packet_def write_packet_def finish_packet_def emit_def rotate_by_time_def
        rotate_by_size_def close_old_dump_file_def MakeFilename_def PATH_MAX_def open_new_dump_file_def
        print_padded_def print_nat.simps Let_def)
  then obtain s' where s': "run_trunc td_env0 td_opts1 (replicate 3 (0, pkt 10)) td_state0 = Inr s'" "Cflag_count s' = 1"
    by blast
  have "getWflagChars 2 = 1" by (simp add: getWflagChars_def digit_count.simps)
  then have "opened (td_log s') \<subseteq> ring_names td_opts1"
    using rotation_ring [OF _ _ _ _ _ s'(1)] by (simp add: td_opts1_def td_opts0_def td_state0_def)
  with s' show ?thesis by blast
qed

end
