(* ===== verification/Sysctl_Text.thy ===== *)
theory Sysctl_Text
  imports C_Numbers
begin

text \<open>
  \<^verbatim>\<open>kernel/sysctl.c\<close>, the text side: strings (\<^verbatim>\<open>_proc_do_string\<close>, \<^verbatim>\<open>proc_dostring\<close>), skipping, reading and
  printing one number (\<^verbatim>\<open>proc_skip_spaces\<close>, \<^verbatim>\<open>proc_skip_char\<close>, \<^verbatim>\<open>strtoul_lenient\<close>, \<^verbatim>\<open>proc_get_long\<close>,
  \<^verbatim>\<open>proc_put_long\<close>, \<^verbatim>\<open>proc_put_char\<close>). The pair of a pointer into the caller's buffer and the bytes left
  is the list of the characters left; on output it is what was written and the room left. The digit reader
  \<^verbatim>\<open>_parse_integer\<close> of \<^verbatim>\<open>lib/kstrtox.c\<close> is not in the repository: it is a parameter, and what the code
  relies on is the locale \<^verbatim>\<open>integer_parser\<close>.
\<close>

subsection \<open>Calls of a handler\<close>

text \<open>A call either writes a text or reads with so many bytes of room; \<^verbatim>\<open>lenp\<close> is its size.\<close>

datatype sysctl_op = SysWrite string | SysRead nat

fun op_len :: "sysctl_op \<Rightarrow> nat" where
  "op_len (SysWrite text) = length text"
| "op_len (SysRead n) = n"

fun is_write :: "sysctl_op \<Rightarrow> bool" where
  "is_write (SysWrite text) = True"
| "is_write (SysRead n) = False"

record 'd sysctl_res =
  sy_ret :: int
  sy_len :: nat
  sy_pos :: int
  sy_data :: 'd
  sy_out :: string

datatype writes_mode = WRITES_LEGACY | WRITES_WARN | WRITES_STRICT

definition proc_first_pos_non_zero_ignore :: "writes_mode \<Rightarrow> int \<Rightarrow> bool" where
  "proc_first_pos_non_zero_ignore mode ppos = (ppos \<noteq> 0 \<and> mode = WRITES_STRICT)"

definition NUL :: char where "NUL = CHR 0x00"
definition NL :: char where "NL = CHR ''\<newline>''"

subsection \<open>Strings\<close>

text \<open>The position is compared as an unsigned number: a negative one is past every end.\<close>

text \<open>A character array; reading past its end, when no terminator is in it, is a fault.\<close>

definition c_strlen :: "string \<Rightarrow> nat kres" where
  "c_strlen d = (if NUL \<in> set d then Inr (length (takeWhile (\<lambda>c. c \<noteq> NUL) d)) else Inl BufferOverflow)"

definition store_text :: "string \<Rightarrow> nat \<Rightarrow> string \<Rightarrow> string" where
  "store_text data len cs = take len data @ cs @ NUL # drop (len + length cs + 1) data"

definition u_proc_do_string :: "writes_mode \<Rightarrow> string option \<Rightarrow> nat \<Rightarrow> sysctl_op \<Rightarrow> int \<Rightarrow> string sysctl_res kres" where
  "u_proc_do_string mode data maxlen opn ppos =
     (case data of
        None \<Rightarrow> Inr \<lparr>sy_ret = 0, sy_len = 0, sy_pos = ppos, sy_data = [], sy_out = []\<rparr>
      | Some data \<Rightarrow>
          if maxlen = 0 \<or> op_len opn = 0
          then Inr \<lparr>sy_ret = 0, sy_len = 0, sy_pos = ppos, sy_data = data, sy_out = []\<rparr>
          else case opn of
            SysWrite text \<Rightarrow>
              kbind (if mode = WRITES_STRICT then
                       kbind (c_strlen data) (\<lambda>len.
                       Inr (if ppos < 0 \<or> int (min len (maxlen - 1)) < ppos then None else Some (nat ppos)))
                     else Inr (Some 0)) (\<lambda>start.
              case start of
                None \<Rightarrow> Inr \<lparr>sy_ret = 0, sy_len = length text, sy_pos = ppos, sy_data = data, sy_out = []\<rparr>
              | Some len \<Rightarrow>
                  let cs = take (maxlen - 1 - len) (takeWhile (\<lambda>c. c \<noteq> NUL \<and> c \<noteq> NL) text) in
                  if length data \<le> len + length cs then Inl BufferOverflow
                  else Inr \<lparr>sy_ret = 0, sy_len = length text, sy_pos = ppos + int (length text),
                            sy_data = store_text data len cs, sy_out = []\<rparr>)
          | SysRead n \<Rightarrow>
              kbind (c_strlen data) (\<lambda>len.
              let len = min len maxlen in
              if ppos < 0 \<or> int len < ppos
              then Inr \<lparr>sy_ret = 0, sy_len = 0, sy_pos = ppos, sy_data = data, sy_out = []\<rparr>
              else
                let bytes = take n (take (len - nat ppos) (drop (nat ppos) data));
                    bytes = (if length bytes < n then bytes @ [NL] else bytes) in
                Inr \<lparr>sy_ret = 0, sy_len = length bytes, sy_pos = ppos + int (length bytes), sy_data = data, sy_out = bytes\<rparr>))"

definition proc_dostring :: "writes_mode \<Rightarrow> string option \<Rightarrow> nat \<Rightarrow> sysctl_op \<Rightarrow> int \<Rightarrow> string sysctl_res kres" where
  "proc_dostring mode data maxlen opn ppos = u_proc_do_string mode data maxlen opn ppos"

subsection \<open>Reading a number\<close>

definition proc_skip_spaces :: "string \<Rightarrow> string" where
  "proc_skip_spaces buf = dropWhile isspace buf"

definition proc_skip_char :: "char \<Rightarrow> string \<Rightarrow> string" where
  "proc_skip_char v buf = dropWhile (\<lambda>c. c = v) buf"

text \<open>
  \<^verbatim>\<open>parse s\<close> stands for \<^verbatim>\<open>_parse_integer_fixup_radix\<close> with base 0 followed by \<^verbatim>\<open>_parse_integer\<close>: the value, the
  characters used, the radix prefix included, and the overflow flag.
\<close>

type_synonym parse_integer = "string \<Rightarrow> u64 \<times> nat \<times> bool"

definition strtoul_lenient :: "parse_integer \<Rightarrow> string \<Rightarrow> int + (u64 \<times> string)" where
  "strtoul_lenient parse cp =
     (let (result, used, overflow) = parse cp in
      if overflow then Inl (- ERANGE) else Inr (result, drop used cp))"

definition TMPBUFLEN :: nat where "TMPBUFLEN = 22"

definition proc_get_long ::
    "parse_integer \<Rightarrow> string \<Rightarrow> string \<Rightarrow> int + (u64 \<times> bool \<times> char option \<times> string)" where
  "proc_get_long parse perm_tr buf =
     (if buf = [] then Inl (- EINVAL)
      else
        let tmp = take (TMPBUFLEN - 1) buf;
            neg = (hd tmp = CHR ''-'' \<and> 1 < length buf);
            p = (if neg then tl tmp else tmp) in
        if p = [] \<or> \<not> is_digit_of 10 (hd p) then Inl (- EINVAL)
        else case strtoul_lenient parse p of
          Inl e \<Rightarrow> Inl (- EINVAL)
        | Inr (val, rest) \<Rightarrow>
            let len = length tmp - length rest in
            if len = TMPBUFLEN - 1 then Inl (- EINVAL)
            else if len < length buf \<and> perm_tr \<noteq> [] \<and> (rest @ [NUL]) ! 0 \<notin> set perm_tr then Inl (- EINVAL)
            else Inr (val, neg, if len < length buf then Some ((rest @ [NUL]) ! 0) else None, drop len buf))"

subsection \<open>Printing\<close>

text \<open>What was written and the room left.\<close>

definition put_text :: "string \<Rightarrow> string \<times> nat \<Rightarrow> string \<times> nat" where
  "put_text t o' = (fst o' @ take (snd o') t, snd o' - length (take (snd o') t))"

definition proc_put_long :: "u64 \<Rightarrow> bool \<Rightarrow> string \<times> nat \<Rightarrow> string \<times> nat" where
  "proc_put_long val neg o' = put_text ((if neg then ''-'' else []) @ print_nat (unat val)) o'"

definition proc_put_char :: "char \<Rightarrow> string \<times> nat \<Rightarrow> string \<times> nat" where
  "proc_put_char c o' = (if snd o' \<noteq> 0 then (fst o' @ [c], snd o' - 1) else o')"

lemma proc_put_char_text: "proc_put_char c = put_text [c]"
  by (auto simp: fun_eq_iff proc_put_char_def put_text_def)

lemma put_text_empty [simp]: "put_text [] o' = o'"
  by (simp add: put_text_def)

text \<open>Several texts are one text, cut at the end of the buffer.\<close>

lemma put_text_append: "put_text t (put_text s o') = put_text (s @ t) o'"
  by (simp add: put_text_def min_def)

lemma put_text_full: "snd o' = 0 \<Longrightarrow> put_text t o' = o'"
  by (cases o') (simp add: put_text_def)

lemma put_text_start: "put_text t ([], n) = (take n t, n - length t)"
  by (simp add: put_text_def min_def)

subsection \<open>What the digit reader promises\<close>

text \<open>
  A decimal numeral without leading zeros that fits 64 bits and is followed by no digit or letter is read
  whole; every other reading is left open.
\<close>

locale integer_parser =
  fixes parse :: parse_integer
  assumes parse_number:
    "n < 2 ^ 64 \<Longrightarrow> rest = [] \<or> digit_val (hd rest) = None \<Longrightarrow>
     parse (print_nat n @ rest) = (of_nat n, length (print_nat n), False)"
begin

lemma strtoul_lenient_number:
  "n < 2 ^ 64 \<Longrightarrow> rest = [] \<or> digit_val (hd rest) = None \<Longrightarrow>
   strtoul_lenient parse (print_nat n @ rest) = Inr (of_nat n, rest)"
  by (simp add: strtoul_lenient_def parse_number)

text \<open>A printed number is read back, up to its trailer, when it fits the temporary buffer.\<close>

lemma proc_get_long_number:
  assumes n: "n < 2 ^ 64" and c: "c \<in> set perm" "digit_val c = None"
    and len: "length (print_nat n) + (if neg then 1 else 0) < TMPBUFLEN - 1"
  shows "proc_get_long parse perm ((if neg then ''-'' else []) @ print_nat n @ c # rest) =
    Inr (of_nat n, neg, Some c, c # rest)"
proof -
  obtain d ds where p: "print_nat n = d # ds" by (cases "print_nat n") auto
  have d: "is_digit_of 10 d" using print_nat_digits [of d n] p by simp
  let ?k = "TMPBUFLEN - 1 - (length (print_nat n) + (if neg then 1 else 0))"
  obtain m where k: "?k = Suc m" using len by (cases ?k) simp_all
  let ?buf = "(if neg then ''-'' else []) @ print_nat n @ c # rest"
  have t: "take (TMPBUFLEN - 1) ?buf = (if neg then ''-'' else []) @ print_nat n @ c # take m rest"
    using k len by (cases neg) (auto simp: take_Cons' intro!: arg_cong [where f = "\<lambda>i. take i rest"])
  have s: "strtoul_lenient parse (print_nat n @ c # take m rest) = Inr (of_nat n, c # take m rest)"
    using n c by (intro strtoul_lenient_number) simp_all
  show ?thesis using d digit_not_special [OF d] p s t len c
    by (cases neg) (auto simp: proc_get_long_def Let_def)
qed

end

text \<open>The reader as \<^verbatim>\<open>lib/kstrtox.c\<close> documents it: \<^verbatim>\<open>0x\<close> hexadecimal, a leading \<^verbatim>\<open>0\<close> octal, decimal otherwise.\<close>

definition kstrtox_parse :: parse_integer where
  "kstrtox_parse s =
     (let (b, s') = strip_base 0 s;
          ds = takeWhile (is_digit_of b) s';
          v = digits_value b 0 ds in
      (of_nat v, length s - length s' + length ds, 2 ^ 64 \<le> v))"

lemma kstrtox_parse_number:
  assumes n: "n < 2 ^ 64" and rest: "rest = [] \<or> digit_val (hd rest) = None"
  shows "kstrtox_parse (print_nat n @ rest) = (of_nat n, length (print_nat n), False)"
proof (cases "n = 0")
  case True
  have z: "print_nat n = ''0''" using print_nat.simps [of 0] True by (simp add: digit_char_def char_of_def bit_Suc_0_iff)
  have "\<not> has_hex_prefix (''0'' @ rest)"
    using rest by (auto simp: has_hex_prefix_def digit_val_def Let_def split: list.splits)
  moreover have "takeWhile (is_digit_of 8) (''0'' @ rest) = ''0''"
    using rest by (cases rest) (simp_all add: is_digit_of_def digit_val_def)
  ultimately show ?thesis using True z by (simp add: kstrtox_parse_def strip_base_def digit_val_def)
next
  case False
  obtain d ds where p: "print_nat n = d # ds" by (cases "print_nat n") auto
  have d: "d \<noteq> CHR ''0''" using print_nat_leading [of n] False p by simp
  have t: "takeWhile (is_digit_of 10) (print_nat n @ rest) = print_nat n"
    using print_nat_digits rest by (intro takeWhile_digits) (auto simp: is_digit_of_def)
  have "strip_base 0 (print_nat n @ rest) = (10, print_nat n @ rest)"
    using d p by (auto simp: strip_base_def has_hex_prefix_def split: list.splits)
  then show ?thesis using n t by (simp add: kstrtox_parse_def digits_value_print)
qed

interpretation kstrtox: integer_parser kstrtox_parse
  by unfold_locales (rule kstrtox_parse_number)

lemma integer_parser_kstrtox: "integer_parser kstrtox_parse"
  by (rule kstrtox.integer_parser_axioms)

subsection \<open>String entries stay terminated\<close>

text \<open>The buffer of an entry holds \<^verbatim>\<open>maxlen\<close> bytes and a terminator among them.\<close>

definition string_entry :: "nat \<Rightarrow> string \<Rightarrow> bool" where
  "string_entry maxlen data = (0 < maxlen \<and> maxlen \<le> length data \<and> NUL \<in> set (take maxlen data))"

definition c_text :: "string \<Rightarrow> string" where
  "c_text d = takeWhile (\<lambda>c. c \<noteq> NUL) d"

lemma c_strlen_entry: "string_entry maxlen d \<Longrightarrow> c_strlen d = Inr (length (c_text d))"
  by (auto simp: c_strlen_def string_entry_def c_text_def dest: in_set_takeD)

lemma c_text_bound: "string_entry maxlen d \<Longrightarrow> length (c_text d) < maxlen"
proof -
  assume d: "string_entry maxlen d"
  then obtain i where i: "i < maxlen" "i < length d" "d ! i = NUL"
    by (auto simp: string_entry_def in_set_conv_nth)
  have "\<not> i < length (takeWhile (\<lambda>c. c \<noteq> NUL) d)"
    using i(3) takeWhile_nth [of i "\<lambda>c. c \<noteq> NUL" d] set_takeWhileD [OF nth_mem, of i "\<lambda>c. c \<noteq> NUL" d] by auto
  then show ?thesis using i(1) by (simp add: c_text_def)
qed

lemma store_text_entry:
  assumes "string_entry maxlen data" "len + length cs < maxlen"
  shows "string_entry maxlen (store_text data len cs) \<and> length (store_text data len cs) = length data
    \<and> drop maxlen (store_text data len cs) = drop maxlen data"
proof -
  have l: "len + length cs < length data" using assms by (simp add: string_entry_def)
  have "NUL \<in> set (take maxlen (store_text data len cs))"
    using assms l by (auto simp: store_text_def take_Cons' min_def split: if_splits)
  then show ?thesis using assms l
    by (auto simp: string_entry_def store_text_def drop_Cons' min_def)
qed

lemma c_text_store: "NUL \<notin> set cs \<Longrightarrow> c_text (store_text data 0 cs) = cs"
  by (auto simp: c_text_def store_text_def intro!: takeWhile_digits)

lemma take_fits: "len \<le> m - 1 \<Longrightarrow> 0 < m \<Longrightarrow> len + length (take (m - 1 - len) xs) < m" for m :: nat
  by simp

lemma proc_dostring_read:
  assumes "string_entry maxlen data"
  shows "proc_dostring mode (Some data) maxlen (SysRead n) ppos =
    (let bytes = take n (drop (nat ppos) (c_text data));
         out = (if n = 0 \<or> ppos < 0 \<or> int (length (c_text data)) < ppos then []
                else if length bytes < n then bytes @ [NL] else bytes) in
     Inr \<lparr>sy_ret = 0, sy_len = length out, sy_pos = ppos + int (length out), sy_data = data, sy_out = out\<rparr>)"
proof -
  have l: "min (length (c_text data)) maxlen = length (c_text data)" "maxlen \<noteq> 0"
    using c_text_bound [OF assms] by simp_all
  have t: "take (length (c_text data) - nat ppos) (drop (nat ppos) data) = drop (nat ppos) (c_text data)"
    by (simp add: drop_take [symmetric] c_text_def takeWhile_eq_take [symmetric])
  show ?thesis
    unfolding proc_dostring_def u_proc_do_string_def c_strlen_entry [OF assms] option.case sysctl_op.case
      kbind_simps Let_def l(1) t
    using l(2) by simp
qed

text \<open>A write leaves the array alone or stores the text from some place inside it.\<close>

lemma proc_dostring_write_cases:
  assumes "string_entry maxlen data"
  shows "\<exists>len k pos data'. len \<le> maxlen - 1 \<and> k \<le> length tx
    \<and> (data' = data \<or> data' = store_text data len (take (maxlen - 1 - len) (takeWhile (\<lambda>c. c \<noteq> NUL \<and> c \<noteq> NL) tx)))
    \<and> proc_dostring mode (Some data) maxlen (SysWrite tx) ppos =
        Inr \<lparr>sy_ret = 0, sy_len = k, sy_pos = pos, sy_data = data', sy_out = []\<rparr>"
proof -
  have m: "0 < maxlen" "maxlen \<le> length data" using assms by (simp_all add: string_entry_def)
  define cs where "cs len = take (maxlen - 1 - len) (takeWhile (\<lambda>c. c \<noteq> NUL \<and> c \<noteq> NL) tx)" for len
  have b: "\<not> length data \<le> len + length (cs len)" if "len \<le> maxlen - 1" for len
    using m that take_fits [OF that m(1)] by (simp add: cs_def not_le less_le_trans)
  have u: "proc_dostring mode (Some data) maxlen (SysWrite tx) ppos =
      (if tx = [] then Inr \<lparr>sy_ret = 0, sy_len = 0, sy_pos = ppos, sy_data = data, sy_out = []\<rparr>
       else if mode = WRITES_STRICT \<and> (ppos < 0 \<or> int (min (length (c_text data)) (maxlen - 1)) < ppos)
       then Inr \<lparr>sy_ret = 0, sy_len = length tx, sy_pos = ppos, sy_data = data, sy_out = []\<rparr>
       else let len = if mode = WRITES_STRICT then nat ppos else 0 in
         if length data \<le> len + length (cs len) then Inl BufferOverflow
         else Inr \<lparr>sy_ret = 0, sy_len = length tx, sy_pos = ppos + int (length tx),
                   sy_data = store_text data len (cs len), sy_out = []\<rparr>)"
    unfolding proc_dostring_def u_proc_do_string_def option.case sysctl_op.case c_strlen_entry [OF assms]
      Let_def cs_def [symmetric]
    using m by (cases "mode = WRITES_STRICT") simp_all
  show ?thesis
  proof (cases "tx = [] \<or> mode = WRITES_STRICT \<and> (ppos < 0 \<or> int (min (length (c_text data)) (maxlen - 1)) < ppos)")
    case True
    then show ?thesis using u
      by - (rule exI [of _ 0], rule exI [of _ "length tx"], rule exI [of _ ppos], rule exI [of _ data], auto)
  next
    case False
    let ?l = "if mode = WRITES_STRICT then nat ppos else 0"
    have "?l \<le> maxlen - 1" using False by auto
    then show ?thesis using u False b [of ?l] unfolding Let_def cs_def [symmetric]
      by (intro exI [of _ ?l] exI [of _ "length tx"] exI [of _ "ppos + int (length tx)"] exI [of _ "store_text data ?l (cs ?l)"])
        simp
  qed
qed

text \<open>A string entry is safe under every call, in every mode and at every position: the call returns 0,
  the array keeps its size, the bytes after \<^verbatim>\<open>maxlen\<close> are untouched, the entry stays terminated within
  \<^verbatim>\<open>maxlen\<close>, and a reader gets at most the bytes it has room for.\<close>

lemma proc_dostring_safe:
  assumes "string_entry maxlen data"
  shows "\<exists>r. proc_dostring mode (Some data) maxlen opn ppos = Inr r \<and> sy_ret r = 0
    \<and> string_entry maxlen (sy_data r) \<and> length (sy_data r) = length data
    \<and> drop maxlen (sy_data r) = drop maxlen data
    \<and> sy_len r \<le> op_len opn \<and> length (sy_out r) \<le> op_len opn"
proof (cases opn)
  case (SysWrite tx)
  obtain len k pos d where d: "len \<le> maxlen - 1" "k \<le> length tx"
      "d = data \<or> d = store_text data len (take (maxlen - 1 - len) (takeWhile (\<lambda>c. c \<noteq> NUL \<and> c \<noteq> NL) tx))"
      "proc_dostring mode (Some data) maxlen opn ppos =
         Inr \<lparr>sy_ret = 0, sy_len = k, sy_pos = pos, sy_data = d, sy_out = []\<rparr>"
    using proc_dostring_write_cases [OF assms, of tx mode ppos] SysWrite by blast
  have "len + length (take (maxlen - 1 - len) (takeWhile (\<lambda>c. c \<noteq> NUL \<and> c \<noteq> NL) tx)) < maxlen"
    using assms by (intro take_fits [OF d(1)]) (simp add: string_entry_def)
  then have "string_entry maxlen d \<and> length d = length data \<and> drop maxlen d = drop maxlen data"
    using d(3) assms store_text_entry by blast
  then show ?thesis using d(2,4) SysWrite by simp
next
  case (SysRead n)
  then show ?thesis unfolding SysRead proc_dostring_read [OF assms] using assms by (auto simp: Let_def)
qed

theorem proc_dostring_safe_witness:
  "\<exists>r. proc_dostring WRITES_STRICT (Some (''core'' @ replicate 4 NUL)) 8 (SysWrite ''abc'') 4 = Inr r \<and> sy_ret r = 0"
  using proc_dostring_safe [of 8 "''core'' @ replicate 4 NUL" WRITES_STRICT "SysWrite ''abc''" 4]
  by (auto simp: string_entry_def)

text \<open>What a program writes at the start of a string entry is what a reader gets: the characters up to a
  newline or a NUL, cut at \<^verbatim>\<open>maxlen - 1\<close>, and a newline, in every write mode.\<close>

lemma proc_dostring_roundtrip:
  assumes "string_entry maxlen data" and "text \<noteq> []"
    and n: "length (take (maxlen - 1) (takeWhile (\<lambda>c. c \<noteq> NUL \<and> c \<noteq> NL) text)) < n"
  shows "\<exists>r r'. proc_dostring mode (Some data) maxlen (SysWrite text) 0 = Inr r
    \<and> sy_len r = length text
    \<and> proc_dostring mode (Some (sy_data r)) maxlen (SysRead n) 0 = Inr r'
    \<and> sy_out r' = take (maxlen - 1) (takeWhile (\<lambda>c. c \<noteq> NUL \<and> c \<noteq> NL) text) @ [NL]
    \<and> sy_len r' = length (sy_out r')"
proof -
  define cs where "cs = take (maxlen - 1) (takeWhile (\<lambda>c. c \<noteq> NUL \<and> c \<noteq> NL) text)"
  have m: "0 < maxlen" "maxlen \<le> length data" using assms(1) by (simp_all add: string_entry_def)
  then have l: "0 + length cs < maxlen" using take_fits [of 0 maxlen] by (simp add: cs_def)
  have nul: "NUL \<notin> set cs" by (auto simp: cs_def dest!: in_set_takeD set_takeWhileD)
  have e: "string_entry maxlen (store_text data 0 cs)" using store_text_entry [OF assms(1) l] by simp
  have w: "proc_dostring mode (Some data) maxlen (SysWrite text) 0 = Inr \<lparr>sy_ret = 0, sy_len = length text,
      sy_pos = int (length text), sy_data = store_text data 0 cs, sy_out = []\<rparr>"
    unfolding proc_dostring_def u_proc_do_string_def option.case sysctl_op.case c_strlen_entry [OF assms(1)]
    using assms(2) m l by (auto simp: cs_def)
  have r: "proc_dostring mode (Some (store_text data 0 cs)) maxlen (SysRead n) 0 = Inr \<lparr>sy_ret = 0,
      sy_len = length (cs @ [NL]), sy_pos = int (length (cs @ [NL])), sy_data = store_text data 0 cs,
      sy_out = cs @ [NL]\<rparr>"
    unfolding proc_dostring_read [OF e] c_text_store [OF nul] Let_def using n [folded cs_def] by simp
  show ?thesis using w r unfolding cs_def [symmetric] by simp
qed

theorem proc_dostring_roundtrip_witness:
  "\<exists>r r'. proc_dostring WRITES_STRICT (Some (replicate 8 NUL)) 8 (SysWrite ''core'') 0 = Inr r
    \<and> proc_dostring WRITES_STRICT (Some (sy_data r)) 8 (SysRead 64) 0 = Inr r' \<and> sy_out r' = ''core'' @ [NL]"
  using proc_dostring_roundtrip [of 8 "replicate 8 NUL" "''core''" 64 WRITES_STRICT]
  by (auto simp: string_entry_def NUL_def NL_def)

end
