(* ===== verification/Sysctl_Vec.thy ===== *)
theory Sysctl_Vec
  imports Sysctl_Text
begin

text \<open>
  \<^verbatim>\<open>kernel/sysctl.c\<close>, the numeric handlers: the conversion functions handed to the vector loops, one
  definition each with the signature of the C function (sign, magnitude, cell, write flag in; return value and
  the three of them out), the loop \<^verbatim>\<open>__do_proc_dointvec\<close> and the entry points built on it; the
  loops for unsigned and long cells are in \<^verbatim>\<open>Sysctl_Handlers\<close>. \<^verbatim>\<open>int\<close> cells are 32-bit words read signed.
  The lemmas show that reading a vector and writing the text back is the identity, and that a range-checked
  entry never leaves its range.
\<close>

subsection \<open>Tables\<close>

text \<open>The data array (\<open>None\<close> a null pointer), its size in bytes and the two bounds.\<close>

record ('c, 'b) ctl_table =
  ct_data :: "'c list option"
  ct_maxlen :: nat
  ct_extra1 :: "'b option"
  ct_extra2 :: "'b option"

definition table_cells :: "('c, 'b) ctl_table \<Rightarrow> 'c list" where
  "table_cells table = (case ct_data table of None \<Rightarrow> [] | Some cells \<Rightarrow> cells)"

definition INT_MAX :: int where "INT_MAX = 2 ^ 31 - 1"
definition UINT_MAX :: nat where "UINT_MAX = 2 ^ 32 - 1"
definition PAGE_SIZE :: nat where "PAGE_SIZE = 4096"
definition TAB :: char where "TAB = CHR 0x09"
definition proc_wspace_sep :: string where "proc_wspace_sep = [CHR '' '', TAB, NL]"

subsection \<open>Conversions of int cells\<close>

type_synonym int_conv = "bool \<Rightarrow> u64 \<Rightarrow> s32 \<Rightarrow> bool \<Rightarrow> int \<times> bool \<times> u64 \<times> s32"

text \<open>The absolute value of an \<^verbatim>\<open>int\<close> as an unsigned long, and its sign.\<close>

definition int_lval :: "s32 \<Rightarrow> bool \<times> u64" where
  "int_lval v = (if sint v < 0 then (True, - scast v) else (False, scast v))"

definition do_proc_dobool_conv :: int_conv where
  "do_proc_dobool_conv neg lval valp wr =
     (if wr then (0, neg, lval, (valp AND NOT 0xFF) OR (if lval \<noteq> 0 then 1 else 0))
      else (0, False, if valp AND 0xFF \<noteq> 0 then 1 else 0, valp))"

definition do_proc_dointvec_conv :: int_conv where
  "do_proc_dointvec_conv neg lval valp wr =
     (if wr then
        if neg then
          if INT_MAX + 1 < uint lval then (- EINVAL, neg, lval, valp) else (0, neg, lval, ucast (- lval))
        else if INT_MAX < uint lval then (- EINVAL, neg, lval, valp) else (0, neg, lval, ucast lval)
      else let (n, l) = int_lval valp in (0, n, l, valp))"

definition do_proc_dointvec_minmax_conv :: "s32 option \<Rightarrow> s32 option \<Rightarrow> int_conv" where
  "do_proc_dointvec_minmax_conv mn mx neg lval valp wr =
     (let (ret, neg', lval', ip) = do_proc_dointvec_conv neg lval valp wr in
      if ret \<noteq> 0 then (ret, neg', lval', valp)
      else if wr then
        if (case mn of None \<Rightarrow> False | Some m \<Rightarrow> sint ip < sint m) \<or> (case mx of None \<Rightarrow> False | Some m \<Rightarrow> sint m < sint ip)
        then (- EINVAL, neg', lval', valp)
        else (0, neg', lval', ip)
      else (0, neg', lval', valp))"

text \<open>\<open>HZ\<close> is a constant of the kernel's configuration.\<close>

definition do_proc_dointvec_jiffies_conv :: "nat \<Rightarrow> int_conv" where
  "do_proc_dointvec_jiffies_conv HZ neg lval valp wr =
     (if wr then
        if INT_MAX div int HZ < uint lval then (1, neg, lval, valp)
        else (0, neg, lval, ucast ((if neg then - lval else lval) * of_nat HZ))
      else let (n, l) = int_lval valp in (0, n, of_nat (unat l div HZ), valp))"

definition do_proc_dointvec_userhz_jiffies_conv ::
    "nat \<Rightarrow> nat \<Rightarrow> (u64 \<Rightarrow> u64) \<Rightarrow> (u64 \<Rightarrow> u64) \<Rightarrow> int_conv" where
  "do_proc_dointvec_userhz_jiffies_conv HZ USER_HZ clock_t_to_jiffies jiffies_to_clock_t neg lval valp wr =
     (if wr then
        if USER_HZ < HZ \<and> (2 ^ 63 - 1) div HZ * USER_HZ < unat lval then (1, neg, lval, valp)
        else (0, neg, lval, ucast (clock_t_to_jiffies (if neg then - lval else lval)))
      else let (n, l) = int_lval valp in (0, n, jiffies_to_clock_t l, valp))"

text \<open>\<^verbatim>\<open>msecs_to_jiffies\<close> takes and \<^verbatim>\<open>jiffies_to_msecs\<close> returns an unsigned int.\<close>

definition do_proc_dointvec_ms_jiffies_conv ::
    "(u32 \<Rightarrow> u64) \<Rightarrow> (u64 \<Rightarrow> u32) \<Rightarrow> int_conv" where
  "do_proc_dointvec_ms_jiffies_conv msecs_to_jiffies jiffies_to_msecs neg lval valp wr =
     (if wr then
        let jif = msecs_to_jiffies (ucast (if neg then - lval else lval)) in
        if INT_MAX < uint jif then (1, neg, lval, valp) else (0, neg, lval, ucast jif)
      else let (n, l) = int_lval valp in (0, n, ucast (jiffies_to_msecs l), valp))"

subsection \<open>Vectors of int\<close>

text \<open>One pass of the write loop per cell; \<open>i = 0\<close> is the C flag \<^verbatim>\<open>first\<close>. The result is the error, the flag, the
  text left and the cells. A cell past the array is a fault.\<close>

fun intvec_write :: "parse_integer \<Rightarrow> int_conv \<Rightarrow> nat \<Rightarrow> nat \<Rightarrow> string \<Rightarrow> s32 list \<Rightarrow> (int \<times> bool \<times> string \<times> s32 list) kres" where
  "intvec_write parse conv 0 i p cells = Inr (0, i = 0, p, cells)"
| "intvec_write parse conv (Suc vleft) i p cells =
     (if p = [] then Inr (0, i = 0, p, cells)
      else
        let p = proc_skip_spaces p in
        if p = [] then Inr (0, i = 0, p, cells)
        else case proc_get_long parse proc_wspace_sep p of
          Inl err \<Rightarrow> Inr (err, i = 0, p, cells)
        | Inr (lval, neg, tr, p) \<Rightarrow>
            if length cells \<le> i then Inl (IndexOutOfBounds (int i))
            else
              let (ret, neg, lval, v) = conv neg lval (cells ! i) True in
              if ret \<noteq> 0 then Inr (- EINVAL, i = 0, p, cells[i := v])
              else intvec_write parse conv vleft (Suc i) p (cells[i := v]))"

fun intvec_read :: "int_conv \<Rightarrow> nat \<Rightarrow> nat \<Rightarrow> s32 list \<Rightarrow> string \<times> nat \<Rightarrow> (int \<times> bool \<times> string \<times> nat) kres" where
  "intvec_read conv 0 i cells o' = Inr (0, i = 0, o')"
| "intvec_read conv (Suc vleft) i cells o' =
     (if snd o' = 0 then Inr (0, i = 0, o')
      else if length cells \<le> i then Inl (IndexOutOfBounds (int i))
      else
        let (ret, neg, lval, v) = conv False 0 (cells ! i) False in
        if ret \<noteq> 0 then Inr (- EINVAL, i = 0, o')
        else
          let o' = (if i \<noteq> 0 then proc_put_char TAB o' else o');
              o' = proc_put_long lval neg o' in
          intvec_read conv vleft (Suc i) cells o')"

definition u_do_proc_dointvec ::
    "parse_integer \<Rightarrow> writes_mode \<Rightarrow> s32 list option \<Rightarrow> nat \<Rightarrow> sysctl_op \<Rightarrow> int \<Rightarrow> int_conv \<Rightarrow> s32 list sysctl_res kres" where
  "u_do_proc_dointvec parse mode tbl_data maxlen opn ppos conv =
     (case tbl_data of
        None \<Rightarrow> Inr \<lparr>sy_ret = 0, sy_len = 0, sy_pos = ppos, sy_data = [], sy_out = []\<rparr>
      | Some cells \<Rightarrow>
          if maxlen = 0 \<or> op_len opn = 0 \<or> (ppos \<noteq> 0 \<and> \<not> is_write opn)
          then Inr \<lparr>sy_ret = 0, sy_len = 0, sy_pos = ppos, sy_data = cells, sy_out = []\<rparr>
          else
            let vleft = maxlen div 4 in
            case opn of
              SysWrite text \<Rightarrow>
                if proc_first_pos_non_zero_ignore mode ppos
                then Inr \<lparr>sy_ret = 0, sy_len = length text, sy_pos = ppos + int (length text), sy_data = cells, sy_out = []\<rparr>
                else
                  kbind (intvec_write parse conv vleft 0 (take (PAGE_SIZE - 1) text) cells) (\<lambda>(err, first, p, cells).
                  let p = (if err = 0 then proc_skip_spaces p else p) in
                  if first
                  then Inr \<lparr>sy_ret = (if err \<noteq> 0 then err else - EINVAL), sy_len = length text, sy_pos = ppos,
                            sy_data = cells, sy_out = []\<rparr>
                  else Inr \<lparr>sy_ret = err, sy_len = length text - length p, sy_pos = ppos + int (length text - length p),
                            sy_data = cells, sy_out = []\<rparr>)
            | SysRead n \<Rightarrow>
                kbind (intvec_read conv vleft 0 cells ([], n)) (\<lambda>(err, first, o').
                let o' = (if \<not> first \<and> snd o' \<noteq> 0 \<and> err = 0 then proc_put_char NL o' else o') in
                Inr \<lparr>sy_ret = err, sy_len = n - snd o', sy_pos = ppos + int (n - snd o'), sy_data = cells, sy_out = fst o'\<rparr>))"

definition do_proc_dointvec ::
    "parse_integer \<Rightarrow> writes_mode \<Rightarrow> (s32, 'b) ctl_table \<Rightarrow> sysctl_op \<Rightarrow> int \<Rightarrow> int_conv \<Rightarrow> s32 list sysctl_res kres" where
  "do_proc_dointvec parse mode table opn ppos conv =
     u_do_proc_dointvec parse mode (ct_data table) (ct_maxlen table) opn ppos conv"

definition proc_dobool :: "parse_integer \<Rightarrow> writes_mode \<Rightarrow> (s32, 'b) ctl_table \<Rightarrow> sysctl_op \<Rightarrow> int \<Rightarrow> s32 list sysctl_res kres" where
  "proc_dobool parse mode table opn ppos = do_proc_dointvec parse mode table opn ppos do_proc_dobool_conv"

definition proc_dointvec :: "parse_integer \<Rightarrow> writes_mode \<Rightarrow> (s32, 'b) ctl_table \<Rightarrow> sysctl_op \<Rightarrow> int \<Rightarrow> s32 list sysctl_res kres" where
  "proc_dointvec parse mode table opn ppos = do_proc_dointvec parse mode table opn ppos do_proc_dointvec_conv"

definition proc_dointvec_minmax :: "parse_integer \<Rightarrow> writes_mode \<Rightarrow> (s32, s32) ctl_table \<Rightarrow> sysctl_op \<Rightarrow> int \<Rightarrow> s32 list sysctl_res kres" where
  "proc_dointvec_minmax parse mode table opn ppos =
     do_proc_dointvec parse mode table opn ppos (do_proc_dointvec_minmax_conv (ct_extra1 table) (ct_extra2 table))"

definition proc_dointvec_jiffies :: "nat \<Rightarrow> parse_integer \<Rightarrow> writes_mode \<Rightarrow> (s32, 'b) ctl_table \<Rightarrow> sysctl_op \<Rightarrow> int \<Rightarrow> s32 list sysctl_res kres" where
  "proc_dointvec_jiffies HZ parse mode table opn ppos =
     do_proc_dointvec parse mode table opn ppos (do_proc_dointvec_jiffies_conv HZ)"

definition proc_dointvec_userhz_jiffies ::
    "nat \<Rightarrow> nat \<Rightarrow> (u64 \<Rightarrow> u64) \<Rightarrow> (u64 \<Rightarrow> u64) \<Rightarrow> parse_integer \<Rightarrow> writes_mode \<Rightarrow> (s32, 'b) ctl_table \<Rightarrow> sysctl_op \<Rightarrow> int \<Rightarrow>
     s32 list sysctl_res kres" where
  "proc_dointvec_userhz_jiffies HZ USER_HZ clock_t_to_jiffies jiffies_to_clock_t parse mode table opn ppos =
     do_proc_dointvec parse mode table opn ppos
       (do_proc_dointvec_userhz_jiffies_conv HZ USER_HZ clock_t_to_jiffies jiffies_to_clock_t)"

definition proc_dointvec_ms_jiffies ::
    "(u32 \<Rightarrow> u64) \<Rightarrow> (u64 \<Rightarrow> u32) \<Rightarrow> parse_integer \<Rightarrow> writes_mode \<Rightarrow> (s32, 'b) ctl_table \<Rightarrow> sysctl_op \<Rightarrow> int \<Rightarrow>
     s32 list sysctl_res kres" where
  "proc_dointvec_ms_jiffies msecs_to_jiffies jiffies_to_msecs parse mode table opn ppos =
     do_proc_dointvec parse mode table opn ppos (do_proc_dointvec_ms_jiffies_conv msecs_to_jiffies jiffies_to_msecs)"

text \<open>The privileged variant, and the one that reports the core dump settings after a successful call.\<close>

definition proc_dointvec_minmax_sysadmin ::
    "bool \<Rightarrow> parse_integer \<Rightarrow> writes_mode \<Rightarrow> (s32, s32) ctl_table \<Rightarrow> sysctl_op \<Rightarrow> int \<Rightarrow> s32 list sysctl_res kres" where
  "proc_dointvec_minmax_sysadmin cap_sys_admin parse mode table opn ppos =
     (if is_write opn \<and> \<not> cap_sys_admin
      then Inr \<lparr>sy_ret = - EPERM, sy_len = op_len opn, sy_pos = ppos, sy_data = table_cells table, sy_out = []\<rparr>
      else proc_dointvec_minmax parse mode table opn ppos)"

subsection \<open>One pass of the write loop\<close>

lemma proc_skip_spaces_Nil [simp]: "proc_skip_spaces [] = []"
  by (simp add: proc_skip_spaces_def)

lemma intvec_write_stop:
  "proc_skip_spaces p = [] \<Longrightarrow> intvec_write parse conv (Suc n) i p cells = Inr (0, i = 0, [], cells)"
  by auto

lemma intvec_write_reject:
  "proc_skip_spaces p \<noteq> [] \<Longrightarrow> proc_get_long parse proc_wspace_sep (proc_skip_spaces p) = Inl e \<Longrightarrow>
   intvec_write parse conv (Suc n) i p cells = Inr (e, i = 0, proc_skip_spaces p, cells)"
  by (auto simp: Let_def)

lemma intvec_write_number:
  "proc_skip_spaces p \<noteq> [] \<Longrightarrow> proc_get_long parse proc_wspace_sep (proc_skip_spaces p) = Inr (lval, neg, tr, q) \<Longrightarrow>
   conv neg lval (cells ! i) True = (r, ng, l, v) \<Longrightarrow>
   intvec_write parse conv (Suc n) i p cells =
     (if length cells \<le> i then Inl (IndexOutOfBounds (int i))
      else if r \<noteq> 0 then Inr (- EINVAL, i = 0, q, cells[i := v])
      else intvec_write parse conv n (Suc i) q (cells[i := v]))"
  by (auto simp: Let_def)

declare intvec_write.simps(2) [simp del]

lemma intvec_write_cases [consumes 0, case_names Stop Reject Number]:
  obtains "proc_skip_spaces p = []"
  | e where "proc_skip_spaces p \<noteq> []" "proc_get_long parse proc_wspace_sep (proc_skip_spaces p) = Inl e"
  | lval neg tr q r ng l v where "proc_skip_spaces p \<noteq> []"
      "proc_get_long parse proc_wspace_sep (proc_skip_spaces p) = Inr (lval, neg, tr, q)"
      "conv neg lval cell True = (r, ng, l, v)"
  by (cases "proc_get_long parse proc_wspace_sep (proc_skip_spaces p)") (metis prod_cases4)+

subsection \<open>The contract of a conversion\<close>

text \<open>What the vector loop relies on: a write leaves an acceptable cell, whether it succeeds or not.\<close>

locale int_cell_conv =
  fixes conv :: int_conv and ok :: "s32 \<Rightarrow> bool"
  assumes conv_write: "ok v \<Longrightarrow> conv neg lval v True = (r, n, l, v') \<Longrightarrow> ok v'"
begin

lemma update_ok:
  assumes "\<forall>v \<in> set cells. ok v" "i < length cells" "conv neg lval (cells ! i) True = (r, n, l, v')"
  shows "\<forall>v \<in> set (cells[i := v']). ok v"
proof -
  have "ok v'" using assms conv_write [of "cells ! i"] by simp
  then show ?thesis using assms(1) set_update_subset_insert [of cells i v'] by blast
qed

lemma intvec_write_ok:
  "intvec_write parse conv n i p cells = Inr (err, first, p', cells') \<Longrightarrow> \<forall>v \<in> set cells. ok v \<Longrightarrow>
   (\<forall>v \<in> set cells'. ok v) \<and> length cells' = length cells"
proof (induction n arbitrary: i p cells)
  case (Suc n)
  show ?case
  proof (cases rule: intvec_write_cases [where p = p and parse = parse and conv = conv and cell = "cells ! i"])
    case Stop
    then show ?thesis using Suc.prems by (simp add: intvec_write_stop)
  next
    case (Reject e)
    then show ?thesis using Suc.prems by (simp add: intvec_write_reject)
  next
    case (Number lval neg tr q r ng l v)
    note w = Suc.prems(1) [unfolded intvec_write_number [where conv = conv, OF Number]]
    then have i: "i < length cells" by (simp split: if_splits)
    have ok': "\<forall>v \<in> set (cells[i := v]). ok v" using update_ok [OF Suc.prems(2) i Number(3)] .
    show ?thesis using w ok' i Suc.IH [OF _ ok', of "Suc i" q] by (cases "r = 0") auto
  qed
qed auto

text \<open>Every call of the handler keeps the cells acceptable, whatever text is written.\<close>

lemma handler_ok:
  assumes "u_do_proc_dointvec parse mode (Some cells) maxlen opn ppos conv = Inr r" "\<forall>v \<in> set cells. ok v"
  shows "(\<forall>v \<in> set (sy_data r). ok v) \<and> length (sy_data r) = length cells"
proof (cases opn)
  case (SysWrite tx)
  then show ?thesis using assms intvec_write_ok [OF _ assms(2)]
    by (fastforce simp: u_do_proc_dointvec_def Let_def split: if_splits)
next
  case (SysRead n)
  then show ?thesis using assms by (auto simp: u_do_proc_dointvec_def Let_def split: if_splits)
qed

end

lemma unat_u64: "unat lval < 2 ^ 64" for lval :: u64
  by (rule order_less_le_trans, rule unsigned_less) simp

text \<open>
  A conversion that also reads back: the sign and magnitude a read gives take at most \<open>w\<close> characters, few
  enough for the temporary buffer, and writing them restores the cell.
\<close>

definition conv_text :: "int_conv \<Rightarrow> s32 \<Rightarrow> string" where
  "conv_text conv v = (let (r, neg, lval, v') = conv False 0 v False in
     (if neg then ''-'' else []) @ print_nat (unat lval))"

fun cells_text :: "int_conv \<Rightarrow> bool \<Rightarrow> s32 list \<Rightarrow> string" where
  "cells_text conv first [] = []"
| "cells_text conv first (v # vs) = (if first then [] else [TAB]) @ conv_text conv v @ cells_text conv False vs"

locale int_conv_roundtrip = int_cell_conv conv ok + integer_parser parse
  for conv :: int_conv and ok :: "s32 \<Rightarrow> bool" and parse :: parse_integer +
  fixes w :: nat
  assumes width: "w < TMPBUFLEN - 1"
    and conv_read: "ok v \<Longrightarrow> \<exists>neg lval. conv False 0 v False = (0, neg, lval, v)
      \<and> length (conv_text conv v) \<le> w \<and> (\<forall>old. ok old \<longrightarrow> (\<exists>n l. conv neg lval old True = (0, n, l, v)))"
begin

lemma length_cells_text:
  "\<forall>v \<in> set cells. ok v \<Longrightarrow> length (cells_text conv first cells) \<le> (w + 1) * length cells"
proof (induction cells arbitrary: first)
  case (Cons v vs)
  have "length (conv_text conv v) \<le> w" using conv_read [of v] Cons.prems by auto
  then show ?case using Cons.IH [of False] Cons.prems by auto
qed simp

text \<open>Reading prints the cells, as far as they fit.\<close>

lemma intvec_read_text:
  "\<forall>v \<in> set cells. ok v \<Longrightarrow> i + n \<le> length cells \<Longrightarrow> 0 < i \<or> 0 < snd o' \<Longrightarrow>
   intvec_read conv n i cells o' = Inr (0, i = 0 \<and> n = 0, put_text (cells_text conv (i = 0) (take n (drop i cells))) o')"
proof (induction n arbitrary: i o')
  case (Suc n)
  have i: "i < length cells" and ok: "ok (cells ! i)" using Suc.prems by simp_all
  have d: "take (Suc n) (drop i cells) = cells ! i # take n (drop (Suc i) cells)"
    using i by (simp add: Cons_nth_drop_Suc [symmetric])
  obtain neg lval where c: "conv False 0 (cells ! i) False = (0, neg, lval, cells ! i)"
    using conv_read [OF ok] by blast
  show ?case
  proof (cases "snd o' = 0")
    case True
    then show ?thesis using Suc.prems by (simp add: put_text_full)
  next
    case False
    let ?o = "put_text ((if i \<noteq> 0 then [TAB] else []) @ conv_text conv (cells ! i)) o'"
    have "intvec_read conv (Suc n) i cells o' = intvec_read conv n (Suc i) cells ?o"
      using i c False
      by (simp add: proc_put_char_text proc_put_long_def conv_text_def put_text_append Let_def)
    then show ?thesis using Suc.IH [of "Suc i" ?o] Suc.prems by (simp add: d put_text_append)
  qed
qed simp

lemma conv_text_start: "ok v \<Longrightarrow> proc_skip_spaces (conv_text conv v @ rest) = conv_text conv v @ rest"
proof -
  assume "ok v"
  then obtain neg lval where c: "conv False 0 v False = (0, neg, lval, v)" using conv_read by blast
  obtain d ds where p: "print_nat (unat lval) = d # ds" by (cases "print_nat (unat lval)") auto
  have "\<not> isspace d" using digit_not_special print_nat_digits [of d "unat lval"] p by simp
  then show ?thesis using c p by (auto simp: conv_text_def proc_skip_spaces_def isspace_def)
qed

lemma separators: "digit_val TAB = None" "digit_val NL = None" "isspace TAB" "isspace NL"
    "TAB \<in> set proc_wspace_sep" "NL \<in> set proc_wspace_sep"
  by (simp_all add: TAB_def NL_def digit_val_def isspace_def proc_wspace_sep_def)

lemma get_long_cell:
  assumes "ok v" "c \<in> set proc_wspace_sep" "digit_val c = None"
  shows "\<exists>neg lval. proc_get_long parse proc_wspace_sep (conv_text conv v @ c # rest) = Inr (lval, neg, Some c, c # rest)
    \<and> (\<forall>old. ok old \<longrightarrow> (\<exists>n l. conv neg lval old True = (0, n, l, v)))"
proof -
  obtain neg lval where c: "conv False 0 v False = (0, neg, lval, v)" "length (conv_text conv v) \<le> w"
      "\<forall>old. ok old \<longrightarrow> (\<exists>n l. conv neg lval old True = (0, n, l, v))"
    using conv_read [OF assms(1)] by blast
  have "length (print_nat (unat lval)) + (if neg then 1 else 0) < TMPBUFLEN - 1"
    using c(1,2) width by (auto simp: conv_text_def split: if_splits)
  then have "proc_get_long parse proc_wspace_sep (conv_text conv v @ c # rest) = Inr (of_nat (unat lval), neg, Some c, c # rest)"
    using proc_get_long_number [of "unat lval" c proc_wspace_sep neg rest] assms c(1) unat_u64
    by (cases neg) (simp_all add: conv_text_def)
  then show ?thesis using c(3) by auto
qed

text \<open>Writing what was printed stores the cells.\<close>

lemma intvec_write_text:
  "\<forall>v \<in> set vs. ok v \<Longrightarrow> \<forall>v \<in> set old. ok v \<Longrightarrow> i + length vs = length old \<Longrightarrow>
   intvec_write parse conv (length vs) i (cells_text conv (i = 0) vs @ [NL]) old =
     Inr (0, i = 0 \<and> vs = [], [NL], take i old @ vs)"
proof (induction vs arbitrary: i old)
  case Nil
  then show ?case by (cases "i = 0") auto
next
  case (Cons v vs)
  define rest where "rest = cells_text conv False vs @ [NL]"
  obtain c cs where r: "rest = c # cs" "c \<in> set proc_wspace_sep" "digit_val c = None"
    using separators by (cases vs) (auto simp: rest_def)
  have ok: "ok v" and i: "i < length old" and oki: "ok (old ! i)" using Cons.prems by simp_all
  let ?p = "cells_text conv (i = 0) (v # vs) @ [NL]"
  have s: "proc_skip_spaces ?p = conv_text conv v @ rest"
    using conv_text_start [OF ok, of rest] separators(3) by (auto simp: rest_def proc_skip_spaces_def)
  obtain neg lval n l where g: "proc_get_long parse proc_wspace_sep (proc_skip_spaces ?p) = Inr (lval, neg, Some c, rest)"
      "conv neg lval (old ! i) True = (0, n, l, v)"
    using get_long_cell [OF ok r(2,3), of cs] oki s r(1) by metis
  have "conv_text conv v @ rest \<noteq> []" using r(1) by simp
  then have "intvec_write parse conv (length (v # vs)) i ?p old = intvec_write parse conv (length vs) (Suc i) rest (old[i := v])"
    using intvec_write_number [where conv = conv, OF _ g, of "length vs"] s i by simp
  also have "\<dots> = Inr (0, False, [NL], take (Suc i) (old[i := v]) @ vs)"
  proof -
    have "\<forall>u \<in> set (old[i := v]). ok u" using Cons.prems(2) ok set_update_subset_insert [of old i v] by blast
    then show ?thesis using Cons.IH [of "old[i := v]" "Suc i"] Cons.prems by (simp add: rest_def)
  qed
  finally show ?case using i by (simp add: take_Suc_conv_app_nth)
qed

text \<open>Reading the vector and writing the text over any other acceptable vector copies it.\<close>

lemma vector_roundtrip:
  assumes ok: "\<forall>v \<in> set cells. ok v" "\<forall>v \<in> set old. ok v" and len: "length old = length cells"
    and cells: "cells \<noteq> []" "maxlen div 4 = length cells"
    and room: "(w + 1) * length cells < PAGE_SIZE - 1" "(w + 1) * length cells < n"
  shows "\<exists>r. u_do_proc_dointvec parse mode (Some cells) maxlen (SysRead n) 0 conv = Inr r \<and> sy_ret r = 0
    \<and> sy_data r = cells \<and> sy_len r = length (sy_out r)
    \<and> u_do_proc_dointvec parse mode (Some old) maxlen (SysWrite (sy_out r)) 0 conv =
        Inr \<lparr>sy_ret = 0, sy_len = length (sy_out r), sy_pos = int (length (sy_out r)), sy_data = cells, sy_out = []\<rparr>"
proof -
  define t where "t = cells_text conv True cells"
  have lt: "length t \<le> (w + 1) * length cells" using length_cells_text [OF ok(1)] by (simp add: t_def)
  have m: "maxlen \<noteq> 0" using cells by (cases maxlen) auto
  have rd: "intvec_read conv (length cells) 0 cells ([], n) = Inr (0, False, take n t, n - length t)"
    using intvec_read_text [OF ok(1), of 0 "length cells" "([], n)"] cells room
    by (simp add: t_def put_text_start)
  have r: "u_do_proc_dointvec parse mode (Some cells) maxlen (SysRead n) 0 conv =
      Inr \<lparr>sy_ret = 0, sy_len = length (t @ [NL]), sy_pos = int (length (t @ [NL])), sy_data = cells, sy_out = t @ [NL]\<rparr>"
    using m cells room lt by (simp add: u_do_proc_dointvec_def rd proc_put_char_text put_text_def)
  have "intvec_write parse conv (length cells) 0 (t @ [NL]) old = Inr (0, False, [NL], cells)"
    using intvec_write_text [OF ok, of 0] len cells by (simp add: t_def)
  moreover have "take (PAGE_SIZE - 1) (t @ [NL]) = t @ [NL]" using room lt by simp
  ultimately have "u_do_proc_dointvec parse mode (Some old) maxlen (SysWrite (t @ [NL])) 0 conv =
      Inr \<lparr>sy_ret = 0, sy_len = length (t @ [NL]), sy_pos = int (length (t @ [NL])), sy_data = cells, sy_out = []\<rparr>"
    using m cells separators(4)
    by (simp add: u_do_proc_dointvec_def proc_first_pos_non_zero_ignore_def Let_def proc_skip_spaces_def del: take_append)
  then show ?thesis using r by simp
qed

end

subsection \<open>The conversions meet the contract\<close>

definition int_abs :: "s32 \<Rightarrow> u64" where
  "int_abs v = word_of_int \<bar>sint v\<bar>"

lemma int_lval_abs: "int_lval v = (sint v < 0, int_abs v)"
  by (simp add: int_lval_def int_abs_def)

lemma sint_s32: "- 2147483648 \<le> sint v" "sint v < 2147483648" for v :: s32
  using sint_less [of v] sint_greater_eq [of v] by simp_all

lemma uint_int_abs: "uint (int_abs v) = \<bar>sint v\<bar>"
proof -
  have "\<bar>sint v\<bar> < 2 ^ 64" using sint_s32 [of v] by simp
  then show ?thesis unfolding int_abs_def by (subst uint_word_of_int_eq) (rule take_bit_int_eq_self, simp_all)
qed

lemma ucast_word_of_int: "(ucast (word_of_int k :: u64) :: s32) = word_of_int k"
  by (simp add: word_uint_eq_iff unsigned_ucast_eq unsigned_of_int take_bit_take_bit)

lemma dointvec_conv_restores:
  "do_proc_dointvec_conv (sint v < 0) (int_abs v) old True = (0, sint v < 0, int_abs v, v)"
proof -
  have "(ucast (- int_abs v) :: s32) = v" if "sint v < 0"
    using that ucast_word_of_int [of "sint v"] by (simp add: int_abs_def)
  moreover have "(ucast (int_abs v) :: s32) = v" if "\<not> sint v < 0"
    using that ucast_word_of_int [of "sint v"] by (simp add: int_abs_def)
  ultimately show ?thesis using sint_s32 [of v]
    by (auto simp: do_proc_dointvec_conv_def uint_int_abs INT_MAX_def)
qed

lemma length_dointvec_text:
  assumes "conv False 0 v False = (0, sint v < 0, int_abs v, v)"
  shows "length (conv_text conv v) \<le> 11"
proof -
  have "nat \<bar>sint v\<bar> < 10 ^ 10" using sint_s32 [of v] by simp
  then have "unat (int_abs v) < 10 ^ 10" by (simp add: uint_int_abs unat_eq_nat_uint)
  then have "length (print_nat (unat (int_abs v))) \<le> 10" by (rule length_print_nat) simp
  then show ?thesis using assms by (simp add: conv_text_def)
qed

lemma dointvec_conv_reads: "do_proc_dointvec_conv n l v False = (0, sint v < 0, int_abs v, v)"
  by (simp add: do_proc_dointvec_conv_def int_lval_abs)

lemma int_conv_roundtrip_dointvec:
  assumes "integer_parser parse"
  shows "int_conv_roundtrip do_proc_dointvec_conv (\<lambda>v. True) parse 11"
proof (intro int_conv_roundtrip.intro int_conv_roundtrip_axioms.intro int_cell_conv.intro assms)
  show "(11::nat) < TMPBUFLEN - 1" by (simp add: TMPBUFLEN_def)
  show "\<exists>neg lval. do_proc_dointvec_conv False 0 v False = (0, neg, lval, v)
      \<and> length (conv_text do_proc_dointvec_conv v) \<le> 11
      \<and> (\<forall>old. True \<longrightarrow> (\<exists>n l. do_proc_dointvec_conv neg lval old True = (0, n, l, v)))" for v
    using dointvec_conv_reads dointvec_conv_restores length_dointvec_text [of do_proc_dointvec_conv v] by blast
qed

interpretation intvec: int_conv_roundtrip do_proc_dointvec_conv "\<lambda>v. True" kstrtox_parse 11
  by (rule int_conv_roundtrip_dointvec) (rule integer_parser_kstrtox)

text \<open>The range of a bounded entry.\<close>

definition in_range :: "s32 option \<Rightarrow> s32 option \<Rightarrow> s32 \<Rightarrow> bool" where
  "in_range mn mx v = ((case mn of None \<Rightarrow> True | Some m \<Rightarrow> sint m \<le> sint v)
     \<and> (case mx of None \<Rightarrow> True | Some m \<Rightarrow> sint v \<le> sint m))"

lemma minmax_conv_write:
  "do_proc_dointvec_minmax_conv mn mx neg lval v True =
     (let (ret, n, l, v') = do_proc_dointvec_conv neg lval v True in
      if ret \<noteq> 0 then (ret, n, l, v) else if in_range mn mx v' then (0, n, l, v') else (- EINVAL, n, l, v))"
  by (auto simp: do_proc_dointvec_minmax_conv_def in_range_def Let_def not_less split: option.splits prod.splits)

lemma minmax_conv_reads: "do_proc_dointvec_minmax_conv mn mx n l v False = (0, sint v < 0, int_abs v, v)"
  by (simp add: do_proc_dointvec_minmax_conv_def dointvec_conv_reads)

lemma minmax_conv_ok:
  "in_range mn mx v \<Longrightarrow> do_proc_dointvec_minmax_conv mn mx neg lval v True = (r, n, l, v') \<Longrightarrow> in_range mn mx v'"
  by (auto simp: minmax_conv_write Let_def split: prod.splits if_splits)

lemma minmax_conv_restores:
  "in_range mn mx v \<Longrightarrow> \<exists>n l. do_proc_dointvec_minmax_conv mn mx (sint v < 0) (int_abs v) old True = (0, n, l, v)"
  by (simp add: minmax_conv_write dointvec_conv_restores)

lemma int_cell_conv_minmax: "int_cell_conv (do_proc_dointvec_minmax_conv mn mx) (in_range mn mx)"
  by (rule int_cell_conv.intro) (rule minmax_conv_ok)

lemma int_conv_roundtrip_minmax:
  assumes "integer_parser parse"
  shows "int_conv_roundtrip (do_proc_dointvec_minmax_conv mn mx) (in_range mn mx) parse 11"
proof (intro int_conv_roundtrip.intro int_conv_roundtrip_axioms.intro int_cell_conv_minmax assms)
  show "(11::nat) < TMPBUFLEN - 1" by (simp add: TMPBUFLEN_def)
  show "\<exists>neg lval. do_proc_dointvec_minmax_conv mn mx False 0 v False = (0, neg, lval, v)
      \<and> length (conv_text (do_proc_dointvec_minmax_conv mn mx) v) \<le> 11
      \<and> (\<forall>old. in_range mn mx old \<longrightarrow> (\<exists>n l. do_proc_dointvec_minmax_conv mn mx neg lval old True = (0, n, l, v)))"
    if "in_range mn mx v" for v
    using that minmax_conv_reads [of mn mx _ _ v] minmax_conv_restores
      length_dointvec_text [of "do_proc_dointvec_minmax_conv mn mx" v] by blast
qed

interpretation minmax: int_conv_roundtrip "do_proc_dointvec_minmax_conv mn mx" "in_range mn mx" kstrtox_parse 11
  for mn mx
  by (rule int_conv_roundtrip_minmax) (rule integer_parser_kstrtox)

subsection \<open>Properties\<close>

text \<open>C28. What a reader gets from a vector of ints is a text that, written to any entry of the same size, sets it to
  the same vector: both calls succeed and the whole text is consumed, for every cell value, the most negative
  one included.\<close>

theorem proc_dointvec_roundtrip:
  assumes "integer_parser parse" "ct_data table = Some cells" "cells \<noteq> []" "ct_maxlen table div 4 = length cells"
    and "length old = length cells" "12 * length cells < PAGE_SIZE - 1" "12 * length cells < n"
  shows "\<exists>r r'. proc_dointvec parse mode table (SysRead n) 0 = Inr r \<and> sy_ret r = 0
    \<and> proc_dointvec parse mode (table\<lparr>ct_data := Some old\<rparr>) (SysWrite (sy_out r)) 0 = Inr r'
    \<and> sy_ret r' = 0 \<and> sy_data r' = cells \<and> sy_len r' = length (sy_out r)"
  using int_conv_roundtrip.vector_roundtrip [OF int_conv_roundtrip_dointvec [OF assms(1)], of cells old "ct_maxlen table" n mode]
    assms(2-) by (auto simp: proc_dointvec_def do_proc_dointvec_def)

definition int_table :: "s32 list \<Rightarrow> nat \<Rightarrow> (s32, s32) ctl_table" where
  "int_table cells maxlen = \<lparr>ct_data = Some cells, ct_maxlen = maxlen, ct_extra1 = None, ct_extra2 = None\<rparr>"

theorem proc_dointvec_roundtrip_witness:
  "\<exists>r r'. proc_dointvec kstrtox_parse WRITES_STRICT (int_table [5, - 2147483648] 8) (SysRead 64) 0 = Inr r
    \<and> proc_dointvec kstrtox_parse WRITES_STRICT (int_table [0, 0] 8) (SysWrite (sy_out r)) 0 = Inr r'
    \<and> sy_data r' = [5, - 2147483648]"
  using proc_dointvec_roundtrip [OF integer_parser_kstrtox,
      of "int_table [5, - 2147483648] 8" "[5, - 2147483648]" "[0, 0]" 64 WRITES_STRICT]
  by (auto simp: PAGE_SIZE_def int_table_def)

text \<open>The states a bounded entry goes through: any call, any text, any position, any write mode.\<close>

definition minmax_step :: "parse_integer \<Rightarrow> nat \<Rightarrow> s32 option \<Rightarrow> s32 option \<Rightarrow> s32 list \<Rightarrow> s32 list \<Rightarrow> bool" where
  "minmax_step parse maxlen mn mx cells cells' =
     (\<exists>mode opn ppos r. proc_dointvec_minmax parse mode
        \<lparr>ct_data = Some cells, ct_maxlen = maxlen, ct_extra1 = mn, ct_extra2 = mx\<rparr> opn ppos = Inr r \<and> sy_data r = cells')"

interpretation bounded: transition_system "\<lambda>cells. \<forall>v \<in> set cells. in_range mn mx v" "minmax_step parse maxlen mn mx"
    "\<lambda>cells. \<forall>v \<in> set cells. in_range mn mx v"
  for parse maxlen mn mx
proof
  show "\<forall>v \<in> set t. in_range mn mx v" if "\<forall>v \<in> set s. in_range mn mx v" "minmax_step parse maxlen mn mx s t" for s t
    using that int_cell_conv.handler_ok [OF int_cell_conv_minmax]
    by (fastforce simp: minmax_step_def proc_dointvec_minmax_def do_proc_dointvec_def)
qed

text \<open>A bounded entry whose cells are in range keeps every cell in range through any sequence of calls, failed
  writes included, whatever texts are written, at any position and in any write mode, and whatever the digit
  reader answers.\<close>

lemma proc_dointvec_minmax_in_range:
  assumes "\<forall>v \<in> set s. in_range mn mx v" "run_of (minmax_step parse maxlen mn mx) s t"
  shows "\<forall>v \<in> set t. in_range mn mx v"
  using bounded.reachable_inv [OF assms] .

theorem proc_dointvec_minmax_in_range_witness:
  "run_of (minmax_step kstrtox_parse 4 (Some 0) (Some 100)) [7] [9] \<and> in_range (Some 0) (Some 100) 9"
proof -
  have "minmax_step kstrtox_parse 4 (Some 0) (Some 100) [7] [9]"
    using minmax.vector_roundtrip [of "[9]" "Some 0" "Some 100" "[7]" 4 64 WRITES_STRICT]
    by (fastforce simp: minmax_step_def proc_dointvec_minmax_def do_proc_dointvec_def in_range_def PAGE_SIZE_def)
  then have r: "run_of (minmax_step kstrtox_parse 4 (Some 0) (Some 100)) [7] [9]" by (rule run_step [OF run_refl])
  have "\<forall>v \<in> set [7 :: s32]. in_range (Some 0) (Some 100) v" by (simp add: in_range_def)
  then have "\<forall>v \<in> set [9]. in_range (Some 0) (Some 100) v" using proc_dointvec_minmax_in_range [OF _ r] by blast
  then have "in_range (Some 0) (Some 100) 9" by (rule bspec) (rule list.set_intros)
  with r show ?thesis ..
qed

end
