(* ===== verification/Sysctl_Handlers.thy ===== *)
theory Sysctl_Handlers
  imports Sysctl_Vec
begin

text \<open>
  The rest of the numeric handlers of \<^verbatim>\<open>kernel/sysctl.c\<close>: single unsigned ints and their byte and pipe-size
  variants, vectors of unsigned long with a unit conversion, and the handlers with a policy of their own
  (taint flags, the two BPF switches, sysrq, the Ctrl-Alt-Del pid, the core dump settings). Kernel services
  of other files (pipe rounding, taint flags, static keys, pid lookup) are parameters.
\<close>

definition ESRCH :: int where "ESRCH = 3"

subsection \<open>Unsigned ints\<close>

type_synonym uint_conv = "u64 \<Rightarrow> u32 \<Rightarrow> bool \<Rightarrow> int \<times> u64 \<times> u32"

definition do_proc_douintvec_conv :: uint_conv where
  "do_proc_douintvec_conv lval valp wr =
     (if wr then if UINT_MAX < unat lval then (- EINVAL, lval, valp) else (0, lval, ucast lval)
      else (0, ucast valp, valp))"

definition do_proc_douintvec_minmax_conv :: "u32 option \<Rightarrow> u32 option \<Rightarrow> uint_conv" where
  "do_proc_douintvec_minmax_conv mn mx lval valp wr =
     (let (ret, lval', up) = do_proc_douintvec_conv lval valp wr in
      if ret \<noteq> 0 then (ret, lval', valp)
      else if wr then
        if (case mn of None \<Rightarrow> False | Some m \<Rightarrow> up < m) \<or> (case mx of None \<Rightarrow> False | Some m \<Rightarrow> m < up)
        then (- ERANGE, lval', valp)
        else (0, lval', up)
      else (0, lval', valp))"

definition do_proc_dopipe_max_size_conv :: "(u64 \<Rightarrow> u32) \<Rightarrow> uint_conv" where
  "do_proc_dopipe_max_size_conv round_pipe_size lval valp wr =
     (if wr then
        let val = round_pipe_size lval in
        if val = 0 then (- EINVAL, lval, valp) else (0, lval, val)
      else (0, ucast valp, valp))"

text \<open>A write consumes nothing in the caller's eyes: neither the length nor the position moves on success.\<close>

definition do_proc_douintvec_w ::
    "parse_integer \<Rightarrow> writes_mode \<Rightarrow> u32 \<Rightarrow> string \<Rightarrow> int \<Rightarrow> uint_conv \<Rightarrow> u32 sysctl_res" where
  "do_proc_douintvec_w parse mode val text ppos conv =
     (if proc_first_pos_non_zero_ignore mode ppos
      then \<lparr>sy_ret = 0, sy_len = length text, sy_pos = ppos + int (length text), sy_data = val, sy_out = []\<rparr>
      else
        let p = proc_skip_spaces (take (PAGE_SIZE - 1) text);
            fail = (\<lambda>v. \<lparr>sy_ret = - EINVAL, sy_len = length text, sy_pos = ppos, sy_data = v, sy_out = []\<rparr>) in
        if p = [] then fail val
        else case proc_get_long parse proc_wspace_sep p of
          Inl e \<Rightarrow> fail val
        | Inr (lval, neg, tr, p) \<Rightarrow>
            if neg then fail val
            else
              let (ret, lval, v) = conv lval val True in
              if ret \<noteq> 0 then fail v
              else \<lparr>sy_ret = 0, sy_len = length text, sy_pos = ppos, sy_data = v, sy_out = []\<rparr>)"

definition do_proc_douintvec_r :: "u32 \<Rightarrow> nat \<Rightarrow> int \<Rightarrow> uint_conv \<Rightarrow> u32 sysctl_res" where
  "do_proc_douintvec_r val n ppos conv =
     (let (ret, lval, v) = conv 0 val False in
      if ret \<noteq> 0 then \<lparr>sy_ret = - EINVAL, sy_len = 0, sy_pos = ppos, sy_data = v, sy_out = []\<rparr>
      else
        let o' = proc_put_long lval False ([], n);
            o' = (if snd o' = 0 then o' else proc_put_char NL o') in
        \<lparr>sy_ret = 0, sy_len = n - snd o', sy_pos = ppos + int (n - snd o'), sy_data = v, sy_out = fst o'\<rparr>)"

text \<open>The data of the entry is one cell; the maximum length says how many the table claims.\<close>

definition u_do_proc_douintvec ::
    "parse_integer \<Rightarrow> writes_mode \<Rightarrow> u32 option \<Rightarrow> nat \<Rightarrow> sysctl_op \<Rightarrow> int \<Rightarrow> uint_conv \<Rightarrow> u32 sysctl_res" where
  "u_do_proc_douintvec parse mode tbl_data maxlen opn ppos conv =
     (case tbl_data of
        None \<Rightarrow> \<lparr>sy_ret = 0, sy_len = 0, sy_pos = ppos, sy_data = 0, sy_out = []\<rparr>
      | Some val \<Rightarrow>
          if maxlen = 0 \<or> op_len opn = 0 \<or> (ppos \<noteq> 0 \<and> \<not> is_write opn)
          then \<lparr>sy_ret = 0, sy_len = 0, sy_pos = ppos, sy_data = val, sy_out = []\<rparr>
          else if maxlen div 4 \<noteq> 1
          then \<lparr>sy_ret = - EINVAL, sy_len = 0, sy_pos = ppos, sy_data = val, sy_out = []\<rparr>
          else case opn of
            SysWrite text \<Rightarrow> do_proc_douintvec_w parse mode val text ppos conv
          | SysRead n \<Rightarrow> do_proc_douintvec_r val n ppos conv)"

definition do_proc_douintvec ::
    "parse_integer \<Rightarrow> writes_mode \<Rightarrow> u32 option \<Rightarrow> nat \<Rightarrow> sysctl_op \<Rightarrow> int \<Rightarrow> uint_conv \<Rightarrow> u32 sysctl_res" where
  "do_proc_douintvec parse mode tbl_data maxlen opn ppos conv = u_do_proc_douintvec parse mode tbl_data maxlen opn ppos conv"

definition proc_douintvec :: "parse_integer \<Rightarrow> writes_mode \<Rightarrow> u32 option \<Rightarrow> nat \<Rightarrow> sysctl_op \<Rightarrow> int \<Rightarrow> u32 sysctl_res" where
  "proc_douintvec parse mode tbl_data maxlen opn ppos =
     do_proc_douintvec parse mode tbl_data maxlen opn ppos do_proc_douintvec_conv"

definition proc_douintvec_minmax ::
    "parse_integer \<Rightarrow> writes_mode \<Rightarrow> u32 option \<Rightarrow> nat \<Rightarrow> u32 option \<Rightarrow> u32 option \<Rightarrow> sysctl_op \<Rightarrow> int \<Rightarrow> u32 sysctl_res" where
  "proc_douintvec_minmax parse mode tbl_data maxlen extra1 extra2 opn ppos =
     do_proc_douintvec parse mode tbl_data maxlen opn ppos (do_proc_douintvec_minmax_conv extra1 extra2)"

definition proc_dopipe_max_size ::
    "(u64 \<Rightarrow> u32) \<Rightarrow> parse_integer \<Rightarrow> writes_mode \<Rightarrow> u32 option \<Rightarrow> nat \<Rightarrow> sysctl_op \<Rightarrow> int \<Rightarrow> u32 sysctl_res" where
  "proc_dopipe_max_size round_pipe_size parse mode tbl_data maxlen opn ppos =
     do_proc_douintvec parse mode tbl_data maxlen opn ppos (do_proc_dopipe_max_size_conv round_pipe_size)"

text \<open>One byte, checked through a temporary unsigned int; the bounds default to the whole byte.\<close>

definition proc_dou8vec_minmax ::
    "parse_integer \<Rightarrow> writes_mode \<Rightarrow> u8 \<Rightarrow> nat \<Rightarrow> u32 option \<Rightarrow> u32 option \<Rightarrow> sysctl_op \<Rightarrow> int \<Rightarrow> u8 sysctl_res" where
  "proc_dou8vec_minmax parse mode data maxlen extra1 extra2 opn ppos =
     (let bad = \<lparr>sy_ret = - EINVAL, sy_len = op_len opn, sy_pos = ppos, sy_data = data, sy_out = []\<rparr>;
          mn = (case extra1 of None \<Rightarrow> 0 | Some m \<Rightarrow> m);
          mx = (case extra2 of None \<Rightarrow> 255 | Some m \<Rightarrow> m) in
      if maxlen \<noteq> 1 then bad
      else if 255 < mn then bad
      else if 255 < mx then bad
      else
        let res = do_proc_douintvec parse mode (Some (ucast data)) 4 opn ppos (do_proc_douintvec_minmax_conv (Some mn) (Some mx)) in
        \<lparr>sy_ret = sy_ret res, sy_len = sy_len res, sy_pos = sy_pos res,
         sy_data = (if sy_ret res = 0 \<and> is_write opn then ucast (sy_data res) else data), sy_out = sy_out res\<rparr>)"

subsection \<open>Vectors of unsigned long\<close>

text \<open>A negative number is read and skipped: its cell stays and the call goes on.\<close>

fun ulongvec_write ::
    "parse_integer \<Rightarrow> u64 option \<Rightarrow> u64 option \<Rightarrow> u64 \<Rightarrow> u64 \<Rightarrow> nat \<Rightarrow> nat \<Rightarrow> string \<Rightarrow> u64 list \<Rightarrow> (int \<times> bool \<times> string \<times> u64 list) kres" where
  "ulongvec_write parse mn mx convmul convdiv 0 i p cells = Inr (0, i = 0, p, cells)"
| "ulongvec_write parse mn mx convmul convdiv (Suc vleft) i p cells =
     (if p = [] then Inr (0, i = 0, p, cells)
      else
        let p = proc_skip_spaces p in
        if p = [] then Inr (0, i = 0, p, cells)
        else case proc_get_long parse proc_wspace_sep p of
          Inl err \<Rightarrow> Inr (err, i = 0, p, cells)
        | Inr (lval, neg, tr, p) \<Rightarrow>
            if neg then ulongvec_write parse mn mx convmul convdiv vleft (Suc i) p cells
            else
              let val = convmul * lval div convdiv in
              if (case mn of None \<Rightarrow> False | Some m \<Rightarrow> val < m) \<or> (case mx of None \<Rightarrow> False | Some m \<Rightarrow> m < val)
              then Inr (- EINVAL, i = 0, p, cells)
              else if length cells \<le> i then Inl (IndexOutOfBounds (int i))
              else ulongvec_write parse mn mx convmul convdiv vleft (Suc i) p (cells[i := val]))"

fun ulongvec_read :: "u64 \<Rightarrow> u64 \<Rightarrow> nat \<Rightarrow> nat \<Rightarrow> u64 list \<Rightarrow> string \<times> nat \<Rightarrow> (bool \<times> string \<times> nat) kres" where
  "ulongvec_read convmul convdiv 0 i cells o' = Inr (i = 0, o')"
| "ulongvec_read convmul convdiv (Suc vleft) i cells o' =
     (if snd o' = 0 then Inr (i = 0, o')
      else if length cells \<le> i then Inl (IndexOutOfBounds (int i))
      else
        let val = convdiv * (cells ! i) div convmul;
            o' = (if i \<noteq> 0 then proc_put_char TAB o' else o') in
        ulongvec_read convmul convdiv vleft (Suc i) cells (proc_put_long val False o'))"

definition u_do_proc_doulongvec_minmax ::
    "parse_integer \<Rightarrow> writes_mode \<Rightarrow> (u64, u64) ctl_table \<Rightarrow> sysctl_op \<Rightarrow> int \<Rightarrow> u64 \<Rightarrow> u64 \<Rightarrow> u64 list sysctl_res kres" where
  "u_do_proc_doulongvec_minmax parse mode table opn ppos convmul convdiv =
     (case ct_data table of
        None \<Rightarrow> Inr \<lparr>sy_ret = 0, sy_len = 0, sy_pos = ppos, sy_data = [], sy_out = []\<rparr>
      | Some cells \<Rightarrow>
          if ct_maxlen table = 0 \<or> op_len opn = 0 \<or> (ppos \<noteq> 0 \<and> \<not> is_write opn)
          then Inr \<lparr>sy_ret = 0, sy_len = 0, sy_pos = ppos, sy_data = cells, sy_out = []\<rparr>
          else
            let vleft = ct_maxlen table div 8 in
            case opn of
              SysWrite text \<Rightarrow>
                if proc_first_pos_non_zero_ignore mode ppos
                then Inr \<lparr>sy_ret = 0, sy_len = length text, sy_pos = ppos + int (length text), sy_data = cells, sy_out = []\<rparr>
                else
                  kbind (ulongvec_write parse (ct_extra1 table) (ct_extra2 table) convmul convdiv vleft 0
                           (take (PAGE_SIZE - 1) text) cells) (\<lambda>(err, first, p, cells).
                  let p = (if err = 0 then proc_skip_spaces p else p) in
                  if first
                  then Inr \<lparr>sy_ret = (if err \<noteq> 0 then err else - EINVAL), sy_len = length text, sy_pos = ppos,
                            sy_data = cells, sy_out = []\<rparr>
                  else Inr \<lparr>sy_ret = err, sy_len = length text - length p, sy_pos = ppos + int (length text - length p),
                            sy_data = cells, sy_out = []\<rparr>)
            | SysRead n \<Rightarrow>
                kbind (ulongvec_read convmul convdiv vleft 0 cells ([], n)) (\<lambda>(first, o').
                let o' = (if \<not> first \<and> snd o' \<noteq> 0 then proc_put_char NL o' else o') in
                Inr \<lparr>sy_ret = 0, sy_len = n - snd o', sy_pos = ppos + int (n - snd o'), sy_data = cells, sy_out = fst o'\<rparr>))"

definition do_proc_doulongvec_minmax ::
    "parse_integer \<Rightarrow> writes_mode \<Rightarrow> (u64, u64) ctl_table \<Rightarrow> sysctl_op \<Rightarrow> int \<Rightarrow> u64 \<Rightarrow> u64 \<Rightarrow> u64 list sysctl_res kres" where
  "do_proc_doulongvec_minmax parse mode table opn ppos convmul convdiv =
     u_do_proc_doulongvec_minmax parse mode table opn ppos convmul convdiv"

definition proc_doulongvec_minmax :: "parse_integer \<Rightarrow> writes_mode \<Rightarrow> (u64, u64) ctl_table \<Rightarrow> sysctl_op \<Rightarrow> int \<Rightarrow> u64 list sysctl_res kres" where
  "proc_doulongvec_minmax parse mode table opn ppos = do_proc_doulongvec_minmax parse mode table opn ppos 1 1"

definition proc_doulongvec_ms_jiffies_minmax ::
    "u64 \<Rightarrow> parse_integer \<Rightarrow> writes_mode \<Rightarrow> (u64, u64) ctl_table \<Rightarrow> sysctl_op \<Rightarrow> int \<Rightarrow> u64 list sysctl_res kres" where
  "proc_doulongvec_ms_jiffies_minmax HZ parse mode table opn ppos = do_proc_doulongvec_minmax parse mode table opn ppos HZ 1000"

subsection \<open>Handlers with a policy\<close>

text \<open>A handler on a local copy gives the result of the vector handler with other data.\<close>

definition with_data :: "'c sysctl_res \<Rightarrow> 'd \<Rightarrow> 'd sysctl_res" where
  "with_data r d = \<lparr>sy_ret = sy_ret r, sy_len = sy_len r, sy_pos = sy_pos r, sy_data = d, sy_out = sy_out r\<rparr>"

definition refused :: "int \<Rightarrow> sysctl_op \<Rightarrow> int \<Rightarrow> 'd \<Rightarrow> 'd sysctl_res" where
  "refused e opn ppos d = \<lparr>sy_ret = e, sy_len = op_len opn, sy_pos = ppos, sy_data = d, sy_out = []\<rparr>"

text \<open>The reference count of the static key and the value last set through the entry.\<close>

definition bpf_stats_handler ::
    "('k \<Rightarrow> 'k) \<Rightarrow> ('k \<Rightarrow> 'k) \<Rightarrow> bool \<Rightarrow> parse_integer \<Rightarrow> writes_mode \<Rightarrow> s32 \<times> 'k \<Rightarrow> sysctl_op \<Rightarrow> int \<Rightarrow> (s32 \<times> 'k) sysctl_res kres" where
  "bpf_stats_handler static_key_slow_inc static_key_slow_dec cap_sys_admin parse mode st opn ppos =
     (let (saved_val, akey) = st in
      if is_write opn \<and> \<not> cap_sys_admin then Inr (refused (- EPERM) opn ppos st)
      else
        kbind (proc_dointvec_minmax parse mode
                 \<lparr>ct_data = Some [saved_val], ct_maxlen = 4, ct_extra1 = Some 0, ct_extra2 = Some 1\<rparr> opn ppos) (\<lambda>r.
        let val = sy_data r ! 0 in
        if is_write opn \<and> sy_ret r = 0 \<and> val \<noteq> saved_val
        then Inr (with_data r (val, if val \<noteq> 0 then static_key_slow_inc akey else static_key_slow_dec akey))
        else Inr (with_data r st)))"

text \<open>The switch that turns unprivileged BPF off, and the value passed to \<^verbatim>\<open>unpriv_ebpf_notify\<close>, if any.\<close>

definition bpf_unpriv_handler ::
    "bool \<Rightarrow> parse_integer \<Rightarrow> writes_mode \<Rightarrow> s32 \<Rightarrow> s32 option \<Rightarrow> s32 option \<Rightarrow> sysctl_op \<Rightarrow> int \<Rightarrow> (s32 \<times> s32 option) sysctl_res kres" where
  "bpf_unpriv_handler cap_sys_admin parse mode data extra1 extra2 opn ppos =
     (if is_write opn \<and> \<not> cap_sys_admin then Inr (refused (- EPERM) opn ppos (data, None))
      else
        kbind (proc_dointvec_minmax parse mode
                 \<lparr>ct_data = Some [data], ct_maxlen = 4, ct_extra1 = extra1, ct_extra2 = extra2\<rparr> opn ppos) (\<lambda>r.
        let unpriv_enable = sy_data r ! 0 in
        if is_write opn \<and> sy_ret r = 0 then
          if data = 1 \<and> unpriv_enable \<noteq> 1 then Inr ((with_data r (data, None))\<lparr>sy_ret := - EPERM\<rparr>)
          else Inr (with_data r (unpriv_enable, Some unpriv_enable))
        else Inr (with_data r (data, Some unpriv_enable))))"

text \<open>Taint flags live elsewhere: \<open>get_taint\<close> and \<open>add_taint\<close> act on their state.\<close>

definition proc_taint ::
    "('t \<Rightarrow> u64) \<Rightarrow> (nat \<Rightarrow> 't \<Rightarrow> 't) \<Rightarrow> nat \<Rightarrow> bool \<Rightarrow> u64 \<Rightarrow> bool \<Rightarrow> parse_integer \<Rightarrow> writes_mode \<Rightarrow>
     u64 option \<times> u64 option \<Rightarrow> 't \<Rightarrow> sysctl_op \<Rightarrow> int \<Rightarrow> 't sysctl_res kres" where
  "proc_taint get_taint add_taint TAINT_FLAGS_COUNT panic_on_taint_nousertaint panic_on_taint cap_sys_admin parse mode bounds st opn ppos =
     (if is_write opn \<and> \<not> cap_sys_admin then Inr (refused (- EPERM) opn ppos st)
      else
        kbind (proc_doulongvec_minmax parse mode
                 \<lparr>ct_data = Some [get_taint st], ct_maxlen = 8, ct_extra1 = fst bounds, ct_extra2 = snd bounds\<rparr> opn ppos) (\<lambda>r.
        if sy_ret r < 0 then Inr (with_data r st)
        else if is_write opn then
          let tmptaint = sy_data r ! 0 in
          if panic_on_taint_nousertaint \<and> tmptaint AND panic_on_taint \<noteq> 0
          then Inr ((with_data r st)\<lparr>sy_ret := - EINVAL\<rparr>)
          else Inr (with_data r (fold (\<lambda>i s. if push_bit i 1 AND tmptaint \<noteq> 0 then add_taint i s else s) [0..<TAINT_FLAGS_COUNT] st))
        else Inr (with_data r st)))"

text \<open>Whether the core dump settings are reported as unsafe.\<close>

definition validate_coredump_safety :: "int \<Rightarrow> string \<Rightarrow> bool" where
  "validate_coredump_safety suid_dumpable core_pattern =
     (suid_dumpable = 2 \<and> (core_pattern @ [NUL]) ! 0 \<noteq> CHR ''/'' \<and> (core_pattern @ [NUL]) ! 0 \<noteq> CHR ''|'')"

definition proc_dointvec_minmax_coredump ::
    "parse_integer \<Rightarrow> writes_mode \<Rightarrow> s32 \<Rightarrow> nat \<Rightarrow> s32 option \<Rightarrow> s32 option \<Rightarrow> string \<Rightarrow> sysctl_op \<Rightarrow> int \<Rightarrow> (s32 sysctl_res \<times> bool) kres" where
  "proc_dointvec_minmax_coredump parse mode suid_dumpable maxlen extra1 extra2 core_pattern opn ppos =
     kbind (proc_dointvec_minmax parse mode
              \<lparr>ct_data = Some [suid_dumpable], ct_maxlen = maxlen, ct_extra1 = extra1, ct_extra2 = extra2\<rparr> opn ppos) (\<lambda>r.
     Inr (with_data r (sy_data r ! 0), sy_ret r = 0 \<and> validate_coredump_safety (sint (sy_data r ! 0)) core_pattern))"

definition proc_dostring_coredump ::
    "writes_mode \<Rightarrow> string \<Rightarrow> nat \<Rightarrow> int \<Rightarrow> sysctl_op \<Rightarrow> int \<Rightarrow> (string sysctl_res \<times> bool) kres" where
  "proc_dostring_coredump mode core_pattern maxlen suid_dumpable opn ppos =
     kbind (proc_dostring mode (Some core_pattern) maxlen opn ppos) (\<lambda>r.
     Inr (r, sy_ret r = 0 \<and> validate_coredump_safety suid_dumpable (sy_data r)))"

definition sysrq_sysctl_handler ::
    "('q \<Rightarrow> s32) \<Rightarrow> (s32 \<Rightarrow> 'q \<Rightarrow> 'q) \<Rightarrow> parse_integer \<Rightarrow> writes_mode \<Rightarrow> nat \<Rightarrow> 'q \<Rightarrow> sysctl_op \<Rightarrow> int \<Rightarrow> 'q sysctl_res kres" where
  "sysrq_sysctl_handler sysrq_mask sysrq_toggle_support parse mode maxlen st opn ppos =
     kbind (u_do_proc_dointvec parse mode (Some [sysrq_mask st]) maxlen opn ppos do_proc_dointvec_conv) (\<lambda>r.
     if sy_ret r \<noteq> 0 \<or> \<not> is_write opn then Inr (with_data r st)
     else Inr (with_data r (sysrq_toggle_support (sy_data r ! 0) st)))"

definition proc_do_cad_pid ::
    "('p \<Rightarrow> s32) \<Rightarrow> (s32 \<Rightarrow> 'p option) \<Rightarrow> parse_integer \<Rightarrow> writes_mode \<Rightarrow> nat \<Rightarrow> 'p \<Rightarrow> sysctl_op \<Rightarrow> int \<Rightarrow> 'p sysctl_res kres" where
  "proc_do_cad_pid pid_vnr find_get_pid parse mode maxlen cad_pid opn ppos =
     kbind (u_do_proc_dointvec parse mode (Some [pid_vnr cad_pid]) maxlen opn ppos do_proc_dointvec_conv) (\<lambda>r.
     if sy_ret r \<noteq> 0 \<or> \<not> is_write opn then Inr (with_data r cad_pid)
     else case find_get_pid (sy_data r ! 0) of
       None \<Rightarrow> Inr ((with_data r cad_pid)\<lparr>sy_ret := - ESRCH\<rparr>)
     | Some new_pid \<Rightarrow> Inr (with_data r new_pid))"

text \<open>The warning of the real-time variant: the value changed.\<close>

definition proc_dointvec_minmax_warn_RT_change ::
    "bool \<Rightarrow> parse_integer \<Rightarrow> writes_mode \<Rightarrow> (s32, s32) ctl_table \<Rightarrow> sysctl_op \<Rightarrow> int \<Rightarrow> (s32 list sysctl_res \<times> bool) kres" where
  "proc_dointvec_minmax_warn_RT_change preempt_rt parse mode table opn ppos =
     (if \<not> preempt_rt \<or> \<not> is_write opn then kbind (proc_dointvec_minmax parse mode table opn ppos) (\<lambda>r. Inr (r, False))
      else if table_cells table = [] then Inl NullDereference
      else
        let old = table_cells table ! 0 in
        kbind (proc_dointvec_minmax parse mode table opn ppos) (\<lambda>r.
        Inr (r, sy_ret r = 0 \<and> old \<noteq> sy_data r ! 0)))"

subsection \<open>Bounds of unsigned entries\<close>

definition uint_in_range :: "u32 option \<Rightarrow> u32 option \<Rightarrow> nat \<Rightarrow> bool" where
  "uint_in_range mn mx n = (n \<le> UINT_MAX \<and> (case mn of None \<Rightarrow> True | Some m \<Rightarrow> unat m \<le> n)
     \<and> (case mx of None \<Rightarrow> True | Some m \<Rightarrow> n \<le> unat m))"

lemma uint_minmax_conv_write:
  assumes n: "n < 2 ^ 64"
  shows "do_proc_douintvec_minmax_conv mn mx (of_nat n) v True =
    (if uint_in_range mn mx n then (0, of_nat n, of_nat n)
     else (if n \<le> UINT_MAX then - ERANGE else - EINVAL, of_nat n, v))"
proof (cases "n \<le> UINT_MAX")
  case True
  have u: "unat (of_nat n :: u64) = n" using n by (simp add: unat_of_nat take_bit_nat_eq_self)
  have u32: "unat (of_nat n :: u32) = n" using True by (simp add: UINT_MAX_def unat_of_nat take_bit_nat_eq_self)
  have "(ucast (of_nat n :: u64) :: u32) = of_nat n" 
    using True unfolding word_unat_eq_iff unsigned_ucast_eq u u32 by (simp add: UINT_MAX_def take_bit_nat_eq_self)
  then show ?thesis using True u u32
    by (auto simp: do_proc_douintvec_minmax_conv_def do_proc_douintvec_conv_def uint_in_range_def word_less_nat_alt errno_defs
        split: option.splits)
next
  case False
  have u: "unat (of_nat n :: u64) = n" using n by (simp add: unat_of_nat take_bit_nat_eq_self)
  show ?thesis using False u
    by (simp add: do_proc_douintvec_minmax_conv_def do_proc_douintvec_conv_def uint_in_range_def errno_defs)
qed

text \<open>The decimal text of a 64-bit number is read whole.\<close>

lemma length_print_u64: "n < 2 ^ 64 \<Longrightarrow> length (print_nat n) \<le> 20"
  by (rule length_print_nat) simp_all

lemma skip_spaces_number: "proc_skip_spaces (print_nat n @ rest) = print_nat n @ rest"
proof -
  obtain d ds where p: "print_nat n = d # ds" by (cases "print_nat n") auto
  have "\<not> isspace d" using digit_not_special print_nat_digits [of d n] p by simp
  then show ?thesis using p by (simp add: proc_skip_spaces_def)
qed

lemma get_long_line:
  assumes "integer_parser parse" "n < 2 ^ 64"
  shows "proc_get_long parse proc_wspace_sep (print_nat n @ [NL]) = Inr (of_nat n, False, Some NL, [NL])"
  using integer_parser.proc_get_long_number [OF assms, of NL proc_wspace_sep False "[]"] length_print_u64 [OF assms(2)]
  by (simp add: TMPBUFLEN_def NL_def proc_wspace_sep_def digit_val_def)

text \<open>Writing a decimal number to a bounded unsigned entry stores it exactly when it fits 32 bits and the
  bounds, and otherwise leaves the entry and returns \<^verbatim>\<open>-EINVAL\<close>, also when the range check fails, where the
  documentation of the handler promises \<^verbatim>\<open>-ERANGE\<close>.\<close>

lemma proc_douintvec_minmax_decimal:
  assumes "integer_parser parse" "n < 2 ^ 64"
  shows "proc_douintvec_minmax parse mode (Some v) 4 mn mx (SysWrite (print_nat n @ [NL])) 0 =
    (if uint_in_range mn mx n
     then \<lparr>sy_ret = 0, sy_len = length (print_nat n) + 1, sy_pos = 0, sy_data = of_nat n, sy_out = []\<rparr>
     else \<lparr>sy_ret = - EINVAL, sy_len = length (print_nat n) + 1, sy_pos = 0, sy_data = v, sy_out = []\<rparr>)"
proof -
  have t: "take (PAGE_SIZE - 1) (print_nat n @ [NL]) = print_nat n @ [NL]"
    using length_print_u64 [OF assms(2)] by (intro take_all) (simp add: PAGE_SIZE_def)
  show ?thesis
    unfolding proc_douintvec_minmax_def do_proc_douintvec_def u_do_proc_douintvec_def do_proc_douintvec_w_def
      option.case sysctl_op.case t skip_spaces_number
    by (simp add: get_long_line [OF assms] uint_minmax_conv_write [OF assms(2)] proc_first_pos_non_zero_ignore_def errno_defs Let_def)
qed

theorem proc_douintvec_minmax_decimal_witness:
  "proc_douintvec_minmax kstrtox_parse WRITES_STRICT (Some 7) 4 (Some 1) (Some 100) (SysWrite (print_nat 500 @ [NL])) 0 =
    \<lparr>sy_ret = - EINVAL, sy_len = length (print_nat 500) + 1, sy_pos = 0, sy_data = 7, sy_out = []\<rparr>"
  using proc_douintvec_minmax_decimal [OF integer_parser_kstrtox, of 500 WRITES_STRICT 7 "Some 1" "Some 100"]
  by (simp add: uint_in_range_def UINT_MAX_def)

subsection \<open>Policies\<close>

lemma minmax_one_cell:
  "proc_dointvec_minmax parse mode \<lparr>ct_data = Some [v], ct_maxlen = m, ct_extra1 = a, ct_extra2 = b\<rparr> opn ppos = Inr r \<Longrightarrow>
   \<exists>u. sy_data r = [u]"
  using int_cell_conv.handler_ok [of "do_proc_dointvec_minmax_conv a b" "\<lambda>v. True" parse mode "[v]" m opn ppos r]
  by (auto simp: proc_dointvec_minmax_def do_proc_dointvec_def length_Suc_conv int_cell_conv_def)

text \<open>A call that does not succeed leaves a single cell as it is.\<close>

lemma minmax_conv_fail: "do_proc_dointvec_minmax_conv a b neg lval v True = (r, n, l, u) \<Longrightarrow> r \<noteq> 0 \<Longrightarrow> u = v"
  by (auto simp: minmax_conv_write Let_def split: prod.splits if_splits)

lemma minmax_write_one_fail:
  assumes "intvec_write parse (do_proc_dointvec_minmax_conv a b) n 0 p [v] = Inr (err, first, p', cells)"
    "err \<noteq> 0 \<or> first" "n \<le> 1"
  shows "cells = [v]"
proof (cases n)
  case (Suc m)
  then have n: "n = Suc 0" using assms(3) by simp
  show ?thesis
  proof (cases rule: intvec_write_cases [where p = p and parse = parse and conv = "do_proc_dointvec_minmax_conv a b" and cell = "[v] ! 0"])
    case Stop
    then show ?thesis using assms(1) n by (simp add: intvec_write_stop)
  next
    case (Reject e)
    then show ?thesis using assms(1) n by (simp add: intvec_write_reject)
  next
    case (Number lval neg tr q r ng l u)
    note w = assms(1) [unfolded n intvec_write_number [where conv = "do_proc_dointvec_minmax_conv a b", OF Number]]
    show ?thesis using w assms(2) minmax_conv_fail [OF Number(3)] by (cases "r = 0") auto
  qed
qed (use assms in simp)

lemma minmax_one_cell_fail:
  assumes "proc_dointvec_minmax parse mode \<lparr>ct_data = Some [v], ct_maxlen = 4, ct_extra1 = a, ct_extra2 = b\<rparr> opn ppos = Inr r"
    "sy_ret r \<noteq> 0 \<or> \<not> is_write opn"
  shows "sy_data r = [v]"
proof (cases opn)
  case (SysWrite tx)
  then show ?thesis using assms minmax_write_one_fail [of parse a b 1 _ v]
    by (auto simp: proc_dointvec_minmax_def do_proc_dointvec_def u_do_proc_dointvec_def Let_def EINVAL_def split: if_splits)
next
  case (SysRead n)
  then show ?thesis using assms
    by (auto simp: proc_dointvec_minmax_def do_proc_dointvec_def u_do_proc_dointvec_def Let_def split: if_splits)
qed

text \<open>Once unprivileged BPF is disabled for good (value 1) no call changes it: every write of another value
  fails with \<^verbatim>\<open>-EPERM\<close> and nobody is notified, whoever writes, in any mode and at any position.\<close>

lemma bpf_unpriv_stays_locked:
  assumes "bpf_unpriv_handler cap parse mode 1 extra1 extra2 opn ppos = Inr r"
  shows "fst (sy_data r) = 1 \<and> snd (sy_data r) \<in> {None, Some 1} \<and> (snd (sy_data r) = None \<longrightarrow> sy_ret r = - EPERM)"
proof (cases "is_write opn \<and> \<not> cap")
  case True
  then show ?thesis using assms by (auto simp: bpf_unpriv_handler_def refused_def)
next
  case False
  then obtain q where q: "proc_dointvec_minmax parse mode
      \<lparr>ct_data = Some [1], ct_maxlen = 4, ct_extra1 = extra1, ct_extra2 = extra2\<rparr> opn ppos = Inr q"
    using assms by (auto simp: bpf_unpriv_handler_def)
  show ?thesis
  proof (cases "is_write opn \<and> sy_ret q = 0")
    case True
    then show ?thesis using assms False q by (auto simp: bpf_unpriv_handler_def with_data_def Let_def split: if_splits)
  next
    case fail: False
    then have "sy_data q = [1]" using minmax_one_cell_fail [OF q] by blast
    then show ?thesis using assms False fail q by (auto simp: bpf_unpriv_handler_def with_data_def Let_def)
  qed
qed

theorem bpf_unpriv_stays_locked_witness:
  "\<exists>t r. bpf_unpriv_handler True kstrtox_parse WRITES_STRICT 1 (Some 0) (Some 2) (SysWrite t) 0 = Inr r
    \<and> fst (sy_data r) = 1 \<and> sy_ret r = - EPERM"
proof -
  obtain t where t: "proc_dointvec_minmax kstrtox_parse WRITES_STRICT
      \<lparr>ct_data = Some [1], ct_maxlen = 4, ct_extra1 = Some 0, ct_extra2 = Some 2\<rparr> (SysWrite t) 0 =
      Inr \<lparr>sy_ret = 0, sy_len = length t, sy_pos = int (length t), sy_data = [0], sy_out = []\<rparr>"
    using minmax.vector_roundtrip [of "[0]" "Some 0" "Some 2" "[1]" 4 64 WRITES_STRICT]
    by (auto simp: proc_dointvec_minmax_def do_proc_dointvec_def in_range_def PAGE_SIZE_def)
  then obtain r where r: "bpf_unpriv_handler True kstrtox_parse WRITES_STRICT 1 (Some 0) (Some 2) (SysWrite t) 0 = Inr r"
      "snd (sy_data r) = None"
    by (auto simp: bpf_unpriv_handler_def with_data_def)
  then show ?thesis using bpf_unpriv_stays_locked [OF r(1)] by blast
qed

text \<open>Each flag of the number is added to those already set.\<close>

lemma taint_fold:
  fixes t :: u64
  assumes "\<And>i s. get_taint (add_taint i s) = get_taint s OR push_bit i (1 :: u64)"
  shows "bit (get_taint (fold (\<lambda>i s. if push_bit i 1 AND t \<noteq> 0 then add_taint i s else s) is st)) k \<longleftrightarrow>
    bit (get_taint st) k \<or> (k \<in> set is \<and> bit t k)"
proof (induction "is" arbitrary: st)
  case (Cons i "is")
  have p: "2 ^ i AND t \<noteq> 0 \<longleftrightarrow> bit t i"
    by (simp add: bit_iff_and_push_bit_not_eq_0 and.commute)
  show ?case using Cons.IH [of "add_taint i st"] Cons.IH [of st]
    by (cases "bit t i") (auto simp: p assms bit_simps dest: bit_imp_le_length)
qed simp

lemma proc_get_long_error: "proc_get_long parse perm buf = Inl e \<Longrightarrow> e = - EINVAL"
  by (auto simp: proc_get_long_def Let_def split: if_splits sum.splits prod.splits)

lemma ulongvec_write_error:
  "ulongvec_write parse mn mx mul d n i p cells = Inr (err, first, p', cells') \<Longrightarrow> err = 0 \<or> err = - EINVAL"
proof (induction n arbitrary: i p cells)
  case (Suc n)
  show ?case
  proof (cases "proc_get_long parse proc_wspace_sep (proc_skip_spaces p)")
    case (Inl e)
    then show ?thesis using Suc.prems proc_get_long_error [OF Inl] by (auto simp: Let_def split: if_splits)
  next
    case (Inr t)
    then show ?thesis using Suc by (cases t) (auto simp: Let_def split: if_splits)
  qed
qed simp

lemma proc_doulongvec_minmax_ret:
  assumes "proc_doulongvec_minmax parse mode table opn ppos = Inr r"
  shows "sy_ret r = 0 \<or> sy_ret r = - EINVAL"
proof (cases opn)
  case (SysWrite tx)
  then show ?thesis using assms ulongvec_write_error
    by (fastforce simp: proc_doulongvec_minmax_def do_proc_doulongvec_minmax_def u_do_proc_doulongvec_minmax_def Let_def
        split: if_splits option.splits)
next
  case (SysRead n)
  then show ?thesis using assms
    by (auto simp: proc_doulongvec_minmax_def do_proc_doulongvec_minmax_def u_do_proc_doulongvec_minmax_def Let_def
        split: if_splits option.splits)
qed

text \<open>A call on the taint entry never clears a flag, given that adding a flag keeps the others, and a
  refused call (no privilege, a malformed number, a flag that must not come from user space) changes nothing.\<close>

lemma proc_taint_only_adds:
  assumes "\<And>i s. get_taint (add_taint i s) = get_taint s OR push_bit i (1 :: u64)"
    and "proc_taint get_taint add_taint count nousertaint panic_mask cap parse mode bounds st opn ppos = Inr r"
  shows "get_taint st OR get_taint (sy_data r) = get_taint (sy_data r)
    \<and> (sy_ret r \<noteq> 0 \<or> \<not> is_write opn \<or> \<not> cap \<longrightarrow> sy_data r = st)"
proof (cases "is_write opn \<and> \<not> cap")
  case True
  then show ?thesis using assms(2) by (auto simp: proc_taint_def refused_def)
next
  case False
  let ?tbl = "\<lparr>ct_data = Some [get_taint st], ct_maxlen = 8, ct_extra1 = fst bounds, ct_extra2 = snd bounds\<rparr>"
  obtain q where q: "proc_doulongvec_minmax parse mode ?tbl opn ppos = Inr q"
    using assms(2) False by (auto simp: proc_taint_def)
  let ?new = "fold (\<lambda>i s. if push_bit i 1 AND sy_data q ! 0 \<noteq> 0 then add_taint i s else s) [0..<count] st"
  have "get_taint st OR get_taint ?new = get_taint ?new"
    by (rule bit_eqI) (simp only: bit_or_iff taint_fold [where get_taint = get_taint and add_taint = add_taint, OF assms(1)], blast)
  then show ?thesis using assms(2) False q proc_doulongvec_minmax_ret [OF q]
    by (auto simp: proc_taint_def with_data_def Let_def EINVAL_def split: if_splits)
qed

theorem proc_taint_only_adds_witness:
  "\<exists>r. proc_taint (\<lambda>s. s) (\<lambda>i s. s OR push_bit i 1) 18 False 0 False kstrtox_parse WRITES_STRICT (None, None) 5 (SysWrite ''2'') 0 = Inr r
    \<and> sy_data r = (5 :: u64)"
  using proc_taint_only_adds [of "\<lambda>s. s" "\<lambda>i s. s OR push_bit i 1" 18 False 0 False kstrtox_parse WRITES_STRICT "(None, None)" 5 "SysWrite ''2''" 0]
  by (simp add: proc_taint_def refused_def)

text \<open>A negative number written to an unsigned long entry is accepted and has no effect.\<close>

lemma ulong_negative_ignored:
  assumes "integer_parser parse" "n < 10 ^ 19"
  shows "proc_doulongvec_minmax parse mode \<lparr>ct_data = Some [v], ct_maxlen = 8, ct_extra1 = mn, ct_extra2 = mx\<rparr>
      (SysWrite (''-'' @ print_nat n @ [NL])) 0 =
    Inr \<lparr>sy_ret = 0, sy_len = length (print_nat n) + 2, sy_pos = int (length (print_nat n) + 2), sy_data = [v], sy_out = []\<rparr>"
proof -
  have l: "length (print_nat n) \<le> 19" using assms(2) by (rule length_print_nat) simp
  have g: "proc_get_long parse proc_wspace_sep (''-'' @ print_nat n @ [NL]) = Inr (of_nat n, True, Some NL, [NL])"
    using integer_parser.proc_get_long_number [OF assms(1), of n NL proc_wspace_sep True "[]"] assms(2) l
    by (simp add: TMPBUFLEN_def NL_def proc_wspace_sep_def digit_val_def)
  have t: "take (PAGE_SIZE - 1) (''-'' @ print_nat n @ [NL]) = ''-'' @ print_nat n @ [NL]"
    using l by (intro take_all) (simp add: PAGE_SIZE_def)
  have s: "proc_skip_spaces (''-'' @ print_nat n @ [NL]) = ''-'' @ print_nat n @ [NL]" "proc_skip_spaces [NL] = []"
    by (simp_all add: proc_skip_spaces_def isspace_def NL_def)
  have "ulongvec_write parse mn mx 1 1 (Suc 0) 0 (''-'' @ print_nat n @ [NL]) [v] = Inr (0, False, [NL], [v])"
    using g s by (simp add: Let_def)
  moreover define tx where "tx = ''-'' @ print_nat n @ [NL]"
  moreover have "tx \<noteq> []" "length tx = length (print_nat n) + 2" by (simp_all add: tx_def)
  ultimately show ?thesis
    unfolding proc_doulongvec_minmax_def do_proc_doulongvec_minmax_def u_do_proc_doulongvec_minmax_def tx_def [symmetric]
    using s(2) t by (simp add: proc_first_pos_non_zero_ignore_def Let_def tx_def [symmetric] del: ulongvec_write.simps)
qed

end
