(* ===== verification/Sysctl_Bitmap.thy ===== *)
theory Sysctl_Bitmap
  imports Sysctl_Vec
begin

text \<open>
  \<^verbatim>\<open>proc_do_large_bitmap\<close> of \<^verbatim>\<open>kernel/sysctl.c\<close>: a bitmap as a comma separated list of ranges. The bitmap
  primitives of \<^verbatim>\<open>lib/\<close> are parameters, bundled in a record; what the code relies on is the locale
  \<^verbatim>\<open>bitmap_library\<close>, which is interpreted on sets of bit numbers, given as predicates. The two loops take fuel, a unit per
  round. The lemmas show that a unit per character of the page is enough for a write and a unit per bit for a read, and that the printed text, written back, gives the same bits.
\<close>

record 'b bitmap_ops =
  find_next_bit :: "'b \<Rightarrow> nat \<Rightarrow> nat \<Rightarrow> nat"
  find_next_zero_bit :: "'b \<Rightarrow> nat \<Rightarrow> nat \<Rightarrow> nat"
  bitmap_zalloc :: "nat \<Rightarrow> 'b option"
  bitmap_set :: "'b \<Rightarrow> nat \<Rightarrow> nat \<Rightarrow> 'b"
  bitmap_or :: "'b \<Rightarrow> 'b \<Rightarrow> nat \<Rightarrow> 'b"
  bitmap_copy :: "'b \<Rightarrow> 'b \<Rightarrow> nat \<Rightarrow> 'b"

definition tr_a :: string where "tr_a = [CHR ''-'', CHR '','', NL]"
definition tr_b :: string where "tr_b = [CHR '','', NL, NUL]"

subsection \<open>Writing\<close>

text \<open>
  One round reads \<^verbatim>\<open>a\<close> or \<^verbatim>\<open>a-b\<close> and its separator. \<open>skipped\<close> says that the caller's text goes on behind the
  page, \<open>c\<close> is the C variable that holds the last separator, undefined at first and kept when a number ends the
  text. The result is the error, the text not consumed and the bitmap.
\<close>

fun bitmap_write_loop ::
    "'b bitmap_ops \<Rightarrow> parse_integer \<Rightarrow> nat \<Rightarrow> bool \<Rightarrow> nat \<Rightarrow> string \<Rightarrow> char \<Rightarrow> 'b \<Rightarrow> (int \<times> string \<times> 'b) option" where
  "bitmap_write_loop ops parse bitmap_len skipped 0 p c tmp = None"
| "bitmap_write_loop ops parse bitmap_len skipped (Suc fuel) p c tmp =
     (if p = [] then Some (0, p, tmp)
      else case proc_get_long parse tr_a p of
        Inl err \<Rightarrow> Some (err, p, tmp)
      | Inr (val_a, neg, tr, q) \<Rightarrow>
          if length q \<le> 1 \<and> skipped then Some (0, p, tmp)
          else if bitmap_len \<le> unat val_a \<or> neg then Some (- EINVAL, q, tmp)
          else
            let c = (case tr of None \<Rightarrow> c | Some t \<Rightarrow> t); q = drop 1 q in
            if c = CHR ''-'' then
              case proc_get_long parse tr_b q of
                Inl err \<Rightarrow> Some (err, if q = [] \<and> skipped then p else q, tmp)
              | Inr (val_b, neg, tr, q) \<Rightarrow>
                  if q = [] \<and> skipped then Some (0, p, tmp)
                  else if bitmap_len \<le> unat val_b \<or> neg \<or> val_b < val_a then Some (- EINVAL, q, tmp)
                  else
                    bitmap_write_loop ops parse bitmap_len skipped fuel (proc_skip_char NL (drop 1 q))
                      (case tr of None \<Rightarrow> c | Some t \<Rightarrow> t) (bitmap_set ops tmp (unat val_a) (unat val_b - unat val_a + 1))
            else
              bitmap_write_loop ops parse bitmap_len skipped fuel (proc_skip_char NL q) c (bitmap_set ops tmp (unat val_a) 1))"

subsection \<open>Reading\<close>

fun bitmap_read_loop :: "'b bitmap_ops \<Rightarrow> 'b \<Rightarrow> nat \<Rightarrow> nat \<Rightarrow> nat \<Rightarrow> bool \<Rightarrow> string \<times> nat \<Rightarrow> (string \<times> nat) option" where
  "bitmap_read_loop ops bitmap bitmap_len 0 bit_b first o' = None"
| "bitmap_read_loop ops bitmap bitmap_len (Suc fuel) bit_b first o' =
     (if snd o' = 0 then Some o'
      else
        let bit_a = find_next_bit ops bitmap bitmap_len bit_b in
        if bitmap_len \<le> bit_a then Some o'
        else
          let bit_b = find_next_zero_bit ops bitmap bitmap_len (bit_a + 1) - 1;
              o' = (if first then o' else proc_put_char CHR '','' o');
              o' = proc_put_long (of_nat bit_a) False o';
              o' = (if bit_a \<noteq> bit_b then proc_put_long (of_nat bit_b) False (proc_put_char CHR ''-'' o') else o') in
          bitmap_read_loop ops bitmap bitmap_len fuel (bit_b + 1) False o')"

definition proc_do_large_bitmap ::
    "'b bitmap_ops \<Rightarrow> parse_integer \<Rightarrow> char \<Rightarrow> nat \<Rightarrow> 'b option \<Rightarrow> nat \<Rightarrow> sysctl_op \<Rightarrow> int \<Rightarrow> 'b option sysctl_res option" where
  "proc_do_large_bitmap ops parse c0 fuel bitmap bitmap_len opn ppos =
     (case bitmap of
        None \<Rightarrow> Some \<lparr>sy_ret = 0, sy_len = 0, sy_pos = ppos, sy_data = bitmap, sy_out = []\<rparr>
      | Some bm \<Rightarrow>
          if bitmap_len = 0 \<or> op_len opn = 0 \<or> (ppos \<noteq> 0 \<and> \<not> is_write opn)
          then Some \<lparr>sy_ret = 0, sy_len = 0, sy_pos = ppos, sy_data = bitmap, sy_out = []\<rparr>
          else case opn of
            SysWrite text \<Rightarrow>
              let p = take (PAGE_SIZE - 1) text; skipped = length text - length p in
              (case bitmap_zalloc ops bitmap_len of
                 None \<Rightarrow> Some \<lparr>sy_ret = - ENOMEM, sy_len = length text, sy_pos = ppos, sy_data = bitmap, sy_out = []\<rparr>
               | Some tmp \<Rightarrow>
                   (case bitmap_write_loop ops parse bitmap_len (skipped \<noteq> 0) fuel (proc_skip_char NL p) c0 tmp of
                      None \<Rightarrow> None
                    | Some (err, rest, tmp) \<Rightarrow>
                        if err \<noteq> 0
                        then Some \<lparr>sy_ret = err, sy_len = length text, sy_pos = ppos, sy_data = bitmap, sy_out = []\<rparr>
                        else
                          let len = length text - (length rest + skipped) in
                          Some \<lparr>sy_ret = 0, sy_len = len, sy_pos = ppos + int len,
                                sy_data = Some (if ppos \<noteq> 0 then bitmap_or ops bm tmp bitmap_len else bitmap_copy ops bm tmp bitmap_len),
                                sy_out = []\<rparr>))
          | SysRead n \<Rightarrow>
              (case bitmap_read_loop ops bm bitmap_len fuel 0 True ([], n) of
                 None \<Rightarrow> None
               | Some o' \<Rightarrow>
                   let o' = proc_put_char NL o' in
                   Some \<lparr>sy_ret = 0, sy_len = n - snd o', sy_pos = ppos + int (n - snd o'), sy_data = bitmap, sy_out = fst o'\<rparr>))"

subsection \<open>The loops end\<close>

lemma proc_get_long_shorter: "proc_get_long parse perm p = Inr (v, neg, tr, q) \<Longrightarrow> length q \<le> length p"
  by (auto simp: proc_get_long_def Let_def split: if_splits sum.splits prod.splits)

lemma length_proc_skip_char: "length (proc_skip_char c p) \<le> length p"
  by (simp add: proc_skip_char_def length_dropWhile_le)

text \<open>Every round consumes a character, whatever the digit reader answers.\<close>

lemma bitmap_write_loop_ends:
  "length p < fuel \<Longrightarrow> \<exists>r. bitmap_write_loop ops parse n skipped fuel p c tmp = Some r"
proof (induction fuel arbitrary: p c tmp)
  case (Suc fuel)
  have next_round: "\<exists>r. bitmap_write_loop ops parse n skipped fuel (proc_skip_char NL (drop 1 q)) c' t = Some r"
    if "p \<noteq> []" "length q \<le> length p" for q c' t
  proof (rule Suc.IH)
    show "length (proc_skip_char NL (drop 1 q)) < fuel"
      using length_proc_skip_char [of NL "drop 1 q"] that Suc.prems by (cases p) auto
  qed
  show ?case
  proof (cases "p = []")
    case p: False
    show ?thesis
    proof (cases "proc_get_long parse tr_a p")
      case (Inr t)
      obtain va neg tr q where t: "t = (va, neg, tr, q)" by (cases t)
      have q: "length q \<le> length p" using proc_get_long_shorter Inr t by blast
      show ?thesis
      proof (cases "proc_get_long parse tr_b (drop 1 q)")
        case (Inl e)
        then show ?thesis using p Inr t next_round [OF p q] by (auto simp: Let_def)
      next
        case (Inr u)
        obtain vb nb tb s where u: "u = (vb, nb, tb, s)" by (cases u)
        have "length s \<le> length p" using proc_get_long_shorter [of parse tr_b "drop 1 q"] Inr u q by force
        then show ?thesis using p \<open>proc_get_long parse tr_a p = Inr t\<close> t Inr u next_round [OF p q] next_round [OF p]
          by (auto simp: Let_def)
      qed
    qed (use p in simp)
  qed simp
qed simp

text \<open>
  What the handler relies on: a search returns the first matching position not before its start, or the size;
  and the usual meaning of the other primitives.
\<close>

locale bitmap_library =
  fixes ops :: "'b bitmap_ops" and test_bit :: "'b \<Rightarrow> nat \<Rightarrow> bool"
  assumes next_bit: "find_next_bit ops b n k < n \<Longrightarrow> k \<le> find_next_bit ops b n k \<and> test_bit b (find_next_bit ops b n k)"
    and next_bit_first: "k \<le> i \<Longrightarrow> i < n \<Longrightarrow> i < find_next_bit ops b n k \<Longrightarrow> \<not> test_bit b i"
    and next_zero: "k \<le> n \<Longrightarrow> k \<le> find_next_zero_bit ops b n k \<and> find_next_zero_bit ops b n k \<le> n"
    and next_zero_first: "k \<le> i \<Longrightarrow> i < find_next_zero_bit ops b n k \<Longrightarrow> i < n \<Longrightarrow> test_bit b i"
    and zalloc: "bitmap_zalloc ops n = Some z \<Longrightarrow> i < n \<Longrightarrow> \<not> test_bit z i"
    and set_bits: "test_bit (bitmap_set ops b a m) i = (test_bit b i \<or> (a \<le> i \<and> i < a + m))"
    and copy_bits: "i < n \<Longrightarrow> test_bit (bitmap_copy ops b s n) i = test_bit s i"
    and or_bits: "i < n \<Longrightarrow> test_bit (bitmap_or ops b s n) i = (test_bit b i \<or> test_bit s i)"
begin

lemma bitmap_read_loop_ends:
  "n - k < fuel \<Longrightarrow> \<exists>r. bitmap_read_loop ops b n fuel k first o' = Some r"
proof (induction fuel arbitrary: k first o')
  case (Suc fuel)
  define a where "a = find_next_bit ops b n k"
  show ?case
  proof (cases "a < n")
    case True
    then have "k \<le> a" using next_bit by (simp add: a_def)
    moreover have "a + 1 \<le> find_next_zero_bit ops b n (a + 1)" using next_zero [of "a + 1" n b] True by simp
    ultimately have "n - (find_next_zero_bit ops b n (a + 1) - 1 + 1) < fuel" using Suc.prems True by simp
    from Suc.IH [OF this] show ?thesis by (simp add: Let_def a_def [symmetric])
  qed (simp add: a_def [symmetric])
qed simp

end

subsection \<open>The ranges of a bitmap\<close>

fun bitmap_ranges :: "'b bitmap_ops \<Rightarrow> 'b \<Rightarrow> nat \<Rightarrow> nat \<Rightarrow> nat \<Rightarrow> (nat \<times> nat) list" where
  "bitmap_ranges ops b n 0 k = []"
| "bitmap_ranges ops b n (Suc fuel) k =
     (let a = find_next_bit ops b n k in
      if n \<le> a then []
      else (a, find_next_zero_bit ops b n (a + 1) - 1) # bitmap_ranges ops b n fuel (find_next_zero_bit ops b n (a + 1) - 1 + 1))"

fun range_text :: "nat \<times> nat \<Rightarrow> string" where
  "range_text (a, b) = print_nat a @ (if a \<noteq> b then CHR ''-'' # print_nat b else [])"

fun ranges_text :: "bool \<Rightarrow> (nat \<times> nat) list \<Rightarrow> string" where
  "ranges_text first [] = []"
| "ranges_text first (r # rs) = (if first then [] else '','') @ range_text r @ ranges_text False rs"

definition ranges_line :: "(nat \<times> nat) list \<Rightarrow> string" where
  "ranges_line rs = (if rs = [] then [] else ranges_text True rs @ [NL])"

lemma ranges_text_False: "rs \<noteq> [] \<Longrightarrow> ranges_text False rs = CHR '','' # ranges_text True rs"
  by (cases rs) auto

lemma length_ranges_text: "length rs \<le> length (ranges_text first rs)"
proof (induction rs arbitrary: first)
  case (Cons r rs)
  have "range_text r \<noteq> []" by (cases r) simp
  then have "1 \<le> length (range_text r)" by (cases "range_text r") simp_all
  then show ?case using Cons.IH [of False] by simp
qed simp

lemma print_nat_not_NL: "proc_skip_char NL (print_nat a @ rest) = print_nat a @ rest"
proof -
  obtain d ds where p: "print_nat a = d # ds" by (cases "print_nat a") auto
  have "d \<noteq> NL" using print_nat_digits [of d a] p by (auto simp: is_digit_of_def digit_val_def NL_def)
  then show ?thesis using p by (simp add: proc_skip_char_def)
qed

lemma skip_ranges_line: "proc_skip_char NL (ranges_line rs) = ranges_line rs"
proof (cases rs)
  case (Cons r rs')
  then show ?thesis using print_nat_not_NL by (cases r) (simp add: ranges_line_def)
qed (simp add: ranges_line_def proc_skip_char_def)

lemma separators_bitmap:
  "digit_val (CHR ''-'') = None" "digit_val (CHR '','') = None" "digit_val NL = None"
  "CHR ''-'' \<in> set tr_a" "CHR '','' \<in> set tr_a" "NL \<in> set tr_a" "CHR '','' \<in> set tr_b" "NL \<in> set tr_b"
  "CHR '','' \<noteq> CHR ''-''" "NL \<noteq> CHR ''-''"
  by (simp_all add: digit_val_def tr_a_def tr_b_def NL_def)

lemma unat_of_nat_u64: "n < 2 ^ 64 \<Longrightarrow> unat (of_nat n :: u64) = n"
  by (simp add: unat_of_nat take_bit_nat_eq_self)

context integer_parser
begin

lemma get_long_until:
  assumes "a < 2 ^ 64" "c \<in> set perm" "digit_val c = None"
  shows "proc_get_long parse perm (print_nat a @ c # rest) = Inr (of_nat a, False, Some c, c # rest)"
proof -
  have "length (print_nat a) \<le> 20" using assms(1) by (intro length_print_nat) simp_all
  then show ?thesis using proc_get_long_number [OF assms, of False rest] by (simp add: TMPBUFLEN_def)
qed

lemma get_long_end:
  assumes "a < 2 ^ 64"
  shows "proc_get_long parse perm (print_nat a) = Inr (of_nat a, False, None, [])"
proof -
  obtain d ds where p: "print_nat a = d # ds" by (cases "print_nat a") auto
  have d: "is_digit_of 10 d" using print_nat_digits [of d a] p by simp
  have l: "length (print_nat a) \<le> 20" using assms by (intro length_print_nat) simp_all
  have s: "strtoul_lenient parse (print_nat a) = Inr (of_nat a, [])"
    using strtoul_lenient_number [OF assms, of "[]"] by simp
  have t: "take (TMPBUFLEN - 1) (print_nat a) = print_nat a" using l by (simp add: TMPBUFLEN_def)
  show ?thesis unfolding proc_get_long_def t using s p d l digit_not_special [OF d] by (simp add: TMPBUFLEN_def Let_def)
qed

text \<open>A number that ends the text leaves the separator as it was, at first undefined: whether it is accepted
  depends on it.\<close>

lemma bitmap_write_unterminated:
  assumes "a < n" "n \<le> 2 ^ 64"
  shows "bitmap_write_loop ops parse n False (Suc (Suc fuel)) (print_nat a) c tmp =
    (if c = CHR ''-'' then Some (- EINVAL, [], tmp) else Some (0, [], bitmap_set ops tmp a 1))"
proof -
  have a: "a < 2 ^ 64" using assms by simp
  have e: "proc_get_long parse perm [] = Inl (- EINVAL)" for perm by (simp add: proc_get_long_def)
  show ?thesis using assms(1) get_long_end [OF a] e by (simp add: unat_of_nat_u64 [OF a] proc_skip_char_def)
qed

text \<open>Writing a list of ranges sets exactly these.\<close>

lemma bitmap_write_ranges:
  assumes "n \<le> 2 ^ 64"
  shows "\<forall>(a, b) \<in> set rs. a \<le> b \<and> b < n \<Longrightarrow> length rs < fuel \<Longrightarrow>
    bitmap_write_loop ops parse n False fuel (ranges_line rs) c tmp =
      Some (0, [], fold (\<lambda>(a, b) t. bitmap_set ops t a (b - a + 1)) rs tmp)"
proof (induction rs arbitrary: fuel c tmp)
  case Nil
  then show ?case by (cases fuel) (simp_all add: ranges_line_def)
next
  case (Cons r rs)
  obtain a b where r: "r = (a, b)" by (cases r)
  obtain f where f: "fuel = Suc f" "length rs < f" using Cons.prems(2) by (cases fuel) auto
  have ab: "a \<le> b" "b < n" "a < 2 ^ 64" "b < 2 ^ 64" using Cons.prems(1) r assms by auto
  note u = unat_of_nat_u64 [OF ab(3)] unat_of_nat_u64 [OF ab(4)]
  have sep: "\<exists>s. ranges_text False rs @ [NL] = s # ranges_line rs \<and> (s = CHR '','' \<or> s = NL)"
    by (cases "rs = []") (simp_all add: ranges_line_def ranges_text_False)
  then obtain s where s: "ranges_text False rs @ [NL] = s # ranges_line rs" "s = CHR '','' \<or> s = NL" by blast
  then have s': "s \<in> set tr_a" "s \<in> set tr_b" "digit_val s = None" "s \<noteq> CHR ''-''" using separators_bitmap by auto
  have line: "ranges_line (r # rs) = range_text (a, b) @ s # ranges_line rs" using r s(1) by (simp add: ranges_line_def)
  have IH: "bitmap_write_loop ops parse n False f (proc_skip_char NL (ranges_line rs)) c' t =
      Some (0, [], fold (\<lambda>(a, b) t. bitmap_set ops t a (b - a + 1)) rs t)" for c' t
    using Cons.IH [of f c' t] Cons.prems(1) f(2) by (simp add: skip_ranges_line)
  show ?case
  proof (cases "a = b")
    case True
    have g: "proc_get_long parse tr_a (ranges_line (r # rs)) = Inr (of_nat a, False, Some s, s # ranges_line rs)"
      using get_long_until [OF ab(3) s'(1,3), of "ranges_line rs"] True by (simp add: line)
    have ne: "ranges_line (r # rs) \<noteq> []" by (simp add: ranges_line_def)
    show ?thesis using ne True IH ab u s'(4) r unfolding f(1) bitmap_write_loop.simps g by (simp add: u)
  next
    case False
    have g: "proc_get_long parse tr_a (ranges_line (r # rs)) =
        Inr (of_nat a, False, Some CHR ''-'', CHR ''-'' # print_nat b @ s # ranges_line rs)"
      using get_long_until [OF ab(3) separators_bitmap(4,1), of "print_nat b @ s # ranges_line rs"] False by (simp add: line)
    have h: "proc_get_long parse tr_b (print_nat b @ s # ranges_line rs) = Inr (of_nat b, False, Some s, s # ranges_line rs)"
      using get_long_until [OF ab(4) s'(2,3)] .
    have ne: "ranges_line (r # rs) \<noteq> []" by (simp add: ranges_line_def)
    show ?thesis using ne False IH ab u r h unfolding f(1) bitmap_write_loop.simps g by (simp add: u word_less_nat_alt)
  qed
qed

end

context bitmap_library
begin

lemma range_step:
  assumes "find_next_bit ops b n k < n"
  obtains a z where "find_next_bit ops b n k = a" "find_next_zero_bit ops b n (a + 1) = z" "k \<le> a" "a < z" "z \<le> n"
  using assms next_bit next_zero [of "find_next_bit ops b n k + 1" n b] by auto

lemma bitmap_read_text:
  "n \<le> 2 ^ 64 \<Longrightarrow> n - k < fuel \<Longrightarrow>
   bitmap_read_loop ops b n fuel k first o' = Some (put_text (ranges_text first (bitmap_ranges ops b n fuel k)) o')"
proof (induction fuel arbitrary: k first o')
  case (Suc fuel)
  show ?case
  proof (cases "snd o' = 0 \<or> n \<le> find_next_bit ops b n k")
    case True
    then show ?thesis by (auto simp: put_text_full)
  next
    case False
    then obtain a z where az: "find_next_bit ops b n k = a" "find_next_zero_bit ops b n (a + 1) = z" "k \<le> a" "a < z" "z \<le> n"
      using range_step [of b n k] by (metis not_le)
    obtain e where e: "z = Suc e" using az(4) by (cases z) simp_all
    have a: "a < n" "a < 2 ^ 64" "e < 2 ^ 64" using az e Suc.prems by simp_all
    let ?o = "put_text ((if first then [] else '','') @ range_text (a, e)) o'"
    have "bitmap_read_loop ops b n (Suc fuel) k first o' = bitmap_read_loop ops b n fuel (Suc e) False ?o"
      using False az [unfolded e] a
      by (simp add: Let_def proc_put_char_text proc_put_long_def put_text_append unat_of_nat_u64 del: bitmap_read_loop.simps(1))
    moreover have "n - Suc e < fuel" using az e a Suc.prems by linarith
    ultimately show ?thesis using Suc.IH [of "Suc e" False ?o] Suc.prems False az [unfolded e] a
      by (simp add: Let_def put_text_append)
  qed
qed simp

lemma bitmap_ranges_bounds: "(a, e) \<in> set (bitmap_ranges ops b n fuel k) \<Longrightarrow> k \<le> a \<and> a \<le> e \<and> e < n"
proof (induction fuel arbitrary: k)
  case (Suc fuel)
  then have "find_next_bit ops b n k < n" by (auto simp: Let_def split: if_splits)
  then obtain c z where cz: "find_next_bit ops b n k = c" "find_next_zero_bit ops b n (c + 1) = z" "k \<le> c" "c < z" "z \<le> n"
    using range_step by metis
  then show ?case using Suc by (auto simp: Let_def split: if_splits) fastforce
qed simp

text \<open>The bits are those of the ranges.\<close>

lemma bitmap_ranges_bits:
  "n - k < fuel \<Longrightarrow> k \<le> i \<Longrightarrow> i < n \<Longrightarrow>
   (\<exists>(a, e) \<in> set (bitmap_ranges ops b n fuel k). a \<le> i \<and> i \<le> e) \<longleftrightarrow> test_bit b i"
proof (induction fuel arbitrary: k)
  case (Suc fuel)
  show ?case
  proof (cases "find_next_bit ops b n k < n")
    case False
    then show ?thesis using next_bit_first [of k i n b] Suc.prems by simp
  next
    case True
    then obtain a z where az: "find_next_bit ops b n k = a" "find_next_zero_bit ops b n (a + 1) = z" "k \<le> a" "a < z" "z \<le> n"
      using range_step by metis
    have rs: "bitmap_ranges ops b n (Suc fuel) k = (a, z - 1) # bitmap_ranges ops b n fuel z"
      using True az by (simp add: Let_def)
    consider "i < a" | "i = a" | "a < i" "i < z" | "z \<le> i" by linarith
    then show ?thesis
    proof cases
      case 1
      then have "\<not> test_bit b i" using next_bit_first [of k i n b] az(1) Suc.prems by simp
      moreover have "\<not> (\<exists>(c, e) \<in> set (bitmap_ranges ops b n fuel z). c \<le> i \<and> i \<le> e)"
        using bitmap_ranges_bounds 1 az(4) by fastforce
      ultimately show ?thesis using 1 rs by auto
    next
      case 2
      then show ?thesis using next_bit [of b n k] True az rs by auto
    next
      case 3
      then have "test_bit b i" using next_zero_first [of "a + 1" i b n] az Suc.prems(3) by simp
      then show ?thesis using 3 rs by auto
    next
      case 4
      then have "n - z < fuel" using az Suc.prems by linarith
      then show ?thesis using Suc.IH [of z] 4 az(4) Suc.prems(3) rs by auto
    qed
  qed
qed simp

lemma fold_set_bits:
  "\<forall>(a, e) \<in> set rs. a \<le> e \<Longrightarrow> test_bit (fold (\<lambda>(a, b) t. bitmap_set ops t a (b - a + 1)) rs tmp) i \<longleftrightarrow>
   test_bit tmp i \<or> (\<exists>(a, e) \<in> set rs. a \<le> i \<and> i \<le> e)"
proof (induction rs arbitrary: tmp)
  case (Cons r rs)
  obtain a e where "r = (a, e)" by (cases r)
  then show ?case using Cons by (auto simp: set_bits)
qed simp

end

subsection \<open>Bitmaps as predicates\<close>

definition bits_next :: "bool \<Rightarrow> (nat \<Rightarrow> bool) \<Rightarrow> nat \<Rightarrow> nat \<Rightarrow> nat" where
  "bits_next v b n k = (case List.find (\<lambda>i. b i = v) [k..<n] of None \<Rightarrow> n | Some i \<Rightarrow> i)"

definition bits_ops :: "(nat \<Rightarrow> bool) bitmap_ops" where
  "bits_ops = \<lparr>find_next_bit = bits_next True, find_next_zero_bit = bits_next False, bitmap_zalloc = (\<lambda>n. Some (\<lambda>i. False)),
     bitmap_set = (\<lambda>b a m i. b i \<or> (a \<le> i \<and> i < a + m)),
     bitmap_or = (\<lambda>b s n i. if i < n then b i \<or> s i else b i), bitmap_copy = (\<lambda>b s n i. if i < n then s i else b i)\<rparr>"

lemma bits_next_found: "bits_next v b n k \<noteq> n \<Longrightarrow> k \<le> bits_next v b n k \<and> b (bits_next v b n k) = v"
proof (cases "List.find (\<lambda>i. b i = v) [k..<n]")
  case (Some j)
  then have "k \<le> j \<and> b j = v" by (auto simp: find_Some_iff)
  then show ?thesis using Some by (simp add: bits_next_def)
qed (simp add: bits_next_def)

lemma bits_next_first:
  assumes "k \<le> i" "i < n" "i < bits_next v b n k" shows "b i \<noteq> v"
proof (cases "List.find (\<lambda>i. b i = v) [k..<n]")
  case None
  then show ?thesis using assms by (auto simp: find_None_iff)
next
  case (Some j)
  then obtain m where m: "m < length [k..<n]" "j = [k..<n] ! m" "\<forall>l < m. b ([k..<n] ! l) \<noteq> v"
    by (auto simp: find_Some_iff)
  then have "i - k < m" using assms Some by (auto simp: bits_next_def)
  then show ?thesis using m(1,3) assms by (auto simp: nth_upt)
qed

lemma bits_next_bound: "k \<le> n \<Longrightarrow> k \<le> bits_next v b n k \<and> bits_next v b n k \<le> n"
  by (auto simp: bits_next_def find_Some_iff split: option.splits)

interpretation bits: bitmap_library bits_ops "\<lambda>b i. b i"
proof (unfold_locales, goal_cases)
  case (1 b n k)
  then show ?case using bits_next_found [of True b n k] by (simp add: bits_ops_def)
next
  case (2 k i n b)
  then show ?case using bits_next_first [of k i n True b] by (simp add: bits_ops_def)
next
  case (3 k n b)
  then show ?case using bits_next_bound [of k n False b] by (simp add: bits_ops_def)
next
  case (4 k i b n)
  then show ?case using bits_next_first [of k i n False b] by (simp add: bits_ops_def)
qed (auto simp: bits_ops_def)

lemma bitmap_library_bits: "bitmap_library bits_ops (\<lambda>b i. b i)"
  by (rule bits.bitmap_library_axioms)

subsection \<open>Properties\<close>

text \<open>C29. The handler always returns: a write after at most one round per character of the text, or of the page if that is
  shorter, whatever the text, the bitmap and the digit reader are; and a read after at most one round per bit, whatever the room of the
  reader is, given bitmap searches that look forward. One more unit of fuel than these bounds is always enough.\<close>

theorem proc_do_large_bitmap_returns:
  assumes "bitmap_library ops test_bit"
    and "(case opn of SysWrite text \<Rightarrow> min (length text) (PAGE_SIZE - 1) | SysRead room \<Rightarrow> bitmap_len) < fuel"
  shows "\<exists>r. proc_do_large_bitmap ops parse c0 fuel bitmap bitmap_len opn ppos = Some r"
proof (cases opn)
  case (SysWrite tx)
  let ?p = "proc_skip_char NL (take (PAGE_SIZE - 1) tx)"
  have "length ?p < fuel" using length_proc_skip_char [of NL "take (PAGE_SIZE - 1) tx"] SysWrite assms(2) by (simp add: min_def split: if_splits)
  then have "\<exists>r. bitmap_write_loop ops parse bitmap_len s fuel ?p c0 tmp = Some r" for s tmp
    by (rule bitmap_write_loop_ends)
  then show ?thesis using SysWrite
    by (auto simp: proc_do_large_bitmap_def Let_def split: option.splits prod.splits) (metis option.distinct(1))+
next
  case (SysRead n)
  have "\<exists>r. bitmap_read_loop ops b bitmap_len fuel 0 True o' = Some r" for b o'
    using bitmap_library.bitmap_read_loop_ends [OF assms(1), of bitmap_len 0 fuel] assms(2) SysRead by simp
  then show ?thesis using SysRead
    by (auto simp: proc_do_large_bitmap_def Let_def split: option.splits) (metis option.distinct(1))+
qed

theorem proc_do_large_bitmap_returns_witness:
  "(\<exists>r. proc_do_large_bitmap bits_ops kstrtox_parse NUL 6 (Some (\<lambda>i. i = 3)) 8 (SysWrite ''1,3-5'') 0 = Some r)
   \<and> (\<exists>r. proc_do_large_bitmap bits_ops kstrtox_parse NUL 9 (Some (\<lambda>i. i = 3)) 8 (SysRead 4000) 0 = Some r)"
  using proc_do_large_bitmap_returns [OF bitmap_library_bits, where opn = "SysWrite ''1,3-5''" and bitmap_len = 8 and fuel = 6]
    proc_do_large_bitmap_returns [OF bitmap_library_bits, where opn = "SysRead 4000" and bitmap_len = 8 and fuel = 9] by (simp add: PAGE_SIZE_def)

text \<open>A read with enough room prints the ranges and a newline.\<close>

lemma large_bitmap_read:
  assumes "bitmap_library ops test_bit" "0 < n" "n \<le> 2 ^ 64" "n < fuel" "0 < room"
  shows "proc_do_large_bitmap ops parse c0 fuel (Some b) n (SysRead room) 0 =
    (let t = take room (ranges_text True (bitmap_ranges ops b n fuel 0) @ [NL]) in
     Some \<lparr>sy_ret = 0, sy_len = length t, sy_pos = int (length t), sy_data = Some b, sy_out = t\<rparr>)"
proof -
  define t where "t = ranges_text True (bitmap_ranges ops b n fuel 0) @ [NL]"
  have l: "room - (room - length t) = length (take room t)" by simp
  have "bitmap_read_loop ops b n fuel 0 True ([], room) =
      Some (put_text (ranges_text True (bitmap_ranges ops b n fuel 0)) ([], room))"
    using bitmap_library.bitmap_read_text [OF assms(1,3), of 0 fuel] assms(4) by simp
  moreover have "put_text [NL] (put_text (ranges_text True (bitmap_ranges ops b n fuel 0)) ([], room)) =
      (take room t, room - length t)"
    unfolding put_text_append t_def [symmetric] by (rule put_text_start)
  ultimately show ?thesis using assms(2,5)
    unfolding proc_do_large_bitmap_def Let_def proc_put_char_text t_def [symmetric]
    by (simp add: l del: length_take)
qed

lemma large_bitmap_write:
  assumes "integer_parser parse" "bitmap_zalloc ops n = Some z" "0 < n" "n \<le> 2 ^ 64"
    "\<forall>(a, b) \<in> set rs. a \<le> b \<and> b < n" "length rs < fuel" "length (ranges_text True rs @ [NL]) < PAGE_SIZE"
  shows "proc_do_large_bitmap ops parse c0 fuel (Some old) n (SysWrite (ranges_text True rs @ [NL])) 0 =
    (let l = length (ranges_text True rs @ [NL]) in
     Some \<lparr>sy_ret = 0, sy_len = l, sy_pos = int l,
           sy_data = Some (bitmap_copy ops old (fold (\<lambda>(a, b) t. bitmap_set ops t a (b - a + 1)) rs z) n), sy_out = []\<rparr>)"
proof -
  define tx where "tx = ranges_text True rs @ [NL]"
  have t: "take (PAGE_SIZE - 1) tx = tx" "tx \<noteq> []" using assms(7) by (simp_all add: tx_def)
  have s: "proc_skip_char NL tx = ranges_line rs"
  proof (cases "rs = []")
    case False
    then show ?thesis using skip_ranges_line [of rs] by (simp add: tx_def ranges_line_def)
  qed (simp add: tx_def ranges_line_def proc_skip_char_def)
  have w: "bitmap_write_loop ops parse n False fuel (ranges_line rs) c0 z =
      Some (0, [], fold (\<lambda>(a, b) t. bitmap_set ops t a (b - a + 1)) rs z)"
    using integer_parser.bitmap_write_ranges [OF assms(1,4,5,6)] .
  show ?thesis using assms(2,3) t s w unfolding tx_def [symmetric] by (simp add: proc_do_large_bitmap_def Let_def)
qed

text \<open>A bitmap that is read whole (the text ends before the reader's room and fits a page) and whose text is
  written to another bitmap of the same length is copied bit by bit: the write succeeds and consumes all of the text,
  whatever the separator variable held before.\<close>

lemma proc_do_large_bitmap_roundtrip:
  assumes "bitmap_library ops test_bit" "integer_parser parse" "0 < n" "n \<le> 2 ^ 64" "n < fuel"
    and "bitmap_zalloc ops n = Some z"
    and "proc_do_large_bitmap ops parse c0 fuel (Some b) n (SysRead room) 0 = Some r"
    and "0 < sy_len r" "sy_len r < room" "sy_len r < PAGE_SIZE" "sy_len r < fuel"
  shows "\<exists>r' b'. proc_do_large_bitmap ops parse c0 fuel (Some old) n (SysWrite (sy_out r)) 0 = Some r'
    \<and> sy_ret r' = 0 \<and> sy_len r' = sy_len r \<and> sy_data r' = Some b' \<and> (\<forall>i < n. test_bit b' i = test_bit b i)"
proof -
  define rs where "rs = bitmap_ranges ops b n fuel 0"
  have room: "0 < room" using assms by simp
  have r: "sy_len r = length (sy_out r)" "sy_out r = take room (ranges_text True rs @ [NL])"
    using assms(7) large_bitmap_read [OF assms(1,3,4,5) room] by (auto simp: Let_def rs_def)
  then have out: "sy_out r = ranges_text True rs @ [NL]" using assms(9) by auto
  have bd: "\<forall>(a, e) \<in> set rs. a \<le> e \<and> e < n"
    using bitmap_library.bitmap_ranges_bounds [OF assms(1)] by (fastforce simp: rs_def)
  have len: "length rs < fuel" using length_ranges_text [of rs True] assms(11) r(1) out by simp
  let ?new = "bitmap_copy ops old (fold (\<lambda>(a, b) t. bitmap_set ops t a (b - a + 1)) rs z) n"
  have "test_bit ?new i = test_bit b i" if i: "i < n" for i
  proof -
    have "test_bit ?new i \<longleftrightarrow> (\<exists>(a, e) \<in> set rs. a \<le> i \<and> i \<le> e)"
      using bitmap_library.copy_bits [OF assms(1) i] bitmap_library.fold_set_bits [OF assms(1), of rs z i] bd
        bitmap_library.zalloc [OF assms(1,6) i] by fastforce
    then show ?thesis using bitmap_library.bitmap_ranges_bits [OF assms(1), of n 0 fuel i b] assms(5) i by (simp add: rs_def)
  qed
  then show ?thesis
    using large_bitmap_write [OF assms(2,6,3,4) bd len, of c0 old] assms(10) r(1) out by (simp add: Let_def)
qed

theorem proc_do_large_bitmap_roundtrip_witness:
  "\<exists>r r'. proc_do_large_bitmap bits_ops kstrtox_parse NUL 100 (Some (\<lambda>i. i = 3 \<or> i = 4)) 8 (SysRead 64) 0 = Some r
    \<and> proc_do_large_bitmap bits_ops kstrtox_parse NUL 100 (Some (\<lambda>i. True)) 8 (SysWrite (sy_out r)) 0 = Some r' \<and> sy_ret r' = 0"
proof -
  have z: "bitmap_zalloc bits_ops 8 = Some (\<lambda>i. False)" by (simp add: bits_ops_def)
  have t: "ranges_text True (bitmap_ranges bits_ops (\<lambda>i. i = 3 \<or> i = 4) 8 100 0) = ''3-4''" by code_simp
  have r: "proc_do_large_bitmap bits_ops kstrtox_parse NUL 100 (Some (\<lambda>i. i = 3 \<or> i = 4)) 8 (SysRead 64) 0 =
      Some \<lparr>sy_ret = 0, sy_len = 4, sy_pos = 4, sy_data = Some (\<lambda>i. i = 3 \<or> i = 4), sy_out = ''3-4'' @ [NL]\<rparr>"
    using large_bitmap_read [OF bitmap_library_bits, of 8 100 64 kstrtox_parse NUL "\<lambda>i. i = 3 \<or> i = 4"] t by simp
  show ?thesis
    using proc_do_large_bitmap_roundtrip [OF bitmap_library_bits integer_parser_kstrtox _ _ _ z r, of "\<lambda>i. True"] r
    by (auto simp: PAGE_SIZE_def)
qed

end
