(* ===== verification/VFS_Permission.thy ===== *)
theory VFS_Permission
  imports OS_Prelude
begin

text \<open>
  The permission checks of \<^verbatim>\<open>fs/namei.c\<close> (\<^verbatim>\<open>check_acl\<close>, \<^verbatim>\<open>acl_permission_check\<close>, \<^verbatim>\<open>generic_permission\<close>,
  \<^verbatim>\<open>do_inode_permission\<close>, \<^verbatim>\<open>sb_permission\<close>, \<^verbatim>\<open>inode_permission\<close>) and of \<^verbatim>\<open>fs/inode.c\<close>
  (\<^verbatim>\<open>inode_owner_or_capable\<close>) on which the extended attributes rely. The inode keeps its mode, flags and
  operation flags at their widths; \<^verbatim>\<open>'p\<close> is the data of its file system. Credentials, capabilities, id
  mappings, the ACL cache and the security modules are outside the repository: they are the fields
  of the record \<^verbatim>\<open>vfs_env\<close>, an argument of every check. The configuration has
  \<^verbatim>\<open>CONFIG_FS_POSIX_ACL\<close>. The reference counts of ACL objects are not modelled.
\<close>

subsection \<open>Inodes\<close>

datatype posix_acl_ref =
    AclNull
  | AclUncached
  | AclErr int
  | AclPtr addr

record 'p inode =
  i_mode :: "16 word"
  i_opflags :: "16 word"
  i_uid :: u32
  i_gid :: u32
  i_flags :: u32
  i_acl :: posix_acl_ref
  i_default_acl :: posix_acl_ref
  bad_inode :: bool
  i_private :: 'p

record super_block =
  s_flags :: u64

definition MAY_EXEC :: s32 where "MAY_EXEC = 1"
definition MAY_WRITE :: s32 where "MAY_WRITE = 2"
definition MAY_READ :: s32 where "MAY_READ = 4"
definition MAY_NOT_BLOCK :: s32 where "MAY_NOT_BLOCK = 0x80"

definition IOP_FASTPERM :: "16 word" where "IOP_FASTPERM = 1"
definition IOP_XATTR :: "16 word" where "IOP_XATTR = 8"

definition S_APPEND :: u32 where "S_APPEND = 4"
definition S_IMMUTABLE :: u32 where "S_IMMUTABLE = 8"
definition S_NOSEC :: u32 where "S_NOSEC = 0x1000"
definition SB_RDONLY :: u64 where "SB_RDONLY = 1"
definition SB_POSIXACL :: u64 where "SB_POSIXACL = 0x10000"

definition S_IFMT :: "16 word" where "S_IFMT = 0xF000"
definition S_ISREG :: "16 word \<Rightarrow> bool" where "S_ISREG m = (m AND S_IFMT = 0x8000)"
definition S_ISDIR :: "16 word \<Rightarrow> bool" where "S_ISDIR m = (m AND S_IFMT = 0x4000)"
definition S_ISLNK :: "16 word \<Rightarrow> bool" where "S_ISLNK m = (m AND S_IFMT = 0xA000)"
definition S_ISVTX :: "16 word" where "S_ISVTX = 0x200"
definition S_IRWXG :: u32 where "S_IRWXG = 0x38"
definition S_IXUGO :: "16 word" where "S_IXUGO = 0x49"

definition CAP_DAC_OVERRIDE :: nat where "CAP_DAC_OVERRIDE = 1"
definition CAP_DAC_READ_SEARCH :: nat where "CAP_DAC_READ_SEARCH = 2"
definition CAP_FOWNER :: nat where "CAP_FOWNER = 3"
definition CAP_SYS_ADMIN :: nat where "CAP_SYS_ADMIN = 21"

definition ECHILD :: int where "ECHILD = 10"

lemmas perm_consts = MAY_EXEC_def MAY_WRITE_def MAY_READ_def MAY_NOT_BLOCK_def IOP_FASTPERM_def
  IOP_XATTR_def S_APPEND_def S_IMMUTABLE_def S_NOSEC_def SB_RDONLY_def SB_POSIXACL_def S_IFMT_def
  S_ISREG_def S_ISDIR_def S_ISLNK_def S_ISVTX_def S_IRWXG_def S_IXUGO_def CAP_DAC_OVERRIDE_def
  CAP_DAC_READ_SEARCH_def CAP_FOWNER_def CAP_SYS_ADMIN_def

definition IS_IMMUTABLE :: "'p inode \<Rightarrow> bool" where
  "IS_IMMUTABLE inode = (i_flags inode AND S_IMMUTABLE \<noteq> 0)"

definition IS_APPEND :: "'p inode \<Rightarrow> bool" where
  "IS_APPEND inode = (i_flags inode AND S_APPEND \<noteq> 0)"

definition IS_POSIXACL :: "super_block \<Rightarrow> bool" where
  "IS_POSIXACL sb = (s_flags sb AND SB_POSIXACL \<noteq> 0)"

definition sb_rdonly :: "super_block \<Rightarrow> bool" where
  "sb_rdonly sb = (s_flags sb AND SB_RDONLY \<noteq> 0)"

subsection \<open>What the checks ask of the rest of the kernel\<close>

record 'p vfs_env =
  current_fsuid :: u32
  in_group_p :: "u32 \<Rightarrow> bool"
  i_uid_into_mnt :: "u32 \<Rightarrow> u32"
  i_gid_into_mnt :: "u32 \<Rightarrow> u32"
  capable :: "nat \<Rightarrow> bool"
  ns_capable :: "nat \<Rightarrow> bool"
  kuid_has_mapping :: "u32 \<Rightarrow> bool"
  capable_wrt_inode_uidgid :: "'p inode \<Rightarrow> nat \<Rightarrow> bool"
  get_cached_acl_rcu :: "'p inode \<Rightarrow> posix_acl_ref"
  get_acl :: "'p inode \<Rightarrow> posix_acl_ref"
  posix_acl_permission :: "'p inode \<Rightarrow> posix_acl_ref \<Rightarrow> s32 \<Rightarrow> int"
  iop_permission :: "('p inode \<Rightarrow> s32 \<Rightarrow> int) option"
  devcgroup_inode_permission :: "'p inode \<Rightarrow> s32 \<Rightarrow> int"
  security_inode_permission :: "'p inode \<Rightarrow> s32 \<Rightarrow> int"

definition uid_valid :: "u32 \<Rightarrow> bool" where "uid_valid u = (u \<noteq> - 1)"

definition HAS_UNMAPPED_ID :: "('p, 'e) vfs_env_scheme \<Rightarrow> 'p inode \<Rightarrow> bool" where
  "HAS_UNMAPPED_ID env inode =
     (\<not> uid_valid (i_uid_into_mnt env (i_uid inode)) \<or> \<not> uid_valid (i_gid_into_mnt env (i_gid inode)))"

definition inode_owner_or_capable :: "('p, 'e) vfs_env_scheme \<Rightarrow> 'p inode \<Rightarrow> bool" where
  "inode_owner_or_capable env inode =
     (let u = i_uid_into_mnt env (i_uid inode) in
      if current_fsuid env = u then True
      else kuid_has_mapping env u \<and> ns_capable env CAP_FOWNER)"

subsection \<open>The checks\<close>

definition check_acl :: "('p, 'e) vfs_env_scheme \<Rightarrow> 'p inode \<Rightarrow> s32 \<Rightarrow> int" where
  "check_acl env inode msk =
     (if msk AND MAY_NOT_BLOCK \<noteq> 0 then
        (case get_cached_acl_rcu env inode of
           AclNull \<Rightarrow> - EAGAIN
         | AclUncached \<Rightarrow> - ECHILD
         | acl \<Rightarrow> posix_acl_permission env inode acl msk)
      else
        (case get_acl env inode of
           AclErr e \<Rightarrow> e
         | AclNull \<Rightarrow> - EAGAIN
         | acl \<Rightarrow> posix_acl_permission env inode acl msk))"

definition acl_permission_check :: "('p, 'e) vfs_env_scheme \<Rightarrow> super_block \<Rightarrow> 'p inode \<Rightarrow> s32 \<Rightarrow> int" where
  "acl_permission_check env sb inode msk =
     (let mode = (ucast (i_mode inode) :: u32) in
      if current_fsuid env = i_uid_into_mnt env (i_uid inode) then
        (if (msk AND 7) AND NOT (drop_bit 6 mode) \<noteq> 0 then - EACCES else 0)
      else
        let error = (if IS_POSIXACL sb \<and> mode AND S_IRWXG \<noteq> 0 then check_acl env inode msk else - EAGAIN) in
        if error \<noteq> - EAGAIN then error
        else
          let msk = msk AND 7;
              mode = (if msk AND (mode XOR drop_bit 3 mode) \<noteq> 0 \<and> in_group_p env (i_gid_into_mnt env (i_gid inode))
                      then drop_bit 3 mode else mode) in
          (if msk AND NOT mode \<noteq> 0 then - EACCES else 0))"

definition generic_permission :: "('p, 'e) vfs_env_scheme \<Rightarrow> super_block \<Rightarrow> 'p inode \<Rightarrow> s32 \<Rightarrow> int" where
  "generic_permission env sb inode msk =
     (let ret = acl_permission_check env sb inode msk in
      if ret \<noteq> - EACCES then ret
      else if S_ISDIR (i_mode inode) then
        (if msk AND MAY_WRITE = 0 \<and> capable_wrt_inode_uidgid env inode CAP_DAC_READ_SEARCH then 0
         else if capable_wrt_inode_uidgid env inode CAP_DAC_OVERRIDE then 0
         else - EACCES)
      else
        let msk = msk AND (MAY_READ OR MAY_WRITE OR MAY_EXEC) in
        if msk = MAY_READ \<and> capable_wrt_inode_uidgid env inode CAP_DAC_READ_SEARCH then 0
        else if (msk AND MAY_EXEC = 0 \<or> i_mode inode AND S_IXUGO \<noteq> 0) \<and>
                capable_wrt_inode_uidgid env inode CAP_DAC_OVERRIDE then 0
        else - EACCES)"

text \<open>
  \<^verbatim>\<open>do_inode_permission\<close> notes in \<^verbatim>\<open>i_opflags\<close> that the inode has no permission operation of its own, so
  the checks return the inode beside the answer.
\<close>

definition do_inode_permission ::
    "('p, 'e) vfs_env_scheme \<Rightarrow> super_block \<Rightarrow> 'p inode \<Rightarrow> s32 \<Rightarrow> int \<times> 'p inode" where
  "do_inode_permission env sb inode msk =
     (if i_opflags inode AND IOP_FASTPERM = 0 then
        (case iop_permission env of
           Some permission \<Rightarrow> (permission inode msk, inode)
         | None \<Rightarrow>
             let inode = inode\<lparr>i_opflags := i_opflags inode OR IOP_FASTPERM\<rparr> in
             (generic_permission env sb inode msk, inode))
      else (generic_permission env sb inode msk, inode))"

definition sb_permission :: "super_block \<Rightarrow> 'p inode \<Rightarrow> s32 \<Rightarrow> int" where
  "sb_permission sb inode msk =
     (if msk AND MAY_WRITE \<noteq> 0 \<and> sb_rdonly sb \<and>
         (S_ISREG (i_mode inode) \<or> S_ISDIR (i_mode inode) \<or> S_ISLNK (i_mode inode))
      then - EROFS else 0)"

definition inode_permission ::
    "('p, 'e) vfs_env_scheme \<Rightarrow> super_block \<Rightarrow> 'p inode \<Rightarrow> s32 \<Rightarrow> int \<times> 'p inode" where
  "inode_permission env sb inode msk =
     (let retval = sb_permission sb inode msk in
      if retval \<noteq> 0 then (retval, inode)
      else if msk AND MAY_WRITE \<noteq> 0 \<and> IS_IMMUTABLE inode then (- EPERM, inode)
      else if msk AND MAY_WRITE \<noteq> 0 \<and> HAS_UNMAPPED_ID env inode then (- EACCES, inode)
      else
        let (retval, inode) = do_inode_permission env sb inode msk in
        if retval \<noteq> 0 then (retval, inode)
        else
          let retval = devcgroup_inode_permission env inode msk in
          if retval \<noteq> 0 then (retval, inode)
          else (security_inode_permission env inode msk, inode))"

subsection \<open>Mode bits\<close>

text \<open>
  The reference: the nine permission bits are three classes of three, a caller is in exactly one
  class, and that class alone decides. The code reads the group membership only when it matters.
\<close>

datatype perm_class = Owner | Group | Other

definition perm_class_of :: "('p, 'e) vfs_env_scheme \<Rightarrow> 'p inode \<Rightarrow> perm_class" where
  "perm_class_of env inode =
     (if current_fsuid env = i_uid_into_mnt env (i_uid inode) then Owner
      else if in_group_p env (i_gid_into_mnt env (i_gid inode)) then Group
      else Other)"

fun class_shift :: "perm_class \<Rightarrow> nat" where
  "class_shift Owner = 6"
| "class_shift Group = 3"
| "class_shift Other = 0"

text \<open>The mode grants every right the mask asks for; right \<open>j\<close> is bit \<open>j\<close> of the mask.\<close>

definition mode_grants :: "perm_class \<Rightarrow> 16 word \<Rightarrow> s32 \<Rightarrow> bool" where
  "mode_grants c mode msk =
     list_all (\<lambda>j. bit msk j \<longrightarrow> bit mode (j + class_shift c)) [0, 1, 2]"

lemma bit_7_iff: "bit (7 :: 'a :: len word) j \<longleftrightarrow> j < 3 \<and> j < LENGTH('a)"
proof -
  have "(7 :: 'a word) = mask 3" by (simp add: mask_eq_exp_minus_1)
  then show ?thesis by (simp only: bit_mask_iff possible_bit_word) auto
qed

lemma bit_and_7: "bit (w AND 7) j \<longleftrightarrow> bit w j \<and> j < 3" for w :: u32
  by (simp only: bit_and_iff bit_7_iff) auto

lemma masked_clear_iff:
  "(w AND 7) AND NOT v = 0 \<longleftrightarrow> (\<forall>j \<in> {0, 1, 2}. bit w j \<longrightarrow> bit v j)" for w v :: u32
proof -
  have "(w AND 7) AND NOT v = 0 \<longleftrightarrow> (\<forall>j < 32. \<not> bit ((w AND 7) AND NOT v) j)"
    by (auto simp: bit_eq_iff dest: bit_imp_le_length)
  also have "\<dots> \<longleftrightarrow> (\<forall>j < 3. bit w j \<longrightarrow> bit v j)"
    by (simp only: bit_and_iff [of "w AND 7"] bit_and_7 bit_not_iff possible_bit_word) auto
  also have "\<dots> \<longleftrightarrow> (\<forall>j \<in> {0, 1, 2}. bit w j \<longrightarrow> bit v j)"
  proof -
    have "j < 3 \<longleftrightarrow> j \<in> {0, 1, 2}" for j :: nat by auto
    then show ?thesis by blast
  qed
  finally show ?thesis .
qed

lemma masked_clear_class:
  "(msk AND 7) AND NOT (drop_bit (class_shift c) (ucast mode :: u32)) = 0 \<longleftrightarrow> mode_grants c mode msk"
  by (cases c) (auto simp: masked_clear_iff mode_grants_def bit_drop_bit_eq bit_ucast_iff add.commute)

text \<open>Where group and other bits agree on the mask it does not matter which is read.\<close>

lemma group_bits_same:
  assumes "(w AND 7) AND (m XOR drop_bit 3 m) = (0 :: u32)"
  shows "(w AND 7) AND NOT m = (w AND 7) AND NOT (drop_bit 3 m)"
proof (rule bit_word_eqI)
  fix j assume "j < LENGTH(32)"
  moreover from assms have "\<not> bit ((w AND 7) AND (m XOR drop_bit 3 m)) j" by simp
  ultimately show "bit ((w AND 7) AND NOT m) j \<longleftrightarrow> bit ((w AND 7) AND NOT (drop_bit 3 m)) j"
    by (auto simp: bit_and_iff bit_not_iff bit_xor_iff)
qed

lemma acl_permission_check_class:
  assumes "\<not> IS_POSIXACL sb \<or> perm_class_of env inode = Owner"
  shows "acl_permission_check env sb inode msk =
    (if mode_grants (perm_class_of env inode) (i_mode inode) msk then 0 else - EACCES)"
proof (cases "current_fsuid env = i_uid_into_mnt env (i_uid inode)")
  case True
  then show ?thesis
    using masked_clear_class [of msk Owner "i_mode inode"]
    by (simp add: acl_permission_check_def perm_class_of_def Let_def)
next
  case False
  let ?m = "ucast (i_mode inode) :: u32"
  from False assms have acl: "\<not> IS_POSIXACL sb" by (auto simp: perm_class_of_def split: if_splits)
  have g: "(msk AND 7) AND NOT (drop_bit 3 ?m) = 0 \<longleftrightarrow> mode_grants Group (i_mode inode) msk"
    using masked_clear_class [of msk Group "i_mode inode"] by simp
  have o: "(msk AND 7) AND NOT ?m = 0 \<longleftrightarrow> mode_grants Other (i_mode inode) msk"
    using masked_clear_class [of msk Other "i_mode inode"] by simp
  have same: "mode_grants Group (i_mode inode) msk = mode_grants Other (i_mode inode) msk"
    if "(msk AND 7) AND (?m XOR drop_bit 3 ?m) = 0"
    using group_bits_same [OF that] g o by simp
  show ?thesis
    using False acl g o same
    by (auto simp: acl_permission_check_def perm_class_of_def Let_def)
qed

lemma generic_permission_cases:
  "generic_permission env sb inode msk = 0 \<or> generic_permission env sb inode msk = - EACCES \<or>
   generic_permission env sb inode msk = acl_permission_check env sb inode msk"
  by (simp add: generic_permission_def Let_def)

subsection \<open>The cached absence of a permission operation\<close>

lemma fastperm_set [simp]: "(w OR IOP_FASTPERM) AND IOP_FASTPERM \<noteq> 0"
proof -
  have "bit ((w OR IOP_FASTPERM) AND IOP_FASTPERM) 0"
    by (simp add: IOP_FASTPERM_def bit_and_iff bit_or_iff)
  then show ?thesis by (metis bit_0_eq bot_apply bot_bool_def)
qed

lemma iop_xattr_fastperm [simp]: "(w OR IOP_FASTPERM) AND IOP_XATTR = w AND IOP_XATTR"
  by (rule bit_word_eqI) (auto simp: IOP_FASTPERM_def IOP_XATTR_def bit_and_iff bit_or_iff bit_1_iff
      simp flip: one_word_def)

lemma inode_permission_frame:
  "snd (inode_permission env sb inode msk) = inode \<or>
   snd (inode_permission env sb inode msk) = inode\<lparr>i_opflags := i_opflags inode OR IOP_FASTPERM\<rparr>"
  by (auto simp: inode_permission_def do_inode_permission_def Let_def split: option.splits prod.splits)

subsection \<open>The decision for a file or directory\<close>

definition capability_overrides :: "('p, 'e) vfs_env_scheme \<Rightarrow> 'p inode \<Rightarrow> s32 \<Rightarrow> bool" where
  "capability_overrides env inode msk =
     (if S_ISDIR (i_mode inode)
      then capable_wrt_inode_uidgid env inode CAP_DAC_OVERRIDE \<or>
           \<not> bit msk 1 \<and> capable_wrt_inode_uidgid env inode CAP_DAC_READ_SEARCH
      else (\<not> bit msk 0 \<or> bit (i_mode inode) 0 \<or> bit (i_mode inode) 3 \<or> bit (i_mode inode) 6) \<and>
             capable_wrt_inode_uidgid env inode CAP_DAC_OVERRIDE \<or>
           (bit msk 2 \<and> \<not> bit msk 1 \<and> \<not> bit msk 0) \<and> capable_wrt_inode_uidgid env inode CAP_DAC_READ_SEARCH)"

lemma may_write_bit: "msk AND MAY_WRITE = 0 \<longleftrightarrow> \<not> bit msk 1"
  using and_exp_eq_0_iff_not_bit [of msk 1] by (simp add: MAY_WRITE_def)

lemma may_exec_bit: "(msk AND 7) AND MAY_EXEC = 0 \<longleftrightarrow> \<not> bit msk 0"
  using and_exp_eq_0_iff_not_bit [of "msk AND 7" 0] bit_and_7 [of msk 0] by (simp add: MAY_EXEC_def)

lemma may_rwx: "MAY_READ OR MAY_WRITE OR MAY_EXEC = 7"
  by (simp add: perm_consts)

lemma bit_may_read: "bit MAY_READ j \<longleftrightarrow> j = 2"
  using bit_exp_iff [where 'a = "32 word" and m = 2 and n = j] by (auto simp: MAY_READ_def)

lemma may_only_read: "msk AND 7 = MAY_READ \<longleftrightarrow> bit msk 2 \<and> \<not> bit msk 1 \<and> \<not> bit msk 0"
proof
  assume e: "msk AND 7 = MAY_READ"
  then have "bit (msk AND 7) j \<longleftrightarrow> j = 2" for j by (simp only: bit_may_read)
  from this [unfolded bit_and_7, of 0] this [unfolded bit_and_7, of 1] this [unfolded bit_and_7, of 2]
  show "bit msk 2 \<and> \<not> bit msk 1 \<and> \<not> bit msk 0" by simp
next
  assume a: "bit msk 2 \<and> \<not> bit msk 1 \<and> \<not> bit msk 0"
  have "bit msk j \<and> j < 3 \<longleftrightarrow> j = 2" for j
  proof -
    have "j < 3 \<longleftrightarrow> j = 0 \<or> j = 1 \<or> j = 2" by auto
    with a show ?thesis by auto
  qed
  then show "msk AND 7 = MAY_READ"
    by (intro bit_word_eqI) (simp only: bit_may_read bit_and_7)
qed

lemma some_exec_bit: "m AND S_IXUGO = 0 \<longleftrightarrow> \<not> bit m 0 \<and> \<not> bit m 3 \<and> \<not> bit m 6"
proof -
  have "S_IXUGO = 2 ^ 0 OR 2 ^ 3 OR 2 ^ 6" by (simp add: S_IXUGO_def)
  moreover have "m AND (2 ^ 0 OR 2 ^ 3 OR 2 ^ 6) = (m AND 2 ^ 0) OR (m AND 2 ^ 3) OR (m AND 2 ^ 6)"
    by (rule bit_word_eqI) (simp only: bit_and_iff bit_or_iff, blast)
  ultimately show ?thesis by (simp only: or_eq_0_iff and_exp_eq_0_iff_not_bit)
qed

text \<open>
  C26. Without ACLs (and for the owner also with them) the answer of \<^verbatim>\<open>generic_permission\<close> is the one of the
  reference: the caller's class, owner, group or other, is determined first and only its three bits
  count, whatever the other classes may do, and only the capabilities \<^verbatim>\<open>CAP_DAC_OVERRIDE\<close> and
  \<^verbatim>\<open>CAP_DAC_READ_SEARCH\<close> override a refusal; an execute check of a file without any execute bit is never
  overridden. Reading the group membership only when group and other bits differ changes nothing.
\<close>

theorem generic_permission_class:
  assumes "\<not> IS_POSIXACL sb \<or> perm_class_of env inode = Owner"
  shows "generic_permission env sb inode msk =
    (if mode_grants (perm_class_of env inode) (i_mode inode) msk \<or> capability_overrides env inode msk
     then 0 else - EACCES)"
  using acl_permission_check_class [OF assms, of msk]
  by (auto simp: generic_permission_def capability_overrides_def Let_def may_rwx may_write_bit
      may_exec_bit may_only_read some_exec_bit EACCES_def)

definition demo_env :: "unit vfs_env" where
  "demo_env = \<lparr>current_fsuid = 1000, in_group_p = (\<lambda>g. g = 100), i_uid_into_mnt = id, i_gid_into_mnt = id,
     capable = (\<lambda>c. False), ns_capable = (\<lambda>c. False), kuid_has_mapping = (\<lambda>u. True),
     capable_wrt_inode_uidgid = (\<lambda>i c. False), get_cached_acl_rcu = (\<lambda>i. AclNull), get_acl = (\<lambda>i. AclNull),
     posix_acl_permission = (\<lambda>i a m. 0), iop_permission = None, devcgroup_inode_permission = (\<lambda>i m. 0),
     security_inode_permission = (\<lambda>i m. 0)\<rparr>"

definition demo_inode :: "unit inode" where
  "demo_inode = \<lparr>i_mode = 0x8184, i_opflags = 8, i_uid = 0, i_gid = 100, i_flags = 0, i_acl = AclNull,
     i_default_acl = AclNull, bad_inode = False, i_private = ()\<rparr>"

lemma generic_permission_class_witness:
  "generic_permission demo_env \<lparr>s_flags = 0\<rparr> demo_inode MAY_READ = - EACCES \<and>
   mode_grants Other (i_mode demo_inode) MAY_READ"
proof -
  have "\<not> IS_POSIXACL \<lparr>s_flags = 0\<rparr>" by (simp add: IS_POSIXACL_def)
  moreover have "perm_class_of demo_env demo_inode = Group"
    by (simp add: perm_class_of_def demo_env_def demo_inode_def)
  moreover have "\<not> mode_grants Group (i_mode demo_inode) MAY_READ" "mode_grants Other (i_mode demo_inode) MAY_READ"
    by (simp_all add: mode_grants_def demo_inode_def MAY_READ_def bit_numeral_rec) 
  moreover have "\<not> capability_overrides demo_env demo_inode MAY_READ"
    by (simp add: capability_overrides_def demo_env_def)
  ultimately show ?thesis using generic_permission_class [of "\<lparr>s_flags = 0\<rparr>" demo_env demo_inode MAY_READ] by simp
qed

end
