(* ===== verification/Simple_Xattr.thy ===== *)
theory Simple_Xattr
  imports VFS_Permission
begin

text \<open>
  The extended attribute store of the in-memory file systems, \<^verbatim>\<open>simple_xattr_*\<close> of \<^verbatim>\<open>fs/xattr.c\<close> with the
  structures of \<^verbatim>\<open>include/linux/xattr.h\<close>: a list of attributes under a spinlock, newest first. Every
  attribute and every copied name is an allocation of its own; the state has the addresses that are
  allocated, so that leaks, double frees and the use of a NULL attribute show. The allocator is a
  parameter. Each operation holds the lock from its first to its last access, so it is one step.
\<close>

record simple_xattr =
  xa_addr :: addr
  xa_name_ptr :: addr
  xa_name :: string
  xa_size :: u64
  xa_value :: "u8 list"

record simple_xattrs =
  xa_head :: "simple_xattr list"
  xa_live :: "addr set"

definition XATTR_CREATE :: s32 where "XATTR_CREATE = 1"
definition XATTR_REPLACE :: s32 where "XATTR_REPLACE = 2"

definition sizeof_simple_xattr :: u64 where "sizeof_simple_xattr = 32"

definition simple_xattrs_init :: simple_xattrs where
  "simple_xattrs_init = \<lparr>xa_head = [], xa_live = {}\<rparr>"

subsection \<open>Allocation\<close>

text \<open>\<^verbatim>\<open>memcpy\<close> of \<open>n\<close> bytes out of, and to the front of, a buffer that may be shorter.\<close>

definition read_bytes :: "u8 list \<Rightarrow> nat \<Rightarrow> u8 list kres" where
  "read_bytes src n = (if n \<le> length src then Inr (take n src) else Inl BufferOverflow)"

definition write_bytes :: "u8 list \<Rightarrow> u8 list \<Rightarrow> u8 list kres" where
  "write_bytes dst bs = (if length bs \<le> length dst then Inr (bs @ drop (length bs) dst) else Inl BufferOverflow)"

definition simple_xattr_alloc ::
    "(addr set \<Rightarrow> addr option) \<Rightarrow> u8 list \<Rightarrow> u64 \<Rightarrow> simple_xattrs \<Rightarrow> (simple_xattr option \<times> simple_xattrs) kres" where
  "simple_xattr_alloc kvmalloc value sz s =
     (let len = sizeof_simple_xattr + sz in
      if len < sizeof_simple_xattr then Inr (None, s)
      else case kvmalloc (xa_live s) of
        None \<Rightarrow> Inr (None, s)
      | Some p \<Rightarrow>
          kbind (read_bytes value (unat sz)) (\<lambda>bs.
            Inr (Some \<lparr>xa_addr = p, xa_name_ptr = 0, xa_name = [], xa_size = sz, xa_value = bs\<rparr>,
                 s\<lparr>xa_live := insert p (xa_live s)\<rparr>)))"

definition kfree_at :: "addr \<Rightarrow> simple_xattrs \<Rightarrow> simple_xattrs kres" where
  "kfree_at p s = (if p \<in> xa_live s then Inr (s\<lparr>xa_live := xa_live s - {p}\<rparr>) else Inl (UseAfterFree p))"

text \<open>\<^verbatim>\<open>kfree(xattr->name); kvfree(xattr)\<close> of \<^verbatim>\<open>simple_xattr_set\<close>, skipped for a NULL attribute.\<close>

definition simple_xattr_free :: "simple_xattr option \<Rightarrow> simple_xattrs \<Rightarrow> simple_xattrs kres" where
  "simple_xattr_free xattr s = (case xattr of
       None \<Rightarrow> Inr s
     | Some x \<Rightarrow> kbind (kfree_at (xa_name_ptr x) s) (kfree_at (xa_addr x)))"

subsection \<open>Get, set, add\<close>

fun xattr_find :: "string \<Rightarrow> simple_xattr list \<Rightarrow> simple_xattr option" where
  "xattr_find name [] = None"
| "xattr_find name (x # xs) = (if name = xa_name x then Some x else xattr_find name xs)"

definition size_to_int :: "u64 \<Rightarrow> int" where
  "size_to_int n = sint (ucast n :: s32)"

definition simple_xattr_get ::
    "simple_xattrs \<Rightarrow> string \<Rightarrow> u8 list option \<Rightarrow> u64 \<Rightarrow> (int \<times> u8 list option) kres" where
  "simple_xattr_get xattrs name buffer sz =
     (case xattr_find name (xa_head xattrs) of
        None \<Rightarrow> Inr (- ENODATA, buffer)
      | Some xattr \<Rightarrow>
          (case buffer of
             None \<Rightarrow> Inr (size_to_int (xa_size xattr), None)
           | Some buf \<Rightarrow>
               if sz < xa_size xattr then Inr (- ERANGE, buffer)
               else kbind (write_bytes buf (xa_value xattr)) (\<lambda>buf. Inr (size_to_int (xa_size xattr), Some buf))))"

definition new_simple_xattr ::
    "(addr set \<Rightarrow> addr option) \<Rightarrow> string \<Rightarrow> u8 list option \<Rightarrow> u64 \<Rightarrow> simple_xattrs \<Rightarrow>
     ((int + simple_xattr option) \<times> simple_xattrs) kres" where
  "new_simple_xattr kmalloc name value sz s =
     (case value of
        None \<Rightarrow> Inr (Inr None, s)
      | Some v \<Rightarrow>
          kbind (simple_xattr_alloc kmalloc v sz s) (\<lambda>(x, s).
            case x of
              None \<Rightarrow> Inr (Inl (- ENOMEM), s)
            | Some x \<Rightarrow>
                (case kmalloc (xa_live s) of
                   None \<Rightarrow> kbind (kfree_at (xa_addr x) s) (\<lambda>s. Inr (Inl (- ENOMEM), s))
                 | Some p \<Rightarrow> Inr (Inr (Some (x\<lparr>xa_name_ptr := p, xa_name := name\<rparr>)),
                                  s\<lparr>xa_live := insert p (xa_live s)\<rparr>))))"

text \<open>
  \<^verbatim>\<open>simple_xattr_set\<close> returns the error code, the value stored through \<^verbatim>\<open>removed_size\<close> and the new state.
  \<^verbatim>\<open>extract\<close> splits the list at the first attribute of the name, as the loop does.
\<close>

definition simple_xattr_set ::
    "(addr set \<Rightarrow> addr option) \<Rightarrow> string \<Rightarrow> u8 list option \<Rightarrow> u64 \<Rightarrow> s32 \<Rightarrow> simple_xattrs \<Rightarrow>
     (int \<times> int \<times> simple_xattrs) kres" where
  "simple_xattr_set kmalloc name value sz flags s =
     kbind (new_simple_xattr kmalloc name value sz s) (\<lambda>(r, s).
       case r of
         Inl err \<Rightarrow> Inr (err, -1, s)
       | Inr new_xattr \<Rightarrow>
           (case List.extract (\<lambda>x. name = xa_name x) (xa_head s) of
              Some (before, xattr, after) \<Rightarrow>
                if flags AND XATTR_CREATE \<noteq> 0 then
                  kbind (simple_xattr_free new_xattr s) (\<lambda>s. Inr (- EEXIST, -1, s))
                else
                  let s = s\<lparr>xa_head := before @ (case new_xattr of Some n \<Rightarrow> n # after | None \<Rightarrow> after)\<rparr> in
                  kbind (simple_xattr_free (Some xattr) s) (\<lambda>s. Inr (0, sint (xa_size xattr), s))
            | None \<Rightarrow>
                if flags AND XATTR_REPLACE \<noteq> 0 then
                  kbind (simple_xattr_free new_xattr s) (\<lambda>s. Inr (- ENODATA, -1, s))
                else
                  (case new_xattr of
                     None \<Rightarrow> Inl NullDereference
                   | Some n \<Rightarrow> Inr (0, -1, s\<lparr>xa_head := n # xa_head s\<rparr>))))"

definition simple_xattr_list_add :: "simple_xattr \<Rightarrow> simple_xattrs \<Rightarrow> simple_xattrs" where
  "simple_xattr_list_add new_xattr s = s\<lparr>xa_head := new_xattr # xa_head s\<rparr>"

fun simple_xattrs_free_list :: "simple_xattr list \<Rightarrow> simple_xattrs \<Rightarrow> simple_xattrs kres" where
  "simple_xattrs_free_list [] s = Inr s"
| "simple_xattrs_free_list (x # xs) s = kbind (simple_xattr_free (Some x) s) (simple_xattrs_free_list xs)"

definition simple_xattrs_free :: "simple_xattrs \<Rightarrow> simple_xattrs kres" where
  "simple_xattrs_free s = simple_xattrs_free_list (xa_head s) s"

subsection \<open>The invariant\<close>

text \<open>
  Names are unique, no two allocations overlap, what is allocated is exactly what the list holds (so
  nothing leaks), and the size field is the length of the value.
\<close>

fun xa_ptrs :: "simple_xattr list \<Rightarrow> addr list" where
  "xa_ptrs [] = []"
| "xa_ptrs (x # xs) = xa_name_ptr x # xa_addr x # xa_ptrs xs"

definition xa_sized :: "simple_xattr \<Rightarrow> bool" where
  "xa_sized x = (length (xa_value x) = unat (xa_size x))"

definition xa_inv :: "simple_xattrs \<Rightarrow> bool" where
  "xa_inv s = (distinct (map xa_name (xa_head s)) \<and> distinct (xa_ptrs (xa_head s)) \<and>
     xa_live s = set (xa_ptrs (xa_head s)) \<and> list_all xa_sized (xa_head s))"

text \<open>What the store means: a map from names to values.\<close>

definition xa_map :: "simple_xattrs \<Rightarrow> string \<rightharpoonup> u8 list" where
  "xa_map s = map_of (map (\<lambda>x. (xa_name x, xa_value x)) (xa_head s))"

definition fresh_alloc :: "(addr set \<Rightarrow> addr option) \<Rightarrow> bool" where
  "fresh_alloc kmalloc \<longleftrightarrow> (\<forall>L p. kmalloc L = Some p \<longrightarrow> p \<notin> L)"

lemma xa_ptrs_append [simp]: "xa_ptrs (xs @ ys) = xa_ptrs xs @ xa_ptrs ys"
  by (induction xs) auto

lemma xattr_find_map:
  "map_of (map (\<lambda>x. (xa_name x, xa_value x)) xs) name = map_option xa_value (xattr_find name xs)"
  by (induction xs) auto

lemma xattr_find_member: "xattr_find name xs = Some x \<Longrightarrow> x \<in> set xs \<and> xa_name x = name"
  by (induction xs) (auto split: if_splits)

lemma xattr_find_absent: "xattr_find name xs = None \<longleftrightarrow> name \<notin> xa_name ` set xs"
  by (induction xs) auto

lemma xa_inv_init: "xa_inv simple_xattrs_init"
  by (simp add: xa_inv_def simple_xattrs_init_def)

text \<open>The two results of the search for the name.\<close>

lemma extract_name_None:
  "List.extract (\<lambda>x. name = xa_name x) xs = None \<longleftrightarrow> name \<notin> xa_name ` set xs"
  by (auto simp: extract_None_iff)

lemma extract_name_Some:
  "List.extract (\<lambda>x. name = xa_name x) xs = Some (ys, x, zs) \<Longrightarrow>
   xs = ys @ x # zs \<and> xa_name x = name \<and> name \<notin> xa_name ` set ys"
  by (auto simp: extract_Some_iff)

lemma xa_map_split:
  assumes "xa_inv s" "xa_head s = ys @ x # zs"
  shows "map_of (map (\<lambda>x. (xa_name x, xa_value x)) (ys @ zs)) = (xa_map s)(xa_name x := None)"
    and "xa_name n = xa_name x \<Longrightarrow>
      map_of (map (\<lambda>x. (xa_name x, xa_value x)) (ys @ n # zs)) = (xa_map s)(xa_name x := Some (xa_value n))"
proof -
  have d: "xa_name x \<notin> xa_name ` set ys" "xa_name x \<notin> xa_name ` set zs"
    using assms by (auto simp: xa_inv_def)
  then have "map_of (map (\<lambda>x. (xa_name x, xa_value x)) ys) (xa_name x) = None"
    "map_of (map (\<lambda>x. (xa_name x, xa_value x)) zs) (xa_name x) = None"
    by (simp_all add: map_of_eq_None_iff image_image)
  then show "map_of (map (\<lambda>x. (xa_name x, xa_value x)) (ys @ zs)) = (xa_map s)(xa_name x := None)"
    and "xa_name n = xa_name x \<Longrightarrow>
      map_of (map (\<lambda>x. (xa_name x, xa_value x)) (ys @ n # zs)) = (xa_map s)(xa_name x := Some (xa_value n))"
    using assms(2) by (auto simp: xa_map_def fun_eq_iff map_add_def split: option.splits)
qed

subsection \<open>What each part of an update does\<close>

definition new_for :: "string \<Rightarrow> u8 list option \<Rightarrow> u64 \<Rightarrow> simple_xattr option \<Rightarrow> bool" where
  "new_for name value sz new_xattr \<longleftrightarrow> (case (value, new_xattr) of
       (None, None) \<Rightarrow> True
     | (Some v, Some n) \<Rightarrow> xa_name n = name \<and> xa_value n = take (unat sz) v \<and> xa_size n = sz \<and> xa_sized n
     | _ \<Rightarrow> False)"

definition opt_ptrs :: "simple_xattr option \<Rightarrow> addr list" where
  "opt_ptrs x = (case x of None \<Rightarrow> [] | Some x \<Rightarrow> [xa_name_ptr x, xa_addr x])"

text \<open>The caller's buffer has the bytes it announces.\<close>

definition value_readable :: "u8 list option \<Rightarrow> u64 \<Rightarrow> bool" where
  "value_readable value sz = (case value of None \<Rightarrow> True | Some v \<Rightarrow> unat sz \<le> length v)"

lemma new_simple_xattr_cases:
  assumes "fresh_alloc kmalloc" "value_readable value sz"
  obtains
    (nomem) "new_simple_xattr kmalloc name value sz s = Inr (Inl (- ENOMEM), s)" "value \<noteq> None"
  | (new) new_xattr where "new_simple_xattr kmalloc name value sz s =
        Inr (Inr new_xattr, s\<lparr>xa_live := set (opt_ptrs new_xattr) \<union> xa_live s\<rparr>)"
      "new_for name value sz new_xattr" "distinct (opt_ptrs new_xattr)" "set (opt_ptrs new_xattr) \<inter> xa_live s = {}"
proof (cases "value")
  case None
  then show ?thesis
    by (intro new [of None]) (simp_all add: new_simple_xattr_def new_for_def opt_ptrs_def)
next
  case (Some v)
  then have rd: "read_bytes v (unat sz) = Inr (take (unat sz) v)"
    using assms(2) by (simp add: read_bytes_def value_readable_def)
  show ?thesis
  proof (cases "sizeof_simple_xattr + sz < sizeof_simple_xattr")
    case True
    then show ?thesis using Some by (intro nomem) (simp_all add: new_simple_xattr_def simple_xattr_alloc_def)
  next
    case noovf: False
    show ?thesis
    proof (cases "kmalloc (xa_live s)")
      case None
      then show ?thesis using Some noovf
        by (intro nomem) (simp_all add: new_simple_xattr_def simple_xattr_alloc_def)
    next
      case p: (Some p)
      with assms(1) have pf: "p \<notin> xa_live s" by (auto simp: fresh_alloc_def)
      show ?thesis
      proof (cases "kmalloc (insert p (xa_live s))")
        case None
        then show ?thesis using Some noovf p rd pf
          by (intro nomem) (simp_all add: new_simple_xattr_def simple_xattr_alloc_def kfree_at_def)
      next
        case q: (Some q)
        with assms(1) have qf: "q \<notin> insert p (xa_live s)" by (auto simp: fresh_alloc_def)
        let ?n = "\<lparr>xa_addr = p, xa_name_ptr = q, xa_name = name, xa_size = sz, xa_value = take (unat sz) v\<rparr>"
        show ?thesis
        proof (rule new [of "Some ?n"])
          show "new_simple_xattr kmalloc name value sz s =
              Inr (Inr (Some ?n), s\<lparr>xa_live := set (opt_ptrs (Some ?n)) \<union> xa_live s\<rparr>)"
            using Some noovf p q rd
            by (simp add: new_simple_xattr_def simple_xattr_alloc_def opt_ptrs_def)
          show "new_for name value sz (Some ?n)"
            using Some assms(2) by (simp add: new_for_def xa_sized_def value_readable_def)
          show "distinct (opt_ptrs (Some ?n))" "set (opt_ptrs (Some ?n)) \<inter> xa_live s = {}"
            using pf qf by (auto simp: opt_ptrs_def)
        qed
      qed
    qed
  qed
qed

lemma simple_xattr_free_ok:
  assumes "set (opt_ptrs x) \<subseteq> xa_live s" "distinct (opt_ptrs x)"
  shows "simple_xattr_free x s = Inr (s\<lparr>xa_live := xa_live s - set (opt_ptrs x)\<rparr>)"
proof (cases x)
  case None
  then show ?thesis by (simp add: simple_xattr_free_def opt_ptrs_def)
next
  case (Some y)
  have "xa_live s - {xa_name_ptr y} - {xa_addr y} = xa_live s - {xa_name_ptr y, xa_addr y}" by blast
  with Some assms show ?thesis by (simp add: simple_xattr_free_def opt_ptrs_def kfree_at_def)
qed

subsection \<open>The store refines a map\<close>

definition xattr_spec_set ::
    "string \<Rightarrow> u8 list option \<Rightarrow> s32 \<Rightarrow> (string \<rightharpoonup> u8 list) \<Rightarrow> int \<times> (string \<rightharpoonup> u8 list)" where
  "xattr_spec_set name value flags m =
     (if name \<in> dom m then
        (if flags AND XATTR_CREATE \<noteq> 0 then (- EEXIST, m) else (0, m(name := value)))
      else
        (if flags AND XATTR_REPLACE \<noteq> 0 then (- ENODATA, m) else (0, m(name := value))))"

text \<open>A removal of an attribute that need not exist.\<close>

definition remove_unconditional :: "string \<Rightarrow> u8 list option \<Rightarrow> s32 \<Rightarrow> simple_xattrs \<Rightarrow> bool" where
  "remove_unconditional name value flags s \<longleftrightarrow>
     value = None \<and> name \<notin> dom (xa_map s) \<and> flags AND XATTR_REPLACE = 0"

lemma dom_xa_map: "dom (xa_map s) = xa_name ` set (xa_head s)"
  by (simp add: xa_map_def dom_map_of_conv_image_fst image_image)

lemma xa_live_restore: "set (opt_ptrs x) \<inter> xa_live s = {} \<Longrightarrow>
    s\<lparr>xa_live := set (opt_ptrs x) \<union> xa_live s - set (opt_ptrs x)\<rparr> = s"
  by (simp add: Un_Diff Diff_triv inf_commute)

lemma simple_xattr_free_new:
  assumes "distinct (opt_ptrs n)" "set (opt_ptrs n) \<inter> xa_live s = {}"
  shows "simple_xattr_free n (s\<lparr>xa_live := set (opt_ptrs n) \<union> xa_live s\<rparr>) = Inr s"
  using simple_xattr_free_ok [of n "s\<lparr>xa_live := set (opt_ptrs n) \<union> xa_live s\<rparr>"] assms
    xa_live_restore [OF assms(2)] by simp

lemma xa_inv_add:
  assumes "xa_inv s" "new_for name (Some v) sz (Some n)" "distinct (opt_ptrs (Some n))"
    "set (opt_ptrs (Some n)) \<inter> xa_live s = {}" "name \<notin> xa_name ` set (xa_head s)"
  shows "xa_inv (s\<lparr>xa_head := n # xa_head s, xa_live := set (opt_ptrs (Some n)) \<union> xa_live s\<rparr>)"
  using assms by (auto simp: xa_inv_def new_for_def opt_ptrs_def)

lemma xa_inv_replace:
  assumes "xa_inv s" "new_for name value sz n" "distinct (opt_ptrs n)" "set (opt_ptrs n) \<inter> xa_live s = {}"
    and "xa_head s = ys @ x # zs" "xa_name x = name"
  shows "xa_inv (s\<lparr>xa_head := ys @ (case n of Some n \<Rightarrow> n # zs | None \<Rightarrow> zs),
      xa_live := set (opt_ptrs n) \<union> xa_live s - set (opt_ptrs (Some x))\<rparr>)"
  using assms by (cases n) (auto simp: xa_inv_def new_for_def opt_ptrs_def split: option.splits)

lemma simple_xattr_set_found:
  assumes inv: "xa_inv s" and new: "new_simple_xattr kmalloc name value sz s =
        Inr (Inr n, s\<lparr>xa_live := set (opt_ptrs n) \<union> xa_live s\<rparr>)"
      "new_for name value sz n" "distinct (opt_ptrs n)" "set (opt_ptrs n) \<inter> xa_live s = {}"
    and ex: "List.extract (\<lambda>x. name = xa_name x) (xa_head s) = Some (ys, x, zs)"
    and nc: "flags AND XATTR_CREATE = 0"
  shows "simple_xattr_set kmalloc name value sz flags s = Inr (0, sint (xa_size x),
      s\<lparr>xa_head := ys @ (case n of Some n \<Rightarrow> n # zs | None \<Rightarrow> zs),
        xa_live := set (opt_ptrs n) \<union> xa_live s - set (opt_ptrs (Some x))\<rparr>)"
proof -
  from extract_name_Some [OF ex] have h: "xa_head s = ys @ x # zs" by blast
  have "set (opt_ptrs (Some x)) \<subseteq> xa_live s" "distinct (opt_ptrs (Some x))"
    using inv h by (auto simp: xa_inv_def opt_ptrs_def)
  then show ?thesis
    using simple_xattr_free_ok [of "Some x"
        "s\<lparr>xa_live := set (opt_ptrs n) \<union> xa_live s, xa_head := ys @ (case n of Some n \<Rightarrow> n # zs | None \<Rightarrow> zs)\<rparr>"]
      new(1) ex nc
    by (cases s) (simp add: simple_xattr_set_def le_supI2)
qed

lemma simple_xattr_set_spec:
  assumes fa: "fresh_alloc kmalloc" and vr: "value_readable value sz" and inv: "xa_inv s"
    and safe: "\<not> remove_unconditional name value flags s"
  shows "\<exists>err removed s'. simple_xattr_set kmalloc name value sz flags s = Inr (err, removed, s') \<and> xa_inv s' \<and>
    (err = - ENOMEM \<and> value \<noteq> None \<and> s' = s \<or>
     (err, xa_map s') = xattr_spec_set name (map_option (take (unat sz)) value) flags (xa_map s))"
proof (cases rule: new_simple_xattr_cases [OF fa vr, of name s])
  case 1
  then show ?thesis using inv by (auto simp: simple_xattr_set_def)
next
  case new: (2 n)
  note free = simple_xattr_free_new [OF new(3,4)]
  show ?thesis
  proof (cases "List.extract (\<lambda>x. name = xa_name x) (xa_head s)")
    case None
    then have absent: "name \<notin> xa_name ` set (xa_head s)" by (simp only: extract_name_None not_False_eq_True)
    show ?thesis
    proof (cases "flags AND XATTR_REPLACE = 0")
      case True
      with safe absent obtain v where v: "value = Some v"
        by (auto simp: remove_unconditional_def dom_xa_map)
      with new(2) obtain m where n: "n = Some m" by (auto simp: new_for_def split: option.splits)
      let ?s' = "s\<lparr>xa_head := m # xa_head s, xa_live := set (opt_ptrs n) \<union> xa_live s\<rparr>"
      have "simple_xattr_set kmalloc name value sz flags s = Inr (0, -1, ?s')"
        using new(1) None True n by (cases s) (simp add: simple_xattr_set_def)
      moreover have "xa_inv ?s'" using xa_inv_add [of s name v sz m] inv new v n absent by simp
      moreover have "xa_map ?s' = (xa_map s)(name := map_option (take (unat sz)) value)"
        using v n new(2) by (auto simp: xa_map_def new_for_def)
      then have "xattr_spec_set name (map_option (take (unat sz)) value) flags (xa_map s) = (0, xa_map ?s')"
        using absent True by (simp add: xattr_spec_set_def dom_xa_map)
      ultimately show ?thesis by metis
    next
      case False
      then show ?thesis using new(1) None free inv absent
        by (auto simp: simple_xattr_set_def xattr_spec_set_def dom_xa_map)
    qed
  next
    case (Some r)
    obtain ys x zs where r: "List.extract (\<lambda>x. name = xa_name x) (xa_head s) = Some (ys, x, zs)"
      using Some by (cases r) auto
    note h = extract_name_Some [OF r]
    then have present: "name \<in> dom (xa_map s)" by (auto simp: dom_xa_map)
    show ?thesis
    proof (cases "flags AND XATTR_CREATE = 0")
      case True
      let ?s' = "s\<lparr>xa_head := ys @ (case n of Some n \<Rightarrow> n # zs | None \<Rightarrow> zs),
        xa_live := set (opt_ptrs n) \<union> xa_live s - set (opt_ptrs (Some x))\<rparr>"
      have "xa_inv ?s'" using xa_inv_replace [OF inv new(2-4)] h by blast
      moreover have "xa_map ?s' = (xa_map s)(name := map_option (take (unat sz)) value)"
      proof (cases n)
        case None
        then show ?thesis using new(2) xa_map_split(1) [OF inv, of ys x zs] h
          by (auto simp: new_for_def xa_map_def split: option.splits)
      next
        case (Some m)
        then show ?thesis using new(2) xa_map_split(2) [OF inv, of ys x zs m] h
          by (auto simp: new_for_def xa_map_def split: option.splits)
      qed
      ultimately show ?thesis
        using simple_xattr_set_found [OF inv new r True] present True by (auto simp: xattr_spec_set_def)
    next
      case False
      then show ?thesis using new(1) r free inv present
        by (auto simp: simple_xattr_set_def xattr_spec_set_def)
    qed
  qed
qed

text \<open>
  C25. Updating the attribute list is updating a map: from a well-formed list, with an allocator that
  hands out unused memory and a readable value, \<^verbatim>\<open>simple_xattr_set\<close> returns, keeps the invariant (unique
  names, no leak, no double free) and either runs out of memory and changes nothing or answers and acts
  as the map does, \<^verbatim>\<open>XATTR_CREATE\<close> and \<^verbatim>\<open>XATTR_REPLACE\<close> included. The one exception is a removal
  without \<^verbatim>\<open>XATTR_REPLACE\<close> of a name that is not there, which links a NULL attribute into the list.
\<close>

theorem simple_xattr_set_refines:
  assumes "fresh_alloc kmalloc" "value_readable value sz" "xa_inv s"
  shows "if remove_unconditional name value flags s
     then simple_xattr_set kmalloc name value sz flags s = Inl NullDereference
     else \<exists>err removed s'. simple_xattr_set kmalloc name value sz flags s = Inr (err, removed, s') \<and> xa_inv s' \<and>
       (err = - ENOMEM \<and> value \<noteq> None \<and> s' = s \<or>
        (err, xa_map s') = xattr_spec_set name (map_option (take (unat sz)) value) flags (xa_map s))"
proof (cases "remove_unconditional name value flags s")
  case True
  then have "List.extract (\<lambda>x. name = xa_name x) (xa_head s) = None"
    by (simp only: extract_name_None remove_unconditional_def dom_xa_map not_False_eq_True)
  with True show ?thesis
    by (simp add: simple_xattr_set_def new_simple_xattr_def remove_unconditional_def)
next
  case False
  with simple_xattr_set_spec [OF assms False] show ?thesis by simp
qed

definition next_addr :: "addr set \<Rightarrow> addr option" where
  "next_addr L = (if finite L then Some (Suc (Max (insert 0 L))) else None)"

lemma next_addr_fresh: "fresh_alloc next_addr"
proof -
  have "Suc (Max (insert 0 L)) \<notin> L" if "finite L" for L :: "addr set"
  proof
    assume "Suc (Max (insert 0 L)) \<in> L"
    with that have "Suc (Max (insert 0 L)) \<le> Max (insert 0 L)" by (intro Max_ge) auto
    then show False by simp
  qed
  then show ?thesis by (auto simp: fresh_alloc_def next_addr_def split: if_splits)
qed

lemma simple_xattr_set_refines_witness:
  "\<exists>r s'. simple_xattr_set next_addr ''user.a'' (Some [1, 2]) 2 XATTR_CREATE simple_xattrs_init = Inr (0, r, s') \<and>
     xa_map s' = [''user.a'' \<mapsto> [1, 2]]"
proof -
  have "value_readable (Some [1, 2]) 2" by (simp add: value_readable_def)
  moreover have "\<not> remove_unconditional ''user.a'' (Some [1, 2]) XATTR_CREATE simple_xattrs_init"
    by (simp add: remove_unconditional_def)
  ultimately obtain err r s' where
    e: "simple_xattr_set next_addr ''user.a'' (Some [1, 2]) 2 XATTR_CREATE simple_xattrs_init = Inr (err, r, s')"
    and c: "err = - ENOMEM \<or> (err, xa_map s') =
       xattr_spec_set ''user.a'' (map_option (take (unat (2::u64))) (Some [1, 2])) XATTR_CREATE (xa_map simple_xattrs_init)"
    using simple_xattr_set_refines [OF next_addr_fresh _ xa_inv_init, of "Some [1, 2]" 2 "''user.a''" XATTR_CREATE]
    by auto
  from e have "err = 0"
    by (simp add: simple_xattr_set_def new_simple_xattr_def simple_xattr_alloc_def next_addr_def
        simple_xattrs_init_def sizeof_simple_xattr_def read_bytes_def XATTR_CREATE_def XATTR_REPLACE_def extract_Nil_code)
  with c have "xa_map s' = [''user.a'' \<mapsto> [1, 2]]"
    by (simp add: ENOMEM_def xattr_spec_set_def xa_map_def simple_xattrs_init_def XATTR_CREATE_def XATTR_REPLACE_def)
  with e \<open>err = 0\<close> show ?thesis by blast
qed

subsection \<open>Reading\<close>

lemma size_to_int_small: "unat n < 2 ^ 31 \<Longrightarrow> size_to_int n = int (unat n)"
proof -
  assume a: "unat n < 2 ^ 31"
  then have "int (unat n) < 2 ^ 31" by (metis of_nat_less_numeral_power_cancel_iff)
  moreover from this have u: "uint (ucast n :: 32 word) = int (unat n)"
    by (simp add: unsigned_ucast_eq take_bit_int_eq_self)
  moreover have "signed_take_bit 31 (int (unat n)) = int (unat n)"
    using calculation(1) by (intro signed_take_bit_int_eq_self order_trans [OF _ of_nat_0_le_iff]) simp_all
  ultimately show ?thesis by (simp add: size_to_int_def sint_uint [of "ucast n :: 32 word"])
qed

text \<open>
  A read of a well-formed store: the value's length, or \<^verbatim>\<open>-ENODATA\<close>, or \<^verbatim>\<open>-ERANGE\<close> when the value does not
  fit; the buffer gets exactly the value, only in the first case.
\<close>

lemma simple_xattr_get_spec:
  assumes inv: "xa_inv s" and small: "\<And>v. xa_map s name = Some v \<Longrightarrow> length v < 2 ^ 31"
    and buf: "case buffer of None \<Rightarrow> True | Some b \<Rightarrow> length b = unat sz"
  shows "simple_xattr_get s name buffer sz = Inr
    (case xa_map s name of
       None \<Rightarrow> (- ENODATA, buffer)
     | Some v \<Rightarrow> (case buffer of
          None \<Rightarrow> (int (length v), None)
        | Some b \<Rightarrow> if length b < length v then (- ERANGE, buffer)
                    else (int (length v), Some (v @ drop (length v) b))))"
proof (cases "xattr_find name (xa_head s)")
  case None
  then show ?thesis by (simp add: simple_xattr_get_def xa_map_def xattr_find_map)
next
  case (Some x)
  then have m: "xa_map s name = Some (xa_value x)" by (simp add: xa_map_def xattr_find_map)
  from xattr_find_member [OF Some] inv have "xa_sized x" by (auto simp: xa_inv_def list_all_iff)
  then have l: "unat (xa_size x) = length (xa_value x)" by (simp add: xa_sized_def)
  then have "size_to_int (xa_size x) = int (length (xa_value x))"
    using small [OF m] size_to_int_small [of "xa_size x"] by simp
  then show ?thesis
    using Some m l buf
    by (auto simp: simple_xattr_get_def write_bytes_def word_less_nat_alt split: option.splits)
qed

subsection \<open>Listing\<close>

definition XATTR_SECURITY_PREFIX :: string where "XATTR_SECURITY_PREFIX = ''security.''"
definition XATTR_SYSTEM_PREFIX :: string where "XATTR_SYSTEM_PREFIX = ''system.''"
definition XATTR_TRUSTED_PREFIX :: string where "XATTR_TRUSTED_PREFIX = ''trusted.''"
definition XATTR_USER_PREFIX :: string where "XATTR_USER_PREFIX = ''user.''"
definition XATTR_CUSTOM_PREFIX :: string where "XATTR_CUSTOM_PREFIX = ''custom.''"
definition XATTR_NAME_POSIX_ACL_ACCESS :: string where "XATTR_NAME_POSIX_ACL_ACCESS = ''system.posix_acl_access''"
definition XATTR_NAME_POSIX_ACL_DEFAULT :: string where "XATTR_NAME_POSIX_ACL_DEFAULT = ''system.posix_acl_default''"

lemmas xattr_prefix_defs = XATTR_SECURITY_PREFIX_def XATTR_SYSTEM_PREFIX_def XATTR_TRUSTED_PREFIX_def
  XATTR_USER_PREFIX_def XATTR_CUSTOM_PREFIX_def

text \<open>\<^verbatim>\<open>!strncmp(name, pre, sizeof(pre) - 1)\<close>.\<close>

definition has_prefix :: "string \<Rightarrow> string \<Rightarrow> bool" where
  "has_prefix pre name = (take (length pre) name = pre)"

definition xattr_is_trusted :: "string \<Rightarrow> bool" where
  "xattr_is_trusted name = has_prefix XATTR_TRUSTED_PREFIX name"

text \<open>
  The pair of \<^verbatim>\<open>*buffer\<close>, NULL or the bytes written so far, and \<^verbatim>\<open>*remaining_size\<close>, which is signed but
  compared with a \<^verbatim>\<open>size_t\<close>, hence as an unsigned number.
\<close>

definition xattr_list_one :: "string option \<times> u64 \<Rightarrow> string \<Rightarrow> int \<times> (string option \<times> u64)" where
  "xattr_list_one st name =
     (let (buffer, remaining_size) = st;
          len = of_nat (length name) + 1 in
      case buffer of
        None \<Rightarrow> (0, None, remaining_size - len)
      | Some w \<Rightarrow>
          if remaining_size < len then (- ERANGE, st)
          else (0, Some (w @ name @ [CHR 0x00]), remaining_size - len))"

fun xattr_list_loop :: "bool \<Rightarrow> simple_xattr list \<Rightarrow> string option \<times> u64 \<Rightarrow> int \<times> (string option \<times> u64)" where
  "xattr_list_loop trusted [] st = (0, st)"
| "xattr_list_loop trusted (xattr # xs) st =
     (if \<not> trusted \<and> xattr_is_trusted (xa_name xattr) then xattr_list_loop trusted xs st
      else let (err, st) = xattr_list_one st (xa_name xattr) in
           if err \<noteq> 0 then (err, st) else xattr_list_loop trusted xs st)"

definition simple_xattr_list ::
    "bool \<Rightarrow> super_block \<Rightarrow> 'p inode \<Rightarrow> simple_xattrs \<Rightarrow> string option \<Rightarrow> u64 \<Rightarrow> int \<times> string option" where
  "simple_xattr_list trusted sb inode xattrs buffer sz =
     (let st = (buffer, sz);
          (err, st) = (if IS_POSIXACL sb \<and> i_acl inode \<noteq> AclNull
                       then xattr_list_one st XATTR_NAME_POSIX_ACL_ACCESS else (0, st)) in
      if err \<noteq> 0 then (err, fst st)
      else
        let (err, st) = (if IS_POSIXACL sb \<and> i_default_acl inode \<noteq> AclNull
                         then xattr_list_one st XATTR_NAME_POSIX_ACL_DEFAULT else (0, st)) in
        if err \<noteq> 0 then (err, fst st)
        else
          let (err, st) = xattr_list_loop trusted (xa_head xattrs) st in
          (if err \<noteq> 0 then err else sint (sz - snd st), fst st))"

text \<open>The names a caller is shown, and the bytes that show them.\<close>

definition visible_names :: "bool \<Rightarrow> super_block \<Rightarrow> 'p inode \<Rightarrow> simple_xattrs \<Rightarrow> string list" where
  "visible_names trusted sb inode xattrs =
     (if IS_POSIXACL sb \<and> i_acl inode \<noteq> AclNull then [XATTR_NAME_POSIX_ACL_ACCESS] else []) @
     (if IS_POSIXACL sb \<and> i_default_acl inode \<noteq> AclNull then [XATTR_NAME_POSIX_ACL_DEFAULT] else []) @
     filter (\<lambda>n. trusted \<or> \<not> xattr_is_trusted n) (map xa_name (xa_head xattrs))"

definition names_bytes :: "string list \<Rightarrow> string" where
  "names_bytes ns = concat (map (\<lambda>n. n @ [CHR 0x00]) ns)"

fun list_names :: "string list \<Rightarrow> string option \<times> u64 \<Rightarrow> int \<times> (string option \<times> u64)" where
  "list_names [] st = (0, st)"
| "list_names (n # ns) st = (let (err, st) = xattr_list_one st n in if err \<noteq> 0 then (err, st) else list_names ns st)"

lemma names_bytes_simps [simp]:
  "names_bytes [] = []" "names_bytes (n # ns) = n @ CHR 0x00 # names_bytes ns"
  by (simp_all add: names_bytes_def)

lemma list_names_append:
  "list_names (ms @ ns) st = (let (err, st) = list_names ms st in if err \<noteq> 0 then (err, st) else list_names ns st)"
  by (induction ms arbitrary: st) (auto simp: Let_def split: prod.splits)

lemma xattr_list_loop_names:
  "xattr_list_loop trusted xs st = list_names (filter (\<lambda>n. trusted \<or> \<not> xattr_is_trusted n) (map xa_name xs)) st"
  by (induction xs arbitrary: st) (auto simp: Let_def split: prod.splits)

lemma simple_xattr_list_names:
  "simple_xattr_list trusted sb inode xattrs buffer sz =
     (let (err, st) = list_names (visible_names trusted sb inode xattrs) (buffer, sz) in
      (if err \<noteq> 0 then err else sint (sz - snd st), fst st))"
  by (simp add: simple_xattr_list_def visible_names_def list_names_append xattr_list_loop_names Let_def
      split: prod.splits)

lemma list_names_NULL:
  "list_names ns (None, r) = (0, None, r - of_nat (length (names_bytes ns)))"
  by (induction ns arbitrary: r) (simp_all add: xattr_list_one_def Let_def)

lemma list_names_buffer:
  "length (names_bytes ns) < 2 ^ 64 \<Longrightarrow>
   (if length (names_bytes ns) \<le> unat r
    then list_names ns (Some w, r) = (0, Some (w @ names_bytes ns), r - of_nat (length (names_bytes ns)))
    else \<exists>w' r'. list_names ns (Some w, r) = (- ERANGE, Some (w @ w'), r') \<and> length w' \<le> unat r)"
proof (induction ns arbitrary: w r)
  case (Cons n ns)
  let ?len = "of_nat (length n) + 1 :: u64"
  have "?len = of_nat (length n + 1)" by simp
  moreover have "length n + 1 < 2 ^ LENGTH(64)" using Cons.prems by simp
  ultimately have len: "unat ?len = length n + 1" by (simp only: unat_of_nat mod_less)
  have small: "length (names_bytes ns) < 2 ^ 64" using Cons.prems by simp
  show ?case
  proof (cases "r < ?len")
    case True
    then have "\<not> length (names_bytes (n # ns)) \<le> unat r" using len by (simp add: word_less_nat_alt)
    then show ?thesis using True by (auto simp: xattr_list_one_def Let_def ERANGE_def)
  next
    case False
    then have r: "unat (r - ?len) = unat r - (length n + 1)" "length n + 1 \<le> unat r"
      using len by (simp_all add: word_less_nat_alt unat_sub word_le_nat_alt)
    have one: "list_names (n # ns) (Some w, r) = list_names ns (Some (w @ n @ [CHR 0x00]), r - ?len)"
      using False by (simp add: xattr_list_one_def Let_def)
    show ?thesis
    proof (cases "length (names_bytes (n # ns)) \<le> unat r")
      case True
      then have "length (names_bytes ns) \<le> unat (r - ?len)" using r by simp
      then have "list_names ns (Some (w @ n @ [CHR 0x00]), r - ?len) =
          (0, Some ((w @ n @ [CHR 0x00]) @ names_bytes ns), r - ?len - of_nat (length (names_bytes ns)))"
        using Cons.IH [OF small, of "r - ?len" "w @ n @ [CHR 0x00]"] by (simp only: if_True)
      moreover have "r - ?len - of_nat (length (names_bytes ns)) = r - of_nat (length (names_bytes (n # ns)))"
        by (simp add: algebra_simps)
      ultimately show ?thesis using one True by simp
    next
      case nofit: False
      then have "\<not> length (names_bytes ns) \<le> unat (r - ?len)" using r by simp
      then obtain w' r' where "list_names ns (Some (w @ n @ [CHR 0x00]), r - ?len) =
          (- ERANGE, Some ((w @ n @ [CHR 0x00]) @ w'), r')" "length w' \<le> unat (r - ?len)"
        using Cons.IH [OF small, of "r - ?len" "w @ n @ [CHR 0x00]"] by (auto simp del: append_assoc)
      then show ?thesis using nofit one r by (auto intro!: exI [of _ "n @ CHR 0x00 # w'"])
    qed
  qed
qed simp

lemma sint_of_nat_small: "n < 2 ^ 63 \<Longrightarrow> sint (of_nat n :: u64) = int n"
proof -
  assume a: "n < 2 ^ 63"
  then have "int n < 2 ^ 63" by (metis of_nat_less_numeral_power_cancel_iff)
  then show ?thesis by (simp add: signed_of_nat signed_take_bit_int_eq_self)
qed

text \<open>
  Listing the attributes is exact and stays inside the caller's buffer: without a buffer the answer is
  the number of bytes the list needs; with a buffer that large the answer is the same number and the
  buffer has the visible names in order, each with its terminator; with a smaller one the answer is
  \<^verbatim>\<open>-ERANGE\<close> and at most \<^verbatim>\<open>size\<close> bytes have been written. Names in \<^verbatim>\<open>trusted.\<close> are visible only to
  a privileged caller; names in \<^verbatim>\<open>custom.\<close>, which only a privileged caller may read, are visible to all.
\<close>

lemma simple_xattr_list_exact:
  assumes ns_def: "ns = visible_names trusted sb inode xattrs" and "length (names_bytes ns) < 2 ^ 63"
  shows "simple_xattr_list trusted sb inode xattrs None sz = (int (length (names_bytes ns)), None) \<and>
    (length (names_bytes ns) \<le> unat sz \<longrightarrow>
       simple_xattr_list trusted sb inode xattrs (Some []) sz = (int (length (names_bytes ns)), Some (names_bytes ns))) \<and>
    (unat sz < length (names_bytes ns) \<longrightarrow>
       (\<exists>w. simple_xattr_list trusted sb inode xattrs (Some []) sz = (- ERANGE, Some w) \<and> length w \<le> unat sz)) \<and>
    (\<forall>x \<in> set (xa_head xattrs). xa_name x \<in> set ns \<or> \<not> trusted \<and> xattr_is_trusted (xa_name x)) \<and>
    (\<forall>n \<in> set ns. xattr_is_trusted n \<longrightarrow> trusted)"
proof (intro conjI impI)
  have big: "length (names_bytes ns) < 2 ^ 64" using assms(2) by simp
  note b = list_names_buffer [OF big, of sz "[]"]
  show "simple_xattr_list trusted sb inode xattrs None sz = (int (length (names_bytes ns)), None)"
    using sint_of_nat_small [OF assms(2)]
    by (simp add: simple_xattr_list_names list_names_NULL flip: ns_def)
  show "simple_xattr_list trusted sb inode xattrs (Some []) sz = (int (length (names_bytes ns)), Some (names_bytes ns))"
    if "length (names_bytes ns) \<le> unat sz"
    using sint_of_nat_small [OF assms(2)] b that by (simp add: simple_xattr_list_names flip: ns_def)
  show "\<exists>w. simple_xattr_list trusted sb inode xattrs (Some []) sz = (- ERANGE, Some w) \<and> length w \<le> unat sz"
    if "unat sz < length (names_bytes ns)"
  proof -
    from that b obtain w r where "list_names ns (Some [], sz) = (- ERANGE, Some w, r)" "length w \<le> unat sz" by auto
    then show ?thesis by (simp add: simple_xattr_list_names ERANGE_def flip: ns_def)
  qed
  show "\<forall>x \<in> set (xa_head xattrs). xa_name x \<in> set ns \<or> \<not> trusted \<and> xattr_is_trusted (xa_name x)"
    by (auto simp: ns_def visible_names_def)
  show "\<forall>n \<in> set ns. xattr_is_trusted n \<longrightarrow> trusted"
    by (auto simp: ns_def visible_names_def xattr_is_trusted_def has_prefix_def XATTR_TRUSTED_PREFIX_def
        XATTR_NAME_POSIX_ACL_ACCESS_def XATTR_NAME_POSIX_ACL_DEFAULT_def)
qed

definition demo_xattrs :: simple_xattrs where
  "demo_xattrs = \<lparr>xa_head =
     [\<lparr>xa_addr = 1, xa_name_ptr = 2, xa_name = ''custom.k'', xa_size = 0, xa_value = []\<rparr>,
      \<lparr>xa_addr = 3, xa_name_ptr = 4, xa_name = ''trusted.t'', xa_size = 0, xa_value = []\<rparr>], xa_live = {1, 2, 3, 4}\<rparr>"

lemma simple_xattr_list_exact_witness:
  "simple_xattr_list False \<lparr>s_flags = 0\<rparr> demo_inode demo_xattrs None 0 = (9, None) \<and>
   simple_xattr_list False \<lparr>s_flags = 0\<rparr> demo_inode demo_xattrs (Some []) 9 = (9, Some (''custom.k'' @ [CHR 0x00]))"
proof -
  have v: "visible_names False \<lparr>s_flags = 0\<rparr> demo_inode demo_xattrs = [''custom.k'']"
    by (simp add: visible_names_def demo_xattrs_def IS_POSIXACL_def xattr_is_trusted_def has_prefix_def
        XATTR_TRUSTED_PREFIX_def)
  show ?thesis
    using simple_xattr_list_exact [OF v [symmetric], of 0] simple_xattr_list_exact [OF v [symmetric], of 9] by simp
qed

subsection \<open>The contract of an attribute store\<close>

text \<open>
  What a file system's client relies on: an update either takes effect on its name alone or, with an
  error, not at all. From it follows what a sequence of updates leaves.
\<close>

locale xattr_store =
  fixes inv :: "'s \<Rightarrow> bool"
    and lookup :: "'s \<Rightarrow> string \<rightharpoonup> u8 list"
    and update :: "string \<Rightarrow> u8 list option \<Rightarrow> s32 \<Rightarrow> 's \<Rightarrow> int \<times> 's"
  assumes update_inv: "inv s \<Longrightarrow> inv (snd (update n v f s))"
    and update_ok: "inv s \<Longrightarrow> update n v f s = (0, s') \<Longrightarrow> lookup s' = (lookup s)(n := v)"
    and update_err: "inv s \<Longrightarrow> update n v f s = (e, s') \<Longrightarrow> e \<noteq> 0 \<Longrightarrow> lookup s' = lookup s"
begin

fun run_updates :: "(string \<times> u8 list option \<times> s32) list \<Rightarrow> 's \<Rightarrow> int list \<times> 's" where
  "run_updates [] s = ([], s)"
| "run_updates ((n, v, f) # us) s =
     (let (e, s) = update n v f s; (es, s) = run_updates us s in (e # es, s))"

fun effect :: "(string \<times> u8 list option \<times> s32) list \<Rightarrow> int list \<Rightarrow> (string \<rightharpoonup> u8 list) \<Rightarrow> (string \<rightharpoonup> u8 list)" where
  "effect ((n, v, f) # us) (e # es) m = effect us es (if e = 0 then m(n := v) else m)"
| "effect us es m = m"

lemma run_updates_effect:
  "inv s \<Longrightarrow> run_updates us s = (es, s') \<Longrightarrow> inv s' \<and> lookup s' = effect us es (lookup s)"
proof (induction us arbitrary: s es)
  case (Cons u us)
  obtain n v f where u: "u = (n, v, f)" by (cases u)
  obtain e s1 where e: "update n v f s = (e, s1)" by fastforce
  obtain es1 where es: "run_updates us s1 = (es1, s')" "es = e # es1"
    using Cons.prems(2) by (auto simp: u e Let_def split: prod.splits)
  have "inv s1" using update_inv [OF Cons.prems(1), of n v f] e by simp
  moreover have "lookup s1 = (if e = 0 then (lookup s)(n := v) else lookup s)"
    using update_ok [OF Cons.prems(1)] update_err [OF Cons.prems(1)] e by auto
  ultimately show ?case using Cons.IH [of s1 es1] es by (simp add: u)
qed simp

lemma untouched_name:
  "inv s \<Longrightarrow> run_updates us s = (es, s') \<Longrightarrow> n \<notin> fst ` set us \<Longrightarrow> lookup s' n = lookup s n"
proof -
  assume a: "inv s" "run_updates us s = (es, s')" "n \<notin> fst ` set us"
  have "effect us es m n = m n" for m
    using a(3) by (induction us es m rule: effect.induct) (auto simp: fun_upd_other)
  with run_updates_effect [OF a(1,2)] show ?thesis by simp
qed

end

text \<open>
  The list as a handler uses it: values are at most \<^verbatim>\<open>XATTR_SIZE_MAX\<close> bytes, which the system call checks,
  and a removal passes \<^verbatim>\<open>XATTR_REPLACE\<close>, as \<^verbatim>\<open>__vfs_removexattr\<close> does. An allocator is used only as far as
  it hands out memory that is not in use.
\<close>

definition XATTR_SIZE_MAX :: nat where "XATTR_SIZE_MAX = 65536"

definition checked_alloc :: "(addr set \<Rightarrow> addr option) \<Rightarrow> addr set \<Rightarrow> addr option" where
  "checked_alloc kmalloc L = (case kmalloc L of None \<Rightarrow> None | Some p \<Rightarrow> if p \<in> L then None else Some p)"

definition handler_update ::
    "(addr set \<Rightarrow> addr option) \<Rightarrow> string \<Rightarrow> u8 list option \<Rightarrow> s32 \<Rightarrow> simple_xattrs \<Rightarrow> int \<times> simple_xattrs" where
  "handler_update kmalloc name value flags s =
     (case value of
        Some v \<Rightarrow> if XATTR_SIZE_MAX < length v then (- E2BIG, s)
          else (case simple_xattr_set (checked_alloc kmalloc) name value (of_nat (length v)) flags s of
                  Inr (err, _, s') \<Rightarrow> (err, s')
                | Inl _ \<Rightarrow> (- EFAULT, s))
      | None \<Rightarrow>
          (case simple_xattr_set (checked_alloc kmalloc) name None 0 XATTR_REPLACE s of
             Inr (err, _, s') \<Rightarrow> (err, s')
           | Inl _ \<Rightarrow> (- EFAULT, s)))"

lemma checked_alloc_fresh: "fresh_alloc (checked_alloc kmalloc)"
  by (auto simp: fresh_alloc_def checked_alloc_def split: option.splits if_splits)

lemma checked_alloc_same: "fresh_alloc kmalloc \<Longrightarrow> checked_alloc kmalloc = kmalloc"
  by (auto simp: fresh_alloc_def checked_alloc_def fun_eq_iff split: option.splits)

lemma xattr_spec_set_0: "xattr_spec_set name v flags m = (0, m') \<Longrightarrow> m' = m(name := v)"
  by (auto simp: xattr_spec_set_def EEXIST_def ENODATA_def split: if_splits)

lemma xattr_spec_set_err: "xattr_spec_set name v flags m = (e, m') \<Longrightarrow> e \<noteq> 0 \<Longrightarrow> m' = m"
  by (auto simp: xattr_spec_set_def split: if_splits)

lemma handler_update_spec:
  assumes inv: "xa_inv s" and u: "handler_update kmalloc name value flags s = (err, s')"
  shows "xa_inv s'" "xa_map s' = (if err = 0 then (xa_map s)(name := value) else xa_map s)"
proof -
  have "xa_inv s' \<and> xa_map s' = (if err = 0 then (xa_map s)(name := value) else xa_map s)"
  proof (cases "\<exists>v. value = Some v \<and> XATTR_SIZE_MAX < length v")
    case True
    with u inv show ?thesis by (auto simp: handler_update_def E2BIG_def)
  next
    case False
    define sz where "sz = (case value of None \<Rightarrow> 0 | Some v \<Rightarrow> (of_nat (length v) :: u64))"
    define fl where "fl = (case value of None \<Rightarrow> XATTR_REPLACE | Some v \<Rightarrow> flags)"
    have szv: "unat sz = length v" if "value = Some v" for v
      using that False by (auto simp: sz_def unat_of_nat XATTR_SIZE_MAX_def)
    have rd: "value_readable value sz" using szv by (simp add: value_readable_def split: option.splits)
    have tk: "map_option (take (unat sz)) value = value" using szv by (cases "value") auto
    have "\<not> remove_unconditional name value fl s"
      by (auto simp: remove_unconditional_def fl_def XATTR_REPLACE_def)
    from simple_xattr_set_spec [OF checked_alloc_fresh rd inv this] obtain e r t where
      set: "simple_xattr_set (checked_alloc kmalloc) name value sz fl s = Inr (e, r, t)" "xa_inv t"
        "e = - ENOMEM \<and> t = s \<or> (e, xa_map t) = xattr_spec_set name value fl (xa_map s)"
      unfolding tk by blast
    then have "err = e" "s' = t"
      using u False by (auto simp: handler_update_def sz_def fl_def split: option.splits)
    with set(2,3) show ?thesis
      using xattr_spec_set_0 xattr_spec_set_err by (auto simp: ENOMEM_def) metis+
  qed
  then show "xa_inv s'" "xa_map s' = (if err = 0 then (xa_map s)(name := value) else xa_map s)" by auto
qed

interpretation xstore: xattr_store xa_inv xa_map "handler_update kmalloc" for kmalloc
proof
  show "xa_inv (snd (handler_update kmalloc n v f s))" if "xa_inv s" for s n v f
    using handler_update_spec(1) [OF that] by (metis prod.collapse)
  show "xa_map s' = (xa_map s)(n := v)" if "xa_inv s" "handler_update kmalloc n v f s = (0, s')" for s n v f s'
    using handler_update_spec(2) [OF that] by simp
  show "xa_map s' = xa_map s" if "xa_inv s" "handler_update kmalloc n v f s = (e, s')" "e \<noteq> 0" for s n v f e s'
    using handler_update_spec(2) [OF that(1,2)] that(3) by simp
qed

end
