(* ===== verification/VFS_Xattr.thy ===== *)
theory VFS_Xattr
  imports Simple_Xattr
begin

text \<open>
  The extended attribute calls of \<^verbatim>\<open>fs/xattr.c\<close>, from the handler lookup to the system calls, with the
  \<^verbatim>\<open>custom.\<close> namespace the repository adds. A file system is a list of handlers with their \<^verbatim>\<open>get\<close>,
  \<^verbatim>\<open>set\<close> and \<^verbatim>\<open>list\<close> functions. The state has the inodes by dentry, the notifications sent, the answers that
  \<^verbatim>\<open>break_deleg\<close> will give (leases belong to other processes), and the references and write accesses
  taken. Security modules, path lookup, descriptors and the allocator are fields of \<^verbatim>\<open>xattr_env\<close>. The inode
  lock is held around each \<^verbatim>\<open>_locked\<close> function, so that each is one step. A user pointer is NULL or
  unreadable (\<^verbatim>\<open>None\<close>) or the bytes it points to.
\<close>

subsection \<open>Handlers\<close>

text \<open>A handler has a name or a prefix, never both; \<^verbatim>\<open>struct xattr_handler\<close> says so in its comment.\<close>

datatype handler_match = ByName string | ByPrefix string

record 'p xattr_handler =
  h_match :: handler_match
  h_list :: "('p inode \<Rightarrow> bool) option"
  h_get :: "('p inode \<Rightarrow> string \<Rightarrow> u8 list option \<Rightarrow> u64 \<Rightarrow> int \<times> u8 list option) option"
  h_set :: "('p inode \<Rightarrow> string \<Rightarrow> u8 list option \<Rightarrow> u64 \<Rightarrow> s32 \<Rightarrow> int \<times> 'p inode) option"

definition xattr_prefix :: "'p xattr_handler \<Rightarrow> string" where
  "xattr_prefix handler = (case h_match handler of ByPrefix p \<Rightarrow> p | ByName n \<Rightarrow> n)"

fun strcmp_prefix :: "string \<Rightarrow> string \<Rightarrow> string option" where
  "strcmp_prefix a [] = Some a"
| "strcmp_prefix [] (p # ps) = None"
| "strcmp_prefix (c # cs) (p # ps) = (if c = p then strcmp_prefix cs ps else None)"

definition no_xattr_error :: "'p inode \<Rightarrow> int" where
  "no_xattr_error inode = (if bad_inode inode then - EIO else - EOPNOTSUPP)"

fun resolve_in :: "'p xattr_handler list \<Rightarrow> string \<Rightarrow> int + ('p xattr_handler \<times> string)" where
  "resolve_in [] name = Inl (- EOPNOTSUPP)"
| "resolve_in (handler # handlers) name =
     (case strcmp_prefix name (xattr_prefix handler) of
        None \<Rightarrow> resolve_in handlers name
      | Some n \<Rightarrow>
          (case h_match handler of
             ByName _ \<Rightarrow> if n = [] then Inr (handler, n) else resolve_in handlers name
           | ByPrefix _ \<Rightarrow> if n = [] then Inl (- EINVAL) else Inr (handler, n)))"

definition xattr_resolve_name ::
    "'p xattr_handler list option \<Rightarrow> 'p inode \<Rightarrow> string \<Rightarrow> int + ('p xattr_handler \<times> string)" where
  "xattr_resolve_name s_xattr inode name =
     (if i_opflags inode AND IOP_XATTR = 0 then Inl (no_xattr_error inode)
      else case s_xattr of None \<Rightarrow> Inl (- EOPNOTSUPP) | Some handlers \<Rightarrow> resolve_in handlers name)"

definition xattr_supported_namespace :: "'p xattr_handler list option \<Rightarrow> 'p inode \<Rightarrow> string \<Rightarrow> int" where
  "xattr_supported_namespace s_xattr inode pre =
     (if i_opflags inode AND IOP_XATTR = 0 then no_xattr_error inode
      else case s_xattr of
        None \<Rightarrow> - EOPNOTSUPP
      | Some handlers \<Rightarrow> if list_ex (\<lambda>h. has_prefix pre (xattr_prefix h)) handlers then 0 else - EOPNOTSUPP)"

subsection \<open>Permission\<close>

definition xattr_permission ::
    "('p, 'e) vfs_env_scheme \<Rightarrow> super_block \<Rightarrow> 'p inode \<Rightarrow> string \<Rightarrow> s32 \<Rightarrow> int \<times> 'p inode" where
  "xattr_permission env sb inode name msk =
     (let refused = (if msk AND MAY_WRITE \<noteq> 0 then - EPERM else - ENODATA) in
      if msk AND MAY_WRITE \<noteq> 0 \<and> (IS_IMMUTABLE inode \<or> IS_APPEND inode) then (- EPERM, inode)
      else if msk AND MAY_WRITE \<noteq> 0 \<and> HAS_UNMAPPED_ID env inode then (- EPERM, inode)
      else if has_prefix XATTR_CUSTOM_PREFIX name then
        (if \<not> capable env CAP_SYS_ADMIN then refused else 0, inode)
      else if has_prefix XATTR_SECURITY_PREFIX name \<or> has_prefix XATTR_SYSTEM_PREFIX name then (0, inode)
      else if has_prefix XATTR_TRUSTED_PREFIX name then
        (if \<not> capable env CAP_SYS_ADMIN then refused else 0, inode)
      else if has_prefix XATTR_USER_PREFIX name \<and> \<not> S_ISREG (i_mode inode) \<and> \<not> S_ISDIR (i_mode inode)
        then (refused, inode)
      else if has_prefix XATTR_USER_PREFIX name \<and> S_ISDIR (i_mode inode) \<and> i_mode inode AND S_ISVTX \<noteq> 0 \<and>
              msk AND MAY_WRITE \<noteq> 0 \<and> \<not> inode_owner_or_capable env inode
        then (- EPERM, inode)
      else inode_permission env sb inode msk)"

subsection \<open>The state and the environment\<close>

datatype xattr_event =
    FsnotifyXattr addr
  | PostSetxattr addr string "u8 list option" u64 s32
  | PostRemovexattr addr string

record 'p xattr_state =
  d_inode :: "addr \<Rightarrow> 'p inode"
  xevents :: "xattr_event list"
  xbreaks :: "int list"
  xwriters :: "addr \<Rightarrow> nat"
  xrefs :: "addr \<Rightarrow> nat"

record 'p xattr_env = "'p vfs_env" +
  lsm_setxattr :: "'p inode \<Rightarrow> string \<Rightarrow> u8 list option \<Rightarrow> u64 \<Rightarrow> s32 \<Rightarrow> int"
  lsm_getxattr :: "'p inode \<Rightarrow> string \<Rightarrow> int"
  lsm_listxattr :: "'p inode \<Rightarrow> int"
  lsm_removexattr :: "'p inode \<Rightarrow> string \<Rightarrow> int"
  lsm_setsecurity :: "'p inode \<Rightarrow> string \<Rightarrow> u8 list option \<Rightarrow> u64 \<Rightarrow> s32 \<Rightarrow> int \<times> 'p inode"
  lsm_getsecurity :: "'p inode \<Rightarrow> string \<Rightarrow> int + u8 list"
  lsm_listsecurity :: "'p inode \<Rightarrow> string option \<Rightarrow> u64 \<Rightarrow> int \<times> string option"
  cap_convert_nscap :: "'p inode \<Rightarrow> u8 list option \<Rightarrow> u64 \<Rightarrow> int + u8 list"
  i_op_listxattr :: "('p inode \<Rightarrow> string option \<Rightarrow> u64 \<Rightarrow> int \<times> string option) option"
  acl_from_user :: "'p inode \<Rightarrow> u8 list option \<Rightarrow> u8 list option"
  acl_to_user :: "'p inode \<Rightarrow> u8 list option \<Rightarrow> u8 list option"
  can_alloc :: "u64 \<Rightarrow> bool"
  user_path_at :: "string \<Rightarrow> u32 \<Rightarrow> int + (addr \<times> addr)"
  fdget :: "int \<Rightarrow> (addr \<times> addr) option"
  mnt_want_write :: "addr \<Rightarrow> int"

record 'p xattr_fs =
  fs_sb :: super_block
  fs_xattr :: "'p xattr_handler list option"

definition put_inode :: "addr \<Rightarrow> 'p inode \<Rightarrow> 'p xattr_state \<Rightarrow> 'p xattr_state" where
  "put_inode d inode st = st\<lparr>d_inode := (d_inode st)(d := inode)\<rparr>"

definition log_event :: "xattr_event \<Rightarrow> 'p xattr_state \<Rightarrow> 'p xattr_state" where
  "log_event e st = st\<lparr>xevents := xevents st @ [e]\<rparr>"

text \<open>One call of \<^verbatim>\<open>break_deleg\<close>: no lease is left when the list of answers is used up.\<close>

definition break_deleg :: "'p xattr_state \<Rightarrow> int \<times> 'p xattr_state" where
  "break_deleg st = (case xbreaks st of [] \<Rightarrow> (0, st) | r # rs \<Rightarrow> (r, st\<lparr>xbreaks := rs\<rparr>))"

definition EWOULDBLOCK :: int where "EWOULDBLOCK = EAGAIN"

text \<open>The answer and whether \<^verbatim>\<open>delegated_inode\<close> was set.\<close>

definition try_break_deleg :: "'p xattr_state \<Rightarrow> int \<times> bool \<times> 'p xattr_state" where
  "try_break_deleg st = (let (ret, st) = break_deleg st in (ret, ret = - EWOULDBLOCK, st))"

subsection \<open>Setting\<close>

definition u_vfs_setxattr ::
    "'p xattr_fs \<Rightarrow> 'p inode \<Rightarrow> string \<Rightarrow> u8 list option \<Rightarrow> u64 \<Rightarrow> s32 \<Rightarrow> int \<times> 'p inode" where
  "u_vfs_setxattr fs inode name value sz flags =
     (case xattr_resolve_name (fs_xattr fs) inode name of
        Inl err \<Rightarrow> (err, inode)
      | Inr (handler, name) \<Rightarrow>
          (case h_set handler of
             None \<Rightarrow> (- EOPNOTSUPP, inode)
           | Some set_fn \<Rightarrow> set_fn inode name (if sz = 0 then Some [] else value) sz flags))"

definition u_vfs_setxattr_noperm ::
    "'p xattr_env \<Rightarrow> 'p xattr_fs \<Rightarrow> addr \<Rightarrow> string \<Rightarrow> u8 list option \<Rightarrow> u64 \<Rightarrow> s32 \<Rightarrow> 'p xattr_state \<Rightarrow>
     int \<times> 'p xattr_state" where
  "u_vfs_setxattr_noperm env fs d name value sz flags st =
     (let issec = has_prefix XATTR_SECURITY_PREFIX name;
          inode = d_inode st d;
          inode = (if issec then inode\<lparr>i_flags := i_flags inode AND NOT S_NOSEC\<rparr> else inode);
          st = put_inode d inode st in
      if i_opflags inode AND IOP_XATTR = 0 \<and> bad_inode inode then (- EIO, st)
      else
        let (error, st) =
          (if i_opflags inode AND IOP_XATTR \<noteq> 0 then
             let (error, inode) = u_vfs_setxattr fs inode name value sz flags;
                 st = put_inode d inode st in
             (error, if error = 0 then log_event (PostSetxattr d name value sz flags) (log_event (FsnotifyXattr d) st)
                     else st)
           else (- EAGAIN, st)) in
        if error \<noteq> - EAGAIN then (error, st)
        else if issec then
          let suffix = drop (length XATTR_SECURITY_PREFIX) name;
              (error, inode) = lsm_setsecurity env (d_inode st d) suffix value sz flags;
              st = put_inode d inode st in
          (error, if error = 0 then log_event (FsnotifyXattr d) st else st)
        else (- EOPNOTSUPP, st))"

definition u_vfs_setxattr_locked ::
    "'p xattr_env \<Rightarrow> 'p xattr_fs \<Rightarrow> addr \<Rightarrow> string \<Rightarrow> u8 list option \<Rightarrow> u64 \<Rightarrow> s32 \<Rightarrow> 'p xattr_state \<Rightarrow>
     int \<times> bool \<times> 'p xattr_state" where
  "u_vfs_setxattr_locked env fs d name value sz flags st =
     (let (error, inode) = xattr_permission env (fs_sb fs) (d_inode st d) name MAY_WRITE;
          st = put_inode d inode st in
      if error \<noteq> 0 then (error, False, st)
      else
        let error = lsm_setxattr env (d_inode st d) name value sz flags in
        if error \<noteq> 0 then (error, False, st)
        else
          let (error, delegated, st) = try_break_deleg st in
          if error \<noteq> 0 then (error, delegated, st)
          else
            let (error, st) = u_vfs_setxattr_noperm env fs d name value sz flags st in
            (error, delegated, st))"

lemma break_deleg_shorter: "break_deleg st = (r, st') \<Longrightarrow> r \<noteq> 0 \<Longrightarrow> length (xbreaks st') < length (xbreaks st)"
  by (auto simp: break_deleg_def split: list.splits)

lemma break_deleg_le: "break_deleg st = (r, st') \<Longrightarrow> length (xbreaks st') \<le> length (xbreaks st)"
  by (auto simp: break_deleg_def split: list.splits)

lemma try_break_deleg_delegated:
  "try_break_deleg st = (r, True, st') \<Longrightarrow> r \<noteq> 0 \<and> length (xbreaks st') < length (xbreaks st)"
  by (auto simp: try_break_deleg_def EWOULDBLOCK_def EAGAIN_def split: prod.splits dest: break_deleg_shorter)

lemma put_inode_simps [simp]:
  "xbreaks (put_inode d i st) = xbreaks st" "xevents (put_inode d i st) = xevents st"
  "xwriters (put_inode d i st) = xwriters st" "xrefs (put_inode d i st) = xrefs st"
  "d_inode (put_inode d i st) = (d_inode st)(d := i)"
  by (simp_all add: put_inode_def)

lemma log_event_simps [simp]:
  "xbreaks (log_event e st) = xbreaks st" "xevents (log_event e st) = xevents st @ [e]"
  "xwriters (log_event e st) = xwriters st" "xrefs (log_event e st) = xrefs st"
  "d_inode (log_event e st) = d_inode st"
  by (simp_all add: log_event_def)

lemma setxattr_locked_delegated:
  "u_vfs_setxattr_locked env fs d name value sz flags st = (r, True, st') \<Longrightarrow>
   length (xbreaks st') < length (xbreaks st)"
  by (auto simp: u_vfs_setxattr_locked_def Let_def split: prod.splits if_splits
      dest!: try_break_deleg_delegated)

lemma setxattr_retry_shorter:
  "u_vfs_setxattr_locked env fs d name value sz flags st = (e, True, st1) \<Longrightarrow> break_deleg st1 = (r, st2) \<Longrightarrow>
   length (xbreaks st2) < length (xbreaks st)"
  by (meson break_deleg_le order.strict_trans1 setxattr_locked_delegated)

text \<open>
  The loop \<^verbatim>\<open>retry_deleg\<close>: a retry follows an answer of \<^verbatim>\<open>break_deleg\<close> that was not 0, so it ends when the
  leases do.
\<close>

function setxattr_retry ::
    "'p xattr_env \<Rightarrow> 'p xattr_fs \<Rightarrow> addr \<Rightarrow> string \<Rightarrow> u8 list option \<Rightarrow> u64 \<Rightarrow> s32 \<Rightarrow> 'p xattr_state \<Rightarrow>
     int \<times> 'p xattr_state" where
  "setxattr_retry env fs d name value sz flags st =
     (let (error, delegated, st1) = u_vfs_setxattr_locked env fs d name value sz flags st in
      if delegated then
        let (error, st2) = break_deleg st1 in
        if error = 0 then setxattr_retry env fs d name value sz flags st2 else (error, st2)
      else (error, st1))"
  by auto
termination
  by (relation "measure (\<lambda>(env, fs, d, name, value, sz, flags, st). length (xbreaks st))")
     (auto dest: setxattr_retry_shorter [OF sym sym])

definition XATTR_NAME_CAPS :: string where "XATTR_NAME_CAPS = ''security.capability''"

definition vfs_setxattr ::
    "'p xattr_env \<Rightarrow> 'p xattr_fs \<Rightarrow> addr \<Rightarrow> string \<Rightarrow> u8 list option \<Rightarrow> u64 \<Rightarrow> s32 \<Rightarrow> 'p xattr_state \<Rightarrow>
     int \<times> 'p xattr_state" where
  "vfs_setxattr env fs d name value sz flags st =
     (if sz \<noteq> 0 \<and> name = XATTR_NAME_CAPS then
        (case cap_convert_nscap env (d_inode st d) value sz of
           Inl error \<Rightarrow> (error, st)
         | Inr v \<Rightarrow> setxattr_retry env fs d name (Some v) (of_nat (length v)) flags st)
      else setxattr_retry env fs d name value sz flags st)"

subsection \<open>Reading\<close>

text \<open>A value or an error, with the buffer; the values are those of \<^verbatim>\<open>ssize_t\<close>.\<close>

definition xattr_getsecurity ::
    "'p xattr_env \<Rightarrow> 'p inode \<Rightarrow> string \<Rightarrow> u8 list option \<Rightarrow> u64 \<Rightarrow> (int \<times> u8 list option) kres" where
  "xattr_getsecurity env inode name value sz =
     (case lsm_getsecurity env inode name of
        Inl error \<Rightarrow> Inr (error, value)
      | Inr bs \<Rightarrow>
          (case value of
             None \<Rightarrow> Inr (int (length bs), value)
           | Some buf \<Rightarrow>
               if sz = 0 then Inr (int (length bs), value)
               else if unat sz < length bs then Inr (- ERANGE, value)
               else kbind (write_bytes buf bs) (\<lambda>buf. Inr (int (length bs), Some buf))))"

definition u_vfs_getxattr ::
    "'p xattr_fs \<Rightarrow> 'p inode \<Rightarrow> string \<Rightarrow> u8 list option \<Rightarrow> u64 \<Rightarrow> int \<times> u8 list option" where
  "u_vfs_getxattr fs inode name value sz =
     (case xattr_resolve_name (fs_xattr fs) inode name of
        Inl err \<Rightarrow> (err, value)
      | Inr (handler, name) \<Rightarrow>
          (case h_get handler of
             None \<Rightarrow> (- EOPNOTSUPP, value)
           | Some get_fn \<Rightarrow> get_fn inode name value sz))"

definition vfs_getxattr_alloc ::
    "'p xattr_env \<Rightarrow> 'p xattr_fs \<Rightarrow> addr \<Rightarrow> string \<Rightarrow> u8 list option \<Rightarrow> u64 \<Rightarrow> 'p xattr_state \<Rightarrow>
     int \<times> u8 list option \<times> 'p xattr_state" where
  "vfs_getxattr_alloc env fs d name xattr_value xattr_size st =
     (let (error, inode) = xattr_permission env (fs_sb fs) (d_inode st d) name MAY_READ;
          st = put_inode d inode st in
      if error \<noteq> 0 then (error, xattr_value, st)
      else case xattr_resolve_name (fs_xattr fs) inode name of
        Inl err \<Rightarrow> (err, xattr_value, st)
      | Inr (handler, name) \<Rightarrow>
          (case h_get handler of
             None \<Rightarrow> (- EOPNOTSUPP, xattr_value, st)
           | Some get_fn \<Rightarrow>
               let error = fst (get_fn inode name None 0) in
               if error < 0 then (error, xattr_value, st)
               else
                 let realloc = (xattr_value = None \<or> xattr_size < of_int error) in
                 if realloc \<and> \<not> can_alloc env (of_int error + 1) then (- ENOMEM, xattr_value, st)
                 else
                   let value = (if realloc then Some (replicate (nat error + 1) 0) else xattr_value);
                       (error, value) = get_fn inode name value (of_int error) in
                   (error, value, st)))"

definition vfs_getxattr ::
    "'p xattr_env \<Rightarrow> 'p xattr_fs \<Rightarrow> addr \<Rightarrow> string \<Rightarrow> u8 list option \<Rightarrow> u64 \<Rightarrow> 'p xattr_state \<Rightarrow>
     (int \<times> u8 list option \<times> 'p xattr_state) kres" where
  "vfs_getxattr env fs d name value sz st =
     (let (error, inode) = xattr_permission env (fs_sb fs) (d_inode st d) name MAY_READ;
          st = put_inode d inode st in
      if error \<noteq> 0 then Inr (error, value, st)
      else
        let error = lsm_getxattr env inode name in
        if error \<noteq> 0 then Inr (error, value, st)
        else
          let nolsm = (let (r, value) = u_vfs_getxattr fs inode name value sz in Inr (r, value, st)) in
          if has_prefix XATTR_SECURITY_PREFIX name then
            kbind (xattr_getsecurity env inode (drop (length XATTR_SECURITY_PREFIX) name) value sz) (\<lambda>(ret, value).
              if ret = - EOPNOTSUPP then nolsm else Inr (ret, value, st))
          else nolsm)"

text \<open>
  In \<^verbatim>\<open>vfs_listxattr\<close> the comparison of \<^verbatim>\<open>error\<close>, signed, with \<^verbatim>\<open>size\<close>, unsigned, is one of unsigned numbers.
\<close>

definition vfs_listxattr ::
    "'p xattr_env \<Rightarrow> 'p inode \<Rightarrow> string option \<Rightarrow> u64 \<Rightarrow> int \<times> string option" where
  "vfs_listxattr env inode lst sz =
     (let error = lsm_listxattr env inode in
      if error \<noteq> 0 then (error, lst)
      else
        let by_lsm =
          (let (error, lst) = lsm_listsecurity env inode lst sz in
           (if sz \<noteq> 0 \<and> sz < word_of_int error then - ERANGE else error, lst)) in
        case i_op_listxattr env of
          Some list_fn \<Rightarrow> if i_opflags inode AND IOP_XATTR \<noteq> 0 then list_fn inode lst sz else by_lsm
        | None \<Rightarrow> by_lsm)"

subsection \<open>Removing\<close>

definition u_vfs_removexattr :: "'p xattr_fs \<Rightarrow> 'p inode \<Rightarrow> string \<Rightarrow> int \<times> 'p inode" where
  "u_vfs_removexattr fs inode name =
     (case xattr_resolve_name (fs_xattr fs) inode name of
        Inl err \<Rightarrow> (err, inode)
      | Inr (handler, name) \<Rightarrow>
          (case h_set handler of
             None \<Rightarrow> (- EOPNOTSUPP, inode)
           | Some set_fn \<Rightarrow> set_fn inode name None 0 XATTR_REPLACE))"

definition u_vfs_removexattr_locked ::
    "'p xattr_env \<Rightarrow> 'p xattr_fs \<Rightarrow> addr \<Rightarrow> string \<Rightarrow> 'p xattr_state \<Rightarrow> int \<times> bool \<times> 'p xattr_state" where
  "u_vfs_removexattr_locked env fs d name st =
     (let (error, inode) = xattr_permission env (fs_sb fs) (d_inode st d) name MAY_WRITE;
          st = put_inode d inode st in
      if error \<noteq> 0 then (error, False, st)
      else
        let error = lsm_removexattr env (d_inode st d) name in
        if error \<noteq> 0 then (error, False, st)
        else
          let (error, delegated, st) = try_break_deleg st in
          if error \<noteq> 0 then (error, delegated, st)
          else
            let (error, inode) = u_vfs_removexattr fs (d_inode st d) name;
                st = put_inode d inode st in
            (error, delegated,
             if error = 0 then log_event (PostRemovexattr d name) (log_event (FsnotifyXattr d) st) else st))"

lemma removexattr_locked_delegated:
  "u_vfs_removexattr_locked env fs d name st = (r, True, st') \<Longrightarrow> length (xbreaks st') < length (xbreaks st)"
  by (auto simp: u_vfs_removexattr_locked_def Let_def split: prod.splits if_splits
      dest!: try_break_deleg_delegated)

lemma removexattr_retry_shorter:
  "u_vfs_removexattr_locked env fs d name st = (e, True, st1) \<Longrightarrow> break_deleg st1 = (r, st2) \<Longrightarrow>
   length (xbreaks st2) < length (xbreaks st)"
  by (meson break_deleg_le order.strict_trans1 removexattr_locked_delegated)

function vfs_removexattr ::
    "'p xattr_env \<Rightarrow> 'p xattr_fs \<Rightarrow> addr \<Rightarrow> string \<Rightarrow> 'p xattr_state \<Rightarrow> int \<times> 'p xattr_state" where
  "vfs_removexattr env fs d name st =
     (let (error, delegated, st1) = u_vfs_removexattr_locked env fs d name st in
      if delegated then
        let (error, st2) = break_deleg st1 in
        if error = 0 then vfs_removexattr env fs d name st2 else (error, st2)
      else (error, st1))"
  by auto
termination
  by (relation "measure (\<lambda>(env, fs, d, name, st). length (xbreaks st))")
     (auto dest: removexattr_retry_shorter [OF sym sym])

declare setxattr_retry.simps [simp del] vfs_removexattr.simps [simp del]

subsection \<open>User memory\<close>

definition XATTR_NAME_MAX :: nat where "XATTR_NAME_MAX = 255"
definition XATTR_LIST_MAX :: nat where "XATTR_LIST_MAX = 65536"

text \<open>\<^verbatim>\<open>strncpy_from_user\<close>: the length of the string, or the room when it does not end within it.\<close>

definition strncpy_from_user :: "string option \<Rightarrow> nat \<Rightarrow> int \<times> string" where
  "strncpy_from_user user count = (case user of
       None \<Rightarrow> (- EFAULT, [])
     | Some name \<Rightarrow> (int (min (length name) count), take count name))"

definition vmemdup_user :: "'p xattr_env \<Rightarrow> u8 list option \<Rightarrow> u64 \<Rightarrow> int + u8 list" where
  "vmemdup_user env user sz =
     (if \<not> can_alloc env sz then Inl (- ENOMEM)
      else case user of
        None \<Rightarrow> Inl (- EFAULT)
      | Some bs \<Rightarrow> if length bs < unat sz then Inl (- EFAULT) else Inr (take (unat sz) bs))"

text \<open>\<^verbatim>\<open>copy_to_user\<close> of the first \<open>n\<close> bytes of a kernel buffer; \<open>None\<close> is a fault.\<close>

definition copy_to_user :: "'a list option \<Rightarrow> 'a list \<Rightarrow> nat \<Rightarrow> 'a list option" where
  "copy_to_user user k n = (case user of
       None \<Rightarrow> None
     | Some u \<Rightarrow> if length u < n then None else Some (take n k @ drop n u))"

subsection \<open>System calls that set\<close>

definition setxattr_copy ::
    "'p xattr_env \<Rightarrow> string option \<Rightarrow> u8 list option \<Rightarrow> u64 \<Rightarrow> s32 \<Rightarrow> int + (string \<times> u8 list option)" where
  "setxattr_copy env name cvalue sz flags =
     (if flags AND NOT (XATTR_CREATE OR XATTR_REPLACE) \<noteq> 0 then Inl (- EINVAL)
      else
        let (error, kname) = strncpy_from_user name (XATTR_NAME_MAX + 1) in
        if error = 0 \<or> error = int (XATTR_NAME_MAX + 1) then Inl (- ERANGE)
        else if error < 0 then Inl error
        else if sz = 0 then Inr (kname, None)
        else if XATTR_SIZE_MAX < unat sz then Inl (- E2BIG)
        else case vmemdup_user env cvalue sz of
          Inl error \<Rightarrow> Inl error
        | Inr kvalue \<Rightarrow> Inr (kname, Some kvalue))"

definition setxattr_convert ::
    "'p xattr_env \<Rightarrow> 'p inode \<Rightarrow> string \<Rightarrow> u8 list option \<Rightarrow> u64 \<Rightarrow> u8 list option" where
  "setxattr_convert env inode kname kvalue sz =
     (if sz \<noteq> 0 \<and> (kname = XATTR_NAME_POSIX_ACL_ACCESS \<or> kname = XATTR_NAME_POSIX_ACL_DEFAULT)
      then acl_from_user env inode kvalue else kvalue)"

definition do_setxattr ::
    "'p xattr_env \<Rightarrow> 'p xattr_fs \<Rightarrow> addr \<Rightarrow> string \<Rightarrow> u8 list option \<Rightarrow> u64 \<Rightarrow> s32 \<Rightarrow> 'p xattr_state \<Rightarrow>
     int \<times> 'p xattr_state" where
  "do_setxattr env fs d kname kvalue sz flags st =
     vfs_setxattr env fs d kname (setxattr_convert env (d_inode st d) kname kvalue sz) sz flags st"

definition setxattr ::
    "'p xattr_env \<Rightarrow> 'p xattr_fs \<Rightarrow> addr \<Rightarrow> string option \<Rightarrow> u8 list option \<Rightarrow> u64 \<Rightarrow> s32 \<Rightarrow> 'p xattr_state \<Rightarrow>
     int \<times> 'p xattr_state" where
  "setxattr env fs d name value sz flags st =
     (case setxattr_copy env name value sz flags of
        Inl error \<Rightarrow> (error, st)
      | Inr (kname, kvalue) \<Rightarrow> do_setxattr env fs d kname kvalue sz flags st)"

definition ESTALE :: int where "ESTALE = 116"
definition LOOKUP_FOLLOW :: u32 where "LOOKUP_FOLLOW = 1"
definition LOOKUP_REVAL :: u32 where "LOOKUP_REVAL = 0x20"

definition retry_estale :: "int \<Rightarrow> u32 \<Rightarrow> bool" where
  "retry_estale error flags = (error = - ESTALE \<and> flags AND LOOKUP_REVAL = 0)"

text \<open>
  The loop \<^verbatim>\<open>retry\<close> of the calls on a path: a second round has \<^verbatim>\<open>LOOKUP_REVAL\<close> set, so there is no third.
  The round is the body from \<^verbatim>\<open>user_path_at\<close> to \<^verbatim>\<open>path_put\<close>; an error of the lookup returns at once, which
  the round shows by \<^verbatim>\<open>Inl\<close>.
\<close>

definition path_loop ::
    "(u32 \<Rightarrow> 's \<Rightarrow> (int + (int \<times> 'r)) \<times> 's) \<Rightarrow> 'r \<Rightarrow> u32 \<Rightarrow> 's \<Rightarrow> (int \<times> 'r) \<times> 's" where
  "path_loop round r0 lookup_flags st =
     (case round lookup_flags st of
        (Inl error, st) \<Rightarrow> ((error, r0), st)
      | (Inr (error, r), st) \<Rightarrow>
          if retry_estale error lookup_flags then
            (case round (lookup_flags OR LOOKUP_REVAL) st of
               (Inl error, st) \<Rightarrow> ((error, r), st)
             | (Inr res, st) \<Rightarrow> (res, st))
          else ((error, r), st))"

definition path_get_ref :: "addr \<Rightarrow> 'p xattr_state \<Rightarrow> 'p xattr_state" where
  "path_get_ref d st = st\<lparr>xrefs := (xrefs st)(d := xrefs st d + 1)\<rparr>"

definition path_put :: "addr \<Rightarrow> 'p xattr_state \<Rightarrow> 'p xattr_state" where
  "path_put d st = st\<lparr>xrefs := (xrefs st)(d := xrefs st d - 1)\<rparr>"

definition want_write :: "addr \<Rightarrow> 'p xattr_state \<Rightarrow> 'p xattr_state" where
  "want_write mnt st = st\<lparr>xwriters := (xwriters st)(mnt := xwriters st mnt + 1)\<rparr>"

definition mnt_drop_write :: "addr \<Rightarrow> 'p xattr_state \<Rightarrow> 'p xattr_state" where
  "mnt_drop_write mnt st = st\<lparr>xwriters := (xwriters st)(mnt := xwriters st mnt - 1)\<rparr>"

text \<open>The write access that a change of a file needs, shared by the calls that set and remove.\<close>

definition with_write ::
    "'p xattr_env \<Rightarrow> addr \<Rightarrow> ('p xattr_state \<Rightarrow> int \<times> 'p xattr_state) \<Rightarrow> 'p xattr_state \<Rightarrow> int \<times> 'p xattr_state" where
  "with_write env mnt body st =
     (let error = mnt_want_write env mnt in
      if error \<noteq> 0 then (error, st)
      else let (error, st) = body (want_write mnt st) in (error, mnt_drop_write mnt st))"

definition path_setxattr ::
    "'p xattr_env \<Rightarrow> 'p xattr_fs \<Rightarrow> string \<Rightarrow> string option \<Rightarrow> u8 list option \<Rightarrow> u64 \<Rightarrow> s32 \<Rightarrow> u32 \<Rightarrow>
     'p xattr_state \<Rightarrow> int \<times> 'p xattr_state" where
  "path_setxattr env fs pathname name value sz flags lookup_flags st =
     (let ((error, _), st) = path_loop (\<lambda>lookup_flags st.
        case user_path_at env pathname lookup_flags of
          Inl error \<Rightarrow> (Inl error, st)
        | Inr (mnt, d) \<Rightarrow>
            let (error, st) = with_write env mnt (setxattr env fs d name value sz flags) (path_get_ref d st) in
            (Inr (error, ()), path_put d st)) () lookup_flags st
      in (error, st))"

definition sys_setxattr where
  "sys_setxattr env fs pathname name value sz flags st =
     path_setxattr env fs pathname name value sz flags LOOKUP_FOLLOW st"

definition sys_lsetxattr where
  "sys_lsetxattr env fs pathname name value sz flags st =
     path_setxattr env fs pathname name value sz flags 0 st"

definition sys_fsetxattr ::
    "'p xattr_env \<Rightarrow> 'p xattr_fs \<Rightarrow> int \<Rightarrow> string option \<Rightarrow> u8 list option \<Rightarrow> u64 \<Rightarrow> s32 \<Rightarrow>
     'p xattr_state \<Rightarrow> int \<times> 'p xattr_state" where
  "sys_fsetxattr env fs fd name value sz flags st =
     (case fdget env fd of
        None \<Rightarrow> (- EBADF, st)
      | Some (mnt, d) \<Rightarrow>
          let (error, st) = with_write env mnt (setxattr env fs d name value sz flags) (path_get_ref d st) in
          (error, path_put d st))"

subsection \<open>System calls that read\<close>

definition getxattr ::
    "'p xattr_env \<Rightarrow> 'p xattr_fs \<Rightarrow> addr \<Rightarrow> string option \<Rightarrow> u8 list option \<Rightarrow> u64 \<Rightarrow> 'p xattr_state \<Rightarrow>
     (int \<times> u8 list option \<times> 'p xattr_state) kres" where
  "getxattr env fs d name value sz st =
     (let (error, kname) = strncpy_from_user name (XATTR_NAME_MAX + 1);
          error = (if error = 0 \<or> error = int (XATTR_NAME_MAX + 1) then - ERANGE else error) in
      if error < 0 then Inr (error, value, st)
      else
        let sz = (if XATTR_SIZE_MAX < unat sz then of_nat XATTR_SIZE_MAX else sz) in
        if sz \<noteq> 0 \<and> \<not> can_alloc env sz then Inr (- ENOMEM, value, st)
        else
          let kvalue = (if sz \<noteq> 0 then Some (replicate (unat sz) 0) else None) in
          kbind (vfs_getxattr env fs d kname kvalue sz st) (\<lambda>(error, kvalue, st).
            if error > 0 then
              let kvalue = (if kname = XATTR_NAME_POSIX_ACL_ACCESS \<or> kname = XATTR_NAME_POSIX_ACL_DEFAULT
                            then acl_to_user env (d_inode st d) kvalue else kvalue) in
              if sz \<noteq> 0 then
                (case kvalue of
                   None \<Rightarrow> Inl NullDereference
                 | Some k \<Rightarrow>
                     if length k < nat error then Inl BufferOverflow
                     else case copy_to_user value k (nat error) of
                       None \<Rightarrow> Inr (- EFAULT, value, st)
                     | Some value \<Rightarrow> Inr (error, Some value, st))
              else Inr (error, value, st)
            else if error = - ERANGE \<and> XATTR_SIZE_MAX \<le> unat sz then Inr (- E2BIG, value, st)
            else Inr (error, value, st)))"

definition sys_fgetxattr ::
    "'p xattr_env \<Rightarrow> 'p xattr_fs \<Rightarrow> int \<Rightarrow> string option \<Rightarrow> u8 list option \<Rightarrow> u64 \<Rightarrow> 'p xattr_state \<Rightarrow>
     (int \<times> u8 list option \<times> 'p xattr_state) kres" where
  "sys_fgetxattr env fs fd name value sz st =
     (case fdget env fd of
        None \<Rightarrow> Inr (- EBADF, value, st)
      | Some (mnt, d) \<Rightarrow>
          kbind (getxattr env fs d name value sz (path_get_ref d st)) (\<lambda>(error, value, st).
            Inr (error, value, path_put d st)))"

definition path_getxattr ::
    "'p xattr_env \<Rightarrow> 'p xattr_fs \<Rightarrow> string \<Rightarrow> string option \<Rightarrow> u8 list option \<Rightarrow> u64 \<Rightarrow> u32 \<Rightarrow> 'p xattr_state \<Rightarrow>
     (int \<times> u8 list option \<times> 'p xattr_state) kres" where
  "path_getxattr env fs pathname name value sz lookup_flags st =
     (let round = (\<lambda>lookup_flags value st.
        case user_path_at env pathname lookup_flags of
          Inl error \<Rightarrow> Inr (False, error, value, st)
        | Inr (mnt, d) \<Rightarrow>
            kbind (getxattr env fs d name value sz (path_get_ref d st)) (\<lambda>(error, value, st).
              Inr (True, error, value, path_put d st))) in
      kbind (round lookup_flags value st) (\<lambda>(found, error, value, st).
        if found \<and> retry_estale error lookup_flags then
          kbind (round (lookup_flags OR LOOKUP_REVAL) value st) (\<lambda>(found, error, value, st). Inr (error, value, st))
        else Inr (error, value, st)))"

definition sys_getxattr where
  "sys_getxattr env fs pathname name value sz st = path_getxattr env fs pathname name value sz LOOKUP_FOLLOW st"

definition sys_lgetxattr where
  "sys_lgetxattr env fs pathname name value sz st = path_getxattr env fs pathname name value sz 0 st"

subsection \<open>System calls that list\<close>

definition listxattr ::
    "'p xattr_env \<Rightarrow> 'p inode \<Rightarrow> string option \<Rightarrow> u64 \<Rightarrow> (int \<times> string option) kres" where
  "listxattr env inode ulist sz =
     (let sz = (if XATTR_LIST_MAX < unat sz then of_nat XATTR_LIST_MAX else sz) in
      if sz \<noteq> 0 \<and> \<not> can_alloc env sz then Inr (- ENOMEM, ulist)
      else
        let (error, klist) = vfs_listxattr env inode (if sz \<noteq> 0 then Some [] else None) sz in
        if error > 0 then
          (if sz \<noteq> 0 then
             (case klist of
                None \<Rightarrow> Inl NullDereference
              | Some k \<Rightarrow>
                  if length k < nat error then Inl BufferOverflow
                  else case copy_to_user ulist k (nat error) of
                    None \<Rightarrow> Inr (- EFAULT, ulist)
                  | Some ulist \<Rightarrow> Inr (error, Some ulist))
           else Inr (error, ulist))
        else if error = - ERANGE \<and> XATTR_LIST_MAX \<le> unat sz then Inr (- E2BIG, ulist)
        else Inr (error, ulist))"

definition path_listxattr ::
    "'p xattr_env \<Rightarrow> string \<Rightarrow> string option \<Rightarrow> u64 \<Rightarrow> u32 \<Rightarrow> 'p xattr_state \<Rightarrow>
     (int \<times> string option \<times> 'p xattr_state) kres" where
  "path_listxattr env pathname ulist sz lookup_flags st =
     (let round = (\<lambda>lookup_flags ulist st.
        case user_path_at env pathname lookup_flags of
          Inl error \<Rightarrow> Inr (False, error, ulist, st)
        | Inr (mnt, d) \<Rightarrow>
            let st = path_get_ref d st in
            kbind (listxattr env (d_inode st d) ulist sz) (\<lambda>(error, ulist).
              Inr (True, error, ulist, path_put d st))) in
      kbind (round lookup_flags ulist st) (\<lambda>(found, error, ulist, st).
        if found \<and> retry_estale error lookup_flags then
          kbind (round (lookup_flags OR LOOKUP_REVAL) ulist st) (\<lambda>(found, error, ulist, st). Inr (error, ulist, st))
        else Inr (error, ulist, st)))"

definition sys_listxattr where
  "sys_listxattr env pathname ulist sz st = path_listxattr env pathname ulist sz LOOKUP_FOLLOW st"

definition sys_llistxattr where
  "sys_llistxattr env pathname ulist sz st = path_listxattr env pathname ulist sz 0 st"

definition sys_flistxattr ::
    "'p xattr_env \<Rightarrow> int \<Rightarrow> string option \<Rightarrow> u64 \<Rightarrow> 'p xattr_state \<Rightarrow> (int \<times> string option \<times> 'p xattr_state) kres" where
  "sys_flistxattr env fd ulist sz st =
     (case fdget env fd of
        None \<Rightarrow> Inr (- EBADF, ulist, st)
      | Some (mnt, d) \<Rightarrow>
          let st = path_get_ref d st in
          kbind (listxattr env (d_inode st d) ulist sz) (\<lambda>(error, ulist). Inr (error, ulist, path_put d st)))"

subsection \<open>System calls that remove\<close>

definition removexattr ::
    "'p xattr_env \<Rightarrow> 'p xattr_fs \<Rightarrow> addr \<Rightarrow> string option \<Rightarrow> 'p xattr_state \<Rightarrow> int \<times> 'p xattr_state" where
  "removexattr env fs d name st =
     (let (error, kname) = strncpy_from_user name (XATTR_NAME_MAX + 1);
          error = (if error = 0 \<or> error = int (XATTR_NAME_MAX + 1) then - ERANGE else error) in
      if error < 0 then (error, st) else vfs_removexattr env fs d kname st)"

definition path_removexattr ::
    "'p xattr_env \<Rightarrow> 'p xattr_fs \<Rightarrow> string \<Rightarrow> string option \<Rightarrow> u32 \<Rightarrow> 'p xattr_state \<Rightarrow> int \<times> 'p xattr_state" where
  "path_removexattr env fs pathname name lookup_flags st =
     (let ((error, _), st) = path_loop (\<lambda>lookup_flags st.
        case user_path_at env pathname lookup_flags of
          Inl error \<Rightarrow> (Inl error, st)
        | Inr (mnt, d) \<Rightarrow>
            let (error, st) = with_write env mnt (removexattr env fs d name) (path_get_ref d st) in
            (Inr (error, ()), path_put d st)) () lookup_flags st
      in (error, st))"

definition sys_removexattr where
  "sys_removexattr env fs pathname name st = path_removexattr env fs pathname name LOOKUP_FOLLOW st"

definition sys_lremovexattr where
  "sys_lremovexattr env fs pathname name st = path_removexattr env fs pathname name 0 st"

definition sys_fremovexattr ::
    "'p xattr_env \<Rightarrow> 'p xattr_fs \<Rightarrow> int \<Rightarrow> string option \<Rightarrow> 'p xattr_state \<Rightarrow> int \<times> 'p xattr_state" where
  "sys_fremovexattr env fs fd name st =
     (case fdget env fd of
        None \<Rightarrow> (- EBADF, st)
      | Some (mnt, d) \<Rightarrow>
          let (error, st) = with_write env mnt (removexattr env fs d name) (path_get_ref d st) in
          (error, path_put d st))"

subsection \<open>The list of a file system whose handlers have names\<close>

text \<open>The names the handlers show; the size is an \<^verbatim>\<open>unsigned int\<close>.\<close>

definition handler_listed :: "'p inode \<Rightarrow> 'p xattr_handler \<Rightarrow> string option" where
  "handler_listed inode handler =
     (case h_match handler of
        ByPrefix _ \<Rightarrow> None
      | ByName n \<Rightarrow> (case h_list handler of
            None \<Rightarrow> Some n
          | Some list_fn \<Rightarrow> if list_fn inode then Some n else None))"

fun generic_size :: "'p inode \<Rightarrow> 'p xattr_handler list \<Rightarrow> u32 \<Rightarrow> u32" where
  "generic_size inode [] sz = sz"
| "generic_size inode (h # hs) sz =
     (case handler_listed inode h of
        None \<Rightarrow> generic_size inode hs sz
      | Some n \<Rightarrow> generic_size inode hs (sz + of_nat (length n + 1)))"

fun generic_fill :: "'p inode \<Rightarrow> 'p xattr_handler list \<Rightarrow> string \<Rightarrow> u64 \<Rightarrow> int \<times> string" where
  "generic_fill inode [] buf room = (0, buf)"
| "generic_fill inode (h # hs) buf room =
     (case handler_listed inode h of
        None \<Rightarrow> generic_fill inode hs buf room
      | Some n \<Rightarrow>
          let len = of_nat (length n) in
          if room < len + 1 then (- ERANGE, buf)
          else generic_fill inode hs (buf @ n @ [CHR 0x00]) (room - (len + 1)))"

definition generic_listxattr ::
    "'p xattr_handler list option \<Rightarrow> 'p inode \<Rightarrow> bool \<Rightarrow> u64 \<Rightarrow> int \<times> string option" where
  "generic_listxattr s_xattr inode has_buffer buffer_size =
     (let hs = (case s_xattr of None \<Rightarrow> [] | Some hs \<Rightarrow> hs) in
      if \<not> has_buffer then (uint (generic_size inode hs 0), None)
      else
        let (error, buf) = generic_fill inode hs [] buffer_size in
        (if error \<noteq> 0 then error else uint (of_nat (length buf) :: u32), Some buf))"

subsection \<open>The custom handler of ext4\<close>

text \<open>
  \<^verbatim>\<open>fs/ext4/xattr.c\<close> adds a handler for the prefix \<^verbatim>\<open>custom.\<close>; it has no \<^verbatim>\<open>list\<close> function. The attribute
  storage of ext4 and its other handlers are parameters.
\<close>

definition EXT4_XATTR_INDEX_CUSTOM :: nat where "EXT4_XATTR_INDEX_CUSTOM = 11"

definition ext4_xattr_custom_get ::
    "('p inode \<Rightarrow> nat \<Rightarrow> string \<Rightarrow> u8 list option \<Rightarrow> u64 \<Rightarrow> int \<times> u8 list option) \<Rightarrow>
     'p inode \<Rightarrow> string \<Rightarrow> u8 list option \<Rightarrow> u64 \<Rightarrow> int \<times> u8 list option" where
  "ext4_xattr_custom_get ext4_xattr_get inode name buffer sz =
     ext4_xattr_get inode EXT4_XATTR_INDEX_CUSTOM name buffer sz"

definition ext4_xattr_custom_set ::
    "('p inode \<Rightarrow> nat \<Rightarrow> string \<Rightarrow> u8 list option \<Rightarrow> u64 \<Rightarrow> s32 \<Rightarrow> int \<times> 'p inode) \<Rightarrow>
     'p inode \<Rightarrow> string \<Rightarrow> u8 list option \<Rightarrow> u64 \<Rightarrow> s32 \<Rightarrow> int \<times> 'p inode" where
  "ext4_xattr_custom_set ext4_xattr_set inode name value sz flags =
     ext4_xattr_set inode EXT4_XATTR_INDEX_CUSTOM name value sz flags"

definition ext4_xattr_custom_handler where
  "ext4_xattr_custom_handler get_fn set_fn =
     \<lparr>h_match = ByPrefix XATTR_CUSTOM_PREFIX, h_list = None,
      h_get = Some (ext4_xattr_custom_get get_fn), h_set = Some (ext4_xattr_custom_set set_fn)\<rparr>"

definition ext4_xattr_handlers where
  "ext4_xattr_handlers user trusted get_fn set_fn acl_access acl_default security hurd =
     [user, trusted, ext4_xattr_custom_handler get_fn set_fn, acl_access, acl_default, security, hurd]"

subsection \<open>Handler lookup\<close>

lemma strcmp_prefix_iff: "strcmp_prefix a p = Some n \<longleftrightarrow> a = p @ n"
  by (induction a p rule: strcmp_prefix.induct) auto

lemma strcmp_prefix_has: "strcmp_prefix a p = None \<longleftrightarrow> \<not> has_prefix p a"
proof -
  have "has_prefix p a \<longleftrightarrow> (\<exists>n. a = p @ n)"
    by (metis append_eq_conv_conj has_prefix_def append_take_drop_id)
  then show ?thesis by (metis not_Some_eq strcmp_prefix_iff)
qed

lemma has_prefix_append [simp]: "has_prefix p (p @ n)"
  by (simp add: has_prefix_def)

text \<open>What the lookup finds is the handler of the whole name, with the rest of it.\<close>

lemma resolve_in_sound:
  "resolve_in hs name = Inr (h, n) \<Longrightarrow> h \<in> set hs \<and> name = xattr_prefix h @ n \<and>
     (case h_match h of ByName _ \<Rightarrow> n = [] | ByPrefix _ \<Rightarrow> n \<noteq> [])"
  by (induction hs) (auto simp: strcmp_prefix_iff split: option.splits handler_match.splits if_splits)

lemma resolve_in_skip:
  "\<not> has_prefix (xattr_prefix h) name \<Longrightarrow> resolve_in (h # hs) name = resolve_in hs name"
  by (simp add: strcmp_prefix_has [THEN iffD2])

lemma ext4_custom_resolved:
  assumes "k \<noteq> []" "h_match user = ByPrefix XATTR_USER_PREFIX" "h_match trusted = ByPrefix XATTR_TRUSTED_PREFIX"
  shows "resolve_in (ext4_xattr_handlers user trusted get_fn set_fn acl_access acl_default security hurd)
      (XATTR_CUSTOM_PREFIX @ k) = Inr (ext4_xattr_custom_handler get_fn set_fn, k)"
proof -
  have "strcmp_prefix (XATTR_CUSTOM_PREFIX @ k) XATTR_USER_PREFIX = None"
    "strcmp_prefix (XATTR_CUSTOM_PREFIX @ k) XATTR_TRUSTED_PREFIX = None"
    by (simp_all add: xattr_prefix_defs)
  moreover have "strcmp_prefix (XATTR_CUSTOM_PREFIX @ k) XATTR_CUSTOM_PREFIX = Some k"
    by (simp add: strcmp_prefix_iff)
  ultimately show ?thesis using assms
    by (simp add: ext4_xattr_handlers_def ext4_xattr_custom_handler_def xattr_prefix_def)
qed

subsection \<open>The custom namespace\<close>

lemma custom_not_caps: "has_prefix XATTR_CUSTOM_PREFIX name \<Longrightarrow> name \<noteq> XATTR_NAME_CAPS"
  by (auto simp: has_prefix_def XATTR_CUSTOM_PREFIX_def XATTR_NAME_CAPS_def)

lemma custom_not_security: "has_prefix XATTR_CUSTOM_PREFIX name \<Longrightarrow> \<not> has_prefix XATTR_SECURITY_PREFIX name"
proof -
  assume "has_prefix XATTR_CUSTOM_PREFIX name"
  then obtain k where "name = XATTR_CUSTOM_PREFIX @ k" by (metis append_take_drop_id has_prefix_def)
  then show ?thesis by (simp add: has_prefix_def xattr_prefix_defs)
qed

lemma may_write_read: "MAY_WRITE AND MAY_WRITE \<noteq> (0 :: s32)" "MAY_READ AND MAY_WRITE = (0 :: s32)"
  by (simp_all add: MAY_WRITE_def MAY_READ_def)

lemma put_inode_same [simp]: "put_inode d (d_inode st d) st = st"
  by (simp add: put_inode_def)

lemma custom_denied:
  assumes "\<not> capable env CAP_SYS_ADMIN" "has_prefix XATTR_CUSTOM_PREFIX name"
  shows "vfs_setxattr env fs d name value sz flags st = (- EPERM, st) \<and>
    vfs_removexattr env fs d name st = (- EPERM, st) \<and>
    vfs_getxattr env fs d name buf sz st = Inr (- ENODATA, buf, st)"
proof -
  have w: "xattr_permission env (fs_sb fs) (d_inode st d) name MAY_WRITE = (- EPERM, d_inode st d)"
    using assms may_write_read by (simp add: xattr_permission_def Let_def)
  have r: "xattr_permission env (fs_sb fs) (d_inode st d) name MAY_READ = (- ENODATA, d_inode st d)"
    using assms may_write_read by (simp add: xattr_permission_def Let_def)
  have "setxattr_retry env fs d name value sz flags st = (- EPERM, st)"
    by (simp add: setxattr_retry.simps u_vfs_setxattr_locked_def w EPERM_def)
  moreover have "vfs_removexattr env fs d name st = (- EPERM, st)"
    by (simp add: vfs_removexattr.simps u_vfs_removexattr_locked_def w EPERM_def)
  moreover have "vfs_getxattr env fs d name buf sz st = Inr (- ENODATA, buf, st)"
    by (simp add: vfs_getxattr_def r ENODATA_def)
  ultimately show ?thesis using custom_not_caps [OF assms(2)] by (simp add: vfs_setxattr_def)
qed

text \<open>
  C23. Whoever lacks \<^verbatim>\<open>CAP_SYS_ADMIN\<close> can neither set, remove nor read an attribute in \<^verbatim>\<open>custom.\<close>, on whatever file
  system, whatever the handlers, security modules, leases and mode bits are: setting and removing return
  \<^verbatim>\<open>-EPERM\<close>, reading returns \<^verbatim>\<open>-ENODATA\<close>, and inodes, buffers and notifications are as before.
\<close>

theorem custom_xattr_guard:
  assumes "\<not> capable env CAP_SYS_ADMIN" "has_prefix XATTR_CUSTOM_PREFIX name"
  shows "vfs_setxattr env fs d name value sz flags st = (- EPERM, st) \<and>
    vfs_removexattr env fs d name st = (- EPERM, st) \<and>
    vfs_getxattr env fs d name buf sz st = Inr (- ENODATA, buf, st)"
  using assms by (rule custom_denied)

definition demo_xenv :: "bool \<Rightarrow> (string \<rightharpoonup> u8 list) xattr_env" where
  "demo_xenv admin = \<lparr>current_fsuid = 1000, in_group_p = (\<lambda>g. False), i_uid_into_mnt = id, i_gid_into_mnt = id,
     capable = (\<lambda>c. admin), ns_capable = (\<lambda>c. admin), kuid_has_mapping = (\<lambda>u. True),
     capable_wrt_inode_uidgid = (\<lambda>i c. admin), get_cached_acl_rcu = (\<lambda>i. AclNull), get_acl = (\<lambda>i. AclNull),
     posix_acl_permission = (\<lambda>i a m. 0), iop_permission = None, devcgroup_inode_permission = (\<lambda>i m. 0),
     security_inode_permission = (\<lambda>i m. 0), lsm_setxattr = (\<lambda>i n v s f. 0), lsm_getxattr = (\<lambda>i n. 0),
     lsm_listxattr = (\<lambda>i. 0), lsm_removexattr = (\<lambda>i n. 0), lsm_setsecurity = (\<lambda>i n v s f. (0, i)),
     lsm_getsecurity = (\<lambda>i n. Inl (- EOPNOTSUPP)), lsm_listsecurity = (\<lambda>i l s. (0, l)),
     cap_convert_nscap = (\<lambda>i v s. Inl (- EPERM)), i_op_listxattr = None, acl_from_user = (\<lambda>i v. v),
     acl_to_user = (\<lambda>i v. v), can_alloc = (\<lambda>n. True), user_path_at = (\<lambda>p f. Inr (0, 0)),
     fdget = (\<lambda>fd. None), mnt_want_write = (\<lambda>m. 0)\<rparr>"

definition demo_set :: "(string \<rightharpoonup> u8 list) inode \<Rightarrow> nat \<Rightarrow> string \<Rightarrow> u8 list option \<Rightarrow> u64 \<Rightarrow> s32 \<Rightarrow>
    int \<times> (string \<rightharpoonup> u8 list) inode" where
  "demo_set i idx name value sz flags = (0, i\<lparr>i_private := (i_private i)(name := value)\<rparr>)"

definition demo_get :: "(string \<rightharpoonup> u8 list) inode \<Rightarrow> nat \<Rightarrow> string \<Rightarrow> u8 list option \<Rightarrow> u64 \<Rightarrow> int \<times> u8 list option" where
  "demo_get i idx name buf sz = (case i_private i name of
     None \<Rightarrow> (- ENODATA, buf) | Some v \<Rightarrow> (int (length v), map_option (\<lambda>b. v @ drop (length v) b) buf))"

definition demo_handler :: "handler_match \<Rightarrow> (string \<rightharpoonup> u8 list) xattr_handler" where
  "demo_handler m = \<lparr>h_match = m, h_list = None, h_get = None, h_set = None\<rparr>"

definition demo_fs :: "(string \<rightharpoonup> u8 list) xattr_fs" where
  "demo_fs = \<lparr>fs_sb = \<lparr>s_flags = 0\<rparr>, fs_xattr = Some (ext4_xattr_handlers
     (demo_handler (ByPrefix XATTR_USER_PREFIX)) (demo_handler (ByPrefix XATTR_TRUSTED_PREFIX)) demo_get demo_set
     (demo_handler (ByName XATTR_NAME_POSIX_ACL_ACCESS)) (demo_handler (ByName XATTR_NAME_POSIX_ACL_DEFAULT))
     (demo_handler (ByPrefix XATTR_SECURITY_PREFIX)) (demo_handler (ByPrefix ''gnu.'')))\<rparr>"

definition demo_xstate :: "(string \<rightharpoonup> u8 list) xattr_state" where
  "demo_xstate = \<lparr>d_inode = (\<lambda>d. \<lparr>i_mode = 0x8180, i_opflags = 8, i_uid = 0, i_gid = 0, i_flags = 0, i_acl = AclNull,
     i_default_acl = AclNull, bad_inode = False, i_private = Map.empty\<rparr>), xevents = [], xbreaks = [],
     xwriters = (\<lambda>m. 0), xrefs = (\<lambda>d. 0)\<rparr>"

lemma custom_xattr_guard_witness:
  "vfs_setxattr (demo_xenv False) demo_fs 0 ''custom.k'' (Some [7]) 1 0 demo_xstate = (- EPERM, demo_xstate) \<and>
   vfs_getxattr (demo_xenv False) demo_fs 0 ''custom.k'' None 1 demo_xstate = Inr (- ENODATA, None, demo_xstate)"
  using custom_xattr_guard [of "demo_xenv False" "''custom.k''" demo_fs 0 "Some [7]" 1 0 demo_xstate None]
  by (simp add: demo_xenv_def has_prefix_def XATTR_CUSTOM_PREFIX_def)

text \<open>The permission check passes a privileged caller whatever the mode bits say.\<close>

lemma custom_permission_ok:
  assumes "capable env CAP_SYS_ADMIN" "has_prefix XATTR_CUSTOM_PREFIX name"
    "\<not> IS_IMMUTABLE inode" "\<not> IS_APPEND inode" "\<not> HAS_UNMAPPED_ID env inode"
  shows "xattr_permission env sb inode name msk = (0, inode)"
  using assms by (simp add: xattr_permission_def Let_def)

definition custom_reachable :: "'p xattr_env \<Rightarrow> 'p inode \<Rightarrow> string \<Rightarrow> bool" where
  "custom_reachable env inode k \<longleftrightarrow> capable env CAP_SYS_ADMIN \<and> k \<noteq> [] \<and> \<not> IS_IMMUTABLE inode \<and> \<not> IS_APPEND inode \<and>
     \<not> HAS_UNMAPPED_ID env inode \<and> i_opflags inode AND IOP_XATTR \<noteq> 0"

text \<open>
  C24. For a privileged caller an attribute \<^verbatim>\<open>custom.k\<close> of ext4 is the attribute \<open>k\<close> of index 11: a set, a removal
  and a read through the VFS end, when no security module objects and no lease is held, in exactly one
  call of the ext4 function with that index and name, the result is its result (\<^verbatim>\<open>-EAGAIN\<close> from a set
  becomes \<^verbatim>\<open>-EOPNOTSUPP\<close>), and only a successful change is notified.
\<close>

theorem custom_xattr_reaches_ext4:
  assumes fs: "fs_xattr fs = Some (ext4_xattr_handlers user trusted get_fn set_fn acl_access acl_default security hurd)"
      "h_match user = ByPrefix XATTR_USER_PREFIX" "h_match trusted = ByPrefix XATTR_TRUSTED_PREFIX"
    and i: "i = d_inode st d" "custom_reachable env i k"
    and quiet: "lsm_setxattr env i (XATTR_CUSTOM_PREFIX @ k) value sz flags = 0"
      "lsm_removexattr env i (XATTR_CUSTOM_PREFIX @ k) = 0" "lsm_getxattr env i (XATTR_CUSTOM_PREFIX @ k) = 0" "xbreaks st = []"
    and set: "set_fn i 11 k (if sz = 0 then Some [] else value) sz flags = (e, i')"
    and remove: "set_fn i 11 k None 0 XATTR_REPLACE = (er, ir)"
    and get: "get_fn i 11 k buf bsz = (eg, buf')"
  shows "vfs_setxattr env fs d (XATTR_CUSTOM_PREFIX @ k) value sz flags st =
      (if e = - EAGAIN then - EOPNOTSUPP else e, st\<lparr>d_inode := (d_inode st)(d := i'), xevents := xevents st @
        (if e = 0 then [FsnotifyXattr d, PostSetxattr d (XATTR_CUSTOM_PREFIX @ k) value sz flags] else [])\<rparr>) \<and>
    vfs_removexattr env fs d (XATTR_CUSTOM_PREFIX @ k) st =
      (er, st\<lparr>d_inode := (d_inode st)(d := ir), xevents := xevents st @
        (if er = 0 then [FsnotifyXattr d, PostRemovexattr d (XATTR_CUSTOM_PREFIX @ k)] else [])\<rparr>) \<and>
    vfs_getxattr env fs d (XATTR_CUSTOM_PREFIX @ k) buf bsz st = Inr (eg, buf', st)"
proof -
  let ?n = "XATTR_CUSTOM_PREFIX @ k"
  have pre: "has_prefix XATTR_CUSTOM_PREFIX ?n" by simp
  note nosec = custom_not_security [OF pre]
  have perm: "xattr_permission env (fs_sb fs) i ?n msk = (0, i)" for msk
    using i(2) by (intro custom_permission_ok) (simp_all add: custom_reachable_def)
  have iop: "i_opflags i AND IOP_XATTR \<noteq> 0" and k: "k \<noteq> []" using i(2) by (simp_all add: custom_reachable_def)
  have res: "xattr_resolve_name (fs_xattr fs) i ?n = Inr (ext4_xattr_custom_handler get_fn set_fn, k)"
    using ext4_custom_resolved [OF k fs(2,3)] iop fs(1) by (simp add: xattr_resolve_name_def)
  note ops = ext4_xattr_custom_handler_def ext4_xattr_custom_get_def ext4_xattr_custom_set_def EXT4_XATTR_INDEX_CUSTOM_def
  have s: "u_vfs_setxattr fs i ?n value sz flags = (e, i')" using set by (simp add: u_vfs_setxattr_def res ops)
  have r: "u_vfs_removexattr fs i ?n = (er, ir)" using remove by (simp add: u_vfs_removexattr_def res ops)
  have g: "u_vfs_getxattr fs i ?n buf bsz = (eg, buf')" using get by (simp add: u_vfs_getxattr_def res ops)
  have tb: "try_break_deleg st = (0, False, st)"
    using quiet(4) by (simp add: try_break_deleg_def break_deleg_def EWOULDBLOCK_def EAGAIN_def)
  note defs = put_inode_def log_event_def fun_upd_idem
  have "setxattr_retry env fs d ?n value sz flags st =
      (if e = - EAGAIN then - EOPNOTSUPP else e, st\<lparr>d_inode := (d_inode st)(d := i'), xevents := xevents st @
        (if e = 0 then [FsnotifyXattr d, PostSetxattr d ?n value sz flags] else [])\<rparr>)"
    using i(1) iop by (simp add: setxattr_retry.simps u_vfs_setxattr_locked_def u_vfs_setxattr_noperm_def nosec
        perm quiet(1) tb s defs EAGAIN_def flip: i(1))
  moreover have "vfs_removexattr env fs d ?n st = (er, st\<lparr>d_inode := (d_inode st)(d := ir), xevents := xevents st @
        (if er = 0 then [FsnotifyXattr d, PostRemovexattr d ?n] else [])\<rparr>)"
    using i(1) by (simp add: vfs_removexattr.simps u_vfs_removexattr_locked_def perm quiet(2) tb r defs flip: i(1))
  moreover have "vfs_getxattr env fs d ?n buf bsz st = Inr (eg, buf', st)"
    using i(1) by (simp add: vfs_getxattr_def perm quiet(3) nosec g defs flip: i(1))
  ultimately show ?thesis using custom_not_caps [OF pre] by (simp add: vfs_setxattr_def)
qed

lemma custom_xattr_reaches_ext4_witness:
  "\<exists>st. vfs_setxattr (demo_xenv True) demo_fs 0 ''custom.k'' (Some [7]) 1 0 demo_xstate = (0, st) \<and>
     i_private (d_inode st 0) = [''k'' \<mapsto> [7]] \<and>
     xevents st = [FsnotifyXattr 0, PostSetxattr 0 ''custom.k'' (Some [7]) 1 0]"
proof -
  let ?i = "d_inode demo_xstate 0"
  have m: "h_match (demo_handler x) = x" for x by (simp add: demo_handler_def)
  have r: "custom_reachable (demo_xenv True) ?i ''k''"
    by (simp add: custom_reachable_def demo_xenv_def demo_xstate_def IS_IMMUTABLE_def IS_APPEND_def
        HAS_UNMAPPED_ID_def uid_valid_def IOP_XATTR_def)
  have q: "lsm_setxattr (demo_xenv True) ?i (XATTR_CUSTOM_PREFIX @ ''k'') (Some [7]) 1 0 = 0"
    "lsm_removexattr (demo_xenv True) ?i (XATTR_CUSTOM_PREFIX @ ''k'') = 0"
    "lsm_getxattr (demo_xenv True) ?i (XATTR_CUSTOM_PREFIX @ ''k'') = 0" "xbreaks demo_xstate = []"
    by (simp_all add: demo_xenv_def demo_xstate_def)
  obtain er ir eg bg where o: "demo_set ?i 11 ''k'' None 0 XATTR_REPLACE = (er, ir)" "demo_get ?i 11 ''k'' None 0 = (eg, bg)"
    by fastforce
  have s: "demo_set ?i 11 ''k'' (if 1 = (0 :: u64) then Some [] else Some [7]) 1 0 =
      (0, ?i\<lparr>i_private := [''k'' \<mapsto> [7]]\<rparr>)"
    by (simp add: demo_set_def demo_xstate_def)
  have n: "XATTR_CUSTOM_PREFIX @ ''k'' = ''custom.k''" by (simp add: XATTR_CUSTOM_PREFIX_def)
  have f: "fs_xattr demo_fs = Some (ext4_xattr_handlers
     (demo_handler (ByPrefix XATTR_USER_PREFIX)) (demo_handler (ByPrefix XATTR_TRUSTED_PREFIX)) demo_get demo_set
     (demo_handler (ByName XATTR_NAME_POSIX_ACL_ACCESS)) (demo_handler (ByName XATTR_NAME_POSIX_ACL_DEFAULT))
     (demo_handler (ByPrefix XATTR_SECURITY_PREFIX)) (demo_handler (ByPrefix ''gnu.'')))"
    by (simp add: demo_fs_def)
  from custom_xattr_reaches_ext4 [OF f m m refl r q s o] show ?thesis
    unfolding n by (simp add: EAGAIN_def demo_xstate_def)
qed

subsection \<open>References and write access\<close>

lemma setxattr_noperm_counts:
  "u_vfs_setxattr_noperm env fs d name value sz flags st = (e, st') \<Longrightarrow> xwriters st' = xwriters st \<and> xrefs st' = xrefs st"
  by (auto simp: u_vfs_setxattr_noperm_def Let_def split: prod.splits if_splits)

lemma break_deleg_counts: "break_deleg st = (r, st') \<Longrightarrow> xwriters st' = xwriters st \<and> xrefs st' = xrefs st"
  by (auto simp: break_deleg_def split: list.splits)

lemma setxattr_locked_counts:
  "u_vfs_setxattr_locked env fs d name value sz flags st = (e, b, st') \<Longrightarrow> xwriters st' = xwriters st \<and> xrefs st' = xrefs st"
  by (auto simp: u_vfs_setxattr_locked_def try_break_deleg_def Let_def split: prod.splits if_splits
      dest!: setxattr_noperm_counts break_deleg_counts)

lemma setxattr_retry_counts:
  "setxattr_retry env fs d name value sz flags st = (e, st') \<Longrightarrow> xwriters st' = xwriters st \<and> xrefs st' = xrefs st"
proof (induction env fs d name "value" sz flags st arbitrary: e st' rule: setxattr_retry.induct)
  case (1 env fs d name "value" sz flags st)
  obtain e1 b st1 where l: "u_vfs_setxattr_locked env fs d name value sz flags st = (e1, b, st1)" by (metis prod_cases3)
  obtain e2 st2 where br: "break_deleg st1 = (e2, st2)" by fastforce
  note c = setxattr_locked_counts [OF l] break_deleg_counts [OF br]
  show ?case
  proof (cases "b \<and> e2 = 0")
    case True
    then have "setxattr_retry env fs d name value sz flags st2 = (e, st')"
      using 1(2) l br by (simp add: setxattr_retry.simps [of env fs d name "value" sz flags st])
    from 1(1) [OF l [symmetric] refl refl _ br [symmetric] refl _ this] True c show ?thesis by simp
  next
    case False
    then show ?thesis using 1(2) l br c
      by (auto simp: setxattr_retry.simps [of env fs d name "value" sz flags st] split: if_splits)
  qed
qed

lemma setxattr_counts:
  "setxattr env fs d name value sz flags st = (e, st') \<Longrightarrow> xwriters st' = xwriters st \<and> xrefs st' = xrefs st"
  by (auto simp: setxattr_def do_setxattr_def vfs_setxattr_def split: sum.splits if_splits
      dest!: setxattr_retry_counts)

lemma with_write_counts:
  assumes "\<And>t e t'. body t = (e, t') \<Longrightarrow> xwriters t' = xwriters t \<and> xrefs t' = xrefs t"
    and "with_write env mnt body st = (e, st')"
  shows "xwriters st' = xwriters st \<and> xrefs st' = xrefs st"
  using assms by (auto simp: with_write_def want_write_def mnt_drop_write_def Let_def split: prod.splits if_splits)

text \<open>A call on a descriptor gives back the reference and the write access it took, on every path.\<close>

lemma fsetxattr_balanced:
  "sys_fsetxattr env fs fd name value sz flags st = (e, st') \<Longrightarrow> xwriters st' = xwriters st \<and> xrefs st' = xrefs st"
proof (cases "fdget env fd")
  case (Some p)
  assume a: "sys_fsetxattr env fs fd name value sz flags st = (e, st')"
  obtain mnt d where p: "p = (mnt, d)" by fastforce
  obtain t where "with_write env mnt (setxattr env fs d name value sz flags) (path_get_ref d st) = (e, t)"
    "st' = path_put d t"
    using a Some p by (auto simp: sys_fsetxattr_def Let_def split: prod.splits)
  with with_write_counts [OF setxattr_counts this(1)] show ?thesis
    by (simp add: path_get_ref_def path_put_def fun_upd_idem)
qed (simp add: sys_fsetxattr_def)

subsection \<open>Calls on a path\<close>

lemma path_loop_inv:
  assumes round: "\<And>fl t r t'. round fl t = (r, t') \<Longrightarrow> I t \<Longrightarrow> I t' \<and> (case r of Inl e \<Rightarrow> Q e | Inr (e, x) \<Rightarrow> Q e)"
    and "I st" and loop: "path_loop round r0 fl st = ((e, x), st')"
  shows "I st' \<and> Q e"
proof -
  obtain r1 st1 where r1: "round fl st = (r1, st1)" by fastforce
  note one = round [OF r1 \<open>I st\<close>]
  obtain r2 st2 where r2: "round (fl OR LOOKUP_REVAL) st1 = (r2, st2)" by fastforce
  have two: "I st2 \<and> (case r2 of Inl e \<Rightarrow> Q e | Inr (e, x) \<Rightarrow> Q e)" using round [OF r2] one by blast
  show ?thesis
    using loop one two r1 r2 by (auto simp: path_loop_def split: sum.splits prod.splits if_splits)
qed

lemma setxattr_copy_name:
  "setxattr_copy env (Some name) v sz flags = Inr (kname, kv) \<Longrightarrow> kname = name"
  by (auto simp: setxattr_copy_def strncpy_from_user_def XATTR_NAME_MAX_def Let_def split: sum.splits if_splits)

lemma setxattr_copy_errors: "setxattr_copy env name v sz flags = Inl e \<Longrightarrow> e < 0"
  by (auto simp: setxattr_copy_def strncpy_from_user_def vmemdup_user_def Let_def EINVAL_def ERANGE_def EFAULT_def
      E2BIG_def ENOMEM_def split: sum.splits if_splits option.splits prod.splits)

lemma setxattr_custom_denied:
  assumes "\<not> capable env CAP_SYS_ADMIN" "has_prefix XATTR_CUSTOM_PREFIX key"
  shows "\<exists>e < 0. setxattr env fs d (Some key) v sz flags st = (e, st)"
proof (cases "setxattr_copy env (Some key) v sz flags")
  case (Inl e)
  with setxattr_copy_errors [OF Inl] show ?thesis by (simp add: setxattr_def)
next
  case (Inr r)
  obtain kname kv where r: "r = (kname, kv)" by fastforce
  with Inr setxattr_copy_name have "kname = key" by metis
  then show ?thesis using Inr r custom_denied [OF assms]
    by (simp add: setxattr_def do_setxattr_def EPERM_def)
qed

lemma getxattr_custom_denied:
  assumes "\<not> capable env CAP_SYS_ADMIN" "has_prefix XATTR_CUSTOM_PREFIX key"
  shows "\<exists>e < 0. getxattr env fs d (Some key) buf sz st = Inr (e, buf, st)"
proof -
  have "key \<noteq> []" using assms(2) by (auto simp: has_prefix_def XATTR_CUSTOM_PREFIX_def)
  then show ?thesis
    using custom_denied [OF assms]
    by (auto simp: getxattr_def strncpy_from_user_def XATTR_NAME_MAX_def Let_def min_def ENODATA_def ERANGE_def
        ENOMEM_def split: if_splits)
qed

text \<open>What a call that is refused leaves as it was.\<close>

definition same_files :: "'p xattr_state \<Rightarrow> 'p xattr_state \<Rightarrow> bool" where
  "same_files st st' \<longleftrightarrow> d_inode st' = d_inode st \<and> xevents st' = xevents st \<and>
     xwriters st' = xwriters st \<and> xrefs st' = xrefs st"

definition calls_fail_negative :: "'p xattr_env \<Rightarrow> bool" where
  "calls_fail_negative env \<longleftrightarrow>
     (\<forall>path fl e. user_path_at env path fl = Inl e \<longrightarrow> e < 0) \<and> (\<forall>mnt. mnt_want_write env mnt \<le> 0)"

lemma sys_setxattr_custom_denied:
  assumes denied: "\<not> capable env CAP_SYS_ADMIN" "has_prefix XATTR_CUSTOM_PREFIX key" "calls_fail_negative env"
    and call: "sys_setxattr env fs path (Some key) v sz flags st = (e, st')"
  shows "same_files st st' \<and> e < 0"
proof -
  define round where "round = (\<lambda>lookup_flags st. case user_path_at env path lookup_flags of
          Inl error \<Rightarrow> (Inl error, st)
        | Inr (mnt, d) \<Rightarrow>
            let (error, st) = with_write env mnt (setxattr env fs d (Some key) v sz flags) (path_get_ref d st) in
            (Inr (error, ()), path_put d st))"
  have inv: "same_files st t' \<and> (case r of Inl e \<Rightarrow> e < 0 | Inr (e, x) \<Rightarrow> e < 0)"
    if "round fl t = (r, t')" "same_files st t" for fl t r t'
  proof (cases "user_path_at env path fl")
    case (Inl e)
    with that denied(3) show ?thesis by (auto simp: round_def calls_fail_negative_def)
  next
    case (Inr p)
    obtain mnt d where p: "p = (mnt, d)" by fastforce
    obtain e where e: "e < 0" "setxattr env fs d (Some key) v sz flags (want_write mnt (path_get_ref d t)) =
        (e, want_write mnt (path_get_ref d t))"
      using setxattr_custom_denied [OF denied(1,2)] by blast
    have "mnt_want_write env mnt \<le> 0" using denied(3) by (simp add: calls_fail_negative_def)
    then show ?thesis
      using that Inr p e by (auto simp: round_def with_write_def Let_def same_files_def want_write_def mnt_drop_write_def
          path_get_ref_def path_put_def split: if_splits)
  qed
  obtain u where "path_loop round () LOOKUP_FOLLOW st = ((e, u), st')"
    using call by (auto simp: sys_setxattr_def path_setxattr_def simp flip: round_def split: prod.splits)
  moreover have "same_files st st" by (simp add: same_files_def)
  ultimately show ?thesis
    by (intro path_loop_inv [where round = round and I = "same_files st" and Q = "\<lambda>e. e < 0"]) (rule inv)
qed

lemma sys_getxattr_custom_denied:
  assumes denied: "\<not> capable env CAP_SYS_ADMIN" "has_prefix XATTR_CUSTOM_PREFIX key" "calls_fail_negative env"
  shows "\<exists>e st'. sys_getxattr env fs path (Some key) buf sz st = Inr (e, buf, st') \<and> same_files st st' \<and> e < 0"
proof -
  have put: "path_put d (path_get_ref d t) = t" for d and t :: "'a xattr_state"
    by (simp add: path_put_def path_get_ref_def fun_upd_idem)
  have get: "\<exists>e < 0. getxattr env fs d (Some key) buf sz t = Inr (e, buf, t)" for d t
    by (rule getxattr_custom_denied [OF denied(1,2)])
  have neg: "user_path_at env path fl = Inl e \<Longrightarrow> e < 0" for fl e
    using denied(3) by (auto simp: calls_fail_negative_def)
  define round where "round = (\<lambda>lookup_flags value st.
        case user_path_at env path lookup_flags of
          Inl error \<Rightarrow> Inr (False, error, value, st)
        | Inr (mnt, d) \<Rightarrow>
            kbind (getxattr env fs d (Some key) value sz (path_get_ref d st)) (\<lambda>(error, value, st).
              Inr (True, error, value, path_put d st)))"
  have r: "\<exists>found e. e < 0 \<and> round fl buf st = Inr (found, e, buf, st)" for fl
  proof (cases "user_path_at env path fl")
    case (Inl e)
    with neg show ?thesis by (auto simp: round_def)
  next
    case (Inr p)
    obtain mnt d where "p = (mnt, d)" by fastforce
    moreover obtain e where "e < 0" "getxattr env fs d (Some key) buf sz (path_get_ref d st) = Inr (e, buf, path_get_ref d st)"
      using get by blast
    ultimately show ?thesis using Inr by (auto simp: round_def put)
  qed
  obtain f1 e1 where 1: "e1 < 0" "round LOOKUP_FOLLOW buf st = Inr (f1, e1, buf, st)" using r by blast
  obtain f2 e2 where 2: "e2 < 0" "round (LOOKUP_FOLLOW OR LOOKUP_REVAL) buf st = Inr (f2, e2, buf, st)" using r by blast
  show ?thesis
    using 1 2 by (simp add: sys_getxattr_def path_getxattr_def same_files_def flip: round_def)
qed

end
