(* ===== verification/Ext4_Xattr.thy ===== *)
theory Ext4_Xattr
  imports VFS_Xattr
begin

text \<open>
  How ext4 reads extended attributes (\<^verbatim>\<open>fs/ext4/xattr.c\<close>, \<^verbatim>\<open>fs/ext4/xattr.h\<close>): the on-disk table of entries at the
  level of bytes, the checks of a block and of an inode body, the search for an entry, values in the table and
  in separate inodes, reading one attribute and listing the names. Positions are offsets into the block or the
  raw inode; a read outside of it is the fault \<^verbatim>\<open>IndexOutOfBounds\<close>. The lemmas show that no content of the disk
  makes these functions read outside of the block or the inode. The caches of blocks and inodes, locks,
  reference counts of buffers and error reports to the log are not modelled.
\<close>

subsection \<open>Bytes\<close>

definition rd :: "u8 list \<Rightarrow> nat \<Rightarrow> nat \<Rightarrow> u8 list kres" where
  "rd buf off n = (if off + n \<le> length buf then Inr (take n (drop off buf)) else Inl (IndexOutOfBounds (int off)))"

fun le_nat :: "u8 list \<Rightarrow> nat" where
  "le_nat [] = 0"
| "le_nat (b # bs) = unat b + 256 * le_nat bs"

fun le_bytes :: "nat \<Rightarrow> nat \<Rightarrow> u8 list" where
  "le_bytes 0 v = []"
| "le_bytes (Suc n) v = of_nat (v mod 256) # le_bytes n (v div 256)"

definition rd_le :: "u8 list \<Rightarrow> nat \<Rightarrow> nat \<Rightarrow> nat kres" where
  "rd_le buf off n = kbind (rd buf off n) (\<lambda>bs. Inr (le_nat bs))"

definition name_bytes :: "string \<Rightarrow> u8 list" where
  "name_bytes s = map (\<lambda>c. of_nat (of_char c)) s"

definition byte_chars :: "u8 list \<Rightarrow> string" where
  "byte_chars bs = map (\<lambda>b. char_of (unat b)) bs"

text \<open>The sign of \<^verbatim>\<open>memcmp\<close> on blocks of the same length.\<close>

fun memcmp_sign :: "u8 list \<Rightarrow> u8 list \<Rightarrow> int" where
  "memcmp_sign (a # as) (b # bs) = (if a = b then memcmp_sign as bs else if a < b then - 1 else 1)"
| "memcmp_sign _ _ = 0"

subsection \<open>Entries\<close>

definition e_name_len :: "u8 list \<Rightarrow> nat \<Rightarrow> nat kres" where "e_name_len buf e = rd_le buf e 1"
definition e_name_index :: "u8 list \<Rightarrow> nat \<Rightarrow> nat kres" where "e_name_index buf e = rd_le buf (e + 1) 1"
definition e_value_offs :: "u8 list \<Rightarrow> nat \<Rightarrow> nat kres" where "e_value_offs buf e = rd_le buf (e + 2) 2"
definition e_value_inum :: "u8 list \<Rightarrow> nat \<Rightarrow> nat kres" where "e_value_inum buf e = rd_le buf (e + 4) 4"
definition e_value_size :: "u8 list \<Rightarrow> nat \<Rightarrow> nat kres" where "e_value_size buf e = rd_le buf (e + 8) 4"
definition e_hash :: "u8 list \<Rightarrow> nat \<Rightarrow> nat kres" where "e_hash buf e = rd_le buf (e + 12) 4"
definition e_name :: "u8 list \<Rightarrow> nat \<Rightarrow> nat \<Rightarrow> u8 list kres" where "e_name buf e n = rd buf (e + 16) n"

definition EXT4_XATTR_LEN :: "nat \<Rightarrow> nat" where
  "EXT4_XATTR_LEN name_len = (name_len + 3 + 16) div 4 * 4"

text \<open>On a 32-bit size the addition may wrap.\<close>

definition EXT4_XATTR_SIZE :: "nat \<Rightarrow> nat" where
  "EXT4_XATTR_SIZE sz = ((sz + 3) mod 2 ^ 32) div 4 * 4"

definition EXT4_XATTR_NEXT :: "u8 list \<Rightarrow> nat \<Rightarrow> nat kres" where
  "EXT4_XATTR_NEXT buf e = kbind (e_name_len buf e) (\<lambda>l. Inr (e + EXT4_XATTR_LEN l))"

definition IS_LAST_ENTRY :: "u8 list \<Rightarrow> nat \<Rightarrow> bool kres" where
  "IS_LAST_ENTRY buf e = kbind (rd_le buf e 4) (\<lambda>v. Inr (v = 0))"

definition EXT4_XATTR_MAGIC :: nat where "EXT4_XATTR_MAGIC = 0xEA020000"
definition EXT4_XATTR_SIZE_MAX :: nat where "EXT4_XATTR_SIZE_MAX = 2 ^ 24"
definition EXT4_GOOD_OLD_INODE_SIZE :: nat where "EXT4_GOOD_OLD_INODE_SIZE = 128"
definition EFSBADCRC :: int where "EFSBADCRC = 74"

lemma EXT4_XATTR_LEN_pos: "16 \<le> EXT4_XATTR_LEN l" "l + 16 \<le> EXT4_XATTR_LEN l" "EXT4_XATTR_LEN l mod 4 = 0"
  by (simp_all add: EXT4_XATTR_LEN_def)

lemma IS_LAST_bounds: "IS_LAST_ENTRY buf e = Inr b \<Longrightarrow> e + 4 \<le> length buf"
  by (auto simp: IS_LAST_ENTRY_def rd_le_def rd_def split: if_splits)

lemma EXT4_XATTR_NEXT_later: "EXT4_XATTR_NEXT buf e = Inr n \<Longrightarrow> e < n"
  using EXT4_XATTR_LEN_pos(1) by (auto simp: EXT4_XATTR_NEXT_def intro: less_le_trans [of _ "e + 16"])

subsection \<open>Checking a table\<close>

text \<open>First the names: the end of the table, or an error.\<close>

function check_names :: "u8 list \<Rightarrow> nat \<Rightarrow> nat \<Rightarrow> (int + nat) kres" where
  "check_names buf en e =
     kbind (IS_LAST_ENTRY buf e) (\<lambda>last.
     if last then Inr (Inr e)
     else
       kbind (EXT4_XATTR_NEXT buf e) (\<lambda>nxt.
       if en \<le> nxt then Inr (Inl (- EFSCORRUPTED))
       else
         kbind (e_name_len buf e) (\<lambda>l.
         kbind (e_name buf e l) (\<lambda>bs.
         if length (takeWhile (\<lambda>b. b \<noteq> 0) bs) \<noteq> l then Inr (Inl (- EFSCORRUPTED))
         else check_names buf en nxt))))"
  by pat_completeness auto
termination
  by (relation "measure (\<lambda>(buf, en, e). en - e)") (auto dest!: EXT4_XATTR_NEXT_later)

declare check_names.simps [simp del]

text \<open>Then the values; this loop trusts the first one for the bounds of the entries.\<close>

function check_values :: "u8 list \<Rightarrow> nat \<Rightarrow> nat \<Rightarrow> nat \<Rightarrow> nat \<Rightarrow> int kres" where
  "check_values buf en value_start e entry =
     kbind (IS_LAST_ENTRY buf entry) (\<lambda>last.
     if last then Inr 0
     else
       kbind (e_value_size buf entry) (\<lambda>sz.
       if EXT4_XATTR_SIZE_MAX < sz then Inr (- EFSCORRUPTED)
       else
         kbind (e_value_inum buf entry) (\<lambda>inum.
         kbind (if sz \<noteq> 0 \<and> inum = 0 then
                  kbind (e_value_offs buf entry) (\<lambda>offs.
                  let vp = value_start + offs in
                  Inr (en - value_start < offs \<or> vp < e + 4 \<or> en - vp < sz \<or> en - vp < EXT4_XATTR_SIZE sz))
                else Inr False) (\<lambda>bad.
         if bad then Inr (- EFSCORRUPTED)
         else kbind (EXT4_XATTR_NEXT buf entry) (\<lambda>nxt. check_values buf en value_start e nxt)))))"
  by pat_completeness auto
termination
  by (relation "measure (\<lambda>(buf, en, vs, e, entry). length buf - entry)") (auto dest!: EXT4_XATTR_NEXT_later IS_LAST_bounds)

declare check_values.simps [simp del]

definition ext4_xattr_check_entries :: "u8 list \<Rightarrow> nat \<Rightarrow> nat \<Rightarrow> nat \<Rightarrow> int kres" where
  "ext4_xattr_check_entries buf entry en value_start =
     kbind (check_names buf en entry) (\<lambda>r.
     case r of Inl err \<Rightarrow> Inr err | Inr e \<Rightarrow> check_values buf en value_start e entry)"

subsection \<open>Blocks and inodes\<close>

text \<open>The superblock's parameters and the services of other files of ext4.\<close>

record ea_inode =
  ea_ino :: nat
  ea_size :: nat
  ea_blkbits :: nat
  ea_blocks :: "int + u8 list option list"
  ea_atime :: u32
  ea_mtime :: u32
  ea_generation :: u32
  ea_lustre :: bool
  ea_ctime :: u64
  ea_iversion :: u64
  ea_nlink :: nat

record ext4_env =
  has_metadata_csum :: bool
  s_csum_seed :: u32
  ext4_chksum :: "u32 \<Rightarrow> u8 list \<Rightarrow> u32"
  s_inode_size :: nat
  forced_shutdown :: bool
  ext4_iget :: "nat \<Rightarrow> int + ea_inode"
  kmalloc_ok :: "nat \<Rightarrow> bool"

record xattr_block =
  b_data :: "u8 list"
  b_blocknr :: nat
  b_verified :: bool

record ext4_inode =
  x_ino :: nat
  x_generation :: u32
  i_extra_isize :: nat
  x_state_xattr :: bool
  i_file_acl :: nat
  raw_inode :: "int + u8 list"
  acl_block :: "int + xattr_block"

definition BFIRST :: nat where "BFIRST = 32"
definition IHDR :: "ext4_inode \<Rightarrow> nat" where "IHDR inode = EXT4_GOOD_OLD_INODE_SIZE + i_extra_isize inode"
definition IFIRST :: "nat \<Rightarrow> nat" where "IFIRST header = header + 4"

definition ext4_xattr_block_csum :: "ext4_env \<Rightarrow> xattr_block \<Rightarrow> nat" where
  "ext4_xattr_block_csum env bh =
     (let csum = ext4_chksum env (s_csum_seed env) (le_bytes 8 (b_blocknr bh));
          csum = ext4_chksum env csum (take 16 (b_data bh));
          csum = ext4_chksum env csum (le_bytes 4 0);
          csum = ext4_chksum env csum (drop 20 (b_data bh)) in
      unat csum)"

definition ext4_xattr_block_csum_verify :: "ext4_env \<Rightarrow> xattr_block \<Rightarrow> bool kres" where
  "ext4_xattr_block_csum_verify env bh =
     (if has_metadata_csum env
      then kbind (rd_le (b_data bh) 16 4) (\<lambda>h_checksum. Inr (h_checksum = ext4_xattr_block_csum env bh))
      else Inr True)"

text \<open>The block is marked as verified when the check passes, and a marked block is not checked again.\<close>

definition u_ext4_xattr_check_block :: "ext4_env \<Rightarrow> xattr_block \<Rightarrow> (int \<times> xattr_block) kres" where
  "u_ext4_xattr_check_block env bh =
     kbind (rd_le (b_data bh) 0 4) (\<lambda>h_magic.
     kbind (rd_le (b_data bh) 8 4) (\<lambda>h_blocks.
     if h_magic \<noteq> EXT4_XATTR_MAGIC \<or> h_blocks \<noteq> 1 then Inr (- EFSCORRUPTED, bh)
     else if b_verified bh then Inr (0, bh)
     else
       kbind (ext4_xattr_block_csum_verify env bh) (\<lambda>good.
       if \<not> good then Inr (- EFSBADCRC, bh)
       else
         kbind (ext4_xattr_check_entries (b_data bh) BFIRST (length (b_data bh)) 0) (\<lambda>error.
         Inr (error, if error \<noteq> 0 then bh else bh\<lparr>b_verified := True\<rparr>)))))"

text \<open>The size check compares unsigned: a header behind the end of the inode is not refused here.\<close>

definition u_xattr_check_inode :: "u8 list \<Rightarrow> nat \<Rightarrow> nat \<Rightarrow> int kres" where
  "u_xattr_check_inode raw header en =
     (if header \<le> en \<and> en - header < 8 then Inr (- EFSCORRUPTED)
      else
        kbind (rd_le raw header 4) (\<lambda>h_magic.
        if h_magic \<noteq> EXT4_XATTR_MAGIC then Inr (- EFSCORRUPTED)
        else ext4_xattr_check_entries raw (IFIRST header) en (IFIRST header)))"

subsection \<open>Searching\<close>

definition entry_cmp :: "u8 list \<Rightarrow> nat \<Rightarrow> u8 list \<Rightarrow> nat \<Rightarrow> int kres" where
  "entry_cmp buf name_index name e =
     kbind (e_name_index buf e) (\<lambda>idx.
     kbind (e_name_len buf e) (\<lambda>l.
     let cmp = int name_index - int idx;
         cmp = (if cmp = 0 then int (length name) - int l else cmp) in
     if cmp = 0 then kbind (e_name buf e (length name)) (\<lambda>bs. Inr (memcmp_sign name bs)) else Inr cmp))"

function find_entry_loop :: "u8 list \<Rightarrow> nat \<Rightarrow> nat \<Rightarrow> u8 list \<Rightarrow> bool \<Rightarrow> int \<Rightarrow> nat \<Rightarrow> (int \<times> nat) kres" where
  "find_entry_loop buf en name_index name srt cmp e =
     kbind (IS_LAST_ENTRY buf e) (\<lambda>last.
     if last then Inr (if cmp \<noteq> 0 then - ENODATA else 0, e)
     else
       kbind (EXT4_XATTR_NEXT buf e) (\<lambda>nxt.
       if en \<le> nxt then Inr (- EFSCORRUPTED, e)
       else
         kbind (entry_cmp buf name_index name e) (\<lambda>cmp.
         if cmp \<le> 0 \<and> (srt \<or> cmp = 0) then Inr (if cmp \<noteq> 0 then - ENODATA else 0, e)
         else find_entry_loop buf en name_index name srt cmp nxt)))"
  by pat_completeness auto
termination
  by (relation "measure (\<lambda>(buf, en, idx, name, srt, cmp, e). en - e)") (auto dest!: EXT4_XATTR_NEXT_later)

declare find_entry_loop.simps [simp del]

definition xattr_find_entry :: "u8 list \<Rightarrow> nat \<Rightarrow> nat \<Rightarrow> nat \<Rightarrow> string option \<Rightarrow> bool \<Rightarrow> (int \<times> nat) kres" where
  "xattr_find_entry buf pentry en name_index name srt =
     (case name of
        None \<Rightarrow> Inr (- EINVAL, pentry)
      | Some name \<Rightarrow>
          kbind (find_entry_loop buf en name_index (name_bytes name) srt 1 pentry) (\<lambda>(err, e).
          Inr (err, if err = - EFSCORRUPTED then pentry else e)))"

subsection \<open>Values in inodes of their own\<close>

definition ext4_xattr_inode_hash :: "ext4_env \<Rightarrow> u8 list \<Rightarrow> u32" where
  "ext4_xattr_inode_hash env buffer = ext4_chksum env (s_csum_seed env) buffer"

text \<open>Characters of the name are signed; words of the value are little endian.\<close>

fun hash_words :: "u32 \<Rightarrow> nat list \<Rightarrow> u32" where
  "hash_words h [] = h"
| "hash_words h (w # ws) = hash_words (push_bit 16 h XOR drop_bit 16 h XOR of_nat w) ws"

fun hash_name :: "u32 \<Rightarrow> u8 list \<Rightarrow> u32" where
  "hash_name h [] = h"
| "hash_name h (b # bs) = hash_name (push_bit 5 h XOR drop_bit 27 h XOR scast b) bs"

definition ext4_xattr_hash_entry :: "u8 list \<Rightarrow> nat list \<Rightarrow> u32" where
  "ext4_xattr_hash_entry name vals = hash_words (hash_name 0 name) vals"

text \<open>The number of references to such an inode is kept in its change time and its version.\<close>

definition ext4_xattr_inode_get_ref :: "ea_inode \<Rightarrow> u64" where
  "ext4_xattr_inode_get_ref ino = push_bit 32 (ea_ctime ino) OR (ea_iversion ino AND 0xFFFFFFFF)"

definition ext4_xattr_inode_set_ref :: "u64 \<Rightarrow> ea_inode \<Rightarrow> ea_inode" where
  "ext4_xattr_inode_set_ref ref_count ino = ino\<lparr>ea_ctime := drop_bit 32 ref_count, ea_iversion := ref_count AND 0xFFFFFFFF\<rparr>"

definition ext4_xattr_inode_iget :: "ext4_env \<Rightarrow> ext4_inode \<Rightarrow> nat \<Rightarrow> u32 \<Rightarrow> int + ea_inode" where
  "ext4_xattr_inode_iget env parent ino ea_inode_hash =
     (if x_ino parent = ino then Inl (- EFSCORRUPTED)
      else case ext4_iget env ino of
        Inl err \<Rightarrow> Inl err
      | Inr inode \<Rightarrow>
          if ea_inode_hash \<noteq> ea_atime inode \<and> unat (ea_mtime inode) = x_ino parent \<and> ea_generation inode = x_generation parent
          then Inr (ext4_xattr_inode_set_ref 1 (inode\<lparr>ea_lustre := True\<rparr>))
          else Inr inode)"

text \<open>The blocks of the value, a hole being a corruption; more than eight need a table of their own.\<close>

fun join_blocks :: "nat \<Rightarrow> nat \<Rightarrow> u8 list option list \<Rightarrow> int + u8 list" where
  "join_blocks bs tail [] = Inr []"
| "join_blocks bs tail (None # rest) = Inl (- EFSCORRUPTED)"
| "join_blocks bs tail (Some b # rest) =
     kbind (join_blocks bs tail rest) (\<lambda>r. Inr (take (if rest = [] then tail else bs) b @ r))"

definition ext4_xattr_inode_read :: "ext4_env \<Rightarrow> ea_inode \<Rightarrow> nat \<Rightarrow> int + u8 list" where
  "ext4_xattr_inode_read env ino sz =
     (let blocksize = 2 ^ ea_blkbits ino;
          bh_count = (sz + blocksize - 1) div blocksize;
          tail_size = (if sz mod blocksize \<noteq> 0 then sz mod blocksize else blocksize) in
      if 8 < bh_count \<and> \<not> kmalloc_ok env bh_count then Inl (- ENOMEM)
      else kbind (ea_blocks ino) (\<lambda>bhs. join_blocks blocksize tail_size (take bh_count bhs)))"

definition ext4_xattr_inode_verify_hashes :: "ext4_env \<Rightarrow> ea_inode \<Rightarrow> u8 list \<Rightarrow> u32 \<Rightarrow> u8 list \<Rightarrow> int" where
  "ext4_xattr_inode_verify_hashes env ino name hash buffer =
     (let h = ext4_xattr_inode_hash env buffer in
      if h \<noteq> ea_atime ino then - EFSCORRUPTED
      else if ext4_xattr_hash_entry name [unat h] \<noteq> hash then - EFSCORRUPTED
      else 0)"

definition ext4_xattr_inode_get :: "ext4_env \<Rightarrow> ext4_inode \<Rightarrow> u8 list \<Rightarrow> nat \<Rightarrow> nat \<Rightarrow> (int + u8 list) kres" where
  "ext4_xattr_inode_get env inode buf entry sz =
     kbind (e_value_inum buf entry) (\<lambda>inum.
     kbind (e_hash buf entry) (\<lambda>hash.
     case ext4_xattr_inode_iget env inode inum (of_nat hash) of
       Inl err \<Rightarrow> Inr (Inl err)
     | Inr ino \<Rightarrow>
         if ea_size ino \<noteq> sz then Inr (Inl (- EFSCORRUPTED))
         else case ext4_xattr_inode_read env ino sz of
           Inl err \<Rightarrow> Inr (Inl err)
         | Inr bytes \<Rightarrow>
             if ea_lustre ino then Inr (Inr bytes)
             else
               kbind (e_name_len buf entry) (\<lambda>l.
               kbind (e_name buf entry l) (\<lambda>name.
               let err = ext4_xattr_inode_verify_hashes env ino name (of_nat hash) bytes in
               if err \<noteq> 0 then Inr (Inl err) else Inr (Inr bytes)))))"

subsection \<open>Reading an attribute\<close>

text \<open>
  What both places have in common: the value of the entry found, whose offset counts from \<open>base\<close>. The result is the
  return value and the bytes written to the front of the caller's buffer (\<open>None\<close> no buffer); when reading from
  an inode of its own fails, bytes already copied there are not modelled.
\<close>

definition xattr_get_value ::
    "ext4_env \<Rightarrow> ext4_inode \<Rightarrow> u8 list \<Rightarrow> nat \<Rightarrow> nat \<Rightarrow> nat \<Rightarrow> nat option \<Rightarrow> (int \<times> u8 list) kres" where
  "xattr_get_value env inode buf base en entry buffer =
     kbind (e_value_size buf entry) (\<lambda>sz.
     if EXT4_XATTR_SIZE_MAX < sz then Inr (- ERANGE, [])
     else case buffer of
       None \<Rightarrow> Inr (int sz, [])
     | Some buffer_size \<Rightarrow>
         if buffer_size < sz then Inr (- ERANGE, [])
         else
           kbind (e_value_inum buf entry) (\<lambda>inum.
           if inum \<noteq> 0 then
             kbind (ext4_xattr_inode_get env inode buf entry sz) (\<lambda>r.
             case r of Inl error \<Rightarrow> Inr (error, []) | Inr bytes \<Rightarrow> Inr (int sz, bytes))
           else
             kbind (e_value_offs buf entry) (\<lambda>offset.
             if en < base + offset + sz then Inr (- ERANGE, [])
             else kbind (rd buf (base + offset) sz) (\<lambda>bytes. Inr (int sz, bytes)))))"

definition ext4_xattr_block_get ::
    "ext4_env \<Rightarrow> ext4_inode \<Rightarrow> nat \<Rightarrow> string \<Rightarrow> nat option \<Rightarrow> (int \<times> u8 list) kres" where
  "ext4_xattr_block_get env inode name_index name buffer =
     (if i_file_acl inode = 0 then Inr (- ENODATA, [])
      else case acl_block inode of
        Inl err \<Rightarrow> Inr (err, [])
      | Inr bh \<Rightarrow>
          kbind (u_ext4_xattr_check_block env bh) (\<lambda>(error, bh).
          if error \<noteq> 0 then Inr (error, [])
          else
            kbind (xattr_find_entry (b_data bh) BFIRST (length (b_data bh)) name_index (Some name) True) (\<lambda>(error, entry).
            if error \<noteq> 0 then Inr (error, [])
            else xattr_get_value env inode (b_data bh) 0 (length (b_data bh)) entry buffer)))"

definition ext4_xattr_ibody_get ::
    "ext4_env \<Rightarrow> ext4_inode \<Rightarrow> nat \<Rightarrow> string \<Rightarrow> nat option \<Rightarrow> (int \<times> u8 list) kres" where
  "ext4_xattr_ibody_get env inode name_index name buffer =
     (if \<not> x_state_xattr inode then Inr (- ENODATA, [])
      else case raw_inode inode of
        Inl err \<Rightarrow> Inr (err, [])
      | Inr raw \<Rightarrow>
          let header = IHDR inode; en = s_inode_size env in
          kbind (u_xattr_check_inode raw header en) (\<lambda>error.
          if error \<noteq> 0 then Inr (error, [])
          else
            kbind (xattr_find_entry raw (IFIRST header) en name_index (Some name) False) (\<lambda>(error, entry).
            if error \<noteq> 0 then Inr (error, [])
            else xattr_get_value env inode raw (IFIRST header) en entry buffer)))"

definition ext4_xattr_get ::
    "ext4_env \<Rightarrow> ext4_inode \<Rightarrow> nat \<Rightarrow> string \<Rightarrow> nat option \<Rightarrow> (int \<times> u8 list) kres" where
  "ext4_xattr_get env inode name_index name buffer =
     (if forced_shutdown env then Inr (- EIO, [])
      else if 255 < length name then Inr (- ERANGE, [])
      else
        kbind (ext4_xattr_ibody_get env inode name_index name buffer) (\<lambda>(error, bytes).
        if error = - ENODATA then ext4_xattr_block_get env inode name_index name buffer
        else Inr (error, bytes)))"

subsection \<open>Listing the names\<close>

text \<open>The handler of an index: the table has 12 slots, the custom handler in the last.\<close>

definition ext4_xattr_handler :: "(nat \<Rightarrow> 'p xattr_handler option) \<Rightarrow> nat \<Rightarrow> 'p xattr_handler option" where
  "ext4_xattr_handler handler_map name_index =
     (if 0 < name_index \<and> name_index < 12 then handler_map name_index else None)"

text \<open>\<open>tot\<close> is the size of the names so far, \<open>out\<close> what was written; the room left is \<open>buffer_size - tot\<close>.\<close>

function list_entries_loop ::
    "(nat \<Rightarrow> 'p xattr_handler option) \<Rightarrow> 'p inode \<Rightarrow> u8 list \<Rightarrow> nat option \<Rightarrow> nat \<Rightarrow> u8 list \<Rightarrow> nat \<Rightarrow> (int \<times> u8 list) kres" where
  "list_entries_loop handler_map dentry buf buffer tot out entry =
     kbind (IS_LAST_ENTRY buf entry) (\<lambda>last.
     if last then Inr (int tot, out)
     else
       kbind (e_name_index buf entry) (\<lambda>idx.
       kbind (case ext4_xattr_handler handler_map idx of
                None \<Rightarrow> Inr (Some (tot, out))
              | Some handler \<Rightarrow>
                  if (case h_list handler of None \<Rightarrow> True | Some f \<Rightarrow> f dentry) then
                    kbind (e_name_len buf entry) (\<lambda>l.
                    let prefix = name_bytes (xattr_prefix handler);
                        sz = length prefix + l + 1 in
                    case buffer of
                      None \<Rightarrow> Inr (Some (tot + sz, out))
                    | Some buffer_size \<Rightarrow>
                        if buffer_size - tot < sz then Inr None
                        else kbind (e_name buf entry l) (\<lambda>bs. Inr (Some (tot + sz, out @ prefix @ bs @ [0]))))
                  else Inr (Some (tot, out))) (\<lambda>r.
       case r of
         None \<Rightarrow> Inr (- ERANGE, out)
       | Some (tot, out) \<Rightarrow>
           kbind (EXT4_XATTR_NEXT buf entry) (\<lambda>nxt.
           list_entries_loop handler_map dentry buf buffer tot out nxt))))"
  by pat_completeness auto
termination
  by (relation "measure (\<lambda>(m, d, buf, b, t, out, e). length buf - e)") (auto dest!: EXT4_XATTR_NEXT_later IS_LAST_bounds)

declare list_entries_loop.simps [simp del]

definition ext4_xattr_list_entries ::
    "(nat \<Rightarrow> 'p xattr_handler option) \<Rightarrow> 'p inode \<Rightarrow> u8 list \<Rightarrow> nat option \<Rightarrow> nat \<Rightarrow> (int \<times> u8 list) kres" where
  "ext4_xattr_list_entries handler_map dentry buf buffer entry = list_entries_loop handler_map dentry buf buffer 0 [] entry"

definition ext4_xattr_block_list ::
    "ext4_env \<Rightarrow> (nat \<Rightarrow> 'p xattr_handler option) \<Rightarrow> 'p inode \<Rightarrow> ext4_inode \<Rightarrow> nat option \<Rightarrow> (int \<times> u8 list) kres" where
  "ext4_xattr_block_list env handler_map dentry inode buffer =
     (if i_file_acl inode = 0 then Inr (0, [])
      else case acl_block inode of
        Inl err \<Rightarrow> Inr (err, [])
      | Inr bh \<Rightarrow>
          kbind (u_ext4_xattr_check_block env bh) (\<lambda>(error, bh).
          if error \<noteq> 0 then Inr (error, []) else ext4_xattr_list_entries handler_map dentry (b_data bh) buffer BFIRST))"

definition ext4_xattr_ibody_list ::
    "ext4_env \<Rightarrow> (nat \<Rightarrow> 'p xattr_handler option) \<Rightarrow> 'p inode \<Rightarrow> ext4_inode \<Rightarrow> nat option \<Rightarrow> (int \<times> u8 list) kres" where
  "ext4_xattr_ibody_list env handler_map dentry inode buffer =
     (if \<not> x_state_xattr inode then Inr (0, [])
      else case raw_inode inode of
        Inl err \<Rightarrow> Inr (err, [])
      | Inr raw \<Rightarrow>
          kbind (u_xattr_check_inode raw (IHDR inode) (s_inode_size env)) (\<lambda>error.
          if error \<noteq> 0 then Inr (error, [])
          else ext4_xattr_list_entries handler_map dentry raw buffer (IFIRST (IHDR inode))))"

text \<open>The names of the inode body come first, those of the block behind them in the same buffer.\<close>

definition ext4_listxattr ::
    "ext4_env \<Rightarrow> (nat \<Rightarrow> 'p xattr_handler option) \<Rightarrow> 'p inode \<Rightarrow> ext4_inode \<Rightarrow> nat option \<Rightarrow> (int \<times> u8 list) kres" where
  "ext4_listxattr env handler_map dentry inode buffer =
     kbind (ext4_xattr_ibody_list env handler_map dentry inode buffer) (\<lambda>(ret2, out1).
     if ret2 < 0 then Inr (ret2, out1)
     else
       let buffer = (case buffer of None \<Rightarrow> None | Some buffer_size \<Rightarrow> Some (buffer_size - nat ret2)) in
       kbind (ext4_xattr_block_list env handler_map dentry inode buffer) (\<lambda>(ret, out2).
       if ret < 0 then Inr (ret, out1 @ out2) else Inr (ret + ret2, out1 @ out2)))"

subsection \<open>Reads inside a checked table\<close>

lemma rd_ok: "off + n \<le> length buf \<Longrightarrow> \<exists>bs. rd buf off n = Inr bs \<and> length bs = n"
  by (simp add: rd_def)

lemma rd_le_ok: "off + n \<le> length buf \<Longrightarrow> \<exists>v. rd_le buf off n = Inr v"
  by (simp add: rd_le_def rd_def)

lemma entry_fields_ok:
  assumes "e + 16 \<le> length buf"
  shows "\<exists>v. e_name_len buf e = Inr v" "\<exists>v. e_name_index buf e = Inr v" "\<exists>v. e_value_offs buf e = Inr v"
    "\<exists>v. e_value_inum buf e = Inr v" "\<exists>v. e_value_size buf e = Inr v" "\<exists>v. e_hash buf e = Inr v"
  using assms
  by (auto simp: e_name_len_def e_name_index_def e_value_offs_def e_value_inum_def e_value_size_def e_hash_def intro!: rd_le_ok)

text \<open>A chain of entries from \<open>e\<close> to the end mark at \<open>lst\<close>, each with its successor before \<open>en\<close>.\<close>

inductive walk :: "u8 list \<Rightarrow> nat \<Rightarrow> nat \<Rightarrow> nat \<Rightarrow> bool" for buf en lst where
  walk_stop: "IS_LAST_ENTRY buf lst = Inr True \<Longrightarrow> walk buf en lst lst"
| walk_step: "IS_LAST_ENTRY buf e = Inr False \<Longrightarrow> e_name_len buf e = Inr l \<Longrightarrow> e + EXT4_XATTR_LEN l < en \<Longrightarrow>
    en \<le> length buf \<Longrightarrow> walk buf en lst (e + EXT4_XATTR_LEN l) \<Longrightarrow> walk buf en lst e"

text \<open>Where a table may start: four bytes before the end, at a multiple of four.\<close>

definition table_start :: "u8 list \<Rightarrow> nat \<Rightarrow> nat \<Rightarrow> bool" where
  "table_start buf en e = (e + 4 \<le> en \<and> en \<le> length buf \<and> (en - e) mod 4 = 0)"

lemma IS_LAST_ok: "e + 4 \<le> length buf \<Longrightarrow> \<exists>b. IS_LAST_ENTRY buf e = Inr b"
  using rd_le_ok [of e 4 buf] by (auto simp: IS_LAST_ENTRY_def)

lemma mod4_step:
  "(n - e) mod 4 = 0 \<Longrightarrow> L mod 4 = 0 \<Longrightarrow> e + L < n \<Longrightarrow> (n - (e + L)) mod 4 = 0 \<and> e + L + 4 \<le> n" for n e L :: nat
  by presburger

lemma table_start_next:
  "table_start buf en e \<Longrightarrow> e + EXT4_XATTR_LEN l < en \<Longrightarrow> table_start buf en (e + EXT4_XATTR_LEN l)"
  using mod4_step [of en e "EXT4_XATTR_LEN l"] EXT4_XATTR_LEN_pos(3) [of l] by (simp add: table_start_def)

text \<open>The check of the names never reads outside, and what it accepts is such a chain.\<close>

lemma check_names_walk:
  "table_start buf en e \<Longrightarrow>
   (\<exists>err. check_names buf en e = Inr (Inl err) \<and> err < 0) \<or> (\<exists>lst. check_names buf en e = Inr (Inr lst) \<and> walk buf en lst e)"
proof (induction buf en e rule: check_names.induct)
  case (1 buf en e)
  have e: "e + 4 \<le> length buf" using "1.prems" by (simp add: table_start_def)
  obtain b where b: "IS_LAST_ENTRY buf e = Inr b" using IS_LAST_ok [OF e] by blast
  obtain l where l: "e_name_len buf e = Inr l" using rd_le_ok [of e 1 buf] e by (auto simp: e_name_len_def)
  have nx: "EXT4_XATTR_NEXT buf e = Inr (e + EXT4_XATTR_LEN l)" using l by (simp add: EXT4_XATTR_NEXT_def)
  show ?case
  proof (cases "b \<or> en \<le> e + EXT4_XATTR_LEN l")
    case True
    then have "check_names buf en e = (if b then Inr (Inr e) else Inr (Inl (- EFSCORRUPTED)))"
      using b l nx by (subst check_names.simps) auto
    then show ?thesis using b walk_stop by (auto simp: EFSCORRUPTED_def)
  next
    case False
    have le: "en \<le> length buf" using "1.prems" by (simp add: table_start_def)
    obtain bs where bs: "e_name buf e l = Inr bs"
      using rd_ok [of "e + 16" l buf] EXT4_XATTR_LEN_pos(2) [of l] False le by (auto simp: e_name_def)
    show ?thesis
    proof (cases "length (takeWhile (\<lambda>b. b \<noteq> 0) bs) = l")
      case wrong: False
      then show ?thesis using b l nx bs False by (subst check_names.simps) (simp add: EFSCORRUPTED_def)
    next
      case True
      have "check_names buf en e = check_names buf en (e + EXT4_XATTR_LEN l)"
        using b l nx bs False True by (subst check_names.simps) simp
      then show ?thesis
        using "1.IH" [OF b _ nx _ l bs] False True table_start_next [OF "1.prems", of l] walk_step [OF _ l _ le] b by auto
    qed
  qed
qed

lemma walk_bounds:
  assumes "walk buf en lst e" "IS_LAST_ENTRY buf e = Inr False"
  shows "\<exists>l. e_name_len buf e = Inr l \<and> e + 16 + l \<le> length buf"
  using assms(1)
proof cases
  case (walk_step l)
  then show ?thesis using EXT4_XATTR_LEN_pos(2) [of l] by auto
qed (use assms in auto)

lemma check_values_ok:
  "walk buf en lst entry \<Longrightarrow> \<exists>r. check_values buf en vs e entry = Inr r \<and> r \<le> 0"
proof (induction rule: walk.induct)
  case walk_stop
  then show ?case by (subst check_values.simps) simp
next
  case (walk_step entry l)
  have "entry + 16 \<le> length buf" using walk_step EXT4_XATTR_LEN_pos(1) [of l] by linarith
  note f = entry_fields_ok [OF this]
  obtain sz inum offs where v: "e_value_size buf entry = Inr sz" "e_value_inum buf entry = Inr inum" "e_value_offs buf entry = Inr offs"
    using f by blast
  show ?case using v walk_step by (subst check_values.simps) (auto simp: EXT4_XATTR_NEXT_def EFSCORRUPTED_def Let_def)
qed

lemma check_entries_walk:
  assumes "table_start buf en e"
  shows "\<exists>r. ext4_xattr_check_entries buf e en vs = Inr r \<and> r \<le> 0 \<and> (r = 0 \<longrightarrow> (\<exists>lst. walk buf en lst e))"
  using check_names_walk [OF assms] check_values_ok [of buf en _ e vs] by (fastforce simp: ext4_xattr_check_entries_def)

text \<open>An entry whose name lies inside.\<close>

definition entry_in :: "u8 list \<Rightarrow> nat \<Rightarrow> bool" where
  "entry_in buf e = (\<exists>l. e_name_len buf e = Inr l \<and> e + 16 + l \<le> length buf)"

lemma walk_entry: "walk buf en lst e \<Longrightarrow> IS_LAST_ENTRY buf e = Inr False \<Longrightarrow> entry_in buf e"
  using walk_bounds by (simp add: entry_in_def)

lemma entry_in_fields: "entry_in buf e \<Longrightarrow> e + 16 \<le> length buf"
  by (auto simp: entry_in_def)

lemma entry_cmp_ok: "entry_in buf e \<Longrightarrow> \<exists>c. entry_cmp buf idx name e = Inr c"
proof -
  assume e: "entry_in buf e"
  then obtain l where l: "e_name_len buf e = Inr l" "e + 16 + l \<le> length buf" by (auto simp: entry_in_def)
  obtain i where i: "e_name_index buf e = Inr i" using entry_fields_ok(2) [OF entry_in_fields [OF e]] by blast
  show ?thesis using l i rd_ok [of "e + 16" l buf] by (auto simp: entry_cmp_def e_name_def Let_def)
qed

lemma find_entry_ok:
  "walk buf en lst e \<Longrightarrow> cmp \<noteq> 0 \<Longrightarrow>
   \<exists>err e'. find_entry_loop buf en idx name srt cmp e = Inr (err, e') \<and> err \<le> 0 \<and> (err = 0 \<longrightarrow> entry_in buf e')"
proof (induction arbitrary: cmp rule: walk.induct)
  case walk_stop
  then show ?case by (subst find_entry_loop.simps) (simp add: ENODATA_def)
next
  case (walk_step e l)
  have w: "walk buf en lst e" using walk_step.hyps by (rule walk.walk_step)
  have e: "entry_in buf e" using walk_entry [OF w walk_step.hyps(1)] .
  obtain c where c: "entry_cmp buf idx name e = Inr c" using entry_cmp_ok [OF e] by blast
  have "find_entry_loop buf en idx name srt cmp e =
      (if c \<le> 0 \<and> (srt \<or> c = 0) then Inr (if c \<noteq> 0 then - ENODATA else 0, e)
       else find_entry_loop buf en idx name srt c (e + EXT4_XATTR_LEN l))"
    using walk_step.hyps c by (subst find_entry_loop.simps) (simp add: EXT4_XATTR_NEXT_def)
  then show ?case using walk_step.IH [of c] e by (cases "c \<le> 0 \<and> (srt \<or> c = 0)") (auto simp: ENODATA_def)
qed

lemma xattr_find_entry_ok:
  assumes "walk buf en lst e"
  shows "\<exists>err e'. xattr_find_entry buf e en idx (Some name) srt = Inr (err, e') \<and> err \<le> 0 \<and> (err = 0 \<longrightarrow> entry_in buf e')"
  using find_entry_ok [OF assms, of 1 idx "name_bytes name" srt] by (auto simp: xattr_find_entry_def EFSCORRUPTED_def)

text \<open>A value in an inode of its own has the size of the entry at most.\<close>

lemma length_join_blocks:
  "join_blocks bs tail xs = Inr r \<Longrightarrow> xs \<noteq> [] \<Longrightarrow> length r \<le> (length xs - 1) * bs + tail"
proof (induction xs arbitrary: r)
  case (Cons x xs)
  then obtain b r' where b: "x = Some b" "join_blocks bs tail xs = Inr r'" "r = take (if xs = [] then tail else bs) b @ r'"
    by (cases x) auto
  show ?case
  proof (cases "xs = []")
    case False
    then have "length r' \<le> (length xs - 1) * bs + tail" using Cons.IH b(2) by blast
    moreover have "length xs * bs = bs + (length xs - 1) * bs" using False by (cases xs) auto
    ultimately show ?thesis using b(3) False by auto
  qed (use b in auto)
qed simp

lemma blocks_of_size: "0 < sz \<Longrightarrow> 0 < bs \<Longrightarrow>
    ((sz + bs - 1) div bs - 1) * bs + (if sz mod bs \<noteq> 0 then sz mod bs else bs) = sz" for sz bs :: nat
proof -
  assume "0 < sz" "0 < bs"
  show ?thesis
  proof (cases "sz mod bs = 0")
    case True
    then obtain k where k: "sz = k * bs" by (metis mult.commute mod_0_imp_dvd dvdE)
    then have "0 < k" using \<open>0 < sz\<close> by (cases k) auto
    obtain d where d: "bs = Suc d" using \<open>0 < bs\<close> by (cases bs) auto
    have "(d + k * Suc d) div Suc d = k" by (subst div_mult_self1) simp_all
    then have "(sz + bs - 1) div bs = k" by (simp add: k d add.commute)
    then show ?thesis using k True \<open>0 < k\<close> by (cases k) auto
  next
    case False
    define k where "k = sz div bs"
    define m where "m = sz mod bs"
    have s: "sz = k * bs + m" "0 < m" "m < bs" using False \<open>0 < bs\<close> by (simp_all add: k_def m_def)
    obtain d where d: "m = Suc d" using s(2) by (cases m) auto
    have "(d + (k + 1) * bs) div bs = k + 1" using s(3) d by (subst div_mult_self1) simp_all
    then have "(sz + bs - 1) div bs = k + 1" by (simp add: s(1) d ac_simps)
    then show ?thesis using s False by simp
  qed
qed

lemma ext4_xattr_inode_read_length: "ext4_xattr_inode_read env ino sz = Inr bytes \<Longrightarrow> length bytes \<le> sz"
proof -
  assume r: "ext4_xattr_inode_read env ino sz = Inr bytes"
  define bs :: nat where "bs = 2 ^ ea_blkbits ino"
  define tail where "tail = (if sz mod bs \<noteq> 0 then sz mod bs else bs)"
  define n where "n = (sz + bs - 1) div bs"
  have bs: "0 < bs" by (simp add: bs_def)
  obtain bhs where j: "join_blocks bs tail (take n bhs) = Inr bytes"
    using r by (auto simp: ext4_xattr_inode_read_def Let_def bs_def tail_def n_def split: if_splits)
  show ?thesis
  proof (cases "take n bhs = []")
    case False
    then have "0 < n" by auto
    then have "0 < sz" using bs by (cases sz) (auto simp: n_def)
    have "length (take n bhs) - 1 \<le> n - 1" by simp
    then have "(length (take n bhs) - 1) * bs \<le> (n - 1) * bs" by (rule mult_le_mono1)
    then have "length bytes \<le> (n - 1) * bs + tail" using length_join_blocks [OF j False] by linarith
    then show ?thesis using blocks_of_size [OF \<open>0 < sz\<close> bs] by (simp add: n_def tail_def)
  next
    case True
    then show ?thesis using j unfolding True by simp
  qed
qed

lemma ext4_xattr_inode_get_ok:
  assumes "entry_in buf e"
  shows "\<exists>r. ext4_xattr_inode_get env inode buf e sz = Inr r \<and> (\<forall>bytes. r = Inr bytes \<longrightarrow> length bytes \<le> sz)"
proof -
  obtain l where l: "e_name_len buf e = Inr l" "e + 16 + l \<le> length buf" using assms by (auto simp: entry_in_def)
  obtain n where n: "e_name buf e l = Inr n" using rd_ok [OF l(2)] by (auto simp: e_name_def)
  obtain inum h where f: "e_value_inum buf e = Inr inum" "e_hash buf e = Inr h"
    using entry_fields_ok(4,6) [OF entry_in_fields [OF assms]] by blast
  show ?thesis using l n f ext4_xattr_inode_read_length [of env _ sz]
    by (auto simp: ext4_xattr_inode_get_def Let_def split: sum.splits)
qed

lemma xattr_get_value_ok:
  assumes "entry_in buf e" "en \<le> length buf"
  shows "\<exists>r bytes. xattr_get_value env inode buf base en e buffer = Inr (r, bytes)
    \<and> length bytes \<le> (case buffer of None \<Rightarrow> 0 | Some n \<Rightarrow> n)"
proof -
  obtain sz inum offs where v: "e_value_size buf e = Inr sz" "e_value_inum buf e = Inr inum" "e_value_offs buf e = Inr offs"
    using entry_fields_ok [OF entry_in_fields [OF assms(1)]] by blast
  obtain r where r: "ext4_xattr_inode_get env inode buf e sz = Inr r" "\<forall>bytes. r = Inr bytes \<longrightarrow> length bytes \<le> sz"
    using ext4_xattr_inode_get_ok [OF assms(1)] by blast
  have "\<exists>bs. rd buf (base + offs) sz = Inr bs \<and> length bs = sz" if "\<not> en < base + offs + sz"
    using that assms(2) by (intro rd_ok) simp
  then show ?thesis using v r by (auto simp: xattr_get_value_def split: option.splits sum.splits)
qed

subsection \<open>Safety on every disk content\<close>

text \<open>
  What the callers of these functions guarantee: a raw inode and a block of whole 32-bit words, the extra part
  of an inode with attributes inside of it (checked when the inode is read), and no block marked as verified
  whose table did not pass the check; errors are negative.
\<close>

definition inode_image_ok :: "ext4_env \<Rightarrow> ext4_inode \<Rightarrow> bool" where
  "inode_image_ok env inode =
     ((\<forall>raw. raw_inode inode = Inr raw \<longrightarrow> s_inode_size env = length raw)
      \<and> (\<forall>err. raw_inode inode = Inl err \<longrightarrow> err < 0) \<and> (\<forall>err. acl_block inode = Inl err \<longrightarrow> err < 0)
      \<and> (x_state_xattr inode \<longrightarrow> IHDR inode \<le> s_inode_size env \<and> (s_inode_size env - IHDR inode) mod 4 = 0)
      \<and> (\<forall>bh. acl_block inode = Inr bh \<longrightarrow> 36 \<le> length (b_data bh) \<and> length (b_data bh) mod 4 = 0
           \<and> (b_verified bh \<longrightarrow> ext4_xattr_check_entries (b_data bh) BFIRST (length (b_data bh)) 0 = Inr 0)))"

lemma check_block_ok:
  assumes "36 \<le> length (b_data bh)" "length (b_data bh) mod 4 = 0"
    "b_verified bh \<longrightarrow> ext4_xattr_check_entries (b_data bh) BFIRST (length (b_data bh)) 0 = Inr 0"
  shows "\<exists>err bh'. u_ext4_xattr_check_block env bh = Inr (err, bh') \<and> b_data bh' = b_data bh \<and> err \<le> 0
    \<and> (err = 0 \<longrightarrow> (\<exists>lst. walk (b_data bh) (length (b_data bh)) lst BFIRST))"
proof -
  have t: "table_start (b_data bh) (length (b_data bh)) BFIRST"
    using assms(1,2) by (simp add: table_start_def BFIRST_def mod_eq_0_iff_dvd dvd_diff_nat)
  obtain r where r: "ext4_xattr_check_entries (b_data bh) BFIRST (length (b_data bh)) 0 = Inr r" "r \<le> 0"
      "r = 0 \<longrightarrow> (\<exists>lst. walk (b_data bh) (length (b_data bh)) lst BFIRST)"
    using check_entries_walk [OF t] by blast
  obtain m k c where h: "rd_le (b_data bh) 0 4 = Inr m" "rd_le (b_data bh) 8 4 = Inr k" "rd_le (b_data bh) 16 4 = Inr c"
    using rd_le_ok [of 0 4 "b_data bh"] rd_le_ok [of 8 4 "b_data bh"] rd_le_ok [of 16 4 "b_data bh"] assms(1) by auto
  obtain g where g: "ext4_xattr_block_csum_verify env bh = Inr g" using h(3)
    by (cases "has_metadata_csum env") (simp_all add: ext4_xattr_block_csum_verify_def)
  have u: "u_ext4_xattr_check_block env bh =
      (if m \<noteq> EXT4_XATTR_MAGIC \<or> k \<noteq> 1 then Inr (- EFSCORRUPTED, bh)
       else if b_verified bh then Inr (0, bh)
       else if \<not> g then Inr (- EFSBADCRC, bh)
       else Inr (r, if r \<noteq> 0 then bh else bh\<lparr>b_verified := True\<rparr>))"
    by (simp add: u_ext4_xattr_check_block_def h g r(1))
  show ?thesis
  proof (cases "b_verified bh")
    case True
    then have "r = 0" using assms(3) r(1) by simp
    then show ?thesis using u True r(3) by (auto simp: EFSCORRUPTED_def EFSBADCRC_def)
  qed (use u r in \<open>auto simp: EFSCORRUPTED_def EFSBADCRC_def\<close>)
qed

lemma check_inode_ok:
  assumes "header \<le> length raw" "(length raw - header) mod 4 = 0"
  shows "\<exists>err. u_xattr_check_inode raw header (length raw) = Inr err \<and> err \<le> 0
    \<and> (err = 0 \<longrightarrow> (\<exists>lst. walk raw (length raw) lst (IFIRST header)))"
proof (cases "length raw - header < 8")
  case True
  then show ?thesis using assms by (simp add: u_xattr_check_inode_def EFSCORRUPTED_def)
next
  case False
  have "header + 4 \<le> length raw" using False by simp
  then obtain m where m: "rd_le raw header 4 = Inr m" using rd_le_ok by blast
  have t: "table_start raw (length raw) (IFIRST header)"
    using False mod4_step [of "length raw" header 4] assms(2) by (simp add: table_start_def IFIRST_def)
  show ?thesis using m False check_entries_walk [OF t, of "IFIRST header"] by (auto simp: u_xattr_check_inode_def EFSCORRUPTED_def)
qed

lemma ext4_xattr_block_get_ok:
  assumes "inode_image_ok env inode"
  shows "\<exists>r bytes. ext4_xattr_block_get env inode idx name buffer = Inr (r, bytes)
    \<and> length bytes \<le> (case buffer of None \<Rightarrow> 0 | Some n \<Rightarrow> n)"
proof (cases "i_file_acl inode = 0")
  case acl: False
  show ?thesis
  proof (cases "acl_block inode")
    case (Inr bh)
    obtain err bh' where c: "u_ext4_xattr_check_block env bh = Inr (err, bh')" "b_data bh' = b_data bh"
        "err = 0 \<longrightarrow> (\<exists>lst. walk (b_data bh) (length (b_data bh)) lst BFIRST)"
      using check_block_ok [of bh env] assms Inr by (auto simp: inode_image_ok_def)
    show ?thesis
    proof (cases "err = 0")
      case True
      then obtain lst where w: "walk (b_data bh) (length (b_data bh)) lst BFIRST" using c(3) by blast
      obtain f e where f: "xattr_find_entry (b_data bh) BFIRST (length (b_data bh)) idx (Some name) True = Inr (f, e)"
          "f = 0 \<longrightarrow> entry_in (b_data bh) e"
        using xattr_find_entry_ok [OF w] by blast
      show ?thesis using True acl Inr c f xattr_get_value_ok [of "b_data bh" e "length (b_data bh)" env inode 0 buffer]
        by (cases "f = 0") (auto simp: ext4_xattr_block_get_def split: option.splits)
    qed (use acl Inr c in \<open>simp add: ext4_xattr_block_get_def split: option.splits\<close>)
  qed (use acl in \<open>simp add: ext4_xattr_block_get_def split: option.splits\<close>)
qed (simp add: ext4_xattr_block_get_def split: option.splits)

lemma ext4_xattr_ibody_get_ok:
  assumes "inode_image_ok env inode"
  shows "\<exists>r bytes. ext4_xattr_ibody_get env inode idx name buffer = Inr (r, bytes)
    \<and> length bytes \<le> (case buffer of None \<Rightarrow> 0 | Some n \<Rightarrow> n)"
proof (cases "x_state_xattr inode")
  case st: True
  show ?thesis
  proof (cases "raw_inode inode")
    case (Inr raw)
    have n: "s_inode_size env = length raw" "IHDR inode \<le> length raw" "(length raw - IHDR inode) mod 4 = 0"
      using assms st Inr by (auto simp: inode_image_ok_def)
    obtain err where c: "u_xattr_check_inode raw (IHDR inode) (length raw) = Inr err"
        "err = 0 \<longrightarrow> (\<exists>lst. walk raw (length raw) lst (IFIRST (IHDR inode)))"
      using check_inode_ok [OF n(2,3)] by blast
    show ?thesis
    proof (cases "err = 0")
      case True
      then obtain lst where w: "walk raw (length raw) lst (IFIRST (IHDR inode))" using c(2) by blast
      obtain f e where f: "xattr_find_entry raw (IFIRST (IHDR inode)) (length raw) idx (Some name) False = Inr (f, e)"
          "f = 0 \<longrightarrow> entry_in raw e"
        using xattr_find_entry_ok [OF w] by blast
      show ?thesis using True st Inr c f n(1) xattr_get_value_ok [of raw e "length raw" env inode "IFIRST (IHDR inode)" buffer]
        by (cases "f = 0") (auto simp: ext4_xattr_ibody_get_def Let_def split: option.splits)
    qed (use st Inr c n in \<open>simp add: ext4_xattr_ibody_get_def Let_def split: option.splits\<close>)
  qed (use st in \<open>simp add: ext4_xattr_ibody_get_def split: option.splits\<close>)
qed (simp add: ext4_xattr_ibody_get_def split: option.splits)

subsection \<open>Listing\<close>

text \<open>What an entry contributes to the list: its full name, if a handler shows it.\<close>

definition listed_name :: "(nat \<Rightarrow> 'p xattr_handler option) \<Rightarrow> 'p inode \<Rightarrow> nat \<Rightarrow> u8 list \<Rightarrow> u8 list" where
  "listed_name handler_map dentry idx name =
     (case ext4_xattr_handler handler_map idx of
        None \<Rightarrow> []
      | Some h \<Rightarrow> if (case h_list h of None \<Rightarrow> True | Some f \<Rightarrow> f dentry)
                  then name_bytes (xattr_prefix h) @ name @ [0] else [])"

lemma list_entries_step:
  assumes "IS_LAST_ENTRY buf e = Inr False" "e_name_len buf e = Inr l" "e_name_index buf e = Inr idx"
    "e_name buf e l = Inr bs" "length bs = l"
  shows "list_entries_loop m d buf buffer tot out e =
    (let t = listed_name m d idx bs in
     case buffer of
       None \<Rightarrow> list_entries_loop m d buf buffer (tot + length t) out (e + EXT4_XATTR_LEN l)
     | Some n \<Rightarrow> if n - tot < length t then Inr (- ERANGE, out)
                 else list_entries_loop m d buf buffer (tot + length t) (out @ t) (e + EXT4_XATTR_LEN l))"
  using assms
  by (subst list_entries_loop.simps)
    (auto simp: listed_name_def EXT4_XATTR_NEXT_def name_bytes_def Let_def split: option.splits)

text \<open>The loop from \<open>e\<close> on adds the names \<open>t\<close>, or as much of them as fits and an error.\<close>

definition lists_from :: "(nat \<Rightarrow> 'p xattr_handler option) \<Rightarrow> 'p inode \<Rightarrow> u8 list \<Rightarrow> nat \<Rightarrow> u8 list \<Rightarrow> bool" where
  "lists_from m d buf e t = (\<forall>tot out.
     list_entries_loop m d buf None tot out e = Inr (int (tot + length t), out)
   \<and> (\<forall>n. length out = tot \<longrightarrow> tot \<le> n \<longrightarrow>
       (\<exists>out'. list_entries_loop m d buf (Some n) tot out e =
          Inr (if tot + length t \<le> n then int (tot + length t) else - ERANGE, out')
        \<and> length out' \<le> n \<and> (tot + length t \<le> n \<longrightarrow> out' = out @ t))))"

text \<open>The whole list: with enough room all of it is written, otherwise the call fails inside the room.\<close>

lemma list_entries_ok:
  "walk buf en lst e \<Longrightarrow> \<exists>t. lists_from m d buf e t"
proof (induction rule: walk.induct)
  case walk_stop
  then show ?case by (intro exI [of _ "[]"]) (auto simp: lists_from_def list_entries_loop.simps)
next
  case (walk_step e l)
  have w: "walk buf en lst e" using walk_step.hyps by (rule walk.walk_step)
  have e: "e + 16 + l \<le> length buf" using walk_bounds [OF w walk_step.hyps(1)] walk_step.hyps(2) by auto
  obtain idx where i: "e_name_index buf e = Inr idx" using entry_fields_ok(2) [of e buf] e by auto
  obtain bs where b: "e_name buf e l = Inr bs" "length bs = l" using rd_ok [OF e] by (auto simp: e_name_def)
  obtain t where t: "lists_from m d buf (e + EXT4_XATTR_LEN l) t"
    using walk_step.IH by blast
  define s where "s = listed_name m d idx bs"
  note step = list_entries_step [OF walk_step.hyps(1,2) i b, of m d, folded s_def]
  show ?case
  proof (intro exI [of _ "s @ t"], unfold lists_from_def, intro allI conjI impI)
    show "list_entries_loop m d buf None tot out e = Inr (int (tot + length (s @ t)), out)" for tot out
      using t by (simp add: lists_from_def step Let_def add.assoc)
    fix tot and out :: "u8 list" and n
    assume o: "length out = tot" "tot \<le> n"
    show "\<exists>out'. list_entries_loop m d buf (Some n) tot out e =
          Inr (if tot + length (s @ t) \<le> n then int (tot + length (s @ t)) else - ERANGE, out')
        \<and> length out' \<le> n \<and> (tot + length (s @ t) \<le> n \<longrightarrow> out' = out @ s @ t)"
    proof (cases "n - tot < length s")
      case True
      then have "\<not> tot + length (s @ t) \<le> n" using o by auto
      then show ?thesis using True o by (simp add: step Let_def)
    next
      case False
      then have "tot + length s \<le> n" "length (out @ s) = tot + length s" using o by auto
      then obtain out' where "list_entries_loop m d buf (Some n) (tot + length s) (out @ s) (e + EXT4_XATTR_LEN l) =
          Inr (if tot + length s + length t \<le> n then int (tot + length s + length t) else - ERANGE, out')"
          "length out' \<le> n" "tot + length s + length t \<le> n \<longrightarrow> out' = (out @ s) @ t"
        using t unfolding lists_from_def by blast
      then show ?thesis using False by (simp add: step Let_def add.assoc)
    qed
  qed
qed

text \<open>The two places, with or without attributes: a list of names or an error, in both kinds of calls the same.\<close>

definition list_contract :: "(nat option \<Rightarrow> (int \<times> u8 list) kres) \<Rightarrow> bool" where
  "list_contract f = ((\<exists>err < 0. \<forall>buffer. f buffer = Inr (err, []))
     \<or> (\<exists>t. f None = Inr (int (length t), []) \<and>
          (\<forall>n. \<exists>out. f (Some n) = Inr (if length t \<le> n then int (length t) else - ERANGE, out)
             \<and> length out \<le> n \<and> (length t \<le> n \<longrightarrow> out = t))))"

lemma list_entries_contract: "walk buf en lst e \<Longrightarrow> list_contract (\<lambda>buffer. ext4_xattr_list_entries m d buf buffer e)"
proof -
  assume w: "walk buf en lst e"
  obtain t where t: "lists_from m d buf e t"
    using list_entries_ok [OF w, of m d] by blast
  show ?thesis unfolding list_contract_def ext4_xattr_list_entries_def
    using spec [OF spec [OF t [unfolded lists_from_def], of 0], of "[]"] by (intro disjI2 exI [of _ t]) (simp only: list.size le0 simp_thms add_0 append_Nil)
qed

lemma list_contract_error: "err < 0 \<Longrightarrow> list_contract (\<lambda>buffer. Inr (err, []))"
  by (auto simp: list_contract_def)

lemma list_contract_empty: "list_contract (\<lambda>buffer. Inr (0, []))"
  by (auto simp: list_contract_def)

lemma ibody_list_contract:
  assumes "inode_image_ok env inode"
  shows "list_contract (ext4_xattr_ibody_list env m d inode)"
proof (cases "x_state_xattr inode")
  case st: True
  show ?thesis
  proof (cases "raw_inode inode")
    case (Inl err)
    then have "ext4_xattr_ibody_list env m d inode = (\<lambda>buffer. Inr (err, []))" "err < 0"
      using assms st by (auto simp: ext4_xattr_ibody_list_def fun_eq_iff inode_image_ok_def)
    then show ?thesis by (simp add: list_contract_error)
  next
    case (Inr raw)
    have n: "s_inode_size env = length raw" "IHDR inode \<le> length raw" "(length raw - IHDR inode) mod 4 = 0"
      using assms st Inr by (auto simp: inode_image_ok_def)
    obtain err where c: "u_xattr_check_inode raw (IHDR inode) (length raw) = Inr err" "err \<le> 0"
        "err = 0 \<longrightarrow> (\<exists>lst. walk raw (length raw) lst (IFIRST (IHDR inode)))"
      using check_inode_ok [OF n(2,3)] by blast
    have f: "ext4_xattr_ibody_list env m d inode =
        (\<lambda>buffer. if err \<noteq> 0 then Inr (err, []) else ext4_xattr_list_entries m d raw buffer (IFIRST (IHDR inode)))"
      using st Inr c(1) n(1) by (auto simp: ext4_xattr_ibody_list_def fun_eq_iff)
    show ?thesis using c(2,3) list_contract_error list_entries_contract by (cases "err = 0") (auto simp: f)
  qed
next
  case False
  then have "ext4_xattr_ibody_list env m d inode = (\<lambda>buffer. Inr (0, []))" by (simp add: ext4_xattr_ibody_list_def fun_eq_iff)
  then show ?thesis by (simp add: list_contract_empty)
qed

lemma block_list_contract:
  assumes "inode_image_ok env inode"
  shows "list_contract (ext4_xattr_block_list env m d inode)"
proof (cases "i_file_acl inode = 0")
  case acl: False
  show ?thesis
  proof (cases "acl_block inode")
    case (Inl err)
    then have "ext4_xattr_block_list env m d inode = (\<lambda>buffer. Inr (err, []))" "err < 0"
      using assms acl by (auto simp: ext4_xattr_block_list_def fun_eq_iff inode_image_ok_def)
    then show ?thesis by (simp add: list_contract_error)
  next
    case (Inr bh)
    obtain err bh' where c: "u_ext4_xattr_check_block env bh = Inr (err, bh')" "b_data bh' = b_data bh" "err \<le> 0"
        "err = 0 \<longrightarrow> (\<exists>lst. walk (b_data bh) (length (b_data bh)) lst BFIRST)"
      using check_block_ok [of bh env] assms Inr by (auto simp: inode_image_ok_def)
    have f: "ext4_xattr_block_list env m d inode =
        (\<lambda>buffer. if err \<noteq> 0 then Inr (err, []) else ext4_xattr_list_entries m d (b_data bh) buffer BFIRST)"
      using acl Inr c(1,2) by (auto simp: ext4_xattr_block_list_def fun_eq_iff)
    show ?thesis using c(3,4) list_contract_error list_entries_contract by (cases "err = 0") (auto simp: f)
  qed
next
  case True
  then have "ext4_xattr_block_list env m d inode = (\<lambda>buffer. Inr (0, []))" by (simp add: ext4_xattr_block_list_def fun_eq_iff)
  then show ?thesis by (simp add: list_contract_empty)
qed

lemma list_contract_room: "list_contract f \<Longrightarrow> \<exists>r out. f (Some n) = Inr (r, out) \<and> length out \<le> n \<and> (0 \<le> r \<longrightarrow> nat r = length out)"
proof -
  assume "list_contract f"
  then consider err where "err < 0" "f (Some n) = Inr (err, [])"
    | t out where "f (Some n) = Inr (if length t \<le> n then int (length t) else - ERANGE, out)" "length out \<le> n" "length t \<le> n \<longrightarrow> out = t"
    unfolding list_contract_def by blast
  then show ?thesis by cases (auto simp: ERANGE_def)
qed

lemma listxattr_room:
  assumes "inode_image_ok env inode"
  shows "\<exists>r out. ext4_listxattr env m d inode (Some n) = Inr (r, out) \<and> length out \<le> n"
proof -
  obtain r out where r: "ext4_xattr_ibody_list env m d inode (Some n) = Inr (r, out)" "length out \<le> n" "0 \<le> r \<longrightarrow> nat r = length out"
    using list_contract_room [OF ibody_list_contract [OF assms]] by blast
  obtain r' out' where r': "ext4_xattr_block_list env m d inode (Some (n - nat r)) = Inr (r', out')" "length out' \<le> n - nat r"
    using list_contract_room [OF block_list_contract [OF assms]] by blast
  show ?thesis using r r' by (cases "r < 0") (auto simp: ext4_listxattr_def)
qed

text \<open>The names of the two places one behind the other.\<close>

definition lists_names :: "(nat option \<Rightarrow> (int \<times> u8 list) kres) \<Rightarrow> u8 list \<Rightarrow> bool" where
  "lists_names f t = (f None = Inr (int (length t), []) \<and>
     (\<forall>n. \<exists>out. f (Some n) = Inr (if length t \<le> n then int (length t) else - ERANGE, out)
        \<and> length out \<le> n \<and> (length t \<le> n \<longrightarrow> out = t)))"

lemma listxattr_both:
  assumes t: "lists_names (ext4_xattr_ibody_list env m d inode) t" and u: "lists_names (ext4_xattr_block_list env m d inode) u"
  shows "\<exists>out. ext4_listxattr env m d inode (Some n) = Inr (if length t + length u \<le> n then int (length t + length u) else - ERANGE, out)
    \<and> (length t + length u \<le> n \<longrightarrow> length out = length t + length u)"
proof -
  obtain o1 where o1: "ext4_xattr_ibody_list env m d inode (Some n) = Inr (if length t \<le> n then int (length t) else - ERANGE, o1)"
      "length t \<le> n \<longrightarrow> o1 = t"
    using t unfolding lists_names_def by blast
  obtain o2 where o2: "ext4_xattr_block_list env m d inode (Some (n - length t)) =
      Inr (if length u \<le> n - length t then int (length u) else - ERANGE, o2)" "length u \<le> n - length t \<longrightarrow> o2 = u"
    using u unfolding lists_names_def by blast
  consider "length t + length u \<le> n" | "length t \<le> n" "n < length t + length u" | "n < length t" by linarith
  then show ?thesis
  proof cases
    case 1
    then have "length t \<le> n" "length u \<le> n - length t" by linarith+
    then show ?thesis using 1 o1 o2 by (simp add: ext4_listxattr_def)
  next
    case 2
    then have "\<not> length u \<le> n - length t" by linarith
    then show ?thesis using 2 o1 o2 by (simp add: ext4_listxattr_def ERANGE_def)
  next
    case 3
    then show ?thesis using o1 by (simp add: ext4_listxattr_def ERANGE_def)
  qed
qed

lemma list_contract_cases:
  assumes "list_contract f"
  obtains err where "err < 0" "\<And>buffer. f buffer = Inr (err, [])" | t where "lists_names f t"
  using assms unfolding list_contract_def lists_names_def by blast

subsection \<open>An image\<close>

text \<open>An inode body with the attribute \<^verbatim>\<open>custom.k\<close> of value \<^verbatim>\<open>abc\<close>, and no attribute block.\<close>

definition ext4_demo_raw :: "u8 list" where
  "ext4_demo_raw = replicate 128 0 @ [0, 0, 2, 0xEA] @ [1, 11, 24, 0, 0, 0, 0, 0, 3, 0, 0, 0, 0, 0, 0, 0, 107, 0, 0, 0]
     @ [0, 0, 0, 0] @ [97, 98, 99, 0]"

definition ext4_demo_env :: ext4_env where
  "ext4_demo_env = \<lparr>has_metadata_csum = False, s_csum_seed = 0, ext4_chksum = (\<lambda>c bs. 0), s_inode_size = 160,
     forced_shutdown = False, ext4_iget = (\<lambda>i. Inl (- EIO)), kmalloc_ok = (\<lambda>n. True)\<rparr>"

definition ext4_demo_inode :: ext4_inode where
  "ext4_demo_inode = \<lparr>x_ino = 12, x_generation = 0, i_extra_isize = 0, x_state_xattr = True, i_file_acl = 0,
     raw_inode = Inr ext4_demo_raw, acl_block = Inl (- EIO)\<rparr>"

lemma ext4_demo_ok: "inode_image_ok ext4_demo_env ext4_demo_inode"
  by (simp add: inode_image_ok_def ext4_demo_env_def ext4_demo_inode_def ext4_demo_raw_def IHDR_def EXT4_GOOD_OLD_INODE_SIZE_def EIO_def)

text \<open>C30. Reading an attribute is safe on every disk: whatever the bytes of the inode and of the attribute block,
  the entries, names and values are read only inside of them, and at most as many bytes as the caller has
  room for are copied. Corruption is an error code, never an access outside.\<close>

theorem ext4_xattr_get_safe:
  assumes "inode_image_ok env inode"
  shows "\<exists>r bytes. ext4_xattr_get env inode name_index name buffer = Inr (r, bytes)
    \<and> length bytes \<le> (case buffer of None \<Rightarrow> 0 | Some n \<Rightarrow> n)"
proof -
  obtain r bytes where b: "ext4_xattr_ibody_get env inode name_index name buffer = Inr (r, bytes)"
      "length bytes \<le> (case buffer of None \<Rightarrow> 0 | Some n \<Rightarrow> n)"
    using ext4_xattr_ibody_get_ok [OF assms] by blast
  then show ?thesis using ext4_xattr_block_get_ok [OF assms, of name_index name buffer]
    by (cases "r = - ENODATA") (auto simp: ext4_xattr_get_def split: option.splits)
qed

theorem ext4_xattr_get_safe_witness:
  "\<exists>r bytes. ext4_xattr_get ext4_demo_env ext4_demo_inode 11 ''k'' (Some 10) = Inr (r, bytes) \<and> length bytes \<le> 10"
  using ext4_xattr_get_safe [OF ext4_demo_ok, of 11 "''k''" "Some 10"] by simp

text \<open>Listing never writes past the caller's buffer, whatever the disk holds, and the size reported without a
  buffer is exact: every buffer of that size gets all names, every smaller one \<^verbatim>\<open>-ERANGE\<close>.\<close>

lemma ext4_listxattr_exact:
  assumes "inode_image_ok env inode"
  shows "(\<forall>n. \<exists>r out. ext4_listxattr env m d inode (Some n) = Inr (r, out) \<and> length out \<le> n)
    \<and> (\<exists>r. ext4_listxattr env m d inode None = Inr (r, []) \<and> (0 \<le> r \<longrightarrow>
        (\<forall>n. \<exists>out. ext4_listxattr env m d inode (Some n) = Inr (if nat r \<le> n then r else - ERANGE, out)
           \<and> (nat r \<le> n \<longrightarrow> length out = nat r))))"
proof -
  note room = listxattr_room [OF assms]
  show ?thesis
  proof (cases rule: list_contract_cases [OF ibody_list_contract [OF assms, of m d]])
    case (1 err)
    then show ?thesis using room by (auto simp: ext4_listxattr_def)
  next
    case t: (2 t)
    show ?thesis
    proof (cases rule: list_contract_cases [OF block_list_contract [OF assms, of m d]])
      case (1 err)
      then show ?thesis using room t by (auto simp: ext4_listxattr_def lists_names_def)
    next
      case (2 u)
      define k where "k = length t + length u"
      have n: "ext4_listxattr env m d inode None = Inr (int k, [])"
        using t 2 by (simp add: ext4_listxattr_def lists_names_def k_def)
      have "\<exists>out. ext4_listxattr env m d inode (Some j) = Inr (if nat (int k) \<le> j then int k else - ERANGE, out)
          \<and> (nat (int k) \<le> j \<longrightarrow> length out = nat (int k))" for j
        using listxattr_both [OF t 2, of j, folded k_def] by simp
      then show ?thesis using room n by blast
    qed
  qed
qed

theorem ext4_listxattr_exact_witness:
  "\<exists>r. ext4_listxattr ext4_demo_env
     (\<lambda>i. if i = 11 then Some \<lparr>h_match = ByPrefix XATTR_CUSTOM_PREFIX, h_list = None, h_get = None, h_set = None\<rparr> else None)
     demo_inode ext4_demo_inode None = Inr (r, [])"
  using ext4_listxattr_exact [OF ext4_demo_ok] by blast

end
