(* ===== verification/Ext4_EA_Inode.thy ===== *)
theory Ext4_EA_Inode
  imports Ext4_Xattr
begin

text \<open>
  Values of attributes in inodes of their own (\<^verbatim>\<open>fs/ext4/xattr.c\<close>): their reference counts, the quota charged
  for them, finding one with the same content and creating and writing a new one. An inode is known by its
  number; the state has the inodes in memory, the references taken on them with \<^verbatim>\<open>iget\<close> and not put back, the orphan
  list and the charge to the owner of the file. Calls into other files of ext4, the journal and quota code
  answer through \<^verbatim>\<open>ea_services\<close>; the number of calls made so far is an argument, so that the answers may differ.
  The lemmas show that a value stored this way is read back, and that failures give back what was taken.
\<close>

subsection \<open>State and services\<close>

datatype ea_call =
    ReserveInodeWrite nat
  | MarkIlocDirty nat
  | MarkInodeDirty nat
  | AttachJinode nat
  | OrphanAdd nat
  | DquotAllocInode
  | DquotAllocSpace nat
  | MapBlocks nat nat nat
  | ShouldRetryAlloc
  | Getblk nat nat
  | GetWriteAccess nat nat

record ea_services =
  svc :: "ea_call \<Rightarrow> nat \<Rightarrow> int"
  svc_new_inode :: "nat \<Rightarrow> int + ea_inode"
  svc_cached :: "(u32 \<Rightarrow> nat list) option"
  svc_retries :: nat
  svc_blkbits :: nat
  svc_cluster_bits :: nat
  svc_mounted :: bool

record ea_state =
  ea_inodes :: "nat \<Rightarrow> int + ea_inode"
  ea_orphans :: "nat list"
  ea_held :: "nat \<Rightarrow> int"
  quota_inodes :: int
  quota_space :: int
  ea_calls :: nat

definition ask :: "ea_services \<Rightarrow> ea_call \<Rightarrow> ea_state \<Rightarrow> int \<times> ea_state" where
  "ask sv c st = (svc sv c (ea_calls st), st\<lparr>ea_calls := ea_calls st + 1\<rparr>)"

definition hold :: "nat \<Rightarrow> ea_state \<Rightarrow> ea_state" where
  "hold ino st = st\<lparr>ea_held := (ea_held st)(ino := ea_held st ino + 1)\<rparr>"

definition iput :: "nat \<Rightarrow> ea_state \<Rightarrow> ea_state" where
  "iput ino st = st\<lparr>ea_held := (ea_held st)(ino := ea_held st ino - 1)\<rparr>"

definition set_inode :: "nat \<Rightarrow> ea_inode \<Rightarrow> ea_state \<Rightarrow> ea_state" where
  "set_inode ino x st = st\<lparr>ea_inodes := (ea_inodes st)(ino := Inr x)\<rparr>"

text \<open>The inodes in memory are what \<^verbatim>\<open>ext4_iget\<close> finds.\<close>

definition ea_view :: "ext4_env \<Rightarrow> ea_state \<Rightarrow> ext4_env" where
  "ea_view env st = env\<lparr>ext4_iget := ea_inodes st\<rparr>"

definition ea_iget :: "ext4_env \<Rightarrow> ext4_inode \<Rightarrow> nat \<Rightarrow> u32 \<Rightarrow> ea_state \<Rightarrow> (int + nat) \<times> ea_state" where
  "ea_iget env parent ino hash st =
     (case ext4_xattr_inode_iget (ea_view env st) parent ino hash of
        Inl err \<Rightarrow> (Inl err, st)
      | Inr x \<Rightarrow> (Inr ino, hold ino (set_inode ino x st)))"

subsection \<open>Reference counts\<close>

definition ext4_xattr_inode_update_ref :: "ea_services \<Rightarrow> nat \<Rightarrow> u64 \<Rightarrow> bool \<Rightarrow> ea_state \<Rightarrow> int \<times> ea_state" where
  "ext4_xattr_inode_update_ref sv ino ref_change up st =
     (let (ret, st) = ask sv (ReserveInodeWrite ino) st in
      if ret \<noteq> 0 then (ret, st)
      else case ea_inodes st ino of
        Inl err \<Rightarrow> (err, st)
      | Inr x \<Rightarrow>
          let ref_count = ext4_xattr_inode_get_ref x + ref_change;
              x = ext4_xattr_inode_set_ref ref_count x;
              st = (if up then
                      if ref_count = 1 then (set_inode ino (x\<lparr>ea_nlink := 1\<rparr>) st)\<lparr>ea_orphans := removeAll ino (ea_orphans st)\<rparr>
                      else set_inode ino x st
                    else if ref_count = 0 then
                      let (added, st) = ask sv (OrphanAdd ino) (set_inode ino (x\<lparr>ea_nlink := 0\<rparr>) st) in
                      if added = 0 \<and> ino \<notin> set (ea_orphans st) then st\<lparr>ea_orphans := ino # ea_orphans st\<rparr> else st
                    else set_inode ino x st) in
          ask sv (MarkIlocDirty ino) st)"

definition ext4_xattr_inode_inc_ref :: "ea_services \<Rightarrow> nat \<Rightarrow> ea_state \<Rightarrow> int \<times> ea_state" where
  "ext4_xattr_inode_inc_ref sv ino st = ext4_xattr_inode_update_ref sv ino 1 True st"

definition ext4_xattr_inode_dec_ref :: "ea_services \<Rightarrow> nat \<Rightarrow> ea_state \<Rightarrow> int \<times> ea_state" where
  "ext4_xattr_inode_dec_ref sv ino st = ext4_xattr_inode_update_ref sv ino (- 1) False st"

subsection \<open>Quota\<close>

definition round_up_cluster :: "ea_services \<Rightarrow> nat \<Rightarrow> nat" where
  "round_up_cluster sv len =
     (let cluster_size = 2 ^ (svc_cluster_bits sv + svc_blkbits sv) in
      (len + cluster_size - 1) mod 2 ^ 64 div cluster_size * cluster_size)"

definition ext4_xattr_inode_alloc_quota :: "ea_services \<Rightarrow> nat \<Rightarrow> ea_state \<Rightarrow> int \<times> ea_state" where
  "ext4_xattr_inode_alloc_quota sv len st =
     (let (err, st) = ask sv DquotAllocInode st in
      if err \<noteq> 0 then (err, st)
      else
        let st = st\<lparr>quota_inodes := quota_inodes st + 1\<rparr>;
            (err, st) = ask sv (DquotAllocSpace (round_up_cluster sv len)) st in
        if err \<noteq> 0 then (err, st\<lparr>quota_inodes := quota_inodes st - 1\<rparr>)
        else (0, st\<lparr>quota_space := quota_space st + int (round_up_cluster sv len)\<rparr>))"

definition ext4_xattr_inode_free_quota :: "ea_services \<Rightarrow> nat option \<Rightarrow> nat \<Rightarrow> ea_state \<Rightarrow> ea_state" where
  "ext4_xattr_inode_free_quota sv ino len st =
     (if (case ino of None \<Rightarrow> False | Some i \<Rightarrow> (case ea_inodes st i of Inl _ \<Rightarrow> False | Inr x \<Rightarrow> ea_lustre x)) then st
      else st\<lparr>quota_space := quota_space st - int (round_up_cluster sv len), quota_inodes := quota_inodes st - 1\<rparr>)"

subsection \<open>Writing a value\<close>

text \<open>
  Allocating the blocks: \<open>ret\<close> is what the last call mapped. The allocator grants a bounded number of retries.
\<close>

function map_blocks_loop :: "ea_services \<Rightarrow> nat \<Rightarrow> nat \<Rightarrow> nat \<Rightarrow> nat \<Rightarrow> int \<Rightarrow> ea_state \<Rightarrow> int \<times> ea_state" where
  "map_blocks_loop sv ino retries block max_blocks ret st =
     (if \<not> (0 \<le> ret \<and> ret < int max_blocks) then (ret, st)
      else
        let block = block + nat ret;
            max_blocks = max_blocks - nat ret;
            (ret, st) = ask sv (MapBlocks ino block max_blocks) st in
        if 0 < ret then map_blocks_loop sv ino retries block max_blocks ret st
        else
          let (_, st) = ask sv (MarkInodeDirty ino) st in
          if ret = - ENOSPC then
            let (again, st) = ask sv ShouldRetryAlloc st in
            if again \<noteq> 0 \<and> retries < svc_retries sv then map_blocks_loop sv ino (Suc retries) block max_blocks 0 st
            else (ret, st)
          else (ret, st))"
  by pat_completeness auto
termination
  by (relation "measures [\<lambda>(sv, ino, retries, block, mx, ret, st). svc_retries sv - retries,
        \<lambda>(sv, ino, retries, block, mx, ret, st). mx, \<lambda>(sv, ino, retries, block, mx, ret, st). if ret = 0 then 1 else 0]") (auto split: prod.splits)

declare map_blocks_loop.simps [simp del]

text \<open>Copying: the blocks written, a short one filled up with zeros. A third answer of \<^verbatim>\<open>ext4_getblk\<close> is NULL.\<close>

function write_blocks_loop :: "ea_services \<Rightarrow> nat \<Rightarrow> nat \<Rightarrow> u8 list \<Rightarrow> ea_state \<Rightarrow> int \<times> u8 list list \<times> ea_state" where
  "write_blocks_loop sv ino block buf st =
     (if buf = [] then (0, [], st)
      else
        let blocksize = 2 ^ svc_blkbits sv;
            csize = (if blocksize < length buf then blocksize else length buf);
            (bh, st) = ask sv (Getblk ino block) st in
        if bh < 0 then (bh, [], st)
        else if bh > 0 then (- EFSCORRUPTED, [], st)
        else
          let (ret, st) = ask sv (GetWriteAccess ino block) st in
          if ret \<noteq> 0 then (ret, [], st)
          else
            let b_data = take csize buf @ replicate (blocksize - csize) 0;
                (ret, rest, st) = write_blocks_loop sv ino (block + 1) (drop csize buf) st in
            (ret, b_data # rest, st))"
  by pat_completeness auto
termination
  by (relation "measure (\<lambda>(sv, ino, block, buf, st). length buf)") auto

declare write_blocks_loop.simps [simp del]

text \<open>The blocks already in the inode keep their content where the loop did not come.\<close>

definition put_blocks :: "u8 list list \<Rightarrow> ea_inode \<Rightarrow> ea_inode" where
  "put_blocks bs x = x\<lparr>ea_blocks := (case ea_blocks x of
       Inl err \<Rightarrow> Inr (map Some bs) | Inr old \<Rightarrow> Inr (map Some bs @ drop (length bs) old))\<rparr>"

definition ext4_xattr_inode_write :: "ea_services \<Rightarrow> nat \<Rightarrow> u8 list \<Rightarrow> ea_state \<Rightarrow> int \<times> ea_state" where
  "ext4_xattr_inode_write sv ino buf st =
     (let blocksize = 2 ^ svc_blkbits sv;
          max_blocks = (length buf + blocksize - 1) div 2 ^ svc_blkbits sv;
          (ret, st) = map_blocks_loop sv ino 0 0 max_blocks 0 st in
      if ret < 0 then (ret, st)
      else
        let (err, bs, st) = write_blocks_loop sv ino 0 buf st;
            st = (case ea_inodes st ino of Inl _ \<Rightarrow> st | Inr x \<Rightarrow> set_inode ino (put_blocks bs x) st) in
        if err \<noteq> 0 then (err, st)
        else
          let st = (case ea_inodes st ino of Inl _ \<Rightarrow> st | Inr x \<Rightarrow> set_inode ino (x\<lparr>ea_size := length buf\<rparr>) st);
              ret = (if buf = [] then ret else 0);
              (ret2, st) = ask sv (MarkInodeDirty ino) st in
          (if ret2 \<noteq> 0 \<and> ret = 0 then ret2 else ret, st))"

subsection \<open>Finding or creating the inode of a value\<close>

text \<open>
  A new inode has one reference; the inode \<^verbatim>\<open>ext4_new_inode\<close> charges to the quota of its owner is released again
  at once, which is left out here.
\<close>

definition ext4_xattr_inode_create :: "ea_services \<Rightarrow> u32 \<Rightarrow> ea_state \<Rightarrow> (int + nat) \<times> ea_state" where
  "ext4_xattr_inode_create sv hash st =
     (if \<not> svc_mounted sv then (Inl (- EINVAL), st)
      else case svc_new_inode sv (ea_calls st) of
        Inl err \<Rightarrow> (Inl err, st\<lparr>ea_calls := ea_calls st + 1\<rparr>)
      | Inr x \<Rightarrow>
          let ino = ea_ino x;
              st = hold ino (set_inode ino ((ext4_xattr_inode_set_ref 1 x)\<lparr>ea_atime := hash\<rparr>) (st\<lparr>ea_calls := ea_calls st + 1\<rparr>));
              (err, st) = ask sv (MarkInodeDirty ino) st;
              (err, st) = (if err = 0 then ask sv (AttachJinode ino) st else (err, st)) in
          if err \<noteq> 0 then (Inl err, iput ino (snd (ext4_xattr_inode_dec_ref sv ino st)))
          else (Inr ino, st))"

fun cache_find_loop :: "ext4_env \<Rightarrow> u8 list \<Rightarrow> nat list \<Rightarrow> ea_state \<Rightarrow> nat option \<times> ea_state" where
  "cache_find_loop env value [] st = (None, st)"
| "cache_find_loop env value (c # cs) st =
     (case ea_inodes st c of
        Inl err \<Rightarrow> cache_find_loop env value cs st
      | Inr x \<Rightarrow>
          if ea_size x = length value \<and>
             (case ext4_xattr_inode_read env x (length value) of
                Inl err \<Rightarrow> False
              | Inr ea_data \<Rightarrow> ext4_xattr_inode_hash env ea_data = ea_atime x \<and> ea_data = value)
          then (Some c, hold c st)
          else cache_find_loop env value cs (iput c (hold c st)))"

definition ext4_xattr_inode_cache_find :: "ea_services \<Rightarrow> ext4_env \<Rightarrow> u8 list \<Rightarrow> u32 \<Rightarrow> ea_state \<Rightarrow> nat option \<times> ea_state" where
  "ext4_xattr_inode_cache_find sv env value hash st =
     (case svc_cached sv of
        None \<Rightarrow> (None, st)
      | Some cached \<Rightarrow>
          if cached hash = [] \<or> \<not> kmalloc_ok env (length value) then (None, st)
          else cache_find_loop env value (cached hash) st)"

definition ext4_xattr_inode_lookup_create ::
    "ea_services \<Rightarrow> ext4_env \<Rightarrow> u8 list \<Rightarrow> ea_state \<Rightarrow> (int + nat) \<times> ea_state" where
  "ext4_xattr_inode_lookup_create sv env value st =
     (let hash = ext4_xattr_inode_hash env value;
          (found, st) = ext4_xattr_inode_cache_find sv env value hash st in
      case found of
        Some ino \<Rightarrow>
          let (err, st) = ext4_xattr_inode_inc_ref sv ino st in
          if err \<noteq> 0 then (Inl err, iput ino st) else (Inr ino, st)
      | None \<Rightarrow>
          let (created, st) = ext4_xattr_inode_create sv hash st in
          case created of
            Inl err \<Rightarrow> (Inl err, st)
          | Inr ino \<Rightarrow>
              let (err, st) = ext4_xattr_inode_write sv ino value st in
              if err \<noteq> 0 then (Inl err, iput ino (snd (ext4_xattr_inode_dec_ref sv ino st)))
              else (Inr ino, st))"

subsection \<open>Numbers and errors\<close>

text \<open>Errors of other files are not zero, and inode numbers are those an entry can hold.\<close>

definition ea_sane :: "ea_services \<Rightarrow> bool" where
  "ea_sane sv = ((\<forall>t. case svc_new_inode sv t of Inl err \<Rightarrow> err \<noteq> 0 | Inr x \<Rightarrow> 0 < ea_ino x \<and> ea_ino x < 2 ^ 32)
     \<and> (\<forall>cached h. svc_cached sv = Some cached \<longrightarrow> (\<forall>n \<in> set (cached h). 0 < n \<and> n < 2 ^ 32)))"

definition igets_fail :: "ea_state \<Rightarrow> bool" where
  "igets_fail st = (\<forall>ino err. ea_inodes st ino = Inl err \<longrightarrow> err \<noteq> 0)"

lemma cache_find_loop_mem: "cache_find_loop env v cs st = (Some c, st') \<Longrightarrow> c \<in> set cs"
  by (induction env v cs st rule: cache_find_loop.induct) (auto split: sum.splits if_splits)

lemma inode_create_result:
  assumes "ea_sane sv" "ext4_xattr_inode_create sv hash st = (r, st')"
  shows "case r of Inl err \<Rightarrow> err \<noteq> 0 | Inr n \<Rightarrow> 0 < n \<and> n < 2 ^ 32"
proof -
  have n: "case svc_new_inode sv (ea_calls st) of Inl err \<Rightarrow> err \<noteq> 0 | Inr x \<Rightarrow> 0 < ea_ino x \<and> ea_ino x < 2 ^ 32"
    using assms(1) unfolding ea_sane_def by blast
  show ?thesis
  proof (cases "svc_new_inode sv (ea_calls st)")
    case (Inl err)
    then have "err \<noteq> 0" using n by simp
    then show ?thesis using assms(2) Inl by (auto simp: ext4_xattr_inode_create_def EINVAL_def split: if_splits)
  next
    case (Inr x)
    then have "0 < ea_ino x \<and> ea_ino x < 2 ^ 32" using n by simp
    then show ?thesis using assms(2) Inr
      by (auto simp: ext4_xattr_inode_create_def ask_def EINVAL_def Let_def split: if_splits)
  qed
qed

lemma lookup_create_result:
  assumes "ea_sane sv" "ext4_xattr_inode_lookup_create sv env v st = (r, st')"
  shows "case r of Inl err \<Rightarrow> err \<noteq> 0 | Inr n \<Rightarrow> 0 < n \<and> n < 2 ^ 32"
proof -
  obtain found st1 where f: "ext4_xattr_inode_cache_find sv env v (ext4_xattr_inode_hash env v) st = (found, st1)" by fastforce
  show ?thesis
  proof (cases found)
    case (Some c)
    then obtain cached where "svc_cached sv = Some cached" "c \<in> set (cached (ext4_xattr_inode_hash env v))"
      using f cache_find_loop_mem by (fastforce simp: ext4_xattr_inode_cache_find_def split: option.splits if_splits)
    then have "0 < c \<and> c < 2 ^ 32" using assms(1) by (auto simp: ea_sane_def)
    then show ?thesis using assms(2) f Some by (auto simp: ext4_xattr_inode_lookup_create_def Let_def split: prod.splits if_splits)
  next
    case None
    obtain created st2 where c: "ext4_xattr_inode_create sv (ext4_xattr_inode_hash env v) st1 = (created, st2)" by fastforce
    show ?thesis using assms(2) f None c inode_create_result [OF assms(1) c]
      by (cases created) (auto simp: ext4_xattr_inode_lookup_create_def Let_def split: prod.splits if_splits)
  qed
qed

lemma ea_iget_result:
  assumes "igets_fail st" "ea_iget env parent ino hash st = (r, st')"
  shows "case r of Inl err \<Rightarrow> err \<noteq> 0 | Inr n \<Rightarrow> n = ino"
  using assms by (auto simp: ea_iget_def ext4_xattr_inode_iget_def ea_view_def igets_fail_def EFSCORRUPTED_def split: sum.splits if_splits)

subsection \<open>A value stored in an inode is read back\<close>

text \<open>States that differ in the number of calls made.\<close>

definition later :: "ea_state \<Rightarrow> ea_state \<Rightarrow> bool" where
  "later st st' = (st'\<lparr>ea_calls := 0\<rparr> = st\<lparr>ea_calls := 0\<rparr>)"

lemma later_refl [simp]: "later st st"
  by (simp add: later_def)

lemma later_trans [trans]: "later st st' \<Longrightarrow> later st' st'' \<Longrightarrow> later st st''"
  by (simp add: later_def)

lemma later_ask: "ask sv c st = (r, st') \<Longrightarrow> later st st'"
  by (auto simp: ask_def later_def)

lemma laterD: "later st st' \<Longrightarrow> ea_inodes st' = ea_inodes st \<and> ea_held st' = ea_held st \<and> quota_inodes st' = quota_inodes st
    \<and> quota_space st' = quota_space st \<and> ea_orphans st' = ea_orphans st"
  by (cases st; cases st') (simp add: later_def)

lemma map_blocks_later: "later st (snd (map_blocks_loop sv ino r b m ret st))"
proof (induction sv ino r b m ret st rule: map_blocks_loop.induct)
  case (1 sv ino r b m ret st)
  show ?case
  proof (cases "0 \<le> ret \<and> ret < int m")
    case True
    obtain ret1 st1 where a: "ask sv (MapBlocks ino (b + nat ret) (m - nat ret)) st = (ret1, st1)" by fastforce
    obtain u st2 where d: "ask sv (MarkInodeDirty ino) st1 = (u, st2)" by fastforce
    obtain v st3 where g: "ask sv ShouldRetryAlloc st2 = (v, st3)" by fastforce
    note l = later_ask [OF a] later_ask [OF d] later_ask [OF g]
    note IH = "1.IH" [OF _ refl refl a [symmetric] refl]
    have "map_blocks_loop sv ino r b m ret st =
        (if 0 < ret1 then map_blocks_loop sv ino r (b + nat ret) (m - nat ret) ret1 st1
         else if ret1 = - ENOSPC then
           if v \<noteq> 0 \<and> r < svc_retries sv then map_blocks_loop sv ino (Suc r) (b + nat ret) (m - nat ret) 0 st3 else (ret1, st3)
         else (ret1, st2))"
      using True a d g by (subst map_blocks_loop.simps) simp
    then show ?thesis
      using IH(1) IH(2) [OF _ _ d [symmetric] refl _ g [symmetric] refl] True l later_trans by (auto split: if_splits)
  qed (simp add: map_blocks_loop.simps)
qed

text \<open>The copying loop cuts the value into blocks, from which the reading loop puts it together again.\<close>

definition tail_of :: "nat \<Rightarrow> nat \<Rightarrow> nat" where
  "tail_of bs n = (if n mod bs \<noteq> 0 then n mod bs else bs)"

lemma write_blocks_step:
  assumes "write_blocks_loop sv ino block buf st = (r, bs, st')" "buf \<noteq> []"
  obtains "later st st'" "r \<noteq> 0" | st1 rest where "later st st1" "bs = (take (2 ^ svc_blkbits sv) buf @ replicate (2 ^ svc_blkbits sv - length buf) 0) # rest"
    "write_blocks_loop sv ino (block + 1) (drop (2 ^ svc_blkbits sv) buf) st1 = (r, rest, st')"
proof -
  define B :: nat where "B = 2 ^ svc_blkbits sv"
  obtain bh st1 where a: "ask sv (Getblk ino block) st = (bh, st1)" by fastforce
  obtain ret st2 where b: "ask sv (GetWriteAccess ino block) st1 = (ret, st2)" by fastforce
  have l: "later st st1" "later st st2" using later_ask [OF a] later_ask [OF b] later_trans by blast+
  define c where "c = (if B < length buf then B else length buf)"
  have c: "take c buf = take B buf" "B - c = B - length buf" "drop c buf = drop B buf" by (auto simp: c_def)
  obtain r1 rest st3 where w: "write_blocks_loop sv ino (block + 1) (drop B buf) st2 = (r1, rest, st3)" by (cases "write_blocks_loop sv ino (block + 1) (drop B buf) st2") auto
  have "write_blocks_loop sv ino block buf st = (if bh < 0 then (bh, [], st1) else if bh > 0 then (- EFSCORRUPTED, [], st1)
      else if ret \<noteq> 0 then (ret, [], st2) else (r1, (take B buf @ replicate (B - length buf) 0) # rest, st3))"
    using assms(2) a b w c by (subst write_blocks_loop.simps) (simp add: Let_def flip: B_def c_def)
  then show ?thesis using assms(1) l w that by (auto simp: B_def EFSCORRUPTED_def split: if_splits)
qed

lemma write_blocks_later: "write_blocks_loop sv ino block buf st = (r, bs, st') \<Longrightarrow> later st st'"
proof (induction "length buf" arbitrary: block buf st bs rule: less_induct)
  case less
  show ?case
  proof (cases "buf = []")
    case True
    then show ?thesis using less.prems by (simp add: write_blocks_loop.simps)
  next
    case False
    show ?thesis
    proof (rule write_blocks_step [OF less.prems False])
      fix st1 rest assume w: "later st st1" "write_blocks_loop sv ino (block + 1) (drop (2 ^ svc_blkbits sv) buf) st1 = (r, rest, st')"
      have "length (drop (2 ^ svc_blkbits sv) buf) < length buf" using False by simp
      then show ?thesis using less.hyps w later_trans by blast
    qed
  qed
qed

lemma write_blocks_read:
  "write_blocks_loop sv ino block buf st = (0, bs, st') \<Longrightarrow> B = 2 ^ svc_blkbits sv \<Longrightarrow>
   length bs = (length buf + B - 1) div B \<and> join_blocks B (tail_of B (length buf)) (map Some bs) = Inr buf"
proof (induction "length buf" arbitrary: block buf st bs rule: less_induct)
  case less
  have B: "0 < B" using less.prems(2) by simp
  show ?case
  proof (cases "buf = []")
    case True
    then show ?thesis using less.prems B by (simp add: write_blocks_loop.simps)
  next
    case False
    obtain st1 rest where w: "bs = (take B buf @ replicate (B - length buf) 0) # rest" "write_blocks_loop sv ino (block + 1) (drop B buf) st1 = (0, rest, st')"
      using write_blocks_step [OF less.prems(1) False] less.prems(2) by blast
    have lt: "length (drop B buf) < length buf" using False B by simp
    note IH = less.hyps [OF lt w(2) less.prems(2)]
    show ?thesis
    proof (cases "length buf \<le> B")
      case True
      then have "rest = []" using w(2) by (simp add: write_blocks_loop.simps)
      have "0 < length buf" using False by simp
      then have "(length buf + B - 1) div B = 1" 
        using True B by (cases "length buf") (auto simp: div_add_self2 less_eq_Suc_le)
      moreover have "tail_of B (length buf) = length buf"
        using True \<open>0 < length buf\<close> by (cases "length buf = B") (auto simp: tail_of_def)
      ultimately show ?thesis using w(1) \<open>rest = []\<close> True by simp
    next
      case long: False
      define d where "d = length (drop B buf) + B - 1"
      have "length buf + B - 1 = d + B" using B long by (simp add: d_def)
      then have "(length buf + B - 1) div B = d div B + 1" using B by (simp add: div_add_self2)
      moreover have "length buf mod B = (length buf - B) mod B" using long by (intro le_mod_geq) simp
      then have "tail_of B (length buf) = tail_of B (length (drop B buf))" by (simp add: tail_of_def)
      moreover have "rest \<noteq> []"
      proof
        assume "rest = []"
        then show False using IH long by simp
      qed
      moreover have "length rest = d div B" using IH unfolding d_def by blast
      ultimately show ?thesis using w(1) IH [THEN conjunct2] long by (simp add: less_imp_le)
    qed
  qed
qed

text \<open>What reading needs of an inode.\<close>

definition holds_value :: "ext4_env \<Rightarrow> u8 list \<Rightarrow> ea_inode \<Rightarrow> bool" where
  "holds_value env v x = (ext4_xattr_inode_read env x (length v) = Inr v \<and> ea_size x = length v \<and> ea_atime x = ext4_xattr_inode_hash env v)"

lemma holds_value_ref [simp]: "holds_value env v (ext4_xattr_inode_set_ref r x) = holds_value env v x"
    "holds_value env v (x\<lparr>ea_nlink := n\<rparr>) = holds_value env v x"
  by (simp_all add: holds_value_def ext4_xattr_inode_read_def ext4_xattr_inode_set_ref_def Let_def)

lemma update_ref_holds:
  assumes "ext4_xattr_inode_update_ref sv ino c up st = (0, st')" "ea_inodes st ino = Inr x"
  shows "\<exists>y. ea_inodes st' ino = Inr y \<and> ext4_xattr_inode_get_ref y = ext4_xattr_inode_get_ref (ext4_xattr_inode_set_ref (ext4_xattr_inode_get_ref x + c) x)
    \<and> holds_value env v y = holds_value env v x"
  using assms
  by (auto simp: ext4_xattr_inode_update_ref_def ask_def set_inode_def Let_def ext4_xattr_inode_get_ref_def split: if_splits)

lemma cache_find_holds:
  "cache_find_loop env v cs st = (Some c, st') \<Longrightarrow> \<exists>x. ea_inodes st' c = Inr x \<and> holds_value env v x"
proof (induction env v cs st rule: cache_find_loop.induct)
  case (2 env v c cs st)
  then show ?case
    by (cases "ea_inodes st c") (auto simp: holds_value_def hold_def iput_def split: if_splits sum.splits)
qed simp

lemma inode_write_holds:
  assumes w: "ext4_xattr_inode_write sv ino v st = (0, st')" and x: "ea_inodes st ino = Inr x" "ea_blkbits x = svc_blkbits sv"
      "ea_atime x = ext4_xattr_inode_hash env v" and k: "\<forall>n. kmalloc_ok env n"
  shows "\<exists>y. ea_inodes st' ino = Inr y \<and> holds_value env v y"
proof -
  define B :: nat where "B = 2 ^ svc_blkbits sv"
  define mx where "mx = (length v + B - 1) div B"
  obtain ret st1 where m: "map_blocks_loop sv ino 0 0 mx 0 st = (ret, st1)" by fastforce
  obtain err bs st2 where b: "write_blocks_loop sv ino 0 v st1 = (err, bs, st2)" by (cases "write_blocks_loop sv ino 0 v st1") auto
  have i: "ea_inodes st1 = ea_inodes st" "ea_inodes st2 = ea_inodes st"
    using laterD [OF map_blocks_later [of st sv ino 0 0 mx 0]] m laterD [OF write_blocks_later [OF b]] by auto
  have e: "err = 0" using w m b by (auto simp: ext4_xattr_inode_write_def Let_def mx_def B_def split: if_splits)
  define y where "y = (put_blocks bs x)\<lparr>ea_size := length v\<rparr>"
  have "ea_inodes st' ino = Inr y"
    using w m b e i x(1) by (auto simp: ext4_xattr_inode_write_def Let_def mx_def B_def set_inode_def ask_def y_def split: if_splits)
  moreover have j: "length bs = mx" "join_blocks B (tail_of B (length v)) (map Some bs) = Inr v"
    using write_blocks_read [OF b [unfolded e] B_def] by (simp_all add: mx_def)
  have "holds_value env v y" unfolding holds_value_def
  proof (intro conjI)
    show "ext4_xattr_inode_read env y (length v) = Inr v"
      using j k x(2) by (auto simp: ext4_xattr_inode_read_def y_def put_blocks_def B_def mx_def tail_of_def Let_def split: sum.splits if_splits)
  qed (use x(3) in \<open>simp_all add: y_def put_blocks_def\<close>)
  ultimately show ?thesis by blast
qed

lemma get_set_ref [simp]: "ext4_xattr_inode_get_ref (ext4_xattr_inode_set_ref r x) = r"
proof -
  have m: "(0xFFFFFFFF :: u64) = mask 32" by (simp add: mask_eq_exp_minus_1)
  show ?thesis
    unfolding ext4_xattr_inode_get_ref_def ext4_xattr_inode_set_ref_def m
    by (intro bit_word_eqI) (auto simp: bit_simps)
qed

text \<open>What the services promise of a new inode: the block size of the file system.\<close>

definition new_blocksize :: "ea_services \<Rightarrow> bool" where
  "new_blocksize sv = (\<forall>t x. svc_new_inode sv t = Inr x \<longrightarrow> ea_blkbits x = svc_blkbits sv)"

lemma inode_create_holds:
  assumes "ext4_xattr_inode_create sv hash st = (Inr ino, st')" "new_blocksize sv"
  shows "\<exists>x. ea_inodes st' ino = Inr x \<and> ea_blkbits x = svc_blkbits sv \<and> ea_atime x = hash"
  using assms
  by (auto simp: ext4_xattr_inode_create_def ask_def Let_def hold_def set_inode_def new_blocksize_def ext4_xattr_inode_set_ref_def split: if_splits sum.splits)

lemma lookup_create_holds:
  assumes l: "ext4_xattr_inode_lookup_create sv env v st = (Inr ino, st')" and k: "\<forall>n. kmalloc_ok env n" and n: "new_blocksize sv"
  shows "\<exists>x. ea_inodes st' ino = Inr x \<and> holds_value env v x"
proof -
  obtain found st1 where f: "ext4_xattr_inode_cache_find sv env v (ext4_xattr_inode_hash env v) st = (found, st1)" by fastforce
  show ?thesis
  proof (cases found)
    case (Some c)
    then obtain x where x: "ea_inodes st1 c = Inr x" "holds_value env v x"
      using f cache_find_holds by (fastforce simp: ext4_xattr_inode_cache_find_def split: option.splits if_splits)
    have "ino = c \<and> ext4_xattr_inode_update_ref sv c 1 True st1 = (0, st')"
      using l f Some by (auto simp: ext4_xattr_inode_lookup_create_def ext4_xattr_inode_inc_ref_def Let_def split: prod.splits if_splits)
    then show ?thesis using update_ref_holds [of sv c 1 True st1 st' x env v] x by auto
  next
    case None
    obtain created st2 where c: "ext4_xattr_inode_create sv (ext4_xattr_inode_hash env v) st1 = (created, st2)" by fastforce
    have w: "created = Inr ino" "ext4_xattr_inode_write sv ino v st2 = (0, st')"
      using l f None c by (auto simp: ext4_xattr_inode_lookup_create_def Let_def split: prod.splits if_splits sum.splits)
    then obtain x where "ea_inodes st2 ino = Inr x" "ea_blkbits x = svc_blkbits sv" "ea_atime x = ext4_xattr_inode_hash env v"
      using inode_create_holds c n by blast
    then show ?thesis using inode_write_holds [OF w(2)] k by blast
  qed
qed

subsection \<open>References in memory and quota\<close>

text \<open>What must balance: references held in memory, inodes and space charged.\<close>

definition accounts :: "ea_state \<Rightarrow> (nat \<Rightarrow> int) \<times> int \<times> int" where
  "accounts st = (ea_held st, quota_inodes st, quota_space st)"

lemma accounts_simps [simp]: "accounts (hold ino st) = ((fst (accounts st))(ino := fst (accounts st) ino + 1), snd (accounts st))"
    "accounts (iput ino st) = ((fst (accounts st))(ino := fst (accounts st) ino - 1), snd (accounts st))"
    "accounts (set_inode ino x st) = accounts st" "accounts (st\<lparr>ea_calls := n\<rparr>) = accounts st" "accounts (st\<lparr>ea_orphans := os\<rparr>) = accounts st"
  by (simp_all add: accounts_def hold_def iput_def set_inode_def)

lemma later_accounts: "later st st' \<Longrightarrow> accounts st' = accounts st"
  using laterD [of st st'] by (simp add: accounts_def)

text \<open>No inode of the old Lustre kind, whose space is not charged.\<close>

definition no_lustre :: "ea_state \<Rightarrow> bool" where
  "no_lustre st = (\<forall>i x. ea_inodes st i = Inr x \<longrightarrow> \<not> ea_lustre x)"

lemma no_lustre_simps [simp]: "no_lustre (hold ino st) = no_lustre st" "no_lustre (iput ino st) = no_lustre st"
    "no_lustre (st\<lparr>ea_calls := n\<rparr>) = no_lustre st" "no_lustre (st\<lparr>ea_orphans := os\<rparr>) = no_lustre st"
    "no_lustre (st\<lparr>ea_held := h\<rparr>) = no_lustre st" "no_lustre (st\<lparr>quota_inodes := q\<rparr>) = no_lustre st"
    "no_lustre (st\<lparr>quota_space := q\<rparr>) = no_lustre st" "no_lustre st \<Longrightarrow> \<not> ea_lustre x \<Longrightarrow> no_lustre (set_inode ino x st)"
  by (auto simp: no_lustre_def hold_def iput_def set_inode_def)

lemma later_no_lustre: "later st st' \<Longrightarrow> no_lustre st' = no_lustre st"
  using laterD [of st st'] by (simp add: no_lustre_def)

lemma ask_accounts: "ask sv c st = (r, st') \<Longrightarrow> accounts st' = accounts st \<and> no_lustre st' = no_lustre st"
  using later_ask later_accounts later_no_lustre by blast

lemma update_ref_accounts:
  assumes "ext4_xattr_inode_update_ref sv ino c up st = (ret, st')"
  shows "accounts st' = accounts st \<and> (no_lustre st \<longrightarrow> no_lustre st')"
proof (cases "ea_inodes st ino")
  case (Inl err)
  then show ?thesis using assms by (auto simp: ext4_xattr_inode_update_ref_def ask_def split: if_splits)
next
  case (Inr x)
  have n: "no_lustre st \<Longrightarrow> \<not> ea_lustre x" using Inr by (simp add: no_lustre_def)
  have "\<not> ea_lustre x \<Longrightarrow> \<not> ea_lustre (ext4_xattr_inode_set_ref r x)" for r by (simp add: ext4_xattr_inode_set_ref_def)
  then show ?thesis using assms Inr n by (auto simp: ext4_xattr_inode_update_ref_def ask_def Let_def split: if_splits)
qed

lemma dec_ref_accounts: "accounts (snd (ext4_xattr_inode_dec_ref sv ino st)) = accounts st"
    "no_lustre st \<Longrightarrow> no_lustre (snd (ext4_xattr_inode_dec_ref sv ino st))"
  unfolding ext4_xattr_inode_dec_ref_def using update_ref_accounts [of sv ino "- 1" False st] by (metis surjective_pairing)+

lemma inode_write_accounts:
  assumes "ext4_xattr_inode_write sv ino v st = (r, st')"
  shows "accounts st' = accounts st \<and> (no_lustre st \<longrightarrow> no_lustre st')"
proof -
  define mx where "mx = (length v + 2 ^ svc_blkbits sv - 1) div 2 ^ svc_blkbits sv"
  obtain ret st1 where m: "map_blocks_loop sv ino 0 0 mx 0 st = (ret, st1)" by fastforce
  obtain err bs st2 where b: "write_blocks_loop sv ino 0 v st1 = (err, bs, st2)" by (cases "write_blocks_loop sv ino 0 v st1") auto
  have l: "later st st1" "later st st2"
    using map_blocks_later [of st sv ino 0 0 mx 0] m write_blocks_later [OF b] later_trans by auto
  define st3 where "st3 = (case ea_inodes st2 ino of Inl _ \<Rightarrow> st2 | Inr x \<Rightarrow> set_inode ino (put_blocks bs x) st2)"
  define st4 where "st4 = (case ea_inodes st3 ino of Inl _ \<Rightarrow> st3 | Inr x \<Rightarrow> set_inode ino (x\<lparr>ea_size := length v\<rparr>) st3)"
  have a: "accounts st3 = accounts st2" "no_lustre st2 \<Longrightarrow> no_lustre st3"
    by (auto simp: st3_def put_blocks_def no_lustre_def split: sum.splits) (auto simp: set_inode_def split: if_splits)
  have c: "accounts st4 = accounts st3" "no_lustre st3 \<Longrightarrow> no_lustre st4"
    by (auto simp: st4_def no_lustre_def split: sum.splits) (auto simp: set_inode_def split: if_splits)
  obtain ret2 st5 where d: "ask sv (MarkInodeDirty ino) st4 = (ret2, st5)" by fastforce
  have "snd (ext4_xattr_inode_write sv ino v st) = (if ret < 0 then st1 else if err \<noteq> 0 then st3 else st5)"
    unfolding ext4_xattr_inode_write_def Let_def mx_def [symmetric] m prod.case b st3_def [symmetric] st4_def [symmetric] d by simp
  then have "st' = st1 \<or> st' = st3 \<or> later st4 st'" using assms later_ask [OF d] by (auto split: if_splits)
  then show ?thesis using l a c later_accounts later_no_lustre by metis
qed

text \<open>A call that hands out an inode has taken a reference on it; one that fails has taken none.\<close>

definition took :: "nat option \<Rightarrow> ea_state \<Rightarrow> ea_state \<Rightarrow> bool" where
  "took ino st st' = ((case ino of None \<Rightarrow> accounts st' = accounts st | Some n \<Rightarrow> accounts st' = accounts (hold n st))
     \<and> (no_lustre st \<longrightarrow> no_lustre st'))"

lemma took_refl [simp]: "took None st st"
  by (simp add: took_def)

lemma took_trans: "took None st st1 \<Longrightarrow> took ino st1 st2 \<Longrightarrow> took ino st st2"
    "took ino st st1 \<Longrightarrow> took None st1 st2 \<Longrightarrow> took ino st st2"
  by (auto simp: took_def accounts_def hold_def split: option.splits)

lemma took_iput: "took (Some ino) st st1 \<Longrightarrow> took None st (iput ino st1)"
  by (auto simp: took_def accounts_def hold_def iput_def fun_eq_iff)

lemma update_ref_took: "ext4_xattr_inode_update_ref sv ino c up st = (ret, st') \<Longrightarrow> took None st st'"
  using update_ref_accounts by (auto simp: took_def)

lemma dec_ref_took: "took None st (snd (ext4_xattr_inode_dec_ref sv ino st))"
  using dec_ref_accounts by (auto simp: took_def)

lemma cache_find_took: "cache_find_loop env v cs st = (found, st') \<Longrightarrow> took found st st'"
proof (induction env v cs st rule: cache_find_loop.induct)
  case (2 env v c cs st)
  have "iput c (hold c st) = st" by (simp add: hold_def iput_def)
  then show ?case using 2 by (cases "ea_inodes st c") (auto simp: took_def split: if_splits sum.splits)
qed (simp add: took_def)

text \<open>A new inode is not of the Lustre kind either.\<close>

definition new_plain :: "ea_services \<Rightarrow> bool" where
  "new_plain sv = (\<forall>t x. svc_new_inode sv t = Inr x \<longrightarrow> \<not> ea_lustre x)"

lemma inode_create_took:
  assumes "ext4_xattr_inode_create sv hash st = (r, st')" "new_plain sv"
  shows "took (case r of Inl _ \<Rightarrow> None | Inr n \<Rightarrow> Some n) st st'"
proof (cases "svc_mounted sv \<and> (\<exists>x. svc_new_inode sv (ea_calls st) = Inr x)")
  case False
  then show ?thesis using assms(1) by (auto simp: ext4_xattr_inode_create_def took_def split: sum.splits if_splits)
next
  case True
  then obtain x where x: "svc_mounted sv" "svc_new_inode sv (ea_calls st) = Inr x" by blast
  define st1 where "st1 = hold (ea_ino x) (set_inode (ea_ino x) ((ext4_xattr_inode_set_ref 1 x)\<lparr>ea_atime := hash\<rparr>) (st\<lparr>ea_calls := ea_calls st + 1\<rparr>))"
  obtain e1 s1 where e1: "ask sv (MarkInodeDirty (ea_ino x)) st1 = (e1, s1)" by fastforce
  obtain err st2 where e: "(if e1 = 0 then ask sv (AttachJinode (ea_ino x)) s1 else (e1, s1)) = (err, st2)" by fastforce
  have c: "ext4_xattr_inode_create sv hash st =
      (if err \<noteq> 0 then (Inl err, iput (ea_ino x) (snd (ext4_xattr_inode_dec_ref sv (ea_ino x) st2))) else (Inr (ea_ino x), st2))"
    unfolding ext4_xattr_inode_create_def x(2) sum.case Let_def st1_def [symmetric] e1 prod.case e using x(1) by simp
  have "\<not> ea_lustre x" using assms(2) x(2) by (auto simp: new_plain_def)
  then have "no_lustre st \<Longrightarrow> no_lustre st1" by (simp add: st1_def ext4_xattr_inode_set_ref_def)
  moreover have "accounts st1 = accounts (hold (ea_ino x) st)" by (simp add: st1_def)
  ultimately have "took (Some (ea_ino x)) st st1" by (simp add: took_def)
  moreover have "took None st1 st2" using e e1 by (auto simp: took_def ask_def split: if_splits)
  ultimately have t: "took (Some (ea_ino x)) st st2" using took_trans(2) by blast
  then have "took None st (iput (ea_ino x) (snd (ext4_xattr_inode_dec_ref sv (ea_ino x) st2)))"
    using took_iput took_trans(2) dec_ref_took by blast
  then show ?thesis using c t assms(1) by (auto split: if_splits)
qed

lemma lookup_create_took:
  assumes l: "ext4_xattr_inode_lookup_create sv env v st = (r, st')" and n: "new_plain sv"
  shows "took (case r of Inl _ \<Rightarrow> None | Inr n \<Rightarrow> Some n) st st'"
proof -
  obtain found st1 where f: "ext4_xattr_inode_cache_find sv env v (ext4_xattr_inode_hash env v) st = (found, st1)" by fastforce
  have t: "took found st st1"
    using f cache_find_took took_refl by (auto simp: ext4_xattr_inode_cache_find_def split: option.splits if_splits)
  show ?thesis
  proof (cases found)
    case (Some c)
    obtain err st2 where u: "ext4_xattr_inode_inc_ref sv c st1 = (err, st2)" by fastforce
    then have "took None st1 st2" using update_ref_took by (auto simp: ext4_xattr_inode_inc_ref_def)
    then have "took (Some c) st st2" "took None st (iput c st2)" using t Some took_trans(2) took_iput by blast+
    then show ?thesis using l f Some u by (auto simp: ext4_xattr_inode_lookup_create_def Let_def split: if_splits)
  next
    case None
    obtain created st2 where c: "ext4_xattr_inode_create sv (ext4_xattr_inode_hash env v) st1 = (created, st2)" by fastforce
    note t2 = took_trans(1) [OF t [unfolded None] inode_create_took [OF c n]]
    show ?thesis
    proof (cases created)
      case (Inl err)
      then show ?thesis using l f None c t2 by (simp add: ext4_xattr_inode_lookup_create_def Let_def split: if_splits)
    next
      case (Inr ino)
      obtain err st3 where w: "ext4_xattr_inode_write sv ino v st2 = (err, st3)" by fastforce
      have "took None st2 st3" using inode_write_accounts [OF w] by (simp add: took_def)
      then have t3: "took (Some ino) st st3" using t2 Inr took_trans(2) by fastforce
      then have "took None st (iput ino (snd (ext4_xattr_inode_dec_ref sv ino st3)))" using took_iput took_trans(2) dec_ref_took by blast
      then show ?thesis using l f None c Inr w t3 by (auto simp: ext4_xattr_inode_lookup_create_def Let_def split: if_splits)
    qed
  qed
qed

end
