(* ===== verification/Ext4_Table.thy ===== *)
theory Ext4_Table
  imports Ext4_EA_Inode
begin

text \<open>
  Changing a table of attributes in place: \<^verbatim>\<open>ext4_xattr_set_entry\<close> of \<^verbatim>\<open>fs/ext4/xattr.c\<close> on bytes, with its
  \<^verbatim>\<open>memmove\<close>, \<^verbatim>\<open>memset\<close> and \<^verbatim>\<open>memcpy\<close>. A write outside of the buffer is the fault \<^verbatim>\<open>BufferOverflow\<close>. Sizes are numbers below
  2 to the 64 and wrap as \<^verbatim>\<open>size_t\<close> does. The lemmas show what the steps do to a table that is given as a list of
  entries followed by the end mark, the free space and the values.
\<close>

subsection \<open>Writing bytes\<close>

definition wr :: "u8 list \<Rightarrow> nat \<Rightarrow> u8 list \<Rightarrow> u8 list kres" where
  "wr buf off bs =
     (if off + length bs \<le> length buf then Inr (take off buf @ bs @ drop (off + length bs) buf) else Inl BufferOverflow)"

definition memset_zero :: "u8 list \<Rightarrow> nat \<Rightarrow> nat \<Rightarrow> u8 list kres" where
  "memset_zero buf off n = wr buf off (replicate n 0)"

definition memmove :: "u8 list \<Rightarrow> nat \<Rightarrow> nat \<Rightarrow> nat \<Rightarrow> u8 list kres" where
  "memmove buf dst src n = kbind (rd buf src n) (\<lambda>bs. wr buf dst bs)"

definition set_e_name_len :: "u8 list \<Rightarrow> nat \<Rightarrow> nat \<Rightarrow> u8 list kres" where "set_e_name_len buf e v = wr buf e (le_bytes 1 v)"
definition set_e_name_index :: "u8 list \<Rightarrow> nat \<Rightarrow> nat \<Rightarrow> u8 list kres" where "set_e_name_index buf e v = wr buf (e + 1) (le_bytes 1 v)"
definition set_e_value_offs :: "u8 list \<Rightarrow> nat \<Rightarrow> nat \<Rightarrow> u8 list kres" where "set_e_value_offs buf e v = wr buf (e + 2) (le_bytes 2 v)"
definition set_e_value_inum :: "u8 list \<Rightarrow> nat \<Rightarrow> nat \<Rightarrow> u8 list kres" where "set_e_value_inum buf e v = wr buf (e + 4) (le_bytes 4 v)"
definition set_e_value_size :: "u8 list \<Rightarrow> nat \<Rightarrow> nat \<Rightarrow> u8 list kres" where "set_e_value_size buf e v = wr buf (e + 8) (le_bytes 4 v)"
definition set_e_hash :: "u8 list \<Rightarrow> nat \<Rightarrow> nat \<Rightarrow> u8 list kres" where "set_e_hash buf e v = wr buf (e + 12) (le_bytes 4 v)"

lemma length_wr: "wr buf off bs = Inr buf' \<Longrightarrow> length buf' = length buf"
  by (auto simp: wr_def split: if_splits)

subsection \<open>What is set, and where\<close>

text \<open>\<^verbatim>\<open>EXT4_ZERO_XATTR_VALUE\<close> stands for as many zeros as the length says.\<close>

datatype xattr_value = ZeroValue | Value "u8 list"

record ext4_xattr_info =
  i_name :: string
  i_value :: "xattr_value option"
  i_value_len :: nat
  i_name_index :: nat
  i_in_inode :: bool

record ext4_xattr_search =
  s_first :: nat
  s_base :: nat
  s_end :: nat
  s_here :: nat
  s_not_found :: int

text \<open>The size of a value padded, computed in \<^verbatim>\<open>size_t\<close>.\<close>

definition padded_size :: "nat \<Rightarrow> nat" where
  "padded_size n = (n + 3) mod 2 ^ 64 div 4 * 4"

record set_env =
  has_feature_ea_inode :: bool
  set_blocksize :: nat
  has_inline_data :: bool
  find_inline_data :: "u8 list \<Rightarrow> int"

subsection \<open>Steps of \<^verbatim>\<open>ext4_xattr_set_entry\<close>\<close>

definition put_value :: "ext4_xattr_info \<Rightarrow> nat \<Rightarrow> nat \<Rightarrow> u8 list \<Rightarrow> u8 list kres" where
  "put_value i val new_size buf =
     (case i_value i of
        None \<Rightarrow> Inl NullDereference
      | Some ZeroValue \<Rightarrow> memset_zero buf val new_size
      | Some (Value v) \<Rightarrow>
          kbind (rd v 0 (i_value_len i)) (\<lambda>bs.
          kbind (wr buf val bs) (\<lambda>buf.
          memset_zero buf (val + i_value_len i) (new_size - i_value_len i))))"

text \<open>The lowest offset of a value and the end mark.\<close>

function min_offs_loop :: "u8 list \<Rightarrow> nat \<Rightarrow> nat \<Rightarrow> nat \<Rightarrow> (int + nat \<times> nat) kres" where
  "min_offs_loop buf en min_offs lst =
     kbind (IS_LAST_ENTRY buf lst) (\<lambda>stop.
     if stop then Inr (Inr (min_offs, lst))
     else
       kbind (EXT4_XATTR_NEXT buf lst) (\<lambda>nxt.
       if en \<le> nxt then Inr (Inl (- EFSCORRUPTED))
       else
         kbind (e_value_inum buf lst) (\<lambda>inum.
         kbind (e_value_size buf lst) (\<lambda>sz.
         kbind (e_value_offs buf lst) (\<lambda>offs.
         min_offs_loop buf en (if inum = 0 \<and> sz \<noteq> 0 \<and> offs < min_offs then offs else min_offs) nxt)))))"
  by pat_completeness auto
termination
  by (relation "measure (\<lambda>(buf, en, m, e). en - e)") (auto dest!: EXT4_XATTR_NEXT_later)

declare min_offs_loop.simps [simp del]

text \<open>
  \<^verbatim>\<open>ext4_xattr_free_space\<close> of the same file: the room between the entries and the values, with the lowest
  offset and the size of the entries.
\<close>

function free_space_loop :: "u8 list \<Rightarrow> nat \<Rightarrow> nat \<Rightarrow> nat \<Rightarrow> (nat \<times> nat \<times> nat) kres" where
  "free_space_loop buf lst min_offs tot =
     kbind (IS_LAST_ENTRY buf lst) (\<lambda>stop.
     if stop then Inr (lst, min_offs, tot)
     else
       kbind (e_value_inum buf lst) (\<lambda>inum.
       kbind (e_value_size buf lst) (\<lambda>sz.
       kbind (e_value_offs buf lst) (\<lambda>offs.
       kbind (e_name_len buf lst) (\<lambda>l.
       kbind (EXT4_XATTR_NEXT buf lst) (\<lambda>nxt.
       free_space_loop buf nxt (if inum = 0 \<and> sz \<noteq> 0 \<and> offs < min_offs then offs else min_offs) (tot + EXT4_XATTR_LEN l)))))))"
  by pat_completeness auto
termination
  by (relation "measure (\<lambda>(buf, e, m, t). length buf - e)") (auto dest!: EXT4_XATTR_NEXT_later IS_LAST_bounds)

declare free_space_loop.simps [simp del]

definition ext4_xattr_free_space :: "u8 list \<Rightarrow> nat \<Rightarrow> nat \<Rightarrow> nat \<Rightarrow> nat \<Rightarrow> (nat \<times> nat \<times> nat) kres" where
  "ext4_xattr_free_space buf lst min_offs base tot =
     kbind (free_space_loop buf lst min_offs tot) (\<lambda>(lst, min_offs, tot).
     Inr (nat ((int min_offs - (int lst - int base) - 4) mod 2 ^ 64), min_offs, tot))"

definition EXT4_XATTR_BLOCK_RESERVE :: "set_env \<Rightarrow> nat" where
  "EXT4_XATTR_BLOCK_RESERVE se = min (set_blocksize se div 8) 1024"

definition check_space ::
    "set_env \<Rightarrow> ext4_xattr_info \<Rightarrow> ext4_xattr_search \<Rightarrow> bool \<Rightarrow> nat \<Rightarrow> nat \<Rightarrow> nat \<Rightarrow> nat \<Rightarrow> int" where
  "check_space se i s is_block old_size new_size min_offs lst =
     (if i_value i = None then 0
      else
        let name_len = length (i_name i);
            free = (int min_offs - (int lst - int (s_base s)) - 4) mod 2 ^ 64;
            free = (if s_not_found s = 0 then (free + int (EXT4_XATTR_LEN name_len) + int old_size) mod 2 ^ 64 else free) in
        if free < (int (EXT4_XATTR_LEN name_len) + int new_size) mod 2 ^ 64 then - ENOSPC
        else if has_feature_ea_inode se \<and> new_size \<noteq> 0 \<and> is_block \<and>
            (int min_offs + int old_size - int new_size) mod 2 ^ 64 < int (EXT4_XATTR_BLOCK_RESERVE se) then - ENOSPC
        else 0)"

function adjust_offs_loop :: "u8 list \<Rightarrow> nat \<Rightarrow> nat \<Rightarrow> nat \<Rightarrow> (u8 list \<times> nat) kres" where
  "adjust_offs_loop buf offs old_size lst =
     kbind (IS_LAST_ENTRY buf lst) (\<lambda>stop.
     if stop then Inr (buf, lst)
     else
       kbind (e_value_offs buf lst) (\<lambda>vo.
       kbind (e_value_inum buf lst) (\<lambda>inum.
       kbind (e_value_size buf lst) (\<lambda>sz.
       kbind (if inum = 0 \<and> sz \<noteq> 0 \<and> vo < offs then set_e_value_offs buf lst (vo + old_size) else Inr buf) (\<lambda>buf'.
       kbind (EXT4_XATTR_NEXT buf' lst) (\<lambda>nxt.
       adjust_offs_loop buf' offs old_size nxt))))))"
  by pat_completeness auto
termination
  by (relation "measure (\<lambda>(buf, offs, old, e). length buf - e)")
    (auto dest!: EXT4_XATTR_NEXT_later IS_LAST_bounds length_wr simp: set_e_value_offs_def split: if_splits)

declare adjust_offs_loop.simps [simp del]

text \<open>Removing the old value: the buffer, the new lowest offset and the end mark.\<close>

definition remove_value ::
    "ext4_xattr_search \<Rightarrow> nat \<Rightarrow> nat \<Rightarrow> nat \<Rightarrow> u8 list \<Rightarrow> (u8 list \<times> nat \<times> nat) kres" where
  "remove_value s old_size min_offs lst buf =
     kbind (e_value_size buf (s_here s)) (\<lambda>sz.
     kbind (e_value_inum buf (s_here s)) (\<lambda>inum.
     if sz \<noteq> 0 \<and> inum = 0 then
       kbind (e_value_offs buf (s_here s)) (\<lambda>offs.
       let first_val = s_base s + min_offs; val = s_base s + offs in
       kbind (memmove buf (first_val + old_size) first_val (nat ((int val - int first_val) mod 2 ^ 64))) (\<lambda>buf.
       kbind (memset_zero buf first_val old_size) (\<lambda>buf.
       kbind (adjust_offs_loop buf offs old_size (s_first s)) (\<lambda>(buf, lst).
       Inr (buf, min_offs + old_size, lst)))))
     else Inr (buf, min_offs, lst)))"

definition remove_name :: "nat \<Rightarrow> nat \<Rightarrow> nat \<Rightarrow> u8 list \<Rightarrow> u8 list kres" where
  "remove_name name_len here lst buf =
     (let sz = EXT4_XATTR_LEN name_len in
      if lst < sz + here then Inl BufferOverflow
      else
        let lst = lst - sz in
        kbind (memmove buf here (here + sz) (lst - here + 4)) (\<lambda>buf.
        memset_zero buf lst sz))"

definition insert_name :: "ext4_xattr_info \<Rightarrow> nat \<Rightarrow> nat \<Rightarrow> u8 list \<Rightarrow> u8 list kres" where
  "insert_name i here lst buf =
     (let sz = EXT4_XATTR_LEN (length (i_name i)); rest = lst - here + 4 in
      kbind (memmove buf (here + sz) here rest) (\<lambda>buf.
      kbind (memset_zero buf here sz) (\<lambda>buf.
      kbind (set_e_name_index buf here (i_name_index i)) (\<lambda>buf.
      kbind (set_e_name_len buf here (length (i_name i))) (\<lambda>buf.
      wr buf (here + 16) (name_bytes (i_name i)))))))"

definition reset_value :: "nat \<Rightarrow> u8 list \<Rightarrow> u8 list kres" where
  "reset_value here buf =
     kbind (set_e_value_inum buf here 0) (\<lambda>buf.
     kbind (set_e_value_offs buf here 0) (\<lambda>buf.
     set_e_value_size buf here 0))"

definition insert_value :: "ext4_xattr_info \<Rightarrow> nat \<Rightarrow> nat \<Rightarrow> nat \<Rightarrow> nat \<Rightarrow> nat option \<Rightarrow> u8 list \<Rightarrow> u8 list kres" where
  "insert_value i base here min_offs new_size new_ea_inode buf =
     kbind (if i_in_inode i then
              (case new_ea_inode of None \<Rightarrow> Inl NullDereference | Some ino \<Rightarrow> set_e_value_inum buf here ino)
            else if i_value_len i \<noteq> 0 then
              if base + min_offs < new_size then Inl BufferOverflow
              else
                kbind (set_e_value_offs buf here (nat ((int min_offs - int new_size) mod 2 ^ 16))) (\<lambda>buf.
                put_value i (base + min_offs - new_size) new_size buf)
            else Inr buf) (\<lambda>buf.
     set_e_value_size buf here (i_value_len i))"

fun le_words :: "u8 list \<Rightarrow> nat list" where
  "le_words (a # b # c # d # r) = le_nat [a, b, c, d] # le_words r"
| "le_words _ = []"

function rehash_loop :: "u8 list \<Rightarrow> u32 \<Rightarrow> nat \<Rightarrow> u32 kres" where
  "rehash_loop buf hash here =
     kbind (IS_LAST_ENTRY buf here) (\<lambda>stop.
     if stop then Inr hash
     else
       kbind (e_hash buf here) (\<lambda>h.
       if h = 0 then Inr 0
       else
         kbind (EXT4_XATTR_NEXT buf here) (\<lambda>nxt.
         rehash_loop buf (push_bit 16 hash XOR drop_bit 16 hash XOR of_nat h) nxt)))"
  by pat_completeness auto
termination
  by (relation "measure (\<lambda>(buf, h, e). length buf - e)") (auto dest!: EXT4_XATTR_NEXT_later IS_LAST_bounds)

declare rehash_loop.simps [simp del]

definition ext4_xattr_rehash :: "u8 list \<Rightarrow> u8 list kres" where
  "ext4_xattr_rehash buf = kbind (rehash_loop buf 0 BFIRST) (\<lambda>hash. wr buf 12 (le_bytes 4 (unat hash)))"

text \<open>The hash of the entry, for a value in an inode that of the value's hash, and that of the block.\<close>

definition entry_hash ::
    "ext4_xattr_info \<Rightarrow> ext4_xattr_search \<Rightarrow> bool \<Rightarrow> nat \<Rightarrow> u32 option \<Rightarrow> u8 list \<Rightarrow> u8 list \<Rightarrow> u32 kres" where
  "entry_hash i s is_block new_size ea_hash name buf =
     (if i_in_inode i then
        (case ea_hash of None \<Rightarrow> Inl NullDereference | Some h \<Rightarrow> Inr (ext4_xattr_hash_entry name [unat h]))
      else if is_block then
        kbind (e_value_offs buf (s_here s)) (\<lambda>offs.
        kbind (rd buf (s_base s + offs) (new_size div 4 * 4)) (\<lambda>value.
        Inr (ext4_xattr_hash_entry name (le_words value))))
      else Inr 0)"

definition update_hash ::
    "ext4_xattr_info \<Rightarrow> ext4_xattr_search \<Rightarrow> bool \<Rightarrow> nat \<Rightarrow> u32 option \<Rightarrow> u8 list \<Rightarrow> u8 list kres" where
  "update_hash i s is_block new_size ea_hash buf =
     kbind (if i_value i = None then Inr buf
            else
              kbind (e_name_len buf (s_here s)) (\<lambda>l.
              kbind (e_name buf (s_here s) l) (\<lambda>name.
              kbind (entry_hash i s is_block new_size ea_hash name buf) (\<lambda>hash.
              set_e_hash buf (s_here s) (unat hash))))) (\<lambda>buf.
     if is_block then ext4_xattr_rehash buf else Inr buf)"

subsection \<open>The whole function\<close>

text \<open>
  From the point where no failure is allowed any more. With inline data the inode looks for it again after an
  entry was removed; an error there is returned although the entry is gone.
\<close>

definition set_entry_edit ::
    "set_env \<Rightarrow> ext4_xattr_info \<Rightarrow> ext4_xattr_search \<Rightarrow> bool \<Rightarrow> nat \<Rightarrow> nat \<Rightarrow> nat \<Rightarrow> nat \<Rightarrow> nat option \<Rightarrow> u32 option \<Rightarrow>
     u8 list \<Rightarrow> (int \<times> u8 list) kres" where
  "set_entry_edit se i s is_block old_size new_size min_offs lst new_ea_inode ea_hash buf =
     kbind (if s_not_found s = 0 then remove_value s old_size min_offs lst buf else Inr (buf, min_offs, lst)) (\<lambda>(buf, min_offs, lst).
     kbind (if i_value i = None then remove_name (length (i_name i)) (s_here s) lst buf
            else if s_not_found s \<noteq> 0 then insert_name i (s_here s) lst buf
            else reset_value (s_here s) buf) (\<lambda>buf.
     let ret = (if i_value i = None \<and> \<not> is_block \<and> has_inline_data se then find_inline_data se buf else 0) in
     if ret \<noteq> 0 then Inr (ret, buf)
     else
       kbind (if i_value i = None then Inr buf else insert_value i (s_base s) (s_here s) min_offs new_size new_ea_inode buf) (\<lambda>buf.
       kbind (update_hash i s is_block new_size ea_hash buf) (\<lambda>buf. Inr (0, buf)))))"

text \<open>
  Taking and releasing inodes of values. The result has the inode of the new value; \<open>iput\<close> of both inodes at the
  end is done here, since nothing behind this point needs the references.
\<close>

definition inode_hash_of :: "ea_state \<Rightarrow> nat \<Rightarrow> u32" where
  "inode_hash_of st ino = (case ea_inodes st ino of Inl _ \<Rightarrow> 0 | Inr x \<Rightarrow> ea_atime x)"

definition iput_opt :: "nat option \<Rightarrow> ea_state \<Rightarrow> ea_state" where
  "iput_opt ino st = (case ino of None \<Rightarrow> st | Some i \<Rightarrow> iput i st)"

definition take_old_inode :: "ext4_env \<Rightarrow> ext4_inode \<Rightarrow> nat \<Rightarrow> nat \<Rightarrow> ea_state \<Rightarrow> (int + nat option) \<times> ea_state" where
  "take_old_inode env inode inum hash st =
     (if inum = 0 then (Inr None, st)
      else case ea_iget env inode inum (of_nat hash) st of (Inl err, st) \<Rightarrow> (Inl err, st) | (Inr ino, st) \<Rightarrow> (Inr (Some ino), st))"

definition make_new_inode ::
    "ea_services \<Rightarrow> ext4_env \<Rightarrow> ext4_xattr_info \<Rightarrow> ea_state \<Rightarrow> ((int + nat option) \<times> ea_state) kres" where
  "make_new_inode sv env i st =
     (if i_value i \<noteq> None \<and> i_in_inode i then
        let (err, st) = ext4_xattr_inode_alloc_quota sv (i_value_len i) st in
        if err \<noteq> 0 then Inr (Inl err, st)
        else
          kbind (case i_value i of Some (Value v) \<Rightarrow> rd v 0 (i_value_len i) | _ \<Rightarrow> Inl NullDereference) (\<lambda>v.
          case ext4_xattr_inode_lookup_create sv (ea_view env st) v st of
            (Inl err, st) \<Rightarrow> Inr (Inl err, ext4_xattr_inode_free_quota sv None (i_value_len i) st)
          | (Inr ino, st) \<Rightarrow> Inr (Inr (Some ino), st))
      else Inr (Inr None, st))"

text \<open>When the old inode cannot be released, what was taken for the new one is given back.\<close>

definition drop_old_inode :: "ea_services \<Rightarrow> nat \<Rightarrow> nat option \<Rightarrow> nat \<Rightarrow> nat option \<Rightarrow> ea_state \<Rightarrow> int \<times> ea_state" where
  "drop_old_inode sv value_len old_ea_inode old_len new_ea_inode st =
     (case old_ea_inode of
        None \<Rightarrow> (0, st)
      | Some old \<Rightarrow>
          let (ret, st) = ext4_xattr_inode_dec_ref sv old st in
          if ret = 0 then (0, ext4_xattr_inode_free_quota sv (Some old) old_len st)
          else (ret, case new_ea_inode of
              None \<Rightarrow> st
            | Some new \<Rightarrow> ext4_xattr_inode_free_quota sv (Some new) value_len (snd (ext4_xattr_inode_dec_ref sv new st))))"

definition set_entry_inodes ::
    "ea_services \<Rightarrow> ext4_env \<Rightarrow> ext4_inode \<Rightarrow> ext4_xattr_info \<Rightarrow> ext4_xattr_search \<Rightarrow> u8 list \<Rightarrow> ea_state \<Rightarrow>
     ((int + nat option) \<times> ea_state) kres" where
  "set_entry_inodes sv env inode i s buf st =
     kbind (if s_not_found s = 0 then
              kbind (e_value_inum buf (s_here s)) (\<lambda>inum.
              kbind (e_hash buf (s_here s)) (\<lambda>hash.
              kbind (e_value_size buf (s_here s)) (\<lambda>sz.
              Inr (inum, hash, sz))))
            else Inr (0, 0, 0)) (\<lambda>(inum, hash, sz).
     case take_old_inode env inode inum hash st of
       (Inl err, st) \<Rightarrow> Inr (Inl err, st)
     | (Inr old_ea_inode, st) \<Rightarrow>
         kbind (make_new_inode sv env i st) (\<lambda>(made, st).
         case made of
           Inl err \<Rightarrow> Inr (Inl err, iput_opt old_ea_inode st)
         | Inr new_ea_inode \<Rightarrow>
             let (ret, st) = drop_old_inode sv (i_value_len i) old_ea_inode sz new_ea_inode st in
             Inr (if ret \<noteq> 0 then Inl ret else Inr new_ea_inode, iput_opt new_ea_inode (iput_opt old_ea_inode st))))"

definition ext4_xattr_set_entry ::
    "set_env \<Rightarrow> ea_services \<Rightarrow> ext4_env \<Rightarrow> ext4_inode \<Rightarrow> ext4_xattr_info \<Rightarrow> ext4_xattr_search \<Rightarrow> bool \<Rightarrow> u8 list \<Rightarrow> ea_state \<Rightarrow>
     (int \<times> u8 list \<times> ea_state) kres" where
  "ext4_xattr_set_entry se sv env inode i s is_block buf st =
     kbind (if s_not_found s = 0 then
              kbind (e_value_inum buf (s_here s)) (\<lambda>inum.
              kbind (e_value_size buf (s_here s)) (\<lambda>sz. Inr (if inum = 0 then EXT4_XATTR_SIZE sz else 0)))
            else Inr 0) (\<lambda>old_size.
     let new_size = (if i_value i \<noteq> None \<and> \<not> i_in_inode i then padded_size (i_value_len i) else 0) in
     if new_size \<noteq> 0 \<and> new_size = old_size then
       kbind (e_value_offs buf (s_here s)) (\<lambda>offs.
       kbind (set_e_value_size buf (s_here s) (i_value_len i)) (\<lambda>buf.
       kbind (put_value i (s_base s + offs) new_size buf) (\<lambda>buf.
       kbind (update_hash i s is_block new_size None buf) (\<lambda>buf.
       Inr (0, buf, st)))))
     else
       kbind (min_offs_loop buf (s_end s) (s_end s - s_base s) (s_first s)) (\<lambda>r.
       case r of
         Inl err \<Rightarrow> Inr (err, buf, st)
       | Inr (min_offs, lst) \<Rightarrow>
           let ret = check_space se i s is_block old_size new_size min_offs lst in
           if ret \<noteq> 0 then Inr (ret, buf, st)
           else
             kbind (set_entry_inodes sv env inode i s buf st) (\<lambda>(made, st).
             case made of
               Inl err \<Rightarrow> Inr (err, buf, st)
             | Inr new_ea_inode \<Rightarrow>
                 kbind (set_entry_edit se i s is_block old_size new_size min_offs lst new_ea_inode
                          (map_option (inode_hash_of st) new_ea_inode) buf) (\<lambda>(ret, buf).
                 Inr (ret, buf, st)))))"

subsection \<open>References and quota of a change\<close>

text \<open>What an attribute whose value has an inode is charged: one inode and the space of the value.\<close>

definition charge :: "ea_services \<Rightarrow> nat option \<Rightarrow> int \<times> int" where
  "charge sv len = (case len of None \<Rightarrow> (0, 0) | Some n \<Rightarrow> (1, int (round_up_cluster sv n)))"

definition old_inode_len :: "u8 list \<Rightarrow> ext4_xattr_search \<Rightarrow> nat option" where
  "old_inode_len buf s = (if s_not_found s \<noteq> 0 then None
     else case (e_value_inum buf (s_here s), e_value_size buf (s_here s)) of (Inr n, Inr sz) \<Rightarrow> if n = 0 then None else Some sz | _ \<Rightarrow> None)"

definition new_inode_len :: "ext4_xattr_info \<Rightarrow> nat option" where
  "new_inode_len i = (if i_value i \<noteq> None \<and> i_in_inode i then Some (i_value_len i) else None)"

definition paid :: "(nat \<Rightarrow> int) \<times> int \<times> int \<Rightarrow> int \<times> int \<Rightarrow> (nat \<Rightarrow> int) \<times> int \<times> int" where
  "paid a c = (fst a, fst (snd a) + fst c, snd (snd a) + snd c)"

definition refund :: "int \<times> int \<Rightarrow> int \<times> int" where
  "refund c = (- fst c, - snd c)"

lemma paid_zero [simp]: "paid a (charge sv None) = a" "paid a (0, 0) = a"
  by (simp_all add: paid_def charge_def)

lemma alloc_quota_accounts:
  assumes "ext4_xattr_inode_alloc_quota sv len st = (err, st')"
  shows "accounts st' = (if err = 0 then paid (accounts st) (charge sv (Some len)) else accounts st) \<and> no_lustre st' = no_lustre st"
  using assms by (auto simp: ext4_xattr_inode_alloc_quota_def ask_def Let_def accounts_def paid_def charge_def split: if_splits)

lemma free_quota_accounts:
  assumes "ino = None \<or> no_lustre st"
  shows "accounts (ext4_xattr_inode_free_quota sv ino len st) = paid (accounts st) (refund (charge sv (Some len)))"
    "no_lustre (ext4_xattr_inode_free_quota sv ino len st) = no_lustre st"
  using assms by (auto simp: ext4_xattr_inode_free_quota_def accounts_def paid_def charge_def refund_def no_lustre_def split: option.splits sum.splits)

text \<open>Held references of both inodes, on top of what was held before.\<close>

definition held_by :: "nat option \<Rightarrow> nat \<Rightarrow> int" where
  "held_by ino n = (if ino = Some n then 1 else 0)"

definition holding :: "nat option \<Rightarrow> (nat \<Rightarrow> int) \<times> int \<times> int \<Rightarrow> (nat \<Rightarrow> int) \<times> int \<times> int" where
  "holding ino a = (\<lambda>n. fst a n + held_by ino n, snd a)"

lemma holding_simps [simp]: "holding None a = a" "accounts (iput_opt None st) = accounts st" "no_lustre (iput_opt ino st) = no_lustre st"
  by (simp_all add: holding_def held_by_def iput_opt_def split: option.splits)

lemma holding_iput: "accounts st = holding ino a \<Longrightarrow> accounts (iput_opt ino st) = a"
  by (cases ino; cases a) (auto simp: holding_def held_by_def iput_opt_def)

lemma holding_commute: "holding x (holding y a) = holding y (holding x a)" "paid (holding x a) c = holding x (paid a c)"
  by (auto simp: holding_def paid_def)

lemma took_holding: "took ino st st' \<Longrightarrow> accounts st' = holding ino (accounts st)"
  by (cases ino) (auto simp: took_def holding_def held_by_def fun_eq_iff)

lemma take_old_accounts:
  assumes "take_old_inode env inode inum hash st = (r, st')" "no_lustre st" "\<forall>n x. ea_inodes st n = Inr x \<longrightarrow> unat (ea_mtime x) \<noteq> x_ino inode"
  shows "(case r of Inl _ \<Rightarrow> accounts st' = accounts st | Inr old \<Rightarrow> accounts st' = holding old (accounts st) \<and> old = (if inum = 0 then None else Some inum)) \<and> no_lustre st'"
proof (cases "\<exists>x. inum \<noteq> 0 \<and> x_ino inode \<noteq> inum \<and> ea_inodes st inum = Inr x")
  case True
  then obtain x where x: "inum \<noteq> 0" "x_ino inode \<noteq> inum" "ea_inodes st inum = Inr x" by blast
  then have "take_old_inode env inode inum hash st = (Inr (Some inum), hold inum (set_inode inum x st))"
    using assms(3) by (auto simp: take_old_inode_def ea_iget_def ext4_xattr_inode_iget_def ea_view_def)
  moreover have "\<not> ea_lustre x" using assms(2) x by (auto simp: no_lustre_def)
  ultimately show ?thesis using assms(1,2) x by (auto simp: holding_def held_by_def fun_eq_iff)
next
  case False
  then show ?thesis using assms(1,2)
    by (auto simp: take_old_inode_def ea_iget_def ext4_xattr_inode_iget_def ea_view_def split: if_splits sum.splits)
qed

lemma make_new_accounts:
  assumes "make_new_inode sv env i st = Inr (r, st')" "no_lustre st" "new_plain sv"
  shows "(case r of Inl _ \<Rightarrow> accounts st' = accounts st
     | Inr new \<Rightarrow> accounts st' = holding new (paid (accounts st) (charge sv (new_inode_len i))) \<and> (new = None) = (new_inode_len i = None)) \<and> no_lustre st'"
proof (cases "i_value i \<noteq> None \<and> i_in_inode i")
  case False
  then show ?thesis using assms by (auto simp: make_new_inode_def new_inode_len_def)
next
  case True
  then have n: "new_inode_len i = Some (i_value_len i)" by (simp add: new_inode_len_def)
  obtain err st1 where q: "ext4_xattr_inode_alloc_quota sv (i_value_len i) st = (err, st1)" by fastforce
  note Q = alloc_quota_accounts [OF q]
  show ?thesis
  proof (cases "err = 0")
    case False
    then show ?thesis using assms True q Q by (auto simp: make_new_inode_def)
  next
    case z: True
    define bs where "bs = (case i_value i of Some (Value v) \<Rightarrow> rd v 0 (i_value_len i) | _ \<Rightarrow> Inl NullDereference)"
    obtain v where v: "bs = Inr v" using assms(1) True q z by (cases bs) (auto simp: make_new_inode_def bs_def [symmetric])
    obtain l st2 where l: "ext4_xattr_inode_lookup_create sv (ea_view env st1) v st1 = (l, st2)" by fastforce
    note T = lookup_create_took [OF l assms(3)]
    have m: "make_new_inode sv env i st = (case l of Inl e \<Rightarrow> Inr (Inl e, ext4_xattr_inode_free_quota sv None (i_value_len i) st2) | Inr ino \<Rightarrow> Inr (Inr (Some ino), st2))"
      using True q z v l by (auto simp: make_new_inode_def bs_def [symmetric] split: sum.splits)
    have nl: "no_lustre st2" using T Q assms(2) by (auto simp: took_def)
    have "paid (paid a c) (refund c) = a" for a c
      by (cases a) (simp add: paid_def refund_def)
    then show ?thesis using took_holding [OF T] free_quota_accounts [of None st2 sv "i_value_len i"] nl n m Q z assms(1)
      by (auto split: sum.splits)
  qed
qed

lemma drop_old_accounts:
  assumes "drop_old_inode sv len old sz new st = (ret, st')" "no_lustre st"
  shows "accounts st' = paid (accounts st) (if ret = 0 then (case old of None \<Rightarrow> (0, 0) | Some _ \<Rightarrow> (- 1, - int (round_up_cluster sv sz)))
      else (case new of None \<Rightarrow> (0, 0) | Some _ \<Rightarrow> (- 1, - int (round_up_cluster sv len))))"
proof (cases old)
  case None
  then show ?thesis using assms by (simp add: drop_old_inode_def)
next
  case (Some o1)
  obtain e st1 where d: "ext4_xattr_inode_dec_ref sv o1 st = (e, st1)" by fastforce
  have a: "accounts st1 = accounts st" "no_lustre st1" using dec_ref_accounts [where sv = sv and ino = o1 and st = st] d assms(2) by simp_all
  define st2 where "st2 n = snd (ext4_xattr_inode_dec_ref sv n st1)" for n
  have b: "accounts (st2 n) = accounts st" "no_lustre (st2 n)" for n using dec_ref_accounts a by (simp_all add: st2_def)
  show ?thesis using assms(1) Some d a b free_quota_accounts
    by (auto simp: drop_old_inode_def charge_def refund_def st2_def [symmetric] split: if_splits option.splits)
qed

lemma set_entry_inodes_accounts:
  assumes "set_entry_inodes sv env inode i s buf st = Inr (r, st')" "no_lustre st" "new_plain sv"
    "\<forall>n x. ea_inodes st n = Inr x \<longrightarrow> unat (ea_mtime x) \<noteq> x_ino inode"
  shows "accounts st' = (case r of Inl _ \<Rightarrow> accounts st
     | Inr _ \<Rightarrow> paid (paid (accounts st) (charge sv (new_inode_len i))) (refund (charge sv (old_inode_len buf s))))"
proof -
  define rd3 where "rd3 = (if s_not_found s = 0 then kbind (e_value_inum buf (s_here s)) (\<lambda>inum. kbind (e_hash buf (s_here s)) (\<lambda>hash.
      kbind (e_value_size buf (s_here s)) (\<lambda>sz. Inr (inum, hash, sz)))) else Inr (0, 0, 0))"
  obtain inum hash sz where r3: "rd3 = Inr (inum, hash, sz)"
    using assms(1) unfolding set_entry_inodes_def rd3_def [symmetric] by (cases rd3) auto
  have old: "old_inode_len buf s = (if inum = 0 then None else Some sz)"
    using r3 by (auto simp: rd3_def old_inode_len_def kbind_def split: if_splits sum.splits)
  obtain o1 st1 where t: "take_old_inode env inode inum hash st = (o1, st1)" by fastforce
  note T = take_old_accounts [OF t assms(2,4)]
  show ?thesis
  proof (cases o1)
    case (Inl e)
    then show ?thesis using assms(1) t T unfolding set_entry_inodes_def rd3_def [symmetric] r3 by auto
  next
    case (Inr oi)
    obtain m st2 where mk: "make_new_inode sv env i st1 = Inr (m, st2)"
      using assms(1) t Inr unfolding set_entry_inodes_def rd3_def [symmetric] r3 by (cases "make_new_inode sv env i st1") auto
    have T': "accounts st1 = holding oi (accounts st)" "oi = (if inum = 0 then None else Some inum)" "no_lustre st1" using T Inr by auto
    note M = make_new_accounts [OF mk T'(3) assms(3)]
    show ?thesis
    proof (cases m)
      case (Inl e)
      then have "st' = iput_opt oi st2" "r = Inl e" "accounts st2 = holding oi (accounts st)"
        using assms(1) t Inr mk M T' unfolding set_entry_inodes_def rd3_def [symmetric] r3 by auto
      then show ?thesis using holding_iput by simp
    next
      case m: (Inr new)
      obtain ret st3 where d: "drop_old_inode sv (i_value_len i) oi sz new st2 = (ret, st3)" by fastforce
      define rb :: "int \<times> int" where "rb = (if ret = 0 then (case oi of None \<Rightarrow> (0, 0) | Some _ \<Rightarrow> (- 1, - int (round_up_cluster sv sz)))
        else (case new of None \<Rightarrow> (0, 0) | Some _ \<Rightarrow> (- 1, - int (round_up_cluster sv (i_value_len i)))))"
      have "accounts st2 = holding new (paid (holding oi (accounts st)) (charge sv (new_inode_len i)))" using M T'(1) m by simp
      then have D: "accounts st3 = holding new (holding oi (paid (paid (accounts st) (charge sv (new_inode_len i))) rb))"
        using drop_old_accounts [OF d] M by (simp add: rb_def holding_commute)
      have s: "st' = iput_opt new (iput_opt oi st3)" "r = (if ret \<noteq> 0 then Inl ret else Inr new)"
        using assms(1) t Inr mk m d unfolding set_entry_inodes_def rd3_def [symmetric] r3 by auto
      have "accounts st' = paid (paid (accounts st) (charge sv (new_inode_len i))) rb"
        using D s(1) by (metis holding_iput holding_commute(1))
      moreover have "new = None \<longleftrightarrow> new_inode_len i = None" using M m by simp
      ultimately show ?thesis using s(2) old T'(2)
        by (auto simp: rb_def paid_def charge_def refund_def new_inode_len_def split: option.splits if_splits)
    qed
  qed
qed

lemma take_old_err: "igets_fail st \<Longrightarrow> take_old_inode env inode inum hash st = (Inl err, st') \<Longrightarrow> err \<noteq> 0"
  using ea_iget_result [of st env inode inum "of_nat hash"] by (auto simp: take_old_inode_def split: if_splits sum.splits prod.splits)

lemma make_new_err: "ea_sane sv \<Longrightarrow> make_new_inode sv env i st = Inr (Inl err, st') \<Longrightarrow> err \<noteq> 0"
  using lookup_create_result [of sv]
  by (fastforce simp: make_new_inode_def kbind_def Let_def split: if_splits sum.splits prod.splits option.splits)

lemma set_entry_inodes_err:
  assumes "igets_fail st" "ea_sane sv" "set_entry_inodes sv env inode i s buf st = Inr (Inl err, st')"
  shows "err \<noteq> 0"
  using assms(3) take_old_err [OF assms(1)] make_new_err [OF assms(2)]
  by (auto simp: set_entry_inodes_def kbind_def Let_def split: if_splits sum.splits prod.splits)

lemma min_offs_err: "min_offs_loop buf en m e = Inr (Inl err) \<Longrightarrow> err \<noteq> 0"
proof (induction buf en m e rule: min_offs_loop.induct)
  case (1 buf en m e)
  show ?case using "1.prems" "1.IH"
    by (subst (asm) min_offs_loop.simps) (auto simp: kbind_def EFSCORRUPTED_def split: sum.splits if_splits)
qed

lemma set_entry_edit_ret:
  assumes "set_entry_edit se i s is_block old_size new_size min_offs lst ino h buf = Inr (ret, buf')" "ret \<noteq> 0"
  shows "i_value i = None \<and> \<not> is_block \<and> has_inline_data se \<and> find_inline_data se buf' = ret"
  using assms by (auto simp: set_entry_edit_def kbind_def Let_def split: sum.splits if_splits)

lemma set_entry_accounts:
  assumes e: "ext4_xattr_set_entry se sv env inode i s is_block buf st = Inr (ret, buf', st')"
    and p: "no_lustre st" "new_plain sv" "\<forall>n x. ea_inodes st n = Inr x \<longrightarrow> unat (ea_mtime x) \<noteq> x_ino inode" "igets_fail st" "ea_sane sv"
  shows "accounts st' = paid (paid (accounts st) (charge sv (new_inode_len i))) (refund (charge sv (old_inode_len buf s)))
      \<and> (ret = 0 \<or> i_value i = None \<and> \<not> is_block \<and> has_inline_data se \<and> find_inline_data se buf' = ret)
    \<or> accounts st' = accounts st \<and> ret \<noteq> 0"
proof -
  define o0 where "o0 = (if s_not_found s = 0 then kbind (e_value_inum buf (s_here s)) (\<lambda>inum. kbind (e_value_size buf (s_here s)) (\<lambda>sz.
      Inr (if inum = 0 then EXT4_XATTR_SIZE sz else 0))) else Inr 0)"
  define ns where "ns = (if i_value i \<noteq> None \<and> \<not> i_in_inode i then padded_size (i_value_len i) else 0)"
  note D = ext4_xattr_set_entry_def [of se sv env inode i s is_block buf st, folded o0_def, unfolded ns_def [symmetric] Let_def]
  obtain old where o: "o0 = Inr old" using e D by (cases o0) auto
  show ?thesis
  proof (cases "ns \<noteq> 0 \<and> ns = old")
    case True
    then have "new_inode_len i = None" by (auto simp: ns_def new_inode_len_def split: if_splits)
    moreover have "old_inode_len buf s = None" using True o by (auto simp: o0_def old_inode_len_def kbind_def split: if_splits sum.splits)
    moreover have "st' = st" using e D o True by (auto simp: kbind_def split: sum.splits)
    moreover have "ret = 0" using e D o True by (auto simp: kbind_def split: sum.splits)
    ultimately show ?thesis by (simp add: charge_def refund_def)
  next
    case False
    define mo where "mo = min_offs_loop buf (s_end s) (s_end s - s_base s) (s_first s)"
    obtain r where r: "mo = Inr r" using e D o False by (cases mo) (auto simp: mo_def [symmetric])
    show ?thesis
    proof (cases r)
      case (Inl er)
      then have "ret = er" "st' = st" using e D o False r by (auto simp: mo_def [symmetric])
      moreover have "er \<noteq> 0" using min_offs_err r Inl by (simp add: mo_def)
      ultimately show ?thesis by simp
    next
      case (Inr ml)
      obtain mn lst where ml: "ml = (mn, lst)" by fastforce
      note E = e [unfolded D o kbind_simps if_not_P [OF False] mo_def [symmetric] r Inr ml sum.case prod.case]
      show ?thesis
      proof (cases "check_space se i s is_block old ns mn lst = 0")
        case False
        then show ?thesis using E by auto
      next
        case z: True
        obtain m st1 where m: "set_entry_inodes sv env inode i s buf st = Inr (m, st1)"
          using E z by (cases "set_entry_inodes sv env inode i s buf st") auto
        note A = set_entry_inodes_accounts [OF m p(1-3)]
        show ?thesis
        proof (cases m)
          case (Inl er)
          then show ?thesis using E z m A set_entry_inodes_err [OF p(4,5)] by auto
        next
          case (Inr new)
          then obtain u where u: "set_entry_edit se i s is_block old ns mn lst new (map_option (inode_hash_of st1) new) buf = Inr u"
            using E z m by (auto simp: kbind_def split: sum.splits)
          then have "u = (ret, buf')" "st' = st1" using E z m Inr by (auto simp: kbind_def split: prod.splits)
          then show ?thesis using A Inr set_entry_edit_ret [of se i s is_block old ns mn lst new _ buf ret buf'] u by auto
        qed
      qed
    qed
  qed
qed

end
