(* ===== verification/Ext4_Table_Inv.thy ===== *)
theory Ext4_Table_Inv
  imports Ext4_Table
begin

text \<open>
  What \<^verbatim>\<open>ext4_xattr_set_entry\<close> does to a well-formed table. A table is the bytes before it, the entries, the end mark, the
  free space and the values; every step of the function is an equation on this layout. From it follow that the
  table stays well formed, that exactly one attribute changes, and that no step leaves the buffer.
\<close>

subsection \<open>Bytes at a place\<close>

lemma le_bytes_length [simp]: "length (le_bytes n v) = n"
  by (induction n arbitrary: v) auto

lemma le_nat_le_bytes: "le_nat (le_bytes n v) = v mod 256 ^ n"
proof (induction n arbitrary: v)
  case (Suc n)
  have "le_nat (le_bytes (Suc n) v) = v mod 256 + 256 * (v div 256 mod 256 ^ n)"
    using Suc.IH by (simp add: unat_of_nat take_bit_eq_mod mod_mod_trivial)
  also have "\<dots> = v mod (256 * 256 ^ n)" by (simp add: mod_mult2_eq)
  finally show ?case by simp
qed simp

declare le_bytes.simps [simp del]

lemma le_nat_less: "le_nat bs < 256 ^ length bs"
proof (induction bs)
  case (Cons b bs)
  have "unat b < 256" using unsigned_less [of b] by simp
  then have "unat b + 256 * le_nat bs < 256 * (le_nat bs + 1)" by simp
  also have "\<dots> \<le> 256 * 256 ^ length bs" using Cons.IH by (intro mult_le_mono2) simp
  finally show ?case by simp
qed simp

lemma rd_at: "buf = a @ b @ c \<Longrightarrow> off = length a \<Longrightarrow> n = length b \<Longrightarrow> rd buf off n = Inr b"
  by (simp add: rd_def)

lemma rd_le_at: "buf = a @ b @ c \<Longrightarrow> off = length a \<Longrightarrow> n = length b \<Longrightarrow> rd_le buf off n = Inr (le_nat b)"
  using rd_at [of buf a b c off n] by (simp add: rd_le_def)

lemma wr_at: "buf = a @ b @ c \<Longrightarrow> off = length a \<Longrightarrow> length b' = length b \<Longrightarrow> wr buf off b' = Inr (a @ b' @ c)"
  by (simp add: wr_def)

lemma memset_at: "buf = a @ b @ c \<Longrightarrow> off = length a \<Longrightarrow> n = length b \<Longrightarrow> memset_zero buf off n = Inr (a @ replicate n 0 @ c)"
  unfolding memset_zero_def by (rule wr_at) auto

subsection \<open>Entries as data\<close>

record xent =
  t_index :: nat
  t_name :: "u8 list"
  t_offs :: nat
  t_inum :: nat
  t_size :: nat
  t_hash :: nat
  t_pad :: "u8 list"

definition enc :: "xent \<Rightarrow> u8 list" where
  "enc x = le_bytes 1 (length (t_name x)) @ le_bytes 1 (t_index x) @ le_bytes 2 (t_offs x) @ le_bytes 4 (t_inum x)
     @ le_bytes 4 (t_size x) @ le_bytes 4 (t_hash x) @ t_name x @ t_pad x"

definition ent_ok :: "xent \<Rightarrow> bool" where
  "ent_ok x = (length (t_name x) < 256 \<and> 0 \<notin> set (t_name x) \<and> 0 < t_index x \<and> t_index x < 256 \<and> t_offs x < 65536
     \<and> t_inum x < 2 ^ 32 \<and> t_size x \<le> EXT4_XATTR_SIZE_MAX \<and> t_hash x < 2 ^ 32
     \<and> 16 + length (t_name x) + length (t_pad x) = EXT4_XATTR_LEN (length (t_name x))
     \<and> (t_inum x = 0 \<and> t_size x = 0 \<longrightarrow> t_offs x = 0))"

definition tkey :: "xent \<Rightarrow> nat \<times> u8 list" where
  "tkey x = (t_index x, t_name x)"

text \<open>Whether the value is in the table, and the room it takes there.\<close>

definition inl :: "xent \<Rightarrow> bool" where
  "inl x = (t_inum x = 0 \<and> t_size x \<noteq> 0)"

definition vsize :: "xent \<Rightarrow> nat" where
  "vsize x = EXT4_XATTR_SIZE (t_size x)"

definition tbytes :: "xent list \<Rightarrow> u8 list" where
  "tbytes es = concat (map enc es)"

definition endmark :: "u8 list" where
  "endmark = replicate 4 0"

lemma length_endmark [simp]: "length endmark = 4"
  by (simp add: endmark_def)

lemma length_enc: "ent_ok x \<Longrightarrow> length (enc x) = EXT4_XATTR_LEN (length (t_name x))"
  by (simp add: enc_def ent_ok_def)

lemma tbytes_simps [simp]: "tbytes [] = []" "tbytes (x # es) = enc x @ tbytes es" "tbytes (es @ fs) = tbytes es @ tbytes fs"
  by (simp_all add: tbytes_def)

lemma vsize_bounds: "ent_ok x \<Longrightarrow> t_size x \<le> vsize x" "ent_ok x \<Longrightarrow> inl x \<Longrightarrow> 0 < vsize x"
proof -
  have *: "t_size x + 3 < 2 ^ 32" if "ent_ok x" using that by (simp add: ent_ok_def EXT4_XATTR_SIZE_MAX_def)
  have "a \<le> (a + 3) div 4 * 4" for a :: nat by presburger
  then show "ent_ok x \<Longrightarrow> t_size x \<le> vsize x" using * by (simp add: vsize_def EXT4_XATTR_SIZE_def)
  then show "ent_ok x \<Longrightarrow> inl x \<Longrightarrow> 0 < vsize x" by (auto simp: inl_def)
qed

lemma vsize_padded: "ent_ok x \<Longrightarrow> vsize x = padded_size (t_size x)"
  by (simp add: vsize_def EXT4_XATTR_SIZE_def padded_size_def ent_ok_def EXT4_XATTR_SIZE_MAX_def)

text \<open>Reading and writing the fields of an entry that stands in the buffer.\<close>

lemma enc_name_len:
  assumes "buf = P @ enc x @ R" "e = length P" "ent_ok x"
  shows "e_name_len buf e = Inr (length (t_name x))"
  unfolding e_name_len_def
  by (subst rd_le_at [where a = P and b = "le_bytes 1 (length (t_name x))"])
    (use assms in \<open>simp_all add: enc_def le_nat_le_bytes ent_ok_def\<close>)

lemma enc_name_index:
  assumes "buf = P @ enc x @ R" "e = length P" "ent_ok x"
  shows "e_name_index buf e = Inr (t_index x)"
  unfolding e_name_index_def
  by (subst rd_le_at [where a = "P @ le_bytes 1 (length (t_name x))" and b = "le_bytes 1 (t_index x)"])
    (use assms in \<open>simp_all add: enc_def le_nat_le_bytes ent_ok_def\<close>)

lemma enc_value_offs:
  assumes "buf = P @ enc x @ R" "e = length P" "ent_ok x"
  shows "e_value_offs buf e = Inr (t_offs x)"
  unfolding e_value_offs_def
  by (subst rd_le_at [where a = "P @ le_bytes 1 (length (t_name x)) @ le_bytes 1 (t_index x)" and b = "le_bytes 2 (t_offs x)"])
    (use assms in \<open>simp_all add: enc_def le_nat_le_bytes ent_ok_def\<close>)

lemma enc_value_inum:
  assumes "buf = P @ enc x @ R" "e = length P" "ent_ok x"
  shows "e_value_inum buf e = Inr (t_inum x)"
  unfolding e_value_inum_def
  by (subst rd_le_at [where a = "P @ le_bytes 1 (length (t_name x)) @ le_bytes 1 (t_index x) @ le_bytes 2 (t_offs x)"
        and b = "le_bytes 4 (t_inum x)"])
    (use assms in \<open>simp_all add: enc_def le_nat_le_bytes ent_ok_def\<close>)

lemma enc_value_size:
  assumes "buf = P @ enc x @ R" "e = length P" "ent_ok x"
  shows "e_value_size buf e = Inr (t_size x)"
  unfolding e_value_size_def
  by (subst rd_le_at [where a = "P @ le_bytes 1 (length (t_name x)) @ le_bytes 1 (t_index x) @ le_bytes 2 (t_offs x) @ le_bytes 4 (t_inum x)"
        and b = "le_bytes 4 (t_size x)"])
    (use assms in \<open>simp_all add: enc_def le_nat_le_bytes ent_ok_def EXT4_XATTR_SIZE_MAX_def\<close>)

lemma enc_hash:
  assumes "buf = P @ enc x @ R" "e = length P" "ent_ok x"
  shows "e_hash buf e = Inr (t_hash x)"
  unfolding e_hash_def
  by (subst rd_le_at [where a = "P @ le_bytes 1 (length (t_name x)) @ le_bytes 1 (t_index x) @ le_bytes 2 (t_offs x) @ le_bytes 4 (t_inum x)
        @ le_bytes 4 (t_size x)" and b = "le_bytes 4 (t_hash x)"])
    (use assms in \<open>simp_all add: enc_def le_nat_le_bytes ent_ok_def\<close>)

lemma enc_name:
  assumes "buf = P @ enc x @ R" "e = length P" "ent_ok x"
  shows "e_name buf e (length (t_name x)) = Inr (t_name x)"
  unfolding e_name_def
  by (rule rd_at [where a = "P @ le_bytes 1 (length (t_name x)) @ le_bytes 1 (t_index x) @ le_bytes 2 (t_offs x) @ le_bytes 4 (t_inum x)
        @ le_bytes 4 (t_size x) @ le_bytes 4 (t_hash x)"])
    (simp_all add: assms enc_def)

lemma enc_next:
  assumes "buf = P @ enc x @ R" "e = length P" "ent_ok x"
  shows "EXT4_XATTR_NEXT buf e = Inr (e + length (enc x))"
  by (simp add: EXT4_XATTR_NEXT_def enc_name_len [OF assms] length_enc [OF assms(3)])

lemma enc_not_last:
  assumes "buf = P @ enc x @ R" "e = length P" "ent_ok x"
  shows "IS_LAST_ENTRY buf e = Inr False"
proof -
  have "(of_nat (t_index x mod 256) :: u8) \<noteq> 0" using assms(3) by (auto simp: ent_ok_def word_of_nat_eq_0_iff dvd_imp_le)
  then have "le_nat (le_bytes 1 (length (t_name x)) @ le_bytes 1 (t_index x) @ le_bytes 2 (t_offs x)) \<noteq> 0"
    by (simp add: le_bytes.simps unat_eq_0)
  then show ?thesis unfolding IS_LAST_ENTRY_def
    by (subst rd_le_at [where a = P and b = "le_bytes 1 (length (t_name x)) @ le_bytes 1 (t_index x) @ le_bytes 2 (t_offs x)"])
      (simp_all add: assms enc_def)
qed

lemma put_offs:
  assumes "buf = P @ enc x @ R" "e = length P"
  shows "set_e_value_offs buf e v = Inr (P @ enc (x\<lparr>t_offs := v\<rparr>) @ R)"
  unfolding set_e_value_offs_def
  by (subst wr_at [where a = "P @ le_bytes 1 (length (t_name x)) @ le_bytes 1 (t_index x)" and b = "le_bytes 2 (t_offs x)"])
    (simp_all add: assms enc_def)

lemma put_inum:
  assumes "buf = P @ enc x @ R" "e = length P"
  shows "set_e_value_inum buf e v = Inr (P @ enc (x\<lparr>t_inum := v\<rparr>) @ R)"
  unfolding set_e_value_inum_def
  by (subst wr_at [where a = "P @ le_bytes 1 (length (t_name x)) @ le_bytes 1 (t_index x) @ le_bytes 2 (t_offs x)"
        and b = "le_bytes 4 (t_inum x)"])
    (simp_all add: assms enc_def)

lemma put_size:
  assumes "buf = P @ enc x @ R" "e = length P"
  shows "set_e_value_size buf e v = Inr (P @ enc (x\<lparr>t_size := v\<rparr>) @ R)"
  unfolding set_e_value_size_def
  by (subst wr_at [where a = "P @ le_bytes 1 (length (t_name x)) @ le_bytes 1 (t_index x) @ le_bytes 2 (t_offs x) @ le_bytes 4 (t_inum x)"
        and b = "le_bytes 4 (t_size x)"])
    (simp_all add: assms enc_def)

lemma put_hash:
  assumes "buf = P @ enc x @ R" "e = length P"
  shows "set_e_hash buf e v = Inr (P @ enc (x\<lparr>t_hash := v\<rparr>) @ R)"
  unfolding set_e_hash_def
  by (subst wr_at [where a = "P @ le_bytes 1 (length (t_name x)) @ le_bytes 1 (t_index x) @ le_bytes 2 (t_offs x) @ le_bytes 4 (t_inum x)
        @ le_bytes 4 (t_size x)" and b = "le_bytes 4 (t_hash x)"])
    (simp_all add: assms enc_def)

lemma endmark_last: "buf = P @ endmark @ R \<Longrightarrow> e = length P \<Longrightarrow> IS_LAST_ENTRY buf e = Inr True"
  unfolding IS_LAST_ENTRY_def by (subst rd_le_at [where a = P and b = endmark]) (simp_all add: endmark_def numeral_eq_Suc)

subsection \<open>Loops over the entries\<close>

definition min_step :: "nat \<Rightarrow> xent \<Rightarrow> nat" where
  "min_step m x = (if inl x \<and> t_offs x < m then t_offs x else m)"

lemma min_offs_loop_table:
  "buf = P @ tbytes es @ endmark @ R \<Longrightarrow> (\<forall>x \<in> set es. ent_ok x) \<Longrightarrow>
   min_offs_loop buf (length buf) m (length P) = Inr (Inr (foldl min_step m es, length P + length (tbytes es)))"
proof (induction es arbitrary: P m)
  case Nil
  then show ?case by (subst min_offs_loop.simps) (simp add: endmark_last [of _ P R])
next
  case (Cons x es)
  have x: "ent_ok x" using Cons.prems(2) by simp
  have b: "buf = P @ enc x @ (tbytes es @ endmark @ R)" using Cons.prems(1) by simp
  note r = enc_not_last [OF b refl x] enc_next [OF b refl x] enc_value_inum [OF b refl x] enc_value_size [OF b refl x]
    enc_value_offs [OF b refl x]
  have "length P + length (enc x) < length buf" using b by simp
  then have "min_offs_loop buf (length buf) m (length P) = min_offs_loop buf (length buf) (min_step m x) (length P + length (enc x))"
    by (subst min_offs_loop.simps) (simp add: r min_step_def inl_def)
  then show ?case using Cons.IH [of "P @ enc x" "min_step m x"] b Cons.prems(2) by (simp add: add.assoc)
qed

lemma foldl_min_step_le: "foldl min_step m es \<le> m" "x \<in> set es \<Longrightarrow> inl x \<Longrightarrow> foldl min_step m es \<le> t_offs x"
proof -
  have le: "foldl min_step m es \<le> m" for m es
  proof (induction es arbitrary: m)
    case (Cons x es)
    have "min_step m x \<le> m" by (simp add: min_step_def)
    then show ?case using Cons.IH [of "min_step m x"] by simp
  qed simp
  then show "foldl min_step m es \<le> m" .
  show "x \<in> set es \<Longrightarrow> inl x \<Longrightarrow> foldl min_step m es \<le> t_offs x"
  proof (induction es arbitrary: m)
    case (Cons y es)
    have "inl y \<Longrightarrow> min_step m y \<le> t_offs y" by (simp add: min_step_def)
    then show ?case using Cons le_trans [OF le [of "min_step m y"], of "t_offs y"] by auto
  qed simp
qed

lemma foldl_min_step_ge: "k \<le> m \<Longrightarrow> (\<forall>x \<in> set es. inl x \<longrightarrow> k \<le> t_offs x) \<Longrightarrow> k \<le> foldl min_step m es"
  by (induction es arbitrary: m) (auto simp: min_step_def)

definition adj :: "nat \<Rightarrow> nat \<Rightarrow> xent \<Rightarrow> xent" where
  "adj offs k x = (if inl x \<and> t_offs x < offs then x\<lparr>t_offs := t_offs x + k\<rparr> else x)"

lemma adj_fields [simp]: "t_name (adj offs k x) = t_name x" "t_index (adj offs k x) = t_index x" "t_inum (adj offs k x) = t_inum x"
    "t_size (adj offs k x) = t_size x" "t_hash (adj offs k x) = t_hash x" "t_pad (adj offs k x) = t_pad x"
    "tkey (adj offs k x) = tkey x" "inl (adj offs k x) = inl x" "vsize (adj offs k x) = vsize x"
  by (simp_all add: adj_def tkey_def inl_def vsize_def)

lemma length_enc_adj [simp]: "length (enc (adj offs k x)) = length (enc x)"
  by (simp add: enc_def)

lemma length_tbytes_adj [simp]: "length (tbytes (map (adj offs k) es)) = length (tbytes es)"
  by (induction es) simp_all

lemma adjust_offs_loop_table:
  "(\<forall>x \<in> set es. ent_ok x) \<Longrightarrow> (\<forall>x \<in> set es. ent_ok (adj offs k x)) \<Longrightarrow>
   adjust_offs_loop (P @ tbytes es @ endmark @ R) offs k (length P) =
     Inr (P @ tbytes (map (adj offs k) es) @ endmark @ R, length P + length (tbytes es))"
proof (induction es arbitrary: P)
  case Nil
  then show ?case by (subst adjust_offs_loop.simps) (simp add: endmark_last [of _ P R])
next
  case (Cons x es)
  define S where "S = tbytes es @ endmark @ R"
  have x: "ent_ok x" and ax: "ent_ok (adj offs k x)" using Cons.prems by auto
  have b: "P @ tbytes (x # es) @ endmark @ R = P @ enc x @ S" by (simp add: S_def)
  note r = enc_not_last [OF refl refl x, of P S] enc_value_inum [OF refl refl x, of P S] enc_value_size [OF refl refl x, of P S]
    enc_value_offs [OF refl refl x, of P S] put_offs [OF refl refl, of P x S] enc_next [OF refl refl ax, of P S]
  have "(if t_inum x = 0 \<and> t_size x \<noteq> 0 \<and> t_offs x < offs then set_e_value_offs (P @ enc x @ S) (length P) (t_offs x + k)
         else Inr (P @ enc x @ S)) = Inr (P @ enc (adj offs k x) @ S)"
    by (simp add: r adj_def inl_def)
  then have "adjust_offs_loop (P @ enc x @ S) offs k (length P) =
      adjust_offs_loop (P @ enc (adj offs k x) @ S) offs k (length P + length (enc (adj offs k x)))"
    by (subst adjust_offs_loop.simps) (simp add: r)
  also have "\<dots> = Inr (P @ tbytes (map (adj offs k) (x # es)) @ endmark @ R, length P + length (tbytes (x # es)))"
    using Cons.IH [of "P @ enc (adj offs k x)"] Cons.prems by (simp add: S_def add.assoc)
  finally show ?case using b by simp
qed

lemma length_adjust: "adjust_offs_loop buf offs k e = Inr (buf', l) \<Longrightarrow> length buf' = length buf"
proof (induction buf offs k e rule: adjust_offs_loop.induct)
  case (1 buf offs k e)
  then show ?case by (subst (asm) adjust_offs_loop.simps) (auto simp: set_e_value_offs_def split: if_splits dest!: length_wr)
qed

text \<open>The hash of a block is computed for every table.\<close>

lemma rehash_loop_table:
  "(\<forall>x \<in> set es. ent_ok x) \<Longrightarrow> \<exists>h. rehash_loop (P @ tbytes es @ endmark @ R) hash (length P) = Inr h"
proof (induction es arbitrary: P hash)
  case Nil
  then show ?case by (subst rehash_loop.simps) (simp add: endmark_last [of _ P R])
next
  case (Cons x es)
  have x: "ent_ok x" using Cons.prems by simp
  define S where "S = tbytes es @ endmark @ R"
  have b: "P @ tbytes (x # es) @ endmark @ R = P @ enc x @ S" by (simp add: S_def)
  have "P @ enc x @ S = (P @ enc x) @ tbytes es @ endmark @ R" by (simp add: S_def)
  then show ?case unfolding b using Cons.IH [of "P @ enc x"] Cons.prems
    by (subst rehash_loop.simps)
      (auto simp: enc_not_last [OF refl refl x] enc_next [OF refl refl x] enc_hash [OF refl refl x])
qed

subsection \<open>Values\<close>

definition apart :: "xent \<Rightarrow> xent \<Rightarrow> bool" where
  "apart x y = (inl x \<longrightarrow> inl y \<longrightarrow> t_offs x + vsize x \<le> t_offs y \<or> t_offs y + vsize y \<le> t_offs x)"

text \<open>The area of the values starts at offset \<open>m\<close>; the values lie inside and do not overlap.\<close>

definition wfv :: "u8 list \<Rightarrow> nat \<Rightarrow> xent list \<Rightarrow> bool" where
  "wfv V m es = ((\<forall>x \<in> set es. inl x \<longrightarrow> m \<le> t_offs x \<and> t_offs x + vsize x \<le> m + length V) \<and> sorted_wrt apart es)"

definition vals :: "u8 list \<Rightarrow> nat \<Rightarrow> xent \<Rightarrow> u8 list" where
  "vals V m x = take (t_size x) (drop (t_offs x - m) V)"

lemma apart_sym: "apart x y = apart y x"
  by (auto simp: apart_def)

lemma sorted_apart_split: "sorted_wrt apart (es1 @ x # es2) \<longleftrightarrow> sorted_wrt apart (es1 @ es2) \<and> (\<forall>y \<in> set (es1 @ es2). apart x y)"
  by (auto simp: sorted_wrt_append apart_sym)

lemma wfv_split:
  "wfv V m (es1 @ x # es2) \<longleftrightarrow> wfv V m (es1 @ es2) \<and> (inl x \<longrightarrow> m \<le> t_offs x \<and> t_offs x + vsize x \<le> m + length V)
     \<and> (\<forall>y \<in> set (es1 @ es2). apart x y)"
  unfolding wfv_def sorted_apart_split by auto

text \<open>Taking the value of one entry out closes the gap from below.\<close>

definition cut :: "nat \<Rightarrow> nat \<Rightarrow> u8 list \<Rightarrow> u8 list" where
  "cut a k V = take a V @ drop (a + k) V"

lemma vals_cut:
  assumes "ent_ok y" "inl y" "apart x y" "inl x" "m \<le> t_offs y" "t_offs y + vsize y \<le> m + length V" "m \<le> t_offs x"
    "t_offs x + vsize x \<le> m + length V"
  shows "vals (cut (t_offs x - m) (vsize x) V) (m + vsize x) (adj (t_offs x) (vsize x) y) = vals V m y"
    "m + vsize x \<le> t_offs (adj (t_offs x) (vsize x) y)"
    "t_offs (adj (t_offs x) (vsize x) y) + vsize y \<le> m + length V"
proof -
  have sz: "t_size y \<le> vsize y" "0 < vsize y" using vsize_bounds [OF assms(1)] assms(2) by auto
  consider "t_offs y + vsize y \<le> t_offs x" | "t_offs x + vsize x \<le> t_offs y" using assms(2,3,4) by (auto simp: apart_def)
  then have "vals (cut (t_offs x - m) (vsize x) V) (m + vsize x) (adj (t_offs x) (vsize x) y) = vals V m y
    \<and> m + vsize x \<le> t_offs (adj (t_offs x) (vsize x) y) \<and> t_offs (adj (t_offs x) (vsize x) y) + vsize y \<le> m + length V"
  proof cases
    case 1
    then have a: "adj (t_offs x) (vsize x) y = y\<lparr>t_offs := t_offs y + vsize x\<rparr>" using sz assms(2) by (simp add: adj_def)
    have "t_size y \<le> t_offs x - m - (t_offs y - m)" using 1 sz assms(5) by linarith
    then have "take (t_size y) (drop (t_offs y - m) (take (t_offs x - m) V)) = take (t_size y) (drop (t_offs y - m) V)"
      by (simp add: drop_take min_absorb1)
    moreover have "t_size y \<le> length (drop (t_offs y - m) (take (t_offs x - m) V))" "t_offs y - m \<le> length (take (t_offs x - m) V)"
      using 1 sz assms by auto
    ultimately show ?thesis using 1 assms a by (simp add: vals_def cut_def)
  next
    case 2
    then have a: "adj (t_offs x) (vsize x) y = y" using sz assms(2) by (auto simp: adj_def)
    have "length (take (t_offs x - m) V) = t_offs x - m" using assms by simp
    moreover have "t_offs y - (m + vsize x) - (t_offs x - m) + (t_offs x - m + vsize x) = t_offs y - m" using 2 assms by linarith
    ultimately have "drop (t_offs y - (m + vsize x)) (cut (t_offs x - m) (vsize x) V) = drop (t_offs y - m) V"
      using 2 assms by (simp add: cut_def add.commute)
    then show ?thesis using 2 assms a by (simp add: vals_def)
  qed
  then show "vals (cut (t_offs x - m) (vsize x) V) (m + vsize x) (adj (t_offs x) (vsize x) y) = vals V m y"
    "m + vsize x \<le> t_offs (adj (t_offs x) (vsize x) y)"
    "t_offs (adj (t_offs x) (vsize x) y) + vsize y \<le> m + length V" by blast+
qed

lemma apart_adj:
  assumes "apart y z" "apart x y" "apart x z" "ent_ok y" "ent_ok z" "inl x"
  shows "apart (adj (t_offs x) (vsize x) y) (adj (t_offs x) (vsize x) z)"
  using assms vsize_bounds(2) [OF assms(4)] vsize_bounds(2) [OF assms(5)] by (auto simp: apart_def adj_def vsize_def inl_def)

lemma wfv_cut:
  assumes "wfv V m (es1 @ x # es2)" "inl x" "\<forall>y \<in> set (es1 @ x # es2). ent_ok y" "m + length V \<le> 65536"
  defines "f \<equiv> adj (t_offs x) (vsize x)"
  shows "wfv (cut (t_offs x - m) (vsize x) V) (m + vsize x) (map f (es1 @ es2))"
    "\<forall>y \<in> set (es1 @ x # es2). ent_ok (f y)"
proof -
  note w = assms(1)[unfolded wfv_split]
  have x: "m \<le> t_offs x" "t_offs x + vsize x \<le> m + length V" using w assms(2) by auto
  have len: "length (cut (t_offs x - m) (vsize x) V) + vsize x = length V" using x by (simp add: cut_def)
  have y: "m + vsize x \<le> t_offs (f y)" "t_offs (f y) + vsize y \<le> m + length V" if "y \<in> set (es1 @ es2)" "inl y" for y
    using vals_cut(2,3) [of y x m V] that w x assms(2,3) by (auto simp: f_def wfv_def)
  have "sorted_wrt (\<lambda>y z. apart (f y) (f z)) (es1 @ es2)"
    unfolding f_def by (rule sorted_wrt_mono_rel [of _ apart]) (use w assms(2,3) apart_adj [of _ _ x] in \<open>auto simp: wfv_def\<close>)
  then have "sorted_wrt apart (map f (es1 @ es2))" unfolding sorted_wrt_map .
  moreover have "\<forall>z \<in> set (map f (es1 @ es2)). inl z \<longrightarrow>
      m + vsize x \<le> t_offs z \<and> t_offs z + vsize z \<le> m + vsize x + length (cut (t_offs x - m) (vsize x) V)"
    using y len unfolding f_def by fastforce
  ultimately show "wfv (cut (t_offs x - m) (vsize x) V) (m + vsize x) (map f (es1 @ es2))" by (simp add: wfv_def)
  show "\<forall>y \<in> set (es1 @ x # es2). ent_ok (f y)"
  proof
    fix z assume z: "z \<in> set (es1 @ x # es2)"
    have "t_offs (f z) < 65536"
    proof (cases "z \<in> set (es1 @ es2) \<and> inl z")
      case True
      then have "0 < vsize z" using vsize_bounds(2) assms(3) z by blast
      then show ?thesis using y [of z] True assms(4) by linarith
    next
      case False
      then have "f z = z" using z by (auto simp: f_def adj_def)
      then show ?thesis using assms(3) z by (auto simp: ent_ok_def)
    qed
    moreover have "f z = z" if "t_size z = 0" using that by (simp add: f_def adj_def inl_def)
    moreover have "ent_ok z" using assms(3) z by blast
    ultimately show "ent_ok (f z)" by (auto simp: ent_ok_def f_def)
  qed
qed

subsection \<open>Steps on a layout\<close>

text \<open>Shifting \<open>A\<close> up over \<open>D\<close> and clearing what it leaves.\<close>

lemma shift_up:
  assumes "buf = L @ A @ D @ B" "off = length L" "k = length D"
  shows "kbind (memmove buf (off + k) off (length A)) (\<lambda>buf. memset_zero buf off k) = Inr (L @ replicate k 0 @ A @ B)"
proof -
  define C where "C = take k (A @ D)"
  define E where "E = drop k (A @ D)"
  have c: "A @ D = C @ E" "length C = k" "length E = length A"
    using assms(3) append_take_drop_id [of k "A @ D"] by (simp_all add: C_def E_def del: append_take_drop_id take_append drop_append)
  have "rd buf off (length A) = Inr A" using assms by (intro rd_at) auto
  moreover have "wr buf (off + k) A = Inr ((L @ C) @ A @ B)" using assms c
    by (intro wr_at [where b = E]) (simp_all flip: append_assoc)
  moreover have "memset_zero ((L @ C) @ A @ B) off k = Inr (L @ replicate k 0 @ A @ B)" using assms(2) c by (intro memset_at [where b = C]) auto
  ultimately show ?thesis by (simp add: memmove_def)
qed

lemma remove_value_layout:
  assumes buf: "buf = P @ tbytes (es1 @ x # es2) @ endmark @ G @ V"
    and m: "length P + length (tbytes (es1 @ x # es2)) + 4 + length G = s_base s + m"
    and s: "s_first s = length P" "s_here s = length P + length (tbytes es1)"
    and ok: "\<forall>y \<in> set (es1 @ x # es2). ent_ok y" and x: "inl x" and w: "wfv V m (es1 @ x # es2)" and V: "m + length V \<le> 65536"
  shows "remove_value s (vsize x) m lst buf =
    Inr (P @ tbytes (map (adj (t_offs x) (vsize x)) (es1 @ x # es2)) @ endmark @ (G @ replicate (vsize x) 0) @ cut (t_offs x - m) (vsize x) V,
         m + vsize x, length P + length (tbytes (es1 @ x # es2)))"
proof -
  define k where "k = vsize x"
  define A where "A = take (t_offs x - m) V"
  define D where "D = take k (drop (t_offs x - m) V)"
  define B where "B = drop (t_offs x - m + k) V"
  define T where "T = tbytes (es1 @ x # es2)"
  have o: "m \<le> t_offs x" "t_offs x + k \<le> m + length V" using w x by (auto simp: wfv_def k_def)
  have v: "V = A @ D @ B" by (simp add: A_def D_def B_def add.commute flip: drop_drop)
  have l: "length A = t_offs x - m" "length D = k" using o by (simp_all add: A_def D_def)
  have ox: "ent_ok x" using ok by simp
  have here: "buf = (P @ tbytes es1) @ enc x @ (tbytes es2 @ endmark @ G @ V)" using buf by simp
  have h: "s_here s = length (P @ tbytes es1)" using s(2) by simp
  note f = enc_value_size [OF here h ox] enc_value_inum [OF here h ox] enc_value_offs [OF here h ox]
  have n: "nat ((int (s_base s + t_offs x) - int (s_base s + m)) mod 2 ^ 64) = length A"
    using o V l by (simp add: of_nat_diff [symmetric] del: of_nat_diff)
  have up: "kbind (memmove buf (s_base s + m + k) (s_base s + m) (length A)) (\<lambda>buf. memset_zero buf (s_base s + m) k)
      = Inr ((P @ T @ endmark @ G) @ replicate k 0 @ A @ B)"
    by (rule shift_up [where D = D]) (use buf m l(2) v in \<open>simp_all add: T_def\<close>)
  have a: "adjust_offs_loop ((P @ T @ endmark @ G) @ replicate k 0 @ A @ B) (t_offs x) k (s_first s) =
      Inr (P @ tbytes (map (adj (t_offs x) k) (es1 @ x # es2)) @ endmark @ (G @ replicate k 0) @ A @ B, length P + length T)"
    using adjust_offs_loop_table [of "es1 @ x # es2" "t_offs x" k P "G @ replicate k 0 @ A @ B"] ok wfv_cut(2) [OF w x ok V]
    by (simp add: T_def s(1) k_def)
  have "kbind (memmove buf (s_base s + m + k) (s_base s + m) (length A)) (\<lambda>buf.
      kbind (memset_zero buf (s_base s + m) k) g) = kbind (kbind (memmove buf (s_base s + m + k) (s_base s + m) (length A))
        (\<lambda>buf. memset_zero buf (s_base s + m) k)) g" for g :: "u8 list \<Rightarrow> (u8 list \<times> nat \<times> nat) kres"
    by (simp add: kbind_def split: sum.splits)
  then show ?thesis unfolding remove_value_def k_def [symmetric] Let_def
    using f x n up a by (simp add: inl_def cut_def A_def [symmetric] B_def [symmetric] T_def)
qed

lemma remove_name_layout:
  assumes buf: "buf = Q @ enc x @ T @ endmark @ R" and n: "EXT4_XATTR_LEN n = length (enc x)"
    and here: "here = length Q" and lst: "lst = length Q + length (enc x) + length T"
  shows "remove_name n here lst buf = Inr (Q @ T @ endmark @ replicate (length (enc x)) 0 @ R)"
proof -
  define k where "k = length (enc x)"
  have k4: "4 \<le> k" using EXT4_XATTR_LEN_pos(1) [of n] n by (simp add: k_def)
  define W where "W = drop (length T + 4) (enc x @ T @ endmark)"
  define U where "U = take (length T + 4) (enc x @ T @ endmark)"
  have w: "enc x @ T @ endmark = U @ W" "length U = length T + 4" "length W = k"
    by (simp_all add: U_def W_def k_def del: take_append drop_append)
  have d: "drop k (endmark @ W) = endmark"
    using k4 by (simp add: W_def k_def)
  have bw: "buf = Q @ U @ W @ R" using buf w(1) by (metis append_assoc)
  have 1: "rd buf (here + k) (length T + 4) = Inr (T @ endmark)"
    by (rule rd_at [where a = "Q @ enc x" and c = R]) (simp_all add: buf here k_def)
  have 2: "wr buf here (T @ endmark) = Inr (Q @ (T @ endmark) @ W @ R)"
    by (rule wr_at [where b = U]) (simp_all add: bw here w(2))
  have 3: "memset_zero (Q @ (T @ endmark) @ W @ R) (here + length T) k = Inr ((Q @ T) @ replicate k 0 @ endmark @ R)"
  proof (rule memset_at [where b = "take k (endmark @ W)"])
    show "Q @ (T @ endmark) @ W @ R = (Q @ T) @ take k (endmark @ W) @ endmark @ R"
      using append_take_drop_id [of k "endmark @ W"] d by (metis append_assoc)
  qed (use w(3) in \<open>simp_all add: here\<close>)
  have z: "replicate k (0 :: u8) @ endmark = endmark @ replicate k 0"
    by (simp add: endmark_def replicate_add [symmetric] add.commute)
  then have z2: "(Q @ T) @ replicate k 0 @ endmark @ R = Q @ T @ endmark @ replicate k 0 @ R" by (metis append_assoc)
  show ?thesis unfolding remove_name_def memmove_def n k_def [symmetric] Let_def
    using 1 2 3 z2 lst by (simp add: here k_def)
qed

text \<open>A fresh entry: everything but the name is zero.\<close>

definition fresh :: "nat \<Rightarrow> u8 list \<Rightarrow> xent" where
  "fresh idx name = \<lparr>t_index = idx, t_name = name, t_offs = 0, t_inum = 0, t_size = 0, t_hash = 0,
     t_pad = replicate (EXT4_XATTR_LEN (length name) - 16 - length name) 0\<rparr>"

lemma length_name_bytes [simp]: "length (name_bytes n) = length n"
  by (simp add: name_bytes_def)

lemma le_bytes_0: "le_bytes n 0 = replicate n 0"
  by (induction n) (simp_all add: le_bytes.simps)

lemma insert_name_layout:
  assumes buf: "buf = Q @ T @ endmark @ D @ R" and D: "length D = EXT4_XATTR_LEN (length (i_name i))"
    and here: "here = length Q" and lst: "lst = length Q + length T"
  shows "insert_name i here lst buf = Inr (Q @ enc (fresh (i_name_index i) (name_bytes (i_name i))) @ T @ endmark @ R)"
proof -
  define n where "n = length (i_name i)"
  define k where "k = EXT4_XATTR_LEN n"
  define p where "p = k - 16 - n"
  define N where "N = name_bytes (i_name i)"
  have k: "k = 1 + 1 + 14 + n + p" using EXT4_XATTR_LEN_pos(2) [of n] by (simp add: p_def k_def)
  have up: "kbind (memmove buf (here + k) here (length (T @ endmark))) (\<lambda>buf. memset_zero buf here k) = Inr (Q @ replicate k 0 @ (T @ endmark) @ R)"
    by (rule shift_up [where D = D]) (use buf here D in \<open>simp_all add: k_def n_def\<close>)
  define S where "S = (T @ endmark) @ R"
  have z: "Q @ replicate k 0 @ (T @ endmark) @ R = Q @ [0] @ [0] @ replicate 14 0 @ replicate n 0 @ replicate p 0 @ S"
    by (simp add: k S_def replicate_add numeral_eq_Suc)
  have 1: "set_e_name_index (Q @ [0] @ [0] @ replicate 14 0 @ replicate n 0 @ replicate p 0 @ S) here (i_name_index i) =
      Inr ((Q @ [0]) @ le_bytes 1 (i_name_index i) @ replicate 14 0 @ replicate n 0 @ replicate p 0 @ S)"
    unfolding set_e_name_index_def by (rule wr_at [where b = "[0]"]) (simp_all add: here)
  have 2: "set_e_name_len ((Q @ [0]) @ le_bytes 1 (i_name_index i) @ replicate 14 0 @ replicate n 0 @ replicate p 0 @ S) here n =
      Inr (Q @ le_bytes 1 n @ le_bytes 1 (i_name_index i) @ replicate 14 0 @ replicate n 0 @ replicate p 0 @ S)"
    unfolding set_e_name_len_def by (rule wr_at [where b = "[0]"]) (simp_all add: here)
  have 3: "wr (Q @ le_bytes 1 n @ le_bytes 1 (i_name_index i) @ replicate 14 0 @ replicate n 0 @ replicate p 0 @ S) (here + 16) N =
      Inr ((Q @ le_bytes 1 n @ le_bytes 1 (i_name_index i) @ replicate 14 0) @ N @ replicate p 0 @ S)"
    by (rule wr_at [where b = "replicate n 0"]) (simp_all add: here N_def n_def)
  have 4: "(Q @ le_bytes 1 n @ le_bytes 1 (i_name_index i) @ replicate 14 0) @ N @ replicate p 0 @ S =
      Q @ enc (fresh (i_name_index i) N) @ T @ endmark @ R"
    by (simp add: enc_def fresh_def N_def n_def [symmetric] S_def p_def k_def le_bytes_0 replicate_add [symmetric] flip: append_assoc)
  have "kbind (memmove buf (here + k) here (length T + 4)) (\<lambda>buf. kbind (memset_zero buf here k) g) =
      g (Q @ replicate k 0 @ (T @ endmark) @ R)" for g :: "u8 list \<Rightarrow> u8 list kres"
    using up by (auto simp: kbind_def split: sum.splits)
  then show ?thesis unfolding insert_name_def n_def [symmetric] k_def [symmetric] N_def [symmetric] Let_def
    using lst here 1 2 3 4 unfolding z by simp
qed

definition value_bytes :: "ext4_xattr_info \<Rightarrow> u8 list" where
  "value_bytes i = (case i_value i of None \<Rightarrow> [] | Some ZeroValue \<Rightarrow> replicate (i_value_len i) 0 | Some (Value v) \<Rightarrow> take (i_value_len i) v)"

text \<open>What the callers guarantee of a name and a value.\<close>

definition info_ok :: "ext4_xattr_info \<Rightarrow> bool" where
  "info_ok i = (length (i_name i) < 256 \<and> 0 \<notin> set (name_bytes (i_name i)) \<and> 0 < i_name_index i \<and> i_name_index i < 256
     \<and> i_value_len i \<le> EXT4_XATTR_SIZE_MAX \<and> (case i_value i of Some (Value v) \<Rightarrow> i_value_len i \<le> length v | _ \<Rightarrow> True))"

lemma padded_size_bounds: "n \<le> EXT4_XATTR_SIZE_MAX \<Longrightarrow> n \<le> padded_size n" "padded_size n mod 4 = 0"
    "n \<le> EXT4_XATTR_SIZE_MAX \<Longrightarrow> EXT4_XATTR_SIZE n = padded_size n" "n \<le> EXT4_XATTR_SIZE_MAX \<Longrightarrow> padded_size n = 0 \<longleftrightarrow> n = 0"
    "n \<le> EXT4_XATTR_SIZE_MAX \<Longrightarrow> padded_size n \<le> EXT4_XATTR_SIZE_MAX"
proof -
  have p: "padded_size n = (n + 3) div 4 * 4" if "n \<le> EXT4_XATTR_SIZE_MAX" for n
    using that by (simp add: padded_size_def EXT4_XATTR_SIZE_MAX_def)
  have "n \<le> (n + 3) div 4 * 4" by presburger
  then show "n \<le> EXT4_XATTR_SIZE_MAX \<Longrightarrow> n \<le> padded_size n" by (simp add: p)
  show "padded_size n mod 4 = 0" by (simp add: padded_size_def)
  show "n \<le> EXT4_XATTR_SIZE_MAX \<Longrightarrow> EXT4_XATTR_SIZE n = padded_size n" by (simp add: p EXT4_XATTR_SIZE_def EXT4_XATTR_SIZE_MAX_def)
  have "(n + 3) div 4 * 4 = 0 \<longleftrightarrow> n = 0" by presburger
  then show "n \<le> EXT4_XATTR_SIZE_MAX \<Longrightarrow> padded_size n = 0 \<longleftrightarrow> n = 0" by (simp add: p)
  have "n \<le> 16777216 \<Longrightarrow> (n + 3) div 4 * 4 \<le> 16777216" by presburger
  then show "n \<le> EXT4_XATTR_SIZE_MAX \<Longrightarrow> padded_size n \<le> EXT4_XATTR_SIZE_MAX" by (simp add: p) (simp add: EXT4_XATTR_SIZE_MAX_def)
qed

lemma length_value_bytes: "info_ok i \<Longrightarrow> i_value i \<noteq> None \<Longrightarrow> length (value_bytes i) = i_value_len i"
  by (auto simp: value_bytes_def info_ok_def split: xattr_value.splits)

definition padded :: "ext4_xattr_info \<Rightarrow> u8 list" where
  "padded i = value_bytes i @ replicate (padded_size (i_value_len i) - i_value_len i) 0"

lemma length_padded: "info_ok i \<Longrightarrow> i_value i \<noteq> None \<Longrightarrow> length (padded i) = padded_size (i_value_len i)"
  using padded_size_bounds(1) [of "i_value_len i"] by (simp add: padded_def length_value_bytes info_ok_def)

lemma put_value_layout:
  assumes "info_ok i" "i_value i \<noteq> None" "buf = a @ D @ c" "val = length a" "length D = padded_size (i_value_len i)"
  shows "put_value i val (padded_size (i_value_len i)) buf = Inr (a @ padded i @ c)"
proof -
  define n where "n = i_value_len i"
  define k where "k = padded_size n"
  have nk: "n \<le> k" using assms(1) padded_size_bounds(1) by (simp add: info_ok_def n_def k_def)
  show ?thesis
  proof (cases "i_value i")
    case (Some v)
    show ?thesis
    proof (cases v)
      case ZeroValue
      have "padded i = replicate k 0" using Some ZeroValue nk
        by (simp add: padded_def value_bytes_def n_def [symmetric] k_def [symmetric] replicate_add [symmetric])
      then show ?thesis using Some ZeroValue assms memset_at [of buf a D c val k] by (simp add: put_value_def k_def n_def)
    next
      case (Value w)
      have w: "n \<le> length w" using assms(1) Some Value by (simp add: info_ok_def n_def)
      have 1: "rd w 0 n = Inr (take n w)" using w by (simp add: rd_def)
      have 2: "wr buf val (take n w) = Inr (a @ take n w @ drop n D @ c)"
        by (rule wr_at [where b = "take n D"]) (use assms w nk in \<open>simp_all add: k_def n_def\<close>)
      have 3: "memset_zero (a @ take n w @ drop n D @ c) (val + n) (k - n) = Inr ((a @ take n w) @ replicate (k - n) 0 @ c)"
        by (rule memset_at [where b = "drop n D"]) (use assms w nk in \<open>simp_all add: k_def n_def\<close>)
      show ?thesis unfolding put_value_def padded_def value_bytes_def n_def [symmetric] k_def [symmetric]
        using Some Value 1 2 3 by simp
    qed
  qed (use assms in simp)
qed

lemma reset_value_layout:
  "buf = Q @ enc x @ R \<Longrightarrow> here = length Q \<Longrightarrow>
   reset_value here buf = Inr (Q @ enc (x\<lparr>t_inum := 0, t_offs := 0, t_size := 0\<rparr>) @ R)"
  by (simp add: reset_value_def put_inum [OF refl refl] put_offs [OF refl refl] put_size [OF refl refl])

lemma insert_value_layout:
  assumes i: "info_ok i" "i_value i \<noteq> None" "\<not> i_in_inode i" "i_value_len i \<noteq> 0" and buf: "buf = Q @ enc x @ T @ D @ V" and here: "here = length Q"
    and D: "length D = padded_size (i_value_len i)" and m: "base + m = length Q + length (enc x) + length T + length D" and b: "m \<le> 65536"
    and dm: "length D \<le> m"
  shows "insert_value i base here m (padded_size (i_value_len i)) ino buf =
    Inr (Q @ enc (x\<lparr>t_offs := m - length D, t_size := i_value_len i\<rparr>) @ T @ padded i @ V)"
proof -
  define y where "y = x\<lparr>t_offs := m - length D\<rparr>"
  have len: "length (enc y) = length (enc x)" by (simp add: enc_def y_def)
  have "0 < length D" using D i padded_size_bounds(4) [of "i_value_len i"] by (auto simp: info_ok_def)
  define d where "d = m - length D"
  have "d < 65536" using \<open>0 < length D\<close> dm b unfolding d_def by linarith
  moreover have "int m - int (length D) = int d" using dm by (simp add: d_def)
  ultimately have "nat ((int m - int (length D)) mod 2 ^ 16) = m - length D"
    by (simp add: nat_mod_distrib flip: d_def)
  then have 1: "set_e_value_offs buf here (nat ((int m - int (length D)) mod 2 ^ 16)) = Inr (Q @ enc y @ T @ D @ V)"
    by (simp add: y_def put_offs [OF buf here])
  have 2: "put_value i (base + m - length D) (length D) (Q @ enc y @ T @ D @ V) = Inr ((Q @ enc y @ T) @ padded i @ V)"
    unfolding D by (rule put_value_layout [where D = D]) (use i m len D in simp_all)
  have 3: "set_e_value_size ((Q @ enc y @ T) @ padded i @ V) here (i_value_len i) =
      Inr (Q @ enc (y\<lparr>t_size := i_value_len i\<rparr>) @ T @ padded i @ V)"
    by (rule put_size) (simp_all add: here)
  show ?thesis unfolding insert_value_def D [symmetric] using i(3,4) 1 2 3 m by (simp add: y_def)
qed

lemma insert_inode_layout:
  assumes "i_in_inode i" "buf = Q @ enc x @ R" "here = length Q"
  shows "insert_value i base here m ns (Some ino) buf = Inr (Q @ enc (x\<lparr>t_inum := ino, t_size := i_value_len i\<rparr>) @ R)"
  using assms by (simp add: insert_value_def put_inum [OF refl refl] put_size [OF refl refl])

lemma insert_empty_layout:
  assumes "\<not> i_in_inode i" "i_value_len i = 0" "buf = Q @ enc x @ R" "here = length Q"
  shows "insert_value i base here m ns ino buf = Inr (Q @ enc (x\<lparr>t_size := 0\<rparr>) @ R)"
  using assms by (simp add: insert_value_def put_size [OF refl refl])

subsection \<open>Hashes\<close>

text \<open>Of the header of a block only the hash behind the first twelve bytes changes; the bytes before the table of an inode are kept.\<close>

definition hdr_kept :: "bool \<Rightarrow> u8 list \<Rightarrow> u8 list \<Rightarrow> bool" where
  "hdr_kept is_block P P' = (if is_block then take 12 P' = take 12 P else P' = P)"

lemma hdr_kept_refl [simp]: "hdr_kept is_block P P"
  by (simp add: hdr_kept_def)

lemma rehash_layout:
  assumes "\<forall>x \<in> set es. ent_ok x" "length P = BFIRST"
  shows "\<exists>P'. ext4_xattr_rehash (P @ tbytes es @ endmark @ R) = Inr (P' @ tbytes es @ endmark @ R) \<and> length P' = length P \<and> take 12 P' = take 12 P"
proof -
  obtain h where h: "rehash_loop (P @ tbytes es @ endmark @ R) 0 BFIRST = Inr h"
    using rehash_loop_table [OF assms(1), of P R 0] assms(2) by auto
  have "P = take 12 P @ take 4 (drop 12 P) @ drop 16 P"
    using append_take_drop_id [of 12 P] append_take_drop_id [of 4 "drop 12 P"] by simp
  then have p: "P @ tbytes es @ endmark @ R = take 12 P @ take 4 (drop 12 P) @ drop 16 P @ tbytes es @ endmark @ R"
    by (metis append_assoc)
  have "wr (P @ tbytes es @ endmark @ R) 12 (le_bytes 4 (unat h)) =
      Inr (take 12 P @ le_bytes 4 (unat h) @ drop 16 P @ tbytes es @ endmark @ R)"
    by (rule wr_at [OF p]) (use assms(2) in \<open>simp_all add: BFIRST_def\<close>)
  then show ?thesis using h assms(2)
    by (intro exI [of _ "take 12 P @ le_bytes 4 (unat h) @ drop 16 P"]) (simp add: ext4_xattr_rehash_def BFIRST_def)
qed

lemma update_hash_layout:
  assumes buf: "buf = P @ tbytes (es1 @ x # es2) @ endmark @ R" and here: "s_here s = length P + length (tbytes es1)"
    and ok: "\<forall>y \<in> set (es1 @ x # es2). ent_ok y" and P: "is_block \<longrightarrow> length P = BFIRST" and v: "i_value i \<noteq> None"
    and eh: "i_in_inode i \<longrightarrow> eh \<noteq> None" and rdv: "is_block \<longrightarrow> \<not> i_in_inode i \<longrightarrow> s_base s + t_offs x + ns \<le> length buf"
  shows "\<exists>h P'. update_hash i s is_block ns eh buf = Inr (P' @ tbytes (es1 @ x\<lparr>t_hash := h\<rparr> # es2) @ endmark @ R)
    \<and> ent_ok (x\<lparr>t_hash := h\<rparr>) \<and> length P' = length P \<and> hdr_kept is_block P P'"
proof -
  have x: "ent_ok x" using ok by simp
  have b: "buf = (P @ tbytes es1) @ enc x @ (tbytes es2 @ endmark @ R)" using buf by simp
  have h: "s_here s = length (P @ tbytes es1)" using here by simp
  have "s_base s + t_offs x + ns div 4 * 4 \<le> length buf" if "is_block" "\<not> i_in_inode i"
    using rdv that div_times_less_eq_dividend [of ns 4] by linarith
  then obtain val where val: "is_block \<longrightarrow> \<not> i_in_inode i \<longrightarrow> rd buf (s_base s + t_offs x) (ns div 4 * 4) = Inr val"
    by (auto simp: rd_def)
  obtain g where g: "entry_hash i s is_block ns eh (t_name x) buf = Inr g"
    using eh val by (cases "i_in_inode i"; cases is_block) (auto simp: entry_hash_def enc_value_offs [OF b h x])
  define y where "y = x\<lparr>t_hash := unat g\<rparr>"
  have y: "ent_ok y" using x unsigned_less [of g] by (simp add: ent_ok_def y_def)
  have s: "set_e_hash buf (s_here s) (unat g) = Inr (P @ tbytes (es1 @ y # es2) @ endmark @ R)"
    by (simp add: put_hash [OF b h] y_def)
  have u: "update_hash i s is_block ns eh buf =
      (if is_block then ext4_xattr_rehash (P @ tbytes (es1 @ y # es2) @ endmark @ R) else Inr (P @ tbytes (es1 @ y # es2) @ endmark @ R))"
    unfolding update_hash_def using v g s by (simp add: enc_name_len [OF b h x] enc_name [OF b h x] del: not_None_eq)
  have "\<forall>z \<in> set (es1 @ y # es2). ent_ok z" using ok y by auto
  then show ?thesis using u y P rehash_layout [of "es1 @ y # es2" P R]
    by (cases is_block) (auto simp: y_def hdr_kept_def intro!: exI [of _ "unat g"])
qed

subsection \<open>Well-formed tables\<close>

definition layout :: "u8 list \<Rightarrow> nat \<Rightarrow> u8 list \<Rightarrow> xent list \<Rightarrow> u8 list \<Rightarrow> u8 list \<Rightarrow> nat \<Rightarrow> bool" where
  "layout buf base P es G V m = (buf = P @ tbytes es @ endmark @ G @ V \<and> base \<le> length P
     \<and> length P + length (tbytes es) + 4 + length G = base + m \<and> wfv V m es \<and> (\<forall>x \<in> set es. ent_ok x)
     \<and> distinct (map tkey es) \<and> m + length V \<le> 65536)"

text \<open>
  A table with the entries \<open>es\<close> from \<open>first\<close> on, offsets of values counting from \<open>base\<close>.
\<close>

definition xtab :: "u8 list \<Rightarrow> nat \<Rightarrow> nat \<Rightarrow> xent list \<Rightarrow> bool" where
  "xtab buf base first es = (\<exists>P G V m. layout buf base P es G V m \<and> length P = first)"

lemma xtabI: "layout buf base P es G V m \<Longrightarrow> length P = first \<Longrightarrow> xtab buf base first es"
  unfolding xtab_def by blast

datatype attr = InTable "u8 list" | InInode nat nat

definition tattr :: "u8 list \<Rightarrow> nat \<Rightarrow> xent \<Rightarrow> attr" where
  "tattr buf base x = (if t_inum x \<noteq> 0 then InInode (t_inum x) (t_size x) else InTable (take (t_size x) (drop (base + t_offs x) buf)))"

text \<open>What a table means: a map from index and name to the value.\<close>

definition tmap :: "u8 list \<Rightarrow> nat \<Rightarrow> xent list \<Rightarrow> nat \<times> u8 list \<Rightarrow> attr option" where
  "tmap buf base es = map_of (map (\<lambda>x. (tkey x, tattr buf base x)) es)"

definition lattr :: "u8 list \<Rightarrow> nat \<Rightarrow> xent \<Rightarrow> attr" where
  "lattr V m x = (if t_inum x \<noteq> 0 then InInode (t_inum x) (t_size x) else InTable (vals V m x))"

definition lmap :: "u8 list \<Rightarrow> nat \<Rightarrow> xent list \<Rightarrow> nat \<times> u8 list \<Rightarrow> attr option" where
  "lmap V m es = map_of (map (\<lambda>x. (tkey x, lattr V m x)) es)"

lemma tmap_layout:
  assumes "layout buf base P es G V m"
  shows "tmap buf base es = lmap V m es"
proof -
  have "tattr buf base x = lattr V m x" if "x \<in> set es" for x
  proof (cases "inl x")
    case True
    then have "m \<le> t_offs x" using assms that by (auto simp: layout_def wfv_def)
    moreover have "drop (length (P @ tbytes es @ endmark @ G)) buf = V" "length (P @ tbytes es @ endmark @ G) = base + m"
      using assms by (auto simp: layout_def)
    ultimately have "drop (base + t_offs x) buf = drop (t_offs x - m) V"
      by (metis add.assoc drop_drop le_add_diff_inverse2 add.commute)
    then show ?thesis by (simp add: tattr_def lattr_def vals_def)
  qed (auto simp: tattr_def lattr_def vals_def inl_def)
  then show ?thesis by (simp add: tmap_def lmap_def cong: map_cong)
qed

text \<open>The entries and values of a table can be cut at the lowest offset in use.\<close>

lemma layout_exact:
  assumes "layout buf base P es G V m"
  defines "k \<equiv> foldl min_step (length buf - base) es"
  shows "\<exists>G' V'. layout buf base P es G' V' k"
proof -
  have b: "length buf = base + m + length V" using assms(1) by (simp add: layout_def)
  have "m \<le> k" unfolding k_def using assms(1) b by (intro foldl_min_step_ge) (auto simp: layout_def wfv_def)
  moreover have "k \<le> m + length V" using foldl_min_step_le(1) [of "length buf - base" es] b by (simp add: k_def)
  moreover have "\<forall>x \<in> set es. inl x \<longrightarrow> k \<le> t_offs x" using foldl_min_step_le(2) by (simp add: k_def)
  ultimately have "layout buf base P es (G @ take (k - m) V) (drop (k - m) V) k"
    using assms(1) by (auto simp: layout_def wfv_def)
  then show ?thesis by blast
qed

lemma map_of_mid:
  assumes "k \<notin> fst ` set (xs @ ys)"
  shows "map_of (xs @ (k, v) # ys) = (map_of (xs @ ys))(k \<mapsto> v)" "map_of (xs @ ys) = (map_of (xs @ (k, v) # ys))(k := None)"
proof -
  have "map_of xs k = None" "map_of ys k = None" using assms by (auto simp: map_of_eq_None_iff)
  then show "map_of (xs @ (k, v) # ys) = (map_of (xs @ ys))(k \<mapsto> v)" "map_of (xs @ ys) = (map_of (xs @ (k, v) # ys))(k := None)"
    by (auto simp: map_add_def fun_eq_iff split: option.splits)
qed

lemma lmap_mid:
  assumes "tkey x \<notin> tkey ` set (es1 @ es2)"
  shows "lmap V m (es1 @ x # es2) = (lmap V m (es1 @ es2))(tkey x \<mapsto> lattr V m x)"
    "lmap V m (es1 @ es2) = (lmap V m (es1 @ x # es2))(tkey x := None)"
proof -
  define f where "f = (\<lambda>x. (tkey x, lattr V m x))"
  have "tkey x \<notin> fst ` set (map f es1 @ map f es2)" using assms by (auto simp: f_def)
  from map_of_mid [OF this, of "lattr V m x"]
  show "lmap V m (es1 @ x # es2) = (lmap V m (es1 @ es2))(tkey x \<mapsto> lattr V m x)"
    "lmap V m (es1 @ es2) = (lmap V m (es1 @ x # es2))(tkey x := None)"
    unfolding lmap_def f_def [symmetric] map_append list.map by (simp_all only: f_def)
qed

subsection \<open>Setting a value\<close>

lemma layoutD:
  assumes "layout buf base P es G V m"
  shows "buf = P @ tbytes es @ endmark @ G @ V" "base \<le> length P" "length P + length (tbytes es) + 4 + length G = base + m" "wfv V m es"
    "\<forall>x \<in> set es. ent_ok x" "distinct (map tkey es)" "m + length V \<le> 65536" "length buf = base + m + length V"
  using assms by (auto simp: layout_def)

text \<open>After the old value is gone: the other entries mean what they meant, the free space has grown.\<close>

lemma remove_value_step:
  assumes l: "layout buf base P (es1 @ x # es2) G V m"
    and s: "s_first s = length P" "s_here s = length P + length (tbytes es1)" "s_base s = base"
    and old: "old = (if t_inum x = 0 then EXT4_XATTR_SIZE (t_size x) else 0)"
    and lst: "lst = length P + length (tbytes (es1 @ x # es2))"
  shows "\<exists>ys1 y ys2 G' V'.
    remove_value s old m lst buf = Inr (P @ tbytes (ys1 @ y # ys2) @ endmark @ G' @ V', m + old, lst)
    \<and> map tkey ys1 = map tkey es1 \<and> tkey y = tkey x \<and> map tkey ys2 = map tkey es2
    \<and> length (tbytes ys1) = length (tbytes es1) \<and> length (enc y) = length (enc x) \<and> length (tbytes ys2) = length (tbytes es2)
    \<and> (\<forall>z \<in> set (ys1 @ y # ys2). ent_ok z) \<and> wfv V' (m + old) (ys1 @ ys2) \<and> lmap V' (m + old) (ys1 @ ys2) = lmap V m (es1 @ es2)
    \<and> length G' = length G + old \<and> old + length V' = length V"
proof (cases "inl x")
  case True
  define f where "f = adj (t_offs x) (vsize x)"
  have k: "old = vsize x" using True old by (simp add: inl_def vsize_def)
  note L = layoutD [OF l]
  have w: "m \<le> t_offs x" "t_offs x + vsize x \<le> m + length V" using L(4) True by (auto simp: wfv_def)
  have w2: "wfv V m (es1 @ es2)" "\<forall>y \<in> set (es1 @ es2). apart x y" using L(4) by (simp_all add: wfv_split)
  have r: "remove_value s old m lst buf = Inr (P @ tbytes (map f es1 @ f x # map f es2) @ endmark @ (G @ replicate old 0) @ cut (t_offs x - m) old V, m + old, lst)"
    using remove_value_layout [OF L(1) _ s(1,2) L(5) True L(4) L(7)] L(3) s(3) k lst by (simp add: f_def)
  have "lattr (cut (t_offs x - m) (vsize x) V) (m + vsize x) (f y) = lattr V m y" if "y \<in> set (es1 @ es2)" for y
  proof (cases "inl y")
    case i: True
    then show ?thesis using vals_cut(1) [of y x m V] w w2 that True L(5) by (auto simp: lattr_def f_def wfv_def)
  next
    case False
    then show ?thesis by (auto simp: lattr_def f_def inl_def vals_def)
  qed
  then have lm: "lmap (cut (t_offs x - m) (vsize x) V) (m + vsize x) (map f (es1 @ es2)) = lmap V m (es1 @ es2)"
    by (simp add: lmap_def f_def cong: map_cong)
  show ?thesis
    by (rule exI [of _ "map f es1"], rule exI [of _ "f x"], rule exI [of _ "map f es2"],
        rule exI [of _ "G @ replicate old 0"], rule exI [of _ "cut (t_offs x - m) old V"])
      (use lm r wfv_cut [OF L(4) True L(5,7)] w k in \<open>auto simp: f_def cut_def comp_def\<close>)
next
  case False
  note L = layoutD [OF l]
  have x: "ent_ok x" using L(5) by simp
  have b: "buf = (P @ tbytes es1) @ enc x @ (tbytes es2 @ endmark @ G @ V)" "s_here s = length (P @ tbytes es1)" using L(1) s(2) by auto
  have o: "old = 0" using False old by (auto simp: inl_def EXT4_XATTR_SIZE_def)
  have "remove_value s old m lst buf = Inr (buf, m, lst)"
    using False by (auto simp: remove_value_def enc_value_size [OF b x] enc_value_inum [OF b x] inl_def)
  note rm = this [unfolded o]
  show ?thesis unfolding o
    by (rule exI [of _ es1], rule exI [of _ x], rule exI [of _ es2], rule exI [of _ G], rule exI [of _ V])
      (use L rm in \<open>simp add: wfv_split\<close>)
qed

text \<open>The table with an entry of the name that has no value yet.\<close>

definition cleared :: "u8 list \<Rightarrow> nat \<Rightarrow> u8 list \<Rightarrow> nat \<Rightarrow> nat \<times> u8 list \<Rightarrow> nat \<Rightarrow> nat \<Rightarrow> (nat \<times> u8 list) list \<Rightarrow> (nat \<times> u8 list \<Rightarrow> attr option) \<Rightarrow> bool" where
  "cleared buf base P here key room m ks f = (\<exists>ys1 z ys2 G V. layout buf base P (ys1 @ z # ys2) G V m
     \<and> here = length P + length (tbytes ys1) \<and> tkey z = key \<and> map tkey (ys1 @ z # ys2) = ks \<and> t_inum z = 0 \<and> t_size z = 0 \<and> t_offs z = 0
     \<and> room \<le> length G \<and> lmap V m (ys1 @ ys2) = f(key := None))"

lemma distinct_mid: "distinct (map tkey (es1 @ x # es2)) \<longleftrightarrow> distinct (map tkey (es1 @ es2)) \<and> tkey x \<notin> tkey ` set (es1 @ es2)"
  by auto

lemma clear_found:
  assumes l: "layout buf base P (es1 @ x # es2) G V m"
    and s: "s_first s = length P" "s_here s = length P + length (tbytes es1)" "s_base s = base"
    and old: "old = (if t_inum x = 0 then EXT4_XATTR_SIZE (t_size x) else 0)"
    and lst: "lst = length P + length (tbytes (es1 @ x # es2))" and room: "room \<le> length G + old"
  shows "\<exists>buf1 buf2. remove_value s old m lst buf = Inr (buf1, m + old, lst) \<and> reset_value (s_here s) buf1 = Inr buf2
    \<and> cleared buf2 base P (s_here s) (tkey x) room (m + old) (map tkey (es1 @ x # es2)) (lmap V m (es1 @ x # es2))"
proof -
  note L = layoutD [OF l]
  obtain ys1 y ys2 G' V' where r: "remove_value s old m lst buf = Inr (P @ tbytes (ys1 @ y # ys2) @ endmark @ G' @ V', m + old, lst)"
    and k: "map tkey ys1 = map tkey es1" "tkey y = tkey x" "map tkey ys2 = map tkey es2"
    and t: "length (tbytes ys1) = length (tbytes es1)" "length (enc y) = length (enc x)" "length (tbytes ys2) = length (tbytes es2)"
    and ok: "\<forall>z \<in> set (ys1 @ y # ys2). ent_ok z" and w: "wfv V' (m + old) (ys1 @ ys2)"
    and lm: "lmap V' (m + old) (ys1 @ ys2) = lmap V m (es1 @ es2)" and g: "length G' = length G + old" "old + length V' = length V"
    using remove_value_step [OF l s old lst] by blast
  define z where "z = y\<lparr>t_inum := 0, t_offs := 0, t_size := 0\<rparr>"
  have z: "tkey z = tkey x" "length (enc z) = length (enc y)" "ent_ok z" "\<not> inl z" using k(2) ok
    by (simp_all add: z_def tkey_def enc_def ent_ok_def inl_def)
  define buf2 where "buf2 = P @ tbytes (ys1 @ z # ys2) @ endmark @ G' @ V'"
  have 2: "reset_value (s_here s) (P @ tbytes (ys1 @ y # ys2) @ endmark @ G' @ V') = Inr buf2"
    using reset_value_layout [of _ "P @ tbytes ys1" y "tbytes ys2 @ endmark @ G' @ V'" "s_here s"] s(2) t(1) by (simp add: buf2_def z_def)
  have lay: "layout buf2 base P (ys1 @ z # ys2) G' V' (m + old)"
    unfolding layout_def buf2_def using L k t ok w g z by (auto simp: wfv_split apart_def)
  have del: "lmap V m (es1 @ es2) = (lmap V m (es1 @ x # es2))(tkey x := None)" using L(6) by (intro lmap_mid(2)) auto
  have "cleared buf2 base P (s_here s) (tkey x) room (m + old) (map tkey (es1 @ x # es2)) (lmap V m (es1 @ x # es2))"
    unfolding cleared_def
    by (rule exI [of _ ys1], rule exI [of _ z], rule exI [of _ ys2], rule exI [of _ G'], rule exI [of _ V'])
      (use lay del s(2) t(1) z(1) k room g(1) lm in \<open>simp add: z_def\<close>)
  then show ?thesis using r 2 by blast
qed

lemma clear_new:
  assumes l: "layout buf base P (es1 @ es2) G V m" and here: "here = length P + length (tbytes es1)"
    and i: "info_ok i" and key: "(i_name_index i, name_bytes (i_name i)) \<notin> tkey ` set (es1 @ es2)"
    and lst: "lst = length P + length (tbytes (es1 @ es2))" and room: "EXT4_XATTR_LEN (length (i_name i)) + room \<le> length G"
  shows "\<exists>buf2. insert_name i here lst buf = Inr buf2
    \<and> cleared buf2 base P here (i_name_index i, name_bytes (i_name i)) room m (map tkey es1 @ (i_name_index i, name_bytes (i_name i)) # map tkey es2) (lmap V m (es1 @ es2))"
proof -
  note L = layoutD [OF l]
  define n where "n = EXT4_XATTR_LEN (length (i_name i))"
  define z where "z = fresh (i_name_index i) (name_bytes (i_name i))"
  have z: "ent_ok z" "tkey z = (i_name_index i, name_bytes (i_name i))" "\<not> inl z" "length (enc z) = n"
    using i EXT4_XATTR_LEN_pos(2) [of "length (i_name i)"]
    by (simp_all add: z_def fresh_def ent_ok_def info_ok_def tkey_def inl_def enc_def n_def)
  define G' where "G' = drop n G"
  have g: "G = take n G @ G'" "length (take n G) = n" "n + length G' = length G" using room by (simp_all add: G'_def n_def)
  define buf2 where "buf2 = P @ tbytes (es1 @ z # es2) @ endmark @ G' @ V"
  have "buf = (P @ tbytes es1) @ tbytes es2 @ endmark @ take n G @ G' @ V" using L(1) g(1) by (metis append_assoc tbytes_simps(3))
  then have ins: "insert_name i here lst buf = Inr buf2"
    using insert_name_layout [of buf "P @ tbytes es1" "tbytes es2" "take n G" "G' @ V" i here lst] g(2) here lst
    by (simp add: buf2_def z_def n_def)
  have lay: "layout buf2 base P (es1 @ z # es2) G' V m"
    unfolding layout_def buf2_def using L g z key by (auto simp: wfv_split apart_def)
  have gr: "room \<le> length G'" using room g(3) by (simp add: n_def)
  have none: "lmap V m (es1 @ es2) = (lmap V m (es1 @ es2))(tkey z := None)"
    using key z(2) by (auto simp: lmap_def fun_eq_iff map_of_eq_None_iff image_image)
  have "cleared buf2 base P here (i_name_index i, name_bytes (i_name i)) room m (map tkey es1 @ (i_name_index i, name_bytes (i_name i)) # map tkey es2) (lmap V m (es1 @ es2))" unfolding cleared_def
    by (rule exI [of _ es1], rule exI [of _ z], rule exI [of _ es2], rule exI [of _ G'], rule exI [of _ V])
      (use lay gr none here z(2) in \<open>simp add: z_def fresh_def\<close>)
  then show ?thesis using ins by blast
qed

definition new_attr :: "ext4_xattr_info \<Rightarrow> nat option \<Rightarrow> attr" where
  "new_attr i ino = (if i_in_inode i then InInode (the ino) (i_value_len i) else InTable (value_bytes i))"

lemma layout_swap:
  assumes "layout buf base P (es1 @ x # es2) G V m" "tkey y = tkey x" "ent_ok y" "length (enc y) = length (enc x)" "\<not> inl y"
    "length P' = length P"
  shows "layout (P' @ tbytes (es1 @ y # es2) @ endmark @ G @ V) base P' (es1 @ y # es2) G V m"
  using layoutD [OF assms(1)] assms(2-) by (auto simp: layout_def wfv_split apart_def)

text \<open>Putting a value in front of the others.\<close>

lemma layout_push:
  assumes l: "layout buf base P (es1 @ x # es2) (G @ D) V m" and x: "\<not> inl x"
    and y: "tkey y = tkey x" "ent_ok y" "length (enc y) = length (enc x)" "t_offs y + length D = m" "length D = vsize y" "length U = length D"
  shows "layout (P @ tbytes (es1 @ y # es2) @ endmark @ G @ U @ V) base P (es1 @ y # es2) G (U @ V) (m - length D)"
    "lmap (U @ V) (m - length D) (es1 @ es2) = lmap V m (es1 @ es2)"
proof -
  note L = layoutD [OF l]
  have w: "\<forall>z \<in> set (es1 @ es2). inl z \<longrightarrow> m \<le> t_offs z \<and> t_offs z + vsize z \<le> m + length V" "sorted_wrt apart (es1 @ es2)"
    using L(4) unfolding wfv_split by (auto simp: wfv_def)
  have "wfv (U @ V) (m - length D) (es1 @ es2)" using w y by (fastforce simp: wfv_def)
  then have "wfv (U @ V) (m - length D) (es1 @ y # es2)" using w(1) y by (auto simp: wfv_split apart_def)
  then show "layout (P @ tbytes (es1 @ y # es2) @ endmark @ G @ U @ V) base P (es1 @ y # es2) G (U @ V) (m - length D)"
    using L y by (auto simp: layout_def)
  have "lattr (U @ V) (m - length D) z = lattr V m z" if "z \<in> set (es1 @ es2)" for z
  proof (cases "inl z")
    case True
    then have "m \<le> t_offs z" using w that by blast
    then have "t_offs z - (m - length D) = length U + (t_offs z - m)" using y by linarith
    then show ?thesis by (simp add: lattr_def vals_def)
  qed (auto simp: lattr_def vals_def inl_def)
  then show "lmap (U @ V) (m - length D) (es1 @ es2) = lmap V m (es1 @ es2)" by (simp add: lmap_def cong: map_cong)
qed

lemma insert_value_step:
  assumes c: "cleared buf base P here key ns m ks f" and i: "info_ok i" "i_value i \<noteq> None"
    and ns: "ns = (if i_in_inode i then 0 else padded_size (i_value_len i))"
    and ino: "i_in_inode i \<longrightarrow> (\<exists>n. ino = Some n \<and> 0 < n \<and> n < 2 ^ 32)"
  shows "\<exists>buf' es1 y es2 G V m'. insert_value i base here m ns ino buf = Inr buf' \<and> layout buf' base P (es1 @ y # es2) G V m'
    \<and> here = length P + length (tbytes es1) \<and> tkey y = key \<and> lmap V m' (es1 @ y # es2) = f(key \<mapsto> new_attr i ino)
    \<and> t_offs y + ns \<le> m' + length V \<and> length buf' = length buf \<and> map tkey (es1 @ y # es2) = ks"
proof -
  obtain es1 x es2 G V where l: "layout buf base P (es1 @ x # es2) G V m" and h: "here = length P + length (tbytes es1)"
    and x: "tkey x = key" "t_inum x = 0" "t_size x = 0" "t_offs x = 0" and room: "ns \<le> length G" and lm: "lmap V m (es1 @ es2) = f(key := None)"
    and ks: "map tkey es1 @ key # map tkey es2 = ks"
    using c unfolding cleared_def by auto
  note L = layoutD [OF l]
  have nk: "key \<notin> tkey ` set (es1 @ es2)" using L(6) x(1) by auto
  have ok: "ent_ok x" using L(5) by simp
  have len: "i_value_len i \<le> EXT4_XATTR_SIZE_MAX" using i(1) by (simp add: info_ok_def)
  have b: "buf = (P @ tbytes es1) @ enc x @ (tbytes es2 @ endmark @ G @ V)" "here = length (P @ tbytes es1)" using L(1) h by auto
  have upd: "lmap W k (es1 @ y # es2) = f(key \<mapsto> lattr W k y)" if "tkey y = key" "lmap W k (es1 @ es2) = f(key := None)" for W k y
    using lmap_mid(1) [of y es1 es2 W k] that nk by simp
  show ?thesis
  proof (cases "i_in_inode i \<or> i_value_len i = 0")
    case True
    define y where "y = (if i_in_inode i then x\<lparr>t_inum := the ino, t_size := i_value_len i\<rparr> else x\<lparr>t_size := 0\<rparr>)"
    have y: "tkey y = key" "ent_ok y" "length (enc y) = length (enc x)" "\<not> inl y" "t_offs y = 0" using x ok len ino
      by (auto simp: y_def tkey_def enc_def ent_ok_def inl_def)
    have "ns = 0" using True ns padded_size_bounds(4) [OF len] by auto
    have ins: "insert_value i base here m ns ino buf = Inr (P @ tbytes (es1 @ y # es2) @ endmark @ G @ V)"
      using True ino insert_inode_layout [of i, OF _ b] insert_empty_layout [of i, OF _ _ b] by (auto simp: y_def)
    have "lattr V m y = new_attr i ino" using True ino x i length_value_bytes [OF i]
      by (auto simp: lattr_def y_def new_attr_def vals_def)
    then show ?thesis using ins layout_swap [OF l, of y P] upd [OF y(1) lm] y \<open>ns = 0\<close> h x(1) L(1) ks
      by (intro exI conjI) auto
  next
    case False
    define D where "D = drop (length G - ns) G"
    define G1 where "G1 = take (length G - ns) G"
    have g: "G = G1 @ D" "length D = ns" "ns = padded_size (i_value_len i)" using room False ns by (simp_all add: G1_def D_def)
    have ns0: "0 < ns" using False padded_size_bounds(4) [OF len] g(3) by auto
    have nm: "ns \<le> m" using L(2,3) room by linarith
    define y where "y = x\<lparr>t_offs := m - ns, t_size := i_value_len i\<rparr>"
    have y: "tkey y = key" "ent_ok y" "length (enc y) = length (enc x)" "t_offs y + length D = m" "length D = vsize y"
      using x ok len nm ns0 L(7) g(2,3) padded_size_bounds(3) [OF len] False by (auto simp: y_def tkey_def enc_def ent_ok_def vsize_def)
    have b': "buf = (P @ tbytes es1) @ enc x @ (tbytes es2 @ endmark @ G1) @ D @ V" using b(1) g(1) by simp
    have ins: "insert_value i base here m ns ino buf = Inr (P @ tbytes (es1 @ y # es2) @ endmark @ G1 @ padded i @ V)"
      using insert_value_layout [OF i _ _ b' b(2), of base m ino] False g nm L(3,7) by (simp add: y_def)
    have pl: "length (padded i) = length D" using length_padded [OF i] g by simp
    have nx: "\<not> inl x" using x by (simp add: inl_def)
    note push = layout_push [OF l [unfolded g(1)] nx _ y(2,3,4,5) pl]
    have "lattr (padded i @ V) (m - ns) y = new_attr i ino" using x False length_value_bytes [OF i]
      by (simp add: lattr_def y_def new_attr_def vals_def padded_def)
    then have lm': "lmap (padded i @ V) (m - ns) (es1 @ y # es2) = f(key \<mapsto> new_attr i ino)"
      using upd [OF y(1), of "padded i @ V" "m - ns"] push(2) y(1) x(1) lm g(2) by simp
    have "layout (P @ tbytes (es1 @ y # es2) @ endmark @ G1 @ padded i @ V) base P (es1 @ y # es2) G1 (padded i @ V) (m - ns)"
      using push(1) y(1) x(1) g(2) by simp
    moreover have "t_offs y + ns \<le> m - ns + length (padded i @ V)" using pl g(2) nm by (simp add: y_def)
    moreover have "length (P @ tbytes (es1 @ y # es2) @ endmark @ G1 @ padded i @ V) = length buf" using L(1) g(1) y(3) pl by simp
    moreover have "map tkey (es1 @ y # es2) = ks" using ks y(1) by simp
    ultimately show ?thesis using ins h y(1) lm' by blast
  qed
qed

subsection \<open>The search and the space\<close>

definition ikey :: "ext4_xattr_info \<Rightarrow> nat \<times> u8 list" where
  "ikey i = (i_name_index i, name_bytes (i_name i))"

text \<open>What a search leaves: the entry of the name, or where one may be put.\<close>

definition search_ok :: "u8 list \<Rightarrow> nat \<Rightarrow> nat \<Rightarrow> xent list \<Rightarrow> ext4_xattr_info \<Rightarrow> ext4_xattr_search \<Rightarrow> bool" where
  "search_ok buf base first es i s = (s_first s = first \<and> s_base s = base \<and> s_end s = length buf \<and>
     (if s_not_found s = 0 then \<exists>es1 x es2. es = es1 @ x # es2 \<and> tkey x = ikey i \<and> s_here s = first + length (tbytes es1)
      else ikey i \<notin> tkey ` set es \<and> (\<exists>es1 es2. es = es1 @ es2 \<and> s_here s = first + length (tbytes es1))))"

lemma space_room:
  assumes l: "layout buf (s_base s) P es G V m" and lst: "lst = length P + length (tbytes es)" and v: "i_value i \<noteq> None"
    and i: "length (i_name i) < 256" and sp: "check_space se i s is_block old ns m lst = 0" and o: "old \<le> 2 ^ 32" "ns \<le> 2 ^ 32"
  shows "if s_not_found s = 0 then ns \<le> length G + old else EXT4_XATTR_LEN (length (i_name i)) + ns \<le> length G"
proof -
  note L = layoutD [OF l]
  define n where "n = EXT4_XATTR_LEN (length (i_name i))"
  have n: "n \<le> 300" using i by (simp add: n_def EXT4_XATTR_LEN_def)
  have g: "length G \<le> 65536" using L(3,2,7) by linarith
  have "int m - (int lst - int (s_base s)) - 4 = int (length G)" using L(3) lst by linarith
  then have f: "(int m - (int lst - int (s_base s)) - 4) mod 2 ^ 64 = int (length G)" using g by simp
  have t: "(int n + int ns) mod 2 ^ 64 = int n + int ns" "(int (length G) + int n + int old) mod 2 ^ 64 = int (length G) + int n + int old"
    using n g o by simp_all
  have "\<not> (if s_not_found s = 0 then int (length G) + int n + int old else int (length G)) < int n + int ns"
  proof
    assume "(if s_not_found s = 0 then int (length G) + int n + int old else int (length G)) < int n + int ns"
    then have "check_space se i s is_block old ns m lst = - ENOSPC"
      using v unfolding check_space_def n_def [symmetric] f Let_def by (simp only: t if_cancel split: if_splits) simp_all
    then show False using sp by (simp add: ENOSPC_def)
  qed
  then show ?thesis unfolding n_def [symmetric] by (simp split: if_splits)
qed

lemma check_space_plain:
  assumes l: "layout buf (s_base s) P es G V m" and lst: "lst = length P + length (tbytes es)" and v: "i_value i \<noteq> None"
    and i: "length (i_name i) < 256" and o: "old \<le> 2 ^ 32" "ns \<le> 2 ^ 32" and ib: "\<not> (is_block \<and> has_feature_ea_inode se)"
  shows "check_space se i s is_block old ns m lst =
    (if (if s_not_found s = 0 then ns \<le> length G + old else EXT4_XATTR_LEN (length (i_name i)) + ns \<le> length G) then 0 else - ENOSPC)"
proof -
  note L = layoutD [OF l]
  define n where "n = EXT4_XATTR_LEN (length (i_name i))"
  have n: "n \<le> 300" using i by (simp add: n_def EXT4_XATTR_LEN_def)
  have g: "length G \<le> 65536" using L(3,2,7) by linarith
  have "int m - (int lst - int (s_base s)) - 4 = int (length G)" using L(3) lst by linarith
  then have f: "(int m - (int lst - int (s_base s)) - 4) mod 2 ^ 64 = int (length G)" using g by simp
  have t: "(int n + int ns) mod 2 ^ 64 = int n + int ns" "(int (length G) + int n + int old) mod 2 ^ 64 = int (length G) + int n + int old"
    using n g o by simp_all
  show ?thesis using v ib unfolding check_space_def n_def [symmetric] f Let_def t by auto
qed

lemma free_space_loop_table:
  "buf = P @ tbytes es @ endmark @ R \<Longrightarrow> (\<forall>x \<in> set es. ent_ok x) \<Longrightarrow>
   free_space_loop buf (length P) m t = Inr (length P + length (tbytes es), foldl min_step m es, t + length (tbytes es))"
proof (induction es arbitrary: P m t)
  case Nil
  then show ?case by (subst free_space_loop.simps) (simp add: endmark_last [of _ P R])
next
  case (Cons x es)
  have x: "ent_ok x" using Cons.prems(2) by simp
  have b: "buf = P @ enc x @ (tbytes es @ endmark @ R)" using Cons.prems(1) by simp
  note r = enc_not_last [OF b refl x] enc_next [OF b refl x] enc_value_inum [OF b refl x] enc_value_size [OF b refl x]
    enc_value_offs [OF b refl x] enc_name_len [OF b refl x]
  have "free_space_loop buf (length P) m t = free_space_loop buf (length P + length (enc x)) (min_step m x) (t + length (enc x))"
    by (subst free_space_loop.simps) (simp add: r min_step_def inl_def length_enc [OF x])
  then show ?case using Cons.IH [of "P @ enc x" "min_step m x" "t + length (enc x)"] b Cons.prems(2) by (simp add: add.assoc)
qed

lemma free_space_layout:
  assumes l: "layout buf base P es G V m" and m: "m = foldl min_step (length buf - base) es"
  shows "ext4_xattr_free_space buf (length P) (length buf - base) base 0 = Inr (length G, m, length (tbytes es))"
proof -
  note L = layoutD [OF l]
  have "int m - (int (length P + length (tbytes es)) - int base) - 4 = int (length G)" "length G \<le> 65536" using L(2,3,7) by linarith+
  then have "nat ((int m - (int (length P + length (tbytes es)) - int base) - 4) mod 2 ^ 64) = length G" by simp
  then show ?thesis using free_space_loop_table [OF L(1,5), of "length buf - base" 0] m by (simp add: ext4_xattr_free_space_def)
qed

subsection \<open>Overwriting a value of the same size\<close>

lemma vals_patch:
  assumes "apart x y" "inl x" "inl y" "ent_ok y" "m \<le> t_offs x" "m \<le> t_offs y" "length U = vsize x" "t_offs x + vsize x \<le> m + length V"
    "t_offs y + vsize y \<le> m + length V"
  shows "vals (take (t_offs x - m) V @ U @ drop (t_offs x - m + vsize x) V) m y = vals V m y"
proof -
  define a where "a = t_offs x - m"
  define b where "b = t_offs y - m"
  have sz: "t_size y \<le> vsize y" using vsize_bounds(1) [OF assms(4)] .
  consider "b + vsize y \<le> a" | "a + vsize x \<le> b" using assms(1-3,5,6) by (auto simp: apart_def a_def b_def)
  then show ?thesis
  proof cases
    case 1
    have al: "a \<le> length V" using assms by (simp add: a_def)
    have "take (t_size y) (drop b (take a V)) = take (t_size y) (drop b V)" using 1 sz by (simp add: drop_take min_absorb1)
    then show ?thesis using 1 sz al by (simp add: vals_def a_def [symmetric] b_def [symmetric])
  next
    case 2
    have al: "length (take a V) = a" using assms by (simp add: a_def)
    have "drop b (take a V @ U @ drop (a + vsize x) V) = drop b V" using 2 al assms(7) by (simp add: add.commute)
    then show ?thesis by (simp add: vals_def a_def [symmetric] b_def [symmetric])
  qed
qed

lemma overwrite_step:
  assumes l: "layout buf base P (es1 @ x # es2) G V m" and x: "inl x" and k: "tkey x = key" and here: "here = length P + length (tbytes es1)"
    and i: "info_ok i" "i_value i \<noteq> None" "\<not> i_in_inode i" and ns: "padded_size (i_value_len i) = vsize x"
  shows "\<exists>buf1 buf' y V'. e_value_offs buf here = Inr (t_offs x) \<and> set_e_value_size buf here (i_value_len i) = Inr buf1
    \<and> put_value i (base + t_offs x) (vsize x) buf1 = Inr buf' \<and> layout buf' base P (es1 @ y # es2) G V' m \<and> tkey y = key
    \<and> lmap V' m (es1 @ y # es2) = (lmap V m (es1 @ x # es2))(key \<mapsto> new_attr i None) \<and> t_offs y + vsize x \<le> m + length V'
    \<and> length buf' = length buf"
proof -
  note L = layoutD [OF l]
  have nk: "tkey x \<notin> tkey ` set (es1 @ es2)" using L(6) by auto
  have ok: "ent_ok x" "\<forall>z \<in> set (es1 @ es2). ent_ok z" using L(5) by auto
  have len: "i_value_len i \<le> EXT4_XATTR_SIZE_MAX" using i(1) by (simp add: info_ok_def)
  have w: "m \<le> t_offs x" "t_offs x + vsize x \<le> m + length V" "wfv V m (es1 @ es2)" "\<forall>z \<in> set (es1 @ es2). apart x z"
    using L(4) x by (auto simp: wfv_split)
  have b: "buf = (P @ tbytes es1) @ enc x @ (tbytes es2 @ endmark @ G @ V)" "here = length (P @ tbytes es1)" using L(1) here by auto
  define y where "y = x\<lparr>t_size := i_value_len i\<rparr>"
  define a where "a = t_offs x - m"
  define D where "D = take (vsize x) (drop a V)"
  define V' where "V' = take a V @ padded i @ drop (a + vsize x) V"
  have len0: "i_value_len i \<noteq> 0" using ns padded_size_bounds(4) [OF len] vsize_bounds(2) [OF ok(1) x] by auto
  have y: "tkey y = key" "ent_ok y" "length (enc y) = length (enc x)" "inl y" "vsize y = vsize x" "t_offs y = t_offs x"
    using k ok(1) len len0 x ns padded_size_bounds(3) [OF len] by (simp_all add: y_def tkey_def ent_ok_def enc_def inl_def vsize_def)
  have v: "V = take a V @ D @ drop (a + vsize x) V"
    using append_take_drop_id [of "vsize x" "drop a V"] by (simp add: D_def add.commute)
  have al: "length (take a V) = a" "length D = vsize x" "length (padded i) = vsize x" using w length_padded [OF i(1,2)] ns by (simp_all add: a_def D_def)
  define buf1 where "buf1 = P @ tbytes (es1 @ y # es2) @ endmark @ G @ V"
  have 1: "set_e_value_size buf here (i_value_len i) = Inr buf1" using put_size [OF b] by (simp add: buf1_def y_def)
  have "buf1 = (P @ tbytes (es1 @ y # es2) @ endmark @ G @ take a V) @ D @ drop (a + vsize x) V" unfolding buf1_def by (subst v) simp
  then have 2: "put_value i (base + t_offs x) (vsize x) buf1 = Inr ((P @ tbytes (es1 @ y # es2) @ endmark @ G @ take a V) @ padded i @ drop (a + vsize x) V)"
    unfolding ns [symmetric] by (rule put_value_layout [OF i(1,2)]) (use al w(1) L(3) y(3) ns in \<open>simp_all add: a_def\<close>)
  have lv: "length V' = length V" using al w by (simp add: V'_def a_def)
  define buf' where "buf' = P @ tbytes (es1 @ y # es2) @ endmark @ G @ V'"
  have 3: "put_value i (base + t_offs x) (vsize x) buf1 = Inr buf'" using 2 by (simp add: buf'_def V'_def)
  have 4: "layout buf' base P (es1 @ y # es2) G V' m"
    using L w x y lv k by (auto simp: buf'_def layout_def wfv_split apart_def) (auto simp: wfv_def)
  have "lattr V' m z = lattr V m z" if "z \<in> set (es1 @ es2)" for z
  proof (cases "inl z")
    case True
    then show ?thesis using vals_patch [OF _ x True, of m "padded i" V] that w ok al(3) by (auto simp: lattr_def V'_def a_def wfv_def)
  qed (auto simp: lattr_def vals_def inl_def)
  then have eq: "lmap V' m (es1 @ es2) = lmap V m (es1 @ es2)" by (simp add: lmap_def cong: map_cong)
  have "drop a V' = padded i @ drop (a + vsize x) V" using al(1) by (simp add: V'_def)
  then have "lattr V' m y = new_attr i None" using x i(3) length_value_bytes [OF i(1,2)]
    by (simp add: lattr_def y_def new_attr_def vals_def padded_def inl_def a_def)
  then have 5: "lmap V' m (es1 @ y # es2) = (lmap V m (es1 @ x # es2))(key \<mapsto> new_attr i None)"
    using lmap_mid(1) [OF nk, of V m] lmap_mid(1) [of y es1 es2 V' m] nk k y(1) eq by simp
  have 6: "t_offs y + vsize x \<le> m + length V'" "length buf' = length buf" using y w(2) lv L(1) by (simp_all add: buf'_def)
  show ?thesis using enc_value_offs [OF b ok(1)] 1 3 4 5 6 y(1) by blast
qed

subsection \<open>One call\<close>

lemma hash_step:
  assumes l: "layout buf base P (es1 @ y # es2) G V m" and here: "s_here s = length P + length (tbytes es1)" "s_base s = base"
    and P: "is_block \<longrightarrow> length P = BFIRST" and v: "i_value i \<noteq> None" and eh: "i_in_inode i \<longrightarrow> eh \<noteq> None"
    and o: "t_offs y + ns \<le> m + length V"
  shows "\<exists>buf' P' es'. update_hash i s is_block ns eh buf = Inr buf' \<and> layout buf' base P' es' G V m \<and> length P' = length P
    \<and> hdr_kept is_block P P' \<and> lmap V m es' = lmap V m (es1 @ y # es2) \<and> length buf' = length buf \<and> map tkey es' = map tkey (es1 @ y # es2)"
proof -
  note L = layoutD [OF l]
  have rdv: "is_block \<longrightarrow> \<not> i_in_inode i \<longrightarrow> s_base s + t_offs y + ns \<le> length buf" using L(8) o here(2) by simp
  obtain h P' where u: "update_hash i s is_block ns eh buf = Inr (P' @ tbytes (es1 @ y\<lparr>t_hash := h\<rparr> # es2) @ endmark @ (G @ V))"
    and h: "ent_ok (y\<lparr>t_hash := h\<rparr>)" "length P' = length P" "hdr_kept is_block P P'"
    using update_hash_layout [OF L(1) here(1) L(5) P v eh rdv] by blast
  define z where "z = y\<lparr>t_hash := h\<rparr>"
  have z: "tkey z = tkey y" "inl z = inl y" "vsize z = vsize y" "t_offs z = t_offs y" "length (enc z) = length (enc y)" "ent_ok z"
      "lattr V m z = lattr V m y"
    using h(1) by (simp_all add: z_def tkey_def inl_def vsize_def enc_def lattr_def vals_def)
  have "layout (P' @ tbytes (es1 @ z # es2) @ endmark @ G @ V) base P' (es1 @ z # es2) G V m"
    using L z h(2) by (auto simp: layout_def wfv_split apart_def)
  moreover have "lmap V m (es1 @ z # es2) = lmap V m (es1 @ y # es2)" using z(1,7) by (simp add: lmap_def)
  moreover have "length (P' @ tbytes (es1 @ z # es2) @ endmark @ G @ V) = length buf" using L(1) z(5) h(2) by simp
  ultimately show ?thesis using u h z(1) by (intro exI [of _ "P' @ tbytes (es1 @ z # es2) @ endmark @ G @ V"] exI [of _ P'] exI [of _ "es1 @ z # es2"]) (simp add: z_def)
qed

text \<open>A table after a successful change, with the bytes before it kept where there is no header to update.\<close>

definition changed :: "bool \<Rightarrow> u8 list \<Rightarrow> nat \<Rightarrow> nat \<Rightarrow> (nat \<times> u8 list) list \<Rightarrow> (nat \<times> u8 list \<Rightarrow> attr option) \<Rightarrow> u8 list \<Rightarrow> bool" where
  "changed is_block buf base first ks f buf' = (length buf' = length buf \<and> hdr_kept is_block (take first buf) (take first buf')
     \<and> (\<exists>es'. xtab buf' base first es' \<and> tmap buf' base es' = f \<and> map tkey es' = ks))"

lemma changedI:
  assumes "layout buf' base P' es' G V m" "length P' = first" "hdr_kept is_block (take first buf) P'" "length buf' = length buf" "lmap V m es' = f" "map tkey es' = ks"
  shows "changed is_block buf base first ks f buf'"
  unfolding changed_def
proof (intro conjI)
  have "take first buf' = P'" using layoutD(1) [OF assms(1)] assms(2) by simp
  then show "hdr_kept is_block (take first buf) (take first buf')" using assms(3) by simp
  show "\<exists>es'. xtab buf' base first es' \<and> tmap buf' base es' = f \<and> map tkey es' = ks"
    using assms(1,2,5,6) tmap_layout [OF assms(1)] unfolding xtab_def by (intro exI [of _ es']) auto
qed (rule assms(4))

lemma fill_step:
  assumes c: "cleared buf2 base P (s_here s) key ns m ks f" and i: "info_ok i" "i_value i \<noteq> None" and s: "s_base s = base"
    and ns: "ns = (if i_in_inode i then 0 else padded_size (i_value_len i))"
    and ino: "i_in_inode i \<longrightarrow> (\<exists>n. ino = Some n \<and> 0 < n \<and> n < 2 ^ 32)" "i_in_inode i \<longrightarrow> eh \<noteq> None"
    and P: "is_block \<longrightarrow> length P = BFIRST" and b: "length buf2 = length buf" "P = take first buf" "length P = first"
  shows "\<exists>buf3 buf'. insert_value i base (s_here s) m ns ino buf2 = Inr buf3 \<and> update_hash i s is_block ns eh buf3 = Inr buf'
    \<and> changed is_block buf base first ks (f(key \<mapsto> new_attr i ino)) buf'"
proof -
  obtain buf3 es1 y es2 G V m' where v: "insert_value i base (s_here s) m ns ino buf2 = Inr buf3" "layout buf3 base P (es1 @ y # es2) G V m'"
      "s_here s = length P + length (tbytes es1)" "tkey y = key" "lmap V m' (es1 @ y # es2) = f(key \<mapsto> new_attr i ino)"
      "t_offs y + ns \<le> m' + length V" "length buf3 = length buf2" "map tkey (es1 @ y # es2) = ks"
    using insert_value_step [OF c i ns ino(1)] by blast
  obtain buf' P' es' where h: "update_hash i s is_block ns eh buf3 = Inr buf'" "layout buf' base P' es' G V m'" "length P' = length P"
      "hdr_kept is_block P P'" "lmap V m' es' = lmap V m' (es1 @ y # es2)" "length buf' = length buf3" "map tkey es' = map tkey (es1 @ y # es2)"
    using hash_step [OF v(2,3) s P i(2) ino(2) v(6)] by blast
  have "changed is_block buf base first ks (f(key \<mapsto> new_attr i ino)) buf'" using h v(5,7,8) b by (intro changedI) auto
  then show ?thesis using v(1) h(1) by blast
qed

text \<open>The order of the names: an update keeps it, a new name is put where the search stopped, a removed one leaves a gap.\<close>

definition key_change :: "nat \<Rightarrow> xent list \<Rightarrow> ext4_xattr_info \<Rightarrow> ext4_xattr_search \<Rightarrow> (nat \<times> u8 list) list \<Rightarrow> bool" where
  "key_change first es i s ks =
     (if i_value i = None then \<exists>es1 x es2. es = es1 @ x # es2 \<and> tkey x = ikey i \<and> ks = map tkey (es1 @ es2)
      else if s_not_found s = 0 then ks = map tkey es
      else \<exists>es1 es2. es = es1 @ es2 \<and> s_here s = first + length (tbytes es1) \<and> ks = map tkey es1 @ ikey i # map tkey es2)"

definition made_ok :: "ext4_xattr_info \<Rightarrow> int + nat option \<Rightarrow> bool" where
  "made_ok i made = (case made of Inl err \<Rightarrow> err \<noteq> 0
     | Inr ino \<Rightarrow> if i_in_inode i \<and> i_value i \<noteq> None then \<exists>n. ino = Some n \<and> 0 < n \<and> n < 2 ^ 32 else ino = None)"

lemma make_new_inode_result:
  assumes "ea_sane sv" "info_ok i" "i_in_inode i \<longrightarrow> i_value i \<noteq> Some ZeroValue"
  shows "\<exists>made st'. make_new_inode sv env i st = Inr (made, st') \<and> made_ok i made"
proof (cases "i_value i \<noteq> None \<and> i_in_inode i")
  case True
  then obtain w where w: "i_value i = Some (Value w)" using assms(3) by (cases "i_value i") (auto intro: xattr_value.exhaust)
  have r: "rd w 0 (i_value_len i) = Inr (take (i_value_len i) w)" using assms(2) w by (simp add: info_ok_def rd_def)
  obtain err st3 where a: "ext4_xattr_inode_alloc_quota sv (i_value_len i) st = (err, st3)" by fastforce
  obtain c st4 where c: "ext4_xattr_inode_lookup_create sv (ea_view env st3) (take (i_value_len i) w) st3 = (c, st4)" by fastforce
  show ?thesis using True w r a c lookup_create_result [OF assms(1) c]
    by (cases "err = 0"; cases c) (auto simp: make_new_inode_def made_ok_def)
qed (auto simp: make_new_inode_def made_ok_def)

lemma set_entry_inodes_result:
  assumes sv: "ea_sane sv" "igets_fail st" and here: "s_not_found s = 0 \<longrightarrow> s_here s + 16 \<le> length buf" and i: "info_ok i"
    and v: "i_in_inode i \<longrightarrow> i_value i \<noteq> Some ZeroValue"
  shows "\<exists>made st'. set_entry_inodes sv env inode i s buf st = Inr (made, st') \<and> made_ok i made"
proof -
  obtain inum hash sz where f: "(if s_not_found s = 0 then kbind (e_value_inum buf (s_here s)) (\<lambda>inum. kbind (e_hash buf (s_here s)) (\<lambda>hash.
        kbind (e_value_size buf (s_here s)) (\<lambda>sz. Inr (inum, hash, sz)))) else Inr (0, 0, 0)) = Inr (inum, hash, sz)"
    using entry_fields_ok(4,5,6) [of "s_here s" buf] here by (cases "s_not_found s = 0") auto
  obtain got st1 where g: "take_old_inode env inode inum hash st = (got, st1)" by fastforce
  have ge: "got = Inl err \<Longrightarrow> err \<noteq> 0" for err
    using g ea_iget_result [OF sv(2)] by (fastforce simp: take_old_inode_def split: if_splits prod.splits sum.splits)
  obtain made st2 where m: "make_new_inode sv env i st1 = Inr (made, st2)" "made_ok i made"
    using make_new_inode_result [OF sv(1) i v] by blast
  show ?thesis
  proof (cases got)
    case (Inl err)
    then show ?thesis using f g ge unfolding set_entry_inodes_def by (simp add: made_ok_def)
  next
    case old: (Inr old)
    show ?thesis
    proof (cases made)
      case (Inl err)
      then show ?thesis using f g old m unfolding set_entry_inodes_def by simp
    next
      case (Inr new)
      obtain ret st3 where d: "drop_old_inode sv (i_value_len i) old sz new st2 = (ret, st3)" by fastforce
      have "set_entry_inodes sv env inode i s buf st =
          Inr (if ret \<noteq> 0 then Inl ret else Inr new, iput_opt new (iput_opt old st3))"
        using f g old m Inr d unfolding set_entry_inodes_def by simp
      then show ?thesis using m(2) Inr by (cases "ret = 0") (auto simp: made_ok_def)
    qed
  qed
qed

lemma edit_set:
  assumes l: "layout buf base P es G V m" and s: "search_ok buf base (length P) es i s" and i: "info_ok i" "i_value i \<noteq> None"
    and P: "is_block \<longrightarrow> length P = BFIRST" and lst: "lst = length P + length (tbytes es)"
    and old: "old = (if s_not_found s = 0 then (case e_value_inum buf (s_here s) of Inr 0 \<Rightarrow>
        (case e_value_size buf (s_here s) of Inr sz \<Rightarrow> EXT4_XATTR_SIZE sz | _ \<Rightarrow> 0) | _ \<Rightarrow> 0) else 0)"
    and ns: "ns = (if i_in_inode i then 0 else padded_size (i_value_len i))"
    and room: "if s_not_found s = 0 then ns \<le> length G + old else EXT4_XATTR_LEN (length (i_name i)) + ns \<le> length G"
    and ino: "i_in_inode i \<longrightarrow> (\<exists>n. ino = Some n \<and> 0 < n \<and> n < 2 ^ 32)" "i_in_inode i \<longrightarrow> eh \<noteq> None"
  shows "\<exists>ks buf'. set_entry_edit se i s is_block old ns m lst ino eh buf = Inr (0, buf') \<and> key_change (length P) es i s ks
    \<and> changed is_block buf base (length P) ks ((lmap V m es)(ikey i \<mapsto> new_attr i ino)) buf'"
proof -
  note L = layoutD [OF l]
  have tp: "P = take (length P) buf" using L(1) by simp
  have sb: "s_first s = length P" "s_base s = base" using s by (simp_all add: search_ok_def)
  have "\<exists>ks buf1 buf2 m2. (if s_not_found s = 0 then remove_value s old m lst buf else Inr (buf, m, lst)) = Inr (buf1, m2, lst)
    \<and> (if s_not_found s \<noteq> 0 then insert_name i (s_here s) lst buf1 else reset_value (s_here s) buf1) = Inr buf2
    \<and> cleared buf2 base P (s_here s) (ikey i) ns m2 ks (lmap V m es) \<and> key_change (length P) es i s ks \<and> length buf2 = length buf"
  proof (cases "s_not_found s = 0")
    case True
    then obtain es1 x es2 where e: "es = es1 @ x # es2" "tkey x = ikey i" "s_here s = length P + length (tbytes es1)"
      using s by (auto simp: search_ok_def)
    have x: "ent_ok x" using L(5) e(1) by simp
    have b: "buf = (P @ tbytes es1) @ enc x @ (tbytes es2 @ endmark @ G @ V)" "s_here s = length (P @ tbytes es1)" using L(1) e by auto
    have o: "old = (if t_inum x = 0 then EXT4_XATTR_SIZE (t_size x) else 0)"
      using old True by (simp add: enc_value_inum [OF b x] enc_value_size [OF b x] split: nat.splits)
    obtain buf1 buf2 where c: "remove_value s old m lst buf = Inr (buf1, m + old, lst)" "reset_value (s_here s) buf1 = Inr buf2"
        "cleared buf2 base P (s_here s) (tkey x) ns (m + old) (map tkey es) (lmap V m es)"
      using clear_found [OF l [unfolded e(1)] sb(1) e(3) sb(2) o _, of lst ns] lst room True e(1) by auto
    moreover have "length buf2 = length buf"
      using c(1,2) by (auto simp: remove_value_def reset_value_def memmove_def memset_zero_def set_e_value_inum_def set_e_value_offs_def
          set_e_value_size_def Let_def split: if_splits dest!: length_wr length_adjust)
    moreover have "key_change (length P) es i s (map tkey es)" using True i(2) by (auto simp: key_change_def)
    ultimately show ?thesis using True e(2) by auto
  next
    case False
    then obtain es1 es2 where e: "es = es1 @ es2" "ikey i \<notin> tkey ` set es" "s_here s = length P + length (tbytes es1)"
      using s by (auto simp: search_ok_def)
    obtain buf2 where c: "insert_name i (s_here s) lst buf = Inr buf2" "cleared buf2 base P (s_here s) (ikey i) ns m (map tkey es1 @ ikey i # map tkey es2) (lmap V m es)"
      using clear_new [OF l [unfolded e(1)] e(3) i(1), of lst ns] e lst room False by (auto simp: ikey_def)
    moreover have "length buf2 = length buf"
      using c(1) by (auto simp: insert_name_def memmove_def memset_zero_def set_e_name_index_def set_e_name_len_def Let_def dest!: length_wr)
    moreover have "key_change (length P) es i s (map tkey es1 @ ikey i # map tkey es2)" using False i(2) e unfolding key_change_def by auto
    ultimately show ?thesis using False by auto
  qed
  then obtain ks buf1 buf2 m2 where a: "(if s_not_found s = 0 then remove_value s old m lst buf else Inr (buf, m, lst)) = Inr (buf1, m2, lst)"
      "(if s_not_found s \<noteq> 0 then insert_name i (s_here s) lst buf1 else reset_value (s_here s) buf1) = Inr buf2"
      "cleared buf2 base P (s_here s) (ikey i) ns m2 ks (lmap V m es)" "length buf2 = length buf" and kc: "key_change (length P) es i s ks" by blast
  obtain buf3 buf' where v: "insert_value i base (s_here s) m2 ns ino buf2 = Inr buf3" "update_hash i s is_block ns eh buf3 = Inr buf'"
      "changed is_block buf base (length P) ks ((lmap V m es)(ikey i \<mapsto> new_attr i ino)) buf'"
    using fill_step [OF a(3) i sb(2) ns ino P a(4) tp refl] by blast
  then show ?thesis unfolding set_entry_edit_def using a(1,2) kc i(2) sb(2) by (intro exI [of _ ks] exI [of _ buf']) (simp del: not_None_eq)
qed

lemma edit_remove:
  assumes l: "layout buf base P (es1 @ x # es2) G V m"
    and s: "s_first s = length P" "s_here s = length P + length (tbytes es1)" "s_base s = base" "s_not_found s = 0"
    and i: "i_value i = None" "tkey x = ikey i" and P: "is_block \<longrightarrow> length P = BFIRST"
    and lst: "lst = length P + length (tbytes (es1 @ x # es2))" and old: "old = (if t_inum x = 0 then EXT4_XATTR_SIZE (t_size x) else 0)"
  shows "\<exists>ret buf'. set_entry_edit se i s is_block old 0 m lst ino eh buf = Inr (ret, buf')
    \<and> changed is_block buf base (length P) (map tkey (es1 @ es2)) ((lmap V m (es1 @ x # es2))(ikey i := None)) buf' \<and> (ret \<noteq> 0 \<longrightarrow> has_inline_data se \<and> \<not> is_block)"
proof -
  note L = layoutD [OF l]
  obtain ys1 y ys2 G' V' where r: "remove_value s old m lst buf = Inr (P @ tbytes (ys1 @ y # ys2) @ endmark @ G' @ V', m + old, lst)"
    and k: "map tkey ys1 = map tkey es1" "tkey y = tkey x" "map tkey ys2 = map tkey es2"
    and t: "length (tbytes ys1) = length (tbytes es1)" "length (enc y) = length (enc x)" "length (tbytes ys2) = length (tbytes es2)"
    and ok: "\<forall>z \<in> set (ys1 @ y # ys2). ent_ok z" and w: "wfv V' (m + old) (ys1 @ ys2)"
    and lm: "lmap V' (m + old) (ys1 @ ys2) = lmap V m (es1 @ es2)" and g: "length G' = length G + old" "old + length V' = length V"
    using remove_value_step [OF l s(1-3) old lst] by blast
  define n where "n = length (enc y)"
  define R where "R = replicate n 0 @ G'"
  define buf2 where "buf2 = P @ tbytes (ys1 @ ys2) @ endmark @ R @ V'"
  have "length (i_name i) = length (t_name y)" using k(2) i(2) by (auto simp: tkey_def ikey_def)
  then have "EXT4_XATTR_LEN (length (i_name i)) = length (enc y)" using length_enc ok by simp
  then have rn: "remove_name (length (i_name i)) (s_here s) lst (P @ tbytes (ys1 @ y # ys2) @ endmark @ G' @ V') = Inr buf2"
    using remove_name_layout [of _ "P @ tbytes ys1" y "tbytes ys2" "G' @ V'" "length (i_name i)" "s_here s" lst] s(2) t lst
    by (simp add: buf2_def R_def n_def)
  have d: "distinct (map tkey (ys1 @ ys2))" using L(6) k by auto
  have l2: "layout (P' @ tbytes (ys1 @ ys2) @ endmark @ R @ V') base P' (ys1 @ ys2) R V' (m + old)" if "length P' = length P" for P'
    using L t ok w g d that by (auto simp: layout_def R_def n_def)
  have del: "lmap V m (es1 @ es2) = (lmap V m (es1 @ x # es2))(ikey i := None)" using lmap_mid(2) [of x es1 es2 V m] L(6) i(2) by auto
  have ch: "changed is_block buf base (length P) (map tkey (es1 @ es2)) ((lmap V m (es1 @ x # es2))(ikey i := None)) (P' @ tbytes (ys1 @ ys2) @ endmark @ R @ V')"
    if "length P' = length P" "hdr_kept is_block P P'" for P'
    by (rule changedI [OF l2 [OF that(1)]]) (use that L(1) t k g lm del in \<open>simp_all add: R_def n_def\<close>)
  obtain P' where u: "length P' = length P" "hdr_kept is_block P P'"
      "(if is_block then ext4_xattr_rehash buf2 else Inr buf2) = Inr (P' @ tbytes (ys1 @ ys2) @ endmark @ R @ V')"
    using rehash_layout [of "ys1 @ ys2" P "R @ V'"] ok P by (cases is_block) (auto simp: buf2_def hdr_kept_def)
  define ret where "ret = (if \<not> is_block \<and> has_inline_data se then find_inline_data se buf2 else 0)"
  have "set_entry_edit se i s is_block old 0 m lst ino eh buf =
      (if ret \<noteq> 0 then Inr (ret, buf2) else Inr (0, P' @ tbytes (ys1 @ ys2) @ endmark @ R @ V'))"
    unfolding set_entry_edit_def using r rn i(1) s(4) u(3) by (simp add: ret_def update_hash_def Let_def)
  then show ?thesis using ch [OF u(1,2)] ch [of P] by (cases "ret = 0") (auto simp: buf2_def ret_def split: if_splits)
qed

definition set_outcome :: "set_env \<Rightarrow> bool \<Rightarrow> u8 list \<Rightarrow> nat \<Rightarrow> nat \<Rightarrow> xent list \<Rightarrow> ext4_xattr_search \<Rightarrow> (nat \<times> u8 list \<Rightarrow> attr option) \<Rightarrow> ext4_xattr_info \<Rightarrow> int \<Rightarrow> u8 list \<Rightarrow> bool" where
  "set_outcome se is_block buf base first es s f i ret buf' =
     (if ret = 0 then \<exists>ino ks. key_change first es i s ks \<and> changed is_block buf base first ks (f(ikey i := map_option (\<lambda>_. new_attr i ino) (i_value i))) buf'
      else buf' = buf \<or> has_inline_data se \<and> i_value i = None \<and> (\<exists>ks. key_change first es i s ks \<and> changed is_block buf base first ks (f(ikey i := None)) buf'))"

text \<open>Past the shortcut for values of the same size.\<close>

lemma set_entry_slow:
  assumes l: "layout buf base P es G V m" and m: "m = foldl min_step (length buf - base) es" and s: "search_ok buf base (length P) es i s"
    and i: "info_ok i" "i_value i = None \<longrightarrow> s_not_found s = 0" "i_in_inode i \<longrightarrow> i_value i \<noteq> Some ZeroValue"
    and P: "is_block \<longrightarrow> length P = BFIRST" and sv: "ea_sane sv" "igets_fail st"
    and old: "(if s_not_found s = 0 then kbind (e_value_inum buf (s_here s)) (\<lambda>inum. kbind (e_value_size buf (s_here s)) (\<lambda>sz.
        Inr (if inum = 0 then EXT4_XATTR_SIZE sz else 0))) else Inr 0) = Inr old"
    and ns: "ns = (if i_value i \<noteq> None \<and> \<not> i_in_inode i then padded_size (i_value_len i) else 0)" "\<not> (ns \<noteq> 0 \<and> ns = old)"
  shows "\<exists>ret buf' st'. ext4_xattr_set_entry se sv env inode i s is_block buf st = Inr (ret, buf', st')
    \<and> set_outcome se is_block buf base (length P) es s (lmap V m es) i ret buf'"
proof -
  note L = layoutD [OF l]
  define lst where "lst = length P + length (tbytes es)"
  have sb: "s_first s = length P" "s_base s = base" "s_end s = length buf" using s by (simp_all add: search_ok_def)
  have loop: "min_offs_loop buf (s_end s) (s_end s - s_base s) (s_first s) = Inr (Inr (m, lst))"
    using min_offs_loop_table [OF L(1) L(5), of "length buf - base"] sb m by (simp add: lst_def)
  have nsb: "ns \<le> 2 ^ 32" using padded_size_bounds(5) [of "i_value_len i"] i(1) by (simp add: ns info_ok_def EXT4_XATTR_SIZE_MAX_def)
  have oldb: "old \<le> 2 ^ 32" using old by (auto simp: EXT4_XATTR_SIZE_def split: if_splits)
  have here: "s_not_found s = 0 \<longrightarrow> s_here s + 16 \<le> length buf"
    using s L(1,5) by (auto simp: search_ok_def length_enc EXT4_XATTR_LEN_def)
  define ret where "ret = check_space se i s is_block old ns m lst"
  show ?thesis
  proof (cases "ret = 0")
    case False
    then have "ext4_xattr_set_entry se sv env inode i s is_block buf st = Inr (ret, buf, st)"
      unfolding ext4_xattr_set_entry_def old ns(1) [symmetric] using ns(2) loop by (auto simp: ret_def)
    then show ?thesis using False by (simp add: set_outcome_def)
  next
    case True
    obtain made st' where md: "set_entry_inodes sv env inode i s buf st = Inr (made, st')" "made_ok i made"
      using set_entry_inodes_result [OF sv here i(1,3)] by blast
    have e: "ext4_xattr_set_entry se sv env inode i s is_block buf st = (case made of Inl err \<Rightarrow> Inr (err, buf, st')
        | Inr ino \<Rightarrow> kbind (set_entry_edit se i s is_block old ns m lst ino (map_option (inode_hash_of st') ino) buf) (\<lambda>(ret, buf). Inr (ret, buf, st')))"
      unfolding ext4_xattr_set_entry_def old ns(1) [symmetric] using ns(2) loop True md(1) by (auto simp: ret_def)
    show ?thesis
    proof (cases made)
      case (Inl err)
      then show ?thesis using e md(2) by (simp add: made_ok_def set_outcome_def)
    next
      case ino: (Inr ino)
      show ?thesis
      proof (cases "i_value i")
        case None
        then obtain es1 x es2 where x: "es = es1 @ x # es2" "tkey x = ikey i" "s_here s = length P + length (tbytes es1)" and nf: "s_not_found s = 0"
          using s i(2) by (auto simp: search_ok_def)
        have b: "buf = (P @ tbytes es1) @ enc x @ (tbytes es2 @ endmark @ G @ V)" "s_here s = length (P @ tbytes es1)" using L(1) x by auto
        have ox: "ent_ok x" using L(5) x(1) by simp
        have o: "old = (if t_inum x = 0 then EXT4_XATTR_SIZE (t_size x) else 0)"
          using old nf by (auto simp: enc_value_inum [OF b ox] enc_value_size [OF b ox])
        have n0: "ns = 0" and lx: "lst = length P + length (tbytes (es1 @ x # es2))" using ns(1) None x(1) by (auto simp: lst_def)
        obtain ret buf' where r: "set_entry_edit se i s is_block old 0 m lst ino (map_option (inode_hash_of st') ino) buf = Inr (ret, buf')"
            "changed is_block buf base (length P) (map tkey (es1 @ es2)) ((lmap V m es)(ikey i := None)) buf'" "ret \<noteq> 0 \<longrightarrow> has_inline_data se \<and> \<not> is_block"
          using edit_remove [OF l [unfolded x(1)] sb(1) x(3) sb(2) nf None x(2) P lx o] x(1) by blast
        then have "ext4_xattr_set_entry se sv env inode i s is_block buf st = Inr (ret, buf', st')" using e ino n0 by simp
        moreover have "key_change (length P) es i s (map tkey (es1 @ es2))" using None x unfolding key_change_def by auto
        ultimately show ?thesis using r(2,3) None by (cases "ret = 0") (auto simp: set_outcome_def)
      next
        case (Some v)
        then have v: "i_value i \<noteq> None" by simp
        have o: "old = (if s_not_found s = 0 then (case e_value_inum buf (s_here s) of Inr 0 \<Rightarrow>
            (case e_value_size buf (s_here s) of Inr sz \<Rightarrow> EXT4_XATTR_SIZE sz | _ \<Rightarrow> 0) | _ \<Rightarrow> 0) else 0)"
          using old by (auto split: if_splits nat.splits)
        have n: "ns = (if i_in_inode i then 0 else padded_size (i_value_len i))" using ns(1) v by auto
        have room: "if s_not_found s = 0 then ns \<le> length G + old else EXT4_XATTR_LEN (length (i_name i)) + ns \<le> length G"
          using space_room [OF l [folded sb(2)] lst_def v _ True [unfolded ret_def] oldb nsb] i(1) by (simp add: info_ok_def)
        have nn: "i_in_inode i \<longrightarrow> (\<exists>n. ino = Some n \<and> 0 < n \<and> n < 2 ^ 32)" "i_in_inode i \<longrightarrow> map_option (inode_hash_of st') ino \<noteq> None"
          using md(2) ino v by (auto simp: made_ok_def)
        obtain ks buf' where r: "set_entry_edit se i s is_block old ns m lst ino (map_option (inode_hash_of st') ino) buf = Inr (0, buf')"
            "key_change (length P) es i s ks" "changed is_block buf base (length P) ks ((lmap V m es)(ikey i \<mapsto> new_attr i ino)) buf'"
          using edit_set [OF l s i(1) v P lst_def o n room nn] by blast
        then have "ext4_xattr_set_entry se sv env inode i s is_block buf st = Inr (0, buf', st')" using e ino by simp
        then show ?thesis using r(2,3) Some by (auto simp: set_outcome_def)
      qed
    qed
  qed
qed

lemma set_entry_fast:
  assumes l: "layout buf base P es G V m" and s: "search_ok buf base (length P) es i s" and i: "info_ok i"
    and P: "is_block \<longrightarrow> length P = BFIRST"
    and old: "(if s_not_found s = 0 then kbind (e_value_inum buf (s_here s)) (\<lambda>inum. kbind (e_value_size buf (s_here s)) (\<lambda>sz.
        Inr (if inum = 0 then EXT4_XATTR_SIZE sz else 0))) else Inr 0) = Inr old"
    and ns: "ns = (if i_value i \<noteq> None \<and> \<not> i_in_inode i then padded_size (i_value_len i) else 0)" "ns \<noteq> 0" "ns = old"
  shows "\<exists>buf'. ext4_xattr_set_entry se sv env inode i s is_block buf st = Inr (0, buf', st)
    \<and> set_outcome se is_block buf base (length P) es s (lmap V m es) i 0 buf'"
proof -
  note L = layoutD [OF l]
  have v: "i_value i \<noteq> None" "\<not> i_in_inode i" "ns = padded_size (i_value_len i)" using ns(1,2) by (auto split: if_splits)
  have nf: "s_not_found s = 0" using old ns(2,3) by (auto split: if_splits)
  then obtain es1 x es2 where x: "es = es1 @ x # es2" "tkey x = ikey i" "s_here s = length P + length (tbytes es1)"
    using s by (auto simp: search_ok_def)
  have sb: "s_base s = base" using s by (simp add: search_ok_def)
  have ox: "ent_ok x" using L(5) x(1) by simp
  have b: "buf = (P @ tbytes es1) @ enc x @ (tbytes es2 @ endmark @ G @ V)" "s_here s = length (P @ tbytes es1)" using L(1) x by auto
  have o: "old = (if t_inum x = 0 then vsize x else 0)"
    using old nf by (auto simp: enc_value_inum [OF b ox] enc_value_size [OF b ox] vsize_def)
  then have ix: "inl x" "old = vsize x" using ns(2,3) by (auto simp: inl_def vsize_def EXT4_XATTR_SIZE_def split: if_splits)
  obtain buf1 buf2 y V' where w: "e_value_offs buf (s_here s) = Inr (t_offs x)" "set_e_value_size buf (s_here s) (i_value_len i) = Inr buf1"
      "put_value i (base + t_offs x) (vsize x) buf1 = Inr buf2" "layout buf2 base P (es1 @ y # es2) G V' m" "tkey y = ikey i"
      "lmap V' m (es1 @ y # es2) = (lmap V m (es1 @ x # es2))(ikey i \<mapsto> new_attr i None)" "t_offs y + vsize x \<le> m + length V'"
      "length buf2 = length buf"
    using overwrite_step [OF l [unfolded x(1)] ix(1) x(2,3) i v(1,2)] v(3) ns(3) ix(2) by auto
  obtain buf' P' es' where h: "update_hash i s is_block ns None buf2 = Inr buf'" "layout buf' base P' es' G V' m" "length P' = length P"
      "hdr_kept is_block P P'" "lmap V' m es' = lmap V' m (es1 @ y # es2)" "length buf' = length buf2" "map tkey es' = map tkey (es1 @ y # es2)"
    using hash_step [OF w(4) x(3) sb P v(1), of None ns] v(2) w(7) ns(3) ix(2) by auto
  have "changed is_block buf base (length P) (map tkey es) ((lmap V m es)(ikey i \<mapsto> new_attr i None)) buf'"
    by (rule changedI [OF h(2,3)]) (use h(4-7) w(5,6,8) L(1) x in auto)
  moreover have "key_change (length P) es i s (map tkey es)" using nf v(1) by (auto simp: key_change_def)
  moreover have "ext4_xattr_set_entry se sv env inode i s is_block buf st = Inr (0, buf', st)"
    unfolding ext4_xattr_set_entry_def old ns(1) [symmetric] using ns(2,3) w h(1) sb ix(2) by simp
  ultimately show ?thesis using v(1) by (auto simp: set_outcome_def intro!: exI [of _ None] exI [of _ "map tkey es"])
qed

lemma set_entry_table:
  assumes "xtab buf base first es" "search_ok buf base first es i s" "info_ok i" "is_block \<longrightarrow> first = BFIRST"
    "i_value i = None \<longrightarrow> s_not_found s = 0" "i_in_inode i \<longrightarrow> i_value i \<noteq> Some ZeroValue" "ea_sane sv" "igets_fail st"
  shows "\<exists>ret buf' st'. ext4_xattr_set_entry se sv env inode i s is_block buf st = Inr (ret, buf', st')
    \<and> set_outcome se is_block buf base first es s (tmap buf base es) i ret buf'"
proof -
  obtain P G0 V0 m0 where l0: "layout buf base P es G0 V0 m0" and P: "length P = first" using assms(1) by (auto simp: xtab_def)
  define m where "m = foldl min_step (length buf - base) es"
  obtain G V where l: "layout buf base P es G V m" using layout_exact [OF l0] by (auto simp: m_def)
  note L = layoutD [OF l]
  have "s_not_found s = 0 \<longrightarrow> s_here s + 16 \<le> length buf"
    using assms(2) L(1,5) P by (auto simp: search_ok_def length_enc EXT4_XATTR_LEN_def)
  then obtain old where old: "(if s_not_found s = 0 then kbind (e_value_inum buf (s_here s)) (\<lambda>inum. kbind (e_value_size buf (s_here s)) (\<lambda>sz.
        Inr (if inum = 0 then EXT4_XATTR_SIZE sz else 0))) else Inr 0) = Inr old"
    using entry_fields_ok(4,5) [of "s_here s" buf] by (cases "s_not_found s = 0") auto
  define ns where "ns = (if i_value i \<noteq> None \<and> \<not> i_in_inode i then padded_size (i_value_len i) else 0)"
  have s: "search_ok buf base (length P) es i s" and B: "is_block \<longrightarrow> length P = BFIRST" using assms(2,4) P by auto
  show ?thesis unfolding tmap_layout [OF l] P [symmetric]
    using set_entry_slow [OF l m_def s assms(3,5,6) B assms(7,8) old ns_def] set_entry_fast [OF l s assms(3) B old ns_def] by blast
qed

text \<open>
  For values in an inode body, where nothing is reserved: the call succeeds exactly when the free space and what the
  old entry gives back are enough for the new one.
\<close>

definition needed :: "ext4_xattr_info \<Rightarrow> nat" where
  "needed i = EXT4_XATTR_LEN (length (i_name i)) + padded_size (i_value_len i)"

definition given_back :: "xent list \<Rightarrow> ext4_xattr_info \<Rightarrow> nat" where
  "given_back es i = (case find (\<lambda>x. tkey x = ikey i) es of None \<Rightarrow> 0 | Some x \<Rightarrow> length (enc x) + vsize x)"

lemma find_distinct: "distinct (map tkey (es1 @ x # es2)) \<Longrightarrow> tkey x = k \<Longrightarrow> find (\<lambda>x. tkey x = k) (es1 @ x # es2) = Some x"
  by (induction es1) (auto simp: rev_image_eqI)

text \<open>When no value is in an inode of its own, no inode is taken, and the old entry gives back its room.\<close>

lemma set_entry_old:
  assumes l: "layout buf base P es G V m" and s: "search_ok buf base (length P) es i s" and i: "\<not> i_in_inode i"
    and p: "\<forall>x \<in> set es. t_inum x = 0"
  shows "\<exists>old. (if s_not_found s = 0 then kbind (e_value_inum buf (s_here s)) (\<lambda>inum. kbind (e_value_size buf (s_here s)) (\<lambda>sz.
        Inr (if inum = 0 then EXT4_XATTR_SIZE sz else 0))) else Inr 0) = Inr old \<and> old \<le> 2 ^ 32
    \<and> ((if s_not_found s = 0 then padded_size (i_value_len i) \<le> g + old else EXT4_XATTR_LEN (length (i_name i)) + padded_size (i_value_len i) \<le> g)
       = (needed i \<le> g + given_back es i))
    \<and> set_entry_inodes sv env inode i s buf st = Inr (Inr None, st)"
proof (cases "s_not_found s = 0")
  case True
  note L = layoutD [OF l]
  obtain es1 x es2 where x: "es = es1 @ x # es2" "tkey x = ikey i" "s_here s = length P + length (tbytes es1)"
    using s True by (auto simp: search_ok_def)
  have ox: "ent_ok x" "t_inum x = 0" using L(5) p x(1) by auto
  have b: "buf = (P @ tbytes es1) @ enc x @ (tbytes es2 @ endmark @ G @ V)" "s_here s = length (P @ tbytes es1)" using L(1) x by auto
  note r = enc_value_inum [OF b ox(1)] enc_value_size [OF b ox(1)] enc_hash [OF b ox(1)]
  have "length (enc x) = EXT4_XATTR_LEN (length (i_name i))" using length_enc [OF ox(1)] x(2) by (simp add: ikey_def tkey_def)
  moreover have "find (\<lambda>x. tkey x = ikey i) es = Some x" using find_distinct [of es1 x es2] L(6) x by simp
  ultimately have "given_back es i = EXT4_XATTR_LEN (length (i_name i)) + vsize x" by (simp add: given_back_def)
  moreover have "vsize x \<le> 2 ^ 32" by (simp add: vsize_def EXT4_XATTR_SIZE_def)
  moreover have "set_entry_inodes sv env inode i s buf st = Inr (Inr None, st)" using True ox(2) i
    by (simp add: set_entry_inodes_def r take_old_inode_def make_new_inode_def drop_old_inode_def iput_opt_def)
  ultimately show ?thesis using True ox(2) by (auto simp: r needed_def intro!: exI [of _ "vsize x"]) (simp_all add: vsize_def)
next
  case False
  have "ikey i \<notin> tkey ` set es" using s False by (simp add: search_ok_def)
  then have "find (\<lambda>x. tkey x = ikey i) es = None" by (auto simp: find_None_iff rev_image_eqI)
  then have "given_back es i = 0" by (simp add: given_back_def)
  moreover have "set_entry_inodes sv env inode i s buf st = Inr (Inr None, st)" using False i
    by (simp add: set_entry_inodes_def take_old_inode_def make_new_inode_def drop_old_inode_def iput_opt_def)
  ultimately show ?thesis using False by (simp add: needed_def)
qed

lemma set_entry_exact:
  assumes x: "xtab buf base first es" and s: "search_ok buf base first es i s" and i: "info_ok i" "i_value i \<noteq> None" "\<not> i_in_inode i"
    and p: "\<forall>x \<in> set es. t_inum x = 0" and f: "ext4_xattr_free_space buf first (length buf - base) base 0 = Inr (free, mo, tot)"
    and ib: "is_block \<longrightarrow> first = BFIRST \<and> \<not> has_feature_ea_inode se"
  shows "\<exists>buf'. ext4_xattr_set_entry se sv env inode i s is_block buf st = Inr (if needed i \<le> free + given_back es i then 0 else - ENOSPC, buf', st)"
proof -
  obtain P G0 V0 m0 where l0: "layout buf base P es G0 V0 m0" and P: "length P = first" using x by (auto simp: xtab_def)
  define m where "m = foldl min_step (length buf - base) es"
  obtain G V where l: "layout buf base P es G V m" using layout_exact [OF l0] by (auto simp: m_def)
  note L = layoutD [OF l]
  have fr: "free = length G" using free_space_layout [OF l m_def] f P by simp
  have sp: "search_ok buf base (length P) es i s" using s P by simp
  have sb: "s_first s = length P" "s_base s = base" "s_end s = length buf" using sp by (simp_all add: search_ok_def)
  define ns where "ns = (if i_value i \<noteq> None \<and> \<not> i_in_inode i then padded_size (i_value_len i) else 0)"
  have n': "ns = (if i_in_inode i then 0 else padded_size (i_value_len i))" "ns = padded_size (i_value_len i)" using i by (simp_all add: ns_def)
  have nsb: "ns \<le> 2 ^ 32" using padded_size_bounds(5) [of "i_value_len i"] i(1) n'(2) by (simp add: info_ok_def EXT4_XATTR_SIZE_MAX_def)
  have len: "length (i_name i) < 256" using i(1) by (simp add: info_ok_def)
  obtain old where o: "(if s_not_found s = 0 then kbind (e_value_inum buf (s_here s)) (\<lambda>inum. kbind (e_value_size buf (s_here s)) (\<lambda>sz.
        Inr (if inum = 0 then EXT4_XATTR_SIZE sz else 0))) else Inr 0) = Inr old" "old \<le> 2 ^ 32"
      "(if s_not_found s = 0 then ns \<le> length G + old else EXT4_XATTR_LEN (length (i_name i)) + ns \<le> length G) = (needed i \<le> free + given_back es i)"
    and ino: "set_entry_inodes sv env inode i s buf st = Inr (Inr None, st)"
    using set_entry_old [OF l sp i(3) p, of "length G"] n'(2) fr by blast
  show ?thesis
  proof (cases "ns \<noteq> 0 \<and> ns = old")
    case True
    then have "s_not_found s = 0" using o(1) by (auto split: if_splits)
    then have "needed i \<le> free + given_back es i" using o(3) True by simp
    then show ?thesis using set_entry_fast [OF l sp i(1) _ o(1) ns_def, of is_block se sv env inode st] True ib P by auto
  next
    case False
    define lst where "lst = length P + length (tbytes es)"
    have loop: "min_offs_loop buf (s_end s) (s_end s - s_base s) (s_first s) = Inr (Inr (m, lst))"
      using min_offs_loop_table [OF L(1) L(5), of "length buf - base"] sb m_def by (simp add: lst_def)
    have cs: "check_space se i s is_block old ns m lst = (if needed i \<le> free + given_back es i then 0 else - ENOSPC)"
      using check_space_plain [OF l [folded sb(2)] lst_def i(2) len o(2) nsb, of is_block se] o(3) ib by simp
    show ?thesis
    proof (cases "needed i \<le> free + given_back es i")
      case no: False
      then show ?thesis unfolding ext4_xattr_set_entry_def o(1) ns_def [symmetric] using False loop cs by (auto simp: ENOSPC_def)
    next
      case yes: True
      have oc: "old = (if s_not_found s = 0 then (case e_value_inum buf (s_here s) of Inr 0 \<Rightarrow>
          (case e_value_size buf (s_here s) of Inr sz \<Rightarrow> EXT4_XATTR_SIZE sz | _ \<Rightarrow> 0) | _ \<Rightarrow> 0) else 0)"
        using o(1) by (auto split: if_splits nat.splits)
      obtain buf' where "set_entry_edit se i s is_block old ns m lst None None buf = Inr (0, buf')"
        using edit_set [OF l sp i(1,2) _ lst_def oc n'(1), of is_block None None se] o(3) yes i(3) ib P by auto
      then show ?thesis unfolding ext4_xattr_set_entry_def o(1) ns_def [symmetric] using False loop cs yes ino by auto
    qed
  qed
qed

end
