(* ===== verification/Ext4_Xattr_Set.thy ===== *)
theory Ext4_Xattr_Set
  imports Ext4_Table_Inv
begin

text \<open>
  Setting attributes in the body of an inode (\<^verbatim>\<open>ext4_xattr_ibody_find\<close>, \<^verbatim>\<open>ext4_xattr_ibody_set\<close>,
  \<^verbatim>\<open>ext4_xattr_value_same\<close> of \<^verbatim>\<open>fs/ext4/xattr.c\<close>): the search of a table finds the entry of a name, a table that is
  well formed passes the checks, and so what was set is what is read.
\<close>

subsection \<open>The functions\<close>

definition EXT4_INODE_HAS_XATTR_SPACE :: "ext4_env \<Rightarrow> ext4_inode \<Rightarrow> bool" where
  "EXT4_INODE_HAS_XATTR_SPACE env inode =
     (i_extra_isize inode \<noteq> 0 \<and> EXT4_GOOD_OLD_INODE_SIZE + i_extra_isize inode + 4 + 4 \<le> s_inode_size env)"

text \<open>
  The search starts as not found. Without room for attributes nothing else is set; the result is the error and
  the search.
\<close>

definition ibody_search0 :: ext4_xattr_search where
  "ibody_search0 = \<lparr>s_first = 0, s_base = 0, s_end = 0, s_here = 0, s_not_found = - ENODATA\<rparr>"

definition ext4_xattr_ibody_find ::
    "ext4_env \<Rightarrow> ext4_inode \<Rightarrow> ext4_xattr_info \<Rightarrow> u8 list \<Rightarrow> (int \<times> ext4_xattr_search) kres" where
  "ext4_xattr_ibody_find env inode i raw =
     (if \<not> EXT4_INODE_HAS_XATTR_SPACE env inode then Inr (0, ibody_search0)
      else
        let header = IHDR inode;
            s = \<lparr>s_first = IFIRST header, s_base = IFIRST header, s_end = s_inode_size env, s_here = IFIRST header,
                 s_not_found = - ENODATA\<rparr> in
        if x_state_xattr inode then
          kbind (u_xattr_check_inode raw header (s_end s)) (\<lambda>error.
          if error \<noteq> 0 then Inr (error, s)
          else
            kbind (xattr_find_entry raw (s_here s) (s_end s) (i_name_index i) (Some (i_name i)) False) (\<lambda>(error, here).
            let s = s\<lparr>s_here := here\<rparr> in
            if error \<noteq> 0 \<and> error \<noteq> - ENODATA then Inr (error, s) else Inr (0, s\<lparr>s_not_found := error\<rparr>)))
        else Inr (0, s))"

text \<open>The result is the error, the raw inode, whether it has attributes now, and the inodes of values.\<close>

definition ext4_xattr_ibody_set ::
    "set_env \<Rightarrow> ea_services \<Rightarrow> ext4_env \<Rightarrow> ext4_inode \<Rightarrow> ext4_xattr_info \<Rightarrow> ext4_xattr_search \<Rightarrow> u8 list \<Rightarrow> ea_state \<Rightarrow>
     (int \<times> u8 list \<times> bool \<times> ea_state) kres" where
  "ext4_xattr_ibody_set se sv env inode i s raw st =
     (if \<not> EXT4_INODE_HAS_XATTR_SPACE env inode then Inr (- ENOSPC, raw, x_state_xattr inode, st)
      else
        kbind (ext4_xattr_set_entry se sv env inode i s False raw st) (\<lambda>(error, raw, st).
        if error \<noteq> 0 then Inr (error, raw, x_state_xattr inode, st)
        else
          kbind (IS_LAST_ENTRY raw (s_first s)) (\<lambda>empty.
          kbind (wr raw (IHDR inode) (le_bytes 4 (if empty then 0 else EXT4_XATTR_MAGIC))) (\<lambda>raw.
          Inr (0, raw, \<not> empty, st)))))"

definition ext4_xattr_value_same :: "u8 list \<Rightarrow> ext4_xattr_search \<Rightarrow> ext4_xattr_info \<Rightarrow> bool kres" where
  "ext4_xattr_value_same buf s i =
     kbind (e_value_inum buf (s_here s)) (\<lambda>inum.
     if inum \<noteq> 0 then Inr False
     else
       kbind (e_value_size buf (s_here s)) (\<lambda>sz.
       if sz \<noteq> i_value_len i then Inr False
       else
         kbind (e_value_offs buf (s_here s)) (\<lambda>offs.
         kbind (rd buf (s_base s + offs) (i_value_len i)) (\<lambda>value.
         case i_value i of
           Some (Value v) \<Rightarrow> kbind (rd v 0 (i_value_len i)) (\<lambda>v. Inr (value = v))
         | _ \<Rightarrow> Inl NullDereference))))"

subsection \<open>Searching a well-formed table\<close>

text \<open>The comparison of the search: by index, by the length of the name, by the name.\<close>

definition ecmp :: "nat \<times> u8 list \<Rightarrow> xent \<Rightarrow> int" where
  "ecmp k x = (if fst k \<noteq> t_index x then int (fst k) - int (t_index x)
     else if length (snd k) \<noteq> length (t_name x) then int (length (snd k)) - int (length (t_name x))
     else memcmp_sign (snd k) (t_name x))"

lemma memcmp_sign_0: "length a = length b \<Longrightarrow> memcmp_sign a b = 0 \<longleftrightarrow> a = b"
  by (induction a b rule: memcmp_sign.induct) auto

lemma ecmp_0: "ecmp k x = 0 \<longleftrightarrow> tkey x = k"
  using memcmp_sign_0 [of "snd k" "t_name x"] by (cases k) (auto simp: ecmp_def tkey_def)

lemma entry_cmp_enc:
  assumes "buf = P @ enc x @ R" "e = length P" "ent_ok x"
  shows "entry_cmp buf idx name e = Inr (ecmp (idx, name) x)"
proof -
  have "e_name buf e (length name) = Inr (t_name x)" if "length name = length (t_name x)" using enc_name [OF assms] that by simp
  then show ?thesis by (auto simp: entry_cmp_def ecmp_def enc_name_index [OF assms] enc_name_len [OF assms] Let_def)
qed

definition passes :: "bool \<Rightarrow> nat \<times> u8 list \<Rightarrow> xent \<Rightarrow> bool" where
  "passes srt k x = (\<not> (ecmp k x \<le> 0 \<and> (srt \<or> ecmp k x = 0)))"

lemma find_entry_table:
  "buf = P @ tbytes es @ endmark @ R \<Longrightarrow> (\<forall>x \<in> set es. ent_ok x) \<Longrightarrow> cmp \<noteq> 0 \<Longrightarrow>
   find_entry_loop buf (length buf) idx name srt cmp (length P) =
     Inr (case dropWhile (passes srt (idx, name)) es of [] \<Rightarrow> - ENODATA | x # _ \<Rightarrow> if ecmp (idx, name) x \<noteq> 0 then - ENODATA else 0,
          length P + length (tbytes (takeWhile (passes srt (idx, name)) es)))"
proof (induction es arbitrary: P cmp)
  case Nil
  then show ?case by (subst find_entry_loop.simps) (simp add: endmark_last [of _ P R])
next
  case (Cons x es)
  have x: "ent_ok x" using Cons.prems(2) by simp
  have b: "buf = P @ enc x @ (tbytes es @ endmark @ R)" using Cons.prems(1) by simp
  have "length P + length (enc x) < length buf" using b by simp
  then have step: "find_entry_loop buf (length buf) idx name srt cmp (length P) =
      (if \<not> passes srt (idx, name) x then Inr (if ecmp (idx, name) x \<noteq> 0 then - ENODATA else 0, length P)
       else find_entry_loop buf (length buf) idx name srt (ecmp (idx, name) x) (length P + length (enc x)))"
    by (subst find_entry_loop.simps)
      (simp add: enc_not_last [OF b refl x] enc_next [OF b refl x] entry_cmp_enc [OF b refl x] passes_def)
  show ?case
  proof (cases "passes srt (idx, name) x")
    case True
    then have "ecmp (idx, name) x \<noteq> 0" by (auto simp: passes_def)
    then show ?thesis using step True Cons.IH [of "P @ enc x" "ecmp (idx, name) x"] b Cons.prems(2) by (simp add: add.assoc)
  qed (use step in simp)
qed

lemma find_table:
  assumes l: "layout buf base P es G V m" and f: "first = length P"
  shows "xattr_find_entry buf first (length buf) (i_name_index i) (Some (i_name i)) srt =
    Inr (case dropWhile (passes srt (ikey i)) es of [] \<Rightarrow> - ENODATA | x # _ \<Rightarrow> if ecmp (ikey i) x \<noteq> 0 then - ENODATA else 0,
         first + length (tbytes (takeWhile (passes srt (ikey i)) es)))"
proof -
  note L = layoutD [OF l]
  have k: "(i_name_index i, name_bytes (i_name i)) = ikey i" by (simp add: ikey_def)
  define err where "err = (case dropWhile (passes srt (ikey i)) es of [] \<Rightarrow> - ENODATA | x # _ \<Rightarrow> if ecmp (ikey i) x \<noteq> 0 then - ENODATA else 0)"
  have "err \<noteq> - EFSCORRUPTED" by (auto simp: err_def ENODATA_def EFSCORRUPTED_def split: list.splits)
  then show ?thesis
    using find_entry_table [OF L(1,5), of 1 "i_name_index i" "name_bytes (i_name i)" srt, unfolded k, folded err_def] f
    by (simp add: xattr_find_entry_def flip: err_def)
qed

lemma find_unsorted:
  assumes l: "layout buf base P es G V m" and f: "first = length P"
  shows "\<exists>err here. xattr_find_entry buf first (length buf) (i_name_index i) (Some (i_name i)) False = Inr (err, here)
    \<and> (err = 0 \<or> err = - ENODATA)
    \<and> search_ok buf base first es i \<lparr>s_first = first, s_base = base, s_end = length buf, s_here = here, s_not_found = err\<rparr>"
proof -
  define k where "k = ikey i"
  define es1 where "es1 = takeWhile (passes False k) es"
  define es2 where "es2 = dropWhile (passes False k) es"
  have es: "es = es1 @ es2" by (simp add: es1_def es2_def)
  define err where "err = (case es2 of [] \<Rightarrow> - ENODATA | x # _ \<Rightarrow> if ecmp k x \<noteq> 0 then - ENODATA else 0)"
  have e: "err = 0 \<or> err = - ENODATA" by (auto simp: err_def split: list.splits)
  have "xattr_find_entry buf first (length buf) (i_name_index i) (Some (i_name i)) False = Inr (err, first + length (tbytes es1))"
    unfolding k_def err_def es1_def es2_def by (rule find_table [OF l f])
  moreover have "search_ok buf base first es i \<lparr>s_first = first, s_base = base, s_end = length buf,
      s_here = first + length (tbytes es1), s_not_found = err\<rparr>"
  proof (cases es2)
    case Nil
    then have "\<forall>x \<in> set es. passes False k x" by (simp add: es2_def dropWhile_eq_Nil_conv)
    then have "\<forall>x \<in> set es. tkey x \<noteq> k" by (simp add: passes_def ecmp_0 [symmetric]) auto
    then have "k \<notin> tkey ` set es" by auto
    then show ?thesis using Nil es by (auto simp: search_ok_def err_def ENODATA_def k_def)
  next
    case (Cons x r)
    then have "\<not> passes False k x" by (metis es2_def hd_dropWhile list.sel(1) list.discI)
    then have "ecmp k x = 0" by (auto simp: passes_def)
    then show ?thesis using Cons es ecmp_0 [of k x] by (auto simp: search_ok_def err_def k_def)
  qed
  ultimately show ?thesis using e by blast
qed

subsection \<open>A well-formed table passes the checks\<close>

lemma takeWhile_no_zero: "0 \<notin> set (bs :: u8 list) \<Longrightarrow> takeWhile (\<lambda>b. b \<noteq> 0) bs = bs"
  by (induction bs) auto

lemma check_names_table:
  "buf = P @ tbytes es @ endmark @ R \<Longrightarrow> (\<forall>x \<in> set es. ent_ok x) \<Longrightarrow>
   check_names buf (length buf) (length P) = Inr (Inr (length P + length (tbytes es)))"
proof (induction es arbitrary: P)
  case Nil
  then show ?case by (subst check_names.simps) (simp add: endmark_last [of _ P R])
next
  case (Cons x es)
  have x: "ent_ok x" using Cons.prems(2) by simp
  have b: "buf = P @ enc x @ (tbytes es @ endmark @ R)" using Cons.prems(1) by simp
  have "length P + length (enc x) < length buf" using b by simp
  moreover have "takeWhile (\<lambda>b. b \<noteq> 0) (t_name x) = t_name x" using x by (intro takeWhile_no_zero) (simp add: ent_ok_def)
  then have "length (takeWhile (\<lambda>b. b \<noteq> 0) (t_name x)) = length (t_name x)" by (rule arg_cong)
  ultimately have "check_names buf (length buf) (length P) = check_names buf (length buf) (length P + length (enc x))"
    by (subst check_names.simps) (simp add: enc_not_last [OF b refl x] enc_next [OF b refl x] enc_name_len [OF b refl x] enc_name [OF b refl x])
  then show ?case using Cons.IH [of "P @ enc x"] b Cons.prems(2) by (simp add: add.assoc)
qed

lemma check_values_table:
  "buf = P @ tbytes es @ endmark @ R \<Longrightarrow> (\<forall>x \<in> set es. ent_ok x) \<Longrightarrow>
   (\<forall>x \<in> set es. inl x \<longrightarrow> lst + 4 \<le> base + t_offs x \<and> base + t_offs x + vsize x \<le> length buf) \<Longrightarrow>
   check_values buf (length buf) base lst (length P) = Inr 0"
proof (induction es arbitrary: P)
  case Nil
  then show ?case by (subst check_values.simps) (simp add: endmark_last [of _ P R])
next
  case (Cons x es)
  have x: "ent_ok x" using Cons.prems(2) by simp
  have b: "buf = P @ enc x @ (tbytes es @ endmark @ R)" using Cons.prems(1) by simp
  have sz: "t_size x \<le> vsize x" "\<not> EXT4_XATTR_SIZE_MAX < t_size x" using vsize_bounds(1) [OF x] x by (auto simp: ent_ok_def)
  have in_: "lst + 4 \<le> base + t_offs x" "base + t_offs x + vsize x \<le> length buf" if "t_inum x = 0" "t_size x \<noteq> 0"
    using Cons.prems(3) that by (auto simp: inl_def)
  define bad where "bad = (if t_size x \<noteq> 0 \<and> t_inum x = 0 then
      length buf - base < t_offs x \<or> base + t_offs x < lst + 4 \<or> length buf - (base + t_offs x) < t_size x
      \<or> length buf - (base + t_offs x) < EXT4_XATTR_SIZE (t_size x) else False)"
  have "\<not> bad" using in_ sz(1) by (auto simp: bad_def vsize_def)
  have "check_values buf (length buf) base lst (length P) =
      (if bad then Inr (- EFSCORRUPTED) else check_values buf (length buf) base lst (length P + length (enc x)))"
    by (subst check_values.simps)
      (simp add: enc_not_last [OF b refl x] enc_next [OF b refl x] enc_value_size [OF b refl x] enc_value_inum [OF b refl x]
        enc_value_offs [OF b refl x] sz(2) bad_def Let_def)
  then show ?case using Cons.IH [of "P @ enc x"] b Cons.prems(2,3) \<open>\<not> bad\<close> by (simp add: add.assoc)
qed

lemma check_entries_table:
  assumes l: "layout buf base P es G V m"
  shows "ext4_xattr_check_entries buf (length P) (length buf) base = Inr 0"
proof -
  note L = layoutD [OF l]
  have "\<forall>x \<in> set es. inl x \<longrightarrow> length P + length (tbytes es) + 4 \<le> base + t_offs x \<and> base + t_offs x + vsize x \<le> length buf"
    using L(3,4,8) by (fastforce simp: wfv_def)
  then show ?thesis using check_names_table [OF L(1,5)] check_values_table [OF L(1,5)] by (simp add: ext4_xattr_check_entries_def)
qed

text \<open>Reading the value of the entry that a search found.\<close>

lemma get_value_table:
  assumes l: "layout buf base P (es1 @ x # es2) G V m" and e: "e = length P + length (tbytes es1)" and v: "tattr buf base x = InTable v"
  shows "xattr_get_value env inode buf base (length buf) e buffer =
    (case buffer of None \<Rightarrow> Inr (int (length v), []) | Some n \<Rightarrow> if n < length v then Inr (- ERANGE, []) else Inr (int (length v), v))"
proof -
  note L = layoutD [OF l]
  have x: "ent_ok x" using L(5) by simp
  have b: "buf = (P @ tbytes es1) @ enc x @ (tbytes es2 @ endmark @ G @ V)" "e = length (P @ tbytes es1)" using L(1) e by auto
  have i: "t_inum x = 0" "v = take (t_size x) (drop (base + t_offs x) buf)" using v by (auto simp: tattr_def split: if_splits)
  have in_: "base + t_offs x + t_size x \<le> length buf"
  proof (cases "t_size x = 0")
    case False
    then have "t_offs x + vsize x \<le> m + length V" using L(4) i(1) by (auto simp: wfv_def inl_def)
    then show ?thesis using vsize_bounds(1) [OF x] L(8) by linarith
  qed (use x i(1) L(8) in \<open>simp add: ent_ok_def\<close>)
  then have len: "length v = t_size x" using i(2) by simp
  have "t_size x \<le> EXT4_XATTR_SIZE_MAX" using x by (simp add: ent_ok_def)
  then show ?thesis using len in_ i
    by (simp add: xattr_get_value_def enc_value_size [OF b x] enc_value_inum [OF b x] enc_value_offs [OF b x] rd_def split: option.splits)
qed

subsection \<open>The body of an inode\<close>

text \<open>
  The raw inode of a file with room for attributes: its table is well formed, with the magic number in front when the
  inode is marked to have attributes, and empty otherwise.
\<close>

definition ibody_ok :: "ext4_env \<Rightarrow> ext4_inode \<Rightarrow> xent list \<Rightarrow> bool" where
  "ibody_ok env inode es = (\<exists>raw. raw_inode inode = Inr raw \<and> s_inode_size env = length raw \<and> EXT4_INODE_HAS_XATTR_SPACE env inode
     \<and> xtab raw (IFIRST (IHDR inode)) (IFIRST (IHDR inode)) es
     \<and> (if x_state_xattr inode then rd_le raw (IHDR inode) 4 = Inr EXT4_XATTR_MAGIC else es = []))"

definition ibody_attrs :: "ext4_inode \<Rightarrow> xent list \<Rightarrow> nat \<times> u8 list \<Rightarrow> attr option" where
  "ibody_attrs inode es = (case raw_inode inode of Inl _ \<Rightarrow> Map.empty | Inr raw \<Rightarrow> tmap raw (IFIRST (IHDR inode)) es)"

lemma ibody_layout:
  assumes "ibody_ok env inode es" "raw_inode inode = Inr raw"
  obtains P G V m where "layout raw (IFIRST (IHDR inode)) P es G V m" "IFIRST (IHDR inode) = length P"
  using assms unfolding ibody_ok_def xtab_def by (metis sum.inject(2))

lemma check_inode_table:
  assumes "ibody_ok env inode es" "x_state_xattr inode" "raw_inode inode = Inr raw"
  shows "u_xattr_check_inode raw (IHDR inode) (length raw) = Inr 0"
proof -
  obtain P G V m where l: "layout raw (IFIRST (IHDR inode)) P es G V m" "IFIRST (IHDR inode) = length P"
    by (rule ibody_layout [OF assms(1,3)])
  have "8 \<le> length raw - IHDR inode" "IHDR inode \<le> length raw"
    using assms(1,3) by (auto simp: ibody_ok_def EXT4_INODE_HAS_XATTR_SPACE_def IHDR_def)
  then show ?thesis using assms check_entries_table [OF l(1)] l(2) by (auto simp: u_xattr_check_inode_def ibody_ok_def)
qed

lemma ibody_find_ok:
  assumes "ibody_ok env inode es" "raw_inode inode = Inr raw"
  shows "\<exists>s. ext4_xattr_ibody_find env inode i raw = Inr (0, s) \<and> search_ok raw (IFIRST (IHDR inode)) (IFIRST (IHDR inode)) es i s"
proof -
  obtain P G V m where l: "layout raw (IFIRST (IHDR inode)) P es G V m" "IFIRST (IHDR inode) = length P"
    by (rule ibody_layout [OF assms])
  have n: "s_inode_size env = length raw" "EXT4_INODE_HAS_XATTR_SPACE env inode" using assms by (auto simp: ibody_ok_def)
  show ?thesis
  proof (cases "x_state_xattr inode")
    case True
    then show ?thesis using find_unsorted [OF l, of i] check_inode_table [OF assms(1) True assms(2)] n l(2)
      by (auto simp: ext4_xattr_ibody_find_def Let_def ENODATA_def)
  next
    case False
    then have "es = []" using assms(1) by (auto simp: ibody_ok_def)
    then show ?thesis using False n l(2) by (simp add: ext4_xattr_ibody_find_def search_ok_def ENODATA_def)
  qed
qed

text \<open>What reading an attribute returns that is in the table or nowhere.\<close>

definition read_result :: "u8 list option \<Rightarrow> nat option \<Rightarrow> int \<times> u8 list" where
  "read_result a buffer = (case a of
     None \<Rightarrow> (- ENODATA, [])
   | Some v \<Rightarrow> (case buffer of None \<Rightarrow> (int (length v), []) | Some n \<Rightarrow> if n < length v then (- ERANGE, []) else (int (length v), v)))"

lemma tmap_entry:
  assumes "distinct (map tkey es)"
  shows "tmap buf base es k = Some a \<longleftrightarrow> (\<exists>x \<in> set es. tkey x = k \<and> tattr buf base x = a)"
proof -
  have "distinct (map fst (map (\<lambda>x. (tkey x, tattr buf base x)) es))" using assms by (simp add: comp_def)
  then show ?thesis by (auto simp: tmap_def)
qed

text \<open>What a search and the value at its entry return together.\<close>

lemma search_read:
  assumes l: "layout buf base P es G V m" and a: "tmap buf base es (ikey i) = map_option InTable a" and e: "err = 0 \<or> err = - ENODATA"
    and f: "search_ok buf base (length P) es i \<lparr>s_first = length P, s_base = base, s_end = length buf, s_here = here, s_not_found = err\<rparr>"
  shows "(if err \<noteq> 0 then Inr (err, []) else xattr_get_value env inode buf base (length buf) here buffer) = Inr (read_result a buffer)"
proof (cases "err = 0")
  case True
  note L = layoutD [OF l]
  obtain es1 x es2 where x: "es = es1 @ x # es2" "tkey x = ikey i" "here = length P + length (tbytes es1)"
    using f True by (auto simp: search_ok_def)
  have "tmap buf base es (ikey i) = Some (tattr buf base x)" using tmap_entry [OF L(6)] x by auto
  then obtain v where v: "a = Some v" "tattr buf base x = InTable v" using a by (cases a) auto
  have "xattr_get_value env inode buf base (length buf) here buffer =
      (case buffer of None \<Rightarrow> Inr (int (length v), []) | Some n \<Rightarrow> if n < length v then Inr (- ERANGE, []) else Inr (int (length v), v))"
    using l x(1) by (intro get_value_table [OF _ x(3) v(2)]) auto
  then show ?thesis using True v(1) by (simp add: read_result_def split: option.splits)
next
  case False
  then have "ikey i \<notin> tkey ` set es" using f by (simp add: search_ok_def)
  then have "tmap buf base es (ikey i) = None" by (auto simp: tmap_def map_of_eq_None_iff image_image)
  then show ?thesis using False e a by (simp add: read_result_def)
qed

lemma ibody_get_spec:
  assumes "ibody_ok env inode es" "ibody_attrs inode es (idx, name_bytes name) = map_option InTable a"
  shows "ext4_xattr_ibody_get env inode idx name buffer = Inr (read_result a buffer)"
proof -
  obtain raw where r: "raw_inode inode = Inr raw" using assms(1) by (auto simp: ibody_ok_def)
  obtain P G V m where l: "layout raw (IFIRST (IHDR inode)) P es G V m" "IFIRST (IHDR inode) = length P"
    by (rule ibody_layout [OF assms(1) r])
  note L = layoutD [OF l(1)]
  have n: "s_inode_size env = length raw" using assms(1) r by (auto simp: ibody_ok_def)
  have a: "tmap raw (IFIRST (IHDR inode)) es (idx, name_bytes name) = map_option InTable a" using assms(2) r by (simp add: ibody_attrs_def)
  show ?thesis
  proof (cases "x_state_xattr inode")
    case True
    define i where "i = \<lparr>i_name = name, i_value = None, i_value_len = 0, i_name_index = idx, i_in_inode = False\<rparr>"
    obtain err here where f: "xattr_find_entry raw (length P) (length raw) idx (Some name) False = Inr (err, here)" "err = 0 \<or> err = - ENODATA"
        "search_ok raw (length P) (length P) es i \<lparr>s_first = length P, s_base = length P, s_end = length raw, s_here = here, s_not_found = err\<rparr>"
      using find_unsorted [OF l(1) refl, of i] l(2) by (auto simp: i_def)
    have g: "ext4_xattr_ibody_get env inode idx name buffer =
        (if err \<noteq> 0 then Inr (err, []) else xattr_get_value env inode raw (length P) (length raw) here buffer)"
      using True r n f(1) check_inode_table [OF assms(1) True r] l(2) by (simp add: ext4_xattr_ibody_get_def Let_def)
    have "tmap raw (length P) es (ikey i) = map_option InTable a" using a l(2) by (simp add: ikey_def i_def)
    then show ?thesis unfolding g by (rule search_read [OF l(1) [unfolded l(2)] _ f(2,3)])
  next
    case False
    then have "es = []" using assms(1) by (auto simp: ibody_ok_def)
    then show ?thesis using False a by (simp add: ext4_xattr_ibody_get_def tmap_def read_result_def)
  qed
qed

lemma header_write:
  assumes l: "layout raw F P es G V m" and F: "F = length P" "F = h + 4" and v: "length v = 4"
  shows "\<exists>raw'. wr raw h v = Inr raw' \<and> rd raw' h 4 = Inr v \<and> xtab raw' F F es \<and> tmap raw' F es = tmap raw F es \<and> length raw' = length raw"
proof -
  note L = layoutD [OF l]
  define Q where "Q = take h P"
  have p: "P = Q @ drop h P" "length Q = h" "length (drop h P) = 4" using F by (simp_all add: Q_def)
  define R where "R = tbytes es @ endmark @ G @ V"
  have b: "raw = Q @ drop h P @ R" using L(1) p(1) unfolding R_def by (metis append_assoc)
  have w: "wr raw h v = Inr (Q @ v @ R)" using p v by (intro wr_at [OF b]) auto
  have r: "rd (Q @ v @ R) h 4 = Inr v" using p v by (intro rd_at) auto
  have l': "layout (Q @ v @ R) F (Q @ v) es G V m" using L p v F by (auto simp: layout_def R_def)
  have len: "length (Q @ v) = F" using p v F by simp
  have "tmap (Q @ v @ R) F es = tmap raw F es" using tmap_layout [OF l] tmap_layout [OF l'] by simp
  moreover have "xtab (Q @ v @ R) F F es" unfolding xtab_def using l' len by blast
  ultimately show ?thesis using w r b v p by auto
qed

lemma xtab_empty_iff:
  assumes "layout raw F P es G V m"
  shows "IS_LAST_ENTRY raw (length P) = Inr (es = [])"
proof (cases es)
  case Nil
  then show ?thesis using endmark_last [of raw P "G @ V"] layoutD(1) [OF assms] by simp
next
  case (Cons x r)
  then show ?thesis using enc_not_last [of raw P x "tbytes r @ endmark @ G @ V" "length P"] layoutD(1,5) [OF assms] by simp
qed

text \<open>One update of the body: a search and the change.\<close>

definition ibody_update ::
    "set_env \<Rightarrow> ea_services \<Rightarrow> ext4_env \<Rightarrow> ext4_xattr_info \<Rightarrow> ext4_inode \<times> ea_state \<Rightarrow> (int \<times> ext4_inode \<times> ea_state) kres" where
  "ibody_update se sv env i = (\<lambda>(inode, st).
     case raw_inode inode of
       Inl err \<Rightarrow> Inr (err, inode, st)
     | Inr raw \<Rightarrow>
         kbind (ext4_xattr_ibody_find env inode i raw) (\<lambda>(error, s).
         if error \<noteq> 0 then Inr (error, inode, st)
         else if s_not_found s \<noteq> 0 \<and> i_value i = None then Inr (- ENODATA, inode, st)
         else
           kbind (ext4_xattr_ibody_set se sv env inode i s raw st) (\<lambda>(error, raw, state, st).
           Inr (error, inode\<lparr>raw_inode := Inr raw, x_state_xattr := state\<rparr>, st))))"

lemma ibody_update_step:
  assumes ok: "ibody_ok env inode es" and i: "info_ok i" "i_in_inode i \<longrightarrow> i_value i \<noteq> Some ZeroValue"
    and sv: "ea_sane sv" "igets_fail st" and inl: "\<not> has_inline_data se"
  shows "\<exists>ret inode' st' es' ino. ibody_update se sv env i (inode, st) = Inr (ret, inode', st') \<and> ibody_ok env inode' es'
    \<and> ibody_attrs inode' es' = (if ret = 0 then (ibody_attrs inode es)(ikey i := map_option (\<lambda>_. new_attr i ino) (i_value i)) else ibody_attrs inode es)"
proof -
  define F where "F = IFIRST (IHDR inode)"
  obtain raw where r: "raw_inode inode = Inr raw" using ok by (auto simp: ibody_ok_def)
  obtain s where s: "ext4_xattr_ibody_find env inode i raw = Inr (0, s)" "search_ok raw F F es i s"
    using ibody_find_ok [OF ok r] by (auto simp: F_def)
  have n: "s_inode_size env = length raw" "EXT4_INODE_HAS_XATTR_SPACE env inode" and t: "xtab raw F F es"
    using ok r by (auto simp: ibody_ok_def F_def)
  show ?thesis
  proof (cases "s_not_found s \<noteq> 0 \<and> i_value i = None")
    case True
    then show ?thesis using r s(1) ok by (auto simp: ibody_update_def ENODATA_def intro!: exI [of _ es])
  next
    case False
    obtain ret raw1 st1 where e1: "ext4_xattr_set_entry se sv env inode i s False raw st = Inr (ret, raw1, st1)"
        "set_outcome se False raw F F es s (tmap raw F es) i ret raw1"
      using set_entry_table [OF t s(2) i(1) _ _ i(2) sv, of False se env inode] False by auto
    obtain ino ks where e: "ext4_xattr_set_entry se sv env inode i s False raw st = Inr (ret, raw1, st1)"
        "if ret = 0 then changed False raw F F ks ((tmap raw F es)(ikey i := map_option (\<lambda>_. new_attr i ino) (i_value i))) raw1 else raw1 = raw"
      using e1 inl by (cases "ret = 0") (auto simp: set_outcome_def)
    show ?thesis
    proof (cases "ret = 0")
      case nz: False
      then have u: "ibody_update se sv env i (inode, st) = Inr (ret, inode\<lparr>raw_inode := Inr raw, x_state_xattr := x_state_xattr inode\<rparr>, st1)"
        using r s(1) False e n(2) by (auto simp: ibody_update_def ext4_xattr_ibody_set_def)
      have "inode\<lparr>raw_inode := Inr raw, x_state_xattr := x_state_xattr inode\<rparr> = inode" using r by simp
      then show ?thesis using u ok nz by auto
    next
      case z: True
      then obtain es1 where c: "length raw1 = length raw" "xtab raw1 F F es1"
          "tmap raw1 F es1 = (tmap raw F es)(ikey i := map_option (\<lambda>_. new_attr i ino) (i_value i))"
        using e(2) by (auto simp: changed_def)
      obtain P G V m where l: "layout raw1 F P es1 G V m" "F = length P" using c(2) unfolding xtab_def by metis
      have last_: "IS_LAST_ENTRY raw1 (s_first s) = Inr (es1 = [])" using xtab_empty_iff [OF l(1)] s(2) l(2) by (simp add: search_ok_def)
      define mg where "mg = (if es1 = [] then 0 else EXT4_XATTR_MAGIC)"
      obtain raw2 where w: "wr raw1 (IHDR inode) (le_bytes 4 mg) = Inr raw2" "rd raw2 (IHDR inode) 4 = Inr (le_bytes 4 mg)"
          "xtab raw2 F F es1" "tmap raw2 F es1 = tmap raw1 F es1" "length raw2 = length raw1"
        using header_write [OF l, of "IHDR inode" "le_bytes 4 mg"] by (auto simp: F_def IFIRST_def)
      define inode' where "inode' = inode\<lparr>raw_inode := Inr raw2, x_state_xattr := es1 \<noteq> []\<rparr>"
      have u: "ibody_update se sv env i (inode, st) = Inr (0, inode', st1)"
        using r s(1) False e(1) z n(2) last_ w(1) by (auto simp: ibody_update_def ext4_xattr_ibody_set_def mg_def inode'_def)
      have h: "IHDR inode' = IHDR inode" "EXT4_INODE_HAS_XATTR_SPACE env inode'" using n(2)
        by (simp_all add: inode'_def IHDR_def EXT4_INODE_HAS_XATTR_SPACE_def)
      have "rd_le raw2 (IHDR inode) 4 = Inr EXT4_XATTR_MAGIC" if "es1 \<noteq> []"
        using that w(2) by (simp add: rd_le_def mg_def le_nat_le_bytes EXT4_XATTR_MAGIC_def)
      then have ok': "ibody_ok env inode' es1"
        unfolding ibody_ok_def using w(3,5) c(1) n(1) h by (auto simp: inode'_def F_def IHDR_def)
      have "ibody_attrs inode' es1 = (ibody_attrs inode es)(ikey i := map_option (\<lambda>_. new_attr i ino) (i_value i))"
        using w(4) c(3) h(1) r by (simp add: ibody_attrs_def inode'_def F_def)
      then show ?thesis using u ok' by auto
    qed
  qed
qed

subsection \<open>What is set is what is read\<close>

lemma ibody_get_hit:
  assumes "ibody_ok env inode es" "\<not> forced_shutdown env" "length name < 256" "ibody_attrs inode es (idx, name_bytes name) = Some (InTable v)"
    "length v \<le> n"
  shows "ext4_xattr_get env inode idx name (Some n) = Inr (int (length v), v)"
proof -
  have "ext4_xattr_ibody_get env inode idx name (Some n) = Inr (int (length v), v)"
    using ibody_get_spec [OF assms(1), of idx name "Some v" "Some n"] assms(4,5) by (simp add: read_result_def)
  then show ?thesis using assms(2,3) by (simp add: ext4_xattr_get_def ENODATA_def)
qed

lemma ibody_update_find_set:
  assumes "raw_inode inode = Inr raw" "i_value i \<noteq> None" "ext4_xattr_ibody_find env inode i raw = Inr (0, s)"
    "ext4_xattr_ibody_set se sv env inode i s raw st = Inr (ret, raw', state, st')"
  shows "ibody_update se sv env i (inode, st) = Inr (ret, inode\<lparr>raw_inode := Inr raw', x_state_xattr := state\<rparr>, st')"
  using assms by (auto simp: ibody_update_def)

text \<open>C32. An attribute set in the body of an inode is read back: after a successful \<^verbatim>\<open>ext4_xattr_ibody_set\<close> of a value the
  table of the inode passes its checks, \<^verbatim>\<open>ext4_xattr_get\<close> returns exactly the bytes that were set, and every other
  attribute in the table, or missing from it, reads as before.\<close>

theorem ext4_set_get_roundtrip:
  assumes "ibody_ok env inode es" "raw_inode inode = Inr raw" "info_ok i" "i_value i = Some (Value v)" "i_value_len i = length v"
    "\<not> i_in_inode i" "ea_sane sv" "igets_fail st" "\<not> has_inline_data se" "\<not> forced_shutdown env"
    "ext4_xattr_ibody_find env inode i raw = Inr (0, s)" "ext4_xattr_ibody_set se sv env inode i s raw st = Inr (0, raw', state, st')"
  shows "(let inode' = inode\<lparr>raw_inode := Inr raw', x_state_xattr := state\<rparr> in
      ext4_xattr_get env inode' (i_name_index i) (i_name i) (Some (length v)) = Inr (int (length v), v)
      \<and> (\<exists>es'. ibody_ok env inode' es')
      \<and> (\<forall>idx name a buffer. (idx, name_bytes name) \<noteq> ikey i \<longrightarrow> ibody_attrs inode es (idx, name_bytes name) = map_option InTable a \<longrightarrow>
           ext4_xattr_ibody_get env inode' idx name buffer = ext4_xattr_ibody_get env inode idx name buffer))"
proof -
  define inode' where "inode' = inode\<lparr>raw_inode := Inr raw', x_state_xattr := state\<rparr>"
  have u: "ibody_update se sv env i (inode, st) = Inr (0, inode', st')"
    using ibody_update_find_set [OF assms(2) _ assms(11,12)] assms(4) by (simp add: inode'_def)
  obtain es' ino where e: "ibody_ok env inode' es'" "ibody_attrs inode' es' = (ibody_attrs inode es)(ikey i \<mapsto> new_attr i ino)"
    using ibody_update_step [OF assms(1,3) _ assms(7-9)] assms(4) u by fastforce
  have n: "new_attr i ino = InTable v" using assms(4-6) by (simp add: new_attr_def value_bytes_def)
  have "ibody_attrs inode' es' (i_name_index i, name_bytes (i_name i)) = Some (InTable v)" using e(2) n by (simp add: ikey_def)
  then have "ext4_xattr_get env inode' (i_name_index i) (i_name i) (Some (length v)) = Inr (int (length v), v)"
    using assms(3) by (intro ibody_get_hit [OF e(1) assms(10)]) (auto simp: info_ok_def)
  moreover have "ext4_xattr_ibody_get env inode' idx name buffer = ext4_xattr_ibody_get env inode idx name buffer"
    if "(idx, name_bytes name) \<noteq> ikey i" "ibody_attrs inode es (idx, name_bytes name) = map_option InTable a" for idx name a buffer
    using ibody_get_spec [OF e(1), of idx name a buffer] ibody_get_spec [OF assms(1), of idx name a buffer] that e(2) by simp
  ultimately show ?thesis using e(1) unfolding Let_def inode'_def by blast
qed

text \<open>A new inode of 256 bytes with room for attributes.\<close>

definition new_env :: ext4_env where
  "new_env = ext4_demo_env\<lparr>s_inode_size := 256\<rparr>"

definition new_inode :: ext4_inode where
  "new_inode = \<lparr>x_ino = 12, x_generation = 0, i_extra_isize = 32, x_state_xattr = False, i_file_acl = 0,
     raw_inode = Inr (replicate 256 0), acl_block = Inl (- EIO)\<rparr>"

definition demo_info :: ext4_xattr_info where
  "demo_info = \<lparr>i_name = ''k'', i_value = Some (Value [1, 2, 3]), i_value_len = 3, i_name_index = 11, i_in_inode = False\<rparr>"

definition demo_set_env :: set_env where
  "demo_set_env = \<lparr>has_feature_ea_inode = False, set_blocksize = 4096, has_inline_data = False, find_inline_data = (\<lambda>b. 0)\<rparr>"

definition demo_services :: ea_services where
  "demo_services = \<lparr>svc = (\<lambda>c t. 0), svc_new_inode = (\<lambda>t. Inl (- ENOSPC)), svc_cached = None, svc_retries = 3, svc_blkbits = 12,
     svc_cluster_bits = 0, svc_mounted = True\<rparr>"

definition demo_ea_state :: ea_state where
  "demo_ea_state = \<lparr>ea_inodes = (\<lambda>i. Inl (- EIO)), ea_orphans = [], ea_held = (\<lambda>i. 0), quota_inodes = 0, quota_space = 0, ea_calls = 0\<rparr>"

lemma replicate_split: "n = a + b \<Longrightarrow> replicate n x = replicate a x @ replicate b x"
  by (simp add: replicate_add)

lemma new_inode_layout: "layout (replicate 256 0) 164 (replicate 164 0) [] (replicate 88 0) [] 92"
proof -
  have "replicate 256 (0 :: u8) = replicate 164 0 @ replicate 4 0 @ replicate 88 0"
    using replicate_split [of 256 164 92 "0 :: u8"] replicate_split [of 92 4 88 "0 :: u8"] by simp
  then show ?thesis by (simp add: layout_def endmark_def wfv_def)
qed

lemma new_inode_xtab: "xtab (replicate 256 0) 164 164 []"
  by (rule xtabI [OF new_inode_layout]) simp

lemma new_inode_ok: "ibody_ok new_env new_inode []"
  using new_inode_xtab
  by (auto simp: ibody_ok_def new_inode_def new_env_def EXT4_INODE_HAS_XATTR_SPACE_def EXT4_GOOD_OLD_INODE_SIZE_def IHDR_def IFIRST_def)

lemma demo_sane: "info_ok demo_info" "ea_sane demo_services" "igets_fail demo_ea_state"
  by (simp_all add: info_ok_def demo_info_def name_bytes_def EXT4_XATTR_SIZE_MAX_def ea_sane_def demo_services_def ENOSPC_def
      igets_fail_def demo_ea_state_def EIO_def)

lemma demo_entry:
  "\<exists>s buf'. ext4_xattr_ibody_find new_env new_inode demo_info (replicate 256 0) = Inr (0, s) \<and> search_ok (replicate 256 0) 164 164 [] demo_info s
    \<and> ext4_xattr_set_entry demo_set_env demo_services new_env new_inode demo_info s False (replicate 256 0) demo_ea_state = Inr (0, buf', demo_ea_state)"
proof -
  have r: "raw_inode new_inode = Inr (replicate 256 0)" and f: "IFIRST (IHDR new_inode) = 164"
    by (simp_all add: new_inode_def IFIRST_def IHDR_def EXT4_GOOD_OLD_INODE_SIZE_def)
  obtain s where s: "ext4_xattr_ibody_find new_env new_inode demo_info (replicate 256 0) = Inr (0, s)"
      "search_ok (replicate 256 0) 164 164 [] demo_info s"
    using ibody_find_ok [OF new_inode_ok r, of demo_info] f by auto
  have fs: "ext4_xattr_free_space (replicate 256 0) 164 (length (replicate 256 (0 :: u8)) - 164) 164 0 = Inr (88, 92, 0)"
    using free_space_layout [OF new_inode_layout] by simp
  show ?thesis
    using set_entry_exact [OF new_inode_xtab s(2) demo_sane(1) _ _ _ fs, of False demo_set_env demo_services new_env new_inode demo_ea_state] s
    by (auto simp: demo_info_def needed_def padded_size_def EXT4_XATTR_LEN_def)
qed

lemma demo_set:
  "\<exists>s raw' state. ext4_xattr_ibody_find new_env new_inode demo_info (replicate 256 0) = Inr (0, s)
    \<and> ext4_xattr_ibody_set demo_set_env demo_services new_env new_inode demo_info s (replicate 256 0) demo_ea_state = Inr (0, raw', state, demo_ea_state)"
proof -
  obtain s buf' where s: "ext4_xattr_ibody_find new_env new_inode demo_info (replicate 256 0) = Inr (0, s)"
    and e: "ext4_xattr_set_entry demo_set_env demo_services new_env new_inode demo_info s False (replicate 256 0) demo_ea_state = Inr (0, buf', demo_ea_state)"
    using demo_entry by blast
  have r: "raw_inode new_inode = Inr (replicate 256 0)" by (simp add: new_inode_def)
  have sp: "EXT4_INODE_HAS_XATTR_SPACE new_env new_inode" using new_inode_ok by (auto simp: ibody_ok_def)
  obtain ret raw' state st' where "ext4_xattr_ibody_set demo_set_env demo_services new_env new_inode demo_info s (replicate 256 0) demo_ea_state = Inr (ret, raw', state, st')"
    using ibody_update_step [OF new_inode_ok demo_sane(1) _ demo_sane(2,3), of demo_set_env] s r
    by (fastforce simp: ibody_update_def demo_info_def demo_set_env_def)
  then show ?thesis using s e sp by (auto simp: ext4_xattr_ibody_set_def)
qed

theorem ext4_set_get_roundtrip_witness:
  "\<exists>inode'. ext4_xattr_get new_env inode' 11 ''k'' (Some 3) = Inr (3, [1, 2, 3]) \<and> (\<exists>es'. ibody_ok new_env inode' es')"
proof -
  obtain s raw' state where d: "ext4_xattr_ibody_find new_env new_inode demo_info (replicate 256 0) = Inr (0, s)"
      "ext4_xattr_ibody_set demo_set_env demo_services new_env new_inode demo_info s (replicate 256 0) demo_ea_state = Inr (0, raw', state, demo_ea_state)"
    using demo_set by blast
  have r: "raw_inode new_inode = Inr (replicate 256 0)" by (simp add: new_inode_def)
  have p: "i_value demo_info = Some (Value [1, 2, 3])" "i_value_len demo_info = length [1, 2, 3 :: u8]" "\<not> i_in_inode demo_info"
      "\<not> has_inline_data demo_set_env" "\<not> forced_shutdown new_env" "i_name_index demo_info = 11" "i_name demo_info = ''k''" "length [1, 2, 3 :: u8] = 3"
    by (simp_all add: demo_info_def demo_set_env_def new_env_def ext4_demo_env_def)
  show ?thesis
    using ext4_set_get_roundtrip [OF new_inode_ok r demo_sane(1) p(1-3) demo_sane(2,3) p(4,5) d] unfolding Let_def p by auto
qed

subsection \<open>The table as a map\<close>

text \<open>C31. Writing one entry (\<^verbatim>\<open>ext4_xattr_set_entry\<close>) implements the update of a map. On every well-formed table, for any
  name and value the system calls let through, the function reads and writes only inside the buffer and returns: with
  success the table is well formed again, has the size it had, and its attributes are those from before with the given
  name set to the value or removed, in the order they had, a new one where the search stopped; with an error nothing is changed, except that removing an entry from an inode with
  inline data may report an error of the search for that data.\<close>

theorem ext4_xattr_set_entry_refines:
  assumes "xtab buf base first es" "search_ok buf base first es i s" "info_ok i" "is_block \<longrightarrow> first = BFIRST"
    "i_value i = None \<longrightarrow> s_not_found s = 0" "i_in_inode i \<longrightarrow> i_value i \<noteq> Some ZeroValue" "ea_sane sv" "igets_fail st"
  shows "\<exists>ret buf' st' ino ks. ext4_xattr_set_entry se sv env inode i s is_block buf st = Inr (ret, buf', st')
    \<and> (if ret = 0 then key_change first es i s ks
         \<and> changed is_block buf base first ks ((tmap buf base es)(ikey i := map_option (\<lambda>_. new_attr i ino) (i_value i))) buf'
       else buf' = buf \<or> has_inline_data se \<and> i_value i = None \<and> changed is_block buf base first ks ((tmap buf base es)(ikey i := None)) buf')"
  using set_entry_table [OF assms, of se env inode] unfolding set_outcome_def by (metis (no_types, lifting))

theorem ext4_xattr_set_entry_refines_witness:
  "\<exists>s buf' st' ino ks. ext4_xattr_set_entry demo_set_env demo_services new_env new_inode demo_info s False (replicate 256 0) demo_ea_state = Inr (0, buf', st')
    \<and> changed False (replicate 256 0) 164 164 ks ((tmap (replicate 256 0) 164 [])(ikey demo_info \<mapsto> new_attr demo_info ino)) buf'"
proof -
  obtain s buf' where s: "search_ok (replicate 256 0) 164 164 [] demo_info s"
    and e: "ext4_xattr_set_entry demo_set_env demo_services new_env new_inode demo_info s False (replicate 256 0) demo_ea_state = Inr (0, buf', demo_ea_state)"
    using demo_entry by blast
  have v: "i_value demo_info = Some (Value [1, 2, 3])" by (simp add: demo_info_def)
  show ?thesis
    using ext4_xattr_set_entry_refines [OF new_inode_xtab s demo_sane(1) _ _ _ demo_sane(2,3), of False demo_set_env new_env new_inode] e v by fastforce
qed

subsection \<open>Sequences of updates\<close>

inductive ibody_step :: "ext4_env \<Rightarrow> ext4_inode \<times> ea_state \<Rightarrow> ext4_inode \<times> ea_state \<Rightarrow> bool" for env where
  update: "info_ok i \<Longrightarrow> (i_in_inode i \<longrightarrow> i_value i \<noteq> Some ZeroValue) \<Longrightarrow> ea_sane sv \<Longrightarrow> igets_fail st \<Longrightarrow> \<not> has_inline_data se \<Longrightarrow>
     ibody_update se sv env i (inode, st) = Inr (ret, y) \<Longrightarrow> ibody_step env (inode, st) y"

inductive_cases ibody_stepE: "ibody_step env x y"

interpretation ibody: transition_system "\<lambda>x. \<exists>es. ibody_ok env (fst x) es" "ibody_step env" "\<lambda>x. \<exists>es. ibody_ok env (fst x) es"
  for env
proof unfold_locales
  fix x y
  assume ok: "\<exists>es. ibody_ok env (fst x) es" and "ibody_step env x y"
  then obtain i sv st se inode ret where x: "x = (inode, st)" and s: "info_ok i" "i_in_inode i \<longrightarrow> i_value i \<noteq> Some ZeroValue" "ea_sane sv" "igets_fail st"
      "\<not> has_inline_data se" "ibody_update se sv env i (inode, st) = Inr (ret, y)"
    by (elim ibody_stepE)
  obtain es where "ibody_ok env inode es" using ok x by auto
  then show "\<exists>es. ibody_ok env (fst y) es" using ibody_update_step [OF _ s(1-5)] s(6) by fastforce
qed

text \<open>C33. Whatever sequence of attributes is set and removed, with and without success, the inode keeps a well-formed
  table: the kernel's own check of it passes, and no search in it finds a corruption.\<close>

theorem ext4_ibody_table_wellformed:
  assumes "run_of (ibody_step env) (inode, st) (inode', st')" "ibody_ok env inode es" "raw_inode inode' = Inr raw"
  shows "(\<exists>es'. ibody_ok env inode' es') \<and> (x_state_xattr inode' \<longrightarrow> u_xattr_check_inode raw (IHDR inode') (length raw) = Inr 0)
    \<and> (\<forall>i. \<exists>s. ext4_xattr_ibody_find env inode' i raw = Inr (0, s))"
proof -
  have "\<exists>es'. ibody_ok env (fst (inode', st')) es'" using ibody.run_inv [OF assms(1)] assms(2) by auto
  then obtain es' where "ibody_ok env inode' es'" by auto
  then show ?thesis using check_inode_table [OF _ _ assms(3)] ibody_find_ok [OF _ assms(3)] by blast
qed



theorem ext4_ibody_table_wellformed_witness:
  "\<exists>inode' st' raw. run_of (ibody_step new_env) (new_inode, demo_ea_state) (inode', st') \<and> inode' \<noteq> new_inode \<and> x_state_xattr inode' \<and> raw_inode inode' = Inr raw
    \<and> u_xattr_check_inode raw (IHDR inode') (length raw) = Inr 0"
proof -
  obtain s raw' state where d: "ext4_xattr_ibody_find new_env new_inode demo_info (replicate 256 0) = Inr (0, s)"
      "ext4_xattr_ibody_set demo_set_env demo_services new_env new_inode demo_info s (replicate 256 0) demo_ea_state = Inr (0, raw', state, demo_ea_state)"
    using demo_set by blast
  have r: "raw_inode new_inode = Inr (replicate 256 0)" by (simp add: new_inode_def)
  define inode' where "inode' = new_inode\<lparr>raw_inode := Inr raw', x_state_xattr := state\<rparr>"
  have u: "ibody_update demo_set_env demo_services new_env demo_info (new_inode, demo_ea_state) = Inr (0, inode', demo_ea_state)"
    using ibody_update_find_set [OF r _ d] by (simp add: inode'_def demo_info_def)
  have "ibody_step new_env (new_inode, demo_ea_state) (inode', demo_ea_state)"
    by (rule ibody_step.update [OF demo_sane(1) _ demo_sane(2,3) _ u]) (simp_all add: demo_info_def demo_set_env_def)
  then have run: "run_of (ibody_step new_env) (new_inode, demo_ea_state) (inode', demo_ea_state)" by (rule run_step [OF run_refl])
  obtain es' ino where e: "ibody_ok new_env inode' es'" "ibody_attrs inode' es' (ikey demo_info) = Some (new_attr demo_info ino)"
    using ibody_update_step [OF new_inode_ok demo_sane(1) _ demo_sane(2,3), of demo_set_env] u by (fastforce simp: demo_info_def demo_set_env_def)
  then have "x_state_xattr inode'" by (auto simp: ibody_ok_def ibody_attrs_def tmap_def inode'_def split: if_splits)
  moreover have "inode' \<noteq> new_inode" using calculation by (auto simp: new_inode_def)
  ultimately show ?thesis
    using ext4_ibody_table_wellformed [OF run new_inode_ok, of raw'] run by (intro exI [of _ inode'] exI [of _ demo_ea_state] exI [of _ raw']) (simp add: inode'_def)
qed

subsection \<open>Room\<close>

text \<open>Whether a value fits is decided exactly: storing a value in a table without values in inodes succeeds if
  the space its name and value need is at most the free space (\<^verbatim>\<open>ext4_xattr_free_space\<close>) plus what the entry of
  the same name occupies, and is refused with \<^verbatim>\<open>ENOSPC\<close> otherwise.\<close>

lemma ext4_set_entry_room:
  assumes "xtab buf base first es" "search_ok buf base first es i s" "info_ok i" "i_value i \<noteq> None" "\<not> i_in_inode i" "\<forall>x \<in> set es. t_inum x = 0"
    "ext4_xattr_free_space buf first (length buf - base) base 0 = Inr (free, min_offs, tot)"
  shows "\<exists>buf'. ext4_xattr_set_entry se sv env inode i s False buf st = Inr (if needed i \<le> free + given_back es i then 0 else - ENOSPC, buf', st)"
  by (rule set_entry_exact [OF assms]) simp

definition big_info :: ext4_xattr_info where
  "big_info = \<lparr>i_name = ''k'', i_value = Some (Value (replicate 100 7)), i_value_len = 100, i_name_index = 11, i_in_inode = False\<rparr>"

theorem ext4_set_entry_room_witness:
  "\<exists>s buf'. ext4_xattr_set_entry demo_set_env demo_services new_env new_inode big_info s False (replicate 256 0) demo_ea_state = Inr (- ENOSPC, buf', demo_ea_state)"
proof -
  have r: "raw_inode new_inode = Inr (replicate 256 0)" and f: "IFIRST (IHDR new_inode) = 164"
    by (simp_all add: new_inode_def IFIRST_def IHDR_def EXT4_GOOD_OLD_INODE_SIZE_def)
  obtain s where s: "search_ok (replicate 256 0) 164 164 [] big_info s"
    using ibody_find_ok [OF new_inode_ok r, of big_info] f by auto
  have i: "info_ok big_info" "i_value big_info \<noteq> None" "\<not> i_in_inode big_info"
    by (simp_all add: info_ok_def big_info_def name_bytes_def EXT4_XATTR_SIZE_MAX_def)
  have fs: "ext4_xattr_free_space (replicate 256 0) 164 (length (replicate 256 (0 :: u8)) - 164) 164 0 = Inr (88, 92, 0)"
    using free_space_layout [OF new_inode_layout] by simp
  show ?thesis
    using ext4_set_entry_room [OF new_inode_xtab s i _ fs, of demo_set_env demo_services new_env new_inode demo_ea_state]
    by (auto simp: big_info_def needed_def given_back_def padded_size_def EXT4_XATTR_LEN_def)
qed

subsection \<open>Values in inodes of their own\<close>

definition ea_new_inode :: ea_inode where
  "ea_new_inode = \<lparr>ea_ino = 20, ea_size = 0, ea_blkbits = 1, ea_blocks = Inr [], ea_atime = 0, ea_mtime = 0, ea_generation = 0,
     ea_lustre = False, ea_ctime = 0, ea_iversion = 0, ea_nlink = 1\<rparr>"

definition ea_demo_services :: ea_services where
  "ea_demo_services = demo_services\<lparr>svc := (\<lambda>c t. case c of MapBlocks i b n \<Rightarrow> int n | _ \<Rightarrow> 0), svc_new_inode := (\<lambda>t. Inr ea_new_inode), svc_blkbits := 1\<rparr>"

text \<open>A value stored in an inode of its own is there: the inode that \<^verbatim>\<open>ext4_xattr_inode_lookup_create\<close> returns, found
  in the cache or created and written block by block, is read by \<^verbatim>\<open>ext4_xattr_inode_read\<close> as exactly the value, and its
  size and the hash stored in it are those the reader checks.\<close>

lemma ext4_ea_value_roundtrip:
  assumes "ext4_xattr_inode_lookup_create sv env v st = (Inr ino, st')" "\<forall>n. kmalloc_ok env n" "new_blocksize sv"
  shows "\<exists>x. ea_inodes st' ino = Inr x \<and> ext4_xattr_inode_read env x (length v) = Inr v \<and> ea_size x = length v
    \<and> ea_atime x = ext4_xattr_inode_hash env v"
  using lookup_create_holds [OF assms] by (simp add: holds_value_def)

lemma ea_demo_created: "fst (ext4_xattr_inode_lookup_create ea_demo_services ext4_demo_env [1, 2, 3] demo_ea_state) = Inr 20"
  by code_simp

theorem ext4_ea_value_roundtrip_witness:
  "\<exists>st' x. ext4_xattr_inode_lookup_create ea_demo_services ext4_demo_env [1, 2, 3] demo_ea_state = (Inr 20, st')
    \<and> ea_inodes st' 20 = Inr x \<and> ext4_xattr_inode_read ext4_demo_env x 3 = Inr [1, 2, 3]"
proof -
  obtain st' where l: "ext4_xattr_inode_lookup_create ea_demo_services ext4_demo_env [1, 2, 3] demo_ea_state = (Inr 20, st')"
    using ea_demo_created by (metis surjective_pairing)
  have "\<forall>n. kmalloc_ok ext4_demo_env n" "new_blocksize ea_demo_services"
    by (simp_all add: ext4_demo_env_def new_blocksize_def ea_demo_services_def ea_new_inode_def)
  then show ?thesis using ext4_ea_value_roundtrip [OF l] l by (auto simp: numeral_3_eq_3)
qed

text \<open>C34. Changing an entry keeps the accounts, on file systems without inodes of values in the layout of Lustre (none is there, none is
  allocated, and no inode of a value names the owner as its own). Whether it succeeds or fails at any point, \<^verbatim>\<open>ext4_xattr_set_entry\<close> puts back
  every reference it took on an inode. When it succeeds the owner is charged one inode and the space of the new value, if
  that has an inode of its own, and is given back what the old value was charged. When it fails the charge is as before, with one
  exception: when an entry was removed from the body of an inode with inline data and the search for that data fails, that
  error is returned although the old value was given back.\<close>

theorem ext4_set_entry_balanced:
  assumes "ext4_xattr_set_entry se sv env inode i s is_block buf st = Inr (ret, buf', st')" "no_lustre st" "new_plain sv"
    "\<forall>n x. ea_inodes st n = Inr x \<longrightarrow> unat (ea_mtime x) \<noteq> x_ino inode" "igets_fail st" "ea_sane sv"
  shows "(let after = paid (paid (accounts st) (charge sv (new_inode_len i))) (refund (charge sv (old_inode_len buf s))) in
    fst (accounts st') = fst (accounts st)
    \<and> (if ret = 0 then accounts st' = after
       else accounts st' = accounts st
         \<or> accounts st' = after \<and> i_value i = None \<and> \<not> is_block \<and> has_inline_data se \<and> find_inline_data se buf' = ret))"
  using set_entry_accounts [OF assms] by (auto simp: Let_def paid_def split: prod.splits)

definition ea_demo_info :: ext4_xattr_info where
  "ea_demo_info = demo_info\<lparr>i_in_inode := True\<rparr>"

theorem ext4_set_entry_balanced_witness:
  "\<exists>s ret buf' st'. ext4_xattr_set_entry demo_set_env ea_demo_services new_env new_inode ea_demo_info s False (replicate 256 0) demo_ea_state
      = Inr (ret, buf', st') \<and> ea_held st' = (\<lambda>_. 0) \<and> quota_inodes st' = (if ret = 0 then 1 else 0) \<and> quota_space st' = (if ret = 0 then 4 else 0)"
proof -
  have r: "raw_inode new_inode = Inr (replicate 256 0)" and f: "IFIRST (IHDR new_inode) = 164"
    by (simp_all add: new_inode_def IFIRST_def IHDR_def EXT4_GOOD_OLD_INODE_SIZE_def)
  obtain s where s: "search_ok (replicate 256 0) 164 164 [] ea_demo_info s"
    using ibody_find_ok [OF new_inode_ok r, of ea_demo_info] f by auto
  have i: "info_ok ea_demo_info" and sv: "ea_sane ea_demo_services"
    by (simp_all add: ea_demo_info_def demo_info_def info_ok_def name_bytes_def EXT4_XATTR_SIZE_MAX_def ea_sane_def ea_demo_services_def demo_services_def ea_new_inode_def)
  obtain ret buf' st' where e: "ext4_xattr_set_entry demo_set_env ea_demo_services new_env new_inode ea_demo_info s False (replicate 256 0) demo_ea_state
      = Inr (ret, buf', st')"
    using set_entry_table [OF new_inode_xtab s i _ _ _ sv demo_sane(3), of False demo_set_env new_env new_inode] by (auto simp: ea_demo_info_def demo_info_def)
  have n: "s_not_found s \<noteq> 0" using s by (auto simp: search_ok_def)
  have "accounts st' = (if ret = 0 then paid (paid (accounts demo_ea_state) (charge ea_demo_services (new_inode_len ea_demo_info)))
      (refund (charge ea_demo_services (old_inode_len (replicate 256 0) s))) else accounts demo_ea_state)"
    using ext4_set_entry_balanced [OF e] demo_sane(3) sv
    by (auto simp: Let_def no_lustre_def demo_ea_state_def new_plain_def ea_demo_services_def ea_new_inode_def demo_set_env_def)
  then have "accounts st' = (if ret = 0 then (\<lambda>_. 0, 1, 4) else (\<lambda>_. 0, 0, 0))" using n
    by (simp add: accounts_def demo_ea_state_def paid_def refund_def charge_def new_inode_len_def ea_demo_info_def demo_info_def old_inode_len_def
        round_up_cluster_def ea_demo_services_def demo_services_def)
  then show ?thesis using e by (auto simp: accounts_def split: if_splits)
qed

end
