(* ===== verification/Ext4_Block.thy ===== *)
theory Ext4_Block
  imports Ext4_Xattr_Set
begin

text \<open>
  Attributes in a block of their own (\<^verbatim>\<open>fs/ext4/xattr.c\<close>): inodes with the same attributes share a block, whose header
  counts them. Here are the search in the block, the comparison of two blocks and the search for an equal one, changing a
  block in place or through a copy, giving it up, the references of its entries to inodes of values, and on top
  \<^verbatim>\<open>ext4_xattr_set_handle\<close> and \<^verbatim>\<open>ext4_xattr_set\<close>, which choose between the body of the inode and the block. Blocks are known by their
  number; calls into other files of ext4, the journal, the quota code and the cache of blocks (\<^verbatim>\<open>fs/mbcache.c\<close>)
  answer through \<^verbatim>\<open>blk_services\<close>. One call runs at a time: locks have no effect, and another user of a cache entry is
  an answer of the services.
\<close>

subsection \<open>State and services\<close>

datatype blk_call =
    BlkWriteAccess nat
  | BlkCreateAccess nat
  | BlkDirty nat
  | BlkGetblk nat
  | CacheInUse nat
  | DquotAllocBlock
  | Kmemdup
  | Kzalloc
  | ExpandArray
  | EnsureCredits
  | ReserveWrite nat
  | MarkDirty nat
  | HandleCredits
  | JournalStart
  | JournalStop
  | RetrySet
  | DquotInitialize

text \<open>What the cache of blocks is told.\<close>

datatype cache_event = CacheInsert nat nat bool | CacheDelete nat nat | CacheReusable nat nat bool

record blk_services =
  bsvc :: "blk_call \<Rightarrow> nat \<Rightarrow> int"
  bsvc_new_block :: "nat \<Rightarrow> int + nat"
  bsvc_cached :: "(nat \<Rightarrow> nat \<Rightarrow> nat list) option"
  bsvc_rounds :: nat
  bsvc_retries :: nat
  bsvc_journal :: bool
  quota_trans_blocks :: int
  writepage_trans_blocks :: int

record blk_state =
  bd_ea :: ea_state
  bd_blocks :: "nat \<Rightarrow> int + xattr_block"
  bd_quota :: int
  bd_log :: "cache_event list"

definition bask :: "blk_services \<Rightarrow> blk_call \<Rightarrow> blk_state \<Rightarrow> int \<times> blk_state" where
  "bask bv c bs = (bsvc bv c (ea_calls (bd_ea bs)), bs\<lparr>bd_ea := (bd_ea bs)\<lparr>ea_calls := ea_calls (bd_ea bs) + 1\<rparr>\<rparr>)"

definition put_block :: "nat \<Rightarrow> xattr_block \<Rightarrow> blk_state \<Rightarrow> blk_state" where
  "put_block b bh bs = bs\<lparr>bd_blocks := (bd_blocks bs)(b := Inr bh)\<rparr>"

definition cache_log :: "cache_event \<Rightarrow> blk_state \<Rightarrow> blk_state" where
  "cache_log e bs = bs\<lparr>bd_log := e # bd_log bs\<rparr>"

text \<open>
  A freed block can no longer be read. The charge counted here is that of \<^verbatim>\<open>dquot_alloc_block\<close> and \<^verbatim>\<open>dquot_free_block\<close> for a
  share of a block; the allocator charges for the blocks it hands out itself.
\<close>

definition free_block :: "nat \<Rightarrow> blk_state \<Rightarrow> blk_state" where
  "free_block b bs = bs\<lparr>bd_blocks := (bd_blocks bs)(b := Inl (- EIO))\<rparr>"

subsection \<open>The header\<close>

definition EXT4_XATTR_REFCOUNT_MAX :: nat where "EXT4_XATTR_REFCOUNT_MAX = 1024"

definition h_refcount :: "u8 list \<Rightarrow> nat kres" where "h_refcount buf = rd_le buf 4 4"
definition h_hash :: "u8 list \<Rightarrow> nat kres" where "h_hash buf = rd_le buf 12 4"
definition set_h_refcount :: "u8 list \<Rightarrow> nat \<Rightarrow> u8 list kres" where "set_h_refcount buf v = wr buf 4 (le_bytes 4 v)"

definition ext4_xattr_block_csum_set :: "ext4_env \<Rightarrow> xattr_block \<Rightarrow> xattr_block kres" where
  "ext4_xattr_block_csum_set env bh =
     (if has_metadata_csum env
      then kbind (wr (b_data bh) 16 (le_bytes 4 (ext4_xattr_block_csum env bh))) (\<lambda>d. Inr (bh\<lparr>b_data := d\<rparr>))
      else Inr bh)"

subsection \<open>Equal blocks\<close>

text \<open>Comparing entry by entry; \<open>memcmp\<close> reads the name and the value only behind the other fields.\<close>

function xattr_cmp_loop :: "u8 list \<Rightarrow> u8 list \<Rightarrow> nat \<Rightarrow> nat \<Rightarrow> int kres" where
  "xattr_cmp_loop header1 header2 entry1 entry2 =
     kbind (IS_LAST_ENTRY header1 entry1) (\<lambda>last1.
     kbind (IS_LAST_ENTRY header2 entry2) (\<lambda>last2.
     if last1 then Inr (if \<not> last2 then 1 else 0)
     else if last2 then Inr 1
     else
       kbind (e_hash header1 entry1) (\<lambda>h1. kbind (e_hash header2 entry2) (\<lambda>h2.
       kbind (e_name_index header1 entry1) (\<lambda>i1. kbind (e_name_index header2 entry2) (\<lambda>i2.
       kbind (e_name_len header1 entry1) (\<lambda>l1. kbind (e_name_len header2 entry2) (\<lambda>l2.
       kbind (e_value_size header1 entry1) (\<lambda>s1. kbind (e_value_size header2 entry2) (\<lambda>s2.
       kbind (e_value_inum header1 entry1) (\<lambda>n1. kbind (e_value_inum header2 entry2) (\<lambda>n2.
       if h1 \<noteq> h2 \<or> i1 \<noteq> i2 \<or> l1 \<noteq> l2 \<or> s1 \<noteq> s2 \<or> n1 \<noteq> n2 then Inr 1
       else
         kbind (e_name header1 entry1 l1) (\<lambda>name1. kbind (e_name header2 entry2 l1) (\<lambda>name2.
         if name1 \<noteq> name2 then Inr 1
         else
           kbind (if n1 \<noteq> 0 then Inr False
                  else
                    kbind (e_value_offs header1 entry1) (\<lambda>o1. kbind (e_value_offs header2 entry2) (\<lambda>o2.
                    kbind (rd header1 o1 s1) (\<lambda>v1. kbind (rd header2 o2 s1) (\<lambda>v2. Inr (v1 \<noteq> v2)))))) (\<lambda>differ.
           if differ then Inr 1
           else
             kbind (EXT4_XATTR_NEXT header1 entry1) (\<lambda>entry1.
             kbind (EXT4_XATTR_NEXT header2 entry2) (\<lambda>entry2.
             xattr_cmp_loop header1 header2 entry1 entry2)))))))))))))))))"
  by pat_completeness auto
termination
  by (relation "measure (\<lambda>(h1, h2, e1, e2). length h1 - e1)") (auto dest!: EXT4_XATTR_NEXT_later IS_LAST_bounds)

declare xattr_cmp_loop.simps [simp del]

definition ext4_xattr_cmp :: "u8 list \<Rightarrow> u8 list \<Rightarrow> int kres" where
  "ext4_xattr_cmp header1 header2 = xattr_cmp_loop header1 header2 BFIRST BFIRST"

text \<open>A block that cannot be read is passed over, unless memory ran out.\<close>

fun block_cache_loop :: "u8 list \<Rightarrow> nat list \<Rightarrow> blk_state \<Rightarrow> nat option kres" where
  "block_cache_loop header [] bs = Inr None"
| "block_cache_loop header (c # cs) bs =
     (case bd_blocks bs c of
        Inl err \<Rightarrow> if err = - ENOMEM then Inr None else block_cache_loop header cs bs
      | Inr bh \<Rightarrow>
          kbind (ext4_xattr_cmp header (b_data bh)) (\<lambda>r.
          if r = 0 then Inr (Some c) else block_cache_loop header cs bs))"

definition ext4_xattr_block_cache_find :: "blk_services \<Rightarrow> u8 list \<Rightarrow> blk_state \<Rightarrow> nat option kres" where
  "ext4_xattr_block_cache_find bv header bs =
     (case bsvc_cached bv of
        None \<Rightarrow> Inr None
      | Some cached \<Rightarrow>
          kbind (h_hash header) (\<lambda>hash.
          if hash = 0 then Inr None else block_cache_loop header (cached hash (ea_calls (bd_ea bs))) bs))"

definition ext4_xattr_block_cache_insert :: "blk_services \<Rightarrow> nat \<Rightarrow> u8 list \<Rightarrow> blk_state \<Rightarrow> blk_state kres" where
  "ext4_xattr_block_cache_insert bv b header bs =
     kbind (h_hash header) (\<lambda>hash.
     kbind (h_refcount header) (\<lambda>ref.
     Inr (if bsvc_cached bv = None then bs else cache_log (CacheInsert hash b (ref < EXT4_XATTR_REFCOUNT_MAX)) bs)))"

subsection \<open>References of the entries to inodes\<close>

definition on_ea :: "(ea_state \<Rightarrow> 'a \<times> ea_state) \<Rightarrow> blk_state \<Rightarrow> 'a \<times> blk_state" where
  "on_ea f bs = (let (r, st) = f (bd_ea bs) in (r, bs\<lparr>bd_ea := st\<rparr>))"

text \<open>Taking a reference for every entry; on a failure the position and the error.\<close>

function inc_ref_loop :: "ea_services \<Rightarrow> ext4_env \<Rightarrow> ext4_inode \<Rightarrow> u8 list \<Rightarrow> nat \<Rightarrow> ea_state \<Rightarrow> ((int \<times> nat) option \<times> ea_state) kres" where
  "inc_ref_loop sv env parent buf entry st =
     kbind (IS_LAST_ENTRY buf entry) (\<lambda>stop.
     if stop then Inr (None, st)
     else
       kbind (e_value_inum buf entry) (\<lambda>ea_ino.
       kbind (e_hash buf entry) (\<lambda>hash.
       kbind (EXT4_XATTR_NEXT buf entry) (\<lambda>nxt.
       if ea_ino = 0 then inc_ref_loop sv env parent buf nxt st
       else case ea_iget env parent ea_ino (of_nat hash) st of
         (Inl err, st) \<Rightarrow> Inr (Some (err, entry), st)
       | (Inr ea_inode, st) \<Rightarrow>
           let (err, st) = ext4_xattr_inode_inc_ref sv ea_inode st in
           if err \<noteq> 0 then Inr (Some (err, entry), iput ea_inode st)
           else inc_ref_loop sv env parent buf nxt (iput ea_inode st)))))"
  by pat_completeness auto
termination
  by (relation "measure (\<lambda>(sv, env, p, buf, e, st). length buf - e)") (auto dest!: EXT4_XATTR_NEXT_later IS_LAST_bounds)

declare inc_ref_loop.simps [simp del]

text \<open>Giving back what was taken up to the entry that failed.\<close>

function undo_ref_loop :: "ea_services \<Rightarrow> ext4_env \<Rightarrow> ext4_inode \<Rightarrow> u8 list \<Rightarrow> nat \<Rightarrow> nat \<Rightarrow> ea_state \<Rightarrow> ea_state kres" where
  "undo_ref_loop sv env parent buf failed_entry entry st =
     (if failed_entry \<le> entry then Inr st
      else
        kbind (e_value_inum buf entry) (\<lambda>ea_ino.
        kbind (e_hash buf entry) (\<lambda>hash.
        kbind (EXT4_XATTR_NEXT buf entry) (\<lambda>nxt.
        if ea_ino = 0 then undo_ref_loop sv env parent buf failed_entry nxt st
        else case ea_iget env parent ea_ino (of_nat hash) st of
          (Inl err, st) \<Rightarrow> undo_ref_loop sv env parent buf failed_entry nxt st
        | (Inr ea_inode, st) \<Rightarrow>
            undo_ref_loop sv env parent buf failed_entry nxt (iput ea_inode (snd (ext4_xattr_inode_dec_ref sv ea_inode st)))))))"
  by pat_completeness auto
termination
  by (relation "measure (\<lambda>(sv, env, p, buf, f, e, st). f - e)") (auto dest!: EXT4_XATTR_NEXT_later)

declare undo_ref_loop.simps [simp del]

definition ext4_xattr_inode_inc_ref_all ::
    "ea_services \<Rightarrow> ext4_env \<Rightarrow> ext4_inode \<Rightarrow> u8 list \<Rightarrow> nat \<Rightarrow> ea_state \<Rightarrow> (int \<times> ea_state) kres" where
  "ext4_xattr_inode_inc_ref_all sv env parent buf first st =
     kbind (inc_ref_loop sv env parent buf first st) (\<lambda>(failed, st).
     case failed of
       None \<Rightarrow> Inr (0, st)
     | Some (saved_err, failed_entry) \<Rightarrow>
         kbind (undo_ref_loop sv env parent buf failed_entry first st) (\<lambda>st. Inr (saved_err, st)))"

text \<open>
  Dropping the references of all entries, before the block is freed. The inodes are collected and put later; entries
  whose reference could not be dropped stay as they are. When the transaction is restarted on the way, the checksum
  written for it is left out. The result is the array, the block's bytes and whether they changed.
\<close>

function dec_ref_loop ::
    "ea_services \<Rightarrow> blk_services \<Rightarrow> ext4_env \<Rightarrow> ext4_inode \<Rightarrow> nat \<Rightarrow> bool \<Rightarrow> nat list \<Rightarrow> bool \<Rightarrow> u8 list \<Rightarrow> nat \<Rightarrow> blk_state \<Rightarrow>
     (nat list \<times> bool \<times> u8 list \<times> blk_state) kres" where
  "dec_ref_loop sv bv env parent b skip_quota arr dirty buf entry bs =
     kbind (IS_LAST_ENTRY buf entry) (\<lambda>stop.
     if stop then Inr (arr, dirty, buf, bs)
     else
       kbind (e_value_inum buf entry) (\<lambda>ea_ino.
       kbind (e_hash buf entry) (\<lambda>hash.
       kbind (e_value_size buf entry) (\<lambda>sz.
       kbind (EXT4_XATTR_NEXT buf entry) (\<lambda>nxt.
       if ea_ino = 0 then dec_ref_loop sv bv env parent b skip_quota arr dirty buf nxt bs
       else case on_ea (ea_iget env parent ea_ino (of_nat hash)) bs of
         (Inl err, bs) \<Rightarrow> dec_ref_loop sv bv env parent b skip_quota arr dirty buf nxt bs
       | (Inr ea_inode, bs) \<Rightarrow>
           let (err, bs) = bask bv ExpandArray bs in
           if err \<noteq> 0 then
             dec_ref_loop sv bv env parent b skip_quota arr dirty buf nxt (bs\<lparr>bd_ea := iput ea_inode (bd_ea bs)\<rparr>)
           else
             let arr = arr @ [ea_inode];
                 (err, bs) = bask bv EnsureCredits bs;
                 (err, bs) = (if 0 < err then bask bv (BlkWriteAccess b) bs else (err, bs)) in
             if err \<noteq> 0 then dec_ref_loop sv bv env parent b skip_quota arr dirty buf nxt bs
             else
               let (err, bs) = on_ea (ext4_xattr_inode_dec_ref sv ea_inode) bs in
               if err \<noteq> 0 then dec_ref_loop sv bv env parent b skip_quota arr dirty buf nxt bs
               else
                 let bs = (if skip_quota then bs else bs\<lparr>bd_ea := ext4_xattr_inode_free_quota sv (Some ea_inode) sz (bd_ea bs)\<rparr>) in
                 kbind (set_e_value_inum buf entry 0) (\<lambda>buf'.
                 kbind (set_e_value_size buf' entry 0) (\<lambda>buf'.
                 dec_ref_loop sv bv env parent b skip_quota arr True buf' nxt bs)))))))"
  by pat_completeness auto
termination
  by (relation "measure (\<lambda>(sv, bv, env, p, b, q, a, d, buf, e, bs). length buf - e)")
    (auto dest!: EXT4_XATTR_NEXT_later IS_LAST_bounds length_wr simp: set_e_value_inum_def set_e_value_size_def)

declare dec_ref_loop.simps [simp del]

definition ext4_xattr_inode_dec_ref_all ::
    "ea_services \<Rightarrow> blk_services \<Rightarrow> ext4_env \<Rightarrow> ext4_inode \<Rightarrow> nat \<Rightarrow> bool \<Rightarrow> nat list \<Rightarrow> u8 list \<Rightarrow> nat \<Rightarrow> blk_state \<Rightarrow>
     (nat list \<times> u8 list \<times> blk_state) kres" where
  "ext4_xattr_inode_dec_ref_all sv bv env parent b skip_quota arr buf first bs =
     kbind (dec_ref_loop sv bv env parent b skip_quota arr False buf first bs) (\<lambda>(arr, dirty, buf, bs).
     Inr (arr, buf, if dirty then snd (bask bv (BlkDirty b) bs) else bs))"

definition ext4_xattr_inode_array_free :: "nat list \<Rightarrow> blk_state \<Rightarrow> blk_state" where
  "ext4_xattr_inode_array_free arr bs = bs\<lparr>bd_ea := fold iput arr (bd_ea bs)\<rparr>"

subsection \<open>Giving up a block\<close>

text \<open>Another user of the cache entry is waited for; the services say how often that may happen.\<close>

fun cache_delete_loop :: "nat \<Rightarrow> blk_services \<Rightarrow> nat \<Rightarrow> nat \<Rightarrow> blk_state \<Rightarrow> blk_state" where
  "cache_delete_loop 0 bv hash b bs = cache_log (CacheDelete hash b) bs"
| "cache_delete_loop (Suc n) bv hash b bs =
     (let (oe, bs) = bask bv (CacheInUse b) bs in
      if oe \<noteq> 0 then cache_delete_loop n bv hash b bs else cache_log (CacheDelete hash b) bs)"

definition ext4_xattr_release_block ::
    "set_env \<Rightarrow> ea_services \<Rightarrow> blk_services \<Rightarrow> ext4_env \<Rightarrow> ext4_inode \<Rightarrow> nat \<Rightarrow> nat list \<Rightarrow> blk_state \<Rightarrow> (nat list \<times> blk_state) kres" where
  "ext4_xattr_release_block se sv bv env inode b arr bs =
     (let (error, bs) = bask bv (BlkWriteAccess b) bs in
      if error \<noteq> 0 then Inr (arr, bs)
      else case bd_blocks bs b of
        Inl _ \<Rightarrow> Inl (UseAfterFree b)
      | Inr bh \<Rightarrow>
          kbind (h_hash (b_data bh)) (\<lambda>hash.
          kbind (h_refcount (b_data bh)) (\<lambda>ref.
          if ref = 1 then
            let bs = (if bsvc_cached bv = None then bs else cache_delete_loop (bsvc_rounds bv) bv hash b bs) in
            kbind (if has_feature_ea_inode se then
                     kbind (ext4_xattr_inode_dec_ref_all sv bv env inode b True arr (b_data bh) BFIRST bs) (\<lambda>(arr, buf, bs).
                     Inr (arr, put_block b (bh\<lparr>b_data := buf\<rparr>) bs))
                   else Inr (arr, bs)) (\<lambda>(arr, bs).
            Inr (arr, free_block b bs))
          else
            let ref = (ref + 2 ^ 32 - 1) mod 2 ^ 32;
                bs = (if ref = EXT4_XATTR_REFCOUNT_MAX - 1 \<and> bsvc_cached bv \<noteq> None then cache_log (CacheReusable hash b True) bs else bs) in
            kbind (set_h_refcount (b_data bh) ref) (\<lambda>d.
            kbind (ext4_xattr_block_csum_set env (bh\<lparr>b_data := d\<rparr>)) (\<lambda>bh.
            let (_, bs) = bask bv (BlkDirty b) (put_block b bh bs) in
            Inr (arr, bs\<lparr>bd_quota := bd_quota bs - 1\<rparr>))))))"

subsection \<open>Searching the block\<close>

record block_find =
  bf_s :: ext4_xattr_search
  bf_base :: bool
  bf_bh :: "nat option"

text \<open>\<open>bf_base\<close> says that the search has a block: \<open>s.base\<close> is not NULL.\<close>

definition block_find0 :: block_find where
  "block_find0 = \<lparr>bf_s = ibody_search0, bf_base = False, bf_bh = None\<rparr>"

definition ext4_xattr_block_find ::
    "ext4_env \<Rightarrow> ext4_inode \<Rightarrow> ext4_xattr_info \<Rightarrow> block_find \<Rightarrow> blk_state \<Rightarrow> (int \<times> block_find \<times> blk_state) kres" where
  "ext4_xattr_block_find env inode i f bs =
     (if i_file_acl inode = 0 then Inr (0, f, bs)
      else case bd_blocks bs (i_file_acl inode) of
        Inl error \<Rightarrow> Inr (error, f\<lparr>bf_bh := None\<rparr>, bs)
      | Inr bh \<Rightarrow>
          kbind (u_ext4_xattr_check_block env bh) (\<lambda>(error, bh).
          let f = f\<lparr>bf_bh := Some (i_file_acl inode)\<rparr>;
              bs = put_block (i_file_acl inode) bh bs in
          if error \<noteq> 0 then Inr (error, f, bs)
          else
            kbind (xattr_find_entry (b_data bh) BFIRST (length (b_data bh)) (i_name_index i) (Some (i_name i)) True) (\<lambda>(error, here).
            let s = \<lparr>s_first = BFIRST, s_base = 0, s_end = length (b_data bh), s_here = here, s_not_found = s_not_found (bf_s f)\<rparr> in
            if error \<noteq> 0 \<and> error \<noteq> - ENODATA then Inr (error, f\<lparr>bf_s := s, bf_base := True\<rparr>, bs)
            else Inr (0, f\<lparr>bf_s := s\<lparr>s_not_found := error\<rparr>, bf_base := True\<rparr>, bs))))"

subsection \<open>Changing the block\<close>

text \<open>
  The work in progress: the bytes of the new block and the search in them, whether they are those of the old block, the
  inode of the new value with its extra reference, and the quota of the old value to be freed at the end.
\<close>

record block_work =
  bw_buf :: "u8 list"
  bw_s :: ext4_xattr_search
  bw_inplace :: bool
  bw_ea :: "nat option"
  bw_quota :: nat

text \<open>A block with one user is changed where it is, unless its cache entry is in use.\<close>

definition block_in_place ::
    "set_env \<Rightarrow> ea_services \<Rightarrow> blk_services \<Rightarrow> ext4_env \<Rightarrow> ext4_inode \<Rightarrow> ext4_xattr_info \<Rightarrow> ext4_xattr_search \<Rightarrow> nat \<Rightarrow> xattr_block \<Rightarrow>
     blk_state \<Rightarrow> ((int + block_work) \<times> blk_state) kres" where
  "block_in_place se sv bv env inode i s b bh bs =
     kbind (ext4_xattr_set_entry se sv env inode i s True (b_data bh) (bd_ea bs)) (\<lambda>(error, buf, st).
     kbind (ext4_xattr_block_csum_set env (bh\<lparr>b_data := buf\<rparr>)) (\<lambda>bh.
     let bs = put_block b bh (bs\<lparr>bd_ea := st\<rparr>) in
     if error \<noteq> 0 then Inr (Inl error, bs)
     else
       let (error, bs) = bask bv (BlkDirty b) bs in
       if error \<noteq> 0 then Inr (Inl error, bs)
       else Inr (Inr \<lparr>bw_buf = b_data bh, bw_s = s, bw_inplace = True, bw_ea = None, bw_quota = 0\<rparr>, bs)))"

text \<open>
  In a copy the entry to be replaced is made to look empty when its value has an inode, since that reference belongs to
  the old block. The result is the copy and the quota to be freed.
\<close>

definition clone_block ::
    "ext4_env \<Rightarrow> ext4_inode \<Rightarrow> ext4_xattr_search \<Rightarrow> u8 list \<Rightarrow> blk_state \<Rightarrow> ((int + u8 list \<times> nat) \<times> blk_state) kres" where
  "clone_block env inode s buf bs =
     kbind (set_h_refcount buf 1) (\<lambda>buf.
     if s_not_found s \<noteq> 0 then Inr (Inr (buf, 0), bs)
     else
       kbind (e_value_inum buf (s_here s)) (\<lambda>ea_ino.
       kbind (e_hash buf (s_here s)) (\<lambda>hash.
       kbind (e_value_size buf (s_here s)) (\<lambda>sz.
       if ea_ino = 0 then Inr (Inr (buf, 0), bs)
       else case on_ea (ea_iget env inode ea_ino (of_nat hash)) bs of
         (Inl error, bs) \<Rightarrow> Inr (Inl error, bs)
       | (Inr tmp_inode, bs) \<Rightarrow>
           let old_ea_inode_quota = (case ea_inodes (bd_ea bs) tmp_inode of Inr x \<Rightarrow> if ea_lustre x then 0 else sz | Inl _ \<Rightarrow> sz);
               bs = bs\<lparr>bd_ea := iput tmp_inode (bd_ea bs)\<rparr> in
           kbind (set_e_value_inum buf (s_here s) 0) (\<lambda>buf.
           kbind (set_e_value_size buf (s_here s) 0) (\<lambda>buf.
           Inr (Inr (buf, old_ea_inode_quota), bs)))))))"

definition new_block_bytes :: "set_env \<Rightarrow> u8 list" where
  "new_block_bytes se = le_bytes 4 EXT4_XATTR_MAGIC @ le_bytes 4 1 @ le_bytes 4 1 @ replicate (set_blocksize se - 12) 0"

text \<open>The change in a copy or in a new block, and the inode of the new value.\<close>

definition block_edit_copy ::
    "set_env \<Rightarrow> ea_services \<Rightarrow> ext4_env \<Rightarrow> ext4_inode \<Rightarrow> ext4_xattr_info \<Rightarrow> ext4_xattr_search \<Rightarrow> u8 list \<Rightarrow> nat \<Rightarrow> blk_state \<Rightarrow>
     ((int + block_work) \<times> blk_state) kres" where
  "block_edit_copy se sv env inode i s buf quota bs =
     kbind (ext4_xattr_set_entry se sv env inode i s True buf (bd_ea bs)) (\<lambda>(error, buf, st).
     let bs = bs\<lparr>bd_ea := st\<rparr> in
     if error \<noteq> 0 then Inr (Inl error, bs)
     else
       kbind (if i_value i = None then Inr 0 else e_value_inum buf (s_here s)) (\<lambda>ea_ino.
       if ea_ino = 0 then Inr (Inr \<lparr>bw_buf = buf, bw_s = s, bw_inplace = False, bw_ea = None, bw_quota = quota\<rparr>, bs)
       else
         kbind (e_hash buf (s_here s)) (\<lambda>hash.
         case on_ea (ea_iget env inode ea_ino (of_nat hash)) bs of
           (Inl error, bs) \<Rightarrow> Inr (Inl error, bs)
         | (Inr ea_inode, bs) \<Rightarrow>
             Inr (Inr \<lparr>bw_buf = buf, bw_s = s, bw_inplace = False, bw_ea = Some ea_inode, bw_quota = quota\<rparr>, bs))))"

definition block_prepare ::
    "set_env \<Rightarrow> ea_services \<Rightarrow> blk_services \<Rightarrow> ext4_env \<Rightarrow> ext4_inode \<Rightarrow> ext4_xattr_info \<Rightarrow> block_find \<Rightarrow> blk_state \<Rightarrow>
     ((int + block_work) \<times> blk_state) kres" where
  "block_prepare se sv bv env inode i f bs =
     (if bf_base f then
        case bf_bh f of
          None \<Rightarrow> Inl NullDereference
        | Some b \<Rightarrow>
            let (error, bs) = bask bv (BlkWriteAccess b) bs in
            if error \<noteq> 0 then Inr (Inl error, bs)
            else case bd_blocks bs b of
              Inl _ \<Rightarrow> Inl (UseAfterFree b)
            | Inr bh \<Rightarrow>
                kbind (h_refcount (b_data bh)) (\<lambda>ref.
                kbind (h_hash (b_data bh)) (\<lambda>hash.
                let (oe, bs) = (if ref = 1 \<and> bsvc_cached bv \<noteq> None then bask bv (CacheInUse b) bs else (0, bs)) in
                if ref = 1 \<and> oe = 0 then
                  block_in_place se sv bv env inode i (bf_s f) b bh (if bsvc_cached bv = None then bs else cache_log (CacheDelete hash b) bs)
                else
                  let (nomem, bs) = bask bv Kmemdup bs in
                  if nomem \<noteq> 0 then Inr (Inl (- ENOMEM), bs)
                  else
                    kbind (clone_block env inode (bf_s f) (b_data bh) bs) (\<lambda>(r, bs).
                    case r of
                      Inl error \<Rightarrow> Inr (Inl error, bs)
                    | Inr (buf, quota) \<Rightarrow> block_edit_copy se sv env inode i (bf_s f) buf quota bs)))
      else
        let (nomem, bs) = bask bv Kzalloc bs in
        if nomem \<noteq> 0 then Inr (Inl (- ENOMEM), bs)
        else
          block_edit_copy se sv env inode i
            ((bf_s f)\<lparr>s_first := BFIRST, s_base := 0, s_here := BFIRST, s_end := set_blocksize se\<rparr>) (new_block_bytes se) 0 bs)"

text \<open>
  Sharing an equal block found in the cache. \<open>None\<close> says that the block has as many users as it may have, and the
  search has to be repeated.
\<close>

definition share_block :: "blk_services \<Rightarrow> ext4_env \<Rightarrow> nat \<Rightarrow> blk_state \<Rightarrow> (int option \<times> blk_state) kres" where
  "share_block bv env b bs =
     (let (error, bs) = bask bv DquotAllocBlock bs in
      if error \<noteq> 0 then Inr (Some error, bs)
      else
        let bs = bs\<lparr>bd_quota := bd_quota bs + 1\<rparr>;
            (error, bs) = bask bv (BlkWriteAccess b) bs in
        if error \<noteq> 0 then Inr (Some error, bs\<lparr>bd_quota := bd_quota bs - 1\<rparr>)
        else case bd_blocks bs b of
          Inl _ \<Rightarrow> Inl (UseAfterFree b)
        | Inr bh \<Rightarrow>
            kbind (h_refcount (b_data bh)) (\<lambda>ref.
            let ref = (ref + 1) mod 2 ^ 32 in
            if EXT4_XATTR_REFCOUNT_MAX < ref then Inr (None, bs\<lparr>bd_quota := bd_quota bs - 1\<rparr>)
            else
              kbind (h_hash (b_data bh)) (\<lambda>hash.
              kbind (set_h_refcount (b_data bh) ref) (\<lambda>d.
              kbind (ext4_xattr_block_csum_set env (bh\<lparr>b_data := d\<rparr>)) (\<lambda>bh.
              let bs = (if ref = EXT4_XATTR_REFCOUNT_MAX then cache_log (CacheReusable hash b False) bs else bs);
                  (error, bs) = bask bv (BlkDirty b) (put_block b bh bs) in
              if error \<noteq> 0 then Inr (Some error, bs\<lparr>bd_quota := bd_quota bs - 1\<rparr>)
              else Inr (Some 0, bs))))))"

text \<open>A new block: the work loses the extra reference on the inode of the value once the block has its own.\<close>

definition alloc_block ::
    "ea_services \<Rightarrow> blk_services \<Rightarrow> ext4_env \<Rightarrow> ext4_inode \<Rightarrow> block_work \<Rightarrow> blk_state \<Rightarrow> ((int + nat) \<times> block_work \<times> blk_state) kres" where
  "alloc_block sv bv env inode w bs =
     (case bsvc_new_block bv (ea_calls (bd_ea bs)) of
        Inl error \<Rightarrow> Inr (Inl error, w, bs\<lparr>bd_ea := (bd_ea bs)\<lparr>ea_calls := ea_calls (bd_ea bs) + 1\<rparr>\<rparr>)
      | Inr block \<Rightarrow>
          let (nomem, bs) = bask bv (BlkGetblk block) bs in
          if nomem \<noteq> 0 then Inr (Inl (- ENOMEM), w, free_block block bs)
          else
            kbind (ext4_xattr_inode_inc_ref_all sv env inode (bw_buf w) BFIRST (bd_ea bs)) (\<lambda>(error, st).
            let bs = bs\<lparr>bd_ea := st\<rparr> in
            if error \<noteq> 0 then Inr (Inl error, w, free_block block bs)
            else
              let bs = (case bw_ea w of
                          None \<Rightarrow> bs
                        | Some ea_inode \<Rightarrow> bs\<lparr>bd_ea := iput ea_inode (snd (ext4_xattr_inode_dec_ref sv ea_inode (bd_ea bs)))\<rparr>);
                  w = w\<lparr>bw_ea := None\<rparr>;
                  (error, bs) = bask bv (BlkCreateAccess block) bs in
              if error \<noteq> 0 then Inr (Inl (- EIO), w, free_block block bs)
              else
                kbind (ext4_xattr_block_csum_set env \<lparr>b_data = bw_buf w, b_blocknr = block, b_verified = False\<rparr>) (\<lambda>bh.
                kbind (ext4_xattr_block_cache_insert bv block (b_data bh) (put_block block bh bs)) (\<lambda>bs.
                let (error, bs) = bask bv (BlkDirty block) bs in
                if error \<noteq> 0 then Inr (Inl error, w, bs) else Inr (Inr block, w, bs)))))"

text \<open>Without an equal block: the block that was changed in place, or a new one.\<close>

definition own_block ::
    "ea_services \<Rightarrow> blk_services \<Rightarrow> ext4_env \<Rightarrow> ext4_inode \<Rightarrow> nat option \<Rightarrow> block_work \<Rightarrow> blk_state \<Rightarrow>
     ((int + nat option) \<times> block_work \<times> blk_state) kres" where
  "own_block sv bv env inode old w bs =
     (if bw_inplace w then
        case old of
          None \<Rightarrow> Inl NullDereference
        | Some b \<Rightarrow> kbind (ext4_xattr_block_cache_insert bv b (bw_buf w) bs) (\<lambda>bs. Inr (Inr old, w, bs))
      else
        kbind (alloc_block sv bv env inode w bs) (\<lambda>(r, w, bs).
        Inr (case r of Inl error \<Rightarrow> Inl error | Inr b \<Rightarrow> Inr (Some b), w, bs)))"

text \<open>
  Where the attributes go: nowhere when there are none left, to an equal block, to the block they were changed in, or to
  a new one. Out of rounds, a search that meets only full blocks counts as one that finds nothing.
\<close>

fun place_block ::
    "nat \<Rightarrow> ea_services \<Rightarrow> blk_services \<Rightarrow> ext4_env \<Rightarrow> ext4_inode \<Rightarrow> nat option \<Rightarrow> block_work \<Rightarrow> blk_state \<Rightarrow>
     ((int + nat option) \<times> block_work \<times> blk_state) kres" where
  "place_block n sv bv env inode old w bs =
     kbind (IS_LAST_ENTRY (bw_buf w) (s_first (bw_s w))) (\<lambda>empty.
     if empty then Inr (Inr None, w, bs)
     else
       kbind (case n of 0 \<Rightarrow> Inr None | Suc _ \<Rightarrow> ext4_xattr_block_cache_find bv (bw_buf w) bs) (\<lambda>found.
       case found of
         Some b \<Rightarrow>
           if old = Some b then Inr (Inr old, w, bs)
           else
             kbind (share_block bv env b bs) (\<lambda>(r, bs).
             case r of
               None \<Rightarrow> (case n of 0 \<Rightarrow> Inl BugOn | Suc n \<Rightarrow> place_block n sv bv env inode old w bs)
             | Some error \<Rightarrow> Inr (if error \<noteq> 0 then Inl error else Inr (Some b), w, bs))
       | None \<Rightarrow> own_block sv bv env inode old w bs))"

declare place_block.simps [simp del]

definition block_cleanup :: "ea_services \<Rightarrow> int \<Rightarrow> nat option \<Rightarrow> blk_state \<Rightarrow> blk_state" where
  "block_cleanup sv error ea bs =
     (case ea of
        None \<Rightarrow> bs
      | Some ea_inode \<Rightarrow>
          let st = snd (ext4_xattr_inode_dec_ref sv ea_inode (bd_ea bs));
              sz = (case ea_inodes st ea_inode of Inl _ \<Rightarrow> 0 | Inr x \<Rightarrow> ea_size x);
              st = (if error \<noteq> 0 then ext4_xattr_inode_free_quota sv (Some ea_inode) sz st else st) in
          bs\<lparr>bd_ea := iput ea_inode st\<rparr>)"

definition ext4_xattr_block_set ::
    "set_env \<Rightarrow> ea_services \<Rightarrow> blk_services \<Rightarrow> ext4_env \<Rightarrow> ext4_inode \<Rightarrow> ext4_xattr_info \<Rightarrow> block_find \<Rightarrow> blk_state \<Rightarrow>
     (int \<times> ext4_inode \<times> blk_state) kres" where
  "ext4_xattr_block_set se sv bv env inode i f bs =
     kbind (block_prepare se sv bv env inode i f bs) (\<lambda>(prepared, bs).
     case prepared of
       Inl error \<Rightarrow> Inr (error, inode, bs)
     | Inr w \<Rightarrow>
         kbind (place_block (bsvc_rounds bv) sv bv env inode (bf_bh f) w bs) (\<lambda>(placed, w, bs).
         case placed of
           Inl error \<Rightarrow> Inr (error, inode, block_cleanup sv error (bw_ea w) bs)
         | Inr new_bh \<Rightarrow>
             let bs = (if bw_quota w \<noteq> 0 then bs\<lparr>bd_ea := ext4_xattr_inode_free_quota sv None (bw_quota w) (bd_ea bs)\<rparr> else bs);
                 inode = inode\<lparr>i_file_acl := (case new_bh of None \<Rightarrow> 0 | Some b \<Rightarrow> b)\<rparr> in
             kbind (if bf_bh f \<noteq> None \<and> bf_bh f \<noteq> new_bh then
                      kbind (ext4_xattr_release_block se sv bv env inode (the (bf_bh f)) [] bs) (\<lambda>(arr, bs).
                      Inr (ext4_xattr_inode_array_free arr bs))
                    else Inr bs) (\<lambda>bs.
             Inr (0, inode, block_cleanup sv 0 (bw_ea w) bs))))"

subsection \<open>Credits of the journal\<close>

text \<open>One more for every entry of the block whose value has an inode.\<close>

function inum_count :: "u8 list \<Rightarrow> nat \<Rightarrow> int kres" where
  "inum_count buf entry =
     kbind (IS_LAST_ENTRY buf entry) (\<lambda>stop.
     if stop then Inr 0
     else
       kbind (e_value_inum buf entry) (\<lambda>inum.
       kbind (EXT4_XATTR_NEXT buf entry) (\<lambda>nxt.
       kbind (inum_count buf nxt) (\<lambda>n. Inr (if inum \<noteq> 0 then n + 1 else n)))))"
  by pat_completeness auto
termination
  by (relation "measure (\<lambda>(buf, e). length buf - e)") (auto dest!: EXT4_XATTR_NEXT_later IS_LAST_bounds)

declare inum_count.simps [simp del]

definition u_ext4_xattr_set_credits ::
    "set_env \<Rightarrow> blk_services \<Rightarrow> u8 list option \<Rightarrow> nat \<Rightarrow> bool \<Rightarrow> int kres" where
  "u_ext4_xattr_set_credits se bv block_bh value_len is_create =
     (let credits = 7 + quota_trans_blocks bv;
          credits = (if has_inline_data se then credits + writepage_trans_blocks bv + 1 else credits) in
      if \<not> has_feature_ea_inode se then Inr credits
      else
        let blocks = (value_len + set_blocksize se - 1) div set_blocksize se + 1;
            credits = credits + 4 + 2 * int blocks + int blocks;
            old_blocks = 65536 div set_blocksize se + 1;
            credits = (if is_create then credits else credits + 4 + 2 * int old_blocks) in
        case block_bh of
          None \<Rightarrow> Inr credits
        | Some buf \<Rightarrow> kbind (inum_count buf BFIRST) (\<lambda>n. Inr (credits + n)))"

text \<open>The block of the inode, checked: \<open>None\<close> when it has none.\<close>

definition ext4_xattr_get_block :: "ext4_env \<Rightarrow> ext4_inode \<Rightarrow> blk_state \<Rightarrow> ((int + u8 list option) \<times> blk_state) kres" where
  "ext4_xattr_get_block env inode bs =
     (if i_file_acl inode = 0 then Inr (Inr None, bs)
      else case bd_blocks bs (i_file_acl inode) of
        Inl error \<Rightarrow> Inr (Inl error, bs)
      | Inr bh \<Rightarrow>
          kbind (u_ext4_xattr_check_block env bh) (\<lambda>(error, bh).
          Inr (if error \<noteq> 0 then Inl error else Inr (Some (b_data bh)), put_block (i_file_acl inode) bh bs)))"

definition ext4_xattr_set_credits ::
    "set_env \<Rightarrow> blk_services \<Rightarrow> ext4_env \<Rightarrow> ext4_inode \<Rightarrow> nat \<Rightarrow> bool \<Rightarrow> blk_state \<Rightarrow> (int \<times> int \<times> blk_state) kres" where
  "ext4_xattr_set_credits se bv env inode value_len is_create bs =
     (if \<not> bsvc_journal bv then Inr (0, 0, bs)
      else
        kbind (ext4_xattr_get_block env inode bs) (\<lambda>(bh, bs).
        case bh of
          Inl err \<Rightarrow> Inr (err, 0, bs)
        | Inr block \<Rightarrow> kbind (u_ext4_xattr_set_credits se bv block value_len is_create) (\<lambda>credits. Inr (0, credits, bs))))"

subsection \<open>Setting an attribute\<close>

text \<open>
  The inode with its raw bytes, the search in its body and the search in its block, as the calls below pass them on.
\<close>

record set_ctx =
  sc_inode :: ext4_inode
  sc_is :: ext4_xattr_search
  sc_bs :: block_find
  sc_blk :: blk_state

definition ctx_ibody_set :: "set_env \<Rightarrow> ea_services \<Rightarrow> ext4_env \<Rightarrow> ext4_xattr_info \<Rightarrow> set_ctx \<Rightarrow> (int \<times> set_ctx) kres" where
  "ctx_ibody_set se sv env i c =
     (case raw_inode (sc_inode c) of
        Inl _ \<Rightarrow> Inl NullDereference
      | Inr raw \<Rightarrow>
          kbind (ext4_xattr_ibody_set se sv env (sc_inode c) i (sc_is c) raw (bd_ea (sc_blk c))) (\<lambda>(error, raw, state, st).
          Inr (error, c\<lparr>sc_inode := (sc_inode c)\<lparr>raw_inode := Inr raw, x_state_xattr := state\<rparr>,
                        sc_blk := (sc_blk c)\<lparr>bd_ea := st\<rparr>\<rparr>)))"

definition ctx_block_set :: "set_env \<Rightarrow> ea_services \<Rightarrow> blk_services \<Rightarrow> ext4_env \<Rightarrow> ext4_xattr_info \<Rightarrow> set_ctx \<Rightarrow> (int \<times> set_ctx) kres" where
  "ctx_block_set se sv bv env i c =
     kbind (ext4_xattr_block_set se sv bv env (sc_inode c) i (sc_bs c) (sc_blk c)) (\<lambda>(error, inode, bs).
     Inr (error, c\<lparr>sc_inode := inode, sc_blk := bs\<rparr>))"

text \<open>
  From \<^verbatim>\<open>retry_inode\<close> on: first into the body of the inode, and out of the block if it was there; without room there into the
  block, and out of the body. The last component says that the value should be tried in an inode of its own.
\<close>

definition set_value_once ::
    "set_env \<Rightarrow> ea_services \<Rightarrow> blk_services \<Rightarrow> ext4_env \<Rightarrow> ext4_xattr_info \<Rightarrow> set_ctx \<Rightarrow> (int \<times> set_ctx \<times> bool) kres" where
  "set_value_once se sv bv env i c =
     kbind (ctx_ibody_set se sv env i c) (\<lambda>(error, c).
     if error = 0 \<and> s_not_found (bf_s (sc_bs c)) = 0 then
       kbind (ctx_block_set se sv bv env (i\<lparr>i_value := None\<rparr>) c) (\<lambda>(error, c). Inr (error, c, False))
     else if error = - ENOSPC then
       kbind (if i_file_acl (sc_inode c) \<noteq> 0 \<and> \<not> bf_base (sc_bs c) then
                kbind (ext4_xattr_block_find env (sc_inode c) i ((sc_bs c)\<lparr>bf_bh := None\<rparr>) (sc_blk c)) (\<lambda>(error, f, bs).
                Inr (error, c\<lparr>sc_bs := f, sc_blk := bs\<rparr>))
              else Inr (0, c)) (\<lambda>(error, c).
       if error \<noteq> 0 then Inr (error, c, False)
       else
         kbind (ctx_block_set se sv bv env i c) (\<lambda>(error, c).
         if error = 0 \<and> s_not_found (sc_is c) = 0 then
           kbind (ctx_ibody_set se sv env (i\<lparr>i_value := None\<rparr>) c) (\<lambda>(error, c). Inr (error, c, False))
         else Inr (error, c, error = - ENOSPC \<and> has_feature_ea_inode se \<and> i_value_len i \<noteq> 0 \<and> \<not> i_in_inode i)))
     else Inr (error, c, False))"

definition set_value ::
    "set_env \<Rightarrow> ea_services \<Rightarrow> blk_services \<Rightarrow> ext4_env \<Rightarrow> ext4_xattr_info \<Rightarrow> set_ctx \<Rightarrow> (int \<times> set_ctx) kres" where
  "set_value se sv bv env i c =
     kbind (set_value_once se sv bv env i c) (\<lambda>(error, c, retry_inode).
     if retry_inode then kbind (set_value_once se sv bv env (i\<lparr>i_in_inode := True\<rparr>) c) (\<lambda>(error, c, _). Inr (error, c))
     else Inr (error, c))"

definition EXT4_XATTR_MIN_LARGE_EA_SIZE :: "nat \<Rightarrow> int" where
  "EXT4_XATTR_MIN_LARGE_EA_SIZE b = int b - int (EXT4_XATTR_LEN 3) - 32 - 4"

text \<open>
  The value of the entry that was found, in the body or in the block, is compared with the new one first; with no
  change there is nothing to do. \<open>None\<close> says so.
\<close>

definition unchanged_value :: "ext4_xattr_info \<Rightarrow> set_ctx \<Rightarrow> bool kres" where
  "unchanged_value i c =
     kbind (if s_not_found (sc_is c) \<noteq> 0 then Inr False
            else case raw_inode (sc_inode c) of Inl _ \<Rightarrow> Inl NullDereference | Inr raw \<Rightarrow> ext4_xattr_value_same raw (sc_is c) i) (\<lambda>same.
     if same then Inr True
     else if s_not_found (bf_s (sc_bs c)) \<noteq> 0 then Inr False
     else case bf_bh (sc_bs c) of
       None \<Rightarrow> Inl NullDereference
     | Some b \<Rightarrow> (case bd_blocks (sc_blk c) b of
           Inl _ \<Rightarrow> Inl (UseAfterFree b)
         | Inr bh \<Rightarrow> ext4_xattr_value_same (b_data bh) (bf_s (sc_bs c)) i))"

text \<open>What is done with the two searches: the error and whether the inode is to be written.\<close>

definition set_found ::
    "set_env \<Rightarrow> ea_services \<Rightarrow> blk_services \<Rightarrow> ext4_env \<Rightarrow> ext4_xattr_info \<Rightarrow> s32 \<Rightarrow> set_ctx \<Rightarrow> (int \<times> bool \<times> set_ctx) kres" where
  "set_found se sv bv env i flags c =
     (let absent = (s_not_found (sc_is c) \<noteq> 0 \<and> s_not_found (bf_s (sc_bs c)) \<noteq> 0) in
      if absent \<and> flags AND XATTR_REPLACE \<noteq> 0 then Inr (- ENODATA, False, c)
      else if absent \<and> i_value i = None then Inr (0, False, c)
      else if \<not> absent \<and> flags AND XATTR_CREATE \<noteq> 0 then Inr (- EEXIST, False, c)
      else if i_value i = None then
        kbind (if s_not_found (sc_is c) = 0 then ctx_ibody_set se sv env i c else ctx_block_set se sv bv env i c) (\<lambda>(error, c).
        Inr (error, True, c))
      else
        kbind (unchanged_value i c) (\<lambda>same.
        if same then Inr (0, False, c)
        else
          let large = has_feature_ea_inode se \<and> EXT4_XATTR_MIN_LARGE_EA_SIZE (set_blocksize se) < int (padded_size (i_value_len i)) in
          kbind (set_value se sv bv env (i\<lparr>i_in_inode := large\<rparr>) c) (\<lambda>(error, c). Inr (error, True, c))))"

text \<open>
  \<open>state_new\<close> is the flag \<^verbatim>\<open>EXT4_STATE_NEW\<close>, under which the raw inode is cleared first. The time of the change, the feature
  flag of the superblock and the fast commit are left out.
\<close>

definition ext4_xattr_set_handle ::
    "set_env \<Rightarrow> ea_services \<Rightarrow> blk_services \<Rightarrow> ext4_env \<Rightarrow> bool \<Rightarrow> ext4_inode \<Rightarrow> nat \<Rightarrow> string option \<Rightarrow> u8 list option \<Rightarrow> s32 \<Rightarrow>
     blk_state \<Rightarrow> (int \<times> ext4_inode \<times> blk_state) kres" where
  "ext4_xattr_set_handle se sv bv env state_new inode name_index name val flags bs =
     (case name of
        None \<Rightarrow> Inr (- EINVAL, inode, bs)
      | Some name \<Rightarrow>
          if 255 < length name then Inr (- ERANGE, inode, bs)
          else
            let i = \<lparr>i_name = name, i_value = map_option Value val, i_value_len = (case val of None \<Rightarrow> 0 | Some v \<Rightarrow> length v),
                     i_name_index = name_index, i_in_inode = False\<rparr> in
            kbind (if bsvc_journal bv then
                     kbind (ext4_xattr_get_block env inode bs) (\<lambda>(bh, bs).
                     case bh of
                       Inl error \<Rightarrow> Inr (error, bs)
                     | Inr block \<Rightarrow>
                         kbind (u_ext4_xattr_set_credits se bv block (i_value_len i) (flags AND XATTR_CREATE \<noteq> 0)) (\<lambda>credits.
                         let (have_credits, bs) = bask bv HandleCredits bs in
                         Inr (if have_credits < credits then - ENOSPC else 0, bs)))
                   else Inr (0, bs)) (\<lambda>(error, bs).
            if error \<noteq> 0 then Inr (error, inode, bs)
            else
              let (error, bs) = bask bv (ReserveWrite (x_ino inode)) bs in
              if error \<noteq> 0 then Inr (error, inode, bs)
              else case raw_inode inode of
                Inl error \<Rightarrow> Inr (error, inode, bs)
              | Inr raw \<Rightarrow>
                  let raw = (if state_new then replicate (length raw) 0 else raw);
                      inode = inode\<lparr>raw_inode := Inr raw\<rparr> in
                  kbind (ext4_xattr_ibody_find env inode i raw) (\<lambda>(error, s).
                  if error \<noteq> 0 then Inr (error, inode, bs)
                  else
                    kbind (if s_not_found s \<noteq> 0 then ext4_xattr_block_find env inode i block_find0 bs else Inr (0, block_find0, bs))
                      (\<lambda>(error, f, bs).
                    if error \<noteq> 0 then Inr (error, inode, bs)
                    else
                      kbind (set_found se sv bv env i flags \<lparr>sc_inode = inode, sc_is = s, sc_bs = f, sc_blk = bs\<rparr>) (\<lambda>(error, write, c).
                      if error \<noteq> 0 \<or> \<not> write then Inr (error, sc_inode c, sc_blk c)
                      else
                        let (error, bs) = bask bv (MarkDirty (x_ino inode)) (sc_blk c) in
                        Inr (error, sc_inode c, bs))))))"

text \<open>A transaction of its own, repeated while space may become free.\<close>

fun ext4_xattr_set_loop ::
    "nat \<Rightarrow> set_env \<Rightarrow> ea_services \<Rightarrow> blk_services \<Rightarrow> ext4_env \<Rightarrow> ext4_inode \<Rightarrow> nat \<Rightarrow> string option \<Rightarrow> u8 list option \<Rightarrow> s32 \<Rightarrow>
     blk_state \<Rightarrow> (int \<times> ext4_inode \<times> blk_state) kres" where
  "ext4_xattr_set_loop retries se sv bv env inode name_index name val flags bs =
     kbind (ext4_xattr_set_credits se bv env inode (case val of None \<Rightarrow> 0 | Some v \<Rightarrow> length v) (flags AND XATTR_CREATE \<noteq> 0) bs)
       (\<lambda>(error, credits, bs).
     if error \<noteq> 0 then Inr (error, inode, bs)
     else
       let (error, bs) = bask bv JournalStart bs in
       if error \<noteq> 0 then Inr (error, inode, bs)
       else
         kbind (ext4_xattr_set_handle se sv bv env False inode name_index name val flags bs) (\<lambda>(error, inode, bs).
         let (error2, bs) = bask bv JournalStop bs in
         if error = - ENOSPC then
           let (again, bs) = bask bv RetrySet bs in
           case retries of
             0 \<Rightarrow> Inr (error, inode, bs)
           | Suc n \<Rightarrow> if again \<noteq> 0 then ext4_xattr_set_loop n se sv bv env inode name_index name val flags bs else Inr (error, inode, bs)
         else Inr (if error = 0 then error2 else error, inode, bs)))"

declare ext4_xattr_set_loop.simps [simp del]

definition ext4_xattr_set ::
    "set_env \<Rightarrow> ea_services \<Rightarrow> blk_services \<Rightarrow> ext4_env \<Rightarrow> ext4_inode \<Rightarrow> nat \<Rightarrow> string option \<Rightarrow> u8 list option \<Rightarrow> s32 \<Rightarrow>
     blk_state \<Rightarrow> (int \<times> ext4_inode \<times> blk_state) kres" where
  "ext4_xattr_set se sv bv env inode name_index name val flags bs =
     (let (error, bs) = bask bv DquotInitialize bs in
      if error \<noteq> 0 then Inr (error, inode, bs)
      else ext4_xattr_set_loop (bsvc_retries bv) se sv bv env inode name_index name val flags bs)"

end
