(* ===== verification/Ext4_Block_Inv.thy ===== *)
theory Ext4_Block_Inv
  imports Ext4_Block "HOL-Library.Product_Lexorder" "HOL-Library.List_Lexorder"
begin

text \<open>
  What blocks of attributes promise: their entries are sorted, so that the search may stop early; a block found in the cache
  has the attributes that were looked for; and a change copies a block that other inodes use, so that they keep theirs.
\<close>

subsection \<open>Sorted tables\<close>

text \<open>Names are ordered by index, then by length, then by their bytes.\<close>

definition okey :: "nat \<times> u8 list \<Rightarrow> nat \<times> nat \<times> u8 list" where
  "okey k = (fst k, length (snd k), snd k)"

definition ordered :: "(nat \<times> u8 list) list \<Rightarrow> bool" where
  "ordered ks = sorted_wrt (<) (map okey ks)"

lemma okey_inj [simp]: "okey a = okey b \<longleftrightarrow> a = b"
  by (auto simp: okey_def prod_eq_iff)

lemma memcmp_less: "length a = length b \<Longrightarrow> memcmp_sign a b < 0 \<longleftrightarrow> a < b"
  by (induction a b rule: memcmp_sign.induct) auto

lemma ecmp_less: "ecmp k x < 0 \<longleftrightarrow> okey k < okey (tkey x)"
  using memcmp_less [of "snd k" "t_name x"] by (cases k) (auto simp: ecmp_def okey_def tkey_def)

lemma passes_sorted: "passes True k x \<longleftrightarrow> okey (tkey x) < okey k"
proof -
  have "ecmp k x = 0 \<longleftrightarrow> okey k = okey (tkey x)" using ecmp_0 [of k x] by auto
  then show ?thesis using ecmp_less [of k x] unfolding passes_def by (metis less_le_not_le linorder_not_less order_le_less)
qed

definition before :: "nat \<times> u8 list \<Rightarrow> xent list \<Rightarrow> xent list" where
  "before k es = takeWhile (\<lambda>x. okey (tkey x) < okey k) es"

definition behind :: "nat \<times> u8 list \<Rightarrow> xent list \<Rightarrow> xent list" where
  "behind k es = dropWhile (\<lambda>x. okey (tkey x) < okey k) es"

lemma before_behind: "before k es @ behind k es = es" "x \<in> set (before k es) \<Longrightarrow> okey (tkey x) < okey k"
  by (auto simp: before_def behind_def dest: set_takeWhileD)

lemma behind_sorted:
  assumes "ordered (map tkey es)" "x \<in> set (behind k es)"
  shows "\<not> okey (tkey x) < okey k"
proof -
  obtain y r where y: "behind k es = y # r" using assms(2) by (cases "behind k es") auto
  then have "\<not> okey (tkey y) < okey k" unfolding behind_def by (metis hd_dropWhile list.sel(1) list.discI)
  moreover have "sorted_wrt (<) (map okey (map tkey (before k es @ y # r)))" using assms(1) y before_behind(1) by (metis ordered_def)
  then have "x = y \<or> okey (tkey y) < okey (tkey x)" using assms(2) y by (auto simp: sorted_wrt_append)
  ultimately show ?thesis by auto
qed

lemma find_sorted:
  assumes l: "layout buf base P es G V m" and f: "first = length P" and o: "ordered (map tkey es)"
  shows "\<exists>err. xattr_find_entry buf first (length buf) (i_name_index i) (Some (i_name i)) True = Inr (err, first + length (tbytes (before (ikey i) es)))
    \<and> (err = 0 \<or> err = - ENODATA)
    \<and> search_ok buf base first es i \<lparr>s_first = first, s_base = base, s_end = length buf,
        s_here = first + length (tbytes (before (ikey i) es)), s_not_found = err\<rparr>"
proof -
  define k where "k = ikey i"
  have p: "passes True k = (\<lambda>x. okey (tkey x) < okey k)" by (simp add: fun_eq_iff passes_sorted)
  define err where "err = (case behind k es of [] \<Rightarrow> - ENODATA | x # _ \<Rightarrow> if ecmp k x \<noteq> 0 then - ENODATA else 0)"
  have e: "err = 0 \<or> err = - ENODATA" by (auto simp: err_def split: list.splits)
  have "xattr_find_entry buf first (length buf) (i_name_index i) (Some (i_name i)) True = Inr (err, first + length (tbytes (before k es)))"
    unfolding err_def before_def behind_def using find_table [OF l f, of i True] unfolding k_def [symmetric] p .
  moreover have "search_ok buf base first es i \<lparr>s_first = first, s_base = base, s_end = length buf,
      s_here = first + length (tbytes (before k es)), s_not_found = err\<rparr>"
  proof (cases "\<exists>x r. behind k es = x # r \<and> tkey x = k")
    case True
    then obtain x r where x: "behind k es = x # r" "tkey x = k" by blast
    then have "err = 0" using ecmp_0 [of k x] by (simp add: err_def)
    moreover have "es = before k es @ x # r" using x before_behind(1) [of k es] by simp
    ultimately show ?thesis using x unfolding search_ok_def k_def by fastforce
  next
    case False
    have "k \<notin> tkey ` set es"
    proof
      assume "k \<in> tkey ` set es"
      then obtain y where y: "y \<in> set es" "tkey y = k" by auto
      then have yb: "y \<in> set (behind k es)" using before_behind(1) [of k es] before_behind(2) [of y k es] by (metis Un_iff less_irrefl set_append)
      obtain x r where xr: "behind k es = x # r" using yb by (cases "behind k es") auto
      have "sorted_wrt (<) (map okey (map tkey (before k es @ x # r)))" using o xr before_behind(1) by (metis ordered_def)
      then have "x = y \<or> okey (tkey x) < okey k" using yb xr y(2) by (auto simp: sorted_wrt_append)
      then show False using behind_sorted [OF o, of x k] xr False y(2) by auto
    qed
    moreover have "err \<noteq> 0" using False ecmp_0 [of k] by (auto simp: err_def ENODATA_def split: list.splits)
    ultimately show ?thesis using before_behind(1) [of k es, symmetric] unfolding search_ok_def k_def by fastforce
  qed
  ultimately show ?thesis using e unfolding k_def by blast
qed

text \<open>The position of an entry says how many entries are before it.\<close>

lemma enc_not_Nil [simp]: "enc x \<noteq> []"
proof
  assume "enc x = []"
  then have "length (enc x) = 0" by simp
  then show False by (simp add: enc_def)
qed

lemma split_unique:
  assumes "a @ b = c @ d" "length (tbytes a) = length (tbytes c)" "\<forall>x \<in> set (a @ b). ent_ok x"
  shows "a = c"
  using assms
proof (induction a arbitrary: c)
  case Nil
  then show ?case using enc_not_Nil by (cases c) auto
next
  case (Cons x a)
  then show ?case using enc_not_Nil by (cases c) auto
qed

lemma key_change_ordered:
  assumes o: "ordered (map tkey es)" and k: "key_change first es i s ks" and ok: "\<forall>x \<in> set es. ent_ok x"
    and h: "s_here s = first + length (tbytes (before (ikey i) es))" and n: "s_not_found s \<noteq> 0 \<longrightarrow> ikey i \<notin> tkey ` set es"
  shows "ordered ks"
proof (cases "i_value i \<noteq> None \<and> s_not_found s \<noteq> 0")
  case True
  then obtain a b where a: "es = a @ b" "s_here s = first + length (tbytes a)" "ks = map tkey a @ ikey i # map tkey b"
    using k by (auto simp: key_change_def)
  have e: "before (ikey i) es @ behind (ikey i) es = es" by (rule before_behind(1))
  have "a = before (ikey i) es" using split_unique [of a b "before (ikey i) es" "behind (ikey i) es"] a h ok e by simp
  then have ab: "a = before (ikey i) es" "b = behind (ikey i) es" using a(1) e by (metis, metis append_eq_append_conv)
  have "okey (ikey i) < okey (tkey x)" if "x \<in> set b" for x
  proof -
    have "tkey x \<noteq> ikey i" using n True that a(1) by (metis Un_iff image_eqI set_append)
    then show ?thesis using behind_sorted [OF o, of x "ikey i"] that ab(2) by (metis linorder_less_linear okey_inj)
  qed
  moreover have "okey (tkey x) < okey (ikey i)" if "x \<in> set a" for x using before_behind(2) ab(1) that by blast
  moreover have "okey (tkey x) < okey (tkey y)" if "x \<in> set a" "y \<in> set b" for x y
    using o that a(1) by (auto simp: ordered_def sorted_wrt_append)
  ultimately show ?thesis using o a(1,3) by (auto simp: ordered_def sorted_wrt_append)
next
  case False
  then show ?thesis using k o by (auto simp: key_change_def ordered_def sorted_wrt_append split: if_splits)
qed

subsection \<open>Comparing blocks\<close>

definition same_entry :: "u8 list \<Rightarrow> u8 list \<Rightarrow> xent \<Rightarrow> xent \<Rightarrow> bool" where
  "same_entry buf1 buf2 x y = (t_hash x = t_hash y \<and> tkey x = tkey y \<and> t_size x = t_size y \<and> t_inum x = t_inum y
     \<and> (t_inum x = 0 \<longrightarrow> take (t_size x) (drop (t_offs x) buf1) = take (t_size y) (drop (t_offs y) buf2)))"

definition values_in :: "u8 list \<Rightarrow> xent list \<Rightarrow> bool" where
  "values_in buf es = (\<forall>x \<in> set es. ent_ok x \<and> (t_inum x = 0 \<longrightarrow> t_offs x + t_size x \<le> length buf))"

lemma cmp_loop_table:
  "buf1 = P1 @ tbytes es1 @ endmark @ R1 \<Longrightarrow> buf2 = P2 @ tbytes es2 @ endmark @ R2 \<Longrightarrow> values_in buf1 es1 \<Longrightarrow> values_in buf2 es2 \<Longrightarrow>
   xattr_cmp_loop buf1 buf2 (length P1) (length P2) = Inr (if list_all2 (same_entry buf1 buf2) es1 es2 then 0 else 1)"
proof (induction es1 arbitrary: P1 P2 es2)
  case Nil
  have l1: "IS_LAST_ENTRY buf1 (length P1) = Inr True" using endmark_last [of buf1 P1 R1] Nil.prems(1) by simp
  show ?case
  proof (cases es2)
    case Nil2: Nil
    then show ?thesis using l1 endmark_last [of buf2 P2 R2] Nil.prems(2) by (subst xattr_cmp_loop.simps) simp
  next
    case (Cons y es2')
    then have "IS_LAST_ENTRY buf2 (length P2) = Inr False"
      using enc_not_last [of buf2 P2 y "tbytes es2' @ endmark @ R2" "length P2"] Nil.prems(2,4) by (simp add: values_in_def)
    then show ?thesis using l1 Cons by (subst xattr_cmp_loop.simps) simp
  qed
next
  case (Cons x es1)
  have b1: "buf1 = P1 @ enc x @ (tbytes es1 @ endmark @ R1)" and x: "ent_ok x" using Cons.prems(1,3) by (simp_all add: values_in_def)
  note f1 = enc_not_last [OF b1 refl x] enc_next [OF b1 refl x] enc_hash [OF b1 refl x] enc_name_index [OF b1 refl x] enc_name_len [OF b1 refl x]
    enc_value_size [OF b1 refl x] enc_value_inum [OF b1 refl x] enc_value_offs [OF b1 refl x] enc_name [OF b1 refl x]
  show ?case
  proof (cases es2)
    case Nil
    then show ?thesis using f1(1) endmark_last [of buf2 P2 R2] Cons.prems(2) by (subst xattr_cmp_loop.simps) simp
  next
    case (Cons y es2')
    have b2: "buf2 = P2 @ enc y @ (tbytes es2' @ endmark @ R2)" and y: "ent_ok y" using Cons.prems(2,4) Cons by (simp_all add: values_in_def)
    note f2 = enc_not_last [OF b2 refl y] enc_next [OF b2 refl y] enc_hash [OF b2 refl y] enc_name_index [OF b2 refl y] enc_name_len [OF b2 refl y]
      enc_value_size [OF b2 refl y] enc_value_inum [OF b2 refl y] enc_value_offs [OF b2 refl y] enc_name [OF b2 refl y]
    have v1: "rd buf1 (t_offs x) (t_size x) = Inr (take (t_size x) (drop (t_offs x) buf1))" if "t_inum x = 0"
      using Cons.prems(3) that by (simp add: values_in_def rd_def)
    have v2: "rd buf2 (t_offs y) (t_size y) = Inr (take (t_size y) (drop (t_offs y) buf2))" if "t_inum y = 0"
      using Cons.prems(4) Cons that by (simp add: values_in_def rd_def)
    have step: "xattr_cmp_loop buf1 buf2 (length P1) (length P2) =
        (if same_entry buf1 buf2 x y then xattr_cmp_loop buf1 buf2 (length P1 + length (enc x)) (length P2 + length (enc y)) else Inr 1)"
    proof (cases "t_hash x = t_hash y \<and> tkey x = tkey y \<and> t_size x = t_size y \<and> t_inum x = t_inum y")
      case True
      then have n: "t_index x = t_index y" "t_name x = t_name y" by (auto simp: tkey_def)
      moreover have "e_name buf1 (length P1) (length (t_name y)) = Inr (t_name y)" using f1(9) n(2) by simp
      ultimately show ?thesis using True v1 v2 by (subst xattr_cmp_loop.simps) (auto simp: f1 f2 same_entry_def)
    next
      case False
      have "e_name buf1 (length P1) (length (t_name y)) = Inr (t_name x)" if "length (t_name x) = length (t_name y)" using f1(9) that by simp
      then show ?thesis using False
        by (subst xattr_cmp_loop.simps) (cases "length (t_name x) = length (t_name y)", auto simp: f1 f2 same_entry_def tkey_def)
    qed
    have "values_in buf1 es1" "values_in buf2 es2'" using Cons.prems(3,4) Cons by (auto simp: values_in_def)
    then show ?thesis using Cons.IH [of "P1 @ enc x" "P2 @ enc y" es2'] b1 b2 step Cons by auto
  qed
qed

lemma layout_values_in: "layout buf 0 P es G V m \<Longrightarrow> values_in buf es"
proof (unfold values_in_def, intro ballI conjI impI)
  fix x assume l: "layout buf 0 P es G V m" and x: "x \<in> set es"
  note L = layoutD [OF l]
  show ok: "ent_ok x" using L(5) x by blast
  assume i: "t_inum x = 0"
  show "t_offs x + t_size x \<le> length buf"
  proof (cases "t_size x = 0")
    case True
    then show ?thesis using ok i by (simp add: ent_ok_def)
  next
    case False
    then have "t_offs x + vsize x \<le> m + length V" using L(4) i x by (auto simp: wfv_def inl_def)
    then show ?thesis using vsize_bounds(1) [OF ok] L(8) by linarith
  qed
qed

lemma same_entries_tmap:
  "list_all2 (same_entry buf1 buf2) es1 es2 \<Longrightarrow> tmap buf1 0 es1 = tmap buf2 0 es2 \<and> map tkey es1 = map tkey es2"
proof (induction es1 es2 rule: list_all2_induct)
  case (Cons x xs y ys)
  then have "tattr buf1 0 x = tattr buf2 0 y" "tkey x = tkey y" by (auto simp: same_entry_def tattr_def)
  then show ?case using Cons.IH by (simp add: tmap_def)
qed (simp add: tmap_def)

lemma cmp_equal:
  assumes "layout buf1 0 P1 es1 G1 V1 m1" "length P1 = BFIRST" "layout buf2 0 P2 es2 G2 V2 m2" "length P2 = BFIRST"
  shows "\<exists>r. ext4_xattr_cmp buf1 buf2 = Inr r \<and> (r = 0 \<longrightarrow> tmap buf1 0 es1 = tmap buf2 0 es2)"
  using cmp_loop_table [OF layoutD(1) [OF assms(1)] layoutD(1) [OF assms(3)] layout_values_in [OF assms(1)] layout_values_in [OF assms(3)]]
    same_entries_tmap [of buf1 buf2 es1 es2] assms(2,4) by (auto simp: ext4_xattr_cmp_def)

subsection \<open>Well-formed blocks\<close>

lemma wr_bytes:
  assumes "wr buf off bs = Inr buf'"
  shows "k + n \<le> off \<Longrightarrow> rd buf' k n = rd buf k n" "off + length bs \<le> k \<Longrightarrow> drop k buf' = drop k buf" "rd buf' off (length bs) = Inr bs"
    "k \<le> off \<Longrightarrow> take k buf' = take k buf"
proof -
  have b: "buf' = take off buf @ bs @ drop (off + length bs) buf" "off + length bs \<le> length buf" using assms by (auto simp: wr_def split: if_splits)
  then have len: "length buf' = length buf" "length (take off buf) = off" by simp_all
  show t: "take k buf' = take k buf" if "k \<le> off" for k using that b by (simp add: min_def)
  show "rd buf' k n = rd buf k n" if "k + n \<le> off"
  proof -
    have "take n (drop k buf') = drop k (take (k + n) buf')" "take n (drop k buf) = drop k (take (k + n) buf)"
      by (simp_all add: drop_take)
    then show ?thesis using t [OF that] len by (simp add: rd_def)
  qed
  show "drop k buf' = drop k buf" if "off + length bs \<le> k"
  proof -
    define A where "A = take off buf @ bs"
    have A: "length A = off + length bs" using len(2) by (simp add: A_def)
    have "drop k (A @ drop (off + length bs) buf) = drop k buf" using that A by simp
    then show ?thesis unfolding b(1) A_def by simp
  qed
  have "take (length bs) (drop off buf') = bs" unfolding b(1) using len(2) by simp
  then show "rd buf' off (length bs) = Inr bs" using b(2) len(1) by (simp add: rd_def)
qed

text \<open>The table behind the header, sorted, with all values in the block; and the header itself.\<close>

definition in_table :: "(nat \<times> u8 list \<Rightarrow> attr option) \<Rightarrow> bool" where
  "in_table m = (\<forall>k a. m k = Some a \<longrightarrow> (\<exists>v. a = InTable v))"

definition block_bytes :: "set_env \<Rightarrow> u8 list \<Rightarrow> (nat \<times> u8 list \<Rightarrow> attr option) \<Rightarrow> bool" where
  "block_bytes se buf m = (length buf = set_blocksize se \<and> in_table m \<and> (\<exists>es. xtab buf 0 BFIRST es \<and> ordered (map tkey es) \<and> tmap buf 0 es = m)
     \<and> rd_le buf 0 4 = Inr EXT4_XATTR_MAGIC \<and> rd_le buf 8 4 = Inr 1)"

definition good_block :: "set_env \<Rightarrow> ext4_env \<Rightarrow> nat \<Rightarrow> xattr_block \<Rightarrow> nat \<Rightarrow> (nat \<times> u8 list \<Rightarrow> attr option) \<Rightarrow> bool" where
  "good_block se env b bh r m = (b_blocknr bh = b \<and> block_bytes se (b_data bh) m \<and> h_refcount (b_data bh) = Inr r \<and> 0 < r \<and> r \<le> EXT4_XATTR_REFCOUNT_MAX
     \<and> ext4_xattr_block_csum_verify env bh = Inr True)"

lemma xtab_length: "xtab buf base first es \<Longrightarrow> first + 4 \<le> length buf"
  by (auto simp: xtab_def dest!: layoutD(1))

lemma xtab_header:
  assumes "xtab buf 0 BFIRST es" "drop BFIRST buf' = drop BFIRST buf" "length buf' = length buf"
  shows "xtab buf' 0 BFIRST es \<and> tmap buf' 0 es = tmap buf 0 es"
proof -
  obtain P G V m where l: "layout buf 0 P es G V m" "length P = BFIRST" using assms(1) by (auto simp: xtab_def)
  note L = layoutD [OF l(1)]
  have "drop BFIRST buf = tbytes es @ endmark @ G @ V" using L(1) l(2) by simp
  then have b: "buf' = take BFIRST buf' @ tbytes es @ endmark @ G @ V" using assms(2) append_take_drop_id [of BFIRST buf'] by simp
  have n: "length (take BFIRST buf') = BFIRST" using assms(3) xtab_length [OF assms(1)] by simp
  have l': "layout buf' 0 (take BFIRST buf') es G V m" unfolding layout_def using b L n l(2) by auto
  show ?thesis using xtabI [OF l' n] tmap_layout [OF l'] tmap_layout [OF l(1)] by simp
qed

lemma block_bytes_header:
  assumes "block_bytes se buf m" "drop BFIRST buf' = drop BFIRST buf" "length buf' = length buf" "rd buf' 0 4 = rd buf 0 4" "rd buf' 8 4 = rd buf 8 4"
  shows "block_bytes se buf' m"
proof -
  obtain es where e: "xtab buf 0 BFIRST es" "ordered (map tkey es)" "tmap buf 0 es = m" using assms(1) by (auto simp: block_bytes_def)
  show ?thesis using xtab_header [OF e(1) assms(2,3)] e(2,3) assms by (auto simp: block_bytes_def rd_le_def)
qed

lemma block_bytes_length: "block_bytes se buf m \<Longrightarrow> BFIRST + 4 \<le> length buf"
  unfolding block_bytes_def using xtab_length by blast

lemma rd_le_same: "rd buf' off n = rd buf off n \<Longrightarrow> rd_le buf' off n = rd_le buf off n"
  by (simp add: rd_le_def)

lemma csum_set_good:
  assumes "block_bytes se (b_data bh) m" "h_refcount (b_data bh) = Inr r" "0 < r" "r \<le> EXT4_XATTR_REFCOUNT_MAX" "b_blocknr bh = b"
  shows "\<exists>bh'. ext4_xattr_block_csum_set env bh = Inr bh' \<and> good_block se env b bh' r m \<and> b_verified bh' = b_verified bh"
proof (cases "has_metadata_csum env")
  case False
  then show ?thesis using assms by (simp add: ext4_xattr_block_csum_set_def good_block_def ext4_xattr_block_csum_verify_def)
next
  case True
  define c where "c = ext4_xattr_block_csum env bh"
  have n: "BFIRST + 4 \<le> length (b_data bh)" by (rule block_bytes_length [OF assms(1)])
  then obtain d where d: "wr (b_data bh) 16 (le_bytes 4 c) = Inr d" by (auto simp: wr_def BFIRST_def)
  note w = wr_bytes [OF d]
  have eq: "drop 20 d = drop 20 (b_data bh)" "drop BFIRST d = drop BFIRST (b_data bh)" "take 16 d = take 16 (b_data bh)"
    using w(2) [of 20] w(2) [of BFIRST] w(4) [of 16] by (simp_all add: BFIRST_def)
  have "c < 2 ^ 32" unfolding c_def ext4_xattr_block_csum_def Let_def by (rule less_le_trans [OF unsigned_less]) simp
  then have "rd_le d 16 4 = Inr c" using w(3) by (simp add: rd_le_def le_nat_le_bytes)
  moreover have "ext4_xattr_block_csum env (bh\<lparr>b_data := d\<rparr>) = c" using eq by (simp add: c_def ext4_xattr_block_csum_def)
  ultimately have "ext4_xattr_block_csum_verify env (bh\<lparr>b_data := d\<rparr>) = Inr True" using True by (simp add: ext4_xattr_block_csum_verify_def)
  moreover have "block_bytes se d m" using block_bytes_header [OF assms(1) eq(2) length_wr [OF d]] w(1) by simp
  moreover have "h_refcount d = h_refcount (b_data bh)" unfolding h_refcount_def by (rule rd_le_same) (use w(1) in simp)
  ultimately show ?thesis using True d assms by (simp add: ext4_xattr_block_csum_set_def c_def [symmetric] good_block_def)
qed

lemma set_refcount_bytes:
  assumes "block_bytes se buf m" "r < 2 ^ 32"
  shows "\<exists>d. set_h_refcount buf r = Inr d \<and> block_bytes se d m \<and> h_refcount d = Inr r \<and> h_hash d = h_hash buf \<and> drop 8 d = drop 8 buf"
proof -
  have n: "BFIRST + 4 \<le> length buf" by (rule block_bytes_length [OF assms(1)])
  then obtain d where d: "wr buf 4 (le_bytes 4 r) = Inr d" by (auto simp: wr_def BFIRST_def)
  note w = wr_bytes [OF d]
  have dr: "drop 8 d = drop 8 buf" "drop BFIRST d = drop BFIRST buf" using w(2) [of 8] w(2) [of BFIRST] by (simp_all add: BFIRST_def)
  have ln: "length d = length buf" by (rule length_wr [OF d])
  have far: "rd d k 4 = rd buf k 4" if "8 \<le> k" for k
  proof -
    have "drop k d = drop (k - 8) (drop 8 d)" "drop k buf = drop (k - 8) (drop 8 buf)" using that by simp_all
    then show ?thesis using dr(1) ln by (simp add: rd_def)
  qed
  have "block_bytes se d m" using block_bytes_header [OF assms(1) dr(2) ln] w(1) far by simp
  moreover have "h_refcount d = Inr r" using w(3) assms(2) by (simp add: h_refcount_def rd_le_def le_nat_le_bytes)
  moreover have "h_hash d = h_hash buf" unfolding h_hash_def by (rule rd_le_same) (rule far, simp)
  ultimately show ?thesis using d dr(1) by (auto simp: set_h_refcount_def)
qed

lemma block_bytes_hash: "block_bytes se buf m \<Longrightarrow> \<exists>h. h_hash buf = Inr h"
  using block_bytes_length [of se buf m] by (auto simp: h_hash_def rd_le_def rd_def BFIRST_def)

text \<open>A well-formed block passes the check.\<close>

lemma check_block_good:
  assumes "good_block se env b bh r m"
  shows "\<exists>v. u_ext4_xattr_check_block env bh = Inr (0, bh\<lparr>b_verified := v\<rparr>)"
proof -
  obtain es where "xtab (b_data bh) 0 BFIRST es" using assms by (auto simp: good_block_def block_bytes_def)
  then obtain P G V mo where l: "layout (b_data bh) 0 P es G V mo" "length P = BFIRST" by (auto simp: xtab_def)
  have "bh = bh\<lparr>b_verified := True\<rparr>" if "b_verified bh" using that by (cases bh) simp
  then show ?thesis using check_entries_table [OF l(1)] l(2) assms
    by (auto simp: u_ext4_xattr_check_block_def good_block_def block_bytes_def intro: exI [of _ True])
qed

subsection \<open>Changing the bytes of a block\<close>

text \<open>A search in the sorted table of a block.\<close>

definition block_search :: "u8 list \<Rightarrow> (nat \<times> u8 list \<Rightarrow> attr option) \<Rightarrow> ext4_xattr_info \<Rightarrow> ext4_xattr_search \<Rightarrow> bool" where
  "block_search buf m i s = (\<exists>es. xtab buf 0 BFIRST es \<and> ordered (map tkey es) \<and> tmap buf 0 es = m \<and> search_ok buf 0 BFIRST es i s
     \<and> s_here s = BFIRST + length (tbytes (before (ikey i) es)))"

lemma tmap_keys: "tmap buf base es k = None \<longleftrightarrow> k \<notin> tkey ` set es"
  by (simp add: tmap_def map_of_eq_None_iff image_image comp_def)

lemma block_search_found: "block_search buf m i s \<Longrightarrow> s_not_found s = 0 \<longleftrightarrow> m (ikey i) \<noteq> None"
proof -
  assume "block_search buf m i s"
  then obtain es where e: "tmap buf 0 es = m" "search_ok buf 0 BFIRST es i s" by (auto simp: block_search_def)
  have "m (ikey i) = None \<longleftrightarrow> ikey i \<notin> tkey ` set es" using tmap_keys e(1) by metis
  then show ?thesis using e(2) by (auto simp: search_ok_def split: if_splits)
qed

lemma block_search_header:
  assumes "block_search buf m i s" "drop BFIRST buf' = drop BFIRST buf" "length buf' = length buf"
  shows "block_search buf' m i s"
proof -
  obtain es where e: "xtab buf 0 BFIRST es" "ordered (map tkey es)" "tmap buf 0 es = m" "search_ok buf 0 BFIRST es i s"
      "s_here s = BFIRST + length (tbytes (before (ikey i) es))"
    using assms(1) by (auto simp: block_search_def)
  then show ?thesis using xtab_header [OF e(1) assms(2,3)] assms(3) by (auto simp: block_search_def search_ok_def)
qed

lemma length_tbytes_keys:
  assumes "map tkey a = map tkey b" "\<forall>x \<in> set a. ent_ok x" "\<forall>x \<in> set b. ent_ok x"
  shows "length (tbytes a) = length (tbytes b)"
  using assms
proof (induction a arbitrary: b)
  case (Cons x a)
  then obtain y b' where b: "b = y # b'" "tkey x = tkey y" "map tkey a = map tkey b'" by (cases b) auto
  then show ?case using Cons by (auto simp: length_enc tkey_def)
qed simp

lemma xtab_ok: "xtab buf base first es \<Longrightarrow> (\<forall>x \<in> set es. ent_ok x) \<and> distinct (map tkey es)"
  by (auto simp: xtab_def dest: layoutD(5) layoutD(6))

text \<open>The entry at the place of the search, after a change.\<close>

lemma key_change_place:
  assumes k: "key_change first es i s ks" and s: "search_ok buf 0 first es i s" and v: "i_value i \<noteq> None" and ks: "map tkey es' = ks"
    and ok: "\<forall>x \<in> set es. ent_ok x" "\<forall>x \<in> set es'. ent_ok x"
  obtains a x b where "es' = a @ x # b" "tkey x = ikey i" "s_here s = first + length (tbytes a)"
proof -
  obtain es1 rest where e: "set es1 \<subseteq> set es" "ks = map tkey es1 @ ikey i # rest" "s_here s = first + length (tbytes es1)"
  proof (cases "s_not_found s = 0")
    case True
    then obtain es1 x es2 where x: "es = es1 @ x # es2" "tkey x = ikey i" "s_here s = first + length (tbytes es1)"
      using s by (auto simp: search_ok_def)
    then have "ks = map tkey es1 @ ikey i # map tkey es2" using k v True by (auto simp: key_change_def)
    then show ?thesis using that [of es1] x by auto
  next
    case False
    then obtain es1 es2 where "es = es1 @ es2" "s_here s = first + length (tbytes es1)" "ks = map tkey es1 @ ikey i # map tkey es2"
      using k v by (auto simp: key_change_def)
    then show ?thesis using that [of es1] by auto
  qed
  obtain a x b where a: "es' = a @ x # b" "map tkey a = map tkey es1" "tkey x = ikey i"
    using ks e(2) by (auto simp: map_eq_append_conv map_eq_Cons_conv)
  have "length (tbytes a) = length (tbytes es1)" using a e(1) ok by (intro length_tbytes_keys) auto
  then show ?thesis using that a e(3) by simp
qed

lemma in_table_inum:
  assumes "in_table (tmap buf base es)" "distinct (map tkey es)" "x \<in> set es"
  shows "t_inum x = 0"
proof -
  have "tmap buf base es (tkey x) = Some (tattr buf base x)" using tmap_entry [OF assms(2)] assms(3) by blast
  then obtain v where "tattr buf base x = InTable v" using assms(1) unfolding in_table_def by blast
  then show ?thesis by (auto simp: tattr_def split: if_splits)
qed

definition block_change :: "(nat \<times> u8 list \<Rightarrow> attr option) \<Rightarrow> ext4_xattr_info \<Rightarrow> (nat \<times> u8 list \<Rightarrow> attr option)" where
  "block_change m i = m(ikey i := map_option (\<lambda>_. InTable (value_bytes i)) (i_value i))"

lemma block_entry_set:
  assumes b: "block_bytes se buf m" and s: "block_search buf m i s" and i: "info_ok i" "\<not> i_in_inode i" "i_value i = None \<longrightarrow> s_not_found s = 0"
    and sv: "ea_sane sv" "igets_fail st" and inl: "\<not> has_inline_data se"
  shows "\<exists>ret buf' st'. ext4_xattr_set_entry se sv env inode i s True buf st = Inr (ret, buf', st')
    \<and> (if ret = 0 then block_bytes se buf' (block_change m i) \<and> take 12 buf' = take 12 buf
         \<and> (i_value i \<noteq> None \<longrightarrow> e_value_inum buf' (s_here s) = Inr 0) else buf' = buf)"
proof -
  obtain es where e: "xtab buf 0 BFIRST es" "ordered (map tkey es)" "tmap buf 0 es = m" "search_ok buf 0 BFIRST es i s"
      "s_here s = BFIRST + length (tbytes (before (ikey i) es))"
    using s by (auto simp: block_search_def)
  obtain ret buf' st' where r: "ext4_xattr_set_entry se sv env inode i s True buf st = Inr (ret, buf', st')"
      "set_outcome se True buf 0 BFIRST es s (tmap buf 0 es) i ret buf'"
    using set_entry_table [OF e(1,4) i(1) _ i(3) _ sv, of True se env inode] i(2) by auto
  show ?thesis
  proof (cases "ret = 0")
    case False
    then have "buf' = buf" using r(2) inl by (auto simp: set_outcome_def)
    then show ?thesis using r(1) False by auto
  next
    case True
    obtain ino ks where k: "key_change BFIRST es i s ks"
      and c: "changed True buf 0 BFIRST ks ((tmap buf 0 es)(ikey i := map_option (\<lambda>_. new_attr i ino) (i_value i))) buf'"
      using r(2) True by (auto simp: set_outcome_def)
    have f: "(tmap buf 0 es)(ikey i := map_option (\<lambda>_. new_attr i ino) (i_value i)) = block_change m i"
      using i(2) e(3) by (simp add: block_change_def new_attr_def)
    obtain es' where es': "xtab buf' 0 BFIRST es'" "tmap buf' 0 es' = block_change m i" "map tkey es' = ks" and len: "length buf' = length buf"
      and hd: "take 12 (take BFIRST buf') = take 12 (take BFIRST buf)"
      using c f by (auto simp: changed_def hdr_kept_def)
    have n: "s_not_found s \<noteq> 0 \<longrightarrow> ikey i \<notin> tkey ` set es" using e(4) by (auto simp: search_ok_def)
    have o: "ordered ks" using key_change_ordered [OF e(2) k _ e(5) n] xtab_ok [OF e(1)] by blast
    have hd: "take 12 buf' = take 12 buf" using hd by (simp add: BFIRST_def min_def)
    have rdh: "rd buf' 0 4 = rd buf 0 4" "rd buf' 8 4 = rd buf 8 4"
    proof -
      have 1: "take 4 buf' = take 4 buf" using arg_cong [OF hd, of "take 4"] by simp
      have t: "take 4 (drop 8 b) = drop 8 (take 12 b)" for b :: "u8 list" by (simp add: drop_take)
      have 2: "take 4 (drop 8 buf') = take 4 (drop 8 buf)" unfolding t hd by (rule refl)
      show "rd buf' 0 4 = rd buf 0 4" "rd buf' 8 4 = rd buf 8 4" using 1 2 len by (simp_all add: rd_def)
    qed
    have it: "in_table (block_change m i)" using b by (auto simp: block_bytes_def in_table_def block_change_def)
    have bb: "block_bytes se buf' (block_change m i)"
      using b es' o len it rd_le_same [OF rdh(1)] rd_le_same [OF rdh(2)] by (auto simp: block_bytes_def)
    have "e_value_inum buf' (s_here s) = Inr 0" if v: "i_value i \<noteq> None"
    proof -
      obtain a x b' where a: "es' = a @ x # b'" "s_here s = BFIRST + length (tbytes a)"
        using key_change_place [OF k e(4) v es'(3)] xtab_ok [OF e(1)] xtab_ok [OF es'(1)] by metis
      have ox: "ent_ok x" "t_inum x = 0" using in_table_inum [of buf' 0 es' x] it es'(2) xtab_ok [OF es'(1)] a(1) by auto
      obtain P G V mo where l: "layout buf' 0 P es' G V mo" "length P = BFIRST" using es'(1) by (auto simp: xtab_def)
      have "buf' = (P @ tbytes a) @ enc x @ (tbytes b' @ endmark @ G @ V)" using layoutD(1) [OF l(1)] a(1) by simp
      then show ?thesis using enc_value_inum [of buf' "P @ tbytes a" x _ "s_here s"] ox a(2) l(2) by simp
    qed
    then show ?thesis using r(1) True bb hd by auto
  qed
qed

text \<open>Without values in inodes, the inodes of values are not touched.\<close>

lemma set_entry_no_inodes:
  assumes e: "ext4_xattr_set_entry se sv env inode i s is_block buf st = Inr (ret, buf', st')"
    and n: "new_inode_len i = None" "s_not_found s = 0 \<longrightarrow> e_value_inum buf (s_here s) = Inr 0"
  shows "st' = st"
proof -
  have "set_entry_inodes sv env inode i s buf st = Inr (Inr None, st)" if "set_entry_inodes sv env inode i s buf st = Inr r" for r
    using that n by (auto simp: set_entry_inodes_def take_old_inode_def make_new_inode_def drop_old_inode_def iput_opt_def new_inode_len_def
        split: if_splits)
  then show ?thesis using e unfolding ext4_xattr_set_entry_def
    by (auto simp: Let_def split: if_splits sum.splits prod.splits)
qed

end
