(* ===== verification/Ext4_Share.thy ===== *)
theory Ext4_Share
  imports Ext4_Block_Inv
begin

text \<open>
  The blocks of attributes of a file system as a map from their numbers to the number of users and the attributes, and what
  the functions of \<^verbatim>\<open>Ext4_Block\<close> do to it.
\<close>

subsection \<open>The abstract device\<close>

type_synonym attrs = "nat \<times> u8 list \<Rightarrow> attr option"
type_synonym adev = "nat \<Rightarrow> (nat \<times> attrs) option"

definition shows_block :: "set_env \<Rightarrow> ext4_env \<Rightarrow> nat \<Rightarrow> int + xattr_block \<Rightarrow> (nat \<times> attrs) option \<Rightarrow> bool" where
  "shows_block se env b content x = (case content of
       Inl _ \<Rightarrow> x = None
     | Inr bh \<Rightarrow> (case x of None \<Rightarrow> False | Some (r, m) \<Rightarrow> good_block se env b bh r m))"

definition dev :: "set_env \<Rightarrow> ext4_env \<Rightarrow> blk_state \<Rightarrow> adev \<Rightarrow> bool" where
  "dev se env bs M = (M 0 = None \<and> (\<forall>b. shows_block se env b (bd_blocks bs b) (M b)))"

definition dropref :: "nat \<Rightarrow> adev \<Rightarrow> adev" where
  "dropref b M = M(b := (case M b of None \<Rightarrow> None | Some (r, m) \<Rightarrow> if r = 1 then None else Some (r - 1, m)))"

text \<open>The inodes of values stay as they are.\<close>

definition calm :: "blk_state \<Rightarrow> blk_state \<Rightarrow> bool" where
  "calm bs bs' = (ea_inodes (bd_ea bs') = ea_inodes (bd_ea bs))"

lemma calm_refl [simp]: "calm bs bs"
  by (simp add: calm_def)

lemma calm_trans [trans]: "calm a b \<Longrightarrow> calm b c \<Longrightarrow> calm a c"
  by (simp add: calm_def)

lemma calm_igets: "calm bs bs' \<Longrightarrow> igets_fail (bd_ea bs') = igets_fail (bd_ea bs)"
  by (simp add: calm_def igets_fail_def)

lemma dev_cong: "bd_blocks bs' = bd_blocks bs \<Longrightarrow> dev se env bs' M = dev se env bs M"
  by (simp add: dev_def)

lemma bask_frame: "bask bv c bs = (r, bs') \<Longrightarrow> bd_blocks bs' = bd_blocks bs \<and> calm bs bs'"
  by (auto simp: bask_def calm_def)

lemma quota_frame [simp]: "bd_blocks (bs\<lparr>bd_quota := q\<rparr>) = bd_blocks bs"
  by simp

lemma frame_simps [simp]: "bd_blocks (cache_log e bs) = bd_blocks bs" "calm bs (cache_log e bs)" "calm bs (put_block b bh bs)"
    "calm bs (bs\<lparr>bd_quota := q\<rparr>)" "calm bs (free_block b bs)" "bd_blocks (snd (bask bv c bs)) = bd_blocks bs" "calm bs (snd (bask bv c bs))"
  by (simp_all add: cache_log_def calm_def put_block_def free_block_def bask_def)

lemma dev_at: "dev se env bs M \<Longrightarrow> shows_block se env b (bd_blocks bs b) (M b)"
  by (simp add: dev_def)

lemma dev_get: "dev se env bs M \<Longrightarrow> M b = Some (r, m) \<Longrightarrow> \<exists>bh. bd_blocks bs b = Inr bh \<and> good_block se env b bh r m"
  using dev_at [of se env bs M b] by (auto simp: shows_block_def split: sum.splits)

lemma dev_readable: "dev se env bs M \<Longrightarrow> bd_blocks bs b = Inr bh \<Longrightarrow> \<exists>r m. M b = Some (r, m) \<and> good_block se env b bh r m"
  using dev_at [of se env bs M b] by (auto simp: shows_block_def split: option.splits)

lemma dev_put: "dev se env bs M \<Longrightarrow> good_block se env b bh r m \<Longrightarrow> b \<noteq> 0 \<Longrightarrow> dev se env (put_block b bh bs) (M(b := Some (r, m)))"
  by (simp add: dev_def put_block_def shows_block_def)

lemma dev_nonzero: "dev se env bs M \<Longrightarrow> M b = Some x \<Longrightarrow> b \<noteq> 0"
  by (cases "b = 0") (auto simp: dev_def)

lemma dev_free: "dev se env bs M \<Longrightarrow> dev se env (free_block b bs) (M(b := None))"
  by (simp add: dev_def free_block_def shows_block_def)

lemma good_bounds: "good_block se env b bh r m \<Longrightarrow> 0 < r \<and> r \<le> EXT4_XATTR_REFCOUNT_MAX"
  by (simp add: good_block_def)

subsection \<open>Dropping and taking references\<close>

lemma cache_delete_frame: "bd_blocks (cache_delete_loop n bv h b bs) = bd_blocks bs \<and> calm bs (cache_delete_loop n bv h b bs)"
proof (induction n arbitrary: bs)
  case (Suc n)
  obtain oe bs1 where a: "bask bv (CacheInUse b) bs = (oe, bs1)" by fastforce
  then show ?case using Suc [of bs1] bask_frame [OF a] calm_trans [of bs bs1] by (auto simp: Let_def)
qed simp

text \<open>Writing the reference count of a block.\<close>

lemma write_refcount:
  assumes "good_block se env b bh r m" "0 < r'" "r' \<le> EXT4_XATTR_REFCOUNT_MAX"
  shows "\<exists>d bh'. set_h_refcount (b_data bh) r' = Inr d \<and> ext4_xattr_block_csum_set env (bh\<lparr>b_data := d\<rparr>) = Inr bh' \<and> good_block se env b bh' r' m"
proof -
  have bb: "block_bytes se (b_data bh) m" "b_blocknr bh = b" using assms(1) by (simp_all add: good_block_def)
  obtain d where d: "set_h_refcount (b_data bh) r' = Inr d" "block_bytes se d m" "h_refcount d = Inr r'"
    using set_refcount_bytes [OF bb(1), of r'] assms(3) by (auto simp: EXT4_XATTR_REFCOUNT_MAX_def)
  then show ?thesis using csum_set_good [of se "bh\<lparr>b_data := d\<rparr>" m r' b env] assms(2,3) bb(2) by auto
qed

lemma release_dev:
  assumes d: "dev se env bs M" and b: "M b = Some (r, m)" and f: "\<not> has_feature_ea_inode se"
  shows "\<exists>bs' M'. ext4_xattr_release_block se sv bv env inode b arr bs = Inr (arr, bs') \<and> dev se env bs' M' \<and> (M' = M \<or> M' = dropref b M) \<and> calm bs bs'"
proof -
  obtain e bs1 where a: "bask bv (BlkWriteAccess b) bs = (e, bs1)" by fastforce
  note A = bask_frame [OF a]
  have d1: "dev se env bs1 M" using d A dev_cong by blast
  obtain bh where bh: "bd_blocks bs1 b = Inr bh" "good_block se env b bh r m" using dev_get [OF d1 b] by blast
  have bb: "block_bytes se (b_data bh) m" "h_refcount (b_data bh) = Inr r" using bh(2) by (simp_all add: good_block_def)
  obtain h where h: "h_hash (b_data bh) = Inr h" using block_bytes_hash [OF bb(1)] by blast
  note R = good_bounds [OF bh(2)]
  show ?thesis
  proof (cases "e \<noteq> 0")
    case True
    then have "ext4_xattr_release_block se sv bv env inode b arr bs = Inr (arr, bs1)" using a by (simp add: ext4_xattr_release_block_def)
    then show ?thesis using d1 A by blast
  next
    case False
    show ?thesis
    proof (cases "r = 1")
      case True
      define bs2 where "bs2 = (if bsvc_cached bv = None then bs1 else cache_delete_loop (bsvc_rounds bv) bv h b bs1)"
      have 2: "bd_blocks bs2 = bd_blocks bs1" "calm bs1 bs2" using cache_delete_frame by (auto simp: bs2_def)
      have "ext4_xattr_release_block se sv bv env inode b arr bs = Inr (arr, free_block b bs2)"
        using a False bh(1) h bb(2) True f by (simp add: ext4_xattr_release_block_def bs2_def Let_def)
      moreover have "dev se env (free_block b bs2) (dropref b M)"
        using dev_free [of se env bs2 M b] d1 dev_cong [OF 2(1)] b True by (simp add: dropref_def)
      moreover have "calm bs (free_block b bs2)" using A 2(2) frame_simps(5) calm_trans by blast
      ultimately show ?thesis by blast
    next
      case r: False
      have m: "(r + 2 ^ 32 - 1) mod 2 ^ 32 = r - 1"
      proof -
        obtain n where "r = Suc n" using R by (cases r) auto
        then show ?thesis using R by (simp add: EXT4_XATTR_REFCOUNT_MAX_def)
      qed
      obtain d' bh' where w: "set_h_refcount (b_data bh) (r - 1) = Inr d'" "ext4_xattr_block_csum_set env (bh\<lparr>b_data := d'\<rparr>) = Inr bh'"
          "good_block se env b bh' (r - 1) m"
        using write_refcount [OF bh(2), of "r - 1"] R r by (auto simp: le_diff_conv)
      define bs2 where "bs2 = (if r - 1 = EXT4_XATTR_REFCOUNT_MAX - 1 \<and> bsvc_cached bv \<noteq> None then cache_log (CacheReusable h b True) bs1 else bs1)"
      have 2: "bd_blocks bs2 = bd_blocks bs1" "calm bs1 bs2" by (simp_all add: bs2_def)
      obtain e3 bs3 where a3: "bask bv (BlkDirty b) (put_block b bh' bs2) = (e3, bs3)" by fastforce
      note A3 = bask_frame [OF a3]
      have "ext4_xattr_release_block se sv bv env inode b arr bs = Inr (arr, bs3\<lparr>bd_quota := bd_quota bs3 - 1\<rparr>)"
        unfolding ext4_xattr_release_block_def a using False bh(1) h bb(2) r w(1,2) a3 m by (simp add: bs2_def Let_def)
      moreover have "dev se env (put_block b bh' bs2) (dropref b M)"
        using dev_put [OF _ w(3) dev_nonzero [OF d b], of bs2 M] d1 dev_cong [OF 2(1)] b r by (simp add: dropref_def)
      then have "dev se env (bs3\<lparr>bd_quota := bd_quota bs3 - 1\<rparr>) (dropref b M)" using A3 by (simp add: dev_def)
      moreover have "calm bs (bs3\<lparr>bd_quota := bd_quota bs3 - 1\<rparr>)" using A 2(2) A3 by (simp add: calm_def put_block_def)
      ultimately show ?thesis by blast
    qed
  qed
qed

lemma share_dev:
  assumes d: "dev se env bs M" and b: "M b = Some (r, m)"
  shows "\<exists>ret bs'. share_block bv env b bs = Inr (ret, bs') \<and> calm bs bs'
    \<and> (case ret of None \<Rightarrow> dev se env bs' M
       | Some e \<Rightarrow> if e = 0 then dev se env bs' (M(b := Some (r + 1, m))) else dev se env bs' M \<or> dev se env bs' (M(b := Some (r + 1, m))))"
proof -
  obtain e1 bs1 where a1: "bask bv DquotAllocBlock bs = (e1, bs1)" by fastforce
  define bq where "bq = bs1\<lparr>bd_quota := bd_quota bs1 + 1\<rparr>"
  obtain e2 bs2 where a2: "bask bv (BlkWriteAccess b) bq = (e2, bs2)" by fastforce
  have f: "bd_blocks bs1 = bd_blocks bs" "calm bs bs1" "bd_blocks bs2 = bd_blocks bs" "calm bs bs2"
    using bask_frame [OF a1] bask_frame [OF a2] by (simp_all add: bq_def calm_def)
  have d12: "dev se env bs1 M" "dev se env bs2 M" using d f dev_cong by blast+
  obtain bh where bh: "bd_blocks bs2 b = Inr bh" "good_block se env b bh r m" using dev_get [OF d12(2) b] by blast
  have bb: "block_bytes se (b_data bh) m" "h_refcount (b_data bh) = Inr r" using bh(2) by (simp_all add: good_block_def)
  obtain h where h: "h_hash (b_data bh) = Inr h" using block_bytes_hash [OF bb(1)] by blast
  note R = good_bounds [OF bh(2)]
  have m: "(r + 1) mod 2 ^ 32 = r + 1" using R by (simp add: EXT4_XATTR_REFCOUNT_MAX_def)
  define back2 where "back2 = bs2\<lparr>bd_quota := bd_quota bs2 - 1\<rparr>"
  have k2: "dev se env back2 M" "calm bs back2" using d12(2) f(4) by (simp_all add: back2_def dev_def calm_def)
  consider "e1 \<noteq> 0" | "e1 = 0" "e2 \<noteq> 0" | "e1 = 0" "e2 = 0" "EXT4_XATTR_REFCOUNT_MAX < r + 1" | "e1 = 0" "e2 = 0" "r + 1 \<le> EXT4_XATTR_REFCOUNT_MAX"
    by linarith
  then show ?thesis
  proof cases
    case 1
    then have "share_block bv env b bs = Inr (Some e1, bs1)" using a1 by (simp add: share_block_def)
    then show ?thesis using 1 d12 f by auto
  next
    case 2
    then have "share_block bv env b bs = Inr (Some e2, back2)" using a1 a2 by (simp add: share_block_def bq_def back2_def)
    then show ?thesis using 2 k2 by auto
  next
    case 3
    then have "share_block bv env b bs = Inr (None, back2)" using a1 a2 bh(1) bb(2) m by (simp add: share_block_def bq_def back2_def Let_def)
    then show ?thesis using k2 by auto
  next
    case 4
    then obtain d' bh' where w: "set_h_refcount (b_data bh) (r + 1) = Inr d'" "ext4_xattr_block_csum_set env (bh\<lparr>b_data := d'\<rparr>) = Inr bh'"
        "good_block se env b bh' (r + 1) m"
      using write_refcount [OF bh(2), of "r + 1"] by auto
    define bs3 where "bs3 = (if r + 1 = EXT4_XATTR_REFCOUNT_MAX then cache_log (CacheReusable h b False) bs2 else bs2)"
    have 3: "bd_blocks bs3 = bd_blocks bs2" "calm bs2 bs3" by (simp_all add: bs3_def)
    obtain e4 bs4 where a4: "bask bv (BlkDirty b) (put_block b bh' bs3) = (e4, bs4)" by fastforce
    have "dev se env (put_block b bh' bs3) (M(b := Some (r + 1, m)))"
      using dev_put [OF _ w(3) dev_nonzero [OF d b], of bs3 M] d12(2) dev_cong [OF 3(1)] by simp
    then have d4: "dev se env bs4 (M(b := Some (r + 1, m)))" using bask_frame [OF a4] dev_cong by blast
    have c4: "calm bs bs4" using f(4) 3(2) bask_frame [OF a4] by (simp add: calm_def put_block_def)
    have "share_block bv env b bs = (if e4 \<noteq> 0 then Inr (Some e4, bs4\<lparr>bd_quota := bd_quota bs4 - 1\<rparr>) else Inr (Some 0, bs4))"
      unfolding share_block_def a1 using 4 a2 bh(1) bb(2) h m w(1,2) a4 by (simp add: bq_def [symmetric] bs3_def Let_def)
    then show ?thesis using d4 c4 by (cases "e4 = 0") (auto simp: dev_def calm_def)
  qed
qed

subsection \<open>New blocks\<close>

lemma inc_ref_loop_plain:
  "buf = P @ tbytes es @ endmark @ R \<Longrightarrow> \<forall>x \<in> set es. ent_ok x \<and> t_inum x = 0 \<Longrightarrow> inc_ref_loop sv env parent buf (length P) st = Inr (None, st)"
proof (induction es arbitrary: P)
  case Nil
  then show ?case by (subst inc_ref_loop.simps) (simp add: endmark_last [of _ P R])
next
  case (Cons x es)
  have x: "ent_ok x" "t_inum x = 0" using Cons.prems(2) by simp_all
  have b: "buf = P @ enc x @ (tbytes es @ endmark @ R)" using Cons.prems(1) by simp
  have "inc_ref_loop sv env parent buf (length P) st = inc_ref_loop sv env parent buf (length P + length (enc x)) st"
    by (subst inc_ref_loop.simps)
      (simp add: enc_not_last [OF b refl x(1)] enc_next [OF b refl x(1)] enc_value_inum [OF b refl x(1)] enc_hash [OF b refl x(1)] x(2))
  then show ?case using Cons.IH [of "P @ enc x"] b Cons.prems(2) by simp
qed

lemma inc_ref_all_plain:
  assumes "block_bytes se buf m"
  shows "ext4_xattr_inode_inc_ref_all sv env parent buf BFIRST st = Inr (0, st)"
proof -
  obtain es where e: "xtab buf 0 BFIRST es" "tmap buf 0 es = m" "in_table m" using assms by (auto simp: block_bytes_def)
  obtain P G V mo where l: "layout buf 0 P es G V mo" "length P = BFIRST" using e(1) by (auto simp: xtab_def)
  have "\<forall>x \<in> set es. ent_ok x \<and> t_inum x = 0" using xtab_ok [OF e(1)] in_table_inum [of buf 0 es] e(2,3) by blast
  then show ?thesis using inc_ref_loop_plain [of buf P es "G @ V"] layoutD(1) [OF l(1)] l(2) by (simp add: ext4_xattr_inode_inc_ref_all_def)
qed

text \<open>The allocator hands out blocks that hold no attributes.\<close>

definition fresh_blocks :: "blk_services \<Rightarrow> adev \<Rightarrow> bool" where
  "fresh_blocks bv M = (\<forall>t. case bsvc_new_block bv t of Inl err \<Rightarrow> err \<noteq> 0 | Inr b \<Rightarrow> b \<noteq> 0 \<and> M b = None)"

lemma alloc_dev:
  assumes d: "dev se env bs M" and f: "fresh_blocks bv M" and w: "block_bytes se (bw_buf w) m" "h_refcount (bw_buf w) = Inr 1" "bw_ea w = None"
  shows "\<exists>r bs'. alloc_block sv bv env inode w bs = Inr (r, w, bs') \<and> calm bs bs'
    \<and> (case r of Inr b \<Rightarrow> b \<noteq> 0 \<and> M b = None \<and> dev se env bs' (M(b := Some (1, m)))
       | Inl e \<Rightarrow> e \<noteq> 0 \<and> (dev se env bs' M \<or> (\<exists>b. M b = None \<and> dev se env bs' (M(b := Some (1, m))))))"
proof (cases "bsvc_new_block bv (ea_calls (bd_ea bs))")
  case (Inl err)
  have "err \<noteq> 0" using f Inl unfolding fresh_blocks_def by (auto dest!: spec [of _ "ea_calls (bd_ea bs)"])
  then show ?thesis using Inl d by (simp add: alloc_block_def dev_def calm_def)
next
  case (Inr b)
  have b: "b \<noteq> 0" "M b = None" using f Inr unfolding fresh_blocks_def by (auto dest!: spec [of _ "ea_calls (bd_ea bs)"])
  have mb: "M(b := None) = M" using b(2) by auto
  have w0: "w\<lparr>bw_ea := None\<rparr> = w" using w(3) by (cases w) simp
  obtain e1 bs1 where a1: "bask bv (BlkGetblk b) bs = (e1, bs1)" by fastforce
  obtain e2 bs2 where a2: "bask bv (BlkCreateAccess b) bs1 = (e2, bs2)" by fastforce
  have fr: "bd_blocks bs1 = bd_blocks bs" "calm bs bs1" "bd_blocks bs2 = bd_blocks bs" "calm bs bs2"
    using bask_frame [OF a1] bask_frame [OF a2] calm_trans by auto
  have dv: "dev se env bs1 M" "dev se env bs2 M" using d fr dev_cong by blast+
  have fb: "dev se env (free_block b bs1) M" "dev se env (free_block b bs2) M" using dev_free [OF dv(1), of b] dev_free [OF dv(2), of b] mb by simp_all
  have fc: "calm bs (free_block b bs1)" "calm bs (free_block b bs2)" using fr calm_trans frame_simps(5) by blast+
  obtain bh where c: "ext4_xattr_block_csum_set env \<lparr>b_data = bw_buf w, b_blocknr = b, b_verified = False\<rparr> = Inr bh" "good_block se env b bh 1 m"
    using csum_set_good [of se "\<lparr>b_data = bw_buf w, b_blocknr = b, b_verified = False\<rparr>" m 1 b env] w by (auto simp: EXT4_XATTR_REFCOUNT_MAX_def)
  have bb: "block_bytes se (b_data bh) m" "h_refcount (b_data bh) = Inr 1" using c(2) by (simp_all add: good_block_def)
  obtain h where h: "h_hash (b_data bh) = Inr h" using block_bytes_hash [OF bb(1)] by blast
  obtain bs3 where i: "ext4_xattr_block_cache_insert bv b (b_data bh) (put_block b bh bs2) = Inr bs3" "bd_blocks bs3 = bd_blocks (put_block b bh bs2)"
      "calm (put_block b bh bs2) bs3"
    using h bb(2) by (simp add: ext4_xattr_block_cache_insert_def)
  obtain e4 bs4 where a4: "bask bv (BlkDirty b) bs3 = (e4, bs4)" by fastforce
  have "dev se env (put_block b bh bs2) (M(b := Some (1, m)))" by (rule dev_put [OF dv(2) c(2) b(1)])
  then have d4: "dev se env bs4 (M(b := Some (1, m)))" using i(2) bask_frame [OF a4] by (simp add: dev_def)
  have c4: "calm bs bs4" using fr(4) i(3) bask_frame [OF a4] by (simp add: calm_def put_block_def)
  have e: "alloc_block sv bv env inode w bs = (if e1 \<noteq> 0 then Inr (Inl (- ENOMEM), w, free_block b bs1)
      else if e2 \<noteq> 0 then Inr (Inl (- EIO), w, free_block b bs2) else if e4 \<noteq> 0 then Inr (Inl e4, w, bs4) else Inr (Inr b, w, bs4))"
    using Inr a1 a2 inc_ref_all_plain [OF w(1)] w(3) w0 c(1) i(1) a4 by (simp add: alloc_block_def Let_def)
  show ?thesis using e fb fc d4 c4 b by (cases "e1 = 0"; cases "e2 = 0"; cases "e4 = 0") (auto simp: ENOMEM_def EIO_def)
qed

subsection \<open>Choosing a block\<close>

lemma cmp_bytes:
  assumes "block_bytes se buf1 m1" "block_bytes se buf2 m2"
  shows "\<exists>r. ext4_xattr_cmp buf1 buf2 = Inr r \<and> (r = 0 \<longrightarrow> m1 = m2)"
proof -
  obtain es1 es2 where e: "xtab buf1 0 BFIRST es1" "tmap buf1 0 es1 = m1" "xtab buf2 0 BFIRST es2" "tmap buf2 0 es2 = m2"
    using assms by (auto simp: block_bytes_def)
  obtain P1 G1 V1 n1 P2 G2 V2 n2 where "layout buf1 0 P1 es1 G1 V1 n1" "length P1 = BFIRST" "layout buf2 0 P2 es2 G2 V2 n2" "length P2 = BFIRST"
    using e(1,3) unfolding xtab_def by blast
  then show ?thesis using cmp_equal e(2,4) by blast
qed

lemma block_cache_loop_dev:
  assumes "dev se env bs M" "block_bytes se buf m"
  shows "\<exists>r. block_cache_loop buf cs bs = Inr r \<and> (\<forall>b. r = Some b \<longrightarrow> (\<exists>n. M b = Some (n, m)))"
proof (induction cs)
  case (Cons c cs)
  show ?case
  proof (cases "bd_blocks bs c")
    case (Inr bh)
    obtain n m' where g: "M c = Some (n, m')" "good_block se env c bh n m'" using dev_readable [OF assms(1) Inr] by blast
    obtain r where "ext4_xattr_cmp buf (b_data bh) = Inr r" "r = 0 \<longrightarrow> m = m'"
      using cmp_bytes [OF assms(2), of "b_data bh" m'] g(2) by (auto simp: good_block_def)
    then show ?thesis using Cons Inr g(1) by (cases "r = 0") auto
  qed (use Cons in auto)
qed simp

lemma cache_find_dev:
  assumes "dev se env bs M" "block_bytes se buf m"
  shows "\<exists>r. ext4_xattr_block_cache_find bv buf bs = Inr r \<and> (\<forall>b. r = Some b \<longrightarrow> (\<exists>n. M b = Some (n, m)))"
proof -
  obtain h where "h_hash buf = Inr h" using block_bytes_hash [OF assms(2)] by blast
  then show ?thesis using block_cache_loop_dev [OF assms] by (auto simp: ext4_xattr_block_cache_find_def split: option.splits)
qed

text \<open>The work to be placed: the bytes mean \<open>m\<close>; in place they are those of the old block, which has one user.\<close>

definition work_ok :: "set_env \<Rightarrow> adev \<Rightarrow> nat option \<Rightarrow> block_work \<Rightarrow> attrs \<Rightarrow> bool" where
  "work_ok se M old w m = (block_bytes se (bw_buf w) m \<and> s_first (bw_s w) = BFIRST \<and> bw_ea w = None \<and> bw_quota w = 0
     \<and> (if bw_inplace w then \<exists>b. old = Some b \<and> M b = Some (1, m) else h_refcount (bw_buf w) = Inr 1))"

text \<open>Blocks that got one user more, or are new, with attributes \<open>m\<close>.\<close>

definition gained :: "adev \<Rightarrow> nat \<Rightarrow> attrs \<Rightarrow> adev" where
  "gained M b m = M(b := Some (case M b of None \<Rightarrow> 1 | Some (r, _) \<Rightarrow> r + 1, m))"

definition can_gain :: "adev \<Rightarrow> nat \<Rightarrow> attrs \<Rightarrow> bool" where
  "can_gain M b m = (b \<noteq> 0 \<and> (case M b of None \<Rightarrow> True | Some (r, m') \<Rightarrow> m' = m))"

lemma block_bytes_refcount: "block_bytes se buf m \<Longrightarrow> \<exists>r. h_refcount buf = Inr r"
  using block_bytes_length [of se buf m] by (auto simp: h_refcount_def rd_le_def rd_def BFIRST_def)

lemma block_bytes_empty: "block_bytes se buf m \<Longrightarrow> \<exists>e. IS_LAST_ENTRY buf BFIRST = Inr e \<and> (e \<longrightarrow> m = Map.empty)"
proof -
  assume "block_bytes se buf m"
  then obtain es where e: "xtab buf 0 BFIRST es" "tmap buf 0 es = m" by (auto simp: block_bytes_def)
  obtain P G V mo where l: "layout buf 0 P es G V mo" "length P = BFIRST" using e(1) by (auto simp: xtab_def)
  have "IS_LAST_ENTRY buf BFIRST = Inr (es = [])"
  proof (cases es)
    case Nil
    then show ?thesis using endmark_last [of buf P "G @ V"] layoutD(1) [OF l(1)] l(2) by simp
  next
    case (Cons x r)
    then show ?thesis using enc_not_last [of buf P x "tbytes r @ endmark @ G @ V" "length P"] layoutD(1,5) [OF l(1)] l(2) by simp
  qed
  then show ?thesis using e(2) by (auto simp: tmap_def)
qed

definition placed_ok :: "set_env \<Rightarrow> ext4_env \<Rightarrow> adev \<Rightarrow> nat option \<Rightarrow> attrs \<Rightarrow> int + nat option \<Rightarrow> blk_state \<Rightarrow> bool" where
  "placed_ok se env M old m r bs = (case r of
       Inl e \<Rightarrow> e \<noteq> 0 \<and> (dev se env bs M \<or> (\<exists>b. can_gain M b m \<and> dev se env bs (gained M b m)))
     | Inr None \<Rightarrow> m = Map.empty \<and> dev se env bs M
     | Inr (Some b) \<Rightarrow> (old = Some b \<and> dev se env bs M \<and> (\<exists>k. M b = Some (k, m))) \<or> (old \<noteq> Some b \<and> can_gain M b m \<and> dev se env bs (gained M b m)))"

lemma own_dev:
  assumes f: "fresh_blocks bv M" and w: "work_ok se M old w m" and d: "dev se env bs M" and o: "\<forall>b. old = Some b \<longrightarrow> M b \<noteq> None"
  shows "\<exists>r bs'. own_block sv bv env inode old w bs = Inr (r, w, bs') \<and> calm bs bs' \<and> placed_ok se env M old m r bs'"
proof (cases "bw_inplace w")
  case True
  then obtain b where b: "old = Some b" "M b = Some (1, m)" using w by (auto simp: work_ok_def)
  obtain h k where "h_hash (bw_buf w) = Inr h" "h_refcount (bw_buf w) = Inr k"
    using block_bytes_hash block_bytes_refcount w unfolding work_ok_def by blast
  then show ?thesis using True b d
    by (auto simp: own_block_def ext4_xattr_block_cache_insert_def placed_ok_def dev_def calm_def cache_log_def)
next
  case False
  obtain r bs' where r: "alloc_block sv bv env inode w bs = Inr (r, w, bs')" "calm bs bs'"
      "case r of Inr b \<Rightarrow> b \<noteq> 0 \<and> M b = None \<and> dev se env bs' (M(b := Some (1, m)))
       | Inl e \<Rightarrow> e \<noteq> 0 \<and> (dev se env bs' M \<or> (\<exists>b. M b = None \<and> dev se env bs' (M(b := Some (1, m)))))"
    using alloc_dev [OF d f, of w m sv inode] w False by (auto simp: work_ok_def)
  have p: "own_block sv bv env inode old w bs = Inr (case r of Inl error \<Rightarrow> Inl error | Inr b \<Rightarrow> Inr (Some b), w, bs')"
    using False r(1) by (simp add: own_block_def)
  have g: "can_gain M b m \<and> gained M b m = M(b := Some (1, m))" if "M b = None" "dev se env bs' (M(b := Some (1, m)))" for b
    using that dev_nonzero [OF that(2), of b] by (simp add: gained_def can_gain_def)
  show ?thesis
  proof (cases r)
    case (Inl e)
    then consider "e \<noteq> 0" "dev se env bs' M" | b where "e \<noteq> 0" "M b = None" "dev se env bs' (M(b := Some (1, m)))" using r(3) by auto
    then have "placed_ok se env M old m (Inl e) bs'"
    proof cases
      case (2 b)
      then have "can_gain M b m \<and> dev se env bs' (gained M b m)" using g [of b] by simp
      then show ?thesis using 2(1) by (auto simp: placed_ok_def)
    qed (simp add: placed_ok_def)
    then show ?thesis using p r(2) Inl by auto
  next
    case (Inr b)
    then have "placed_ok se env M old m (Inr (Some b)) bs'" using r(3) g [of b] o unfolding placed_ok_def by auto
    then show ?thesis using p r(2) Inr by auto
  qed
qed

lemma place_dev:
  assumes f: "fresh_blocks bv M" and w: "work_ok se M old w m" and o: "\<forall>b. old = Some b \<longrightarrow> M b \<noteq> None" and d: "dev se env bs M"
  shows "\<exists>r bs'. place_block n sv bv env inode old w bs = Inr (r, w, bs') \<and> calm bs bs' \<and> placed_ok se env M old m r bs'"
  using d
proof (induction n arbitrary: bs)
  case (0 bs)
  obtain e where e: "IS_LAST_ENTRY (bw_buf w) (s_first (bw_s w)) = Inr e" "e \<longrightarrow> m = Map.empty"
    using block_bytes_empty [of se "bw_buf w" m] w by (auto simp: work_ok_def)
  then show ?case using own_dev [OF f w 0 o, of sv inode] 0 by (subst place_block.simps) (auto simp: placed_ok_def intro!: exI [of _ "Inr None"])
next
  case (Suc n bs)
  obtain e where e: "IS_LAST_ENTRY (bw_buf w) (s_first (bw_s w)) = Inr e" "e \<longrightarrow> m = Map.empty"
    using block_bytes_empty [of se "bw_buf w" m] w by (auto simp: work_ok_def)
  obtain found where c: "ext4_xattr_block_cache_find bv (bw_buf w) bs = Inr found" "\<forall>b. found = Some b \<longrightarrow> (\<exists>k. M b = Some (k, m))"
    using cache_find_dev [OF Suc.prems, of "bw_buf w" m bv] w by (auto simp: work_ok_def)
  consider "e" | "\<not> e" "found = None" | b where "\<not> e" "found = Some b" "old = Some b" | b where "\<not> e" "found = Some b" "old \<noteq> Some b"
    by (cases found) auto
  then show ?case
  proof cases
    case 1
    then show ?thesis using e Suc.prems by (subst place_block.simps) (auto simp: placed_ok_def)
  next
    case 2
    then show ?thesis using e(1) c(1) own_dev [OF f w Suc.prems o, of sv inode] by (subst place_block.simps) simp
  next
    case (3 b)
    then show ?thesis using e(1) c Suc.prems by (subst place_block.simps) (auto simp: placed_ok_def)
  next
    case (4 b)
    then obtain k where k: "M b = Some (k, m)" using c(2) by blast
    have g: "can_gain M b m" "gained M b m = M(b := Some (k + 1, m))" using k dev_nonzero [OF Suc.prems k] by (simp_all add: gained_def can_gain_def)
    obtain r bs1 where s: "share_block bv env b bs = Inr (r, bs1)" "calm bs bs1"
        "case r of None \<Rightarrow> dev se env bs1 M
         | Some e \<Rightarrow> if e = 0 then dev se env bs1 (M(b := Some (k + 1, m))) else dev se env bs1 M \<or> dev se env bs1 (M(b := Some (k + 1, m)))"
      using share_dev [OF Suc.prems k, of bv] by blast
    show ?thesis
    proof (cases r)
      case None
      then have "place_block (Suc n) sv bv env inode old w bs = place_block n sv bv env inode old w bs1"
        using e(1) c(1) 4 s(1) by (subst place_block.simps) simp
      then show ?thesis using Suc.IH [of bs1] None s(2,3) calm_trans by fastforce
    next
      case (Some er)
      then have "place_block (Suc n) sv bv env inode old w bs = Inr (if er \<noteq> 0 then Inl er else Inr (Some b), w, bs1)"
        using e(1) c(1) 4 s(1) by (subst place_block.simps) simp
      then show ?thesis using Some s(2,3) g 4(3) by (cases "er = 0") (auto simp: placed_ok_def)
    qed
  qed
qed

subsection \<open>Preparing the change\<close>

definition attrs_of :: "adev \<Rightarrow> nat \<Rightarrow> attrs" where
  "attrs_of M acl = (case M acl of None \<Rightarrow> Map.empty | Some (r, m) \<Rightarrow> m)"

text \<open>What \<^verbatim>\<open>ext4_xattr_block_find\<close> leaves: a search in the block of the inode, or none when it has no block.\<close>

definition find_ok :: "blk_state \<Rightarrow> adev \<Rightarrow> nat \<Rightarrow> ext4_xattr_info \<Rightarrow> block_find \<Rightarrow> bool" where
  "find_ok bs M acl i f = (if bf_base f
     then bf_bh f = Some acl \<and> (\<exists>r m bh. M acl = Some (r, m) \<and> bd_blocks bs acl = Inr bh \<and> block_search (b_data bh) m i (bf_s f))
     else acl = 0 \<and> bf_bh f = None \<and> s_not_found (bf_s f) \<noteq> 0)"

definition blocksize_ok :: "set_env \<Rightarrow> bool" where
  "blocksize_ok se = (1024 \<le> set_blocksize se \<and> set_blocksize se \<le> 65536)"

lemma search_fields:
  assumes "block_search buf m i s" "in_table m" "s_not_found s = 0"
  shows "e_value_inum buf (s_here s) = Inr 0 \<and> (\<exists>h. e_hash buf (s_here s) = Inr h) \<and> (\<exists>z. e_value_size buf (s_here s) = Inr z)"
proof -
  obtain es where e: "xtab buf 0 BFIRST es" "tmap buf 0 es = m" "search_ok buf 0 BFIRST es i s" using assms(1) by (auto simp: block_search_def)
  obtain es1 x es2 where x: "es = es1 @ x # es2" "s_here s = BFIRST + length (tbytes es1)" using e(3) assms(3) by (auto simp: search_ok_def)
  obtain P G V mo where l: "layout buf 0 P es G V mo" "length P = BFIRST" using e(1) by (auto simp: xtab_def)
  have ox: "ent_ok x" "t_inum x = 0" using in_table_inum [of buf 0 es x] assms(2) e(2) xtab_ok [OF e(1)] x(1) by auto
  have b: "buf = (P @ tbytes es1) @ enc x @ (tbytes es2 @ endmark @ G @ V)" "s_here s = length (P @ tbytes es1)"
    using layoutD(1) [OF l(1)] x l(2) by simp_all
  show ?thesis using enc_value_inum [OF b ox(1)] enc_hash [OF b ox(1)] enc_value_size [OF b ox(1)] ox(2) by auto
qed

lemma new_block_bytes_ok:
  assumes "blocksize_ok se"
  shows "block_bytes se (new_block_bytes se) Map.empty" "h_refcount (new_block_bytes se) = Inr 1"
    "xtab (new_block_bytes se) 0 BFIRST []" "length (new_block_bytes se) = set_blocksize se"
proof -
  define n where "n = set_blocksize se - 36"
  have n: "set_blocksize se - 12 = 20 + (4 + n)" "set_blocksize se = 36 + n" using assms by (auto simp: n_def blocksize_ok_def)
  define P where "P = le_bytes 4 EXT4_XATTR_MAGIC @ le_bytes 4 1 @ le_bytes 4 1 @ replicate 20 0"
  have b: "new_block_bytes se = P @ tbytes [] @ endmark @ replicate n 0 @ []"
    unfolding new_block_bytes_def n(1) replicate_add by (simp add: P_def endmark_def numeral_eq_Suc)
  have lay: "layout (new_block_bytes se) 0 P [] (replicate n 0) [] (set_blocksize se)"
    unfolding layout_def using b assms n(2) by (simp add: wfv_def P_def blocksize_ok_def endmark_def)
  show x: "xtab (new_block_bytes se) 0 BFIRST []" by (rule xtabI [OF lay]) (simp add: P_def BFIRST_def)
  show len: "length (new_block_bytes se) = set_blocksize se" using b n by (simp add: P_def endmark_def)
  define R where "R = replicate 20 0 @ endmark @ replicate n (0 :: u8)"
  have br: "new_block_bytes se = le_bytes 4 EXT4_XATTR_MAGIC @ le_bytes 4 1 @ le_bytes 4 1 @ R" using b by (simp add: P_def R_def)
  have r: "rd (new_block_bytes se) 0 4 = Inr (le_bytes 4 EXT4_XATTR_MAGIC)" "rd (new_block_bytes se) 4 4 = Inr (le_bytes 4 1)"
      "rd (new_block_bytes se) 8 4 = Inr (le_bytes 4 1)"
    unfolding br by (simp_all add: rd_def)
  have v: "le_nat (le_bytes 4 EXT4_XATTR_MAGIC) = EXT4_XATTR_MAGIC" "le_nat (le_bytes 4 1) = 1"
    by (simp_all add: le_nat_le_bytes EXT4_XATTR_MAGIC_def)
  show "h_refcount (new_block_bytes se) = Inr 1" using r v by (simp add: h_refcount_def rd_le_def)
  show "block_bytes se (new_block_bytes se) Map.empty"
    using x len r v by (auto simp: block_bytes_def in_table_def ordered_def tmap_def rd_le_def intro!: exI [of _ "[]"])
qed

lemma refcount_kept: "take 12 buf' = take 12 buf \<Longrightarrow> length buf' = length buf \<Longrightarrow> h_refcount buf' = h_refcount buf"
proof -
  assume a: "take 12 buf' = take 12 buf" "length buf' = length buf"
  have t: "take 4 (drop 4 b) = drop 4 (take 8 (take 12 b))" for b :: "u8 list" by (simp add: drop_take)
  have "take 4 (drop 4 buf') = take 4 (drop 4 buf)" unfolding t a(1) by (rule refl)
  then show ?thesis using a(2) by (simp add: h_refcount_def rd_le_def rd_def)
qed

text \<open>The conditions under which an attribute is changed in a block.\<close>

definition change_ok :: "set_env \<Rightarrow> ea_services \<Rightarrow> ext4_xattr_info \<Rightarrow> bool" where
  "change_ok se sv i = (info_ok i \<and> \<not> i_in_inode i \<and> ea_sane sv \<and> \<not> has_inline_data se \<and> blocksize_ok se \<and> \<not> has_feature_ea_inode se)"

lemma edit_copy_dev:
  assumes b: "block_bytes se buf m" "h_refcount buf = Inr 1" and s: "block_search buf m i s" and c: "change_ok se sv i"
    and v: "i_value i = None \<longrightarrow> s_not_found s = 0" and d: "dev se env bs M" and g: "igets_fail (bd_ea bs)"
  shows "\<exists>r bs'. block_edit_copy se sv env inode i s buf 0 bs = Inr (r, bs') \<and> calm bs bs' \<and> dev se env bs' M
    \<and> (case r of Inl e \<Rightarrow> e \<noteq> 0 | Inr w \<Rightarrow> \<not> bw_inplace w \<and> work_ok se M old w (block_change m i))"
proof -
  note C = c [unfolded change_ok_def]
  obtain ret buf' st' where e: "ext4_xattr_set_entry se sv env inode i s True buf (bd_ea bs) = Inr (ret, buf', st')"
      "if ret = 0 then block_bytes se buf' (block_change m i) \<and> take 12 buf' = take 12 buf
         \<and> (i_value i \<noteq> None \<longrightarrow> e_value_inum buf' (s_here s) = Inr 0) else buf' = buf"
    using block_entry_set [OF b(1) s _ _ v _ g, of sv env inode] C by blast
  have it: "in_table m" using b(1) by (simp add: block_bytes_def)
  have st: "st' = bd_ea bs" using set_entry_no_inodes [OF e(1)] C search_fields [OF s it] by (auto simp: new_inode_len_def)
  have bs: "bs\<lparr>bd_ea := st'\<rparr> = bs" using st by simp
  show ?thesis
  proof (cases "ret = 0")
    case False
    then show ?thesis using e(1) bs d by (simp add: block_edit_copy_def)
  next
    case True
    define w where "w = \<lparr>bw_buf = buf', bw_s = s, bw_inplace = False, bw_ea = None, bw_quota = 0\<rparr>"
    have "block_edit_copy se sv env inode i s buf 0 bs = Inr (Inr w, bs)"
      using e True bs by (cases "i_value i = None") (auto simp: block_edit_copy_def w_def)
    moreover have E: "block_bytes se buf' (block_change m i)" "take 12 buf' = take 12 buf" using e(2) True by simp_all
    have "length buf' = length buf" using E(1) b(1) by (simp add: block_bytes_def)
    then have "h_refcount buf' = Inr 1" using refcount_kept [OF E(2)] b(2) by simp
    then have "work_ok se M old w (block_change m i)"
      using E(1) s by (auto simp: work_ok_def w_def block_search_def search_ok_def)
    ultimately show ?thesis using d by (auto simp: w_def)
  qed
qed

definition prepared_ok ::
    "set_env \<Rightarrow> ext4_env \<Rightarrow> adev \<Rightarrow> nat option \<Rightarrow> attrs \<Rightarrow> int + block_work \<Rightarrow> blk_state \<Rightarrow> bool" where
  "prepared_ok se env M old m r bs = (case r of
       Inl e \<Rightarrow> e \<noteq> 0 \<and> (dev se env bs M \<or> (\<exists>b m0. old = Some b \<and> M b = Some (1, m0) \<and> dev se env bs (M(b := Some (1, m)))))
     | Inr w \<Rightarrow> \<exists>M'. dev se env bs M' \<and> work_ok se M' old w m
         \<and> (M' = M \<or> (\<exists>b m0. old = Some b \<and> M b = Some (1, m0) \<and> M' = M(b := Some (1, m)))))"

lemma in_place_dev:
  assumes d: "dev se env bs M" and b: "M b = Some (1, m)" "bd_blocks bs b = Inr bh" and s: "block_search (b_data bh) m i s" and c: "change_ok se sv i"
    and v: "i_value i = None \<longrightarrow> s_not_found s = 0" and g: "igets_fail (bd_ea bs)"
  shows "\<exists>r bs'. block_in_place se sv bv env inode i s b bh bs = Inr (r, bs') \<and> calm bs bs' \<and> prepared_ok se env M (Some b) (block_change m i) r bs'"
proof -
  note C = c [unfolded change_ok_def]
  have gb: "good_block se env b bh 1 m" using dev_get [OF d b(1)] b(2) by simp
  then have bb: "block_bytes se (b_data bh) m" "h_refcount (b_data bh) = Inr 1" "b_blocknr bh = b" by (simp_all add: good_block_def)
  obtain ret buf' st' where e: "ext4_xattr_set_entry se sv env inode i s True (b_data bh) (bd_ea bs) = Inr (ret, buf', st')"
      "if ret = 0 then block_bytes se buf' (block_change m i) \<and> take 12 buf' = take 12 (b_data bh)
         \<and> (i_value i \<noteq> None \<longrightarrow> e_value_inum buf' (s_here s) = Inr 0) else buf' = b_data bh"
    using block_entry_set [OF bb(1) s _ _ v _ g, of sv env inode] C by blast
  have it: "in_table m" using bb(1) by (simp add: block_bytes_def)
  have st: "bs\<lparr>bd_ea := st'\<rparr> = bs" using set_entry_no_inodes [OF e(1)] C search_fields [OF s it] by (auto simp: new_inode_len_def)
  define m' where "m' = (if ret = 0 then block_change m i else m)"
  have n: "block_bytes se buf' m'" "h_refcount buf' = Inr 1"
    using e(2) bb refcount_kept [of buf' "b_data bh"] by (auto simp: m'_def block_bytes_def split: if_splits)
  obtain bh' where h: "ext4_xattr_block_csum_set env (bh\<lparr>b_data := buf'\<rparr>) = Inr bh'" "good_block se env b bh' 1 m'"
    using csum_set_good [of se "bh\<lparr>b_data := buf'\<rparr>" m' 1 b env] n bb(3) by (auto simp: EXT4_XATTR_REFCOUNT_MAX_def)
  have bz: "b \<noteq> 0" by (rule dev_nonzero [OF d b(1)])
  have d1: "dev se env (put_block b bh' bs) (M(b := Some (1, m')))" by (rule dev_put [OF d h(2) bz])
  obtain e2 bs2 where a: "bask bv (BlkDirty b) (put_block b bh' bs) = (e2, bs2)" by fastforce
  have d2: "dev se env bs2 (M(b := Some (1, m')))" "calm bs bs2" using d1 bask_frame [OF a] by (simp_all add: dev_def calm_def put_block_def)
  show ?thesis
  proof (cases "ret = 0")
    case False
    then have "block_in_place se sv bv env inode i s b bh bs = Inr (Inl ret, put_block b bh' bs)" using e(1) h(1) st by (simp add: block_in_place_def)
    moreover have "M(b := Some (1, m')) = M" using b(1) False by (auto simp: m'_def)
    ultimately show ?thesis using False d1 by (auto simp: prepared_ok_def)
  next
    case True
    define w where "w = \<lparr>bw_buf = b_data bh', bw_s = s, bw_inplace = True, bw_ea = None, bw_quota = 0\<rparr>"
    have "block_in_place se sv bv env inode i s b bh bs = (if e2 \<noteq> 0 then Inr (Inl e2, bs2) else Inr (Inr w, bs2))"
      using e(1) h(1) st True a by (simp add: block_in_place_def w_def)
    moreover have "work_ok se (M(b := Some (1, m'))) (Some b) w m'"
      using h(2) s by (auto simp: work_ok_def w_def good_block_def block_search_def search_ok_def)
    then have "prepared_ok se env M (Some b) m' (Inr w) bs2" using d2(1) b(1) unfolding prepared_ok_def by auto
    ultimately show ?thesis using d2 b(1) True by (cases "e2 = 0") (auto simp: prepared_ok_def m'_def)
  qed
qed

lemma clone_dev:
  assumes b: "block_bytes se buf m" and s: "block_search buf m i s"
  shows "\<exists>d. clone_block env inode s buf bs = Inr (Inr (d, 0), bs) \<and> block_bytes se d m \<and> h_refcount d = Inr 1 \<and> block_search d m i s"
proof -
  obtain d where d: "set_h_refcount buf 1 = Inr d" "block_bytes se d m" "h_refcount d = Inr 1" "drop 8 d = drop 8 buf"
    using set_refcount_bytes [OF b, of 1] by auto
  have "drop BFIRST d = drop BFIRST buf" using arg_cong [OF d(4), of "drop 24"] by (simp add: BFIRST_def)
  moreover have "length d = length buf" using d(2) b by (simp add: block_bytes_def)
  ultimately have s': "block_search d m i s" by (rule block_search_header [OF s])
  have it: "in_table m" using b by (simp add: block_bytes_def)
  have "clone_block env inode s buf bs = Inr (Inr (d, 0), bs)"
  proof (cases "s_not_found s = 0")
    case True
    then show ?thesis using search_fields [OF s' it] d(1) by (auto simp: clone_block_def)
  qed (use d(1) in \<open>simp add: clone_block_def\<close>)
  then show ?thesis using d(2,3) s' by blast
qed

lemma new_search:
  assumes "blocksize_ok se" "s_not_found s \<noteq> 0"
  shows "block_search (new_block_bytes se) Map.empty i (s\<lparr>s_first := BFIRST, s_base := 0, s_here := BFIRST, s_end := set_blocksize se\<rparr>)"
  using new_block_bytes_ok(3,4) [OF assms(1)] assms(2)
  by (auto simp: block_search_def search_ok_def tmap_def ordered_def before_def intro!: exI [of _ "[]"])

lemma prepare_dev:
  assumes d: "dev se env bs M" and f: "find_ok bs M acl i f" and c: "change_ok se sv i"
    and v: "i_value i = None \<longrightarrow> s_not_found (bf_s f) = 0" and g: "igets_fail (bd_ea bs)"
  shows "\<exists>r bs'. block_prepare se sv bv env inode i f bs = Inr (r, bs') \<and> calm bs bs'
    \<and> prepared_ok se env M (bf_bh f) (block_change (attrs_of M acl) i) r bs'"
proof (cases "bf_base f")
  case False
  then have F: "acl = 0" "bf_bh f = None" "s_not_found (bf_s f) \<noteq> 0" using f by (simp_all add: find_ok_def)
  define s where "s = (bf_s f)\<lparr>s_first := BFIRST, s_base := 0, s_here := BFIRST, s_end := set_blocksize se\<rparr>"
  obtain e bs1 where a: "bask bv Kzalloc bs = (e, bs1)" by fastforce
  note A = bask_frame [OF a]
  have d1: "dev se env bs1 M" "igets_fail (bd_ea bs1)" using d g A dev_cong calm_igets by blast+
  have m: "attrs_of M acl = Map.empty" using d F(1) by (simp add: attrs_of_def dev_def)
  have bz: "blocksize_ok se" using c by (simp add: change_ok_def)
  obtain r bs' where e: "block_edit_copy se sv env inode i s (new_block_bytes se) 0 bs1 = Inr (r, bs')" "calm bs1 bs'" "dev se env bs' M"
      "case r of Inl e \<Rightarrow> e \<noteq> 0 | Inr w \<Rightarrow> \<not> bw_inplace w \<and> work_ok se M None w (block_change Map.empty i)"
    using edit_copy_dev [OF new_block_bytes_ok(1,2) [OF bz] new_search [OF bz F(3)] c _ d1, of inode None] F(3) v unfolding s_def by fastforce
  show ?thesis
  proof (cases "e = 0")
    case True
    then have "block_prepare se sv bv env inode i f bs = Inr (r, bs')" using False a e(1) by (simp add: block_prepare_def s_def)
    then show ?thesis using e(3,4) F(2) m calm_trans [OF conjunct2 [OF A] e(2)] by (auto simp: prepared_ok_def split: sum.splits)
  qed (use False a d1 A in \<open>simp add: block_prepare_def prepared_ok_def ENOMEM_def\<close>)
next
  case True
  then obtain r m bh where F: "bf_bh f = Some acl" "M acl = Some (r, m)" "bd_blocks bs acl = Inr bh" "block_search (b_data bh) m i (bf_s f)"
    using f by (auto simp: find_ok_def)
  have m: "attrs_of M acl = m" using F(2) by (simp add: attrs_of_def)
  have gb: "block_bytes se (b_data bh) m" "h_refcount (b_data bh) = Inr r" using dev_get [OF d F(2)] F(3) by (auto simp: good_block_def)
  obtain h where h: "h_hash (b_data bh) = Inr h" using block_bytes_hash [OF gb(1)] by blast
  obtain e bs1 where a: "bask bv (BlkWriteAccess acl) bs = (e, bs1)" by fastforce
  note A = bask_frame [OF a]
  obtain oe bs2 where o: "(if r = 1 \<and> bsvc_cached bv \<noteq> None then bask bv (CacheInUse acl) bs1 else (0, bs1)) = (oe, bs2)" by fastforce
  have B: "bd_blocks bs2 = bd_blocks bs1" "calm bs1 bs2" using o bask_frame by (auto split: if_splits)
  have C: "bd_blocks bs2 = bd_blocks bs" "calm bs bs2" using A B calm_trans by auto
  consider "e \<noteq> 0" | "e = 0" "r = 1" "oe = 0" | "e = 0" "\<not> (r = 1 \<and> oe = 0)" by blast
  then show ?thesis
  proof cases
    case 1
    then have "block_prepare se sv bv env inode i f bs = Inr (Inl e, bs1)" using True F(1) a by (simp add: block_prepare_def)
    then show ?thesis using 1 A d dev_cong [OF conjunct1 [OF A]] by (auto simp: prepared_ok_def)
  next
    case 2
    define bs3 where "bs3 = (if bsvc_cached bv = None then bs2 else cache_log (CacheDelete h acl) bs2)"
    have D: "bd_blocks bs3 = bd_blocks bs" "calm bs bs3" using C calm_trans [OF C(2)] by (simp_all add: bs3_def)
    obtain r' bs' where p: "block_in_place se sv bv env inode i (bf_s f) acl bh bs3 = Inr (r', bs')" "calm bs3 bs'"
        "prepared_ok se env M (Some acl) (block_change m i) r' bs'"
      using in_place_dev [of se env bs3 M acl m bh i "bf_s f" sv bv inode] d dev_cong [OF D(1)] F 2(2) D c v g calm_igets [OF D(2)] by auto
    have "block_prepare se sv bv env inode i f bs = Inr (r', bs')"
      using True F(1,3) a 2 A o h gb(2) p(1) by (simp add: block_prepare_def bs3_def Let_def)
    then show ?thesis using p(3) F(1) m calm_trans [OF D(2) p(2)] by auto
  next
    case 3
    obtain nm bs3 where k: "bask bv Kmemdup bs2 = (nm, bs3)" by fastforce
    note K = bask_frame [OF k]
    have D: "bd_blocks bs3 = bd_blocks bs" "calm bs bs3" using C K calm_trans by auto
    have d3: "dev se env bs3 M" "igets_fail (bd_ea bs3)" using d g dev_cong [OF D(1)] calm_igets [OF D(2)] by auto
    obtain b where b: "clone_block env inode (bf_s f) (b_data bh) bs3 = Inr (Inr (b, 0), bs3)" "block_bytes se b m" "h_refcount b = Inr 1"
        "block_search b m i (bf_s f)"
      using clone_dev [OF gb(1) F(4)] by blast
    obtain r' bs' where e: "block_edit_copy se sv env inode i (bf_s f) b 0 bs3 = Inr (r', bs')" "calm bs3 bs'" "dev se env bs' M"
        "case r' of Inl e \<Rightarrow> e \<noteq> 0 | Inr w \<Rightarrow> \<not> bw_inplace w \<and> work_ok se M (Some acl) w (block_change m i)"
      using edit_copy_dev [OF b(2,3,4) c v d3, of inode "Some acl"] by blast
    have "block_prepare se sv bv env inode i f bs = (if nm \<noteq> 0 then Inr (Inl (- ENOMEM), bs3) else Inr (r', bs'))"
      using True F(1,3) a 3 A o h gb(2) k b(1) e(1) by (auto simp: block_prepare_def Let_def)
    then show ?thesis using e(3,4) F(1) m d3 D(2) calm_trans [OF D(2) e(2)]
      by (cases "nm = 0") (auto simp: prepared_ok_def ENOMEM_def split: sum.splits)
  qed
qed

subsection \<open>Setting an attribute in a block\<close>

text \<open>
  Nobody else loses a block: a block with a user other than the inode keeps its attributes, and its count stays at least
  the number of its users when the inode goes from block \<open>acl\<close> to block \<open>acl'\<close>.
\<close>

definition users_kept :: "adev \<Rightarrow> nat \<Rightarrow> adev \<Rightarrow> nat \<Rightarrow> bool" where
  "users_kept M acl M' acl' = (\<forall>c r m. M c = Some (r, m) \<and> (c \<noteq> acl \<or> 1 < r) \<longrightarrow>
     (\<exists>r'. M' c = Some (r', m) \<and> r + (if c = acl' then 1 else 0) \<le> r' + (if c = acl then 1 else 0)))"

lemma users_kept_refl: "users_kept M acl M acl"
  by (simp add: users_kept_def)

text \<open>The steps: the block is changed while the inode is its only user, a block gets a user, the old block loses one.\<close>

definition changed_at :: "adev \<Rightarrow> nat \<Rightarrow> attrs \<Rightarrow> adev \<Rightarrow> bool" where
  "changed_at M acl m M' = (M' = M \<or> (\<exists>m0. M acl = Some (1, m0) \<and> M' = M(acl := Some (1, m))))"

lemma changed_users: "changed_at M acl m M' \<Longrightarrow> users_kept M' acl N acl' \<Longrightarrow> users_kept M acl N acl'"
  by (auto simp: changed_at_def users_kept_def split: if_splits)

lemma gained_users:
  assumes "can_gain M b m"
  shows "users_kept M acl (gained M b m) acl" "b \<noteq> acl \<Longrightarrow> users_kept M acl (gained M b m) b"
    "b \<noteq> acl \<Longrightarrow> users_kept M acl (dropref acl (gained M b m)) b" "attrs_of (gained M b m) b = m"
  using assms by (auto simp: users_kept_def gained_def can_gain_def dropref_def attrs_of_def split: option.splits if_splits)

lemma dropped_users: "users_kept M acl M 0" "users_kept M acl (dropref acl M) 0" if "M 0 = None"
  using that by (auto simp: users_kept_def dropref_def split: option.splits if_splits)

lemma prepared_changed:
  assumes "prepared_ok se env M old m r bs" "old = (if acl = 0 then None else Some acl)"
  shows "case r of Inl e \<Rightarrow> e \<noteq> 0 \<and> (\<exists>M'. dev se env bs M' \<and> changed_at M acl m M')
    | Inr w \<Rightarrow> \<exists>M'. dev se env bs M' \<and> work_ok se M' old w m \<and> changed_at M acl m M'"
  using assms by (auto simp: prepared_ok_def changed_at_def split: sum.splits if_splits)

lemma changed_attrs:
  assumes "changed_at M acl m M'"
  shows "attrs_of M' acl = attrs_of M acl \<or> attrs_of M' acl = m" "fresh_blocks bv M \<Longrightarrow> fresh_blocks bv M'" "c \<noteq> acl \<Longrightarrow> M' c = M c"
    "M acl \<noteq> None \<Longrightarrow> M' acl \<noteq> None"
proof -
  have n: "(M' b = None) = (M b = None)" for b using assms by (auto simp: changed_at_def split: if_splits)
  show "fresh_blocks bv M \<Longrightarrow> fresh_blocks bv M'" unfolding fresh_blocks_def n .
qed (use assms in \<open>auto simp: changed_at_def attrs_of_def\<close>)

lemma csum_unverified: "ext4_xattr_block_csum env (bh\<lparr>b_verified := v\<rparr>) = ext4_xattr_block_csum env bh"
  by (simp add: ext4_xattr_block_csum_def)

lemma find_dev:
  assumes d: "dev se env bs M" and a: "i_file_acl inode = 0 \<or> M (i_file_acl inode) \<noteq> None"
  shows "\<exists>f bs'. ext4_xattr_block_find env inode i block_find0 bs = Inr (0, f, bs') \<and> dev se env bs' M \<and> calm bs bs'
    \<and> find_ok bs' M (i_file_acl inode) i f"
proof (cases "i_file_acl inode = 0")
  case True
  then show ?thesis using d by (simp add: ext4_xattr_block_find_def find_ok_def block_find0_def ibody_search0_def ENODATA_def)
next
  case False
  define acl where "acl = i_file_acl inode"
  obtain r m where m: "M acl = Some (r, m)" using a False by (auto simp: acl_def)
  obtain bh where bh: "bd_blocks bs acl = Inr bh" "good_block se env acl bh r m" using dev_get [OF d m] by blast
  obtain v where v: "u_ext4_xattr_check_block env bh = Inr (0, bh\<lparr>b_verified := v\<rparr>)" using check_block_good [OF bh(2)] by blast
  define bs' where "bs' = put_block acl (bh\<lparr>b_verified := v\<rparr>) bs"
  have "good_block se env acl (bh\<lparr>b_verified := v\<rparr>) r m"
    using bh(2) by (cases "has_metadata_csum env") (simp_all add: good_block_def ext4_xattr_block_csum_verify_def csum_unverified)
  then have "dev se env bs' (M(acl := Some (r, m)))" using dev_put [OF d] dev_nonzero [OF d m] by (simp add: bs'_def)
  moreover have "M(acl := Some (r, m)) = M" using m by auto
  ultimately have d': "dev se env bs' M" by simp
  obtain es where e: "xtab (b_data bh) 0 BFIRST es" "ordered (map tkey es)" "tmap (b_data bh) 0 es = m"
    using bh(2) by (auto simp: good_block_def block_bytes_def)
  obtain P G V mo where l: "layout (b_data bh) 0 P es G V mo" "BFIRST = length P" using e(1) by (auto simp: xtab_def)
  obtain err where f: "xattr_find_entry (b_data bh) BFIRST (length (b_data bh)) (i_name_index i) (Some (i_name i)) True
        = Inr (err, BFIRST + length (tbytes (before (ikey i) es)))" "err = 0 \<or> err = - ENODATA"
      "search_ok (b_data bh) 0 BFIRST es i \<lparr>s_first = BFIRST, s_base = 0, s_end = length (b_data bh),
        s_here = BFIRST + length (tbytes (before (ikey i) es)), s_not_found = err\<rparr>"
    using find_sorted [OF l e(2), of i] by blast
  define f' where "f' = \<lparr>bf_s = \<lparr>s_first = BFIRST, s_base = 0, s_end = length (b_data bh),
        s_here = BFIRST + length (tbytes (before (ikey i) es)), s_not_found = err\<rparr>, bf_base = True, bf_bh = Some acl\<rparr>"
  have "ext4_xattr_block_find env inode i block_find0 bs = Inr (0, f', bs')"
    using False bh(1) v f(1,2) by (auto simp: ext4_xattr_block_find_def block_find0_def acl_def [symmetric] f'_def bs'_def)
  moreover have "find_ok bs' M acl i f'" using m e f(3) by (auto simp: find_ok_def f'_def bs'_def put_block_def block_search_def)
  moreover have "calm bs bs'" by (simp add: bs'_def)
  ultimately show ?thesis using d' by (auto simp: acl_def)
qed

text \<open>What the inode has afterwards, and what happens to the blocks.\<close>

definition block_outcome :: "adev \<Rightarrow> nat \<Rightarrow> ext4_xattr_info \<Rightarrow> int \<Rightarrow> adev \<Rightarrow> nat \<Rightarrow> bool" where
  "block_outcome M acl i e M' acl' = (users_kept M acl M' acl' \<and> (acl' = 0 \<or> M' acl' \<noteq> None)
     \<and> (if e = 0 then attrs_of M' acl' = block_change (attrs_of M acl) i \<and> (\<forall>c. c \<noteq> acl \<and> c \<noteq> acl' \<longrightarrow> M' c = M c)
        else acl' = acl \<and> attrs_of M' acl \<in> {attrs_of M acl, block_change (attrs_of M acl) i}))"

lemma placed_outcome_error:
  assumes c: "changed_at M acl (block_change (attrs_of M acl) i) M1" and p: "placed_ok se env M1 old (block_change (attrs_of M acl) i) (Inl e) bs"
    and o: "acl \<noteq> 0 \<longrightarrow> M acl \<noteq> None"
  shows "e \<noteq> 0 \<and> (\<exists>M'. dev se env bs M' \<and> block_outcome M acl i e M' acl)"
proof -
  define m where "m = block_change (attrs_of M acl) i"
  note c = c [folded m_def] and p = p [folded m_def]
  note at = changed_attrs(1) [OF c]
  have e: "e \<noteq> 0" using p by (simp add: placed_ok_def)
  have a: "acl = 0 \<or> M1 acl \<noteq> None" using changed_attrs(4) [OF c] o by blast
  have ga: "acl = 0 \<or> gained M1 b m acl \<noteq> None" for b using a by (auto simp: gained_def)
  consider "dev se env bs M1" | b where "can_gain M1 b m" "dev se env bs (gained M1 b m)" using p by (auto simp: placed_ok_def)
  then show ?thesis
  proof cases
    case 1
    then show ?thesis using e at a changed_users [OF c users_kept_refl] unfolding block_outcome_def m_def by auto
  next
    case (2 b)
    have "attrs_of (gained M1 b m) acl = (if acl = b then m else attrs_of M1 acl)" by (auto simp: attrs_of_def gained_def)
    then have "block_outcome M acl i e (gained M1 b m) acl"
      using e at ga [of b] changed_users [OF c gained_users(1) [OF 2(1)]] unfolding block_outcome_def m_def by auto
    then show ?thesis using e 2(2) by blast
  qed
qed

lemma release_old:
  assumes d: "dev se env bs N" and n: "N acl = Some (r, m)" and f: "\<not> has_feature_ea_inode se"
  shows "\<exists>bs' N'. kbind (ext4_xattr_release_block se sv bv env inode acl [] bs) (\<lambda>(arr, bs). Inr (ext4_xattr_inode_array_free arr bs)) = Inr bs'
    \<and> calm bs bs' \<and> dev se env bs' N' \<and> (N' = N \<or> N' = dropref acl N)"
  using release_dev [OF d n f, of sv bv inode "[]"] by (auto simp: ext4_xattr_inode_array_free_def)

lemma dropref_other: "c \<noteq> b \<Longrightarrow> dropref b M c = M c"
  by (simp add: dropref_def)

lemma released_outcome:
  assumes old: "old = (if acl = 0 then None else Some acl)" "acl \<noteq> 0 \<longrightarrow> M acl \<noteq> None" and z: "M 0 = None"
    and c: "changed_at M acl (block_change (attrs_of M acl) i) M1" and f: "\<not> has_feature_ea_inode se"
    and p: "placed_ok se env M1 old (block_change (attrs_of M acl) i) (Inr new) bs"
  shows "\<exists>bs' M'. (if old \<noteq> None \<and> old \<noteq> new then
            kbind (ext4_xattr_release_block se sv bv env inode (the old) [] bs) (\<lambda>(arr, bs). Inr (ext4_xattr_inode_array_free arr bs))
          else Inr bs) = Inr bs' \<and> calm bs bs' \<and> dev se env bs' M' \<and> block_outcome M acl i 0 M' (case new of None \<Rightarrow> 0 | Some b \<Rightarrow> b)"
proof -
  define m where "m = block_change (attrs_of M acl) i"
  note c = c [folded m_def] and p = p [folded m_def] and same = changed_attrs(3) [OF c]
  define acl' where "acl' = (case new of None \<Rightarrow> 0 | Some b \<Rightarrow> b)"
  have z1: "M1 0 = None" using c z by (cases "acl = 0") (auto simp: changed_at_def)
  have a1: "acl \<noteq> 0 \<Longrightarrow> M1 acl \<noteq> None" using changed_attrs(4) [OF c] old(2) by blast
  consider (empty) "new = None" "m = Map.empty" "dev se env bs M1"
    | (same) k where "new = Some acl" "old = Some acl" "dev se env bs M1" "M1 acl = Some (k, m)"
    | (other) b where "new = Some b" "old \<noteq> Some b" "b \<noteq> acl" "can_gain M1 b m" "dev se env bs (gained M1 b m)"
  proof -
    show thesis
    proof (cases new)
      case None
      then show thesis using p that(1) by (simp add: placed_ok_def)
    next
      case (Some b)
      show thesis
      proof (cases "old = Some b")
        case True
        then show thesis using p Some that(2) old by (auto simp: placed_ok_def split: if_splits)
      next
        case False
        then have "can_gain M1 b m" "dev se env bs (gained M1 b m)" using p Some by (auto simp: placed_ok_def)
        moreover from this(1) have "b \<noteq> acl" using False old(1) by (auto simp: can_gain_def)
        ultimately show thesis using that(3) Some False by blast
      qed
    qed
  qed
  then show ?thesis
  proof cases
    case same
    have "block_outcome M acl i 0 M1 acl"
      using changed_users [OF c users_kept_refl] same(4) changed_attrs(3) [OF c] by (simp add: block_outcome_def m_def attrs_of_def)
    then show ?thesis using same by auto
  next
    case empty
    have at: "attrs_of M1 0 = m" "attrs_of (dropref acl M1) 0 = m" using z1 empty(2) by (auto simp: attrs_of_def dropref_def)
    have out: "block_outcome M acl i 0 N 0" if "N = M1 \<or> N = dropref acl M1" for N
      using changed_users [OF c, of N 0] dropped_users [of M1 acl, OF z1] at that changed_attrs(3) [OF c]
      by (auto simp: block_outcome_def m_def [symmetric] dropref_other)
    show ?thesis
    proof (cases "acl = 0")
      case True
      then show ?thesis using empty old(1) out [of M1] by auto
    next
      case False
      then obtain r mm where "M1 acl = Some (r, mm)" using a1 by auto
      from release_old [OF empty(3) this f, of sv bv inode] show ?thesis using False empty(1) old(1) out by fastforce
    qed
  next
    case (other b)
    have g: "gained M1 b m c' = M1 c'" if "c' \<noteq> b" for c' using that by (simp add: gained_def)
    have gb: "gained M1 b m b \<noteq> None" by (simp add: gained_def)
    have at: "attrs_of (dropref acl (gained M1 b m)) b = m" using gained_users(4) [OF other(4)] other(3) by (simp add: attrs_of_def dropref_other)
    have out: "block_outcome M acl i 0 N b" if "N = gained M1 b m \<or> N = dropref acl (gained M1 b m)" for N
      using changed_users [OF c, of N b] gained_users(2,3) [OF other(4,3)] gained_users(4) [OF other(4)] at that changed_attrs(3) [OF c]
        gb other(3) by (auto simp: block_outcome_def m_def [symmetric] dropref_other g)
    show ?thesis
    proof (cases "acl = 0")
      case True
      then show ?thesis using other(1,5) old(1) out [of "gained M1 b m"] by auto
    next
      case False
      then obtain r mm where "gained M1 b m acl = Some (r, mm)" using a1 g [of acl] other(3) by auto
      from release_old [OF other(5) this f, of sv bv inode] show ?thesis using False other(1,3) old(1) out by fastforce
    qed
  qed
qed

lemma block_set_dev:
  assumes d: "dev se env bs M" and f: "find_ok bs M acl i f" and a: "i_file_acl inode = acl" and c: "change_ok se sv i"
    and v: "i_value i = None \<longrightarrow> s_not_found (bf_s f) = 0" and g: "igets_fail (bd_ea bs)" and fr: "fresh_blocks bv M"
  shows "\<exists>e acl' bs' M'. ext4_xattr_block_set se sv bv env inode i f bs = Inr (e, inode\<lparr>i_file_acl := acl'\<rparr>, bs') \<and> calm bs bs'
    \<and> dev se env bs' M' \<and> block_outcome M acl i e M' acl'"
proof -
  define m where "m = block_change (attrs_of M acl) i"
  have ac: "inode\<lparr>i_file_acl := acl\<rparr> = inode" using a by (cases inode) simp
  have old: "bf_bh f = (if acl = 0 then None else Some acl)" "acl \<noteq> 0 \<longrightarrow> M acl \<noteq> None"
    using f dev_nonzero [OF d, of acl] by (auto simp: find_ok_def split: if_splits)
  have ex: "\<exists>e acl' bs' M'. ext4_xattr_block_set se sv bv env inode i f bs = Inr (e, inode\<lparr>i_file_acl := acl'\<rparr>, bs') \<and> calm bs bs'
      \<and> dev se env bs' M' \<and> block_outcome M acl i e M' acl'"
    if "ext4_xattr_block_set se sv bv env inode i f bs = Inr (e, inode\<lparr>i_file_acl := acl'\<rparr>, bs')" "calm bs bs'" "dev se env bs' M'"
      "block_outcome M acl i e M' acl'" for e acl' bs' M' using that by blast
  have z: "M 0 = None" and nf: "\<not> has_feature_ea_inode se" using d c by (simp_all add: dev_def change_ok_def)
  obtain r bs1 where p: "block_prepare se sv bv env inode i f bs = Inr (r, bs1)" "calm bs bs1" "prepared_ok se env M (bf_bh f) m r bs1"
    using prepare_dev [OF d f c v g, of bv inode] unfolding m_def by blast
  note P = prepared_changed [OF p(3) old(1)]
  show ?thesis
  proof (cases r)
    case (Inl e)
    then obtain M1 where e: "e \<noteq> 0" "dev se env bs1 M1" "changed_at M acl m M1" using P by auto
    have "acl = 0 \<or> M1 acl \<noteq> None" using changed_attrs(4) [OF e(3)] old(2) by blast
    then have "block_outcome M acl i e M1 acl"
      using e(1) changed_users [OF e(3) users_kept_refl] changed_attrs(1) [OF e(3)] unfolding block_outcome_def m_def by auto
    then show ?thesis using ex [of e acl bs1 M1] p(1,2) Inl e(2) ac by (simp add: ext4_xattr_block_set_def)
  next
    case (Inr w)
    then obtain M1 where w: "dev se env bs1 M1" "work_ok se M1 (bf_bh f) w m" "changed_at M acl m M1" using P by auto
    have we: "bw_ea w = None" "bw_quota w = 0" using w(2) by (simp_all add: work_ok_def)
    have o1: "\<forall>b. bf_bh f = Some b \<longrightarrow> M1 b \<noteq> None" using old changed_attrs(4) [OF w(3)] by (auto split: if_splits)
    obtain q bs2 where q: "place_block (bsvc_rounds bv) sv bv env inode (bf_bh f) w bs1 = Inr (q, w, bs2)" "calm bs1 bs2"
        "placed_ok se env M1 (bf_bh f) m q bs2"
      using place_dev [OF changed_attrs(2) [OF w(3) fr] w(2) o1 w(1)] by blast
    have c2: "calm bs bs2" by (rule calm_trans [OF p(2) q(2)])
    show ?thesis
    proof (cases q)
      case (Inl e)
      obtain M' where M': "dev se env bs2 M'" "block_outcome M acl i e M' acl"
        using placed_outcome_error [OF w(3) [unfolded m_def] _ old(2)] q(3) Inl unfolding m_def by blast
      show ?thesis using ex [of e acl bs2 M'] p(1) Inr q(1) Inl c2 M' we ac by (simp add: ext4_xattr_block_set_def block_cleanup_def)
    next
      case n: (Inr new)
      define acl' where "acl' = (case new of None \<Rightarrow> 0 | Some b \<Rightarrow> b)"
      obtain bs3 M3 where r: "(if bf_bh f \<noteq> None \<and> bf_bh f \<noteq> new then
            kbind (ext4_xattr_release_block se sv bv env (inode\<lparr>i_file_acl := acl'\<rparr>) (the (bf_bh f)) [] bs2) (\<lambda>(arr, bs).
            Inr (ext4_xattr_inode_array_free arr bs)) else Inr bs2) = Inr bs3" "calm bs2 bs3" "dev se env bs3 M3"
          "block_outcome M acl i 0 M3 acl'"
        using released_outcome [OF old z w(3) [unfolded m_def] nf q(3) [unfolded n m_def], of sv bv "inode\<lparr>i_file_acl := acl'\<rparr>"]
        unfolding acl'_def [symmetric] by blast
      show ?thesis using ex [of 0 acl' bs3 M3] p(1) Inr q(1) n calm_trans [OF c2 r(2)] r we
        by (simp add: ext4_xattr_block_set_def block_cleanup_def acl'_def [symmetric])
    qed
  qed
qed

end
