(* ===== verification/Ext4_Files.thy ===== *)
theory Ext4_Files
  imports Ext4_Share
begin

text \<open>
  Several files on one file system, whose inodes may have the same block of attributes: what one file reads
  (\<^verbatim>\<open>ext4_xattr_block_get\<close>) while the others set and remove attributes (\<^verbatim>\<open>ext4_xattr_block_find\<close> and
  \<^verbatim>\<open>ext4_xattr_block_set\<close> of \<^verbatim>\<open>Ext4_Block\<close>). Each change is one step; the file system has no values in inodes.
\<close>

subsection \<open>Reading from a block\<close>

definition file_view :: "ext4_inode \<Rightarrow> blk_state \<Rightarrow> ext4_inode" where
  "file_view inode bs = inode\<lparr>acl_block := bd_blocks bs (i_file_acl inode)\<rparr>"

definition plain_value :: "attr option \<Rightarrow> u8 list option" where
  "plain_value a = (case a of Some (InTable v) \<Rightarrow> Some v | _ \<Rightarrow> None)"

lemma in_table_plain:
  assumes "in_table m"
  shows "m k = map_option InTable (plain_value (m k))"
proof (cases "m k")
  case (Some a)
  then obtain v where "a = InTable v" using assms unfolding in_table_def by blast
  then show ?thesis using Some by (simp add: plain_value_def)
qed (simp add: plain_value_def)

lemma block_get_good:
  assumes g: "good_block se env acl bh r m" and i: "i_file_acl inode = acl" "acl \<noteq> 0" "acl_block inode = Inr bh"
  shows "ext4_xattr_block_get env inode idx name buffer = Inr (read_result (plain_value (m (idx, name_bytes name))) buffer)"
proof -
  define j where "j = \<lparr>i_name = name, i_value = None, i_value_len = 0, i_name_index = idx, i_in_inode = False\<rparr>"
  obtain v where v: "u_ext4_xattr_check_block env bh = Inr (0, bh\<lparr>b_verified := v\<rparr>)" using check_block_good [OF g] by blast
  obtain es where e: "in_table m" "xtab (b_data bh) 0 BFIRST es" "ordered (map tkey es)" "tmap (b_data bh) 0 es = m"
    using g by (auto simp: good_block_def block_bytes_def)
  obtain P G V mo where l: "layout (b_data bh) 0 P es G V mo" "BFIRST = length P" using e(2) by (auto simp: xtab_def)
  obtain err here where f: "xattr_find_entry (b_data bh) BFIRST (length (b_data bh)) idx (Some name) True = Inr (err, here)"
      "err = 0 \<or> err = - ENODATA"
      "search_ok (b_data bh) 0 (length P) es j \<lparr>s_first = length P, s_base = 0, s_end = length (b_data bh), s_here = here, s_not_found = err\<rparr>"
    using find_sorted [OF l e(3), of j] l(2) by (auto simp: j_def)
  have "tmap (b_data bh) 0 es (ikey j) = map_option InTable (plain_value (m (idx, name_bytes name)))"
    unfolding e(4) using in_table_plain [OF e(1)] by (simp add: j_def ikey_def)
  note s = search_read [OF l(1) this f(2,3), of env inode buffer]
  have "ext4_xattr_block_get env inode idx name buffer =
      (if err \<noteq> 0 then Inr (err, []) else xattr_get_value env inode (b_data bh) 0 (length (b_data bh)) here buffer)"
    using i v f(1) by (simp add: ext4_xattr_block_get_def)
  then show ?thesis using s by (rule trans)
qed

lemma block_get_dev:
  assumes d: "dev se env bs M" and a: "i_file_acl inode = 0 \<or> M (i_file_acl inode) \<noteq> None"
  shows "ext4_xattr_block_get env (file_view inode bs) idx name buffer
    = Inr (read_result (plain_value (attrs_of M (i_file_acl inode) (idx, name_bytes name))) buffer)"
proof (cases "i_file_acl inode = 0")
  case True
  then show ?thesis using d by (simp add: ext4_xattr_block_get_def file_view_def attrs_of_def dev_def plain_value_def read_result_def)
next
  case False
  then obtain r m where m: "M (i_file_acl inode) = Some (r, m)" using a by auto
  obtain bh where "bd_blocks bs (i_file_acl inode) = Inr bh" "good_block se env (i_file_acl inode) bh r m" using dev_get [OF d m] by blast
  then show ?thesis using block_get_good [of se env "i_file_acl inode" bh r m "file_view inode bs" idx name buffer] False m
    by (simp add: file_view_def attrs_of_def)
qed

subsection \<open>One change\<close>

text \<open>The search and the change, as \<^verbatim>\<open>ext4_xattr_set_handle\<close> makes them; removing what is not there is no change.\<close>

definition block_update ::
    "set_env \<Rightarrow> ea_services \<Rightarrow> blk_services \<Rightarrow> ext4_env \<Rightarrow> ext4_xattr_info \<Rightarrow> ext4_inode \<Rightarrow> blk_state \<Rightarrow> (int \<times> ext4_inode \<times> blk_state) kres" where
  "block_update se sv bv env i inode bs =
     kbind (ext4_xattr_block_find env inode i block_find0 bs) (\<lambda>(error, f, bs).
     if error \<noteq> 0 then Inr (error, inode, bs)
     else if s_not_found (bf_s f) \<noteq> 0 \<and> i_value i = None then Inr (0, inode, bs)
     else ext4_xattr_block_set se sv bv env inode i f bs)"

lemma find_found: "find_ok bs M acl i f \<Longrightarrow> dev se env bs M \<Longrightarrow> s_not_found (bf_s f) \<noteq> 0 \<Longrightarrow> attrs_of M acl (ikey i) = None"
  using block_search_found by (fastforce simp: find_ok_def attrs_of_def dev_def split: if_splits)

lemma block_update_dev:
  assumes d: "dev se env bs M" and a: "i_file_acl inode = 0 \<or> M (i_file_acl inode) \<noteq> None" and c: "change_ok se sv i"
    and g: "igets_fail (bd_ea bs)" and fr: "fresh_blocks bv M"
  shows "\<exists>e acl' bs' M'. block_update se sv bv env i inode bs = Inr (e, inode\<lparr>i_file_acl := acl'\<rparr>, bs') \<and> calm bs bs'
    \<and> dev se env bs' M' \<and> block_outcome M (i_file_acl inode) i e M' acl'"
proof -
  obtain f bs1 where f: "ext4_xattr_block_find env inode i block_find0 bs = Inr (0, f, bs1)" "dev se env bs1 M" "calm bs bs1"
      "find_ok bs1 M (i_file_acl inode) i f"
    using find_dev [OF d a, of i] by blast
  show ?thesis
  proof (cases "s_not_found (bf_s f) \<noteq> 0 \<and> i_value i = None")
    case True
    have "block_change (attrs_of M (i_file_acl inode)) i = attrs_of M (i_file_acl inode)"
      using find_found [OF f(4,2)] True by (auto simp: block_change_def)
    then have "block_outcome M (i_file_acl inode) i 0 M (i_file_acl inode)" using a by (simp add: block_outcome_def users_kept_refl)
    moreover have "block_update se sv bv env i inode bs = Inr (0, inode\<lparr>i_file_acl := i_file_acl inode\<rparr>, bs1)" using f(1) True by (simp add: block_update_def)
    ultimately show ?thesis using f(2,3) by blast
  next
    case False
    then have "block_update se sv bv env i inode bs = ext4_xattr_block_set se sv bv env inode i f bs1" using f(1) by (auto simp: block_update_def)
    moreover have "i_value i = None \<longrightarrow> s_not_found (bf_s f) = 0" "igets_fail (bd_ea bs1)" using False g calm_igets [OF f(3)] by auto
    ultimately show ?thesis using block_set_dev [OF f(2,4) refl c _ _ fr] calm_trans [OF f(3)] by (metis (no_types, lifting))
  qed
qed

subsection \<open>The number of users\<close>

definition users :: "nat set \<Rightarrow> (nat \<Rightarrow> ext4_inode) \<Rightarrow> nat \<Rightarrow> nat" where
  "users F fs c = card {k \<in> F. i_file_acl (fs k) = c}"

definition refs :: "adev \<Rightarrow> nat \<Rightarrow> nat" where
  "refs M c = (case M c of None \<Rightarrow> 0 | Some (r, m) \<Rightarrow> r)"

definition counted :: "nat set \<Rightarrow> (nat \<Rightarrow> ext4_inode) \<Rightarrow> adev \<Rightarrow> bool" where
  "counted F fs M = (\<forall>c. c \<noteq> 0 \<longrightarrow> users F fs c \<le> refs M c)"

lemma users_update:
  assumes "finite F" "k \<in> F" "i_file_acl inode' = acl'"
  shows "users F (fs(k := inode')) c + (if c = i_file_acl (fs k) then 1 else 0) = users F fs c + (if c = acl' then 1 else 0)"
proof -
  define A where "A = {j \<in> F - {k}. i_file_acl (fs j) = c}"
  have A: "finite A" "k \<notin> A" using assms(1) by (simp_all add: A_def)
  have 1: "{j \<in> F. i_file_acl (fs j) = c} = (if c = i_file_acl (fs k) then insert k A else A)" using assms(2) by (auto simp: A_def)
  have 2: "{j \<in> F. i_file_acl ((fs(k := inode')) j) = c} = (if c = acl' then insert k A else A)" using assms(2,3) by (auto simp: A_def)
  show ?thesis unfolding users_def 1 2 using A by simp
qed

lemma users_pos: "finite F \<Longrightarrow> k \<in> F \<Longrightarrow> 0 < users F fs (i_file_acl (fs k))"
  by (auto simp: users_def card_gt_0_iff)

lemma counted_acl: "finite F \<Longrightarrow> counted F fs M \<Longrightarrow> k \<in> F \<Longrightarrow> i_file_acl (fs k) = 0 \<or> M (i_file_acl (fs k)) \<noteq> None"
  using users_pos [of F k fs] unfolding counted_def refs_def by (metis leD option.case(1))

lemma counted_step:
  assumes F: "finite F" "k \<in> F" and c: "counted F fs M" and o: "block_outcome M (i_file_acl (fs k)) i e M' acl'" and d: "dev se env bs' M'"
  shows "counted F (fs(k := (fs k)\<lparr>i_file_acl := acl'\<rparr>)) M'"
  unfolding counted_def
proof (intro allI impI)
  fix c :: nat
  assume c0: "c \<noteq> 0"
  define n where "n = users F (fs(k := (fs k)\<lparr>i_file_acl := acl'\<rparr>)) c"
  have u: "n + (if c = i_file_acl (fs k) then 1 else 0) = users F fs c + (if c = acl' then 1 else 0)"
    unfolding n_def by (rule users_update [OF F]) simp
  have le: "users F fs c \<le> refs M c" using c c0 by (simp add: counted_def)
  have new: "0 < refs M' acl'" if "acl' \<noteq> 0"
    using that o dev_readable [OF d] dev_get [OF d] good_bounds by (fastforce simp: block_outcome_def refs_def split: option.splits)
  show "n \<le> refs M' c"
  proof (cases "\<exists>r m. M c = Some (r, m) \<and> (c \<noteq> i_file_acl (fs k) \<or> 1 < r)")
    case True
    then obtain r m where m: "M c = Some (r, m)" "c \<noteq> i_file_acl (fs k) \<or> 1 < r" by blast
    then obtain r' where "M' c = Some (r', m)" "r + (if c = acl' then 1 else 0) \<le> r' + (if c = i_file_acl (fs k) then 1 else 0)"
      using o unfolding block_outcome_def users_kept_def by blast
    then show ?thesis using u le m(1) by (auto simp: refs_def split: if_splits)
  next
    case False
    then have "users F fs c \<le> (if c = i_file_acl (fs k) then 1 else 0)" using le by (auto simp: refs_def split: option.splits)
    then have "n \<le> (if c = acl' then 1 else 0)" using u by (auto split: if_splits)
    then show ?thesis using new c0 by (cases "c = acl'") auto
  qed
qed

subsection \<open>Sequences of changes\<close>

text \<open>The allocator gives blocks that nobody uses.\<close>

definition free_numbers :: "blk_services \<Rightarrow> blk_state \<Rightarrow> bool" where
  "free_numbers bv bs = (\<forall>t. case bsvc_new_block bv t of Inl err \<Rightarrow> err \<noteq> 0 | Inr b \<Rightarrow> b \<noteq> 0 \<and> (\<exists>err. bd_blocks bs b = Inl err))"

lemma free_fresh:
  assumes d: "dev se env bs M" and n: "free_numbers bv bs"
  shows "fresh_blocks bv M"
  unfolding fresh_blocks_def
proof
  fix t
  have f: "M b = None" if "bd_blocks bs b = Inl err" for b err using dev_at [OF d, of b] that by (simp add: shows_block_def)
  have "case bsvc_new_block bv t of Inl err \<Rightarrow> err \<noteq> 0 | Inr b \<Rightarrow> b \<noteq> 0 \<and> (\<exists>err. bd_blocks bs b = Inl err)" using n by (simp add: free_numbers_def)
  then show "case bsvc_new_block bv t of Inl err \<Rightarrow> err \<noteq> 0 | Inr b \<Rightarrow> b \<noteq> 0 \<and> M b = None"
    using f by (cases "bsvc_new_block bv t") auto
qed

definition files_ok :: "set_env \<Rightarrow> ext4_env \<Rightarrow> nat set \<Rightarrow> (nat \<Rightarrow> ext4_inode) \<times> blk_state \<Rightarrow> bool" where
  "files_ok se env F = (\<lambda>(fs, bs). finite F \<and> igets_fail (bd_ea bs) \<and> (\<exists>M. dev se env bs M \<and> counted F fs M))"

inductive file_step :: "set_env \<Rightarrow> ext4_env \<Rightarrow> nat set \<Rightarrow> (nat \<Rightarrow> ext4_inode) \<times> blk_state \<Rightarrow> (nat \<Rightarrow> ext4_inode) \<times> blk_state \<Rightarrow> bool"
  for se env F where
  change: "k \<in> F \<Longrightarrow> change_ok se sv i \<Longrightarrow> free_numbers bv bs \<Longrightarrow> block_update se sv bv env i (fs k) bs = Inr (e, inode', bs') \<Longrightarrow>
     file_step se env F (fs, bs) (fs(k := inode'), bs')"

inductive_cases file_stepE: "file_step se env F x y"

lemma files_change:
  assumes ok: "files_ok se env F (fs, bs)" and k: "k \<in> F" and c: "change_ok se sv i" and n: "free_numbers bv bs"
  obtains M e acl' bs' M' where "dev se env bs M" "counted F fs M" "block_update se sv bv env i (fs k) bs = Inr (e, (fs k)\<lparr>i_file_acl := acl'\<rparr>, bs')"
    "dev se env bs' M'" "block_outcome M (i_file_acl (fs k)) i e M' acl'" "files_ok se env F (fs(k := (fs k)\<lparr>i_file_acl := acl'\<rparr>), bs')"
proof -
  obtain M where M: "finite F" "dev se env bs M" "counted F fs M" "igets_fail (bd_ea bs)" using ok by (auto simp: files_ok_def)
  obtain e acl' bs' M' where u: "block_update se sv bv env i (fs k) bs = Inr (e, (fs k)\<lparr>i_file_acl := acl'\<rparr>, bs')" "calm bs bs'"
      "dev se env bs' M'" "block_outcome M (i_file_acl (fs k)) i e M' acl'"
    using block_update_dev [OF M(2) counted_acl [OF M(1,3) k] c M(4) free_fresh [OF M(2) n]] by blast
  have "files_ok se env F (fs(k := (fs k)\<lparr>i_file_acl := acl'\<rparr>), bs')"
    using counted_step [OF M(1) k M(3) u(4,3)] u(3) M(1,4) calm_igets [OF u(2)] by (auto simp: files_ok_def)
  then show thesis using that [OF M(2,3) u(1,3,4)] by blast
qed

interpretation sharing: transition_system "files_ok se env F" "file_step se env F" "files_ok se env F"
  for se env F
proof unfold_locales
  fix x y
  assume ok: "files_ok se env F x" and "file_step se env F x y"
  then obtain k sv i bv bs fs e inode' bs' where s: "x = (fs, bs)" "y = (fs(k := inode'), bs')" "k \<in> F" "change_ok se sv i" "free_numbers bv bs"
      "block_update se sv bv env i (fs k) bs = Inr (e, inode', bs')"
    by (elim file_stepE)
  show "files_ok se env F y" using files_change [OF ok [unfolded s(1)] s(3-5)] s(2,6) by fastforce
qed

lemma others_keep:
  assumes F: "finite F" "k \<in> F" "j \<in> F" "j \<noteq> k" and c: "counted F fs M" and o: "block_outcome M (i_file_acl (fs k)) i e M' acl'"
    and z: "M 0 = None" "M' 0 = None"
  shows "attrs_of M' (i_file_acl (fs j)) = attrs_of M (i_file_acl (fs j)) \<and> (i_file_acl (fs j) = 0 \<or> M' (i_file_acl (fs j)) \<noteq> None)"
proof (cases "i_file_acl (fs j) = 0")
  case True
  then show ?thesis using z by (simp add: attrs_of_def)
next
  case False
  then obtain r m where m: "M (i_file_acl (fs j)) = Some (r, m)" using counted_acl [OF F(1) c F(3)] by auto
  have "1 < r" if "i_file_acl (fs j) = i_file_acl (fs k)"
  proof -
    have "card {j, k} \<le> users F fs (i_file_acl (fs j))" unfolding users_def using F that by (intro card_mono) auto
    moreover have "users F fs (i_file_acl (fs j)) \<le> r" using c False m by (auto simp: counted_def refs_def dest: spec [of _ "i_file_acl (fs j)"])
    ultimately show ?thesis using F(4) by simp
  qed
  then obtain r' where "M' (i_file_acl (fs j)) = Some (r', m)" using o m unfolding block_outcome_def users_kept_def by blast
  then show ?thesis using m by (simp add: attrs_of_def)
qed

subsection \<open>Copy on write\<close>


text \<open>C36. Files that share a block do not see each other's changes: when an attribute of file \<open>k\<close> is set or removed,
  with or without success, every read of every attribute of every other file returns what it returned before; after
  success \<open>k\<close> reads the new value, or that the attribute is gone, and its other attributes as before.\<close>

theorem ext4_shared_blocks_isolated:
  assumes "files_ok se env F (fs, bs)" "k \<in> F" "change_ok se sv i" "free_numbers bv bs"
  shows "\<exists>e inode' bs'. block_update se sv bv env i (fs k) bs = Inr (e, inode', bs')
    \<and> (\<forall>j idx name buffer. j \<in> F \<and> j \<noteq> k \<longrightarrow>
         ext4_xattr_block_get env (file_view (fs j) bs') idx name buffer = ext4_xattr_block_get env (file_view (fs j) bs) idx name buffer)
    \<and> (e = 0 \<longrightarrow> (\<forall>idx name buffer. ext4_xattr_block_get env (file_view inode' bs') idx name buffer =
         (if (idx, name_bytes name) = ikey i then Inr (read_result (map_option (\<lambda>_. value_bytes i) (i_value i)) buffer)
          else ext4_xattr_block_get env (file_view (fs k) bs) idx name buffer)))"
proof -
  have F: "finite F" using assms(1) by (simp add: files_ok_def)
  obtain M e acl' bs' M' where u: "dev se env bs M" "counted F fs M" "block_update se sv bv env i (fs k) bs = Inr (e, (fs k)\<lparr>i_file_acl := acl'\<rparr>, bs')"
      "dev se env bs' M'" "block_outcome M (i_file_acl (fs k)) i e M' acl'"
    by (rule files_change [OF assms])
  have z: "M 0 = None" "M' 0 = None" using u(1,4) by (simp_all add: dev_def)
  have "ext4_xattr_block_get env (file_view (fs j) bs') idx name buffer = ext4_xattr_block_get env (file_view (fs j) bs) idx name buffer"
    if "j \<in> F \<and> j \<noteq> k" for j idx name buffer
    using others_keep [OF F assms(2) _ _ u(2,5) z, of j] block_get_dev [OF u(1) counted_acl [OF F u(2)], of j idx name buffer]
      block_get_dev [OF u(4), of "fs j" idx name buffer] that by simp
  moreover have "ext4_xattr_block_get env (file_view ((fs k)\<lparr>i_file_acl := acl'\<rparr>) bs') idx name buffer =
      (if (idx, name_bytes name) = ikey i then Inr (read_result (map_option (\<lambda>_. value_bytes i) (i_value i)) buffer)
       else ext4_xattr_block_get env (file_view (fs k) bs) idx name buffer)" if e: "e = 0" for idx name buffer
  proof -
    have a: "acl' = 0 \<or> M' acl' \<noteq> None" "attrs_of M' acl' = block_change (attrs_of M (i_file_acl (fs k))) i"
      using u(5) e by (simp_all add: block_outcome_def)
    have g: "ext4_xattr_block_get env (file_view ((fs k)\<lparr>i_file_acl := acl'\<rparr>) bs') idx name buffer
        = Inr (read_result (plain_value (block_change (attrs_of M (i_file_acl (fs k))) i (idx, name_bytes name))) buffer)"
      using block_get_dev [OF u(4), of "(fs k)\<lparr>i_file_acl := acl'\<rparr>" idx name buffer] a by simp
    show ?thesis unfolding g block_get_dev [OF u(1) counted_acl [OF F u(2) assms(2)]]
      by (cases "i_value i") (simp_all add: block_change_def plain_value_def)
  qed
  ultimately show ?thesis using u(3) by blast
qed

text \<open>C37. Blocks are never freed under their users: after any sequence of changes to a set of files, the block of
  every file is there and passes the kernel's checks, and its count is at least the number of files that have it and at most the
  limit.\<close>

theorem ext4_shared_block_counts:
  assumes "run_of (file_step se env F) (fs, bs) (fs', bs')" "files_ok se env F (fs, bs)" "k \<in> F" "i_file_acl (fs' k) \<noteq> 0"
  shows "\<exists>bh r v. bd_blocks bs' (i_file_acl (fs' k)) = Inr bh \<and> u_ext4_xattr_check_block env bh = Inr (0, bh\<lparr>b_verified := v\<rparr>)
    \<and> h_refcount (b_data bh) = Inr r \<and> users F fs' (i_file_acl (fs' k)) \<le> r \<and> r \<le> EXT4_XATTR_REFCOUNT_MAX"
proof -
  obtain M where M: "finite F" "dev se env bs' M" "counted F fs' M"
    using sharing.run_inv [OF assms(1,2)] by (auto simp: files_ok_def)
  obtain r m where m: "M (i_file_acl (fs' k)) = Some (r, m)" using counted_acl [OF M(1,3) assms(3)] assms(4) by auto
  obtain bh where bh: "bd_blocks bs' (i_file_acl (fs' k)) = Inr bh" "good_block se env (i_file_acl (fs' k)) bh r m" using dev_get [OF M(2) m] by blast
  have "users F fs' (i_file_acl (fs' k)) \<le> refs M (i_file_acl (fs' k))" using M(3) assms(4) by (simp add: counted_def)
  then show ?thesis using bh check_block_good [OF bh(2)] good_bounds [OF bh(2)] m by (auto simp: good_block_def refs_def)
qed

subsection \<open>The first attribute\<close>

text \<open>Without failures and without an equal block, a value that fits gets a block of its own.\<close>

definition quiet :: "blk_services \<Rightarrow> bool" where
  "quiet bv = ((\<forall>c t. bsvc bv c t = 0) \<and> (\<forall>t. \<exists>b. bsvc_new_block bv t = Inr b) \<and> bsvc_cached bv = None)"

lemma quiet_bask: "quiet bv \<Longrightarrow> \<exists>bs'. bask bv c bs = (0, bs')"
  by (simp add: quiet_def bask_def)

lemma alloc_quiet:
  assumes w: "block_bytes se (bw_buf w) m" "h_refcount (bw_buf w) = Inr 1" "bw_ea w = None" and q: "quiet bv"
  shows "\<exists>b bs'. alloc_block sv bv env inode w bs = Inr (Inr b, w, bs')"
proof -
  obtain b where b: "bsvc_new_block bv (ea_calls (bd_ea bs)) = Inr b" using q unfolding quiet_def by blast
  have w0: "w\<lparr>bw_ea := None\<rparr> = w" using w(3) by (cases w) simp
  obtain bs1 where a1: "bask bv (BlkGetblk b) bs = (0, bs1)" using quiet_bask [OF q] by blast
  obtain bs2 where a2: "bask bv (BlkCreateAccess b) bs1 = (0, bs2)" using quiet_bask [OF q] by blast
  obtain bh where c: "ext4_xattr_block_csum_set env \<lparr>b_data = bw_buf w, b_blocknr = b, b_verified = False\<rparr> = Inr bh" "good_block se env b bh 1 m"
    using csum_set_good [of se "\<lparr>b_data = bw_buf w, b_blocknr = b, b_verified = False\<rparr>" m 1 b env] w by (auto simp: EXT4_XATTR_REFCOUNT_MAX_def)
  obtain h where h: "h_hash (b_data bh) = Inr h" "h_refcount (b_data bh) = Inr 1"
    using c(2) block_bytes_hash unfolding good_block_def by blast
  obtain bs4 where a4: "bask bv (BlkDirty b) (put_block b bh bs2) = (0, bs4)" using quiet_bask [OF q] by blast
  show ?thesis using b a1 a2 inc_ref_all_plain [OF w(1)] w(3) w0 c(1) h a4 q
    by (simp add: alloc_block_def Let_def ext4_xattr_block_cache_insert_def quiet_def)
qed

lemma new_block_space:
  assumes "blocksize_ok se"
  shows "\<exists>mo tot. ext4_xattr_free_space (new_block_bytes se) BFIRST (length (new_block_bytes se) - 0) 0 0 = Inr (set_blocksize se - 36, mo, tot)"
proof -
  note n = new_block_bytes_ok [OF assms]
  obtain P G0 V0 mo where l0: "layout (new_block_bytes se) 0 P [] G0 V0 mo" "length P = BFIRST" using n(3) by (auto simp: xtab_def)
  define m where "m = foldl min_step (length (new_block_bytes se) - 0) []"
  obtain G V where l: "layout (new_block_bytes se) 0 P [] G V m" using layout_exact [OF l0(1)] by (auto simp: m_def)
  have "length G = set_blocksize se - 36" using layoutD(3) [OF l] l0(2) n(4) by (simp add: m_def BFIRST_def)
  then show ?thesis using free_space_layout [OF l m_def] l0(2) by auto
qed

lemma first_attribute:
  assumes c: "change_ok se sv i" and v: "i_value i \<noteq> None" "needed i \<le> set_blocksize se - 36" and a: "i_file_acl inode = 0" and q: "quiet bv"
    and g: "igets_fail (bd_ea bs)"
  shows "\<exists>inode' bs'. block_update se sv bv env i inode bs = Inr (0, inode', bs')"
proof -
  note C = c [unfolded change_ok_def]
  define s where "s = (bf_s block_find0)\<lparr>s_first := BFIRST, s_base := 0, s_here := BFIRST, s_end := set_blocksize se\<rparr>"
  have nf: "s_not_found (bf_s block_find0) \<noteq> 0" by (simp add: block_find0_def ibody_search0_def ENODATA_def)
  have bz: "blocksize_ok se" using C by simp
  note n = new_block_bytes_ok [OF bz]
  have bsr: "block_search (new_block_bytes se) Map.empty i s" unfolding s_def by (rule new_search [OF bz nf])
  have so: "search_ok (new_block_bytes se) 0 BFIRST [] i s"
    using n(4) nf by (simp add: search_ok_def s_def)
  obtain bs1 where a1: "bask bv Kzalloc bs = (0, bs1)" using quiet_bask [OF q] by blast
  have g1: "igets_fail (bd_ea bs1)" using g calm_igets bask_frame [OF a1] by blast
  obtain mo tot where sp: "ext4_xattr_free_space (new_block_bytes se) BFIRST (length (new_block_bytes se) - 0) 0 0 = Inr (set_blocksize se - 36, mo, tot)"
    using new_block_space [OF bz] by blast
  obtain buf where e: "ext4_xattr_set_entry se sv env inode i s True (new_block_bytes se) (bd_ea bs1) = Inr (0, buf, bd_ea bs1)"
    using set_entry_exact [OF n(3) so _ v(1) _ _ sp, of True se sv env inode "bd_ea bs1"] C v(2) by auto
  obtain ret buf' st' where e': "ext4_xattr_set_entry se sv env inode i s True (new_block_bytes se) (bd_ea bs1) = Inr (ret, buf', st')"
      "if ret = 0 then block_bytes se buf' (block_change Map.empty i) \<and> take 12 buf' = take 12 (new_block_bytes se)
         \<and> (i_value i \<noteq> None \<longrightarrow> e_value_inum buf' (s_here s) = Inr 0) else buf' = new_block_bytes se"
    using block_entry_set [OF n(1) bsr _ _ _ _ g1, of sv env inode] C v(1) by blast
  have b: "block_bytes se buf (block_change Map.empty i)" "take 12 buf = take 12 (new_block_bytes se)" "e_value_inum buf BFIRST = Inr 0"
    using e e' v(1) by (auto simp: s_def)
  have "length buf = length (new_block_bytes se)" using b(1) n(4) by (simp add: block_bytes_def)
  then have r: "h_refcount buf = Inr 1" using refcount_kept [OF b(2)] n(2) by simp
  define w where "w = \<lparr>bw_buf = buf, bw_s = s, bw_inplace = False, bw_ea = None, bw_quota = 0\<rparr>"
  have p: "block_prepare se sv bv env inode i block_find0 bs = Inr (Inr w, bs1)"
  proof -
    have "\<not> bf_base block_find0" "s_here s = BFIRST" by (simp_all add: block_find0_def s_def)
    then have "block_edit_copy se sv env inode i s (new_block_bytes se) 0 bs1 = Inr (Inr w, bs1)" "\<not> bf_base block_find0"
      using e b(3) by (simp_all add: block_edit_copy_def w_def)
    then show ?thesis using a1 by (simp add: block_prepare_def s_def)
  qed
  obtain x bs2 where al: "alloc_block sv bv env inode w bs1 = Inr (Inr x, w, bs2)" 
    using alloc_quiet [OF _ _ _ q, of se w "block_change Map.empty i" sv env inode bs1] b(1) r by (auto simp: w_def)
  obtain last where la: "IS_LAST_ENTRY buf BFIRST = Inr last" using block_bytes_empty [OF b(1)] by blast
  have f: "(case k of 0 \<Rightarrow> Inr None | Suc _ \<Rightarrow> ext4_xattr_block_cache_find bv (bw_buf w) bs1) = Inr None" for k
    using q by (simp add: ext4_xattr_block_cache_find_def quiet_def split: nat.splits)
  have fields: "bw_buf w = buf" "s_first (bw_s w) = BFIRST" "\<not> bw_inplace w" by (simp_all add: w_def s_def)
  have "place_block (bsvc_rounds bv) sv bv env inode None w bs1 = (if last then Inr (Inr None, w, bs1) else Inr (Inr (Some x), w, bs2))"
    using al la fields by (subst place_block.simps) (simp add: f own_block_def)
  then show ?thesis using p a nf v(1)
    by (cases last) (auto simp: block_update_def ext4_xattr_block_find_def ext4_xattr_block_set_def block_find0_def block_cleanup_def w_def)
qed

text \<open>Two new files on a file system without blocks of attributes, and services without errors.\<close>

definition share_services :: blk_services where
  "share_services = \<lparr>bsvc = (\<lambda>c t. 0), bsvc_new_block = (\<lambda>t. Inr 7), bsvc_cached = None, bsvc_rounds = 3, bsvc_retries = 3,
     bsvc_journal = True, quota_trans_blocks = 0, writepage_trans_blocks = 1\<rparr>"

definition share_state :: blk_state where
  "share_state = \<lparr>bd_ea = demo_ea_state, bd_blocks = (\<lambda>b. Inl (- EIO)), bd_quota = 0, bd_log = []\<rparr>"

lemma share_facts:
  "change_ok demo_set_env demo_services demo_info" "free_numbers share_services share_state" "igets_fail (bd_ea share_state)"
  "dev demo_set_env new_env share_state Map.empty" "fresh_blocks share_services Map.empty" "i_file_acl new_inode = 0"
  using demo_sane by (simp_all add: change_ok_def demo_set_env_def blocksize_ok_def free_numbers_def share_services_def share_state_def
      dev_def shows_block_def new_inode_def demo_info_def fresh_blocks_def)

lemma share_files: "files_ok demo_set_env new_env {1, 2} (\<lambda>k. new_inode, share_state)"
proof -
  have "counted {1, 2} (\<lambda>k. new_inode) Map.empty" using share_facts(6) by (simp add: counted_def users_def)
  then show ?thesis using share_facts(3,4) by (auto simp: files_ok_def)
qed

lemma share_run: "\<exists>inode' bs'. block_update demo_set_env demo_services share_services new_env demo_info new_inode share_state = Inr (0, inode', bs')"
proof (rule first_attribute [OF share_facts(1) _ _ share_facts(6) _ share_facts(3)])
  show "quiet share_services" by (simp add: quiet_def share_services_def)
qed (simp_all add: demo_info_def demo_set_env_def needed_def EXT4_XATTR_LEN_def padded_size_def)


theorem ext4_shared_blocks_isolated_witness:
  "\<exists>inode' bs'. block_update demo_set_env demo_services share_services new_env demo_info new_inode share_state = Inr (0, inode', bs')
    \<and> ext4_xattr_block_get new_env (file_view inode' bs') 11 ''k'' (Some 3) = Inr (3, [1, 2, 3])
    \<and> ext4_xattr_block_get new_env (file_view new_inode bs') 11 ''k'' (Some 3) = Inr (- ENODATA, [])"
proof -
  obtain inode' bs' where u: "block_update demo_set_env demo_services share_services new_env demo_info new_inode share_state = Inr (0, inode', bs')"
    using share_run by blast
  have o: "ext4_xattr_block_get new_env (file_view new_inode bs') 11 ''k'' (Some 3) = ext4_xattr_block_get new_env (file_view new_inode share_state) 11 ''k'' (Some 3)"
    and g: "ext4_xattr_block_get new_env (file_view inode' bs') 11 ''k'' (Some 3)
      = Inr (read_result (map_option (\<lambda>_. value_bytes demo_info) (i_value demo_info)) (Some 3))"
    using ext4_shared_blocks_isolated [OF share_files _ share_facts(1,2), of 1] u
    by (auto simp: ikey_def demo_info_def dest: spec [of _ 2])
  have "ext4_xattr_block_get new_env (file_view new_inode share_state) 11 ''k'' (Some 3) = Inr (- ENODATA, [])"
    by (simp add: ext4_xattr_block_get_def file_view_def new_inode_def)
  then show ?thesis using u o g by (simp add: read_result_def demo_info_def value_bytes_def)
qed

theorem ext4_shared_block_counts_witness:
  "\<exists>fs' bs' bh r. run_of (file_step demo_set_env new_env {1, 2}) (\<lambda>k. new_inode, share_state) (fs', bs') \<and> i_file_acl (fs' 1) \<noteq> 0
    \<and> bd_blocks bs' (i_file_acl (fs' 1)) = Inr bh \<and> h_refcount (b_data bh) = Inr r \<and> 1 \<le> r"
proof -
  obtain inode' bs' where u: "block_update demo_set_env demo_services share_services new_env demo_info new_inode share_state = Inr (0, inode', bs')"
    using share_run by blast
  define fs' where "fs' = (\<lambda>k :: nat. new_inode)(1 := inode')"
  have run: "run_of (file_step demo_set_env new_env {1, 2}) (\<lambda>k. new_inode, share_state) (fs', bs')"
    unfolding fs'_def by (rule run_step [OF run_refl]) (rule file_step.change [OF _ share_facts(1,2) u], simp)
  obtain acl' M' where a: "inode' = new_inode\<lparr>i_file_acl := acl'\<rparr>" "dev demo_set_env new_env bs' M'"
      "attrs_of M' acl' = block_change (attrs_of Map.empty 0) demo_info"
    using block_update_dev [OF share_facts(4) disjI1 [OF share_facts(6)] share_facts(1,3,5)] u share_facts(6) by (auto simp: block_outcome_def)
  have nz: "i_file_acl (fs' 1) \<noteq> 0"
  proof
    assume "i_file_acl (fs' 1) = 0"
    then have "attrs_of M' 0 = block_change Map.empty demo_info" using a(1,3) by (simp add: fs'_def attrs_of_def)
    moreover have "attrs_of M' 0 = Map.empty" using a(2) by (simp add: dev_def attrs_of_def)
    ultimately have "block_change Map.empty demo_info (ikey demo_info) = None" by simp
    then show False by (simp add: block_change_def demo_info_def)
  qed
  have "0 < users {1, 2} fs' (i_file_acl (fs' 1))" by (rule users_pos) simp_all
  then show ?thesis using ext4_shared_block_counts [OF run share_files _ nz] run nz by fastforce
qed

end
