(* ===== verification/GPT_FS.thy ===== *)
theory GPT_FS
  imports OS_Prelude
begin

text \<open>
  \<^verbatim>\<open>FS/Task2/gptfs.py\<close>: a file system whose directories are sessions with the files \<^verbatim>\<open>input\<close>, \<^verbatim>\<open>output\<close> and
  \<^verbatim>\<open>error\<close>; a write to \<^verbatim>\<open>input\<close> starts a thread that computes the reply. A session object lives on while a
  thread or a writer refers to it, also after its directory is removed: sessions are objects of a heap, and
  the dictionary, in the order of insertion, maps names to them. The reply and the error text are functions of
  the bytes read. \<^verbatim>\<open>FuseOSError\<close> is the left side of a sum, a returned number the right one, as the code has it.

  Threads and writers move by steps, one access to shared data at a time: the locked part of a write, the test
  whether the thread is alive, the assignment and the start of a new one; reading the input, storing the
  reply, and ending. Shown: where the output can come from in any interleaving, and that a text written in pieces is
  answered as a whole when no piece is written while a thread has read the input and not ended.
\<close>

subsection \<open>Paths\<close>

definition strip_slash :: "string \<Rightarrow> string" where
  "strip_slash p = rev (dropWhile (\<lambda>c. c = CHR ''/'') (rev (dropWhile (\<lambda>c. c = CHR ''/'') p)))"

fun split_slash :: "string \<Rightarrow> string list" where
  "split_slash [] = [[]]"
| "split_slash (c # cs) =
     (if c = CHR ''/'' then [] # split_slash cs
      else case split_slash cs of p # ps \<Rightarrow> (c # p) # ps | [] \<Rightarrow> [[c]])"

definition path_parts :: "string \<Rightarrow> string list" where
  "path_parts path = split_slash (strip_slash path)"

subsection \<open>Replies\<close>

text \<open>UTF-8 as \<^verbatim>\<open>bytes.decode\<close> accepts it: no overlong form, no surrogate, nothing above U+10FFFF.\<close>

definition cont :: "u8 \<Rightarrow> bool" where
  "cont b = (0x80 \<le> b \<and> b \<le> 0xBF)"

fun utf8_valid :: "u8 list \<Rightarrow> bool" where
  "utf8_valid [] = True"
| "utf8_valid (a # bs) =
     (if a < 0x80 then utf8_valid bs
      else if 0xC2 \<le> a \<and> a \<le> 0xDF then
        (case bs of b # r \<Rightarrow> cont b \<and> utf8_valid r | _ \<Rightarrow> False)
      else if 0xE0 \<le> a \<and> a \<le> 0xEF then
        (case bs of b # c # r \<Rightarrow> cont b \<and> cont c \<and> (a = 0xE0 \<longrightarrow> 0xA0 \<le> b) \<and> (a = 0xED \<longrightarrow> b \<le> 0x9F) \<and> utf8_valid r | _ \<Rightarrow> False)
      else if 0xF0 \<le> a \<and> a \<le> 0xF4 then
        (case bs of b # c # d # r \<Rightarrow> cont b \<and> cont c \<and> cont d \<and> (a = 0xF0 \<longrightarrow> 0x90 \<le> b) \<and> (a = 0xF4 \<longrightarrow> b \<le> 0x8F) \<and> utf8_valid r
         | _ \<Rightarrow> False)
      else False)"

text \<open>
  The bytes of the fixed text in front of the prompt, and the text of a decoding error, which is Python's.
  Encoding a decoded prompt gives the bytes back.
\<close>

record gpt_texts =
  decode_error :: "u8 list \<Rightarrow> u8 list"

definition reply_prefix :: "u8 list" where
  "reply_prefix =
     [0x5B, 0xE6, 0xA8, 0xA1, 0xE6, 0x8B, 0x9F, 0x47, 0x50, 0x54, 0xE5, 0x9B, 0x9E, 0xE5, 0xA4, 0x8D, 0x5D, 0x20, 0xE4, 0xBD, 0xA0, 0xE8, 0xAF, 0xB4, 0xE7, 0x9A, 0x84, 0xE6, 0x98, 0xAF, 0x3A, 0x20]"

definition gpt_reply :: "gpt_texts \<Rightarrow> u8 list \<Rightarrow> u8 list + u8 list" where
  "gpt_reply tx prompt = (if utf8_valid prompt then Inr (reply_prefix @ prompt) else Inl (decode_error tx prompt))"

subsection \<open>Sessions\<close>

datatype gpt_thread = TNew | TRun | TReply "u8 list + u8 list" | TStored | TDone

datatype writer = WCheck | WAssign | WStart

record gpt_session =
  s_input :: "u8 list"
  s_output :: "u8 list"
  s_error :: "u8 list"
  s_threads :: "gpt_thread list"
  s_current :: "nat option"
  s_writers :: "writer list"
  s_failed :: nat

definition GPTSession :: gpt_session where
  "GPTSession = \<lparr>s_input = [], s_output = [], s_error = [], s_threads = [], s_current = None, s_writers = [], s_failed = 0\<rparr>"

fun is_alive :: "gpt_thread \<Rightarrow> bool" where
  "is_alive TNew = False"
| "is_alive TRun = True"
| "is_alive (TReply r) = True"
| "is_alive TStored = True"
| "is_alive TDone = False"

definition current_alive :: "gpt_session \<Rightarrow> bool" where
  "current_alive s = (case s_current s of None \<Rightarrow> False | Some i \<Rightarrow> is_alive (s_threads s ! i))"

text \<open>The locked part of a write; the writer goes on to \<^verbatim>\<open>trigger_gpt\<close>.\<close>

definition write_input :: "u8 list \<Rightarrow> nat \<Rightarrow> gpt_session \<Rightarrow> gpt_session" where
  "write_input data offset s =
     (if offset = 0 then s\<lparr>s_input := data, s_output := [], s_error := [], s_writers := s_writers s @ [WCheck]\<rparr>
      else s\<lparr>s_input := s_input s @ data, s_writers := s_writers s @ [WCheck]\<rparr>)"

definition truncate_input :: "nat \<Rightarrow> gpt_session \<Rightarrow> gpt_session" where
  "truncate_input len s = s\<lparr>s_input := take len (s_input s)\<rparr>"

definition remove_at :: "nat \<Rightarrow> 'a list \<Rightarrow> 'a list" where
  "remove_at i xs = take i xs @ drop (Suc i) xs"

text \<open>
  \<^verbatim>\<open>trigger_gpt\<close>: starting a thread twice raises, which ends the writer.
\<close>

definition trigger_gpt :: "nat \<Rightarrow> gpt_session \<Rightarrow> gpt_session" where
  "trigger_gpt i s =
     (case s_writers s ! i of
        WCheck \<Rightarrow>
          if current_alive s then s\<lparr>s_writers := remove_at i (s_writers s)\<rparr>
          else s\<lparr>s_writers := (s_writers s)[i := WAssign]\<rparr>
      | WAssign \<Rightarrow>
          s\<lparr>s_threads := s_threads s @ [TNew], s_current := Some (length (s_threads s)), s_writers := (s_writers s)[i := WStart]\<rparr>
      | WStart \<Rightarrow>
          (case s_current s of
             None \<Rightarrow> s\<lparr>s_writers := remove_at i (s_writers s), s_failed := s_failed s + 1\<rparr>
           | Some k \<Rightarrow>
               if s_threads s ! k = TNew
               then s\<lparr>s_threads := (s_threads s)[k := TRun], s_writers := remove_at i (s_writers s)\<rparr>
               else s\<lparr>s_writers := remove_at i (s_writers s), s_failed := s_failed s + 1\<rparr>))"

text \<open>\<^verbatim>\<open>run_gpt\<close>: the input is read without the lock, the result stored under it.\<close>

definition run_gpt :: "gpt_texts \<Rightarrow> nat \<Rightarrow> gpt_session \<Rightarrow> gpt_session" where
  "run_gpt tx k s =
     (case s_threads s ! k of
        TRun \<Rightarrow> s\<lparr>s_threads := (s_threads s)[k := TReply (gpt_reply tx (s_input s))]\<rparr>
      | TReply (Inr reply) \<Rightarrow> s\<lparr>s_output := reply, s_error := [], s_threads := (s_threads s)[k := TStored]\<rparr>
      | TReply (Inl err) \<Rightarrow> s\<lparr>s_output := [], s_error := err, s_threads := (s_threads s)[k := TStored]\<rparr>
      | TStored \<Rightarrow> s\<lparr>s_threads := (s_threads s)[k := TDone]\<rparr>
      | _ \<Rightarrow> s)"

datatype gpt_event = EvWrite "u8 list" nat | EvTruncate nat | EvWriter nat | EvThread nat

text \<open>One step of a session, if it is possible.\<close>

fun gpt_exec :: "gpt_texts \<Rightarrow> gpt_event \<Rightarrow> gpt_session \<Rightarrow> gpt_session option" where
  "gpt_exec tx (EvWrite data offset) s = Some (write_input data offset s)"
| "gpt_exec tx (EvTruncate len) s = Some (truncate_input len s)"
| "gpt_exec tx (EvWriter i) s = (if i < length (s_writers s) then Some (trigger_gpt i s) else None)"
| "gpt_exec tx (EvThread k) s =
     (if k < length (s_threads s) \<and> is_alive (s_threads s ! k) then Some (run_gpt tx k s) else None)"

fun gpt_run :: "gpt_texts \<Rightarrow> gpt_event list \<Rightarrow> gpt_session \<Rightarrow> gpt_session option" where
  "gpt_run tx [] s = Some s"
| "gpt_run tx (e # es) s = (case gpt_exec tx e s of None \<Rightarrow> None | Some s' \<Rightarrow> gpt_run tx es s')"

definition quiet :: "gpt_session \<Rightarrow> bool" where
  "quiet s = (s_writers s = [] \<and> (\<forall>t \<in> set (s_threads s). \<not> is_alive t))"

subsection \<open>The file system\<close>

record gpt_fs =
  sessions :: "(string \<times> nat) list"
  objects :: "gpt_session list"
  fd :: nat

definition GPTfs :: gpt_fs where
  "GPTfs = \<lparr>sessions = [], objects = [], fd = 0\<rparr>"

datatype stat = Dir | RegFile nat

fun file_of :: "string \<Rightarrow> gpt_session \<Rightarrow> u8 list option" where
  "file_of f s = (if f = ''input'' then Some (s_input s) else if f = ''output'' then Some (s_output s)
     else if f = ''error'' then Some (s_error s) else None)"

definition gpt_getattr :: "string \<Rightarrow> gpt_fs \<Rightarrow> int + stat" where
  "gpt_getattr path fs =
     (if path = ''/'' then Inr Dir
      else case path_parts path of
        [n] \<Rightarrow> if n \<noteq> [] \<and> n \<in> fst ` set (sessions fs) then Inr Dir else Inl ENOENT
      | [n, f] \<Rightarrow>
          (case map_of (sessions fs) n of
             None \<Rightarrow> Inl ENOENT
           | Some a \<Rightarrow> (case file_of f (objects fs ! a) of None \<Rightarrow> Inl ENOENT | Some b \<Rightarrow> Inr (RegFile (length b))))
      | _ \<Rightarrow> Inl ENOENT)"

definition gpt_readdir :: "string \<Rightarrow> gpt_fs \<Rightarrow> int + string list" where
  "gpt_readdir path fs =
     (if path = ''/'' then Inr ([''.'', ''..''] @ map fst (sessions fs))
      else case path_parts path of
        [n] \<Rightarrow> if n \<in> fst ` set (sessions fs) then Inr [''.'', ''..'', ''input'', ''output'', ''error''] else Inl ENOENT
      | _ \<Rightarrow> Inl ENOENT)"

definition gpt_mkdir :: "string \<Rightarrow> gpt_fs \<Rightarrow> int \<times> gpt_fs" where
  "gpt_mkdir path fs =
     (case path_parts path of
        [n] \<Rightarrow> if n \<in> fst ` set (sessions fs) then (- EEXIST, fs)
               else (0, fs\<lparr>sessions := sessions fs @ [(n, length (objects fs))], objects := objects fs @ [GPTSession]\<rparr>)
      | _ \<Rightarrow> (- EPERM, fs))"

definition gpt_rmdir :: "string \<Rightarrow> gpt_fs \<Rightarrow> (int + int) \<times> gpt_fs" where
  "gpt_rmdir path fs =
     (case path_parts path of
        [n] \<Rightarrow> if n \<notin> fst ` set (sessions fs) then (Inl ENOENT, fs)
               else (Inr 0, fs\<lparr>sessions := filter (\<lambda>(m, a). m \<noteq> n) (sessions fs)\<rparr>)
      | _ \<Rightarrow> (Inr (- EPERM), fs))"

definition gpt_open :: "string \<Rightarrow> gpt_fs \<Rightarrow> (int + int) \<times> gpt_fs" where
  "gpt_open path fs =
     (case path_parts path of
        [n, f] \<Rightarrow>
          if n \<notin> fst ` set (sessions fs) then (Inl ENOENT, fs)
          else if f \<notin> {''input'', ''output'', ''error''} then (Inl ENOENT, fs)
          else (Inr (int (fd fs + 1)), fs\<lparr>fd := fd fs + 1\<rparr>)
      | _ \<Rightarrow> (Inr (- EPERM), fs))"

text \<open>
  Any attribute of the session object can be named in a read; \<open>other\<close> is what slicing one other than the three
  files gives, \<open>None\<close> an exception.
\<close>

definition gpt_read :: "(string \<Rightarrow> u8 list option) \<Rightarrow> string \<Rightarrow> nat \<Rightarrow> nat \<Rightarrow> gpt_fs \<Rightarrow> u8 list option" where
  "gpt_read other path sz offset fs =
     (case path_parts path of
        [n, f] \<Rightarrow>
          (case map_of (sessions fs) n of
             None \<Rightarrow> Some []
           | Some a \<Rightarrow>
               (case file_of f (objects fs ! a) of
                  Some b \<Rightarrow> Some (take sz (drop offset b))
                | None \<Rightarrow> map_option (\<lambda>b. take sz (drop offset b)) (other f)))
      | _ \<Rightarrow> Some [])"

definition gpt_write :: "string \<Rightarrow> u8 list \<Rightarrow> nat \<Rightarrow> gpt_fs \<Rightarrow> (int + int) \<times> gpt_fs" where
  "gpt_write path data offset fs =
     (case path_parts path of
        [n, f] \<Rightarrow>
          (case map_of (sessions fs) n of
             None \<Rightarrow> (Inl ENOENT, fs)
           | Some a \<Rightarrow>
               if f \<noteq> ''input'' then (Inr (- EPERM), fs)
               else (Inr (int (length data)), fs\<lparr>objects := (objects fs)[a := write_input data offset (objects fs ! a)]\<rparr>))
      | _ \<Rightarrow> (Inr (- EPERM), fs))"

definition gpt_truncate :: "string \<Rightarrow> nat \<Rightarrow> gpt_fs \<Rightarrow> (int + int) \<times> gpt_fs" where
  "gpt_truncate path len fs =
     (case path_parts path of
        [n, f] \<Rightarrow>
          (case map_of (sessions fs) n of
             None \<Rightarrow> (Inl ENOENT, fs)
           | Some a \<Rightarrow>
               (Inr 0, if f = ''input'' then fs\<lparr>objects := (objects fs)[a := truncate_input len (objects fs ! a)]\<rparr> else fs))
      | _ \<Rightarrow> (Inr (- EPERM), fs))"

definition gpt_unlink :: "string \<Rightarrow> gpt_fs \<Rightarrow> int \<times> gpt_fs" where
  "gpt_unlink path fs = (- EPERM, fs)"

subsection \<open>Runs\<close>

lemma gpt_run_append: "gpt_run tx (es @ fs) s = (case gpt_run tx es s of None \<Rightarrow> None | Some t \<Rightarrow> gpt_run tx fs t)"
  by (induction es arbitrary: s) (auto split: option.splits)

text \<open>The contents the input had at some moment of a run.\<close>

definition inputs_seen :: "gpt_texts \<Rightarrow> gpt_event list \<Rightarrow> gpt_session \<Rightarrow> u8 list set" where
  "inputs_seen tx es s0 = {s_input t | k t. k \<le> length es \<and> gpt_run tx (take k es) s0 = Some t}"

lemma inputs_seen_now: "gpt_run tx es s0 = Some s \<Longrightarrow> s_input s \<in> inputs_seen tx es s0"
  by (force simp: inputs_seen_def)

lemma inputs_seen_more: "inputs_seen tx es s0 \<subseteq> inputs_seen tx (es @ [e]) s0"
proof
  fix p assume "p \<in> inputs_seen tx es s0"
  then obtain k t where "k \<le> length es" "gpt_run tx (take k es) s0 = Some t" "p = s_input t" by (auto simp: inputs_seen_def)
  then show "p \<in> inputs_seen tx (es @ [e]) s0" unfolding inputs_seen_def by (auto intro!: exI [of _ k] exI [of _ t])
qed

definition replies_from :: "gpt_texts \<Rightarrow> u8 list set \<Rightarrow> gpt_session \<Rightarrow> bool" where
  "replies_from tx I s = ((\<forall>r. TReply r \<in> set (s_threads s) \<longrightarrow> r \<in> gpt_reply tx ` I)
     \<and> (s_output s = [] \<or> Inr (s_output s) \<in> gpt_reply tx ` I) \<and> (s_error s = [] \<or> Inl (s_error s) \<in> gpt_reply tx ` I))"

lemma replies_from_mono: "replies_from tx I s \<Longrightarrow> I \<subseteq> J \<Longrightarrow> replies_from tx J s"
  unfolding replies_from_def by blast

lemma thread_update: "TReply r \<in> set (ts[k := t]) \<Longrightarrow> TReply r \<in> set ts \<or> t = TReply r"
  using set_update_subset_insert [of ts k t] by auto

lemma run_gpt_replies:
  assumes "replies_from tx I s" "s_input s \<in> I" "k < length (s_threads s)"
  shows "replies_from tx I (run_gpt tx k s)"
proof (cases "s_threads s ! k")
  case TRun
  then show ?thesis using assms by (auto simp: run_gpt_def replies_from_def dest!: thread_update)
next
  case (TReply r)
  then have "r \<in> gpt_reply tx ` I" using assms by (metis nth_mem replies_from_def)
  then show ?thesis using TReply assms
    by (cases r) (auto simp: run_gpt_def replies_from_def dest!: thread_update)
qed (use assms in \<open>auto simp: run_gpt_def replies_from_def dest!: thread_update\<close>)

lemma gpt_exec_replies:
  assumes "gpt_exec tx e s = Some t" "replies_from tx I s" "s_input s \<in> I"
  shows "replies_from tx I t"
proof (cases e)
  case (EvThread k)
  then show ?thesis using assms run_gpt_replies [OF assms(2,3), of k] by (auto split: if_splits)
next
  case (EvWriter i)
  then show ?thesis using assms
    by (auto simp: trigger_gpt_def replies_from_def split: if_splits writer.splits option.splits dest!: thread_update)
qed (use assms in \<open>auto simp: write_input_def truncate_input_def replies_from_def split: if_splits\<close>)

text \<open>C38. Whatever happens to a session, in any order of writes, truncations, writers and threads, its output is
  empty or the reply to a content its input had at some moment, and its error is empty or comes from such a
  content.\<close>

theorem gpt_output_from_input:
  assumes "gpt_run tx es GPTSession = Some s"
  shows "(s_output s = [] \<or> (\<exists>p \<in> inputs_seen tx es GPTSession. utf8_valid p \<and> s_output s = reply_prefix @ p))
    \<and> (s_error s = [] \<or> (\<exists>p \<in> inputs_seen tx es GPTSession. \<not> utf8_valid p \<and> s_error s = decode_error tx p))"
proof -
  have "replies_from tx (inputs_seen tx es GPTSession) s" using assms
  proof (induction es arbitrary: s rule: rev_induct)
    case Nil
    then show ?case by (auto simp: replies_from_def GPTSession_def)
  next
    case (snoc e es)
    then obtain t where t: "gpt_run tx es GPTSession = Some t" "gpt_exec tx e t = Some s"
      by (auto simp: gpt_run_append split: option.splits)
    show ?case
      using gpt_exec_replies [OF t(2) snoc.IH [OF t(1)] inputs_seen_now [OF t(1)]] inputs_seen_more
      by (rule replies_from_mono)
  qed
  then show ?thesis by (auto simp: replies_from_def gpt_reply_def split: if_splits)
qed

definition demo_texts :: gpt_texts where
  "demo_texts = \<lparr>decode_error = (\<lambda>p. [39])\<rparr>"

theorem gpt_output_from_input_witness:
  "\<exists>s. gpt_run demo_texts [EvWrite [97] 0, EvWriter 0, EvWriter 0, EvWriter 0, EvThread 0, EvThread 0] GPTSession = Some s
    \<and> s_output s = reply_prefix @ [97]
    \<and> (s_output s = [] \<or> (\<exists>p. utf8_valid p \<and> s_output s = reply_prefix @ p))"
proof -
  obtain s where s: "gpt_run demo_texts [EvWrite [97] 0, EvWriter 0, EvWriter 0, EvWriter 0, EvThread 0, EvThread 0] GPTSession = Some s"
      "s_output s = reply_prefix @ [97]"
    by (simp add: GPTSession_def write_input_def trigger_gpt_def current_alive_def run_gpt_def gpt_reply_def demo_texts_def remove_at_def)
  then show ?thesis using gpt_output_from_input [OF s(1)] by blast
qed

text \<open>A reply can be stale for good: when the input is replaced while the thread works on the old one, no new
  thread is started, and the session comes to rest with the new input and the reply to the old.\<close>

lemma gpt_stale_reply:
  assumes "utf8_valid a"
  shows "\<exists>es s. gpt_run tx es GPTSession = Some s \<and> quiet s \<and> s_failed s = 0 \<and> s_input s = b \<and> s_output s = reply_prefix @ a"
  using assms
  by (intro exI [of _ "[EvWrite a 0, EvWriter 0, EvWriter 0, EvWriter 0, EvThread 0, EvWrite b 0, EvWriter 0, EvThread 0, EvThread 0]"])
    (simp add: GPTSession_def write_input_def trigger_gpt_def current_alive_def run_gpt_def gpt_reply_def remove_at_def quiet_def)

subsection \<open>Timely writes\<close>

definition settled :: "gpt_session \<Rightarrow> bool" where
  "settled s = (quiet s \<and> (\<forall>i. s_current s = Some i \<longrightarrow> i < length (s_threads s)))"

definition answered :: "gpt_texts \<Rightarrow> u8 list \<Rightarrow> gpt_session \<Rightarrow> bool" where
  "answered tx p s = (s_input s = p \<and>
     (if utf8_valid p then s_output s = reply_prefix @ p \<and> s_error s = [] else s_output s = [] \<and> s_error s = decode_error tx p))"

text \<open>
  A thread is late when it has read the input and not ended yet: what is written then it will not answer, and as long as
  it lives nobody starts another. A run is timely when nothing is written while a thread is late, and nothing is truncated.
\<close>

fun is_late :: "gpt_thread \<Rightarrow> bool" where
  "is_late (TReply r) = True"
| "is_late TStored = True"
| "is_late _ = False"

fun timely :: "gpt_texts \<Rightarrow> gpt_event list \<Rightarrow> gpt_session \<Rightarrow> bool" where
  "timely tx [] s = True"
| "timely tx (e # es) s =
     ((case e of EvWrite data offset \<Rightarrow> \<forall>t \<in> set (s_threads s). \<not> is_late t | EvTruncate len \<Rightarrow> False | _ \<Rightarrow> True) \<and>
      (case gpt_exec tx e s of None \<Rightarrow> True | Some s' \<Rightarrow> timely tx es s'))"

fun pieces :: "gpt_event list \<Rightarrow> (u8 list \<times> nat) list" where
  "pieces [] = []"
| "pieces (EvWrite data offset # es) = (data, offset) # pieces es"
| "pieces (e # es) = pieces es"

text \<open>
  While the reply to the whole input is not there, somebody is on the way to it: a writer that will start a thread, a thread
  that will read the input, or one that has read all of it.
\<close>

definition on_the_way :: "gpt_session \<Rightarrow> bool" where
  "on_the_way s = (WCheck \<in> set (s_writers s) \<or> WAssign \<in> set (s_writers s) \<or> TRun \<in> set (s_threads s)
     \<or> (\<exists>r. TReply r \<in> set (s_threads s)) \<or> (WStart \<in> set (s_writers s) \<and> (\<exists>k. s_current s = Some k \<and> s_threads s ! k = TNew)))"

definition gpt_inv :: "gpt_texts \<Rightarrow> gpt_session \<Rightarrow> bool" where
  "gpt_inv tx s = ((\<forall>k. s_current s = Some k \<longrightarrow> k < length (s_threads s))
     \<and> (\<forall>r. TReply r \<in> set (s_threads s) \<longrightarrow> r = gpt_reply tx (s_input s))
     \<and> (TStored \<in> set (s_threads s) \<longrightarrow> answered tx (s_input s) s)
     \<and> (answered tx (s_input s) s \<or> on_the_way s))"

lemma answered_frame [simp]: "answered tx p (s\<lparr>s_writers := w\<rparr>) = answered tx p s" "answered tx p (s\<lparr>s_failed := n\<rparr>) = answered tx p s"
    "answered tx p (s\<lparr>s_threads := ts\<rparr>) = answered tx p s" "answered tx p (s\<lparr>s_current := k\<rparr>) = answered tx p s"
  by (simp_all add: answered_def)

lemma remove_at_mem: "i < length xs \<Longrightarrow> x \<in> set xs \<Longrightarrow> x \<noteq> xs ! i \<Longrightarrow> x \<in> set (remove_at i xs)"
  using id_take_nth_drop [of i xs] by (auto simp: remove_at_def) (metis Un_iff insert_iff list.simps(15) set_append)

lemma update_mem: "i < length xs \<Longrightarrow> x \<in> set xs \<Longrightarrow> x \<noteq> xs ! i \<Longrightarrow> x \<in> set (xs[i := y])"
  by (metis in_set_conv_nth length_list_update nth_list_update_neq)

lemma write_inv:
  assumes "\<forall>k. s_current s = Some k \<longrightarrow> k < length (s_threads s)" "\<forall>t \<in> set (s_threads s). \<not> is_late t"
  shows "gpt_inv tx (write_input data offset s)"
  using assms by (fastforce simp: gpt_inv_def write_input_def on_the_way_def)

lemma thread_inv:
  assumes inv: "gpt_inv tx s" and k: "k < length (s_threads s)" "is_alive (s_threads s ! k)"
  shows "gpt_inv tx (run_gpt tx k s)"
proof -
  have mem: "s_threads s ! k \<in> set (s_threads s)" using k(1) by simp
  have new: "x = y \<or> x \<in> set (s_threads s)" if "x \<in> set ((s_threads s)[k := y])" for x y
    using that set_update_subset_insert [of "s_threads s" k y] by auto
  have here: "y \<in> set ((s_threads s)[k := y])" for y using k(1) by (simp add: set_update_memI)
  have cur: "\<forall>j. s_current (run_gpt tx k s) = Some j \<longrightarrow> j < length (s_threads (run_gpt tx k s))"
    using inv by (auto simp: gpt_inv_def run_gpt_def split: gpt_thread.splits sum.splits)
  show ?thesis
  proof (cases "s_threads s ! k")
    case TRun
    define u where "u = s\<lparr>s_threads := (s_threads s)[k := TReply (gpt_reply tx (s_input s))]\<rparr>"
    have "TReply r \<in> set (s_threads u) \<Longrightarrow> r = gpt_reply tx (s_input s)" for r
      using new [of "TReply r"] inv by (auto simp: u_def gpt_inv_def)
    moreover have "TStored \<in> set (s_threads u) \<Longrightarrow> answered tx (s_input s) s" using new [of TStored] inv by (auto simp: u_def gpt_inv_def)
    moreover have "on_the_way u" using here by (auto simp: on_the_way_def u_def)
    moreover have "run_gpt tx k s = u" using TRun by (simp add: run_gpt_def u_def)
    ultimately show ?thesis using cur by (simp add: gpt_inv_def u_def)
  next
    case (TReply r)
    then have r: "r = gpt_reply tx (s_input s)" using inv mem by (simp add: gpt_inv_def)
    have "answered tx (s_input s) (run_gpt tx k s)" "s_input (run_gpt tx k s) = s_input s" "s_threads (run_gpt tx k s) = (s_threads s)[k := TStored]"
      using TReply r by (auto simp: run_gpt_def answered_def gpt_reply_def)
    then show ?thesis using inv cur new unfolding gpt_inv_def by fastforce
  next
    case TStored
    then have "answered tx (s_input s) s" using inv mem by (simp add: gpt_inv_def)
    then show ?thesis using inv cur new TStored unfolding gpt_inv_def by (fastforce simp: run_gpt_def answered_def)
  qed (use k(2) in auto)
qed

lemma writer_inv:
  assumes inv: "gpt_inv tx s" and i: "i < length (s_writers s)"
  shows "gpt_inv tx (trigger_gpt i s)"
proof -
  note I = inv [unfolded gpt_inv_def]
  have here: "y \<in> set ((s_writers s)[i := y])" for y using i by (simp add: set_update_memI)
  show ?thesis
  proof (cases "s_writers s ! i")
    case WCheck
    show ?thesis
    proof (cases "current_alive s")
      case True
      then obtain k where k: "s_current s = Some k" "is_alive (s_threads s ! k)" by (auto simp: current_alive_def split: option.splits)
      then have m: "s_threads s ! k \<in> set (s_threads s)" using I by simp
      define u where "u = s\<lparr>s_writers := remove_at i (s_writers s)\<rparr>"
      have "TRun \<in> set (s_threads s) \<or> (\<exists>r. TReply r \<in> set (s_threads s)) \<or> TStored \<in> set (s_threads s)"
        using m k(2) by (metis gpt_thread.exhaust is_alive.simps(1,5))
      then have "answered tx (s_input s) s \<or> on_the_way u" using I unfolding on_the_way_def u_def by auto
      then have "gpt_inv tx u" using I by (simp add: gpt_inv_def u_def)
      then show ?thesis using WCheck True by (simp add: trigger_gpt_def u_def)
    next
      case False
      then show ?thesis using WCheck I here by (simp add: trigger_gpt_def gpt_inv_def on_the_way_def)
    qed
  next
    case WAssign
    then show ?thesis using I here by (auto simp: trigger_gpt_def gpt_inv_def on_the_way_def)
  next
    case WStart
    define v where "v = remove_at i (s_writers s)"
    have rest: "WCheck \<in> set (s_writers s) \<Longrightarrow> WCheck \<in> set v" "WAssign \<in> set (s_writers s) \<Longrightarrow> WAssign \<in> set v"
      using remove_at_mem [OF i] WStart by (simp_all add: v_def)
    show ?thesis
    proof (cases "\<exists>k. s_current s = Some k \<and> s_threads s ! k = TNew")
      case True
      then obtain k where k: "s_current s = Some k" "s_threads s ! k = TNew" "k < length (s_threads s)" using I by blast
      have "TRun \<in> set ((s_threads s)[k := TRun])" using k(3) by (simp add: set_update_memI)
      moreover have "x = TRun \<or> x \<in> set (s_threads s)" if "x \<in> set ((s_threads s)[k := TRun])" for x
        using that set_update_subset_insert [of "s_threads s" k TRun] by auto
      ultimately show ?thesis using WStart k I by (fastforce simp: trigger_gpt_def gpt_inv_def on_the_way_def)
    next
      case False
      define u where "u = s\<lparr>s_writers := v, s_failed := s_failed s + 1\<rparr>"
      have "answered tx (s_input s) s \<or> on_the_way u" using I rest False by (auto simp: on_the_way_def u_def)
      then have "gpt_inv tx u" using I by (simp add: gpt_inv_def u_def)
      then show ?thesis using WStart False by (auto simp: trigger_gpt_def u_def v_def split: option.splits)
    qed
  qed
qed

lemma timely_inv:
  "gpt_inv tx s \<Longrightarrow> timely tx es s \<Longrightarrow> gpt_run tx es s = Some t \<Longrightarrow> gpt_inv tx t"
proof (induction es arbitrary: s)
  case (Cons e es)
  obtain u where u: "gpt_exec tx e s = Some u" "gpt_run tx es u = Some t" using Cons.prems(3) by (auto split: option.splits)
  have "gpt_inv tx u"
  proof (cases e)
    case (EvWrite data offset)
    then show ?thesis using u(1) Cons.prems write_inv [of s tx data offset] by (auto simp: gpt_inv_def)
  next
    case (EvWriter i)
    then show ?thesis using u(1) writer_inv [OF Cons.prems(1), of i] by (auto split: if_splits)
  next
    case (EvThread k)
    then show ?thesis using u(1) thread_inv [OF Cons.prems(1), of k] by (auto split: if_splits)
  qed (use Cons.prems(2) in simp)
  then show ?case using Cons u by simp
qed simp

text \<open>A session at rest has answered everything.\<close>

lemma quiet_answered: "gpt_inv tx s \<Longrightarrow> quiet s \<Longrightarrow> answered tx (s_input s) s"
  by (fastforce simp: gpt_inv_def quiet_def on_the_way_def)

text \<open>The pieces behind the first are appended.\<close>

lemma run_input:
  "gpt_run tx es s = Some t \<Longrightarrow> timely tx es s \<Longrightarrow> \<forall>p \<in> set (pieces es). snd p \<noteq> 0 \<Longrightarrow> s_input t = s_input s @ concat (map fst (pieces es))"
proof (induction es arbitrary: s)
  case (Cons e es)
  obtain u where u: "gpt_exec tx e s = Some u" "gpt_run tx es u = Some t" using Cons.prems(1) by (auto split: option.splits)
  have "s_input u = s_input s @ concat (map fst (pieces [e]))"
    using u(1) Cons.prems(2,3)
    by (cases e) (auto simp: write_input_def trigger_gpt_def run_gpt_def split: if_splits writer.splits gpt_thread.splits sum.splits option.splits)
  moreover have "pieces (e # es) = pieces [e] @ pieces es" by (cases e) simp_all
  ultimately show ?case using Cons.IH [OF u(2)] Cons.prems u(1) by simp
qed simp

subsection \<open>Coming to rest\<close>

text \<open>What is left to do for the writers and threads there are.\<close>

fun writer_work :: "writer \<Rightarrow> nat" where
  "writer_work WCheck = 6" | "writer_work WAssign = 5" | "writer_work WStart = 4"

fun thread_work :: "gpt_thread \<Rightarrow> nat" where
  "thread_work TRun = 3" | "thread_work (TReply r) = 2" | "thread_work TStored = 1" | "thread_work _ = 0"

definition gpt_work :: "gpt_session \<Rightarrow> nat" where
  "gpt_work s = sum_list (map writer_work (s_writers s)) + sum_list (map thread_work (s_threads s))"

lemma work_update: "i < length xs \<Longrightarrow> sum_list (map f (xs[i := y])) + f (xs ! i) = sum_list (map f xs) + (f y :: nat)"
  by (induction xs arbitrary: i) (auto split: nat.splits)

lemma work_remove: "i < length xs \<Longrightarrow> sum_list (map f (remove_at i xs)) + f (xs ! i) = (sum_list (map f xs) :: nat)"
proof -
  assume "i < length xs"
  from id_take_nth_drop [OF this] have "sum_list (map f xs) = sum_list (map f (take i xs @ xs ! i # drop (Suc i) xs))" by simp
  then show ?thesis by (simp add: remove_at_def)
qed

lemma exec_work:
  assumes "gpt_exec tx e s = Some t" "pieces [e] = []" "\<forall>len. e \<noteq> EvTruncate len" "\<forall>k. s_current s = Some k \<longrightarrow> k < length (s_threads s)"
  shows "gpt_work t < gpt_work s \<and> (\<forall>k. s_current t = Some k \<longrightarrow> k < length (s_threads t))"
proof (cases e)
  case (EvWriter i)
  then have i: "i < length (s_writers s)" "t = trigger_gpt i s" using assms(1) by (simp_all split: if_splits)
  note w = work_update [OF i(1), where f = writer_work] work_remove [OF i(1), of writer_work]
  show ?thesis
  proof (cases "s_writers s ! i")
    case WCheck
    then show ?thesis using w(2) w(1) [of WAssign] i(2) assms(4) by (auto simp: trigger_gpt_def gpt_work_def)
  next
    case WAssign
    then show ?thesis using w(1) [of WStart] i(2) by (auto simp: trigger_gpt_def gpt_work_def)
  next
    case WStart
    have "sum_list (map thread_work ((s_threads s)[k := TRun])) = sum_list (map thread_work (s_threads s)) + 3"
      if "s_current s = Some k" "s_threads s ! k = TNew" for k
      using work_update [of k "s_threads s" thread_work TRun] that assms(4) by simp
    then show ?thesis using WStart w(2) i(2) assms(4) by (auto simp: trigger_gpt_def gpt_work_def split: option.splits)
  qed
next
  case (EvThread k)
  then have k: "k < length (s_threads s)" "is_alive (s_threads s ! k)" "t = run_gpt tx k s" using assms(1) by (simp_all split: if_splits)
  note w = work_update [OF k(1), where f = thread_work]
  show ?thesis
  proof (cases "s_threads s ! k")
    case TRun
    then show ?thesis using w [of "TReply (gpt_reply tx (s_input s))"] k(3) assms(4) by (simp add: run_gpt_def gpt_work_def)
  next
    case (TReply r)
    then show ?thesis using w [of TStored] k(3) assms(4) by (cases r) (simp_all add: run_gpt_def gpt_work_def)
  next
    case TStored
    then show ?thesis using w [of TDone] k(3) assms(4) by (simp add: run_gpt_def gpt_work_def)
  qed (use k(2) in auto)
qed (use assms in auto)

lemma run_work:
  "gpt_run tx es s = Some t \<Longrightarrow> timely tx es s \<Longrightarrow> pieces es = [] \<Longrightarrow> \<forall>k. s_current s = Some k \<longrightarrow> k < length (s_threads s) \<Longrightarrow>
   length es + gpt_work t \<le> gpt_work s"
proof (induction es arbitrary: s)
  case (Cons e es)
  obtain u where u: "gpt_exec tx e s = Some u" "gpt_run tx es u = Some t" using Cons.prems(1) by (auto split: option.splits)
  have "pieces [e] = []" "pieces es = []" "\<forall>len. e \<noteq> EvTruncate len" using Cons.prems(2,3) by (cases e; simp)+
  then show ?case using exec_work [OF u(1)] Cons.IH [OF u(2)] Cons.prems u(1) by fastforce
qed simp

lemma can_move: "\<not> quiet s \<Longrightarrow> \<exists>e t. gpt_exec tx e s = Some t \<and> pieces [e] = [] \<and> (\<forall>len. e \<noteq> EvTruncate len)"
proof (cases "s_writers s")
  case (Cons w ws)
  then show ?thesis by (intro exI [of _ "EvWriter 0"]) simp
next
  case Nil
  assume "\<not> quiet s"
  then obtain k where "k < length (s_threads s)" "is_alive (s_threads s ! k)" using Nil by (auto simp: quiet_def in_set_conv_nth)
  then show ?thesis by (intro exI [of _ "EvThread k"]) simp
qed

text \<open>C39. A text written to the input of a resting session in pieces, the first at offset 0 and the others behind it, arrives whole and is
  answered, in every order in which the writers and threads of the pieces run, provided that no piece is written while a
  thread has read the input and not ended yet (and nothing is truncated): the input is all the pieces, as long as the session is not at rest somebody
  can move, without further writes it is at rest after at most \<^verbatim>\<open>gpt_work\<close> steps of its writers and threads, and at rest the output is the
  reply to all of the input, or the error tells why there is none.\<close>

theorem gpt_chunks_answered:
  assumes "settled s" "gpt_run tx (EvWrite c 0 # es) s = Some t" "timely tx (EvWrite c 0 # es) s" "\<forall>p \<in> set (pieces es). snd p \<noteq> 0"
  shows "s_input t = concat (c # map fst (pieces es)) \<and> (quiet t \<longrightarrow> answered tx (concat (c # map fst (pieces es))) t)
    \<and> (\<not> quiet t \<longrightarrow> (\<exists>e u. gpt_exec tx e t = Some u \<and> pieces [e] = [] \<and> (\<forall>len. e \<noteq> EvTruncate len)))
    \<and> (\<forall>fs u. gpt_run tx fs t = Some u \<and> timely tx fs t \<and> pieces fs = [] \<longrightarrow> length fs \<le> gpt_work t)"
proof -
  define s1 where "s1 = write_input c 0 s"
  have r: "gpt_run tx es s1 = Some t" "timely tx es s1" using assms(2,3) by (simp_all add: s1_def)
  have "gpt_inv tx s1" unfolding s1_def using assms(1,3) by (intro write_inv) (auto simp: settled_def)
  then have inv: "gpt_inv tx t" using timely_inv r by blast
  have i: "s_input t = concat (c # map fst (pieces es))" using run_input [OF r assms(4)] by (simp add: s1_def write_input_def)
  have "length fs \<le> gpt_work t" if "gpt_run tx fs t = Some u" "timely tx fs t" "pieces fs = []" for fs u
    using run_work [OF that] inv by (simp add: gpt_inv_def)
  then show ?thesis using i quiet_answered [OF inv] can_move [of t tx] by auto
qed

theorem gpt_chunks_answered_witness:
  "\<exists>t. gpt_run demo_texts [EvWrite [97] 0, EvWriter 0, EvWrite [98, 99] 1, EvWriter 0, EvWriter 0, EvWriter 0, EvThread 0, EvThread 0, EvThread 0]
      GPTSession = Some t \<and> s_output t = reply_prefix @ [97, 98, 99]"
proof -
  define es where "es = [EvWriter 0, EvWrite [98, 99] 1, EvWriter 0, EvWriter 0, EvWriter 0, EvThread 0, EvThread 0, EvThread 0]"
  note d = write_input_def trigger_gpt_def current_alive_def run_gpt_def gpt_reply_def remove_at_def GPTSession_def
  have s: "settled GPTSession" by (simp add: settled_def quiet_def GPTSession_def)
  obtain t where t: "gpt_run demo_texts (EvWrite [97] 0 # es) GPTSession = Some t" "quiet t" "timely demo_texts (EvWrite [97] 0 # es) GPTSession"
    by (simp add: es_def d quiet_def)
  have "\<forall>p \<in> set (pieces es). snd p \<noteq> 0" "concat ([97] # map fst (pieces es)) = [97, 98, 99]" by (simp_all add: es_def)
  then have "answered demo_texts [97, 98, 99] t" using gpt_chunks_answered [OF s t(1,3)] t(2) by simp
  then show ?thesis using t(1) by (auto simp: answered_def es_def)
qed

subsection \<open>Directories\<close>

text \<open>A new session is listed and empty, and removing it makes its files unknown; the others are as they were.\<close>

lemma gpt_mkdir_new:
  assumes "path_parts path = [n]" "n \<notin> fst ` set (sessions fs)"
  shows "fst (gpt_mkdir path fs) = 0" "map_of (sessions (snd (gpt_mkdir path fs))) n = Some (length (objects fs))"
    "objects (snd (gpt_mkdir path fs)) ! length (objects fs) = GPTSession"
    "m \<noteq> n \<Longrightarrow> map_of (sessions (snd (gpt_mkdir path fs))) m = map_of (sessions fs) m"
proof -
  have "map_of (sessions fs) n = None" using assms(2) by (simp add: map_of_eq_None_iff)
  then show "fst (gpt_mkdir path fs) = 0" "map_of (sessions (snd (gpt_mkdir path fs))) n = Some (length (objects fs))"
    "objects (snd (gpt_mkdir path fs)) ! length (objects fs) = GPTSession"
    "m \<noteq> n \<Longrightarrow> map_of (sessions (snd (gpt_mkdir path fs))) m = map_of (sessions fs) m"
    using assms by (simp_all add: gpt_mkdir_def map_add_def split: option.splits)
qed

lemma gpt_rmdir_gone:
  assumes "path_parts path = [n]" "n \<in> fst ` set (sessions fs)"
  shows "fst (gpt_rmdir path fs) = Inr 0" "map_of (sessions (snd (gpt_rmdir path fs))) n = None"
    "m \<noteq> n \<Longrightarrow> map_of (sessions (snd (gpt_rmdir path fs))) m = map_of (sessions fs) m"
proof -
  have "map_of (filter (\<lambda>(k, a). k \<noteq> n) xs) m = (if m = n then None else map_of xs m)" for xs :: "(string \<times> nat) list" and m
    by (induction xs) auto
  then show "fst (gpt_rmdir path fs) = Inr 0" "map_of (sessions (snd (gpt_rmdir path fs))) n = None"
    "m \<noteq> n \<Longrightarrow> map_of (sessions (snd (gpt_rmdir path fs))) m = map_of (sessions fs) m"
    using assms by (simp_all add: gpt_rmdir_def)
qed

text \<open>A truncation never lengthens the input, and only offset 0 replaces it.\<close>

lemma gpt_truncate_no_extend: "length (s_input (truncate_input len s)) \<le> length (s_input s)"
  by (simp add: truncate_input_def)

end
