(* ===== verification/Spec2Isabelle.thy ===== *)
theory Spec2Isabelle
  imports KV_Concurrent Net_Calls VDSO_Task ACPI_Tables Runtime_Info User_Programs Ramfs_Fsync Tcpdump Sysctl_Handlers Sysctl_Bitmap Ext4_Files GPT_FS
begin

text \<open>
  \<^bold>\<open>What the program is.\<close> The repository is a set of operating system exercises: a modified Linux 5.15.178
  (\<^verbatim>\<open>src/linux-5.15.178\<close>) and the programs around it. The parts, and how they meet:

  \<^item> a key-value store in every process, two system calls over a hash table with one spinlock per bucket, hooked
    into fork, exec and exit, and called from a Lua binding;
  \<^item> per-thread fairness accounting of sockets, called from \<^verbatim>\<open>net/socket.c\<close> when sockets open, close, send and
    receive, and a server and a packet dumper in user space;
  \<^item> the task structure mapped read-only into every process next to the vDSO, and the user code that reads it;
  \<^item> a \<^verbatim>\<open>custom.\<close> name space of extended attributes, from the system calls through permission checks and handlers
    to the attribute tables of ext4, and a tool that uses it; an in-memory attribute store; a ramfs whose \<^verbatim>\<open>fsync\<close>
    copies files to a backup; a FUSE file system of sessions;
  \<^item> firmware: a UEFI application that walks and changes ACPI tables, and a DXE driver that passes a string
    to a kernel module through EFI variables;
  \<^item> the sysctl handlers of \<^verbatim>\<open>kernel/sysctl.c\<close>, which the exercises extend by entries.

  \<^bold>\<open>How it is modelled.\<close> Every C function is one definition of the same name (leading underscores become
  \<^verbatim>\<open>u_\<close>). Integers keep their width as words where wrap-around matters. A return value of C is a value of the
  model; undefined behaviour, an access outside an object or through a freed or null pointer, is a fault, the left
  side of \<^verbatim>\<open>kres\<close> (\<^verbatim>\<open>OS_Prelude\<close>). Code that is not in the repository, or is vendored and unchanged below an
  interface, is a parameter, mostly a field of an environment record, and what is assumed of it is a named
  predicate on that record or a locale that is interpreted on a concrete instance.

  \<^bold>\<open>Theories.\<close>

  \<^descr>[\<^verbatim>\<open>OS_Prelude\<close>] types, error numbers, faults, the result monad, lemmas on lists and maps, and the locale
    \<^verbatim>\<open>transition_system\<close>: an invariant that holds at first and is kept by every step holds in every
    reachable state.
  \<^descr>[\<^verbatim>\<open>KV_Store\<close>, \<^verbatim>\<open>KV_Process\<close>, \<^verbatim>\<open>KV_Concurrent\<close>] \<^verbatim>\<open>kernel/kv_store.c\<close> and its hooks in \<^verbatim>\<open>fork.c\<close>, \<^verbatim>\<open>exit.c\<close> and
    \<^verbatim>\<open>exec.c\<close>. Nodes live in a heap of addresses, so that copied list heads alias. Shown: the calls refine a map per
    process (the locale \<^verbatim>\<open>kv_service\<close>, interpreted on the kernel model), fork isolates, exit frees exactly the
    process's nodes, exactly which keys index out of bounds, a use after free on exec in a thread; and for every
    interleaving of threads, mutual exclusion, absence of deadlock, and linearizability: the history of calls, commits
    and returns of an execution (\<^verbatim>\<open>kv_exec\<close>) is a run of the sequential map (\<^verbatim>\<open>spec_run\<close>).
  \<^descr>[\<^verbatim>\<open>Socket_Fairness\<close>, \<^verbatim>\<open>Net_Socket\<close>, \<^verbatim>\<open>Net_Calls\<close>] \<^verbatim>\<open>net/core/socket_fairness.c\<close> and \<^verbatim>\<open>net/socket.c\<close>. The locale
    \<^verbatim>\<open>socket_accounting\<close> states what the socket layer needs of the manager. Shown: balanced accounting for tracked
    threads, memory safety from the zeroed manager, what untracked closings, failed calls and accepted sockets
    do to the limits, round trip and absence of leaks of \<^verbatim>\<open>socket\<close>, bounds of addresses.
  \<^descr>[\<^verbatim>\<open>VDSO_Task\<close>] \<^verbatim>\<open>vma.c\<close>, \<^verbatim>\<open>vdso-access.c\<close>, \<^verbatim>\<open>vdso_get_task_info.c\<close>: the areas mapped, the address computed
    in user space, what a process reads and when it mixes two tasks.
  \<^descr>[\<^verbatim>\<open>ACPI_Tables\<close>, \<^verbatim>\<open>Runtime_Info\<close>] \<^verbatim>\<open>MyPkg\<close> and \<^verbatim>\<open>drivers/firmware/efi/my_runtime_info.c\<close>: anonymised tables
    have a zero sum, the string arrives, the buffer is never overrun.
  \<^descr>[\<^verbatim>\<open>User_Programs\<close>, \<^verbatim>\<open>Tcpdump\<close>, \<^verbatim>\<open>C_Numbers\<close>] the user programs, the length filter of tcpdump with its
    options and file rotation, and the number conversions of the C library they use.
  \<^descr>[\<^verbatim>\<open>VFS_Permission\<close>, \<^verbatim>\<open>Simple_Xattr\<close>, \<^verbatim>\<open>VFS_Xattr\<close>] \<^verbatim>\<open>fs/namei.c\<close> (permissions), \<^verbatim>\<open>fs/xattr.c\<close>. Shown: the
    permission decision equals a reference by class and bits, the store refines a map (locale \<^verbatim>\<open>xattr_store\<close>)
    without leaks, and \<^verbatim>\<open>custom.\<close> attributes need the capability and reach ext4 by exactly one call.
  \<^descr>[\<^verbatim>\<open>Ext4_Xattr\<close>] \<^verbatim>\<open>fs/ext4/xattr.c\<close>, reading and listing, on bytes: no content of the disk makes
    a read leave the inode or the block.
  \<^descr>[\<^verbatim>\<open>Ext4_EA_Inode\<close>, \<^verbatim>\<open>Ext4_Table\<close>, \<^verbatim>\<open>Ext4_Table_Inv\<close>, \<^verbatim>\<open>Ext4_Xattr_Set\<close>] the same file, writing: values in
    inodes of their own (\<^verbatim>\<open>ext4_xattr_inode_lookup_create\<close> and below), the change of one entry byte by byte
    (\<^verbatim>\<open>ext4_xattr_set_entry\<close>), and the body of the inode (\<^verbatim>\<open>ext4_xattr_ibody_find\<close>, \<^verbatim>\<open>ext4_xattr_ibody_set\<close>). A well-formed
    table is \<^verbatim>\<open>xtab\<close>, its meaning the map \<^verbatim>\<open>tmap\<close>. Shown: the change implements the update of the map and decides
    exactly by the room, what is set is read back, references and quota are balanced (with the one exception of an error
    after a removal under inline data), and the table stays
    well formed (interpretation \<^verbatim>\<open>ibody\<close> of \<^verbatim>\<open>transition_system\<close>).
  \<^descr>[\<^verbatim>\<open>Ext4_Block\<close>, \<^verbatim>\<open>Ext4_Block_Inv\<close>, \<^verbatim>\<open>Ext4_Share\<close>, \<^verbatim>\<open>Ext4_Files\<close>] the block of attributes that inodes share:
    \<^verbatim>\<open>ext4_xattr_block_find\<close>, \<^verbatim>\<open>ext4_xattr_block_set\<close>, \<^verbatim>\<open>ext4_xattr_release_block\<close>, the comparison and the cache of blocks, the
    credits, \<^verbatim>\<open>ext4_xattr_set_handle\<close> and \<^verbatim>\<open>ext4_xattr_set\<close>. The abstract device \<^verbatim>\<open>adev\<close> maps a block to its count and its
    attributes; \<^verbatim>\<open>dev\<close> relates it to the bytes. Shown, without values in inodes and with one call at a time: a change is the
    update of a map on that device whatever the services answer, files that share a block never see each other's
    changes, and no block is freed while a file has it (interpretation \<^verbatim>\<open>sharing\<close> of \<^verbatim>\<open>transition_system\<close>).
  \<^descr>[\<^verbatim>\<open>Ramfs_Fsync\<close>, \<^verbatim>\<open>GPT_FS\<close>] \<^verbatim>\<open>fs/ramfs/file-mmu.c\<close> and \<^verbatim>\<open>FS/Task2/gptfs.py\<close>. Shown of the sessions: in every
    interleaving the output answers a content the input had; a text written in pieces is answered as a whole if no piece
    is written while a thread has read the input and not ended (\<^verbatim>\<open>timely\<close>), and else the reply may stay stale.
  \<^descr>[\<^verbatim>\<open>Sysctl_Text\<close>, \<^verbatim>\<open>Sysctl_Vec\<close>, \<^verbatim>\<open>Sysctl_Handlers\<close>, \<^verbatim>\<open>Sysctl_Bitmap\<close>] \<^verbatim>\<open>kernel/sysctl.c\<close>. The locales
    \<^verbatim>\<open>integer_parser\<close>, \<^verbatim>\<open>int_cell_conv\<close> and \<^verbatim>\<open>int_conv_roundtrip\<close> carry the round trips of all handlers built on
    the vector loop; bounded entries never leave their range; the bitmap handler returns and round-trips.
  \<^descr>[this theory] the attribute tool on top of the attribute system calls.

  \<^bold>\<open>Bounds and fuel.\<close> Loops over lists, offsets and digits are total functions with a measure. Fuel appears in
  the two loops of the bitmap handler, where one unit per character of the page for a write, and per bit of the
  bitmap for a read, is proved to be enough, and in the
  retry after a broken lease, which takes one answer of a list per attempt. In ext4 the services say how often a call
  that may be repeated is repeated (\<^verbatim>\<open>svc_retries\<close>, \<^verbatim>\<open>bsvc_retries\<close> for allocations, as \<^verbatim>\<open>ext4_should_retry_alloc\<close> limits them;
  \<^verbatim>\<open>bsvc_rounds\<close> for waiting on a cache entry and for searching again past a full block); the theorems hold for every number.

  \<^bold>\<open>Not modelled.\<close> Path walk, inode cache and rename of \<^verbatim>\<open>fs/namei.c\<close> and \<^verbatim>\<open>fs/inode.c\<close>, the protocols and socket
  buffers below \<^verbatim>\<open>proto_ops\<close>, memory, signals, credentials and scheduling in \<^verbatim>\<open>fork.c\<close>, \<^verbatim>\<open>exit.c\<close> and \<^verbatim>\<open>exec.c\<close>:
  unchanged Linux code that the modelled parts see only through the parameters above. The journal, the
  quota code and the caches of ext4 answer as parameters; moving entries to make room (\<^verbatim>\<open>ext4_expand_extra_isize_ea\<close>),
  \<^verbatim>\<open>ext4_xattr_delete_inode\<close>, the superblock flag and fast commits are left out; the rest of tcpdump (option tables, signal handling, capture loop of libpcap); test drivers and
  copies of sources. Weak memory is not modelled: a step of an interleaving is one access under its lock.
\<close>

section \<open>The attribute tool on the attribute system calls\<close>

text \<open>
  \<^verbatim>\<open>FS/Task1/read.c\<close> calls \<^verbatim>\<open>setxattr\<close> and \<^verbatim>\<open>getxattr\<close> of the C library, which turn an error code of the
  kernel into -1.
\<close>

definition libc_ret :: "int \<Rightarrow> int" where
  "libc_ret r = (if r < 0 then - 1 else r)"

definition tool_set_xattr ::
    "'p xattr_env \<Rightarrow> 'p xattr_fs \<Rightarrow> string \<Rightarrow> string \<Rightarrow> u8 list \<Rightarrow> 'p xattr_state \<Rightarrow> tool_out \<times> 'p xattr_state" where
  "tool_set_xattr env fs path akey value st =
     (let v = takeWhile (\<lambda>b. b \<noteq> 0) value;
          (r, st) = sys_setxattr env fs path (Some akey) (Some v) (of_nat (length v)) 0 st in
      (set_file_xattr (\<lambda>_. libc_ret r) value, st))"

definition tool_get_xattr ::
    "'p xattr_env \<Rightarrow> 'p xattr_fs \<Rightarrow> string \<Rightarrow> string \<Rightarrow> 'p xattr_state \<Rightarrow> (tool_out \<times> 'p xattr_state) kres" where
  "tool_get_xattr env fs path akey st =
     kbind (sys_getxattr env fs path (Some akey) (Some (replicate 256 0)) 256 st) (\<lambda>(r, buf, st).
     kbind (get_file_xattr (if libc_ret r = - 1 then None else map_option (take (nat r)) buf)) (\<lambda>out.
     Inr (out, st)))"

text \<open>
  C40. Without \<^verbatim>\<open>CAP_SYS_ADMIN\<close> the tool fails on every attribute in \<^verbatim>\<open>custom.\<close>, on every path: both calls
  report the error and inodes, notifications, write accesses and references are as before.
\<close>

theorem tool_custom_denied:
  assumes "\<not> capable env CAP_SYS_ADMIN" "has_prefix XATTR_CUSTOM_PREFIX akey" "calls_fail_negative env"
  shows "fst (tool_set_xattr env fs path akey value st) = Perror ''setxattr failed'' \<and>
    same_files st (snd (tool_set_xattr env fs path akey value st)) \<and>
    (\<exists>st'. tool_get_xattr env fs path akey st = Inr (Perror ''getxattr failed'', st') \<and> same_files st st')"
proof -
  let ?v = "takeWhile (\<lambda>b. b \<noteq> 0) value"
  obtain r s where s: "sys_setxattr env fs path (Some akey) (Some ?v) (of_nat (length ?v)) 0 st = (r, s)" by fastforce
  from sys_setxattr_custom_denied [OF assms s] have "same_files st s" "r < 0" by simp_all
  with s have "tool_set_xattr env fs path akey value st = (Perror ''setxattr failed'', s)"
    by (simp add: tool_set_xattr_def libc_ret_def set_file_xattr_def)
  moreover obtain e t where "sys_getxattr env fs path (Some akey) (Some (replicate 256 0)) 256 st =
      Inr (e, Some (replicate 256 0), t)" "same_files st t" "e < 0"
    using sys_getxattr_custom_denied [OF assms] by blast
  then have "tool_get_xattr env fs path akey st = Inr (Perror ''getxattr failed'', t)"
    by (simp add: tool_get_xattr_def libc_ret_def get_file_xattr_def getxattr_buf_def)
  ultimately show ?thesis using \<open>same_files st s\<close> \<open>same_files st t\<close> by simp
qed

lemma tool_custom_denied_witness:
  "fst (tool_set_xattr (demo_xenv False) demo_fs ''/f'' ''custom.k'' [7] demo_xstate) = Perror ''setxattr failed''"
proof -
  have "calls_fail_negative (demo_xenv False)" "\<not> capable (demo_xenv False) CAP_SYS_ADMIN"
    by (simp_all add: calls_fail_negative_def demo_xenv_def)
  moreover have "has_prefix XATTR_CUSTOM_PREFIX ''custom.k''"
    by (simp add: has_prefix_def XATTR_CUSTOM_PREFIX_def)
  ultimately show ?thesis using tool_custom_denied [of "demo_xenv False" "''custom.k''" demo_fs "''/f''" "[7]" demo_xstate]
    by blast
qed

end
